(* ===== verification/Bracelet_Prelude.thy ===== *)
theory Bracelet_Prelude
  imports Main "HOL-Library.Word" "HOL-Library.Multiset"
begin

text \<open>
  Vocabulary shared by every component: the machine integer types of the C++ sources, the
  decimal and hexadecimal renderings that \<open>absl::StrFormat\<close> produces, byte and
  character conversions (a \<open>char\<close> and a \<open>uint8_t\<close> are one byte), little-endian
  words (the sources fix x86-64), and list lemmas about splitting buffers.
\<close>

unbundle bit_operations_syntax

section \<open>Machine integers\<close>

type_synonym u8 = "8 word"
type_synonym u16 = "16 word"
type_synonym u32 = "32 word"
type_synonym u64 = "64 word"
type_synonym bytes = "u8 list"

text \<open>Facts that move goals about words to the natural numbers.\<close>
named_theorems word_nat
  "facts that express an unsigned machine word operation on natural numbers"

lemma unat_ucast_small [word_nat]:
  fixes x :: "'a::len word"
  assumes "unat x < 2 ^ LENGTH('b::len)"
  shows "unat (ucast x :: 'b word) = unat x"
  using assms by (simp add: unsigned_ucast_eq unat_mod_distrib take_bit_nat_eq_self)

lemma unat_plus_small [word_nat]:
  fixes x y :: "'a::len word"
  shows "unat x + unat y < 2 ^ LENGTH('a) \<Longrightarrow> unat (x + y) = unat x + unat y"
  by (simp add: unat_word_ariths)

lemma unat_suc_small [word_nat]:
  fixes x :: "'a::len word"
  shows "unat x + 1 < 2 ^ LENGTH('a) \<Longrightarrow> unat (x + 1) = unat x + 1"
  using unat_plus_small [of x 1] by simp

lemma unat_of_nat_small [word_nat]:
  "n < 2 ^ LENGTH('a::len) \<Longrightarrow> unat (of_nat n :: 'a word) = n"
  by (simp add: unat_of_nat take_bit_nat_eq_self)

lemma unat_inject: "unat a = unat b \<Longrightarrow> a = b" for a b :: "'a::len word"
  by (rule unsigned_word_eqI)

lemma ucast_of_nat_32_64: "n < 2 ^ 32 \<Longrightarrow> ucast (of_nat n :: u32) = (of_nat n :: u64)"
  by (rule unat_inject) (simp add: unat_ucast_small unat_of_nat_small)

lemma unat_lt_size: "unat (x :: 'a::len word) < 2 ^ LENGTH('a)"
  by (rule unsigned_less)

lemma drop_bit_eq_0_iff:
  "drop_bit m (w :: 'a::len word) = 0 \<longleftrightarrow> (\<forall>n\<ge>m. \<not> bit w n)"
proof
  assume z: "drop_bit m w = 0"
  show "\<forall>n\<ge>m. \<not> bit w n"
  proof (intro allI impI)
    fix n assume "m \<le> n"
    then have "bit w n = bit (drop_bit m w) (n - m)" by (simp add: bit_drop_bit_eq)
    with z show "\<not> bit w n" by simp
  qed
next
  assume "\<forall>n\<ge>m. \<not> bit w n"
  then show "drop_bit m w = 0" by (intro bit_word_eqI) (simp add: bit_drop_bit_eq)
qed

lemma drop_bit_eq_0_unat: "drop_bit m (w :: 'a::len word) = 0 \<longleftrightarrow> unat w < 2 ^ m"
proof -
  have "drop_bit m w = 0 \<longleftrightarrow> unat w div 2 ^ m = 0"
    by (metis unat_drop_bit_eq drop_bit_eq_div unat_0_iff)
  then show ?thesis by (simp add: div_eq_0_iff)
qed

lemma unat_of_nat_u32: "n < 4294967296 \<Longrightarrow> unat (of_nat n :: u32) = n"
  by (rule unat_of_nat_small) simp

lemma and_1_eq_0: "x AND 1 = 0 \<longleftrightarrow> \<not> bit x 0" for x :: "'a::len word"
  by (auto simp: and_one_eq bit_0 even_iff_mod_2_eq_zero)

lemma bit_push_1: "bit (push_bit 1 x) n \<longleftrightarrow> 0 < n \<and> n < LENGTH('a) \<and> bit x (n - 1)"
  for x :: "'a::len word"
  by (auto simp only: bit_push_bit_iff possible_bit_word less_eq_Suc_le One_nat_def)

lemma bit_double: "bit (x * 2) n \<longleftrightarrow> 0 < n \<and> n < LENGTH('a) \<and> bit x (n - 1)"
  for x :: "'a::len word"
  using bit_push_1 [of x n] by (simp add: push_bit_eq_mult)

lemma push_bit_1_u32: "unat (x :: u32) < 2 ^ 31 \<Longrightarrow> drop_bit 1 (push_bit 1 x) = x"
proof (rule bit_word_eqI)
  fix m assume x: "unat x < 2 ^ 31" and m: "m < LENGTH(32)"
  have "drop_bit 31 x = 0" using x by (simp add: drop_bit_eq_0_unat)
  then have "\<not> bit x 31" by (simp add: drop_bit_eq_0_iff)
  with m show "bit (drop_bit 1 (push_bit 1 x)) m = bit x m"
    by (cases "m = 31") (auto simp: bit_drop_bit_eq bit_double)
qed

section \<open>Rendering numbers\<close>

definition newline :: char where "newline = CHR 0x0A"
definition tab :: char where "tab = CHR 0x09"
definition nul :: char where "nul = CHR 0x00"

definition digit_char :: "nat \<Rightarrow> char" where
  "digit_char d = (if d < 10 then char_of (48 + d) else char_of (87 + d))"

fun show_base :: "nat \<Rightarrow> nat \<Rightarrow> string" where
  "show_base b n =
     (if b < 2 \<or> n < b then [digit_char n] else show_base b (n div b) @ [digit_char (n mod b)])"

declare show_base.simps [simp del]

text \<open>\<open>%d\<close> and \<open>%v\<close> of an unsigned number, \<open>%x\<close>, and \<open>%0wx\<close>.\<close>

definition show_dec :: "nat \<Rightarrow> string" where
  "show_dec n = show_base 10 n"

definition show_hex :: "nat \<Rightarrow> string" where
  "show_hex n = show_base 16 n"

definition pad_zero :: "nat \<Rightarrow> string \<Rightarrow> string" where
  "pad_zero w s = replicate (w - length s) (CHR ''0'') @ s"

definition show_hex16 :: "u64 \<Rightarrow> string" where
  "show_hex16 a = ''0x'' @ pad_zero 16 (show_hex (unat a))"

section \<open>Bytes and characters\<close>

definition byte_of_char :: "char \<Rightarrow> u8" where
  "byte_of_char c = of_char c"

definition char_of_byte :: "u8 \<Rightarrow> char" where
  "char_of_byte b = char_of (unat b)"

lemma char_of_byte_of_char [simp]: "char_of_byte (byte_of_char c) = c"
proof -
  have "(of_char c :: nat) < 2 ^ LENGTH(8)" by simp
  then have "unat (of_nat (of_char c) :: u8) = of_char c" by (rule unat_of_nat_small)
  then show ?thesis by (simp add: char_of_byte_def byte_of_char_def of_nat_of_char)
qed

lemma map_char_of_byte [simp]: "map char_of_byte (map byte_of_char s) = s"
  by (induction s) simp_all

lemma char_byte_comp [simp]: "char_of_byte \<circ> byte_of_char = id"
  by (simp add: fun_eq_iff)

section \<open>Little-endian words\<close>

fun le_bytes :: "nat \<Rightarrow> nat \<Rightarrow> bytes" where
  "le_bytes 0 n = []"
| "le_bytes (Suc k) n = of_nat (n mod 256) # le_bytes k (n div 256)"

fun le_nat :: "bytes \<Rightarrow> nat" where
  "le_nat [] = 0"
| "le_nat (b # bs) = unat b + 256 * le_nat bs"

lemma length_le_bytes [simp]: "length (le_bytes k n) = k"
  by (induction k arbitrary: n) simp_all

lemma le_nat_le_bytes: "n < 256 ^ k \<Longrightarrow> le_nat (le_bytes k n) = n"
proof (induction k arbitrary: n)
  case 0
  then show ?case by simp
next
  case (Suc k)
  then have "n div 256 < 256 ^ k" by (simp add: less_mult_imp_div_less mult.commute)
  with Suc.IH show ?case by (simp add: unat_of_nat_small)
qed

lemma le_bytes_numeral:
  "le_bytes (numeral k) n = of_nat (n mod 256) # le_bytes (pred_numeral k) (n div 256)"
  by (subst numeral_eq_Suc [of k]) (rule le_bytes.simps)

definition le32 :: "u32 \<Rightarrow> bytes" where
  "le32 x = le_bytes 4 (unat x)"

definition le64 :: "u64 \<Rightarrow> bytes" where
  "le64 x = le_bytes 8 (unat x)"

definition read32 :: "bytes \<Rightarrow> u32" where
  "read32 bs = of_nat (le_nat (take 4 bs))"

definition read64 :: "bytes \<Rightarrow> u64" where
  "read64 bs = of_nat (le_nat (take 8 bs))"

lemma length_le32 [simp]: "length (le32 x) = 4" and length_le64 [simp]: "length (le64 y) = 8"
  by (simp_all add: le32_def le64_def)

lemma read32_le32 [simp]: "read32 (le32 x @ bs) = x"
  using unat_lt_size [of x] by (simp add: read32_def le32_def le_nat_le_bytes)

lemma read64_le64 [simp]: "read64 (le64 x @ bs) = x"
  using unat_lt_size [of x] by (simp add: read64_def le64_def le_nat_le_bytes)

section \<open>Splitting lists\<close>

lemma take_drop_exact [simp]:
  "length xs = n \<Longrightarrow> take n (xs @ ys) = xs"
  "length xs = n \<Longrightarrow> drop n (xs @ ys) = ys"
  by simp_all

lemma map_of_append_new: "x \<notin> fst ` set al \<Longrightarrow> map_of (al @ [(x, v)]) x = Some v"
  by (induction al) auto

lemma map_of_append_old: "map_of al x = Some v \<Longrightarrow> map_of (al @ bl) x = Some v"
  by (simp add: map_of_append)

end
