(* ===== verification/Result_Type.thy ===== *)
theory Result_Type
  imports Bracelet_Prelude
begin

text \<open>
  \<open>src/Result\<close>: the error type with its growing message and the \<open>Result\<close> type.
  A C++ computation has three outcomes here: \<open>Ok\<close> with the value, \<open>Err\<close> with an
  \<open>Error\<close>, or \<open>Abort\<close>, which stands for the process dying in \<open>assert\<close>,
  \<open>CHECK\<close> or \<open>abort\<close>. \<open>BRACELET_TRY\<close>, \<open>BRACELET_TRY_CONTEXT\<close> and
  \<open>BRACELET_ENSURE\<close> become \<open>try_r\<close>, \<open>try_ctx\<close> and \<open>ensure\<close>, whose last
  argument is the rest of the function. The stack trace an \<open>Error\<close> records depends on the
  machine and is an argument of \<open>print_error\<close>.
\<close>

section \<open>Errors\<close>

datatype error = Error (message: string)

definition new_error :: "string \<Rightarrow> error" where
  "new_error msg = Error (msg @ [newline, newline])"

definition add_context :: "string \<Rightarrow> error \<Rightarrow> error" where
  "add_context ctx e = Error (message e @ ''With context: '' @ ctx @ [newline])"

definition print_error :: "string \<Rightarrow> error \<Rightarrow> string" where
  "print_error backtrace e =
     ''ERROR: '' @ message e @ [newline] @ ''BACKTRACE:'' @ [newline] @ backtrace @ [newline]"

section \<open>Results\<close>

datatype 'a result = Ok 'a | Err error | Abort

text \<open>Facts that take a successful computation apart.\<close>
named_theorems ok_iff "when a composed computation returns \<open>Ok\<close>"

definition try_r :: "'a result \<Rightarrow> ('a \<Rightarrow> 'b result) \<Rightarrow> 'b result" where
  "try_r m k = (case m of Ok x \<Rightarrow> k x | Err e \<Rightarrow> Err e | Abort \<Rightarrow> Abort)"

definition try_ctx :: "string \<Rightarrow> 'a result \<Rightarrow> ('a \<Rightarrow> 'b result) \<Rightarrow> 'b result" where
  "try_ctx ctx m k =
     (case m of Ok x \<Rightarrow> k x | Err e \<Rightarrow> Err (add_context ctx e) | Abort \<Rightarrow> Abort)"

definition ensure :: "bool \<Rightarrow> string \<Rightarrow> 'a result \<Rightarrow> 'a result" where
  "ensure c msg k = (if c then k else Err (new_error msg))"

definition assert_r :: "bool \<Rightarrow> 'a result \<Rightarrow> 'a result" where
  "assert_r c k = (if c then k else Abort)"

definition has_value :: "'a result \<Rightarrow> bool" where
  "has_value m = (case m of Ok _ \<Rightarrow> True | _ \<Rightarrow> False)"

text \<open>\<open>unwrap\<close>: an error is printed and the process aborts.\<close>

definition unwrap :: "'a result \<Rightarrow> 'a result" where
  "unwrap m = (case m of Ok x \<Rightarrow> Ok x | Err e \<Rightarrow> Abort | Abort \<Rightarrow> Abort)"

lemma try_r_simps [simp]:
  "try_r (Ok x) k = k x" "try_r (Err e) k = Err e" "try_r Abort k = Abort"
  by (simp_all add: try_r_def)

lemma try_ctx_simps [simp]:
  "try_ctx c (Ok x) k = k x" "try_ctx c (Err e) k = Err (add_context c e)"
  "try_ctx c Abort k = Abort"
  by (simp_all add: try_ctx_def)

lemma ensure_simps [simp]:
  "ensure True msg k = k" "ensure False msg k = Err (new_error msg)"
  by (simp_all add: ensure_def)

lemma assert_r_simps [simp]: "assert_r True k = k" "assert_r False k = Abort"
  by (simp_all add: assert_r_def)

lemma unwrap_simps [simp]:
  "unwrap (Ok x) = Ok x" "unwrap (Err e) = Abort" "unwrap Abort = Abort"
  by (simp_all add: unwrap_def)

lemma try_r_ok [ok_iff]: "try_r m k = Ok y \<longleftrightarrow> (\<exists>x. m = Ok x \<and> k x = Ok y)"
  by (cases m) simp_all

lemma try_ctx_ok [ok_iff]: "try_ctx c m k = Ok y \<longleftrightarrow> (\<exists>x. m = Ok x \<and> k x = Ok y)"
  by (cases m) simp_all

lemma ensure_ok [ok_iff]: "ensure c msg k = Ok y \<longleftrightarrow> c \<and> k = Ok y"
  by (simp add: ensure_def)

lemma assert_r_ok [ok_iff]: "assert_r c k = Ok y \<longleftrightarrow> c \<and> k = Ok y"
  by (simp add: assert_r_def)

lemma try_r_cong [fundef_cong]:
  "m = m' \<Longrightarrow> (\<And>x. m' = Ok x \<Longrightarrow> k x = k' x) \<Longrightarrow> try_r m k = try_r m' k'"
  by (cases m') simp_all

lemma try_r_assoc: "try_r (try_r m f) g = try_r m (\<lambda>x. try_r (f x) g)"
  by (cases m) simp_all

lemma ensure_not_abort: "ensure c msg k = Abort \<longleftrightarrow> c \<and> k = Abort"
  by (simp add: ensure_def)

section \<open>Loops that stop at the first failure\<close>

fun for_each :: "('a \<Rightarrow> 's \<Rightarrow> 's result) \<Rightarrow> 'a list \<Rightarrow> 's \<Rightarrow> 's result" where
  "for_each f [] s = Ok s"
| "for_each f (x # xs) s = try_r (f x s) (for_each f xs)"

lemma for_each_append: "for_each f (xs @ ys) s = try_r (for_each f xs s) (for_each f ys)"
proof (induction xs arbitrary: s)
  case (Cons x xs)
  then show ?case by (cases "f x s") simp_all
qed simp

lemma for_each_cong:
  "(\<And>x s. x \<in> set xs \<Longrightarrow> f x s = g x s) \<Longrightarrow> for_each f xs s = for_each g xs s"
proof (induction xs arbitrary: s)
  case (Cons x xs)
  then show ?case by (cases "g x s") simp_all
qed simp

text \<open>A loop whose body keeps an invariant keeps it.\<close>

lemma for_each_inv:
  assumes "for_each f xs s = Ok s'" and "P s"
    and "\<And>x s t. x \<in> set xs \<Longrightarrow> P s \<Longrightarrow> f x s = Ok t \<Longrightarrow> P t"
  shows "P s'"
  using assms
proof (induction xs arbitrary: s)
  case (Cons x xs)
  from Cons.prems(1) obtain t where t: "f x s = Ok t" "for_each f xs t = Ok s'"
    by (auto simp: ok_iff)
  from Cons.prems(2) t(1) have "P t" by (rule Cons.prems(3) [rotated]) simp
  with t(2) show ?case using Cons.prems(3) by (rule Cons.IH) simp_all
qed simp

text \<open>A loop whose body never fails is a fold.\<close>

lemma for_each_fold:
  "(\<And>x s. x \<in> set xs \<Longrightarrow> f x s = Ok (g x s)) \<Longrightarrow> for_each f xs s = Ok (fold g xs s)"
  by (induction xs arbitrary: s) simp_all

section \<open>Contexts pile up at the end of the message\<close>

fun with_contexts :: "string list \<Rightarrow> 'a result \<Rightarrow> 'a result" where
  "with_contexts [] m = m"
| "with_contexts (c # cs) m = with_contexts cs (try_ctx c m Ok)"

lemma with_contexts_ok [simp]: "with_contexts cs (Ok x) = Ok x"
  by (induction cs) simp_all

lemma with_contexts_abort [simp]: "with_contexts cs Abort = Abort"
  by (induction cs) simp_all

lemma with_contexts_err:
  "with_contexts cs (Err e) =
     Err (Error (message e @ concat (map (\<lambda>c. ''With context: '' @ c @ [newline]) cs)))"
  by (induction cs arbitrary: e) (simp_all add: add_context_def)

end
