(* ===== verification/Edge_Types.thy ===== *)
theory Edge_Types
  imports Result_Type
begin

text \<open>
  \<open>src/Edges/Edges.h\<close>: graph nodes packed into 64 bits, the eight kinds of edges, and
  \<open>visitTuple\<close>. A \<open>Node\<close> is a symbol (48 bits, stored plus one) and a local index
  (16 bits, stored plus one, 0 for the symbol itself); the raw value 0 is the null node. Before
  linking the symbol is an index into the symbol table, after linking it is an address.
\<close>

section \<open>Nodes\<close>

datatype node = Node (raw: u64)

definition null_node :: node where
  "null_node = Node 0"

definition node_symbol :: "u64 \<Rightarrow> node result" where
  "node_symbol addr =
     (let a = addr + 1
      in assert_r (drop_bit 48 a = 0) (Ok (Node (push_bit 16 a))))"

definition node_local :: "u64 \<Rightarrow> u64 \<Rightarrow> node result" where
  "node_local symbol local_idx =
     (let s = symbol + 1; l = local_idx + 1
      in assert_r (drop_bit 48 s = 0)
           (assert_r (l < 2 ^ 16) (Ok (Node (push_bit 16 s OR l)))))"

text \<open>\<open>operator bool\<close>, \<open>symbol()\<close> and \<open>local_idx()\<close>; the accessors assert that
  the node is not null.\<close>

definition is_node :: "node \<Rightarrow> bool" where
  "is_node n \<longleftrightarrow> raw n \<noteq> 0"

definition symbol_of :: "node \<Rightarrow> u64" where
  "symbol_of n = drop_bit 16 (raw n) - 1"

definition local_idx_of :: "node \<Rightarrow> u16 option" where
  "local_idx_of n =
     (let raw_local = raw n AND 0xffff
      in if raw_local = 0 then None else Some (ucast (raw_local - 1)))"

definition node_symbol_of :: "node \<Rightarrow> u64 result" where
  "node_symbol_of n = assert_r (is_node n) (Ok (symbol_of n))"

definition node_local_idx :: "node \<Rightarrow> u16 option result" where
  "node_local_idx n = assert_r (is_node n) (Ok (local_idx_of n))"

text \<open>\<open>boost::totally_ordered<Node>\<close>: nodes are compared by their raw value.\<close>

instantiation node :: linorder
begin
definition less_eq_node :: "node \<Rightarrow> node \<Rightarrow> bool" where
  "less_eq_node a b \<longleftrightarrow> raw a \<le> raw b"
definition less_node :: "node \<Rightarrow> node \<Rightarrow> bool" where
  "less_node a b \<longleftrightarrow> raw a < raw b"
instance
  by standard (auto simp: less_eq_node_def less_node_def node.expand)
end

text \<open>The printed form of a node (\<open>AbslStringify\<close>).\<close>

definition show_node :: "node \<Rightarrow> string" where
  "show_node n =
     (if \<not> is_node n then ''Node()''
      else case local_idx_of n of
        Some i \<Rightarrow> ''Node::local('' @ show_hex (unat (symbol_of n)) @ '', '' @
                   show_dec (unat i) @ '')''
      | None \<Rightarrow> ''Node::symbol('' @ show_hex (unat (symbol_of n)) @ '')'')"

subsection \<open>What the accessors return\<close>

text \<open>The largest symbol and local index a node can hold.\<close>

definition symbol_ok :: "u64 \<Rightarrow> bool" where
  "symbol_ok s \<longleftrightarrow> unat s < 2 ^ 48 - 1"

definition local_ok :: "u64 \<Rightarrow> bool" where
  "local_ok l \<longleftrightarrow> unat l < 2 ^ 16 - 1"

lemma symbol_ok_bits: "symbol_ok s \<Longrightarrow> drop_bit 48 (s + 1) = 0"
  and symbol_ok_nz: "symbol_ok s \<Longrightarrow> s + 1 \<noteq> 0"
proof -
  assume "symbol_ok s"
  then have "unat (s + 1) = unat s + 1" "unat s + 1 < 2 ^ 48"
    by (simp_all add: symbol_ok_def unat_suc_small)
  then show "drop_bit 48 (s + 1) = 0" "s + 1 \<noteq> 0"
    by (simp_all only: drop_bit_eq_0_unat) auto
qed

lemma local_ok_bits:
  assumes "local_ok l"
  shows "l + 1 < 2 ^ 16" "drop_bit 16 (l + 1) = 0" "l + 1 \<noteq> 0"
proof -
  from assms have u: "unat (l + 1) = unat l + 1" "unat l + 1 < 2 ^ 16"
    by (simp_all add: local_ok_def unat_suc_small)
  then show "drop_bit 16 (l + 1) = 0" "l + 1 \<noteq> 0"
    by (simp_all only: drop_bit_eq_0_unat) auto
  from u show "l + 1 < 2 ^ 16" by (simp add: word_less_nat_alt)
qed

lemma push_bit_fields:
  fixes s l :: u64
  assumes s: "drop_bit 48 s = 0" and l: "drop_bit 16 l = 0"
  shows "drop_bit 16 (push_bit 16 s OR l) = s" and "(push_bit 16 s OR l) AND 0xffff = l"
proof -
  note hb = s [unfolded drop_bit_eq_0_iff] l [unfolded drop_bit_eq_0_iff]
  show "drop_bit 16 (push_bit 16 s OR l) = s"
  proof (rule bit_word_eqI)
    fix n
    show "bit (drop_bit 16 (push_bit 16 s OR l)) n = bit s n"
      using hb(1) [rule_format, of n] hb(2) [rule_format, of "16 + n"]
      by (cases "n < 48") (auto simp: bit_simps)
  qed
  have m: "(0xffff :: u64) = mask 16" by (simp add: mask_eq_exp_minus_1)
  show "(push_bit 16 s OR l) AND 0xffff = l"
    unfolding m
  proof (rule bit_word_eqI)
    fix n
    show "bit ((push_bit 16 s OR l) AND mask 16) n = bit l n"
      using hb(2) [rule_format, of n] by (cases "n < 16") (auto simp: bit_simps)
  qed
qed

lemma node_symbol_fields:
  assumes "symbol_ok s"
  shows "node_symbol s = Ok (Node (push_bit 16 (s + 1)))"
    and "is_node (Node (push_bit 16 (s + 1)))"
    and "symbol_of (Node (push_bit 16 (s + 1))) = s"
    and "local_idx_of (Node (push_bit 16 (s + 1))) = None"
proof -
  note b = symbol_ok_bits [OF assms]
  have f: "drop_bit 16 (push_bit 16 (s + 1)) = s + 1" "push_bit 16 (s + 1) AND 0xffff = 0"
    using push_bit_fields [of "s + 1" 0] b by simp_all
  from b show "node_symbol s = Ok (Node (push_bit 16 (s + 1)))"
    by (simp add: node_symbol_def)
  show "symbol_of (Node (push_bit 16 (s + 1))) = s"
    by (simp add: symbol_of_def f)
  show "local_idx_of (Node (push_bit 16 (s + 1))) = None"
    by (simp add: local_idx_of_def f)
  show "is_node (Node (push_bit 16 (s + 1)))"
    using f symbol_ok_nz [OF assms] by (auto simp: is_node_def)
qed

lemma node_local_fields:
  assumes "symbol_ok s" and "local_ok l"
  shows "node_local s l = Ok (Node (push_bit 16 (s + 1) OR (l + 1)))"
    and "is_node (Node (push_bit 16 (s + 1) OR (l + 1)))"
    and "symbol_of (Node (push_bit 16 (s + 1) OR (l + 1))) = s"
    and "local_idx_of (Node (push_bit 16 (s + 1) OR (l + 1))) = Some (ucast l)"
proof -
  note b = symbol_ok_bits [OF assms(1)] local_ok_bits [OF assms(2)]
  note f = push_bit_fields [OF b(1) b(3)]
  from b show "node_local s l = Ok (Node (push_bit 16 (s + 1) OR (l + 1)))"
    by (simp add: node_local_def)
  show "symbol_of (Node (push_bit 16 (s + 1) OR (l + 1))) = s"
    by (simp only: symbol_of_def f node.sel add_diff_cancel_right')
  from b(4) show "local_idx_of (Node (push_bit 16 (s + 1) OR (l + 1))) = Some (ucast l)"
    by (simp add: local_idx_of_def f)
  show "is_node (Node (push_bit 16 (s + 1) OR (l + 1)))"
    using f b(4) by (auto simp: is_node_def)
qed

section \<open>Edges\<close>

datatype edge_kind =
  AssignK | LoadK | StoreK | CallK | ReturnK | ArgumentDefinitionK | ArgumentSupplyK
| DlsymPagePointerK

text \<open>The order of the alternatives of \<open>AnyEdge\<close>, and so of every \<open>EdgeTuple\<close>.\<close>

definition all_kinds :: "edge_kind list" where
  "all_kinds =
     [AssignK, LoadK, StoreK, CallK, ReturnK, ArgumentDefinitionK, ArgumentSupplyK,
      DlsymPagePointerK]"

fun indexed :: "edge_kind \<Rightarrow> bool" where
  "indexed CallK = True"
| "indexed ArgumentDefinitionK = True"
| "indexed ArgumentSupplyK = True"
| "indexed _ = False"

definition num_components :: "edge_kind \<Rightarrow> nat" where
  "num_components k = (if indexed k then 3 else 2)"

fun kind_name :: "edge_kind \<Rightarrow> string" where
  "kind_name AssignK = ''Assign''"
| "kind_name LoadK = ''Load''"
| "kind_name StoreK = ''Store''"
| "kind_name CallK = ''Call''"
| "kind_name ReturnK = ''Return''"
| "kind_name ArgumentDefinitionK = ''ArgumentDefinition''"
| "kind_name ArgumentSupplyK = ''ArgumentSupply''"
| "kind_name DlsymPagePointerK = ''DlsymPagePointer''"

text \<open>A \<open>SingletonEdge\<close> has no index; the constructors assert both nodes non-null.\<close>

datatype edge = Edge (kind: edge_kind) (to_node: node) (from_node: node) (edge_idx: u32)

definition mk_edge :: "edge_kind \<Rightarrow> node \<Rightarrow> node \<Rightarrow> u32 \<Rightarrow> edge result" where
  "mk_edge k t f i =
     assert_r (is_node t) (assert_r (is_node f) (Ok (Edge k t f (if indexed k then i else 0))))"

definition show_edge :: "edge \<Rightarrow> string" where
  "show_edge e =
     kind_name (kind e) @ ''('' @ show_node (to_node e) @ '', '' @ show_node (from_node e) @
     (if indexed (kind e) then '', '' @ show_dec (unat (edge_idx e)) else '''') @ '')''"

text \<open>\<open>visitTuple\<close>: the callback runs on each component in order, the first error stops it.\<close>

definition visit_tuple :: "(edge_kind \<Rightarrow> 's \<Rightarrow> 's result) \<Rightarrow> 's \<Rightarrow> 's result" where
  "visit_tuple cb s = for_each cb all_kinds s"

lemma set_all_kinds: "set all_kinds = UNIV"
  by (auto simp: all_kinds_def intro: edge_kind.exhaust)

lemma distinct_all_kinds: "distinct all_kinds"
  by (simp add: all_kinds_def)

lemma num_components_cases: "num_components k = 2 \<or> num_components k = 3"
  by (simp add: num_components_def)

end
