(* ===== verification/Edge_Encoding.thy ===== *)
theory Edge_Encoding
  imports Edge_Types
begin

text \<open>
  \<open>src/Edges/Encoding.h\<close>: section names, the graph header and zig-zag coding, and the
  delta coding of an edge list that \<open>FunctionWriter::finish\<close> and
  \<open>ConcreteFunctionInfo::visitEdgesInner\<close> share. The file format is little-endian.
\<close>

section \<open>Names and headers\<close>

definition BraceletCallsiteDwarfLabelPrefix :: string where
  "BraceletCallsiteDwarfLabelPrefix = ''BRACELET_LAB_''"

record sbom_information =
  ComponentName :: string
  Version :: string

record section_names =
  graph_section :: string
  debug_section :: string
  trace_site_section :: string

definition SectionNames :: "bool \<Rightarrow> section_names" where
  "SectionNames is_apple =
     (if is_apple
      then \<lparr>graph_section = ''__DATA,__GR_graph_edges'',
            debug_section = ''__DATA,__GR_graph_debug'',
            trace_site_section = ''__DATA,__GR_trace_site''\<rparr>
      else \<lparr>graph_section = ''GR_graph_edges'',
            debug_section = ''GR_graph_debug'',
            trace_site_section = ''GR_trace_site''\<rparr>)"

definition GRAPH_MAGIC_NUMBER :: "u32 list" where
  "GRAPH_MAGIC_NUMBER = [0x3ac73b4e, 0x445ecf19]"

record graph_header =
  magic_number :: "u32 list"
  function_data_compressed_size :: u32
  debug_data_compressed_size :: u32
  num_symbols :: u32
  string_blob_length :: u32
  has_debug_locals :: u32
  total_num_locals :: u32
  hdr_num_functions :: u32
  function_array_length :: u32

text \<open>The 40 bytes of a \<open>GraphHeader\<close> in memory, and the \<open>memcpy\<close> back.\<close>

definition header_words :: "graph_header \<Rightarrow> u32 list" where
  "header_words h = magic_number h @
     [function_data_compressed_size h, debug_data_compressed_size h, num_symbols h,
      string_blob_length h, has_debug_locals h, total_num_locals h, hdr_num_functions h,
      function_array_length h]"

definition header_bytes :: "graph_header \<Rightarrow> bytes" where
  "header_bytes h = concat (map le32 (header_words h))"

fun read_words32 :: "nat \<Rightarrow> bytes \<Rightarrow> u32 list" where
  "read_words32 0 bs = []"
| "read_words32 (Suc n) bs = read32 bs # read_words32 n (drop 4 bs)"

definition header_of_bytes :: "bytes \<Rightarrow> graph_header" where
  "header_of_bytes bs =
     (let w = read_words32 10 bs
      in \<lparr>magic_number = take 2 w, function_data_compressed_size = w ! 2,
          debug_data_compressed_size = w ! 3, num_symbols = w ! 4,
          string_blob_length = w ! 5, has_debug_locals = w ! 6, total_num_locals = w ! 7,
          hdr_num_functions = w ! 8, function_array_length = w ! 9\<rparr>)"

definition header_size :: nat where
  "header_size = 40"

definition magic_bytes :: bytes where
  "magic_bytes = concat (map le32 GRAPH_MAGIC_NUMBER)"

lemma read_words32_le32: "read_words32 (length ws) (concat (map le32 ws) @ bs) = ws"
  by (induction ws) simp_all

lemma length_concat_le32: "length (concat (map le32 ws)) = 4 * length ws"
  by (induction ws) simp_all

lemma header_of_header_bytes:
  assumes "length (magic_number h) = 2"
  shows "header_of_bytes (header_bytes h @ bs) = h"
    and "length (header_bytes h) = header_size"
proof -
  from assms obtain a b where m: "magic_number h = [a, b]"
    by (auto simp: numeral_2_eq_2 length_Suc_conv)
  then have len: "length (header_words h) = 10" by (simp add: header_words_def)
  then have "read_words32 10 (header_bytes h @ bs) = header_words h"
    by (metis header_bytes_def read_words32_le32)
  with m show "header_of_bytes (header_bytes h @ bs) = h"
    by (simp add: header_of_bytes_def header_words_def)
  from len show "length (header_bytes h) = header_size"
    by (simp add: header_bytes_def length_concat_le32 header_size_def)
qed

section \<open>Zig-zag\<close>

text \<open>
  \<open>int32_t\<close> values are 32-bit words read by \<open>sint\<close>; \<open>x >> 31\<close> on them is the
  arithmetic shift. The product \<open>2 * x\<close> is computed modulo \<open>2 ^ 32\<close>.
\<close>

definition zigzag_encode :: "u32 \<Rightarrow> u32" where
  "zigzag_encode x = (2 * x) XOR signed_drop_bit 31 x"

definition zigzag_decode :: "u32 \<Rightarrow> u32" where
  "zigzag_decode x = drop_bit 1 x XOR - (x AND 1)"

lemma bit_minus_and_1:
  fixes x :: "'a::len word"
  shows "bit (- (x AND 1)) n \<longleftrightarrow> bit x 0 \<and> n < LENGTH('a)"
  by (cases "bit x 0") (auto simp: and_one_eq odd_iff_mod_2_eq_one even_iff_mod_2_eq_zero bit_0
      split: if_splits)

lemma sign_shift: "signed_drop_bit 31 x = (if bit x 31 then - 1 else 0)" for x :: u32
proof (rule bit_word_eqI)
  fix n assume "n < LENGTH(32)"
  then show "bit (signed_drop_bit 31 x) n = bit (if bit x 31 then - 1 else 0 :: u32) n"
    by (cases "n = 0") (simp_all add: bit_signed_drop_bit_iff)
qed

lemma bit_zigzag_encode:
  "bit (zigzag_encode x) n \<longleftrightarrow> n < 32 \<and> ((0 < n \<and> bit x (n - 1)) \<noteq> bit x 31)"
proof -
  have "bit (push_bit 1 x) n \<longleftrightarrow> 0 < n \<and> n < 32 \<and> bit x (n - 1)"
    by (auto simp only: bit_push_bit_iff) (simp_all add: bit_simps)
  moreover have "push_bit 1 x = 2 * x" by (simp add: push_bit_eq_mult)
  ultimately have two: "bit (2 * x) n \<longleftrightarrow> 0 < n \<and> n < 32 \<and> bit x (n - 1)"
    by (simp only:)
  have "bit (signed_drop_bit 31 x) n \<longleftrightarrow> n < 32 \<and> bit x 31"
    by (simp add: sign_shift)
  with two show ?thesis
    by (auto simp: zigzag_encode_def bit_xor_iff)
qed

lemma zigzag_decode_encode: "zigzag_decode (zigzag_encode x) = x"
proof (rule bit_word_eqI)
  fix n assume n: "n < LENGTH(32)"
  show "bit (zigzag_decode (zigzag_encode x)) n = bit x n"
    using n
    by (cases "n = 31")
      (auto simp: zigzag_decode_def bit_xor_iff bit_minus_and_1 bit_drop_bit_eq bit_zigzag_encode)
qed

lemma zigzag_encode_decode: "zigzag_encode (zigzag_decode x) = x"
proof -
  have "inj zigzag_encode" by (metis injI zigzag_decode_encode)
  then have "surj zigzag_encode" by (rule finite_UNIV_inj_surj [OF finite])
  then obtain y where "x = zigzag_encode y" by blast
  then show ?thesis by (simp add: zigzag_decode_encode)
qed

text \<open>Small magnitudes, of either sign, have small codes.\<close>

lemma zigzag_encode_magnitude:
  "uint (zigzag_encode x) = (if 0 \<le> sint x then 2 * sint x else - 2 * sint x - 1)"
proof -
  define i where "i = sint x"
  have x: "x = of_int i" by (simp add: i_def)
  have r: "- (2 ^ 31) \<le> i" "i < 2 ^ 31"
    using sint_ge [of x] sint_lt [of x] by (simp_all add: i_def)
  have "bit x 31 \<longleftrightarrow> i < 0"
    using bit_last_iff [of x] by (simp add: i_def)
  then have sh: "signed_drop_bit 31 x = (if i < 0 then - 1 else 0)"
    by (simp add: sign_shift)
  have two: "2 * x = of_int (2 * i)" by (simp add: x)
  show ?thesis
  proof (cases "i < 0")
    case True
    then have "zigzag_encode x = NOT (2 * x)" by (simp add: zigzag_encode_def sh)
    also have "\<dots> = of_int (- 2 * i - 1)" by (simp add: not_eq_complement two)
    finally show ?thesis
      using True r by (simp only: uint_word_of_int) (simp add: i_def)
  next
    case False
    then have "zigzag_encode x = of_int (2 * i)" by (simp add: zigzag_encode_def sh two)
    then show ?thesis
      using False r by (simp only: uint_word_of_int) (simp add: i_def)
  qed
qed

end
