(* ===== verification/Object_Api.thy ===== *)
theory Object_Api
  imports Edge_Encoding
begin

text \<open>
  The interface of \<open>src/ObjectParsing/ObjectParsing.h\<close>: the virtual class \<open>Object\<close>
  through which the graph reader and the analyses see an executable or a core dump. The methods
  may change the object (caches, names learnt from relocations), so each takes and returns the
  state \<open>'w\<close> of the world it lives in. \<open>visitSections\<close> runs its callback over the
  sections in order.
\<close>

record obj_section =
  sec_name :: string
  sec_start :: u64
  sec_size :: u64

record 'w object_api =
  isApple :: "'w \<Rightarrow> bool"
  object_sections :: "'w \<Rightarrow> obj_section list result"
  symbolName :: "u64 \<Rightarrow> 'w \<Rightarrow> (string \<times> 'w) result"
  copyData :: "nat \<Rightarrow> u64 \<Rightarrow> 'w \<Rightarrow> (bytes \<times> 'w) result"
  resolvePointers :: "nat \<Rightarrow> u64 \<Rightarrow> 'w \<Rightarrow> (u64 list \<times> 'w) result"

definition pointerSize :: nat where
  "pointerSize = 8"

definition visitSections ::
  "('w, 'm) object_api_scheme \<Rightarrow> (obj_section \<Rightarrow> 'w \<Rightarrow> 'w result) \<Rightarrow> 'w \<Rightarrow> 'w result" where
  "visitSections api callback w =
     try_r (object_sections api w) (\<lambda>ss. for_each callback ss w)"

text \<open>
  What every implementation promises its clients: reads return exactly as many bytes or pointers
  as were asked for, an empty read succeeds and changes nothing, and no method breaks the
  implementation's invariant.
\<close>

locale object_contract =
  fixes api :: "'w object_api" and inv :: "'w \<Rightarrow> bool"
  assumes copyData_length:
      "inv w \<Longrightarrow> copyData api n a w = Ok (bs, w') \<Longrightarrow> length bs = n"
    and copyData_inv: "inv w \<Longrightarrow> copyData api n a w = Ok (bs, w') \<Longrightarrow> inv w'"
    and resolvePointers_length:
      "inv w \<Longrightarrow> resolvePointers api n a w = Ok (ps, w') \<Longrightarrow> length ps = n"
    and resolvePointers_inv: "inv w \<Longrightarrow> resolvePointers api n a w = Ok (ps, w') \<Longrightarrow> inv w'"
    and symbolName_inv: "inv w \<Longrightarrow> symbolName api a w = Ok (s, w') \<Longrightarrow> inv w'"
    and copyData_empty: "inv w \<Longrightarrow> copyData api 0 a w = Ok ([], w)"
    and resolvePointers_empty: "inv w \<Longrightarrow> resolvePointers api 0 a w = Ok ([], w)"
begin

lemma visitSections_inv:
  assumes "visitSections api cb w = Ok w'" and "inv w"
    and "\<And>s w w'. inv w \<Longrightarrow> cb s w = Ok w' \<Longrightarrow> inv w'"
  shows "inv w'"
  using assms by (auto simp: visitSections_def ok_iff elim!: for_each_inv)

end

text \<open>
  A client whose callbacks also change variables of its own, of type \<open>'e\<close>, works on pairs: the
  methods leave those variables alone.
\<close>

definition lift_api :: "'w object_api \<Rightarrow> ('w \<times> 'e) object_api" where
  "lift_api api =
     \<lparr>isApple = (\<lambda>(w, e). isApple api w),
      object_sections = (\<lambda>(w, e). object_sections api w),
      symbolName = (\<lambda>a (w, e). try_r (symbolName api a w) (\<lambda>(nm, w). Ok (nm, w, e))),
      copyData = (\<lambda>n a (w, e). try_r (copyData api n a w) (\<lambda>(bs, w). Ok (bs, w, e))),
      resolvePointers = (\<lambda>n a (w, e). try_r (resolvePointers api n a w) (\<lambda>(ps, w). Ok (ps, w, e)))\<rparr>"

lemma lift_api_simps [simp]:
  "isApple (lift_api api) we = isApple api (fst we)"
  "object_sections (lift_api api) we = object_sections api (fst we)"
  "symbolName (lift_api api) a we = try_r (symbolName api a (fst we)) (\<lambda>(nm, w). Ok (nm, w, snd we))"
  "copyData (lift_api api) n a we = try_r (copyData api n a (fst we)) (\<lambda>(bs, w). Ok (bs, w, snd we))"
  "resolvePointers (lift_api api) n a we =
     try_r (resolvePointers api n a (fst we)) (\<lambda>(ps, w). Ok (ps, w, snd we))"
  by (cases we; simp add: lift_api_def)+

context object_contract begin

lemma lift_contract: "object_contract (lift_api api) (\<lambda>we. inv (fst we))"
proof
  fix we we' :: "'w \<times> 'b" and n a bs
  assume "inv (fst we)" and "copyData (lift_api api) n a we = Ok (bs, we')"
  then have "inv (fst we)" "copyData api n a (fst we) = Ok (bs, fst we')" by (auto simp: ok_iff)
  then show "length bs = n" "inv (fst we')" by (rule copyData_length, rule copyData_inv)
next
  fix we we' :: "'w \<times> 'b" and n a ps
  assume "inv (fst we)" and "resolvePointers (lift_api api) n a we = Ok (ps, we')"
  then have "inv (fst we)" "resolvePointers api n a (fst we) = Ok (ps, fst we')" by (auto simp: ok_iff)
  then show "length ps = n" "inv (fst we')" by (rule resolvePointers_length, rule resolvePointers_inv)
next
  fix we we' :: "'w \<times> 'b" and a nm
  assume "inv (fst we)" and "symbolName (lift_api api) a we = Ok (nm, we')"
  then have "inv (fst we)" "symbolName api a (fst we) = Ok (nm, fst we')" by (auto simp: ok_iff)
  then show "inv (fst we')" by (rule symbolName_inv)
qed (simp_all add: copyData_empty resolvePointers_empty)

end

end
