(* ===== verification/Numerals.thy ===== *)
theory Numerals
  imports Result_Type
begin

text \<open>
  Numbers read back from text: the value of a string of digits in a base up to 16 (what
  \<open>std::stoull\<close> computes), inverse to the renderings of \<open>Bracelet_Prelude\<close>, which are therefore
  injective.
\<close>

section \<open>Reading digits\<close>

definition digit_of :: "char \<Rightarrow> nat option" where
  "digit_of c =
     (let n = of_char c :: nat
      in if 48 \<le> n \<and> n \<le> 57 then Some (n - 48)
         else if 97 \<le> n \<and> n \<le> 102 then Some (n - 87)
         else if 65 \<le> n \<and> n \<le> 70 then Some (n - 55)
         else None)"

text \<open>The value of a string of digits in a base up to 16; \<open>None\<close> if a character is not a digit.\<close>

definition push_digit :: "nat \<Rightarrow> char \<Rightarrow> nat option \<Rightarrow> nat option" where
  "push_digit b c acc =
     (case acc of
        None \<Rightarrow> None
      | Some n \<Rightarrow>
          (case digit_of c of
             None \<Rightarrow> None
           | Some d \<Rightarrow> if d < b then Some (b * n + d) else None))"

definition value_of :: "nat \<Rightarrow> string \<Rightarrow> nat option" where
  "value_of b s = fold (push_digit b) s (Some 0)"

lemma digit_of_char: "d < 16 \<Longrightarrow> digit_of (digit_char d) = Some d"
  by (simp add: digit_of_def digit_char_def Let_def of_char_of)

lemma value_of_snoc: "value_of b (s @ [c]) = push_digit b c (value_of b s)"
  by (simp add: value_of_def)

lemma value_of_show_base: "2 \<le> b \<Longrightarrow> b \<le> 16 \<Longrightarrow> value_of b (show_base b n) = Some n"
proof (induction n rule: less_induct)
  case (less n)
  show ?case
  proof (cases "n < b")
    case True
    with less.prems show ?thesis
      by (subst show_base.simps) (simp add: value_of_def push_digit_def digit_of_char)
  next
    case False
    with less.prems have "value_of b (show_base b (n div b)) = Some (n div b)"
      by (intro less.IH) (simp_all add: div_less_dividend)
    moreover have "n mod b < 16" "n mod b < b" using less.prems
      by (simp_all add: order.strict_trans2 [OF mod_less_divisor])
    moreover have "show_base b n = show_base b (n div b) @ [digit_char (n mod b)]"
      using False less.prems by (subst show_base.simps) simp
    ultimately show ?thesis by (simp add: value_of_snoc push_digit_def digit_of_char)
  qed
qed

lemma value_of_zeros: "0 < b \<Longrightarrow> value_of b (replicate k (CHR ''0'') @ s) = value_of b s"
proof -
  assume b: "0 < b"
  have "push_digit b (CHR ''0'') (Some 0) = Some 0" using b by (simp add: push_digit_def digit_of_def)
  then have "fold (push_digit b) (replicate k (CHR ''0'')) (Some 0) = Some 0" by (induction k) simp_all
  then show ?thesis by (simp add: value_of_def)
qed

lemma value_of_hex16: "value_of 16 (drop 2 (show_hex16 a)) = Some (unat a)"
  by (simp add: show_hex16_def pad_zero_def value_of_zeros show_hex_def value_of_show_base)

lemma value_of_dec: "value_of 10 (show_dec n) = Some n"
  by (simp add: show_dec_def value_of_show_base)

lemma length_show_base: "2 \<le> b \<Longrightarrow> n < b ^ Suc k \<Longrightarrow> length (show_base b n) \<le> Suc k"
proof (induction k arbitrary: n)
  case 0
  then show ?case by (subst show_base.simps) simp
next
  case (Suc k)
  show ?case
  proof (cases "n < b")
    case True
    then show ?thesis by (subst show_base.simps) simp
  next
    case False
    from Suc.prems have "n div b < b ^ Suc k" by (simp add: less_mult_imp_div_less mult.commute)
    from Suc.IH [OF Suc.prems(1) this] False Suc.prems(1) show ?thesis
      by (subst show_base.simps) simp
  qed
qed

lemma length_show_hex16: "length (show_hex16 a) = 18"
proof -
  have "length (show_base 16 (unat a)) \<le> Suc 15"
    using unat_lt_size [of a] by (intro length_show_base) simp_all
  then show ?thesis by (simp add: show_hex16_def pad_zero_def show_hex_def)
qed

lemma show_hex16_inject: "show_hex16 a = show_hex16 b \<Longrightarrow> a = b"
  by (metis value_of_hex16 option.inject unat_inject)

lemma show_dec_inject: "show_dec m = show_dec n \<Longrightarrow> m = n"
  by (metis value_of_dec option.inject)

end
