(* ===== verification/Object_Parsing.thy ===== *)
theory Object_Parsing
  imports Object_Api Numerals "HOL-Library.Multiset"
begin

text \<open>
  \<open>src/ObjectParsing/ObjectParsing.cpp\<close>: from DWARF labels to the addresses and graph nodes of
  callsites, and from inlined subroutines to the functions they were inlined into.
\<close>

section \<open>DWARF as data\<close>

text \<open>
  A debugging information entry with what the code asks of it. \<open>findRecursively\<close> follows the
  abstract origin, so its answers are separate fields; the inline chain of an address, outermost
  last, belongs to the unit. \<open>dw_parent\<close> is the
  position of the enclosing entry, which comes before its children.
\<close>

datatype dw_tag = DW_TAG_label | DW_TAG_inlined_subroutine | DW_TAG_subprogram | DW_TAG_other

record dw_die =
  dw_tag :: dw_tag
  dw_name :: "string result option"          \<comment> \<open>\<open>DW_AT_name\<close>, recursively, as a C string\<close>
  dw_low_pc :: "u64 option"
  dw_low_pc_rec :: "u64 option"
  dw_origin :: bool
  dw_linkage_name :: "string option"
  dw_ranges :: "(u64 \<times> u64) list option"    \<comment> \<open>\<open>None\<close> when reading the ranges fails\<close>
  dw_parent :: "nat option"

record dw_unit =
  dw_dies :: "dw_die list"
  dw_inlined_chain :: "u64 \<Rightarrow> nat list"

section \<open>Labels\<close>

record callsite_edge =
  callsiteAddr :: u64
  nodeID :: node

record inline_edge =
  inlinerID :: node
  inlinedName :: string

text \<open>
  \<open>StringRef::getAsInteger(10, uint64_t &)\<close> is LLVM's and a parameter below. What the label format
  relies on is that it reads the decimal rendering of a number; \<open>decimal_integer\<close> (digits only, at
  least one, no overflow) is such a function.
\<close>

type_synonym integer_reader = "string \<Rightarrow> u64 option"

definition reads_decimal :: "integer_reader \<Rightarrow> bool" where
  "reads_decimal getAsInteger \<longleftrightarrow> (\<forall>n<2 ^ 64. getAsInteger (show_dec n) = Some (of_nat n))"

definition decimal_integer :: integer_reader where
  "decimal_integer s =
     (if s = [] then None
      else case value_of 10 s of
        None \<Rightarrow> None
      | Some n \<Rightarrow> if n < 2 ^ 64 then Some (of_nat n) else None)"

definition ParseNodeIDFromName :: "integer_reader \<Rightarrow> u64 \<Rightarrow> string \<Rightarrow> node result" where
  "ParseNodeIDFromName getAsInteger symbol nm =
     (let nodeIdStr = drop (length BraceletCallsiteDwarfLabelPrefix) nm
      in case getAsInteger nodeIdStr of
           None \<Rightarrow> Err (new_error (''Should be able to parse: '' @ nodeIdStr @ '' as integer''))
         | Some out \<Rightarrow> node_local symbol out)"

definition DwarfAsString :: "string result \<Rightarrow> string result" where
  "DwarfAsString val =
     (case val of
        Ok s \<Rightarrow> Ok s
      | Err e \<Rightarrow> Err (new_error (''Could not convert DWARF from to string '' @ message e))
      | Abort \<Rightarrow> Abort)"

definition RecursivelyGetLabelName :: "dw_die \<Rightarrow> string result" where
  "RecursivelyGetLabelName die =
     (case dw_name die of
        None \<Rightarrow> Err (new_error ''DIE should have a DW_AT_name'')
      | Some nm \<Rightarrow> DwarfAsString nm)"

text \<open>The function address, the callsite's address and its node; \<open>None\<close> for an abstract label.\<close>

definition DwarfLabelDIEToRecord ::
  "integer_reader \<Rightarrow> dw_unit \<Rightarrow> dw_die \<Rightarrow> (u64 \<Rightarrow> u64 result) \<Rightarrow> (u64 \<times> callsite_edge) option result" where
  "DwarfLabelDIEToRecord getAsInteger cu die addrTranslate =
     try_r (RecursivelyGetLabelName die) (\<lambda>decodedName.
       case dw_low_pc die of
         None \<Rightarrow> Ok None
       | Some callsite \<Rightarrow>
           let chain = dw_inlined_chain cu callsite
           in ensure (chain \<noteq> [])
                (''Expected a DWARF subprocedure to contain the callsite address '' @ show_hex (unat callsite))
             (case dw_low_pc_rec (dw_dies cu ! last chain) of
                None \<Rightarrow> Err (new_error (''Subroutine for callsite '' @ show_hex (unat callsite) @
                  '' should have low pc''))
              | Some subsectionAddress \<Rightarrow>
                  try_r (addrTranslate subsectionAddress) (\<lambda>functionAddr.
                  try_r (addrTranslate callsite) (\<lambda>translated.
                  try_r (ParseNodeIDFromName getAsInteger functionAddr decodedName) (\<lambda>n.
                    Ok (Some (functionAddr, \<lparr>callsiteAddr = translated, nodeID = n\<rparr>)))))))"

text \<open>\<open>std::multimap::insert\<close>: behind the entries with an equal key.\<close>

definition mm_insert :: "u64 \<times> 'v \<Rightarrow> (u64 \<times> 'v) list \<Rightarrow> (u64 \<times> 'v) list" where
  "mm_insert kv m =
     takeWhile (\<lambda>x. fst x \<le> fst kv) m @ kv # dropWhile (\<lambda>x. fst x \<le> fst kv) m"

definition has_prefix :: "string \<Rightarrow> string \<Rightarrow> bool" where
  "has_prefix p s \<longleftrightarrow> take (length p) s = p"

definition collect_label ::
  "integer_reader \<Rightarrow> dw_unit \<Rightarrow> (u64 \<Rightarrow> u64 result) \<Rightarrow> dw_die \<Rightarrow> (u64 \<times> callsite_edge) list \<Rightarrow>
   (u64 \<times> callsite_edge) list result" where
  "collect_label getAsInteger cu addrTranslate die res =
     (if dw_tag die = DW_TAG_label then
        try_r (RecursivelyGetLabelName die) (\<lambda>decodedName.
          if has_prefix BraceletCallsiteDwarfLabelPrefix decodedName then
            try_r (DwarfLabelDIEToRecord getAsInteger cu die addrTranslate) (\<lambda>rec.
              case rec of None \<Rightarrow> Ok res | Some r \<Rightarrow> Ok (mm_insert r res))
          else Ok res)
      else Ok res)"

definition CollectCULabels ::
  "integer_reader \<Rightarrow> dw_unit \<Rightarrow> (u64 \<Rightarrow> u64 result) \<Rightarrow> (u64 \<times> callsite_edge) list result" where
  "CollectCULabels getAsInteger cu addrTranslate = for_each (collect_label getAsInteger cu addrTranslate) (dw_dies cu) []"

section \<open>Inlined subroutines\<close>

text \<open>The walk to the enclosing subprogram; asking an invalid entry for its tag aborts.\<close>

function find_subprogram :: "dw_die list \<Rightarrow> nat \<Rightarrow> nat result" where
  "find_subprogram dies i =
     (if length dies \<le> i then Abort
      else if dw_tag (dies ! i) = DW_TAG_subprogram then Ok i
      else case dw_parent (dies ! i) of
        None \<Rightarrow> Abort
      | Some p \<Rightarrow> if p < i then find_subprogram dies p else Abort)"
  by auto
termination by (relation "measure snd") auto

declare find_subprogram.simps [simp del]

definition collect_inline ::
  "dw_unit \<Rightarrow> (u64 \<Rightarrow> u64 result) \<Rightarrow> nat \<Rightarrow> (u64 \<times> inline_edge) list \<Rightarrow> (u64 \<times> inline_edge) list result"
  where
  "collect_inline cu addrTranslate i res =
     (let die = dw_dies cu ! i in
      if dw_tag die = DW_TAG_inlined_subroutine \<and> dw_origin die then
        case dw_linkage_name die of
          None \<Rightarrow> Ok res
        | Some nm \<Rightarrow>
            try_r (find_subprogram (dw_dies cu) i) (\<lambda>j.
              case dw_ranges (dw_dies cu ! j) of
                None \<Rightarrow> Ok res
              | Some ranges \<Rightarrow>
                  if map fst ranges = [] then Ok res
                  else
                    try_r (addrTranslate (Min (set (map fst ranges)))) (\<lambda>inliner.
                    try_r (node_symbol inliner) (\<lambda>n.
                      Ok (mm_insert (inliner, \<lparr>inlinerID = n, inlinedName = nm\<rparr>) res))))
      else Ok res)"

definition CollectCUInlineEdges ::
  "dw_unit \<Rightarrow> (u64 \<Rightarrow> u64 result) \<Rightarrow> (u64 \<times> inline_edge) list result" where
  "CollectCUInlineEdges cu addrTranslate =
     for_each (collect_inline cu addrTranslate) [0..<length (dw_dies cu)] []"

section \<open>Visiting the units of an object\<close>

text \<open>
  \<open>visitDwarfContexts\<close> of an object yields its contexts one by one, each with its address
  translation; opening a context can fail.
\<close>

type_synonym dw_context = "dw_unit list \<times> (u64 \<Rightarrow> u64 result)"

definition visitDwarfContexts ::
  "dw_context result list \<Rightarrow> (dw_context \<Rightarrow> 'w \<Rightarrow> 'w result) \<Rightarrow> 'w \<Rightarrow> 'w result" where
  "visitDwarfContexts contexts visit w = for_each (\<lambda>c w. try_r c (\<lambda>c. visit c w)) contexts w"

definition visitCUAddressMaps ::
  "integer_reader \<Rightarrow> dw_context result list \<Rightarrow> ((u64 \<times> callsite_edge) list \<Rightarrow> 'w \<Rightarrow> 'w result) \<Rightarrow> 'w \<Rightarrow> 'w result" where
  "visitCUAddressMaps getAsInteger contexts visit =
     visitDwarfContexts contexts (\<lambda>(units, addrTranslate).
       for_each (\<lambda>cu w. try_r (CollectCULabels getAsInteger cu addrTranslate) (\<lambda>labs. visit labs w)) units)"

definition visitCUInlineEdges ::
  "dw_context result list \<Rightarrow> ((u64 \<times> inline_edge) list \<Rightarrow> 'w \<Rightarrow> 'w result) \<Rightarrow> 'w \<Rightarrow> 'w result" where
  "visitCUInlineEdges contexts visit =
     visitDwarfContexts contexts (\<lambda>(units, addrTranslate).
       for_each (\<lambda>cu w. try_r (CollectCUInlineEdges cu addrTranslate) (\<lambda>es. visit es w)) units)"

section \<open>Properties\<close>

lemma show_base_nonempty: "show_base b n \<noteq> []"
  by (subst show_base.simps) simp

text \<open>
  The label that the compiler pass attaches to a callsite, the prefix followed by the decimal
  number of its node, is parsed back to exactly that node of the function it is found in.
\<close>

theorem label_roundtrip:
  assumes "reads_decimal getAsInteger" and "i < 2 ^ 64"
  shows "has_prefix BraceletCallsiteDwarfLabelPrefix (BraceletCallsiteDwarfLabelPrefix @ show_dec i) \<and>
    ParseNodeIDFromName getAsInteger func (BraceletCallsiteDwarfLabelPrefix @ show_dec i) =
      node_local func (of_nat i)"
  using assms by (simp add: has_prefix_def ParseNodeIDFromName_def reads_decimal_def)

lemma decimal_integer_reads: "reads_decimal decimal_integer"
  by (simp add: reads_decimal_def decimal_integer_def value_of_dec) (simp add: show_dec_def show_base_nonempty)

lemma mm_insert_mset: "mset (mm_insert kv m) = add_mset kv (mset m)"
proof -
  have "mset m = mset (takeWhile (\<lambda>x. fst x \<le> fst kv) m) + mset (dropWhile (\<lambda>x. fst x \<le> fst kv) m)"
    by (metis mset_append takeWhile_dropWhile_id)
  then show ?thesis by (simp add: mm_insert_def)
qed

lemma sorted_insert_between:
  "sorted (map fst (L @ R)) \<Longrightarrow> \<forall>x\<in>set L. fst x \<le> fst kv \<Longrightarrow> \<forall>y\<in>set R. fst kv \<le> fst y \<Longrightarrow>
    sorted (map fst (L @ kv # R))"
  by (simp add: sorted_append)

lemma mm_insert_sorted:
  assumes "sorted (map fst m)"
  shows "sorted (map fst (mm_insert kv m))"
proof -
  let ?P = "\<lambda>x. fst x \<le> fst kv"
  have s: "sorted (map fst (takeWhile ?P m) @ map fst (dropWhile ?P m))"
    using assms by (metis map_append takeWhile_dropWhile_id)
  have lo: "\<forall>x\<in>set (takeWhile ?P m). fst x \<le> fst kv" by (auto dest: set_takeWhileD)
  have hi: "\<forall>x\<in>set (dropWhile ?P m). fst kv \<le> fst x"
  proof (cases "dropWhile ?P m")
    case (Cons y ys)
    then have "\<not> ?P y" using hd_dropWhile [of ?P m] by simp
    moreover have "\<forall>x\<in>set ys. fst y \<le> fst x" using s Cons by (simp add: sorted_append)
    ultimately show ?thesis using Cons by auto
  next
    case Nil
    show ?thesis unfolding Nil by simp
  qed
  show ?thesis unfolding mm_insert_def by (rule sorted_insert_between) (use assms lo hi in simp_all)
qed

text \<open>The record of a callsite label, if the entry is one.\<close>

definition label_records ::
  "integer_reader \<Rightarrow> dw_unit \<Rightarrow> (u64 \<Rightarrow> u64 result) \<Rightarrow> dw_die \<Rightarrow> (u64 \<times> callsite_edge) list" where
  "label_records getAsInteger cu addrTranslate die =
     (case dw_name die of
        Some (Ok nm) \<Rightarrow>
          if dw_tag die = DW_TAG_label \<and> has_prefix BraceletCallsiteDwarfLabelPrefix nm
          then (case DwarfLabelDIEToRecord getAsInteger cu die addrTranslate of Ok (Some r) \<Rightarrow> [r] | _ \<Rightarrow> [])
          else []
      | _ \<Rightarrow> [])"

lemma collect_label_ok:
  assumes "collect_label getAsInteger cu tr die res = Ok res'"
  shows "mset res' = mset res + mset (label_records getAsInteger cu tr die)"
    and "sorted (map fst res) \<Longrightarrow> sorted (map fst res')"
proof -
  have "res' = res \<and> label_records getAsInteger cu tr die = [] \<or>
      (\<exists>r. res' = mm_insert r res \<and> label_records getAsInteger cu tr die = [r])"
    using assms
    by (auto simp: collect_label_def ok_iff label_records_def RecursivelyGetLabelName_def DwarfAsString_def
        split: if_splits option.splits result.splits)
  then show "mset res' = mset res + mset (label_records getAsInteger cu tr die)"
    "sorted (map fst res) \<Longrightarrow> sorted (map fst res')"
    by (auto simp: mm_insert_mset mm_insert_sorted)
qed

lemma collect_labels_ok:
  "for_each (collect_label getAsInteger cu tr) dies res = Ok res' \<Longrightarrow> sorted (map fst res) \<Longrightarrow>
    sorted (map fst res') \<and> mset res' = mset res + mset (concat (map (label_records getAsInteger cu tr) dies))"
proof (induction dies arbitrary: res)
  case (Cons die dies)
  from Cons.prems(1) obtain res1 where 1: "collect_label getAsInteger cu tr die res = Ok res1"
    and 2: "for_each (collect_label getAsInteger cu tr) dies res1 = Ok res'" by (auto simp: ok_iff)
  from Cons.IH [OF 2] collect_label_ok [OF 1] Cons.prems(2) show ?case by simp
qed simp

text \<open>
  C26. Collecting the labels of a compilation unit yields, ordered by the address of the enclosing
  function, exactly the records of its callsite labels, each as often as it occurs; abstract labels
  and labels that are not ours leave none.
\<close>

theorem CollectCULabels_records:
  assumes "CollectCULabels getAsInteger cu addrTranslate = Ok res"
  shows "sorted (map fst res) \<and> mset res = mset (concat (map (label_records getAsInteger cu addrTranslate) (dw_dies cu)))"
  using collect_labels_ok [OF assms [unfolded CollectCULabels_def]] by simp






subsection \<open>An example\<close>

definition ex_die :: dw_die where
  "ex_die = \<lparr>dw_tag = DW_TAG_subprogram, dw_name = Some (Ok ''main''), dw_low_pc = Some 0x1000,
     dw_low_pc_rec = Some 0x1000, dw_origin = False, dw_linkage_name = None,
     dw_ranges = Some [(0x1000, 0x1100)], dw_parent = None\<rparr>"

definition ex_unit :: dw_unit where
  "ex_unit = \<lparr>dw_dies =
     [ex_die,
      ex_die\<lparr>dw_tag := DW_TAG_label, dw_name := Some (Ok ''BRACELET_LAB_3''), dw_low_pc := Some 0x1010,
        dw_parent := Some 0\<rparr>,
      ex_die\<lparr>dw_tag := DW_TAG_inlined_subroutine, dw_linkage_name := Some ''foo'', dw_origin := True,
        dw_parent := Some 0\<rparr>],
     dw_inlined_chain = (\<lambda>_. [0])\<rparr>"

lemma ex_parse: "ParseNodeIDFromName decimal_integer 0x1000 ''BRACELET_LAB_3'' = Ok (Node 0x10010004)"
  by (simp add: ParseNodeIDFromName_def BraceletCallsiteDwarfLabelPrefix_def decimal_integer_def
      value_of_def push_digit_def digit_of_def node_local_def Let_def push_bit_eq_mult)

theorem label_roundtrip_witness:
  "has_prefix BraceletCallsiteDwarfLabelPrefix (BraceletCallsiteDwarfLabelPrefix @ show_dec 3) \<and>
   ParseNodeIDFromName decimal_integer 0x1000 (BraceletCallsiteDwarfLabelPrefix @ show_dec 3) = node_local 0x1000 (of_nat 3)"
  by (rule label_roundtrip [OF decimal_integer_reads]) simp

lemma ex_collect: "CollectCULabels decimal_integer ex_unit Ok =
    Ok [(0x1000, \<lparr>callsiteAddr = 0x1010, nodeID = Node 0x10010004\<rparr>)]"
  using ex_parse
  by (simp add: CollectCULabels_def ex_unit_def ex_die_def collect_label_def RecursivelyGetLabelName_def
      DwarfAsString_def has_prefix_def BraceletCallsiteDwarfLabelPrefix_def DwarfLabelDIEToRecord_def
      mm_insert_def Let_def)

theorem CollectCULabels_records_witness:
  "sorted (map fst [(0x1000 :: u64, \<lparr>callsiteAddr = 0x1010, nodeID = Node 0x10010004\<rparr>)]) \<and>
   mset [(0x1000, \<lparr>callsiteAddr = 0x1010, nodeID = Node 0x10010004\<rparr>)] =
     mset (concat (map (label_records decimal_integer ex_unit Ok) (dw_dies ex_unit)))"
  by (rule CollectCULabels_records [OF ex_collect])


end
