(* ===== verification/Graph_Writer.thy ===== *)
theory Graph_Writer
  imports Edge_Encoding
begin

text \<open>
  \<open>src/Edges/Writer.h\<close> and \<open>src/Edges/Writer.cpp\<close>: \<open>GraphWriter\<close>, which
  interns symbols and strings and gathers the \<open>uint32_t\<close> stream of a module, and
  \<open>FunctionWriter\<close>, which numbers the locals of one function, stores its edges and appends
  them to the stream when it finishes. LLVM values enter through what the code asks of them:
  identity, linkage, comdat, aliasee, and the file of the debug subprogram.
\<close>

section \<open>What the code sees of LLVM\<close>

record comdat =
  comdat_name :: string
  selection_kind :: nat

record global_object =
  gid :: nat                        \<comment> \<open>pointer identity\<close>
  go_comdat :: "comdat option"
  local_linkage :: bool             \<comment> \<open>internal or private linkage\<close>

datatype global_value = GlobalObject global_object | GlobalAlias (aliasee: global_object)

record llvm_function =
  fn_object :: global_object
  fn_file :: "(string \<times> string) option"  \<comment> \<open>directory and file name of the subprogram\<close>

definition requiredComdat :: "global_object \<Rightarrow> comdat option" where
  "requiredComdat GO =
     (if go_comdat GO = None then None
      else if local_linkage GO then go_comdat GO else None)"

text \<open>\<open>assertComdat\<close> prints and aborts when the comdats differ.\<close>

definition assertComdat :: "comdat option \<Rightarrow> comdat option \<Rightarrow> bool" where
  "assertComdat C OutputComdat =
     (case C of None \<Rightarrow> True
      | Some c \<Rightarrow> (case OutputComdat of None \<Rightarrow> False
          | Some oc \<Rightarrow> selection_kind c = selection_kind oc \<and> comdat_name c = comdat_name oc))"

definition as_u32 :: "u64 \<Rightarrow> u32 result" where
  "as_u32 x = assert_r (x \<le> 0xffffffff) (Ok (ucast x))"

text \<open>The same on a \<open>size()\<close>, a number of elements.\<close>

definition u32_of_size :: "nat \<Rightarrow> u32 result" where
  "u32_of_size n = assert_r (n \<le> 0xffffffff) (Ok (of_nat n))"

section \<open>State\<close>

text \<open>
  The two hash maps only ever grow, so each is the list of its insertions in order, looked up
  with \<open>map_of\<close>; \<open>size()\<close> is the length.
\<close>

record graph_writer =
  StringBlobIndices :: "(string \<times> u32) list"
  StringBlob :: string
  Symbols :: "(nat \<times> u32) list"
  symbols_in_order :: "nat list"
  local_names :: "u32 list"
  function_data :: "u32 list"
  SbomInfo :: "sbom_information option"
  FileToSbomInfo :: "string \<rightharpoonup> sbom_information"
  gw_record_debug_data :: bool
  num_functions :: u32
  OutputComdat :: "comdat option"
  has_active_function_writer :: bool

text \<open>A stored edge: \<open>std::array<uint32_t, 2>\<close> or \<open>3\<close>; the last component is 0 and
  unused in the first case.\<close>

type_synonym raw_edge = "u32 \<times> u32 \<times> u32"

record function_writer =
  ThisSymbolIdx :: u64
  SbomComponentIdx :: u32
  SbomVersionIdx :: u32
  Written :: bool
  fw_record_debug_data :: bool
  num_locals :: u32
  m_edges :: "edge_kind \<Rightarrow> raw_edge list"

definition GraphWriter_init ::
  "comdat option \<Rightarrow> sbom_information option \<Rightarrow> (string \<rightharpoonup> sbom_information) \<Rightarrow> bool
     \<Rightarrow> graph_writer" where
  "GraphWriter_init oc sbom files dbg =
     \<lparr>StringBlobIndices = [], StringBlob = [], Symbols = [], symbols_in_order = [],
      local_names = [], function_data = [], SbomInfo = sbom, FileToSbomInfo = files,
      gw_record_debug_data = dbg, num_functions = 0, OutputComdat = oc,
      has_active_function_writer = False\<rparr>"

section \<open>Operations of \<open>GraphWriter\<close>\<close>

definition underlying_object :: "global_value \<Rightarrow> global_object" where
  "underlying_object GV = (case GV of GlobalObject GO \<Rightarrow> GO | GlobalAlias GO \<Rightarrow> GO)"

definition gw_symbol :: "global_value \<Rightarrow> graph_writer \<Rightarrow> (node \<times> graph_writer) result" where
  "gw_symbol GV gw =
     (let GO = underlying_object GV
      in assert_r (assertComdat (requiredComdat GO) (OutputComdat gw))
          (case map_of (Symbols gw) (gid GO) of
             None \<Rightarrow>
               (let Idx = length (Symbols gw)
                in assert_r (Idx = length (symbols_in_order gw))
                    (try_r (node_symbol (of_nat Idx)) (\<lambda>n.
                       Ok (n, gw\<lparr>Symbols := Symbols gw @ [(gid GO, of_nat Idx)],
                                 symbols_in_order := symbols_in_order gw @ [gid GO]\<rparr>))))
           | Some i \<Rightarrow> try_r (node_symbol (ucast i)) (\<lambda>n. Ok (n, gw))))"

definition gw_string :: "string \<Rightarrow> graph_writer \<Rightarrow> u32 \<times> graph_writer" where
  "gw_string S gw =
     (case map_of (StringBlobIndices gw) S of
        Some i \<Rightarrow> (i, gw)
      | None \<Rightarrow>
          (let Idx = of_nat (length (StringBlobIndices gw))
           in (Idx, gw\<lparr>StringBlob := StringBlob gw @ S @ [nul],
                       StringBlobIndices := StringBlobIndices gw @ [(S, Idx)]\<rparr>)))"

text \<open>\<open>canon\<close> is \<open>std::filesystem::weakly_canonical\<close> of the joined path.\<close>

definition getSbomInfoOfFunction ::
  "(string \<Rightarrow> string \<Rightarrow> string) \<Rightarrow> llvm_function \<Rightarrow> graph_writer \<Rightarrow> sbom_information option" where
  "getSbomInfoOfFunction canon f gw =
     (case fn_file f of
        Some (dir, file) \<Rightarrow>
          (case FileToSbomInfo gw (canon dir file) of
             Some s \<Rightarrow> Some s
           | None \<Rightarrow> SbomInfo gw)
      | None \<Rightarrow> SbomInfo gw)"

section \<open>Operations of \<open>FunctionWriter\<close>\<close>

definition sbom_strings ::
  "sbom_information option \<Rightarrow> graph_writer \<Rightarrow> u32 \<times> u32 \<times> graph_writer" where
  "sbom_strings si gw =
     (case si of
        Some s \<Rightarrow>
          (let (c, gw1) = gw_string (ComponentName s) gw;
               (v, gw2) = gw_string (Version s) gw1
           in (c, v, gw2))
      | None \<Rightarrow> (let (emp, gw1) = gw_string '''' gw in (emp, emp, gw1)))"

definition FunctionWriter_init ::
  "(string \<Rightarrow> string \<Rightarrow> string) \<Rightarrow> llvm_function \<Rightarrow> bool \<Rightarrow> graph_writer
     \<Rightarrow> (function_writer \<times> graph_writer) result" where
  "FunctionWriter_init canon F dbg gw =
     assert_r (\<not> has_active_function_writer gw)
      (try_r
        (gw_symbol (GlobalObject (fn_object F))
           (gw\<lparr>has_active_function_writer := True, num_functions := num_functions gw + 1\<rparr>))
        (\<lambda>(n, gw1). try_r (node_symbol_of n) (\<lambda>this.
           let (c, v, gw2) = sbom_strings (getSbomInfoOfFunction canon F gw1) gw1
           in Ok (\<lparr>ThisSymbolIdx = this, SbomComponentIdx = c, SbomVersionIdx = v,
                   Written = False, fw_record_debug_data = dbg, num_locals = 0,
                   m_edges = (\<lambda>_. [])\<rparr>, gw2))))"

definition freshLocal ::
  "string \<Rightarrow> function_writer \<times> graph_writer \<Rightarrow> (node \<times> function_writer \<times> graph_writer) result"
  where
  "freshLocal Name s =
     (let (fw, gw) = s;
          Idx = num_locals fw;
          fw' = fw\<lparr>num_locals := Idx + 1\<rparr>;
          gw' = (if fw_record_debug_data fw
                 then (let (i, gw1) = gw_string Name gw
                       in gw1\<lparr>local_names := local_names gw1 @ [i]\<rparr>)
                 else gw)
      in try_r (node_local (ThisSymbolIdx fw) (ucast Idx)) (\<lambda>n. Ok (n, fw', gw')))"

definition thisFunction :: "function_writer \<Rightarrow> node result" where
  "thisFunction fw = node_symbol (ThisSymbolIdx fw)"

definition encode_node :: "function_writer \<Rightarrow> node \<Rightarrow> u32 result" where
  "encode_node fw n =
     try_r (node_local_idx n) (\<lambda>li.
       case li of
         Some l \<Rightarrow> assert_r (symbol_of n = ThisSymbolIdx fw) (Ok (push_bit 1 (ucast l)))
       | None \<Rightarrow> Ok (ucast (push_bit 1 (symbol_of n) OR 1)))"

definition addEdge :: "edge \<Rightarrow> function_writer \<Rightarrow> function_writer result" where
  "addEdge e fw =
     try_r (encode_node fw (to_node e)) (\<lambda>a.
     try_r (encode_node fw (from_node e)) (\<lambda>b.
       let k = kind e
       in Ok (fw\<lparr>m_edges := (m_edges fw)(k := m_edges fw k @ [(a, b, edge_idx e)])\<rparr>)))"

section \<open>\<open>finish\<close>\<close>

text \<open>
  The comparison handed to \<open>pdqsort_branchless\<close>. The sort itself is Boost's: it is a
  parameter \<open>srt\<close> of the model, of which the proofs use only that it permutes.
\<close>

fun edge_less :: "edge_kind \<Rightarrow> raw_edge \<Rightarrow> raw_edge \<Rightarrow> bool" where
  "edge_less k (x0, x1, x2) (y0, y1, y2) =
     (x0 < y0 \<and> x1 < y1 \<and> (indexed k \<longrightarrow> x2 < y2))"

fun delta_encode :: "edge_kind \<Rightarrow> u32 \<Rightarrow> raw_edge list \<Rightarrow> u32 list" where
  "delta_encode k previous_value [] = []"
| "delta_encode k previous_value ((e0, e1, e2) # es) =
     zigzag_encode (e0 - previous_value) # zigzag_encode (e1 - e0) #
     (if indexed k then [e2] else []) @ delta_encode k e1 es"

type_synonym sorter = "(raw_edge \<Rightarrow> raw_edge \<Rightarrow> bool) \<Rightarrow> raw_edge list \<Rightarrow> raw_edge list"

definition finish_kind :: "sorter \<Rightarrow> function_writer \<Rightarrow> edge_kind \<Rightarrow> u32 list \<Rightarrow> u32 list result"
  where
  "finish_kind srt fw k out =
     (let data = srt (edge_less k) (m_edges fw k)
      in try_r (u32_of_size (length data)) (\<lambda>n. Ok (out @ n # delta_encode k 0 data)))"

definition finish ::
  "sorter \<Rightarrow> u32 \<Rightarrow> function_writer \<times> graph_writer \<Rightarrow> (function_writer \<times> graph_writer) result"
  where
  "finish srt NumAllocas s =
     (let (fw, gw) = s
      in assert_r (\<not> Written fw)
          (try_r (as_u32 (ThisSymbolIdx fw)) (\<lambda>this.
             let hdr = [this, SbomComponentIdx fw, SbomVersionIdx fw, num_locals fw, NumAllocas]
             in try_r (unwrap (visit_tuple (finish_kind srt fw) (function_data gw @ hdr)))
                  (\<lambda>out. Ok (fw\<lparr>Written := True,
                            m_edges := (\<lambda>k. srt (edge_less k) (m_edges fw k))\<rparr>,
                       gw\<lparr>has_active_function_writer := False, function_data := out\<rparr>)))))"

section \<open>\<open>writeTo\<close>\<close>

text \<open>
  streamvbyte and zstd are third-party: their entry points are a record of functions, and
  \<open>codec_ok\<close> states what their documentation promises. \<open>zstd_content_size\<close> is
  \<open>None\<close> for \<open>ZSTD_CONTENTSIZE_ERROR\<close> and \<open>ZSTD_CONTENTSIZE_UNKNOWN\<close>;
  \<open>zstd_decompress cap b\<close> is \<open>None\<close> when it reports an error, in particular when the
  content does not fit the destination.
\<close>

record codec =
  svb_padding :: nat                                   \<comment> \<open>\<open>STREAMVBYTE_PADDING\<close>\<close>
  svb_encode :: "u32 list \<Rightarrow> bytes"
  svb_validate :: "bytes \<Rightarrow> u64 \<Rightarrow> nat \<Rightarrow> bool"  \<comment> \<open>buffer, claimed length, count\<close>
  svb_decode :: "bytes \<Rightarrow> nat \<Rightarrow> u32 list"
  svb_delta_encode :: "u32 list \<Rightarrow> bytes"
  svb_delta_decode :: "bytes \<Rightarrow> nat \<Rightarrow> u32 list"
  zstd_compress :: "bytes \<Rightarrow> bytes"
  zstd_content_size :: "bytes \<Rightarrow> nat option"
  zstd_decompress :: "nat \<Rightarrow> bytes \<Rightarrow> bytes option"

text \<open>The decoders read a prefix of their input, so trailing bytes do not matter to them.\<close>

definition codec_ok :: "codec \<Rightarrow> bool" where
  "codec_ok c \<longleftrightarrow>
     (\<forall>xs bs. svb_validate c (svb_encode c xs @ bs) (of_nat (length (svb_encode c xs))) (length xs)) \<and>
     (\<forall>xs bs. svb_decode c (svb_encode c xs @ bs) (length xs) = xs) \<and>
     (\<forall>xs bs. svb_validate c (svb_delta_encode c xs @ bs)
                (of_nat (length (svb_delta_encode c xs))) (length xs)) \<and>
     (\<forall>xs bs. svb_delta_decode c (svb_delta_encode c xs @ bs) (length xs) = xs) \<and>
     (\<forall>b. zstd_content_size c (zstd_compress c b) = Some (length b)) \<and>
     (\<forall>b cap. length b \<le> cap \<longrightarrow> zstd_decompress c cap (zstd_compress c b) = Some b)"

text \<open>
  What \<open>writeTo\<close> adds to the module: the bytes of the debug global and the four fields of
  the graph global, of which the second is a pointer to the debug global and the third the
  pointers to the symbols.
\<close>

record graph_global =
  gg_header :: graph_header
  gg_symbols :: "nat list"
  gg_function_data :: bytes

record module_globals =
  debug_global :: bytes
  graph_global :: graph_global

definition writeTo :: "codec \<Rightarrow> graph_writer \<Rightarrow> module_globals result" where
  "writeTo c gw =
     try_r (u32_of_size (length (function_data gw))) (\<lambda>fal.
     let function_data_compressed = zstd_compress c (svb_encode c (function_data gw)) in
     try_r (u32_of_size (length (local_names gw))) (\<lambda>tnl.
     let debug_data_uncompressed =
           map byte_of_char (StringBlob gw) @ svb_delta_encode c (local_names gw);
         debug_data_compressed = zstd_compress c debug_data_uncompressed in
     try_r (u32_of_size (length function_data_compressed)) (\<lambda>fds.
     try_r (u32_of_size (length debug_data_compressed)) (\<lambda>dds.
     try_r (u32_of_size (length (Symbols gw))) (\<lambda>ns.
     try_r (u32_of_size (length (StringBlob gw))) (\<lambda>sbl.
       Ok \<lparr>debug_global = debug_data_compressed,
           graph_global =
             \<lparr>gg_header =
                \<lparr>magic_number = GRAPH_MAGIC_NUMBER,
                 function_data_compressed_size = fds, debug_data_compressed_size = dds,
                 num_symbols = ns, string_blob_length = sbl,
                 has_debug_locals = (if gw_record_debug_data gw then 1 else 0),
                 total_num_locals = tnl, hdr_num_functions = num_functions gw,
                 function_array_length = fal\<rparr>,
              gg_symbols = symbols_in_order gw,
              gg_function_data = function_data_compressed\<rparr>\<rparr>))))))"

end
