(* ===== verification/Reachability_Pass.thy ===== *)
theory Reachability_Pass imports Object_Parsing Graph_Writer "HOL-Library.AList" begin

text \<open>
  \<open>src/BraceletReachability/BraceletReachability.cpp\<close>: the LLVM pass that turns each function of a
  module into edges and, when asked to, instruments it for tracing. LLVM enters as data: an instruction is
  its operands, a constant the tree of its operands, and \<open>pass_env\<close> is what the pass asks LLVM for
  (names, locations, types) together with the options of the command line. Instructions and arguments are
  known by number, as the code knows them by address. The code that the pass adds is the list of its insertions, each
  with its place; an alloca that is replaced by a call keeps its number.
\<close>

section \<open>What the pass sees of LLVM\<close>

datatype ir_constant =
  GlobalConst global_value
| CompoundConst string "ir_constant list"   \<comment> \<open>\<open>ConstantExpr\<close> or \<open>ConstantAggregate\<close>, with its name if any\<close>
| DataConst                              \<comment> \<open>\<open>ConstantData\<close> and the other kinds without addresses of interest\<close>
| OtherConst                             \<comment> \<open>any other kind, or an operand of a constant that is not one\<close>

datatype val =
  Const ir_constant
| Instr nat
| Argument nat
| InlineAsm
| OtherValue

datatype intrinsic = NotIntrinsic | VaStart | VaCopy | VaEnd | MemMove | MemCpy | OtherIntrinsic

record call_base =
  c_callee :: val                       \<comment> \<open>\<open>getCalledOperand\<close>\<close>
  c_args :: "val list"
  c_called :: "global_object option"    \<comment> \<open>\<open>getCalledFunction\<close>\<close>
  c_intrinsic :: intrinsic
  c_void :: bool
  c_params :: u32
  c_vararg :: bool

datatype opcode =
  StoreInst val val                     \<comment> \<open>pointer, value\<close>
| LoadInst val
| AtomicCmpXchgInst val val             \<comment> \<open>pointer, new value\<close>
| AtomicRMWInst val val
| GetElementPtrInst val
| PHINode "val list"
| PtrToIntInst val
| IntToPtrInst val
| BitCastInst val
| AddrSpaceCastInst val
| CastInst val
| SelectInst val val
| VAArgInst
| ExtractElementInst val
| InsertElementInst val val
| ShuffleVectorInst val val
| ExtractValueInst val
| InsertValueInst val val
| FreezeInst val
| ReturnInst "val option"
| UnaryOperator val
| BinaryOperator val val
| CallBase call_base
| AllocaInst bool "u64 option"          \<comment> \<open>whether it is static, and its size\<close>
| OtherInst

type_synonym instr = "nat \<times> opcode"

datatype ty = PointerTy | IntegerTy nat | OtherTy nat   \<comment> \<open>width, or size when stored\<close>

record pass_function =
  pf_function :: llvm_function
  pf_name :: string
  pf_intrinsic :: bool
  pf_declaration :: bool
  pf_vararg :: bool
  pf_args :: "nat list"
  pf_subprogram :: bool
  pf_body :: "instr list"

section \<open>Options and answers\<close>

datatype trace_mode = TraceOff | TraceIndirectCallees | TraceFull

datatype runtime_function =
  braceletTraceWord | braceletTraceBuffer | braceletTraceTagAllocation | braceletTraceAllocaAllocate
| braceletTraceAllocaFree | braceletReachabilityDlsymPageInsert

datatype json = JsonObject "(string \<times> json) list" | JsonString string | OtherJson

record pass_env =
  BraceletEmitEdges :: bool
  NoIncludeDebugData :: bool
  BraceletTraceMode :: trace_mode
  BraceletComponentName :: string
  BraceletVersion :: string
  BraceletFileTable :: string
  read_file :: "string \<Rightarrow> string option"
  parse_json :: "string \<Rightarrow> json option"
  SbomMap :: "string \<rightharpoonup> sbom_information"  \<comment> \<open>filled in from the file table\<close>
  value_name :: "val \<Rightarrow> string"          \<comment> \<open>empty if it has none\<close>
  operand_text :: "val \<Rightarrow> string"
  stable_loc :: "nat \<Rightarrow> string"
  has_loc :: "nat \<Rightarrow> bool"
  type_of :: "val \<Rightarrow> ty"
  pointer_size :: nat
  runtime_object :: "runtime_function \<Rightarrow> global_object"
  has_point_after :: "nat \<Rightarrow> bool"      \<comment> \<open>\<open>getInsertionPointAfterDef\<close> finds one\<close>
  BraceletDlsymRuntime :: string
  parse_bitcode :: "string \<Rightarrow> string list option" \<comment> \<open>the functions a file of bitcode defines\<close>
  link_in :: "string list \<Rightarrow> string list option" \<comment> \<open>the module's functions once they are linked in, declared ones, too\<close>
  visits_inserted :: bool               \<comment> \<open>whether the visitor comes to a call inserted after the one it visits\<close>

text \<open>
  The runtime for calls of \<open>dlsym\<close> is linked into the module when the first of them is visited; a file
  that cannot be read, parsed or linked ends the compiler, and so does a module that has no function of
  the name afterwards. The lookup is in the whole module, so a function that the module had before, or one
  that is only declared, will do. What the module has after linking is the linker's answer. Later calls find
  the function in \<open>DlsymPageInsert\<close>, which is what linking it again would give.
\<close>

definition linkModule :: "pass_env \<Rightarrow> string \<Rightarrow> string list result" where
  "linkModule env path =
     (case read_file env path of
        None \<Rightarrow> Abort
      | Some RuntimeBitcode \<Rightarrow>
          (case parse_bitcode env RuntimeBitcode of
             None \<Rightarrow> Abort
           | Some Runtime \<Rightarrow> (case link_in env Runtime of None \<Rightarrow> Abort | Some M \<Rightarrow> Ok M)))"

definition dlsymPageInsert :: "pass_env \<Rightarrow> unit result" where
  "dlsymPageInsert env =
     try_r (linkModule env (BraceletDlsymRuntime env)) (\<lambda>fns.
       assert_r (''braceletReachabilityDlsymPageInsert'' \<in> set fns) (Ok ()))"

definition links_dlsym_runtime :: "pass_env \<Rightarrow> bool" where
  "links_dlsym_runtime env \<longleftrightarrow> has_value (dlsymPageInsert env)"

text \<open>\<open>BRACELET_ALLOC_FUNCTION_NAMES\<close>\<close>

definition TRACE_ALLOC_FUNCTION_NAMES :: "string list" where
  "TRACE_ALLOC_FUNCTION_NAMES =
     [''aligned_alloc'', ''realloc'', ''_Znam'', ''__libc_malloc'', ''_ZnamRKSt9nothrow_t'', ''_ZnwmRKSt9nothrow_t'',
      ''__libc_memalign'', ''memalign'', ''__libc_realloc'', ''reallocarray'', ''__libc_reallocarray'', ''calloc'',
      ''_Znwm'', ''malloc'', ''__libc_calloc'']"

section \<open>What the pass adds to the module\<close>

datatype new_global = PagePtr | TraceSite nat u16      \<comment> \<open>function, local index\<close>

datatype place = AtEntry | Before nat | After nat

text \<open>
  The calls the pass inserts. The conversion of a traced value to a word or to a buffer belongs to the
  call that takes it.
\<close>

datatype runtime_call =
  TraceWord nat val
| TraceBuffer nat val nat
| TagAllocation nat nat
| AllocaAllocate nat u64
| AllocaFree nat
| PageInsert nat nat                    \<comment> \<open>the result of \<open>dlsym\<close>, the page pointer\<close>

record additions =
  next_number :: nat
  new_globals :: "(nat \<times> new_global) list"
  inserted :: "(place \<times> runtime_call) list"
  call_labels :: "(nat \<times> string) list"

section \<open>Names\<close>

definition nameWithLocation :: "pass_env \<Rightarrow> nat \<Rightarrow> string \<Rightarrow> string" where
  "nameWithLocation env i LocalName =
     (if NoIncludeDebugData env then ''''
      else stable_loc env i @ ''|'' @ (if LocalName = '''' then operand_text env (Instr i) else LocalName))"

definition local_name_for :: "pass_env \<Rightarrow> val \<Rightarrow> string" where
  "local_name_for env V =
     (case V of
        Instr i \<Rightarrow> nameWithLocation env i (value_name env V)
      | _ \<Rightarrow>
          if value_name env V \<noteq> '''' then value_name env V
          else if \<not> NoIncludeDebugData env then operand_text env V else '''')"

section \<open>Constants\<close>

type_synonym writers = "function_writer \<times> graph_writer"

definition write_edge :: "edge_kind \<Rightarrow> node \<Rightarrow> node \<Rightarrow> u32 \<Rightarrow> writers \<Rightarrow> writers result" where
  "write_edge k t f i s =
     (let (fw, gw) = s
      in try_r (mk_edge k t f i) (\<lambda>e. try_r (addEdge e fw) (\<lambda>fw. Ok (fw, gw))))"

text \<open>
  \<open>MultiConstantNodeBuilder::add\<close>: the builder is the node so far, whether it is a fresh one, and the
  writers.
\<close>

definition builder_add :: "string \<Rightarrow> node \<Rightarrow> node \<times> bool \<times> writers \<Rightarrow> (node \<times> bool \<times> writers) result" where
  "builder_add Parent N b =
     (let (Out, FreshNodeCreated, s) = b
      in if \<not> is_node N then Ok b
         else if is_node Out then
           try_r (if FreshNodeCreated then Ok (Out, s)
                  else try_r (freshLocal (if Parent \<noteq> '''' then Parent else ''<bracelet constant>'') s) (\<lambda>(n, s).
                       try_r (write_edge AssignK n Out 0 s) (\<lambda>s. Ok (n, s)))) (\<lambda>(Out, s).
           try_r (write_edge AssignK Out N 0 s) (\<lambda>s. Ok (Out, True, s)))
         else Ok (N, FreshNodeCreated, s))"

fun constantNode :: "ir_constant \<Rightarrow> writers \<Rightarrow> (node \<times> writers) result"
  and build_operands :: "string \<Rightarrow> ir_constant list \<Rightarrow> node \<times> bool \<times> writers \<Rightarrow> (node \<times> bool \<times> writers) result" where
  "constantNode (GlobalConst G) (fw, gw) = try_r (gw_symbol G gw) (\<lambda>(n, gw). Ok (n, fw, gw))"
| "constantNode (CompoundConst nm Os) s =
     try_r (build_operands nm Os (null_node, False, s)) (\<lambda>(Out, FreshNodeCreated, s). Ok (Out, s))"
| "constantNode DataConst s = Ok (null_node, s)"
| "constantNode OtherConst s = Abort"
| "build_operands nm [] b = Ok b"
| "build_operands nm (C # Os) (Out, FreshNodeCreated, s) =
     try_r (constantNode C s) (\<lambda>(N, s).
     try_r (builder_add nm N (Out, FreshNodeCreated, s)) (build_operands nm Os))"

section \<open>The visitor\<close>

record edge_visitor =
  ev_writers :: writers
  ev_added :: additions
  Locals :: "(val \<times> node) list"
  trace_sites :: "(node \<times> nat) list"
  VarArgs :: node
  CallVoidNumber :: u32
  NumAllocas :: u32
  allocas_to_free :: "nat list"

type_synonym 'a visit = "edge_visitor \<Rightarrow> ('a \<times> edge_visitor) result"
type_synonym visit_step = "edge_visitor \<Rightarrow> edge_visitor result"

definition fresh_local :: "string \<Rightarrow> node visit" where
  "fresh_local nm ev = try_r (freshLocal nm (ev_writers ev)) (\<lambda>(n, s). Ok (n, ev\<lparr>ev_writers := s\<rparr>))"

definition emit_edge :: "edge_kind \<Rightarrow> node \<Rightarrow> node \<Rightarrow> u32 \<Rightarrow> visit_step" where
  "emit_edge k t f i ev = try_r (write_edge k t f i (ev_writers ev)) (\<lambda>s. Ok (ev\<lparr>ev_writers := s\<rparr>))"

definition this_function :: "edge_visitor \<Rightarrow> node result" where
  "this_function ev = thisFunction (fst (ev_writers ev))"

definition global_node :: "global_object \<Rightarrow> node visit" where
  "global_node GO ev =
     try_r (gw_symbol (GlobalObject GO) (snd (ev_writers ev))) (\<lambda>(n, gw).
       Ok (n, ev\<lparr>ev_writers := (fst (ev_writers ev), gw)\<rparr>))"

definition add_call :: "place \<Rightarrow> runtime_call \<Rightarrow> edge_visitor \<Rightarrow> edge_visitor" where
  "add_call p c ev =
     (let a = ev_added ev in ev\<lparr>ev_added := a\<lparr>inserted := inserted a @ [(p, c)]\<rparr>\<rparr>)"

definition add_global :: "new_global \<Rightarrow> edge_visitor \<Rightarrow> nat \<times> edge_visitor" where
  "add_global g ev =
     (let a = ev_added ev; k = next_number a
      in (k, ev\<lparr>ev_added := a\<lparr>next_number := k + 1, new_globals := new_globals a @ [(k, g)]\<rparr>\<rparr>))"

text \<open>\<open>node\<close>: the node of a value; an instruction or an argument gets its local on first sight.\<close>

definition node_for :: "pass_env \<Rightarrow> val \<Rightarrow> node visit" where
  "node_for env V ev =
     (case V of
        Const C \<Rightarrow> try_r (constantNode C (ev_writers ev)) (\<lambda>(n, s). Ok (n, ev\<lparr>ev_writers := s\<rparr>))
      | InlineAsm \<Rightarrow> Ok (null_node, ev)
      | OtherValue \<Rightarrow> Abort
      | _ \<Rightarrow>
          (case map_of (Locals ev) V of
             Some n \<Rightarrow> Ok (n, ev)
           | None \<Rightarrow>
               try_r (fresh_local (local_name_for env V) ev) (\<lambda>(n, ev).
                 Ok (n, ev\<lparr>Locals := (V, n) # Locals ev\<rparr>))))"

subsection \<open>Tracing\<close>

text \<open>\<open>traceSite\<close>: the trace site of a local, a new global the first time.\<close>

definition traceSite :: "pass_function \<Rightarrow> node \<Rightarrow> nat visit" where
  "traceSite F n ev =
     assert_r (is_node n)
      (case map_of (trace_sites ev) n of
         Some site \<Rightarrow> Ok (site, ev)
       | None \<Rightarrow>
           (case local_idx_of n of
              None \<Rightarrow> Abort
            | Some i \<Rightarrow>
                let (site, ev) = add_global (TraceSite (gid (fn_object (pf_function F))) i) ev
                in Ok (site, ev\<lparr>trace_sites := (n, site) # trace_sites ev\<rparr>)))"

fun store_size :: "pass_env \<Rightarrow> ty \<Rightarrow> nat" where
  "store_size env PointerTy = pointer_size env"
| "store_size env (IntegerTy w) = (w + 7) div 8"
| "store_size env (OtherTy k) = k"

definition traceValue :: "pass_env \<Rightarrow> pass_function \<Rightarrow> val \<Rightarrow> nat \<Rightarrow> visit_step" where
  "traceValue env F v insert_before ev =
     assert_r (BraceletTraceMode env \<noteq> TraceOff)
      (try_r (node_for env v ev) (\<lambda>(n, ev).
         if \<not> is_node n \<or> local_idx_of n = None then Ok ev
         else try_r (traceSite F n ev) (\<lambda>(site, ev).
           let ty = type_of env v; size_bytes = store_size env ty
           in if size_bytes < pointer_size env then Ok ev
              else if ty = PointerTy \<or> ty = IntegerTy (pointer_size env * 8) then
                Ok (add_call (Before insert_before) (TraceWord site v) ev)
              else Ok (add_call (Before insert_before) (TraceBuffer site v size_bytes) ev))))"

subsection \<open>Edges of an instruction\<close>

definition addStoreEdge :: "pass_env \<Rightarrow> pass_function \<Rightarrow> nat \<Rightarrow> val \<Rightarrow> val \<Rightarrow> visit_step" where
  "addStoreEdge env F i To From ev =
     try_r (node_for env From ev) (\<lambda>(FromN, ev).
     try_r (node_for env To ev) (\<lambda>(ToN, ev).
       if is_node FromN \<and> is_node ToN then
         try_r (emit_edge StoreK ToN FromN 0 ev) (\<lambda>ev.
           if BraceletTraceMode env = TraceFull
           then try_r (traceValue env F To i ev) (traceValue env F From i)
           else Ok ev)
       else Ok ev))"

text \<open>Loading from something without a node only gives a warning.\<close>

definition addLoadEdge :: "pass_env \<Rightarrow> val \<Rightarrow> val \<Rightarrow> visit_step" where
  "addLoadEdge env To From ev =
     try_r (node_for env From ev) (\<lambda>(FromN, ev).
       if \<not> is_node FromN then Ok ev
       else try_r (node_for env To ev) (\<lambda>(ToN, ev). emit_edge LoadK ToN FromN 0 ev))"

definition addAssignEdge :: "pass_env \<Rightarrow> val \<Rightarrow> val \<Rightarrow> visit_step" where
  "addAssignEdge env To From ev =
     try_r (node_for env From ev) (\<lambda>(FromN, ev).
       if is_node FromN then try_r (node_for env To ev) (\<lambda>(ToN, ev). emit_edge AssignK ToN FromN 0 ev)
       else Ok ev)"

definition visitReturnInst :: "pass_env \<Rightarrow> pass_function \<Rightarrow> nat \<Rightarrow> val option \<Rightarrow> visit_step" where
  "visitReturnInst env F i op ev =
     (let ev = fold (\<lambda>a. add_call (Before i) (AllocaFree a)) (allocas_to_free ev) ev
      in case op of
           None \<Rightarrow> Ok ev
         | Some v \<Rightarrow>
             try_r (node_for env v ev) (\<lambda>(N, ev).
               if is_node N then
                 try_r (global_node (fn_object (pf_function F)) ev) (\<lambda>(f, ev). emit_edge ReturnK f N 0 ev)
               else Ok ev))"

text \<open>A copy through memory: \<open>va_copy\<close>, \<open>memcpy\<close> and \<open>memmove\<close>.\<close>

definition copy_through :: "pass_env \<Rightarrow> string \<Rightarrow> call_base \<Rightarrow> visit_step" where
  "copy_through env nm I ev =
     try_r (fresh_local nm ev) (\<lambda>(Tmp, ev).
     try_r (node_for env (c_args I ! 1) ev) (\<lambda>(Src, ev).
     try_r (emit_edge LoadK Tmp Src 0 ev) (\<lambda>ev.
     try_r (node_for env (c_args I ! 0) ev) (\<lambda>(Dst, ev).
       emit_edge StoreK Dst Tmp 0 ev))))"

definition visit_vastart :: "pass_env \<Rightarrow> call_base \<Rightarrow> visit_step" where
  "visit_vastart env I ev =
     (let va = VarArgs ev
      in assert_r (is_node va)
          (try_r (fresh_local ''vastart() tmp'' ev) (\<lambda>(Tmp, ev).
           try_r (emit_edge LoadK Tmp va 0 ev) (\<lambda>ev.
           try_r (node_for env (c_args I ! 0) ev) (\<lambda>(Dst, ev).
             emit_edge StoreK Dst Tmp 0 ev)))))"

text \<open>The node of a call: its value, or a local of its own if it is void.\<close>

definition call_node :: "pass_env \<Rightarrow> nat \<Rightarrow> call_base \<Rightarrow> node visit" where
  "call_node env i I ev =
     (if c_void I then
        let k = CallVoidNumber ev
        in fresh_local (nameWithLocation env i (''VoidCall_'' @ show_dec (unat k))) (ev\<lparr>CallVoidNumber := k + 1\<rparr>)
      else node_for env (Instr i) ev)"

text \<open>The DWARF label that ties the call instruction to its node; without any debug location there is none.\<close>

definition annotate_call :: "pass_env \<Rightarrow> pass_function \<Rightarrow> nat \<Rightarrow> node \<Rightarrow> visit_step" where
  "annotate_call env F i INode ev =
     (case local_idx_of INode of
        None \<Rightarrow> Abort
      | Some l \<Rightarrow>
          let encodedNode = BraceletCallsiteDwarfLabelPrefix @ show_dec (unat l); a = ev_added ev
          in if has_loc env i \<or> pf_subprogram F
             then Ok (ev\<lparr>ev_added := a\<lparr>call_labels := call_labels a @ [(i, encodedNode)]\<rparr>\<rparr>)
             else Ok ev)"

definition resolve_alias :: "val \<Rightarrow> val" where
  "resolve_alias V =
     (case V of Const (GlobalConst (GlobalAlias GO)) \<Rightarrow> Const (GlobalConst (GlobalObject GO)) | _ \<Rightarrow> V)"

definition is_indirect :: "call_base \<Rightarrow> bool" where
  "is_indirect I \<longleftrightarrow> (case c_callee I of Const _ \<Rightarrow> False | InlineAsm \<Rightarrow> False | _ \<Rightarrow> True)"

text \<open>One argument; all the variadic ones share the index after the last parameter.\<close>

definition supply_argument ::
  "pass_env \<Rightarrow> call_base \<Rightarrow> node \<Rightarrow> nat \<Rightarrow> visit_step" where
  "supply_argument env I INode Idx ev =
     (let isVarArg = c_vararg I \<and> c_args I \<noteq> []
      in assert_r (isVarArg \<or> Idx < unat (c_params I))
        (let EdgeIdx = (if isVarArg then min (of_nat Idx) (c_params I) else of_nat Idx)
         in try_r (node_for env (c_args I ! Idx) ev) (\<lambda>(ArgNode, ev).
              if is_node ArgNode then emit_edge ArgumentSupplyK INode ArgNode EdgeIdx ev else Ok ev)))"

definition trace_call :: "pass_env \<Rightarrow> pass_function \<Rightarrow> nat \<Rightarrow> call_base \<Rightarrow> visit_step" where
  "trace_call env F i I ev =
     (if BraceletTraceMode env = TraceOff then Ok ev
      else let Callee = resolve_alias (c_callee I)
        in try_r (if is_indirect I \<or> BraceletTraceMode env = TraceFull then traceValue env F Callee i ev else Ok ev) (\<lambda>ev.
           if BraceletTraceMode env \<noteq> TraceFull then Ok ev
           else if value_name env Callee \<in> set TRACE_ALLOC_FUNCTION_NAMES then
             assert_r (has_point_after env i)
              (try_r (node_for env (Instr i) ev) (\<lambda>(n, ev).
               try_r (traceSite F n ev) (\<lambda>(site, ev). Ok (add_call (After i) (TagAllocation site i) ev))))
           else for_each (\<lambda>v. traceValue env F v i) (c_args I) ev))"

definition call_edges :: "pass_env \<Rightarrow> pass_function \<Rightarrow> nat \<Rightarrow> call_base \<Rightarrow> node \<Rightarrow> visit_step" where
  "call_edges env F i I INode ev =
     try_r (for_each (supply_argument env I INode) [0..<length (c_args I)] ev) (\<lambda>ev.
     try_r (node_for env (resolve_alias (c_callee I)) ev) (\<lambda>(Callee, ev).
     try_r (emit_edge CallK INode Callee (if c_vararg I \<and> c_args I \<noteq> [] then c_params I + 1 else c_params I) ev)
       (trace_call env F i I)))"

text \<open>
  A call of \<open>dlsym\<close> gets a page pointer of its own, and a call that records its result there; the first one
  links the runtime into the module.
\<close>

definition new_object :: "nat \<Rightarrow> global_object" where
  "new_object k = \<lparr>gid = k, go_comdat = None, local_linkage = True\<rparr>"

definition visit_dlsym :: "pass_env \<Rightarrow> nat \<Rightarrow> node \<Rightarrow> visit_step" where
  "visit_dlsym env i INode ev =
     (let (page, ev) = add_global PagePtr ev
      in assert_r (links_dlsym_runtime env)
        (try_r (global_node (new_object page) (add_call (After i) (PageInsert i page) ev)) (\<lambda>(p, ev).
           emit_edge DlsymPagePointerK INode p 0 ev)))"

definition is_trace_call :: "pass_env \<Rightarrow> call_base \<Rightarrow> bool" where
  "is_trace_call env I \<longleftrightarrow>
     c_called I \<in> Some ` runtime_object env `
       {braceletTraceTagAllocation, braceletTraceWord, braceletTraceAllocaAllocate, braceletTraceAllocaFree}"

definition calls_dlsym :: "pass_env \<Rightarrow> call_base \<Rightarrow> bool" where
  "calls_dlsym env I \<longleftrightarrow>
     (case c_called I of None \<Rightarrow> False | Some GO \<Rightarrow> value_name env (Const (GlobalConst (GlobalObject GO))) = ''dlsym'')"

definition visitCallBase :: "pass_env \<Rightarrow> pass_function \<Rightarrow> nat \<Rightarrow> call_base \<Rightarrow> visit_step" where
  "visitCallBase env F i I ev =
     (if c_callee I = InlineAsm then Ok ev
      else if BraceletTraceMode env \<noteq> TraceOff \<and> is_trace_call env I then Ok ev
      else case c_intrinsic I of
             NotIntrinsic \<Rightarrow>
               try_r (call_node env i I ev) (\<lambda>(INode, ev).
               try_r (annotate_call env F i INode ev) (\<lambda>ev.
                 if calls_dlsym env I then visit_dlsym env i INode ev else call_edges env F i I INode ev))
           | VaStart \<Rightarrow> visit_vastart env I ev
           | VaCopy \<Rightarrow> copy_through env ''va_copy() tmp'' I ev
           | VaEnd \<Rightarrow> Ok ev
           | MemMove \<Rightarrow> copy_through env ''memcpy tmp'' I ev
           | MemCpy \<Rightarrow> copy_through env ''memcpy tmp'' I ev
           | OtherIntrinsic \<Rightarrow> Ok ev)"

subsection \<open>Instructions and functions\<close>

definition visit_instruction :: "pass_env \<Rightarrow> pass_function \<Rightarrow> instr \<Rightarrow> visit_step" where
  "visit_instruction env F I =
     (let (i, oc) = I
      in case oc of
           StoreInst p v \<Rightarrow> addStoreEdge env F i p v
         | LoadInst p \<Rightarrow> addLoadEdge env (Instr i) p
         | AtomicCmpXchgInst p v \<Rightarrow> (\<lambda>ev. try_r (addLoadEdge env (Instr i) p ev) (addStoreEdge env F i p v))
         | AtomicRMWInst p v \<Rightarrow> (\<lambda>ev. try_r (addLoadEdge env (Instr i) p ev) (addStoreEdge env F i p v))
         | GetElementPtrInst p \<Rightarrow> addAssignEdge env (Instr i) p
         | PHINode vs \<Rightarrow> for_each (addAssignEdge env (Instr i)) vs
         | PtrToIntInst v \<Rightarrow> addAssignEdge env (Instr i) v
         | IntToPtrInst v \<Rightarrow> addAssignEdge env (Instr i) v
         | BitCastInst v \<Rightarrow> addAssignEdge env (Instr i) v
         | AddrSpaceCastInst v \<Rightarrow> addAssignEdge env (Instr i) v
         | CastInst v \<Rightarrow> addAssignEdge env (Instr i) v
         | SelectInst t f \<Rightarrow> for_each (addAssignEdge env (Instr i)) [t, f]
         | VAArgInst \<Rightarrow> (\<lambda>ev. Abort)
         | ExtractElementInst v \<Rightarrow> addAssignEdge env (Instr i) v
         | InsertElementInst v e \<Rightarrow> for_each (addAssignEdge env (Instr i)) [v, e]
         | ShuffleVectorInst v w \<Rightarrow> for_each (addAssignEdge env (Instr i)) [v, w]
         | ExtractValueInst v \<Rightarrow> addAssignEdge env (Instr i) v
         | InsertValueInst v e \<Rightarrow> for_each (addAssignEdge env (Instr i)) [v, e]
         | FreezeInst v \<Rightarrow> addAssignEdge env (Instr i) v
         | ReturnInst v \<Rightarrow> visitReturnInst env F i v
         | UnaryOperator v \<Rightarrow> addAssignEdge env (Instr i) v
         | BinaryOperator v w \<Rightarrow> for_each (addAssignEdge env (Instr i)) [v, w]
         | CallBase c \<Rightarrow> visitCallBase env F i c
         | AllocaInst st sz \<Rightarrow> Ok
         | OtherInst \<Rightarrow> Ok)"

text \<open>The calls that are inserted after an instruction, as instructions; the trace calls among them have no effect.\<close>

fun inserted_call :: "pass_env \<Rightarrow> runtime_call \<Rightarrow> call_base option" where
  "inserted_call env (PageInsert i page) =
     (let f = runtime_object env braceletReachabilityDlsymPageInsert
      in Some \<lparr>c_callee = Const (GlobalConst (GlobalObject f)),
           c_args = [Instr i, Const (GlobalConst (GlobalObject (new_object page)))],
           c_called = Some f, c_intrinsic = NotIntrinsic, c_void = True, c_params = 2, c_vararg = False\<rparr>)"
| "inserted_call env _ = None"

definition visit_inserted :: "pass_env \<Rightarrow> pass_function \<Rightarrow> place \<times> runtime_call \<Rightarrow> visit_step" where
  "visit_inserted env F pc ev =
     (case inserted_call env (snd pc) of
        None \<Rightarrow> Ok ev
      | Some I \<Rightarrow>
          let a = ev_added ev
          in visitCallBase env F (next_number a) I (ev\<lparr>ev_added := a\<lparr>next_number := next_number a + 1\<rparr>\<rparr>))"

definition visit_one :: "pass_env \<Rightarrow> pass_function \<Rightarrow> instr \<Rightarrow> visit_step" where
  "visit_one env F I ev =
     try_r (visit_instruction env F I ev) (\<lambda>ev'.
       if visits_inserted env
       then for_each (visit_inserted env F) (drop (length (inserted (ev_added ev))) (inserted (ev_added ev'))) ev'
       else Ok ev')"

text \<open>\<open>Locals.insert\<close>, which keeps an entry that is there.\<close>

definition insert_local :: "val \<Rightarrow> node \<Rightarrow> edge_visitor \<Rightarrow> edge_visitor" where
  "insert_local V n ev = (if map_of (Locals ev) V = None then ev\<lparr>Locals := (V, n) # Locals ev\<rparr> else ev)"

text \<open>\<open>PreProcessAllocas\<close>: the allocas come first among the locals.\<close>

definition preprocessVisitAllocaInst :: "pass_env \<Rightarrow> pass_function \<Rightarrow> instr \<Rightarrow> visit_step" where
  "preprocessVisitAllocaInst env F I ev =
     (case I of
        (i, AllocaInst is_static alloc_size) \<Rightarrow>
          try_r (fresh_local (''ALLOCA_'' @ value_name env (Instr i)) ev) (\<lambda>(N, ev).
          assert_r (map_option unat (local_idx_of N) = Some (length (Locals ev)))
            (if BraceletTraceMode env = TraceFull \<and> is_static then
               assert_r (alloc_size \<noteq> None)
                (try_r (traceSite F N ev) (\<lambda>(site, ev).
                   let ev = add_call AtEntry (AllocaAllocate site (the alloc_size)) ev
                   in Ok (insert_local (Instr i) N (ev\<lparr>allocas_to_free := allocas_to_free ev @ [i]\<rparr>))))
             else Ok (insert_local (Instr i) N ev)))
      | _ \<Rightarrow> Ok ev)"

definition setup_varargs :: "pass_function \<Rightarrow> visit_step" where
  "setup_varargs F ev =
     (if \<not> pf_vararg F then Ok ev
      else try_r (fresh_local ''TheVarArgsAlloca'' ev) (\<lambda>(va, ev).
           try_r (fresh_local ''TheVarArgsArea'' ev) (\<lambda>(SaveSpace, ev).
           try_r (fresh_local ''TheVarArgs'' (ev\<lparr>VarArgs := va, NumAllocas := NumAllocas ev + 2\<rparr>)) (\<lambda>(ArgData, ev).
           try_r (this_function ev) (\<lambda>this.
           try_r (emit_edge ArgumentDefinitionK ArgData this (of_nat (length (pf_args F))) ev) (\<lambda>ev.
           try_r (emit_edge StoreK SaveSpace ArgData 0 ev) (emit_edge StoreK va SaveSpace 0)))))))"

definition define_argument :: "pass_env \<Rightarrow> pass_function \<Rightarrow> nat \<Rightarrow> visit_step" where
  "define_argument env F k ev =
     try_r (node_for env (Argument (pf_args F ! k)) ev) (\<lambda>(n, ev).
     try_r (this_function ev) (\<lambda>this. emit_edge ArgumentDefinitionK n this (of_nat k) ev))"

definition EdgeVisitor_init :: "pass_env \<Rightarrow> pass_function \<Rightarrow> writers \<Rightarrow> additions \<Rightarrow> edge_visitor result" where
  "EdgeVisitor_init env F s a =
     try_r (for_each (preprocessVisitAllocaInst env F) (pf_body F)
       \<lparr>ev_writers = s, ev_added = a, Locals = [], trace_sites = [], VarArgs = null_node, CallVoidNumber = 0,
        NumAllocas = 0, allocas_to_free = []\<rparr>) (\<lambda>ev.
     try_r (setup_varargs F (ev\<lparr>NumAllocas := of_nat (length (Locals ev))\<rparr>))
       (for_each (define_argument env F) [0..<length (pf_args F)]))"

definition run_visitor ::
  "pass_env \<Rightarrow> sorter \<Rightarrow> pass_function \<Rightarrow> writers \<Rightarrow> additions \<Rightarrow> (writers \<times> additions) result" where
  "run_visitor env srt F s a =
     try_r (EdgeVisitor_init env F s a) (\<lambda>ev.
     try_r (for_each (visit_one env F) (pf_body F) ev) (\<lambda>ev.
     try_r (finish srt (NumAllocas ev) (ev_writers ev)) (\<lambda>s. Ok (s, ev_added ev))))"

section \<open>The module\<close>

record global_var =
  gv_object :: global_object
  gv_name :: string
  gv_external_init :: bool              \<comment> \<open>\<open>isExternallyInitialized\<close>\<close>
  gv_initializer :: "ir_constant option"

record ir_module =
  m_name :: string
  m_globals :: "global_var list"
  m_functions :: "pass_function list"

definition getSbomInfo :: "pass_env \<Rightarrow> sbom_information option" where
  "getSbomInfo env =
     (if BraceletComponentName env \<noteq> '''' \<and> BraceletVersion env \<noteq> ''''
      then Some \<lparr>ComponentName = BraceletComponentName env, Version = BraceletVersion env\<rparr> else None)"

text \<open>
  The table of components by file. A table that cannot be read or parsed is ignored; one that is not of the
  expected form makes the code dereference nothing.
\<close>

definition json_string :: "string \<Rightarrow> json \<Rightarrow> string result" where
  "json_string k v =
     (case v of
        JsonObject kvs \<Rightarrow> (case map_of kvs k of Some (JsonString t) \<Rightarrow> Ok t | _ \<Rightarrow> Abort)
      | _ \<Rightarrow> Abort)"

definition getSbomMap :: "pass_env \<Rightarrow> (string \<rightharpoonup> sbom_information) result" where
  "getSbomMap env =
     (if BraceletFileTable env = '''' then Ok Map.empty
      else case Option.bind (read_file env (BraceletFileTable env)) (parse_json env) of
             None \<Rightarrow> Ok Map.empty
           | Some (JsonObject kvs) \<Rightarrow>
               for_each (\<lambda>(k, v) mp.
                 try_r (json_string ''port-name'' v) (\<lambda>pname.
                 try_r (json_string ''port-version'' v) (\<lambda>vnam.
                   Ok (mp(k \<mapsto> \<lparr>ComponentName = pname, Version = vnam\<rparr>))))) kvs Map.empty
           | Some _ \<Rightarrow> Abort)"

text \<open>
  The graph writers of a module, one for each comdat, and the function writers of the functions
  that stand for its global initializers. The code walks its hash maps in an order of its own; here it is that of
  insertion.
\<close>

record pass_state =
  GraphWriters :: "(comdat option \<times> graph_writer) list"
  GlobalWriters :: "(comdat option \<times> function_writer) list"
  ps_added :: additions

definition GraphWriterForComdat :: "pass_env \<Rightarrow> comdat option \<Rightarrow> pass_state \<Rightarrow> graph_writer \<times> pass_state" where
  "GraphWriterForComdat env C ps =
     (case map_of (GraphWriters ps) C of
        Some gw \<Rightarrow> (gw, ps)
      | None \<Rightarrow>
          (let gw = GraphWriter_init C (getSbomInfo env) (SbomMap env) (\<not> NoIncludeDebugData env)
           in (gw, ps\<lparr>GraphWriters := GraphWriters ps @ [(C, gw)]\<rparr>)))"

definition put_writer :: "comdat option \<Rightarrow> graph_writer \<Rightarrow> pass_state \<Rightarrow> pass_state" where
  "put_writer C gw ps = ps\<lparr>GraphWriters := AList.update C gw (GraphWriters ps)\<rparr>"

definition GlobalValueFunctionPrefix :: string where
  "GlobalValueFunctionPrefix = ''bracelet_reachability_globals''"

text \<open>The function writer for the initializers of a comdat, of a new internal function.\<close>

definition GlobalWriterForComdat ::
  "pass_env \<Rightarrow> (string \<Rightarrow> string \<Rightarrow> string) \<Rightarrow> comdat option \<Rightarrow> pass_state \<Rightarrow> (function_writer \<times> pass_state) result" where
  "GlobalWriterForComdat env canon C ps =
     (case map_of (GlobalWriters ps) C of
        Some fw \<Rightarrow> Ok (fw, ps)
      | None \<Rightarrow>
          (let a = ps_added ps;
               F = \<lparr>fn_object = new_object (next_number a), fn_file = None\<rparr>;
               (gw, ps) = GraphWriterForComdat env C (ps\<lparr>ps_added := a\<lparr>next_number := next_number a + 1\<rparr>\<rparr>)
           in try_r (FunctionWriter_init canon F (\<not> NoIncludeDebugData env) gw) (\<lambda>(fw, gw).
                Ok (fw, (put_writer C gw ps)\<lparr>GlobalWriters := GlobalWriters ps @ [(C, fw)]\<rparr>))))"

definition has_edges :: "global_var \<Rightarrow> bool" where
  "has_edges G \<longleftrightarrow>
     \<not> gv_external_init G \<and> gv_initializer G \<noteq> None \<and> \<not> has_prefix ''llvm.'' (gv_name G)"

definition write_initializer :: "ir_constant \<Rightarrow> global_object \<Rightarrow> writers \<Rightarrow> writers result" where
  "write_initializer C GO s =
     try_r (constantNode C s) (\<lambda>(v, s).
       if \<not> is_node v then Ok s
       else try_r (constantNode (GlobalConst (GlobalObject GO)) s) (\<lambda>(n, s). write_edge StoreK n v 0 s))"

definition visit_global ::
  "pass_env \<Rightarrow> (string \<Rightarrow> string \<Rightarrow> string) \<Rightarrow> global_var \<Rightarrow> pass_state \<Rightarrow> pass_state result" where
  "visit_global env canon G ps =
     (if \<not> has_edges G then Ok ps
      else let C = go_comdat (gv_object G)
        in try_r (GlobalWriterForComdat env canon C ps) (\<lambda>(fw, ps).
           let (gw, ps) = GraphWriterForComdat env C ps
           in try_r (write_initializer (the (gv_initializer G)) (gv_object G) (fw, gw)) (\<lambda>(fw, gw).
                Ok ((put_writer C gw ps)\<lparr>GlobalWriters := AList.update C fw (GlobalWriters ps)\<rparr>))))"

definition finish_global :: "pass_env \<Rightarrow> sorter \<Rightarrow> comdat option \<times> function_writer \<Rightarrow> pass_state \<Rightarrow> pass_state result" where
  "finish_global env srt entry ps =
     (let (C, fw) = entry; (gw, ps) = GraphWriterForComdat env C ps
      in try_r (finish srt 0 (fw, gw)) (\<lambda>(fw, gw). Ok (put_writer C gw ps)))"

definition skipped :: "pass_function \<Rightarrow> bool" where
  "skipped F \<longleftrightarrow>
     pf_intrinsic F \<or> pf_declaration F \<or> has_prefix GlobalValueFunctionPrefix (pf_name F) \<or>
     has_prefix ''__liballocs'' (pf_name F)"

definition edit_function ::
  "pass_env \<Rightarrow> (string \<Rightarrow> string \<Rightarrow> string) \<Rightarrow> sorter \<Rightarrow> pass_function \<Rightarrow> pass_state \<Rightarrow> pass_state result" where
  "edit_function env canon srt F ps =
     (if skipped F then Ok ps
      else let C = go_comdat (fn_object (pf_function F)); (gw, ps) = GraphWriterForComdat env C ps
        in try_r (FunctionWriter_init canon (pf_function F) (\<not> NoIncludeDebugData env) gw) (\<lambda>s.
           try_r (run_visitor env srt F s (ps_added ps)) (\<lambda>((fw, gw), a).
             Ok ((put_writer C gw ps)\<lparr>ps_added := a\<rparr>))))"

text \<open>
  \<open>runBraceletReachability\<close>: what it adds to the module, and the globals of each graph writer; \<open>None\<close> if
  edges are not asked for. Numbers from \<open>n\<close> on are free.
\<close>

definition runBraceletReachability ::
  "pass_env \<Rightarrow> (string \<Rightarrow> string \<Rightarrow> string) \<Rightarrow> sorter \<Rightarrow> codec \<Rightarrow> nat \<Rightarrow> ir_module \<Rightarrow>
   (additions \<times> module_globals list) option result" where
  "runBraceletReachability env canon srt c n M =
     (if \<not> BraceletEmitEdges env then Ok None
      else try_r (getSbomMap env) (\<lambda>mp.
        let env = env\<lparr>SbomMap := mp\<rparr>; a = \<lparr>next_number = n, new_globals = [], inserted = [], call_labels = []\<rparr>;
               ps = \<lparr>GraphWriters = [], GlobalWriters = [], ps_added = a\<rparr>
        in try_r (for_each (visit_global env canon) (m_globals M) ps) (\<lambda>ps.
           try_r (for_each (finish_global env srt) (GlobalWriters ps) ps) (\<lambda>ps.
           try_r (for_each (edit_function env canon srt) (m_functions M) ps) (\<lambda>ps.
           try_r (for_each (\<lambda>(C, gw) ms. try_r (writeTo c gw) (\<lambda>m. Ok (ms @ [m]))) (GraphWriters ps) []) (\<lambda>ms.
             Ok (Some (ps_added ps, ms))))))))"

section \<open>The pass managers\<close>

text \<open>
  The answer to the old and to the new pass manager, and the two callbacks that put the pass into a
  pipeline.
\<close>

definition runOnModule ::
  "pass_env \<Rightarrow> (string \<Rightarrow> string \<Rightarrow> string) \<Rightarrow> sorter \<Rightarrow> codec \<Rightarrow> nat \<Rightarrow> ir_module \<Rightarrow> bool result" where
  "runOnModule env canon srt c n M =
     try_r (runBraceletReachability env canon srt c n M) (\<lambda>r. Ok (r \<noteq> None))"

datatype preserved_analyses = AllAnalyses | NoAnalyses

definition pass_run ::
  "pass_env \<Rightarrow> (string \<Rightarrow> string \<Rightarrow> string) \<Rightarrow> sorter \<Rightarrow> codec \<Rightarrow> nat \<Rightarrow> ir_module \<Rightarrow> preserved_analyses result"
  where
  "pass_run env canon srt c n M =
     try_r (runBraceletReachability env canon srt c n M) (\<lambda>r. Ok (if r = None then AllAnalyses else NoAnalyses))"

datatype module_pass = BraceletReachabilityPass | OtherPass string

definition optimizer_last_callback :: "module_pass list \<Rightarrow> module_pass list" where
  "optimizer_last_callback passes = passes @ [BraceletReachabilityPass]"

definition pipeline_parsing_callback :: "string \<Rightarrow> module_pass list \<Rightarrow> bool \<times> module_pass list" where
  "pipeline_parsing_callback nm passes =
     (if nm = ''braceletreachability'' then (True, passes @ [BraceletReachabilityPass]) else (False, passes))"

end
