(* ===== verification/Interning.thy ===== *)
theory Interning
  imports Bracelet_Prelude
begin

text \<open>
  The contract behind the two tables of \<open>GraphWriter\<close>: interning a key returns its index,
  a new key is appended, and nothing that was interned moves. The function writer relies on this
  contract for symbols and for strings; both tables are interpretations of the locale.
\<close>

section \<open>Tables\<close>

text \<open>A hash map that only grows and stores for each key its insertion number.\<close>

definition table_ok :: "('k \<times> u32) list \<Rightarrow> bool" where
  "table_ok al \<longleftrightarrow> distinct (map fst al) \<and> map snd al = map of_nat [0..<length al]"

lemma table_ok_Nil [simp]: "table_ok []"
  by (simp add: table_ok_def)

lemma table_ok_snoc:
  "table_ok al \<Longrightarrow> map_of al k = None \<Longrightarrow> table_ok (al @ [(k, of_nat (length al))])"
  by (simp add: table_ok_def map_of_eq_None_iff)

lemma table_lookup:
  assumes "table_ok al" and "map_of al k = Some v" and "length al \<le> 2 ^ 32"
  shows "unat v < length al \<and> map fst al ! unat v = k"
proof -
  from assms(2) have "(k, v) \<in> set al" by (rule map_of_SomeD)
  then obtain i where i: "i < length al" "al ! i = (k, v)" by (auto simp: in_set_conv_nth)
  from i(1) have "map snd al ! i = of_nat i"
    using assms(1) by (simp add: table_ok_def)
  with i have "v = of_nat i" by simp
  with i assms(3) have "unat v = i" by (simp add: unat_of_nat_small)
  with i show ?thesis by simp
qed

section \<open>The contract\<close>

locale interning =
  fixes intern :: "'k \<Rightarrow> 's \<Rightarrow> u32 \<times> 's"
    and keys :: "'s \<Rightarrow> 'k list"
    and inv :: "'s \<Rightarrow> bool"
  assumes inv_intern: "inv s \<Longrightarrow> inv (snd (intern k s))"
    and inv_distinct: "inv s \<Longrightarrow> distinct (keys s)"
    and keys_intern:
      "inv s \<Longrightarrow> keys (snd (intern k s)) = (if k \<in> set (keys s) then keys s else keys s @ [k])"
    and index_intern:
      "inv s \<Longrightarrow> length (keys (snd (intern k s))) \<le> 2 ^ 32 \<Longrightarrow>
        unat (fst (intern k s)) < length (keys (snd (intern k s))) \<and>
        keys (snd (intern k s)) ! unat (fst (intern k s)) = k"
begin

lemma keys_grow:
  assumes "inv s"
  obtains ks where "keys (snd (intern k s)) = keys s @ ks"
  using assms by (cases "k \<in> set (keys s)") (auto simp: keys_intern)

lemma length_keys: "inv s \<Longrightarrow> length (keys s) \<le> length (keys (snd (intern k s)))"
  by (simp add: keys_intern)

lemma old_index: "inv s \<Longrightarrow> i < length (keys s) \<Longrightarrow> keys (snd (intern k s)) ! i = keys s ! i"
  by (simp add: keys_intern nth_append)

lemma intern_again:
  assumes "inv s" and "length (keys (snd (intern k s))) \<le> 2 ^ 32"
  shows "fst (intern k (snd (intern k s))) = fst (intern k s)"
proof -
  let ?s = "snd (intern k s)"
  from assms(1) have i: "inv ?s" by (rule inv_intern)
  have "k \<in> set (keys ?s)" using assms(1) by (simp add: keys_intern)
  with i have same: "keys (snd (intern k ?s)) = keys ?s" by (simp add: keys_intern)
  note a = index_intern [OF assms]
  have b: "unat (fst (intern k ?s)) < length (keys ?s) \<and> keys ?s ! unat (fst (intern k ?s)) = k"
    using index_intern [OF i, of k] assms(2) same by simp
  from a b inv_distinct [OF i] have "unat (fst (intern k ?s)) = unat (fst (intern k s))"
    by (metis nth_eq_iff_index_eq)
  then show ?thesis by (rule unsigned_word_eqI)
qed

lemma intern_injective:
  assumes "inv s" and "length (keys (snd (intern j (snd (intern k s))))) \<le> 2 ^ 32"
    and "fst (intern k s) = fst (intern j (snd (intern k s)))"
  shows "k = j"
proof -
  let ?s = "snd (intern k s)"
  from assms(1) have i: "inv ?s" by (rule inv_intern)
  have l: "length (keys ?s) \<le> 2 ^ 32" using length_keys [OF i, of j] assms(2) by linarith
  note a = index_intern [OF assms(1) l]
  have "keys (snd (intern j ?s)) ! unat (fst (intern k s)) = k"
    using old_index [OF i] a by simp
  with index_intern [OF i assms(2)] assms(3) show ?thesis by simp
qed

end

end
