(* ===== verification/Graph_Writer_Inv.thy ===== *)
theory Graph_Writer_Inv
  imports Graph_Writer Interning
begin

text \<open>
  What a \<open>GraphWriter\<close> holds after any sequence of calls: the runs of the writer as a step
  relation that also records, as a ghost, what was written (\<open>written\<close>), and the invariant that
  the stream, the tables and the names encode exactly that.
\<close>

section \<open>The two tables\<close>

definition strings :: "graph_writer \<Rightarrow> string list" where
  "strings gw = map fst (StringBlobIndices gw)"

definition blob_of :: "string list \<Rightarrow> string" where
  "blob_of ss = concat (map (\<lambda>s. s @ [nul]) ss)"

lemma blob_of_length: "length ss \<le> length (blob_of ss)"
  by (induction ss) (simp_all add: blob_of_def)

definition strings_ok :: "graph_writer \<Rightarrow> bool" where
  "strings_ok gw \<longleftrightarrow>
     table_ok (StringBlobIndices gw) \<and> StringBlob gw = blob_of (strings gw)"

definition symbols_ok :: "graph_writer \<Rightarrow> bool" where
  "symbols_ok gw \<longleftrightarrow>
     table_ok (Symbols gw) \<and> symbols_in_order gw = map fst (Symbols gw)"

lemma gw_string_cases:
  obtains (old) i where "map_of (StringBlobIndices gw) S = Some i" "gw_string S gw = (i, gw)"
  | (new) "map_of (StringBlobIndices gw) S = None"
      "gw_string S gw = (of_nat (length (StringBlobIndices gw)),
         gw\<lparr>StringBlob := StringBlob gw @ S @ [nul],
            StringBlobIndices := StringBlobIndices gw @ [(S, of_nat (length (StringBlobIndices gw)))]\<rparr>)"
  by (cases "map_of (StringBlobIndices gw) S") (auto simp: gw_string_def Let_def)

interpretation strtab: interning gw_string strings strings_ok
proof
  fix gw k
  assume ok: "strings_ok gw"
  show "strings_ok (snd (gw_string k gw))"
    using ok by (cases rule: gw_string_cases [where gw = gw and S = k])
      (auto simp: strings_ok_def strings_def blob_of_def table_ok_snoc)
  show "distinct (strings gw)"
    using ok by (simp add: strings_ok_def strings_def table_ok_def)
  show keys: "strings (snd (gw_string k gw)) =
      (if k \<in> set (strings gw) then strings gw else strings gw @ [k])"
    by (cases rule: gw_string_cases [where gw = gw and S = k])
      (auto simp: strings_def map_of_eq_None_iff dest: map_of_SomeD intro: rev_image_eqI)
  assume small: "length (strings (snd (gw_string k gw))) \<le> 2 ^ 32"
  show "unat (fst (gw_string k gw)) < length (strings (snd (gw_string k gw))) \<and>
      strings (snd (gw_string k gw)) ! unat (fst (gw_string k gw)) = k"
  proof (cases rule: gw_string_cases [where gw = gw and S = k])
    case (old i)
    with ok small show ?thesis
      using table_lookup [of "StringBlobIndices gw" k i] by (simp add: strings_ok_def strings_def)
  next
    case new
    with small show ?thesis
      by (simp add: strings_def unat_of_nat_small nth_append)
  qed
qed

text \<open>The symbol table behind \<open>gw_symbol\<close>, once the comdat has been checked.\<close>

definition symbol_index :: "nat \<Rightarrow> graph_writer \<Rightarrow> u32 \<times> graph_writer" where
  "symbol_index g gw =
     (case map_of (Symbols gw) g of
        Some i \<Rightarrow> (i, gw)
      | None \<Rightarrow>
          (let i = of_nat (length (Symbols gw))
           in (i, gw\<lparr>Symbols := Symbols gw @ [(g, i)],
                     symbols_in_order := symbols_in_order gw @ [g]\<rparr>)))"

lemma symbol_index_cases:
  obtains (old) i where "map_of (Symbols gw) g = Some i" "symbol_index g gw = (i, gw)"
  | (new) "map_of (Symbols gw) g = None"
      "symbol_index g gw = (of_nat (length (Symbols gw)),
         gw\<lparr>Symbols := Symbols gw @ [(g, of_nat (length (Symbols gw)))],
            symbols_in_order := symbols_in_order gw @ [g]\<rparr>)"
  by (cases "map_of (Symbols gw) g") (auto simp: symbol_index_def Let_def)

interpretation symtab: interning symbol_index symbols_in_order symbols_ok
proof
  fix gw k
  assume ok: "symbols_ok gw"
  show "symbols_ok (snd (symbol_index k gw))"
    using ok by (cases rule: symbol_index_cases [where gw = gw and g = k])
      (auto simp: symbols_ok_def table_ok_snoc)
  show "distinct (symbols_in_order gw)"
    using ok by (simp add: symbols_ok_def table_ok_def)
  show keys: "symbols_in_order (snd (symbol_index k gw)) =
      (if k \<in> set (symbols_in_order gw) then symbols_in_order gw else symbols_in_order gw @ [k])"
    using ok by (cases rule: symbol_index_cases [where gw = gw and g = k])
      (auto simp: symbols_ok_def map_of_eq_None_iff dest: map_of_SomeD intro: rev_image_eqI)
  assume small: "length (symbols_in_order (snd (symbol_index k gw))) \<le> 2 ^ 32"
  show "unat (fst (symbol_index k gw)) < length (symbols_in_order (snd (symbol_index k gw))) \<and>
      symbols_in_order (snd (symbol_index k gw)) ! unat (fst (symbol_index k gw)) = k"
  proof (cases rule: symbol_index_cases [where gw = gw and g = k])
    case (old i)
    with ok small show ?thesis
      using table_lookup [of "Symbols gw" k i] by (simp add: symbols_ok_def)
  next
    case new
    with ok small show ?thesis
      by (simp add: symbols_ok_def unat_of_nat_small nth_append)
  qed
qed

text \<open>\<open>gw_symbol\<close> is \<open>symbol_index\<close> followed by \<open>Node::symbol\<close>.\<close>

lemma gw_symbol_index:
  assumes "symbols_ok gw" and "gw_symbol GV gw = Ok (n, gw')"
    and "length (Symbols gw') \<le> 2 ^ 31"
  shows "gw' = snd (symbol_index (gid (underlying_object GV)) gw)"
    and "node_symbol (ucast (fst (symbol_index (gid (underlying_object GV)) gw))) = Ok n"
proof -
  have len: "length (symbols_in_order gw) = length (Symbols gw)"
    using assms(1) by (simp add: symbols_ok_def)
  have u: "ucast (of_nat (length (Symbols gw)) :: u32) = (of_nat (length (Symbols gw)) :: u64)"
    if "length (Symbols gw) < 2 ^ 32"
    using that by (rule ucast_of_nat_32_64)
  show "gw' = snd (symbol_index (gid (underlying_object GV)) gw)"
    using assms(2) len by (auto simp: gw_symbol_def symbol_index_def Let_def ok_iff split: option.splits)
  show "node_symbol (ucast (fst (symbol_index (gid (underlying_object GV)) gw))) = Ok n"
    using assms(2,3) len u
    by (auto simp: gw_symbol_def symbol_index_def Let_def ok_iff split: option.splits)
qed

section \<open>Runs of the writer\<close>

text \<open>The ghost record of one function: what its \<open>FunctionWriter\<close> was told.\<close>

record written =
  w_symbol :: u64
  w_component :: string
  w_version :: string
  w_locals :: "string list"
  w_allocas :: u32
  w_edges :: "edge list"

definition sbom_texts :: "sbom_information option \<Rightarrow> string \<times> string" where
  "sbom_texts si = (case si of Some s \<Rightarrow> (ComponentName s, Version s) | None \<Rightarrow> ('''', ''''))"

text \<open>
  Edges are made of nodes the two writers handed out: a symbol of the table, or a local of the
  function being written. A singleton edge carries no index.
\<close>

definition node_ok :: "nat \<Rightarrow> u64 \<Rightarrow> nat \<Rightarrow> node \<Rightarrow> bool" where
  "node_ok nsym this nl n \<longleftrightarrow>
     is_node n \<and> unat (symbol_of n) < nsym \<and>
     (case local_idx_of n of None \<Rightarrow> True | Some l \<Rightarrow> symbol_of n = this \<and> unat l < nl)"

definition edge_ok :: "nat \<Rightarrow> u64 \<Rightarrow> nat \<Rightarrow> edge \<Rightarrow> bool" where
  "edge_ok nsym this nl e \<longleftrightarrow>
     node_ok nsym this nl (to_node e) \<and> node_ok nsym this nl (from_node e) \<and>
     (indexed (kind e) \<or> edge_idx e = 0)"

inductive writer_run ::
  "(string \<Rightarrow> string \<Rightarrow> string) \<Rightarrow> sorter \<Rightarrow> bool \<Rightarrow> graph_writer
     \<Rightarrow> (function_writer \<times> written) option \<Rightarrow> written list \<Rightarrow> bool"
  for canon srt dbg
where
  run_init: "writer_run canon srt dbg (GraphWriter_init oc sbom files dbg) None []"
| run_symbol:
    "writer_run canon srt dbg gw cur ws \<Longrightarrow> gw_symbol GV gw = Ok (n, gw') \<Longrightarrow>
     writer_run canon srt dbg gw' cur ws"
| run_function:
    "writer_run canon srt dbg gw None ws \<Longrightarrow> FunctionWriter_init canon F dbg gw = Ok (fw, gw') \<Longrightarrow>
     sbom_texts (getSbomInfoOfFunction canon F gw) = (cname, ver) \<Longrightarrow>
     writer_run canon srt dbg gw'
       (Some (fw, \<lparr>w_symbol = ThisSymbolIdx fw, w_component = cname, w_version = ver,
                   w_locals = [], w_allocas = 0, w_edges = []\<rparr>)) ws"
| run_local:
    "writer_run canon srt dbg gw (Some (fw, w)) ws \<Longrightarrow>
     freshLocal Name (fw, gw) = Ok (n, fw', gw') \<Longrightarrow>
     writer_run canon srt dbg gw' (Some (fw', w\<lparr>w_locals := w_locals w @ [Name]\<rparr>)) ws"
| run_edge:
    "writer_run canon srt dbg gw (Some (fw, w)) ws \<Longrightarrow>
     edge_ok (length (Symbols gw)) (ThisSymbolIdx fw) (unat (num_locals fw)) e \<Longrightarrow>
     addEdge e fw = Ok fw' \<Longrightarrow>
     writer_run canon srt dbg gw (Some (fw', w\<lparr>w_edges := w_edges w @ [e]\<rparr>)) ws"
| run_finish:
    "writer_run canon srt dbg gw (Some (fw, w)) ws \<Longrightarrow> NumAllocas \<le> num_locals fw \<Longrightarrow>
     finish srt NumAllocas (fw, gw) = Ok (fw', gw') \<Longrightarrow>
     writer_run canon srt dbg gw' None (ws @ [w\<lparr>w_allocas := NumAllocas\<rparr>])"

section \<open>What the stream holds\<close>

definition node_word :: "node \<Rightarrow> u32" where
  "node_word n = (case local_idx_of n of
     Some l \<Rightarrow> push_bit 1 (ucast l) | None \<Rightarrow> ucast (push_bit 1 (symbol_of n) OR 1))"

definition raw_of :: "edge \<Rightarrow> raw_edge" where
  "raw_of e = (node_word (to_node e), node_word (from_node e), edge_idx e)"

definition kind_edges :: "edge_kind \<Rightarrow> written \<Rightarrow> edge list" where
  "kind_edges k w = filter (\<lambda>e. kind e = k) (w_edges w)"

definition sorted_raws :: "sorter \<Rightarrow> edge_kind \<Rightarrow> written \<Rightarrow> raw_edge list" where
  "sorted_raws srt k w = srt (edge_less k) (map raw_of (kind_edges k w))"

definition kind_words :: "sorter \<Rightarrow> written \<Rightarrow> edge_kind \<Rightarrow> u32 list" where
  "kind_words srt w k =
     of_nat (length (sorted_raws srt k w)) # delta_encode k 0 (sorted_raws srt k w)"

definition function_words :: "sorter \<Rightarrow> u32 \<Rightarrow> u32 \<Rightarrow> written \<Rightarrow> u32 list" where
  "function_words srt c v w =
     [ucast (w_symbol w), c, v, of_nat (length (w_locals w)), w_allocas w] @
     concat (map (kind_words srt w) all_kinds)"

section \<open>The invariant\<close>

definition string_at :: "string list \<Rightarrow> u32 \<Rightarrow> string \<Rightarrow> bool" where
  "string_at strs i s \<longleftrightarrow> unat i < length strs \<and> strs ! unat i = s"

definition written_ok :: "sorter \<Rightarrow> nat \<Rightarrow> written \<Rightarrow> bool" where
  "written_ok srt nsym w \<longleftrightarrow>
     unat (w_symbol w) < nsym \<and> length (w_locals w) < 2 ^ 16 \<and>
     unat (w_allocas w) \<le> length (w_locals w) \<and>
     (\<forall>k. length (sorted_raws srt k w) < 2 ^ 32) \<and>
     (\<forall>e\<in>set (w_edges w). edge_ok nsym (w_symbol w) (length (w_locals w)) e)"

definition stored :: "sorter \<Rightarrow> string list \<Rightarrow> nat \<Rightarrow> written \<Rightarrow> u32 list \<Rightarrow> bool" where
  "stored srt strs nsym w ws \<longleftrightarrow> written_ok srt nsym w \<and>
     (\<exists>c v. string_at strs c (w_component w) \<and> string_at strs v (w_version w) \<and>
        ws = function_words srt c v w)"

definition history_ok :: "sorter \<Rightarrow> string list \<Rightarrow> nat \<Rightarrow> written list \<Rightarrow> u32 list \<Rightarrow> bool" where
  "history_ok srt strs nsym ws data \<longleftrightarrow>
     (\<exists>parts. list_all2 (stored srt strs nsym) ws parts \<and> data = concat parts)"

definition names_ok :: "bool \<Rightarrow> string list \<Rightarrow> u32 list \<Rightarrow> string list \<Rightarrow> bool" where
  "names_ok dbg strs is names \<longleftrightarrow>
     (if dbg then list_all2 (string_at strs) is names else is = [])"

definition open_ok ::
  "bool \<Rightarrow> string list \<Rightarrow> nat \<Rightarrow> (function_writer \<times> written) option \<Rightarrow> bool" where
  "open_ok dbg strs nsym cur \<longleftrightarrow>
     (case cur of None \<Rightarrow> True
      | Some (fw, w) \<Rightarrow>
          ThisSymbolIdx fw = w_symbol w \<and> unat (w_symbol w) < nsym \<and> \<not> Written fw \<and>
          fw_record_debug_data fw = dbg \<and> length (w_locals w) < 2 ^ 16 \<and>
          num_locals fw = of_nat (length (w_locals w)) \<and>
          string_at strs (SbomComponentIdx fw) (w_component w) \<and>
          string_at strs (SbomVersionIdx fw) (w_version w) \<and>
          (\<forall>k. m_edges fw k = map raw_of (kind_edges k w)) \<and>
          (\<forall>e\<in>set (w_edges w). edge_ok nsym (w_symbol w) (length (w_locals w)) e))"

definition open_locals :: "(function_writer \<times> written) option \<Rightarrow> string list" where
  "open_locals cur = (case cur of None \<Rightarrow> [] | Some (fw, w) \<Rightarrow> w_locals w)"

definition tables_inv ::
  "sorter \<Rightarrow> bool \<Rightarrow> graph_writer \<Rightarrow> (function_writer \<times> written) option \<Rightarrow> written list \<Rightarrow> bool"
  where
  "tables_inv srt dbg gw cur ws \<longleftrightarrow>
     strings_ok gw \<and> symbols_ok gw \<and> gw_record_debug_data gw = dbg \<and>
     history_ok srt (strings gw) (length (symbols_in_order gw)) ws (function_data gw) \<and>
     names_ok dbg (strings gw) (local_names gw) (concat (map w_locals ws) @ open_locals cur) \<and>
     open_ok dbg (strings gw) (length (symbols_in_order gw)) cur"

definition writer_inv ::
  "sorter \<Rightarrow> bool \<Rightarrow> graph_writer \<Rightarrow> (function_writer \<times> written) option \<Rightarrow> written list \<Rightarrow> bool"
  where
  "writer_inv srt dbg gw cur ws \<longleftrightarrow>
     tables_inv srt dbg gw cur ws \<and>
     num_functions gw = of_nat (length ws + (if cur = None then 0 else 1)) \<and>
     has_active_function_writer gw = (cur \<noteq> None)"

text \<open>Nothing the invariant says is lost when the tables grow.\<close>

lemma string_at_grow: "string_at strs i s \<Longrightarrow> string_at (strs @ extra) i s"
  by (simp add: string_at_def nth_append)

lemma node_ok_grow: "node_ok n t l x \<Longrightarrow> n \<le> n' \<Longrightarrow> l \<le> l' \<Longrightarrow> node_ok n' t l' x"
  by (auto simp: node_ok_def split: option.splits)

lemma edge_ok_grow: "edge_ok n t l e \<Longrightarrow> n \<le> n' \<Longrightarrow> l \<le> l' \<Longrightarrow> edge_ok n' t l' e"
  by (auto simp: edge_ok_def intro: node_ok_grow)

lemma stored_grow: "stored srt strs n w ws \<Longrightarrow> n \<le> n' \<Longrightarrow> stored srt (strs @ extra) n' w ws"
  by (auto simp: stored_def written_ok_def intro: string_at_grow edge_ok_grow)

lemma history_ok_grow:
  "history_ok srt strs n ws d \<Longrightarrow> n \<le> n' \<Longrightarrow> history_ok srt (strs @ extra) n' ws d"
  unfolding history_ok_def by (blast intro: list_all2_mono stored_grow)

lemma names_ok_grow: "names_ok dbg strs is ns \<Longrightarrow> names_ok dbg (strs @ extra) is ns"
  by (auto simp: names_ok_def elim!: list_all2_mono intro: string_at_grow)

lemma open_ok_grow: "open_ok dbg strs n cur \<Longrightarrow> n \<le> n' \<Longrightarrow> open_ok dbg (strs @ extra) n' cur"
  by (auto simp: open_ok_def split: option.splits intro: string_at_grow edge_ok_grow)

lemmas grow = history_ok_grow names_ok_grow open_ok_grow
lemmas grow_symbols =
  history_ok_grow [where extra = "[]", simplified] open_ok_grow [where extra = "[]", simplified]

subsection \<open>The operations keep it\<close>

lemma gw_string_frame:
  "symbols_in_order (snd (gw_string S gw)) = symbols_in_order gw"
  "Symbols (snd (gw_string S gw)) = Symbols gw"
  "local_names (snd (gw_string S gw)) = local_names gw"
  "function_data (snd (gw_string S gw)) = function_data gw"
  "num_functions (snd (gw_string S gw)) = num_functions gw"
  "has_active_function_writer (snd (gw_string S gw)) = has_active_function_writer gw"
  "gw_record_debug_data (snd (gw_string S gw)) = gw_record_debug_data gw"
  "SbomInfo (snd (gw_string S gw)) = SbomInfo gw"
  "FileToSbomInfo (snd (gw_string S gw)) = FileToSbomInfo gw"
  by (cases rule: gw_string_cases [where gw = gw and S = S]; simp)+

lemma symbol_index_frame:
  "StringBlobIndices (snd (symbol_index g gw)) = StringBlobIndices gw"
  "StringBlob (snd (symbol_index g gw)) = StringBlob gw"
  "local_names (snd (symbol_index g gw)) = local_names gw"
  "function_data (snd (symbol_index g gw)) = function_data gw"
  "num_functions (snd (symbol_index g gw)) = num_functions gw"
  "has_active_function_writer (snd (symbol_index g gw)) = has_active_function_writer gw"
  "gw_record_debug_data (snd (symbol_index g gw)) = gw_record_debug_data gw"
  "SbomInfo (snd (symbol_index g gw)) = SbomInfo gw"
  "FileToSbomInfo (snd (symbol_index g gw)) = FileToSbomInfo gw"
  by (cases rule: symbol_index_cases [where gw = gw and g = g]; simp)+

text \<open>Interning keeps the tables, and the index it returns is that of the key.\<close>

lemma gw_string_inv:
  assumes "tables_inv srt dbg gw cur ws" and "gw_string S gw = (i, gw')"
    and "length (strings gw') \<le> 2 ^ 32"
  shows "tables_inv srt dbg gw' cur ws" and "string_at (strings gw') i S"
    and "\<exists>extra. strings gw' = strings gw @ extra"
proof -
  have gw': "gw' = snd (gw_string S gw)" and i: "i = fst (gw_string S gw)"
    using assms(2) by simp_all
  have ok: "strings_ok gw" using assms(1) by (simp add: tables_inv_def)
  then obtain extra where extra: "strings gw' = strings gw @ extra"
    using strtab.keys_grow gw' by blast
  then show "\<exists>extra. strings gw' = strings gw @ extra" by blast
  show "string_at (strings gw') i S"
    using strtab.index_intern [OF ok, of S] assms(3) by (simp add: gw' i string_at_def)
  have "strings_ok gw'" using strtab.inv_intern [OF ok] by (simp add: gw')
  moreover have "symbols_ok gw'" using assms(1)
    by (simp add: tables_inv_def symbols_ok_def gw' gw_string_frame)
  ultimately show "tables_inv srt dbg gw' cur ws"
    using assms(1) unfolding tables_inv_def extra
    by (auto simp: gw' gw_string_frame intro: grow)
qed

lemma symbol_index_inv:
  assumes "tables_inv srt dbg gw cur ws" and "symbol_index g gw = (i, gw')"
    and "length (symbols_in_order gw') \<le> 2 ^ 32"
  shows "tables_inv srt dbg gw' cur ws"
    and "unat i < length (symbols_in_order gw')" and "symbols_in_order gw' ! unat i = g"
proof -
  have gw': "gw' = snd (symbol_index g gw)" and i: "i = fst (symbol_index g gw)"
    using assms(2) by simp_all
  have ok: "symbols_ok gw" using assms(1) by (simp add: tables_inv_def)
  note len = symtab.length_keys [OF ok, of g]
  show "unat i < length (symbols_in_order gw')" "symbols_in_order gw' ! unat i = g"
    using symtab.index_intern [OF ok, of g] assms(3) by (simp_all add: gw' i)
  have "symbols_ok gw'" using symtab.inv_intern [OF ok] by (simp add: gw')
  moreover have s: "strings gw' = strings gw" by (simp add: gw' strings_def symbol_index_frame)
  moreover have "strings_ok gw'" using assms(1) s
    by (simp add: tables_inv_def strings_ok_def gw' symbol_index_frame)
  ultimately show "tables_inv srt dbg gw' cur ws"
    using assms(1) len unfolding tables_inv_def
    by (auto simp: gw' symbol_index_frame intro: grow_symbols)
qed

lemma gw_symbol_inv:
  assumes "tables_inv srt dbg gw cur ws" and "gw_symbol GV gw = Ok (n, gw')"
    and "length (Symbols gw') \<le> 2 ^ 31"
  shows "tables_inv srt dbg gw' cur ws"
    and "is_node n" and "local_idx_of n = None"
    and "unat (symbol_of n) < length (symbols_in_order gw')"
    and "symbols_in_order gw' ! unat (symbol_of n) = gid (underlying_object GV)"
proof -
  let ?g = "gid (underlying_object GV)"
  have ok: "symbols_ok gw" using assms(1) by (simp add: tables_inv_def)
  obtain i where i: "symbol_index ?g gw = (i, gw')" and n: "node_symbol (ucast i) = Ok n"
    using gw_symbol_index [OF ok assms(2,3)] by (metis prod.collapse)
  have "symbols_ok gw'" using symtab.inv_intern [OF ok, of ?g] i by simp
  then have len: "length (symbols_in_order gw') \<le> 2 ^ 31"
    using assms(3) by (simp add: symbols_ok_def)
  then have "length (symbols_in_order gw') \<le> 2 ^ 32" by simp
  note inv = symbol_index_inv [OF assms(1) i this]
  show "tables_inv srt dbg gw' cur ws" by (rule inv)
  have u: "unat (ucast i :: u64) = unat i"
    using unat_lt_size [of i] by (simp add: unat_ucast_small)
  have "symbol_ok (ucast i)" using inv(2) len by (simp add: symbol_ok_def u)
  note f = node_symbol_fields [OF this]
  with n have "n = Node (push_bit 16 (ucast i + 1))" by simp
  with f u inv show "is_node n" "local_idx_of n = None"
    "unat (symbol_of n) < length (symbols_in_order gw')"
    "symbols_in_order gw' ! unat (symbol_of n) = ?g" by simp_all
qed
text \<open>The tables only grow, so a bound on the last state bounds every earlier one.\<close>

lemma gw_string_sizes:
  "length (strings gw) \<le> length (strings (snd (gw_string S gw)))"
  by (cases rule: gw_string_cases [where gw = gw and S = S]) (simp_all add: strings_def)

lemma sbom_strings_sizes:
  assumes "sbom_strings si gw = (c, v, gw')"
  shows "length (strings gw) \<le> length (strings gw')" and "Symbols gw' = Symbols gw"
proof -
  note s = gw_string_sizes [of gw "[]"] gw_string_frame [of "[]" gw]
  show "length (strings gw) \<le> length (strings gw')"
  proof (cases si)
    case None
    with assms s show ?thesis by (auto simp: sbom_strings_def split: prod.splits)
  next
    case (Some x)
    have "gw' = snd (gw_string (Version x) (snd (gw_string (ComponentName x) gw)))"
      using assms Some by (simp add: sbom_strings_def split_beta Let_def)
    then show ?thesis using gw_string_sizes order_trans by metis
  qed
  show "Symbols gw' = Symbols gw"
  proof -
    have "gw' = snd (snd (sbom_strings si gw))" using assms by simp
    then show ?thesis
      by (cases si) (simp_all add: sbom_strings_def split_beta Let_def gw_string_frame)
  qed
qed

lemma gw_symbol_sizes:
  assumes "gw_symbol GV gw = Ok (n, gw')"
  shows "length (Symbols gw) \<le> length (Symbols gw')" and "strings gw' = strings gw"
  using assms by (auto simp: gw_symbol_def Let_def ok_iff strings_def split: option.splits)

lemma gw_symbol_frame:
  assumes "gw_symbol GV gw = Ok (n, gw')"
  shows "num_functions gw' = num_functions gw \<and>
    has_active_function_writer gw' = has_active_function_writer gw \<and>
    SbomInfo gw' = SbomInfo gw \<and> FileToSbomInfo gw' = FileToSbomInfo gw"
  using assms by (auto simp: gw_symbol_def Let_def ok_iff split: option.splits)

lemma sbom_strings_frame:
  assumes "sbom_strings si gw = (c, v, gw')"
  shows "num_functions gw' = num_functions gw \<and>
    has_active_function_writer gw' = has_active_function_writer gw"
proof -
  have "gw' = snd (snd (sbom_strings si gw))" using assms by simp
  then show ?thesis
    by (cases si) (simp_all add: sbom_strings_def split_beta Let_def gw_string_frame)
qed

lemma sbom_strings_inv:
  assumes "tables_inv srt dbg gw cur ws" and "sbom_strings si gw = (c, v, gw')"
    and "length (strings gw') \<le> 2 ^ 32" and "sbom_texts si = (cname, ver)"
  shows "tables_inv srt dbg gw' cur ws"
    and "string_at (strings gw') c cname" and "string_at (strings gw') v ver"
proof -
  have all: "tables_inv srt dbg gw' cur ws \<and>
    string_at (strings gw') c cname \<and> string_at (strings gw') v ver"
  proof (cases si)
    case None
    with assms(2) have "gw_string '''' gw = (c, gw')" "v = c"
      by (auto simp: sbom_strings_def split: prod.splits)
    with gw_string_inv [OF assms(1) _ assms(3)] assms(4) None show ?thesis
      by (auto simp: sbom_texts_def)
  next
    case (Some x)
    then obtain gw1 where 1: "gw_string (ComponentName x) gw = (c, gw1)"
      and 2: "gw_string (Version x) gw1 = (v, gw')"
      using assms(2) by (auto simp: sbom_strings_def split: prod.splits)
    have "length (strings gw1) \<le> 2 ^ 32"
      using gw_string_sizes [of gw1 "Version x"] 2 assms(3) by simp
    note a = gw_string_inv [OF assms(1) 1 this]
    note b = gw_string_inv [OF a(1) 2 assms(3)]
    from a(2) b(3) have "string_at (strings gw') c (ComponentName x)"
      by (auto intro: string_at_grow)
    with b assms(4) Some show ?thesis by (auto simp: sbom_texts_def)
  qed
  then show "tables_inv srt dbg gw' cur ws"
    and "string_at (strings gw') c cname" and "string_at (strings gw') v ver" by simp_all
qed

lemma FunctionWriter_init_ok:
  assumes "FunctionWriter_init canon F dbg gw = Ok (fw, gw')"
  obtains n gw1 c v where
    "gw_symbol (GlobalObject (fn_object F))
       (gw\<lparr>has_active_function_writer := True, num_functions := num_functions gw + 1\<rparr>) = Ok (n, gw1)"
    "sbom_strings (getSbomInfoOfFunction canon F gw1) gw1 = (c, v, gw')"
    "fw = \<lparr>ThisSymbolIdx = symbol_of n, SbomComponentIdx = c, SbomVersionIdx = v,
           Written = False, fw_record_debug_data = dbg, num_locals = 0, m_edges = (\<lambda>_. [])\<rparr>"
    "\<not> has_active_function_writer gw"
proof -
  let ?gw0 = "gw\<lparr>has_active_function_writer := True, num_functions := num_functions gw + 1\<rparr>"
  have 0: "\<not> has_active_function_writer gw"
    using assms by (simp add: FunctionWriter_init_def assert_r_def split: if_splits)
  obtain p where p: "gw_symbol (GlobalObject (fn_object F)) ?gw0 = Ok p"
    using assms 0 by (cases "gw_symbol (GlobalObject (fn_object F)) ?gw0")
      (simp_all add: FunctionWriter_init_def)
  obtain n gw1 where n: "p = (n, gw1)" by (cases p)
  obtain c v gw2 where sb: "sbom_strings (getSbomInfoOfFunction canon F gw1) gw1 = (c, v, gw2)"
    by (metis prod_cases3)
  have "gw2 = gw'" and fw: "fw = \<lparr>ThisSymbolIdx = symbol_of n, SbomComponentIdx = c,
      SbomVersionIdx = v, Written = False, fw_record_debug_data = dbg, num_locals = 0,
      m_edges = (\<lambda>_. [])\<rparr>"
    using assms unfolding FunctionWriter_init_def p n
    by (simp_all add: 0 node_symbol_of_def ok_iff sb)
  with sb have "sbom_strings (getSbomInfoOfFunction canon F gw1) gw1 = (c, v, gw')" by simp
  from p [unfolded n] this fw 0 show thesis by (rule that)
qed

lemma FunctionWriter_init_inv:
  assumes "writer_inv srt dbg gw None ws" and "FunctionWriter_init canon F dbg gw = Ok (fw, gw')"
    and "sbom_texts (getSbomInfoOfFunction canon F gw) = (cname, ver)"
    and "length (strings gw') \<le> 2 ^ 32" and "length (Symbols gw') \<le> 2 ^ 31"
  shows "writer_inv srt dbg gw'
    (Some (fw, \<lparr>w_symbol = ThisSymbolIdx fw, w_component = cname, w_version = ver,
                w_locals = [], w_allocas = 0, w_edges = []\<rparr>)) ws"
proof -
  let ?gw0 = "gw\<lparr>has_active_function_writer := True, num_functions := num_functions gw + 1\<rparr>"
  obtain n gw1 c v where
    1: "gw_symbol (GlobalObject (fn_object F)) ?gw0 = Ok (n, gw1)" and
    2: "sbom_strings (getSbomInfoOfFunction canon F gw1) gw1 = (c, v, gw')" and
    fw: "fw = \<lparr>ThisSymbolIdx = symbol_of n, SbomComponentIdx = c, SbomVersionIdx = v,
               Written = False, fw_record_debug_data = dbg, num_locals = 0,
               m_edges = (\<lambda>_. [])\<rparr>"
    by (rule FunctionWriter_init_ok [OF assms(2)])
  have t0: "tables_inv srt dbg ?gw0 None ws"
    using assms(1)
    by (auto simp: writer_inv_def tables_inv_def strings_ok_def strings_def symbols_ok_def
        open_ok_def)
  note z = sbom_strings_sizes [OF 2]
  have "length (Symbols gw1) \<le> 2 ^ 31" using assms(5) z by simp
  note a = gw_symbol_inv [OF t0 1 this]
  note fr = gw_symbol_frame [OF 1]
  have "getSbomInfoOfFunction canon F gw1 = getSbomInfoOfFunction canon F gw"
    using fr by (simp add: getSbomInfoOfFunction_def split: option.splits)
  note b = sbom_strings_inv [OF a(1) 2 assms(4), unfolded this, OF assms(3)]
  have s: "length (symbols_in_order gw1) \<le> length (symbols_in_order gw')"
    using z(2) a(1) b(1) by (simp add: tables_inv_def symbols_ok_def)
  show ?thesis
    using b a(4) s fr sbom_strings_frame [OF 2] assms(1)
    by (auto simp: writer_inv_def tables_inv_def fw open_ok_def open_locals_def kind_edges_def)
qed

lemma freshLocal_inv:
  assumes "writer_inv srt dbg gw (Some (fw, w)) ws" and "freshLocal Name (fw, gw) = Ok (n, fw', gw')"
    and "length (strings gw') \<le> 2 ^ 32"
  shows "writer_inv srt dbg gw' (Some (fw', w\<lparr>w_locals := w_locals w @ [Name]\<rparr>)) ws"
proof -
  have l: "length (w_locals w) < 2 ^ 16" "num_locals fw = of_nat (length (w_locals w))"
    and t: "tables_inv srt dbg gw (Some (fw, w)) ws" and d: "fw_record_debug_data fw = dbg"
    using assms(1) by (auto simp: writer_inv_def tables_inv_def open_ok_def)
  have u: "ucast (num_locals fw) + 1 = (of_nat (length (w_locals w) + 1) :: u64)"
    using l by (simp add: ucast_of_nat_32_64)
  have fw': "fw' = fw\<lparr>num_locals := num_locals fw + 1\<rparr>"
    and lt: "of_nat (length (w_locals w) + 1) < (2 ^ 16 :: u64)"
    using assms(2) u by (auto simp: freshLocal_def node_local_def Let_def ok_iff)
  have len: "length (w_locals w) + 1 < 2 ^ 16"
  proof -
    have "unat (of_nat (length (w_locals w) + 1) :: u64) = length (w_locals w) + 1"
      using l(1) by (intro unat_of_nat_small) simp
    with lt show ?thesis by (simp add: word_less_nat_alt)
  qed
  show ?thesis
  proof (cases dbg)
    case False
    with assms(2) d have "gw' = gw" by (auto simp: freshLocal_def node_local_def Let_def ok_iff)
    with assms(1) len l False show ?thesis
      by (auto simp: writer_inv_def tables_inv_def open_ok_def fw' names_ok_def kind_edges_def
            intro: edge_ok_grow)
  next
    case True
    then obtain i gw1 where s: "gw_string Name gw = (i, gw1)"
      and gw': "gw' = gw1\<lparr>local_names := local_names gw1 @ [i]\<rparr>"
      using assms(2) d by (auto simp: freshLocal_def node_local_def Let_def ok_iff split: prod.splits)
    have "length (strings gw1) \<le> 2 ^ 32" using assms(3) by (simp add: gw' strings_def)
    note a = gw_string_inv [OF t s this]
    have fr: "num_functions gw1 = num_functions gw"
      "has_active_function_writer gw1 = has_active_function_writer gw"
      using gw_string_frame [of Name gw] s by simp_all
    have g: "strings gw' = strings gw1" "strings_ok gw' = strings_ok gw1"
      "symbols_ok gw' = symbols_ok gw1"
      by (simp_all add: gw' strings_def strings_ok_def symbols_ok_def)
    have "names_ok dbg (strings gw1) (local_names gw1 @ [i])
        ((concat (map w_locals ws) @ w_locals w) @ [Name])"
      using a(1,2) True list_all2_appendI [of _ _ _ "[i]" "[Name]"]
      by (simp add: tables_inv_def names_ok_def open_locals_def del: append_assoc)
    then show ?thesis
      using a(1) fr g assms(1) len l True
      by (auto simp: writer_inv_def tables_inv_def open_ok_def fw' gw' kind_edges_def
            open_locals_def intro: edge_ok_grow)
  qed
qed

text \<open>Every node \<open>node_ok\<close> describes is encoded, to \<open>node_word\<close>.\<close>

lemma encode_node_word:
  assumes "node_ok nsym (ThisSymbolIdx fw) nl n"
  shows "encode_node fw n = Ok (node_word n)"
  using assms
  by (auto simp: encode_node_def node_local_idx_def node_ok_def node_word_def split: option.splits)

lemma addEdge_inv:
  assumes "writer_inv srt dbg gw (Some (fw, w)) ws" and "addEdge e fw = Ok fw'"
    and "edge_ok (length (Symbols gw)) (ThisSymbolIdx fw) (unat (num_locals fw)) e"
  shows "writer_inv srt dbg gw (Some (fw', w\<lparr>w_edges := w_edges w @ [e]\<rparr>)) ws"
proof -
  have "unat (num_locals fw) = length (w_locals w)"
    and this: "ThisSymbolIdx fw = w_symbol w"
    and sym: "length (Symbols gw) = length (symbols_in_order gw)"
    using assms(1)
    by (auto simp: writer_inv_def tables_inv_def open_ok_def symbols_ok_def unat_of_nat_small)
  with assms(3)
  have ok: "edge_ok (length (symbols_in_order gw)) (w_symbol w) (length (w_locals w)) e" by simp
  have "fw' = fw\<lparr>m_edges := (m_edges fw)(kind e := m_edges fw (kind e) @ [raw_of e])\<rparr>"
    using assms(2,3) encode_node_word by (auto simp: addEdge_def raw_of_def edge_ok_def Let_def)
  with assms(1) ok show ?thesis
    by (auto simp: writer_inv_def tables_inv_def open_ok_def open_locals_def kind_edges_def)
qed

text \<open>The loop of \<open>finish\<close> over the kinds.\<close>

lemma finish_kinds:
  "for_each (finish_kind srt fw) ks out = Ok out' \<longleftrightarrow>
     (\<forall>k\<in>set ks. length (srt (edge_less k) (m_edges fw k)) < 2 ^ 32) \<and>
     out' = out @ concat (map (\<lambda>k. of_nat (length (srt (edge_less k) (m_edges fw k))) #
       delta_encode k 0 (srt (edge_less k) (m_edges fw k))) ks)"
  by (induction ks arbitrary: out)
    (auto simp: ok_iff finish_kind_def u32_of_size_def Let_def)

lemma finish_ok:
  assumes "finish srt na (fw, gw) = Ok (fw', gw')"
  shows "\<not> Written fw" and "unat (ThisSymbolIdx fw) < 2 ^ 32"
    and "\<forall>k. length (srt (edge_less k) (m_edges fw k)) < 2 ^ 32"
    and "gw' = gw\<lparr>has_active_function_writer := False,
      function_data := function_data gw @
        [ucast (ThisSymbolIdx fw), SbomComponentIdx fw, SbomVersionIdx fw, num_locals fw, na] @
        concat (map (\<lambda>k. of_nat (length (srt (edge_less k) (m_edges fw k))) #
          delta_encode k 0 (srt (edge_less k) (m_edges fw k))) all_kinds)\<rparr>"
proof -
  obtain out where *: "\<not> Written fw" "ThisSymbolIdx fw \<le> 0xffffffff"
    "for_each (finish_kind srt fw) all_kinds (function_data gw @
       [ucast (ThisSymbolIdx fw), SbomComponentIdx fw, SbomVersionIdx fw, num_locals fw, na]) = Ok out"
    "gw' = gw\<lparr>has_active_function_writer := False, function_data := out\<rparr>"
    using assms
    by (auto simp: finish_def Let_def as_u32_def visit_tuple_def ok_iff unwrap_def
        split: result.splits)
  then show "\<not> Written fw" "unat (ThisSymbolIdx fw) < 2 ^ 32"
    by (simp_all add: word_le_nat_alt)
  note k = *(3) [unfolded finish_kinds set_all_kinds]
  from k show "\<forall>k. length (srt (edge_less k) (m_edges fw k)) < 2 ^ 32" by simp
  from k *(4) show "gw' = gw\<lparr>has_active_function_writer := False,
      function_data := function_data gw @
        [ucast (ThisSymbolIdx fw), SbomComponentIdx fw, SbomVersionIdx fw, num_locals fw, na] @
        concat (map (\<lambda>k. of_nat (length (srt (edge_less k) (m_edges fw k))) #
          delta_encode k 0 (srt (edge_less k) (m_edges fw k))) all_kinds)\<rparr>" by simp
qed

lemma finish_inv:
  assumes "writer_inv srt dbg gw (Some (fw, w)) ws" and "na \<le> num_locals fw"
    and "finish srt na (fw, gw) = Ok (fw', gw')"
  shows "writer_inv srt dbg gw' None (ws @ [w\<lparr>w_allocas := na\<rparr>])"
proof -
  let ?w = "w\<lparr>w_allocas := na\<rparr>"
  let ?n = "length (symbols_in_order gw)"
  note f = finish_ok [OF assms(3)]
  have o: "ThisSymbolIdx fw = w_symbol w" "unat (w_symbol w) < ?n" "length (w_locals w) < 2 ^ 16"
    "num_locals fw = of_nat (length (w_locals w))"
    "string_at (strings gw) (SbomComponentIdx fw) (w_component w)"
    "string_at (strings gw) (SbomVersionIdx fw) (w_version w)"
    "\<And>k. m_edges fw k = map raw_of (kind_edges k w)"
    "\<forall>e\<in>set (w_edges w). edge_ok ?n (w_symbol w) (length (w_locals w)) e"
    using assms(1) by (auto simp: writer_inv_def tables_inv_def open_ok_def)
  have k: "kind_edges k ?w = kind_edges k w" for k by (simp add: kind_edges_def)
  have s: "sorted_raws srt k ?w = srt (edge_less k) (m_edges fw k)" for k
    by (simp add: sorted_raws_def k o(7))
  have "unat na \<le> length (w_locals w)"
    using assms(2) o(3,4) by (simp add: word_le_nat_alt unat_of_nat_small)
  then have ok: "written_ok srt ?n ?w"
    using o f(3) by (simp add: written_ok_def s)
  have gw': "gw' = gw\<lparr>has_active_function_writer := False, function_data := function_data gw @
      function_words srt (SbomComponentIdx fw) (SbomVersionIdx fw) ?w\<rparr>"
    using f(4) o(1,4) by (simp add: function_words_def kind_words_def s cong: map_cong)
  have st: "stored srt (strings gw) ?n ?w
      (function_words srt (SbomComponentIdx fw) (SbomVersionIdx fw) ?w)"
    unfolding stored_def using ok o(5,6) by auto
  have "history_ok srt (strings gw) ?n ws (function_data gw)"
    using assms(1) by (simp add: writer_inv_def tables_inv_def)
  then obtain parts where "list_all2 (stored srt (strings gw) ?n) ws parts"
    "function_data gw = concat parts" by (auto simp: history_ok_def)
  with st have "history_ok srt (strings gw) ?n (ws @ [?w]) (function_data gw @
      function_words srt (SbomComponentIdx fw) (SbomVersionIdx fw) ?w)"
    unfolding history_ok_def
    by (intro exI [of _ "parts @ [function_words srt (SbomComponentIdx fw) (SbomVersionIdx fw) ?w]"])
      (simp add: list_all2_appendI)
  with assms(1) show ?thesis
    by (auto simp: writer_inv_def tables_inv_def gw' strings_ok_def strings_def symbols_ok_def
        open_ok_def open_locals_def)
qed

subsection \<open>Every run\<close>

lemma writer_run_inv:
  assumes "writer_run canon srt dbg gw cur ws"
    and "length (strings gw) \<le> 2 ^ 32" and "length (Symbols gw) \<le> 2 ^ 31"
  shows "writer_inv srt dbg gw cur ws"
  using assms
proof (induction rule: writer_run.induct)
  case (run_init oc sbom files)
  show ?case
    by (simp add: GraphWriter_init_def writer_inv_def tables_inv_def strings_ok_def strings_def
        blob_of_def symbols_ok_def history_ok_def names_ok_def open_ok_def open_locals_def)
next
  case (run_symbol gw cur ws GV n gw')
  note z = gw_symbol_sizes [OF run_symbol.hyps(2)] gw_symbol_frame [OF run_symbol.hyps(2)]
  have "writer_inv srt dbg gw cur ws"
    using run_symbol.IH run_symbol.prems z by simp
  with gw_symbol_inv(1) [OF _ run_symbol.hyps(2) run_symbol.prems(2)] z show ?case
    by (auto simp: writer_inv_def)
next
  case (run_function gw ws F fw gw' cname ver)
  from run_function.hyps(2) obtain n gw1 c v where
    1: "gw_symbol (GlobalObject (fn_object F))
       (gw\<lparr>has_active_function_writer := True, num_functions := num_functions gw + 1\<rparr>) = Ok (n, gw1)"
    and 2: "sbom_strings (getSbomInfoOfFunction canon F gw1) gw1 = (c, v, gw')"
    by (rule FunctionWriter_init_ok)
  have "writer_inv srt dbg gw None ws"
    using run_function.IH run_function.prems gw_symbol_sizes [OF 1] sbom_strings_sizes [OF 2]
    by (simp add: strings_def)
  from FunctionWriter_init_inv [OF this run_function.hyps(2,3) run_function.prems]
  show ?case .
next
  case (run_local gw fw w ws Name n fw' gw')
  have "length (strings gw) \<le> length (strings gw')" "Symbols gw' = Symbols gw"
    using run_local.hyps(2) gw_string_sizes [of gw Name] gw_string_frame [of Name gw]
    by (auto simp: freshLocal_def Let_def ok_iff strings_def split: if_splits prod.splits)
  then have "writer_inv srt dbg gw (Some (fw, w)) ws"
    using run_local.IH run_local.prems by simp
  from freshLocal_inv [OF this run_local.hyps(2) run_local.prems(1)] show ?case .
next
  case (run_edge gw fw w ws e fw')
  from addEdge_inv [OF run_edge.IH [OF run_edge.prems] run_edge.hyps(3,2)] show ?case .
next
  case (run_finish gw fw w ws NumAllocas fw' gw')
  note f = finish_ok(4) [OF run_finish.hyps(3)]
  have "writer_inv srt dbg gw (Some (fw, w)) ws"
    using run_finish.IH run_finish.prems by (simp add: f strings_def)
  from finish_inv [OF this run_finish.hyps(2,3)] show ?case .
qed


text \<open>The string table is intact whatever its size.\<close>

lemma strings_ok_same:
  "strings_ok gw \<Longrightarrow> StringBlobIndices gw' = StringBlobIndices gw \<Longrightarrow> StringBlob gw' = StringBlob gw
    \<Longrightarrow> strings_ok gw'"
  by (simp add: strings_ok_def strings_def)

lemma sbom_strings_strings_ok:
  "strings_ok gw \<Longrightarrow> strings_ok (snd (snd (sbom_strings si gw)))"
  by (cases si) (simp_all add: sbom_strings_def split_beta Let_def strtab.inv_intern)

lemma writer_run_strings_ok: "writer_run canon srt dbg gw cur ws \<Longrightarrow> strings_ok gw"
proof (induction rule: writer_run.induct)
  case (run_init oc sbom files)
  show ?case by (simp add: GraphWriter_init_def strings_ok_def strings_def blob_of_def)
next
  case (run_symbol gw cur ws GV n gw')
  from run_symbol.IH show ?case
    by (rule strings_ok_same)
      (use run_symbol.hyps(2) in \<open>auto simp: gw_symbol_def Let_def ok_iff split: option.splits\<close>)
next
  case (run_function gw ws F fw gw' cname ver)
  from run_function.hyps(2) obtain n gw1 c v where
    1: "gw_symbol (GlobalObject (fn_object F))
       (gw\<lparr>has_active_function_writer := True, num_functions := num_functions gw + 1\<rparr>) = Ok (n, gw1)"
    and 2: "sbom_strings (getSbomInfoOfFunction canon F gw1) gw1 = (c, v, gw')"
    by (rule FunctionWriter_init_ok)
  have "strings_ok gw1"
    using run_function.IH by (rule strings_ok_same)
      (use 1 in \<open>auto simp: gw_symbol_def Let_def ok_iff split: option.splits\<close>)
  from sbom_strings_strings_ok [OF this, of "getSbomInfoOfFunction canon F gw1"] 2
  show ?case by simp
next
  case (run_local gw fw w ws Name n fw' gw')
  show ?case
  proof (cases "fw_record_debug_data fw")
    case True
    have "strings_ok (snd (gw_string Name gw))" using run_local.IH by (rule strtab.inv_intern)
    then show ?thesis by (rule strings_ok_same)
      (use run_local.hyps(2) True in \<open>auto simp: freshLocal_def Let_def ok_iff split_beta\<close>)
  next
    case False
    with run_local.IH run_local.hyps(2) show ?thesis
      by (auto simp: freshLocal_def Let_def ok_iff)
  qed
next
  case (run_edge gw fw w ws e fw')
  then show ?case by simp
next
  case (run_finish gw fw w ws NumAllocas fw' gw')
  note f = finish_ok(4) [OF run_finish.hyps(3)]
  from run_finish.IH show ?case by (rule strings_ok_same) (simp_all add: f)
qed

end
