(* ===== verification/Reachability_Logic.thy ===== *)
theory Reachability_Logic imports Reachability_Pass Graph_Writer_Inv begin

text \<open>
  What the edges that the pass writes stand for. The pass uses the graph and function writers through a
  contract, \<open>open_writer\<close>: symbols and fresh locals are valid nodes, and valid nodes make edges. On it rests
  a small logic for the operations of the visitor, whose assertions survive whatever the
  visitor does later.
\<close>

section \<open>The contract of the writers\<close>

definition fits :: "graph_writer \<Rightarrow> bool" where
  "fits gw \<longleftrightarrow> length (StringBlob gw) < 2 ^ 32 \<and> length (Symbols gw) \<le> 2 ^ 31"

lemma run_fits:
  assumes "writer_run canon srt dbg gw cur ws" and "fits gw"
  shows "writer_inv srt dbg gw cur ws"
proof -
  have "StringBlob gw = blob_of (strings gw)" using writer_run_strings_ok [OF assms(1)] by (simp add: strings_ok_def)
  then have "length (strings gw) \<le> 2 ^ 32" using blob_of_length [of "strings gw"] assms(2) by (simp add: fits_def)
  with writer_run_inv [OF assms(1)] assms(2) show ?thesis by (simp add: fits_def)
qed

lemma blob_grows:
  "length (StringBlob gw) \<le> length (StringBlob (snd (gw_string S gw)))"
  "gw_symbol GV gw = Ok (n, gw') \<Longrightarrow> StringBlob gw' = StringBlob gw"
  "sbom_strings si gw = (c, v, gw') \<Longrightarrow> length (StringBlob gw) \<le> length (StringBlob gw')"
proof -
  show 1: "length (StringBlob gw) \<le> length (StringBlob (snd (gw_string S gw)))" for S gw
    by (cases rule: gw_string_cases [where gw = gw and S = S]) simp_all
  show "gw_symbol GV gw = Ok (n, gw') \<Longrightarrow> StringBlob gw' = StringBlob gw"
    by (auto simp: gw_symbol_def Let_def ok_iff split: option.splits)
  show "length (StringBlob gw) \<le> length (StringBlob gw')" if "sbom_strings si gw = (c, v, gw')"
  proof -
    have "gw' = snd (snd (sbom_strings si gw))" using that by simp
    then show ?thesis using 1 [of gw] 1 [of "snd (gw_string S gw)" for S]
      by (cases si) (auto simp: sbom_strings_def split_beta Let_def intro: order_trans)
  qed
qed

definition is_symbol :: "nat list \<Rightarrow> nat \<Rightarrow> node \<Rightarrow> bool" where
  "is_symbol syms g n \<longleftrightarrow>
     is_node n \<and> local_idx_of n = None \<and> unat (symbol_of n) < length syms \<and> syms ! unat (symbol_of n) = g"

definition is_local :: "written \<Rightarrow> nat \<Rightarrow> node \<Rightarrow> bool" where
  "is_local w k n \<longleftrightarrow>
     is_node n \<and> symbol_of n = w_symbol w \<and> map_option unat (local_idx_of n) = Some k \<and> k < length (w_locals w)"

definition valid :: "nat list \<Rightarrow> written \<Rightarrow> node \<Rightarrow> bool" where
  "valid syms w n \<longleftrightarrow> node_ok (length syms) (w_symbol w) (length (w_locals w)) n"

abbreviation edge_of :: "edge_kind \<Rightarrow> node \<Rightarrow> node \<Rightarrow> u32 \<Rightarrow> edge" where
  "edge_of k t f i \<equiv> Edge k t f (if indexed k then i else 0)"

locale open_writer =
  fixes wr :: "writers \<Rightarrow> written \<Rightarrow> bool"
  assumes wr_fits: "wr s w \<Longrightarrow> fits (snd s)"
    and wr_this: "wr (fw, gw) w \<Longrightarrow>
      ThisSymbolIdx fw = w_symbol w \<and> unat (w_symbol w) < length (symbols_in_order gw)"
    and wr_num: "wr (fw, gw) w \<Longrightarrow> num_locals fw = of_nat (length (w_locals w)) \<and> length (w_locals w) < 2 ^ 16"
    and wr_syms: "wr (fw, gw) w \<Longrightarrow> length (symbols_in_order gw) = length (Symbols gw)"
    and wr_symbol: "wr (fw, gw) w \<Longrightarrow> gw_symbol GV gw = Ok (n, gw') \<Longrightarrow> fits gw' \<Longrightarrow>
      wr (fw, gw') w \<and> is_symbol (symbols_in_order gw') (gid (underlying_object GV)) n \<and>
      (\<exists>ks. symbols_in_order gw' = symbols_in_order gw @ ks)"
    and wr_local: "wr (fw, gw) w \<Longrightarrow> freshLocal nm (fw, gw) = Ok (n, fw', gw') \<Longrightarrow> fits gw' \<Longrightarrow>
      wr (fw', gw') (w\<lparr>w_locals := w_locals w @ [nm]\<rparr>) \<and>
      is_local (w\<lparr>w_locals := w_locals w @ [nm]\<rparr>) (length (w_locals w)) n \<and>
      symbols_in_order gw' = symbols_in_order gw"
    and wr_edge: "wr (fw, gw) w \<Longrightarrow> addEdge e fw = Ok fw' \<Longrightarrow>
      valid (symbols_in_order gw) w (to_node e) \<Longrightarrow> valid (symbols_in_order gw) w (from_node e) \<Longrightarrow>
      indexed (kind e) \<or> edge_idx e = 0 \<Longrightarrow> wr (fw', gw) (w\<lparr>w_edges := w_edges w @ [e]\<rparr>)"

text \<open>What has to fit at the end fits before.\<close>

lemma fits_symbol: "gw_symbol GV gw = Ok (n, gw') \<Longrightarrow> fits gw' \<Longrightarrow> fits gw"
  using gw_symbol_sizes [of GV gw n gw'] blob_grows(2) [of GV gw n gw'] by (auto simp: fits_def)

lemma freshLocal_cases:
  assumes "freshLocal nm (fw, gw) = Ok (n, fw', gw')"
  shows "node_local (ThisSymbolIdx fw) (ucast (num_locals fw)) = Ok n" "ThisSymbolIdx fw' = ThisSymbolIdx fw"
    "Symbols gw' = Symbols gw" "symbols_in_order gw' = symbols_in_order gw" "length (StringBlob gw) \<le> length (StringBlob gw')"
proof -
  obtain i gw1 where g: "gw_string nm gw = (i, gw1)" by fastforce
  then have "Symbols gw1 = Symbols gw" "symbols_in_order gw1 = symbols_in_order gw" "length (StringBlob gw) \<le> length (StringBlob gw1)"
    using gw_string_frame [of nm gw] blob_grows(1) [of gw nm] by simp_all
  then show "node_local (ThisSymbolIdx fw) (ucast (num_locals fw)) = Ok n" "ThisSymbolIdx fw' = ThisSymbolIdx fw"
    "Symbols gw' = Symbols gw" "symbols_in_order gw' = symbols_in_order gw" "length (StringBlob gw) \<le> length (StringBlob gw')"
    using assms g by (auto simp: freshLocal_def Let_def ok_iff split: if_splits)
qed

lemma fits_local: "freshLocal nm s = Ok (n, s') \<Longrightarrow> fits (snd s') \<Longrightarrow> fits (snd s)"
  using freshLocal_cases [of nm "fst s" "snd s" n "fst s'" "snd s'"] by (auto simp: fits_def)

interpretation run: open_writer
  "\<lambda>s w. fits (snd s) \<and> writer_run canon srt dbg (snd s) (Some (fst s, w)) ws" for canon srt dbg ws
proof
  fix s :: writers and fw fw' gw gw' w n and GV :: global_value and nm e
  show "fits (snd s) \<and> writer_run canon srt dbg (snd s) (Some (fst s, w)) ws \<Longrightarrow> fits (snd s)" by simp
  assume r: "fits (snd (fw, gw)) \<and> writer_run canon srt dbg (snd (fw, gw)) (Some (fst (fw, gw), w)) ws"
  then have run: "writer_run canon srt dbg gw (Some (fw, w)) ws" by simp
  then have inv: "writer_inv srt dbg gw (Some (fw, w)) ws" using r by (intro run_fits) simp_all
  then have t: "tables_inv srt dbg gw (Some (fw, w)) ws" and o: "open_ok dbg (strings gw) (length (symbols_in_order gw)) (Some (fw, w))"
    and len: "length (symbols_in_order gw) = length (Symbols gw)" and nl: "num_locals fw = of_nat (length (w_locals w))"
      "length (w_locals w) < 2 ^ 16"
    by (auto simp: writer_inv_def tables_inv_def symbols_ok_def open_ok_def)
  from o show tf: "ThisSymbolIdx fw = w_symbol w \<and> unat (w_symbol w) < length (symbols_in_order gw)"
    by (simp add: open_ok_def)
  show "num_locals fw = of_nat (length (w_locals w)) \<and> length (w_locals w) < 2 ^ 16" using nl by simp
  show "length (symbols_in_order gw) = length (Symbols gw)" using len .
  {
    assume s: "gw_symbol GV gw = Ok (n, gw')" "fits gw'"
    have "\<exists>ks. symbols_in_order gw' = symbols_in_order gw @ ks"
      using s(1) by (auto simp: gw_symbol_def Let_def ok_iff split: option.splits)
    then show "(fits (snd (fw, gw')) \<and> writer_run canon srt dbg (snd (fw, gw')) (Some (fst (fw, gw'), w)) ws) \<and>
        is_symbol (symbols_in_order gw') (gid (underlying_object GV)) n \<and> (\<exists>ks. symbols_in_order gw' = symbols_in_order gw @ ks)"
      using gw_symbol_inv [OF t s(1)] s run_symbol [OF run s(1)] by (simp add: fits_def is_symbol_def)
  next
    assume l: "freshLocal nm (fw, gw) = Ok (n, fw', gw')" "fits gw'"
    note c = freshLocal_cases [OF l(1)]
    have "unat (ucast (num_locals fw) :: u64) = length (w_locals w)"
      using nl by (simp add: unat_ucast_small unat_of_nat_small)
    moreover have "length (symbols_in_order gw) \<le> 2 ^ 31" using r len by (simp add: fits_def)
    ultimately have ok: "symbol_ok (ThisSymbolIdx fw)" "unat (ucast (num_locals fw) :: u64) = length (w_locals w)"
      using tf by (auto simp: symbol_ok_def)
    have "local_ok (ucast (num_locals fw))"
      using c(1) ok(2) nl(2) by (auto simp: node_local_def local_ok_def Let_def ok_iff word_less_nat_alt unat_word_ariths)
    note f = node_local_fields [OF ok(1) this]
    have "unat (ucast (ucast (num_locals fw) :: u64) :: u16) = length (w_locals w)"
      using nl(2) ok(2) by (simp add: unat_ucast_small)
    then have "is_local (w\<lparr>w_locals := w_locals w @ [nm]\<rparr>) (length (w_locals w)) n"
      using c(1) f tf by (auto simp: is_local_def)
    then show "(fits (snd (fw', gw')) \<and>
        writer_run canon srt dbg (snd (fw', gw')) (Some (fst (fw', gw'), w\<lparr>w_locals := w_locals w @ [nm]\<rparr>)) ws) \<and>
        is_local (w\<lparr>w_locals := w_locals w @ [nm]\<rparr>) (length (w_locals w)) n \<and> symbols_in_order gw' = symbols_in_order gw"
      using run_local [OF run l(1)] l(2) c(4) by simp
  next
    assume e: "addEdge e fw = Ok fw'" "valid (symbols_in_order gw) w (to_node e)" "valid (symbols_in_order gw) w (from_node e)"
      "indexed (kind e) \<or> edge_idx e = 0"
    have "edge_ok (length (Symbols gw)) (ThisSymbolIdx fw) (unat (num_locals fw)) e"
      using e(2-4) tf nl len by (auto simp: edge_ok_def valid_def unat_of_nat_small)
    from run_edge [OF run this e(1)]
    show "fits (snd (fw', gw)) \<and> writer_run canon srt dbg (snd (fw', gw)) (Some (fst (fw', gw), w\<lparr>w_edges := w_edges w @ [e]\<rparr>)) ws"
      using r by simp
  }
qed

section \<open>What the nodes stand for\<close>

text \<open>The globals whose addresses a constant holds, and the flow of assignments.\<close>

fun leaves :: "ir_constant \<Rightarrow> nat set" where
  "leaves (GlobalConst G) = {gid (underlying_object G)}"
| "leaves (CompoundConst nm Os) = \<Union> (leaves ` set Os)"
| "leaves _ = {}"

definition assigns :: "written \<Rightarrow> (node \<times> node) set" where
  "assigns w = {(to_node e, from_node e) |e. e \<in> set (w_edges w) \<and> kind e = AssignK}"

text \<open>A node that receives the addresses of some globals; the null node if there are none.\<close>

definition covers :: "nat list \<Rightarrow> written \<Rightarrow> nat set \<Rightarrow> node \<Rightarrow> bool" where
  "covers syms w G n \<longleftrightarrow>
     (if G = {} then n = null_node else valid syms w n) \<and>
     (\<forall>g\<in>G. \<exists>m. is_symbol syms g m \<and> (n, m) \<in> (assigns w)\<^sup>*)"

text \<open>The node of a value, under an assignment of locals to instructions and arguments.\<close>

definition rep :: "(val \<rightharpoonup> node) \<Rightarrow> nat list \<Rightarrow> written \<Rightarrow> val \<Rightarrow> node \<Rightarrow> bool" where
  "rep \<rho> syms w V n \<longleftrightarrow>
     (case V of Const C \<Rightarrow> covers syms w (leaves C) n | InlineAsm \<Rightarrow> n = null_node | OtherValue \<Rightarrow> False
      | _ \<Rightarrow> \<rho> V = Some n \<and> (\<exists>k. is_local w k n))"

definition grown :: "nat list \<Rightarrow> written \<Rightarrow> nat list \<Rightarrow> written \<Rightarrow> bool" where
  "grown syms w syms' w' \<longleftrightarrow>
     (\<exists>ks. syms' = syms @ ks) \<and> (\<exists>ns. w_locals w' = w_locals w @ ns) \<and> (\<exists>es. w_edges w' = w_edges w @ es) \<and>
     w_symbol w' = w_symbol w \<and> w_component w' = w_component w \<and> w_version w' = w_version w"

lemma grown_refl [simp]: "grown syms w syms w"
  by (simp add: grown_def)

lemma grown_trans: "grown s1 w1 s2 w2 \<Longrightarrow> grown s2 w2 s3 w3 \<Longrightarrow> grown s1 w1 s3 w3"
  by (auto simp: grown_def)

lemma is_symbol_grown: "grown syms w syms' w' \<Longrightarrow> is_symbol syms g n \<Longrightarrow> is_symbol syms' g n"
  by (auto simp: grown_def is_symbol_def nth_append)

lemma is_local_grown: "grown syms w syms' w' \<Longrightarrow> is_local w k n \<Longrightarrow> is_local w' k n"
  by (auto simp: grown_def is_local_def)

lemma valid_grown: "grown syms w syms' w' \<Longrightarrow> valid syms w n \<Longrightarrow> valid syms' w' n"
  by (auto simp: grown_def valid_def intro: node_ok_grow)

lemma assigns_grown: "grown syms w syms' w' \<Longrightarrow> assigns w \<subseteq> assigns w'"
  by (auto simp: grown_def assigns_def)

lemma covers_grown: "grown syms w syms' w' \<Longrightarrow> covers syms w G n \<Longrightarrow> covers syms' w' G n"
  using rtrancl_mono [OF assigns_grown, of syms w syms' w']
  by (auto simp: covers_def intro: valid_grown is_symbol_grown split: if_splits)
    (meson is_symbol_grown subsetD)+

lemma map_le_Some: "\<rho> \<subseteq>\<^sub>m \<rho>' \<Longrightarrow> \<rho> V = Some n \<Longrightarrow> \<rho>' V = Some n"
  by (metis domI map_le_def)

lemma rep_grown:
  "grown syms w syms' w' \<Longrightarrow> \<rho> \<subseteq>\<^sub>m \<rho>' \<Longrightarrow> rep \<rho> syms w V n \<Longrightarrow> rep \<rho>' syms' w' V n"
  by (auto simp: rep_def intro: covers_grown is_local_grown map_le_Some split: val.splits)

lemma valid_symbol: "is_symbol syms g n \<Longrightarrow> valid syms w n"
  by (auto simp: is_symbol_def valid_def node_ok_def)

lemma valid_local: "is_local w k n \<Longrightarrow> unat (w_symbol w) < length syms \<Longrightarrow> valid syms w n"
  by (auto simp: is_local_def valid_def node_ok_def)

lemma not_is_node_null [simp]: "\<not> is_node null_node" "\<not> is_node n \<longleftrightarrow> n = null_node"
  by (auto simp: is_node_def null_node_def node.expand)

lemma valid_is_node: "valid syms w n \<Longrightarrow> is_node n"
  by (simp add: valid_def node_ok_def)

lemma covers_step:
  "covers syms w G n \<Longrightarrow> (k, n) \<in> assigns w \<Longrightarrow> g \<in> G \<Longrightarrow> \<exists>m. is_symbol syms g m \<and> (k, m) \<in> (assigns w)\<^sup>*"
  by (auto simp: covers_def intro: converse_rtrancl_into_rtrancl)

lemma covers_flows: "covers syms w G n \<Longrightarrow> g \<in> G \<Longrightarrow> \<exists>m. is_symbol syms g m \<and> (n, m) \<in> (assigns w)\<^sup>*"
  by (simp add: covers_def)

lemma covers_validI:
  "valid syms w n \<Longrightarrow> G \<noteq> {} \<Longrightarrow> (\<And>g. g \<in> G \<Longrightarrow> \<exists>m. is_symbol syms g m \<and> (n, m) \<in> (assigns w)\<^sup>*) \<Longrightarrow> covers syms w G n"
  by (simp add: covers_def)

lemma covers_nonempty: "covers syms w G n \<Longrightarrow> is_node n \<Longrightarrow> G \<noteq> {} \<and> valid syms w n"
  by (auto simp: covers_def split: if_splits)

lemma rep_valid: "rep \<rho> syms w V n \<Longrightarrow> unat (w_symbol w) < length syms \<Longrightarrow> n = null_node \<or> valid syms w n"
  by (auto simp: rep_def covers_def intro: valid_local split: val.splits if_splits)

section \<open>Constants\<close>

lemma write_edge_ok:
  "write_edge k t f i (fw, gw) = Ok s' \<longleftrightarrow>
     is_node t \<and> is_node f \<and> (\<exists>fw'. addEdge (edge_of k t f i) fw = Ok fw' \<and> s' = (fw', gw))"
  by (auto simp: write_edge_def mk_edge_def ok_iff)

context open_writer begin

text \<open>An operation on the writers that yields a node.\<close>

definition yields :: "writers \<Rightarrow> written \<Rightarrow> writers \<Rightarrow> (written \<Rightarrow> bool) \<Rightarrow> bool" where
  "yields s w s' Q \<longleftrightarrow>
     (\<exists>w'. wr s' w' \<and> grown (symbols_in_order (snd s)) w (symbols_in_order (snd s')) w' \<and> Q w')"

lemma write_edge_yields:
  assumes "write_edge k t f i s = Ok s'" and "wr s w"
    and "valid (symbols_in_order (snd s)) w t" "valid (symbols_in_order (snd s)) w f"
  shows "wr s' (w\<lparr>w_edges := w_edges w @ [edge_of k t f i]\<rparr>) \<and> snd s' = snd s"
proof (cases s)
  case (Pair fw gw)
  with assms(1) obtain fw' where e: "addEdge (edge_of k t f i) fw = Ok fw'" and s': "s' = (fw', gw)"
    by (auto simp: write_edge_ok)
  from wr_edge [OF _ e] assms Pair show ?thesis by (simp add: s')
qed

lemma grown_edge: "grown syms w syms (w\<lparr>w_edges := w_edges w @ [e]\<rparr>)"
  by (simp add: grown_def)

lemma grown_local: "grown syms w syms (w\<lparr>w_locals := w_locals w @ [nm]\<rparr>)"
  by (simp add: grown_def)

lemma assigns_edge: "w_edges w' = es @ [edge_of AssignK t f i] \<Longrightarrow> (t, f) \<in> assigns w'"
  by (force simp: assigns_def)

lemma builder_add_ok:
  assumes "builder_add nm N (out, created, s) = Ok (out', created', s')" and "fits (snd s')"
  shows "fits (snd s) \<and>
    (wr s w \<longrightarrow> covers (symbols_in_order (snd s)) w G out \<longrightarrow> covers (symbols_in_order (snd s)) w H N \<longrightarrow>
     yields s w s' (\<lambda>w'. covers (symbols_in_order (snd s')) w' (G \<union> H) out'))"
proof (cases "is_node N \<and> is_node out")
  case False
  with assms have s': "s' = s" by (auto simp: builder_add_def split: if_splits)
  have "covers (symbols_in_order (snd s)) w (G \<union> H) out'"
    if "covers (symbols_in_order (snd s)) w G out" "covers (symbols_in_order (snd s)) w H N"
    using False that assms(1) by (auto simp: builder_add_def covers_def dest: valid_is_node split: if_splits)
  with assms(2) s' show ?thesis by (auto simp: yields_def)
next
  case True
  with assms(1) obtain s1 where
    1: "(if created then Ok (out, s) else try_r (freshLocal (if nm \<noteq> '''' then nm else ''<bracelet constant>'') s) (\<lambda>(n, s).
        try_r (write_edge AssignK n out 0 s) (\<lambda>s. Ok (n, s)))) = Ok (out', s1)"
    and 2: "write_edge AssignK out' N 0 s1 = Ok s'"
    by (auto simp: builder_add_def ok_iff)
  have snd: "snd s' = snd s1" using 2 by (cases s1) (auto simp: write_edge_ok)
  let ?syms = "symbols_in_order (snd s)"
  have first: "fits (snd s) \<and> (wr s w \<longrightarrow> covers ?syms w G out \<longrightarrow> valid ?syms w out \<longrightarrow>
      yields s w s1 (\<lambda>w'. covers (symbols_in_order (snd s1)) w' G out' \<and> valid (symbols_in_order (snd s1)) w' out'))"
  proof (cases created)
    case True
    with 1 assms(2) snd show ?thesis by (auto simp: yields_def)
  next
    case False
    with 1 obtain nm' n s2 where l: "freshLocal nm' s = Ok (n, s2)" and e: "write_edge AssignK n out 0 s2 = Ok s1" and n: "out' = n"
      by (auto simp: ok_iff)
    obtain fw gw fw2 gw2 where s: "s = (fw, gw)" "s2 = (fw2, gw2)" by (cases s; cases s2)
    have snd2: "snd s1 = gw2" using e s by (auto simp: write_edge_ok)
    have f2: "fits gw2" using assms(2) snd snd2 by simp
    have "yields s w s1 (\<lambda>w'. covers (symbols_in_order (snd s1)) w' G n \<and> valid (symbols_in_order (snd s1)) w' n)"
      if wr: "wr s w" and c: "covers ?syms w G out" and v: "valid ?syms w out"
    proof -
      let ?w = "w\<lparr>w_locals := w_locals w @ [nm']\<rparr>"
      let ?w' = "?w\<lparr>w_edges := w_edges ?w @ [edge_of AssignK n out 0]\<rparr>"
      from wr_local [OF wr [unfolded s] l [unfolded s] f2] s
      have w2: "wr s2 ?w" and loc: "is_local ?w (length (w_locals w)) n" and sy: "symbols_in_order gw2 = ?syms" by auto
      have vn: "valid ?syms ?w n" using loc wr_this [of fw2 gw2 ?w] w2 s sy by (intro valid_local) auto
      have vo: "valid ?syms ?w out" using valid_grown [OF grown_local v] .
      have 3: "wr s1 ?w'" using write_edge_yields [OF e w2] vn vo sy s by simp
      have "covers ?syms ?w' G n"
      proof -
        have a: "(n, out) \<in> assigns ?w'" by (rule assigns_edge [of _ "w_edges w" n out 0]) simp
        have g: "grown ?syms w ?syms ?w'" using grown_trans [OF grown_local grown_edge] by blast
        from covers_step [OF covers_grown [OF g c] a] show ?thesis
          using valid_grown [OF grown_edge vn] covers_nonempty [OF c valid_is_node [OF v]]
          by (intro covers_validI) blast+
      qed
      moreover have "grown ?syms w ?syms ?w'" using grown_trans [OF grown_local grown_edge] by blast
      ultimately show ?thesis unfolding yields_def using 3 valid_grown [OF grown_edge vn] snd2 sy
        by (intro exI [of _ ?w']) simp
    qed
    moreover have "fits (snd s)" using fits_local [OF l] f2 s by simp
    ultimately show ?thesis by (simp add: n)
  qed
  have "yields s w s' (\<lambda>w'. covers (symbols_in_order (snd s')) w' (G \<union> H) out')"
    if wr: "wr s w" and c: "covers ?syms w G out" and h: "covers ?syms w H N"
  proof -
    have "valid ?syms w out" "valid ?syms w N" using c h True by (auto simp: covers_def split: if_splits)
    with first wr c obtain w1 where w1: "wr s1 w1" "grown ?syms w (symbols_in_order (snd s1)) w1"
      "covers (symbols_in_order (snd s1)) w1 G out'" "valid (symbols_in_order (snd s1)) w1 out'"
      by (auto simp: yields_def)
    let ?w = "w1\<lparr>w_edges := w_edges w1 @ [edge_of AssignK out' N 0]\<rparr>"
    note N = valid_grown [OF w1(2) \<open>valid ?syms w N\<close>]
    have wr': "wr s' ?w" using write_edge_yields [OF 2 w1(1,4) N] by simp
    have a: "(out', N) \<in> assigns ?w" by (rule assigns_edge [of _ "w_edges w1" out' N 0]) simp
    have "covers (symbols_in_order (snd s1)) ?w H N" "covers (symbols_in_order (snd s1)) ?w G out'"
      using covers_grown [OF grown_edge] covers_grown [OF w1(2) h] w1(3) by blast+
    then have "covers (symbols_in_order (snd s1)) ?w (G \<union> H) out'"
      using valid_grown [OF grown_edge w1(4)] covers_nonempty [OF c] True covers_step [OF _ a] covers_flows
      by (intro covers_validI) blast+
    with wr' grown_trans [OF w1(2) grown_edge] snd show ?thesis
      unfolding yields_def by (intro exI [of _ ?w]) auto
  qed
  with first show ?thesis by simp
qed

lemma yields_trans:
  assumes "yields s w s1 P" and "\<And>w1. wr s1 w1 \<Longrightarrow> grown (symbols_in_order (snd s)) w (symbols_in_order (snd s1)) w1 \<Longrightarrow>
    P w1 \<Longrightarrow> yields s1 w1 s2 Q"
  shows "yields s w s2 Q"
  using assms grown_trans unfolding yields_def by blast

lemma constantNode_yields:
  "constantNode C s = Ok (n, s') \<Longrightarrow> fits (snd s') \<Longrightarrow> fits (snd s) \<and>
     (\<forall>w. wr s w \<longrightarrow> yields s w s' (\<lambda>w'. covers (symbols_in_order (snd s')) w' (leaves C) n))"
  "build_operands nm Os (out, created, s) = Ok (out', created', s') \<Longrightarrow> fits (snd s') \<Longrightarrow> fits (snd s) \<and>
     (\<forall>w G. wr s w \<longrightarrow> covers (symbols_in_order (snd s)) w G out \<longrightarrow>
        yields s w s' (\<lambda>w'. covers (symbols_in_order (snd s')) w' (G \<union> \<Union> (leaves ` set Os)) out'))"
proof (induction C s and nm Os "(out, created, s)" arbitrary: n s' and out created s out' created' s'
    rule: constantNode_build_operands.induct)
  case (1 G fw gw)
  from 1(1) obtain gw' where g: "gw_symbol G gw = Ok (n, gw')" and s': "s' = (fw, gw')" by (auto simp: ok_iff)
  have f: "fits gw'" using 1(2) s' by simp
  have "yields (fw, gw) w s' (\<lambda>w'. covers (symbols_in_order (snd s')) w' (leaves (GlobalConst G)) n)" if "wr (fw, gw) w" for w
    using wr_symbol [OF that g f] s' by (auto simp: yields_def grown_def covers_def intro: valid_symbol)
  with fits_symbol [OF g f] show ?case by simp
next
  case (2 nm Os s)
  from 2(2) obtain b where b: "build_operands nm Os (null_node, False, s) = Ok (n, b, s')" by (auto simp: ok_iff)
  note IH = 2(1) [OF b 2(3)]
  have "yields s w s' (\<lambda>w'. covers (symbols_in_order (snd s')) w' (leaves (CompoundConst nm Os)) n)" if "wr s w" for w
    using IH [THEN conjunct2, rule_format, OF that, of "{}"] by (simp add: covers_def [of _ _ "{}"])
  with IH show ?case by blast
next
  case (3 s)
  then show ?case by (auto simp: yields_def covers_def)
next
  case (4 s)
  then show ?case by simp
next
  case (5 nm b)
  then show ?case by (auto simp: yields_def)
next
  case (6 nm C Os out created s)
  from 6(3) obtain N s1 o2 c2 s2 where 1: "constantNode C s = Ok (N, s1)"
    and 2: "builder_add nm N (out, created, s1) = Ok (o2, c2, s2)"
    and 3: "build_operands nm Os (o2, c2, s2) = Ok (out', created', s')" by (auto simp: ok_iff)
  have IH3: "fits (snd s2) \<and> (\<forall>w G. wr s2 w \<longrightarrow> covers (symbols_in_order (snd s2)) w G o2 \<longrightarrow>
      yields s2 w s' (\<lambda>w'. covers (symbols_in_order (snd s')) w' (G \<union> \<Union> (leaves ` set Os)) out'))"
    using 6(2) [OF 1 refl 2 _ 6(4)] 3 by blast
  have f1: "fits (snd s1)" using builder_add_ok [OF 2] IH3 by blast
  note IH1 = 6(1) [OF 1 f1]
  have "yields s w s' (\<lambda>w'. covers (symbols_in_order (snd s')) w' (G \<union> \<Union> (leaves ` set (C # Os))) out')"
    if w: "wr s w" and c: "covers (symbols_in_order (snd s)) w G out" for w G
  proof -
    from IH1 w have "yields s w s1 (\<lambda>w'. covers (symbols_in_order (snd s1)) w' (leaves C) N)" by blast
    then show ?thesis
    proof (rule yields_trans)
      fix w1
      assume w1: "wr s1 w1" "grown (symbols_in_order (snd s)) w (symbols_in_order (snd s1)) w1"
        "covers (symbols_in_order (snd s1)) w1 (leaves C) N"
      from builder_add_ok [OF 2] IH3 w1(1) covers_grown [OF w1(2) c] w1(3)
      have "yields s1 w1 s2 (\<lambda>w'. covers (symbols_in_order (snd s2)) w' (G \<union> leaves C) o2)" by blast
      then show "yields s1 w1 s' (\<lambda>w'. covers (symbols_in_order (snd s')) w' (G \<union> \<Union> (leaves ` set (C # Os))) out')"
      proof (rule yields_trans)
        fix w2
        assume "wr s2 w2" "covers (symbols_in_order (snd s2)) w2 (G \<union> leaves C) o2"
        with IH3 have "yields s2 w2 s' (\<lambda>w'. covers (symbols_in_order (snd s')) w' ((G \<union> leaves C) \<union> \<Union> (leaves ` set Os)) out')"
          by blast
        then show "yields s2 w2 s' (\<lambda>w'. covers (symbols_in_order (snd s')) w' (G \<union> \<Union> (leaves ` set (C # Os))) out')"
          by (simp add: Un_assoc)
      qed
    qed
  qed
  with IH1 show ?case by blast
qed

end

section \<open>Assertions on the visitor\<close>

abbreviation gw_of :: "edge_visitor \<Rightarrow> graph_writer" where
  "gw_of ev \<equiv> snd (ev_writers ev)"

abbreviation syms_of :: "edge_visitor \<Rightarrow> nat list" where
  "syms_of ev \<equiv> symbols_in_order (gw_of ev)"

type_synonym assertion = "edge_visitor \<Rightarrow> written \<Rightarrow> bool"

definition locals_ok :: "assertion" where
  "locals_ok ev w \<longleftrightarrow>
     (\<forall>(V, n)\<in>set (Locals ev). (\<exists>i. V = Instr i \<or> V = Argument i) \<and> (\<exists>k. is_local w k n)) \<and> distinct (map snd (Locals ev))"

text \<open>A trace site stands for a local of the function.\<close>

definition is_site :: "pass_function \<Rightarrow> node \<Rightarrow> nat \<Rightarrow> edge_visitor \<Rightarrow> bool" where
  "is_site F n site ev \<longleftrightarrow>
     (\<exists>i. is_node n \<and> local_idx_of n = Some i \<and>
        (site, TraceSite (gid (fn_object (pf_function F))) i) \<in> set (new_globals (ev_added ev)))"

definition visitor_ok :: "pass_function \<Rightarrow> assertion" where
  "visitor_ok F ev w \<longleftrightarrow>
     locals_ok ev w \<and> (VarArgs ev = null_node \<or> valid (syms_of ev) w (VarArgs ev)) \<and>
     unat (NumAllocas ev) \<le> length (w_locals w) \<and> length (Locals ev) \<le> length (w_locals w) \<and>
     (\<forall>(n, site)\<in>set (trace_sites ev). is_site F n site ev)"

definition later :: "edge_visitor \<Rightarrow> written \<Rightarrow> edge_visitor \<Rightarrow> written \<Rightarrow> bool" where
  "later ev w ev' w' \<longleftrightarrow>
     grown (syms_of ev) w (syms_of ev') w' \<and> map_of (Locals ev) \<subseteq>\<^sub>m map_of (Locals ev') \<and>
     (\<exists>xs. inserted (ev_added ev') = inserted (ev_added ev) @ xs) \<and>
     (\<exists>xs. new_globals (ev_added ev') = new_globals (ev_added ev) @ xs) \<and>
     (\<exists>xs. call_labels (ev_added ev') = call_labels (ev_added ev) @ xs) \<and>
     (\<exists>xs. allocas_to_free ev' = allocas_to_free ev @ xs) \<and> unat (NumAllocas ev) \<le> unat (NumAllocas ev') \<and>
     (VarArgs ev \<noteq> null_node \<longrightarrow> VarArgs ev' = VarArgs ev) \<and>
     length (Locals ev) \<le> length (Locals ev')"

lemma later_refl [simp]: "later ev w ev w"
  by (simp add: later_def)

lemma later_trans: "later e1 w1 e2 w2 \<Longrightarrow> later e2 w2 e3 w3 \<Longrightarrow> later e1 w1 e3 w3"
  by (auto simp: later_def intro: grown_trans map_le_trans)

definition lasting :: "assertion \<Rightarrow> bool" where
  "lasting A \<longleftrightarrow> (\<forall>ev w ev' w'. later ev w ev' w' \<longrightarrow> A ev w \<longrightarrow> A ev' w')"

named_theorems lasting_intros "assertions that survive what the visitor does later"

lemma lastingD: "lasting A \<Longrightarrow> later ev w ev' w' \<Longrightarrow> A ev w \<Longrightarrow> A ev' w'"
  by (auto simp: lasting_def)

text \<open>Node and edge facts as assertions.\<close>

definition has_node :: "val \<Rightarrow> node \<Rightarrow> assertion" where
  "has_node V n ev w \<longleftrightarrow> rep (map_of (Locals ev)) (syms_of ev) w V n"

definition node_valid :: "node \<Rightarrow> assertion" where
  "node_valid n ev w \<longleftrightarrow> valid (syms_of ev) w n"

definition local_node :: "node \<Rightarrow> assertion" where
  "local_node n ev w \<longleftrightarrow> (\<exists>k. is_local w k n)"

definition global_of :: "nat \<Rightarrow> node \<Rightarrow> assertion" where
  "global_of g n ev w \<longleftrightarrow> is_symbol (syms_of ev) g n"

definition has_edge :: "edge \<Rightarrow> assertion" where
  "has_edge e ev w \<longleftrightarrow> e \<in> set (w_edges w)"

definition has_call :: "place \<times> runtime_call \<Rightarrow> assertion" where
  "has_call c ev w \<longleftrightarrow> c \<in> set (inserted (ev_added ev))"

definition site_of :: "pass_function \<Rightarrow> node \<Rightarrow> nat \<Rightarrow> assertion" where
  "site_of F n site ev w \<longleftrightarrow> is_site F n site ev"

definition has_label :: "nat \<times> string \<Rightarrow> assertion" where
  "has_label l ev w \<longleftrightarrow> l \<in> set (call_labels (ev_added ev))"

definition has_global :: "nat \<times> new_global \<Rightarrow> assertion" where
  "has_global g ev w \<longleftrightarrow> g \<in> set (new_globals (ev_added ev))"

definition varargs_are :: "node \<Rightarrow> assertion" where
  "varargs_are va ev w \<longleftrightarrow> va \<noteq> null_node \<and> VarArgs ev = va"

definition to_free :: "nat \<Rightarrow> assertion" where
  "to_free a ev w \<longleftrightarrow> a \<in> set (allocas_to_free ev)"

lemma lasting_others [lasting_intros]:
  "lasting (has_label l)" "lasting (has_global g)" "lasting (varargs_are va)" "lasting (to_free a)"
  by (auto simp: lasting_def has_label_def has_global_def varargs_are_def to_free_def later_def)

lemma lasting_node [lasting_intros]: "lasting (has_node V n)"
  by (auto simp: lasting_def has_node_def later_def intro: rep_grown)

lemma lasting_valid [lasting_intros]: "lasting (node_valid n)"
  by (auto simp: lasting_def node_valid_def later_def intro: valid_grown)

lemma lasting_local [lasting_intros]: "lasting (local_node n)"
  by (auto simp: lasting_def local_node_def later_def intro: is_local_grown)

lemma lasting_global [lasting_intros]: "lasting (global_of g n)"
  by (auto simp: lasting_def global_of_def later_def intro: is_symbol_grown)

lemma lasting_edge [lasting_intros]: "lasting (has_edge e)"
  by (auto simp: lasting_def has_edge_def later_def grown_def)

lemma lasting_call [lasting_intros]: "lasting (has_call c)"
  by (auto simp: lasting_def has_call_def later_def)

lemma lasting_site [lasting_intros]: "lasting (site_of F n site)"
  by (auto simp: lasting_def site_of_def later_def is_site_def)

lemma lasting_const [lasting_intros]: "lasting (\<lambda>ev w. c)"
  and lasting_conj [lasting_intros]: "lasting A \<Longrightarrow> lasting B \<Longrightarrow> lasting (\<lambda>ev w. A ev w \<and> B ev w)"
  and lasting_disj [lasting_intros]: "lasting A \<Longrightarrow> lasting B \<Longrightarrow> lasting (\<lambda>ev w. A ev w \<or> B ev w)"
  and lasting_imp [lasting_intros]: "(c \<Longrightarrow> lasting A) \<Longrightarrow> lasting (\<lambda>ev w. c \<longrightarrow> A ev w)"
  and lasting_ex [lasting_intros]: "(\<And>x. lasting (C x)) \<Longrightarrow> lasting (\<lambda>ev w. \<exists>x. C x ev w)"
  and lasting_all [lasting_intros]: "(\<And>x. lasting (C x)) \<Longrightarrow> lasting (\<lambda>ev w. \<forall>x. C x ev w)"
  and lasting_ball [lasting_intros]: "(\<And>x. lasting (C x)) \<Longrightarrow> lasting (\<lambda>ev w. \<forall>x\<in>X. C x ev w)"
  by (fastforce simp: lasting_def)+

section \<open>A logic for the operations of the visitor\<close>

context open_writer begin

definition good :: "pass_function \<Rightarrow> assertion" where
  "good F ev w \<longleftrightarrow> wr (ev_writers ev) w \<and> visitor_ok F ev w"

definition op :: "pass_function \<Rightarrow> assertion \<Rightarrow> 'a visit \<Rightarrow> ('a \<Rightarrow> assertion) \<Rightarrow> bool" where
  "op F P f Q \<longleftrightarrow> (\<forall>ev x ev'. f ev = Ok (x, ev') \<longrightarrow> fits (gw_of ev') \<longrightarrow> fits (gw_of ev) \<and>
     (\<forall>w. good F ev w \<longrightarrow> P ev w \<longrightarrow> (\<exists>w'. good F ev' w' \<and> later ev w ev' w' \<and> Q x ev' w')))"

definition step :: "pass_function \<Rightarrow> assertion \<Rightarrow> visit_step \<Rightarrow> assertion \<Rightarrow> bool" where
  "step F P f Q \<longleftrightarrow> op F P (\<lambda>ev. try_r (f ev) (\<lambda>ev. Ok ((), ev))) (\<lambda>_. Q)"

lemma stepD:
  "step F P f Q \<Longrightarrow> f ev = Ok ev' \<Longrightarrow> fits (gw_of ev') \<Longrightarrow> fits (gw_of ev) \<and>
     (\<forall>w. good F ev w \<longrightarrow> P ev w \<longrightarrow> (\<exists>w'. good F ev' w' \<and> later ev w ev' w' \<and> Q ev' w'))"
  by (simp add: step_def op_def)

lemma stepI:
  "(\<And>ev ev'. f ev = Ok ev' \<Longrightarrow> fits (gw_of ev') \<Longrightarrow> fits (gw_of ev) \<and>
     (\<forall>w. good F ev w \<longrightarrow> P ev w \<longrightarrow> (\<exists>w'. good F ev' w' \<and> later ev w ev' w' \<and> Q ev' w'))) \<Longrightarrow> step F P f Q"
  by (auto simp: step_def op_def ok_iff)

lemma opD:
  "op F P f Q \<Longrightarrow> f ev = Ok (x, ev') \<Longrightarrow> fits (gw_of ev') \<Longrightarrow> fits (gw_of ev) \<and>
     (\<forall>w. good F ev w \<longrightarrow> P ev w \<longrightarrow> (\<exists>w'. good F ev' w' \<and> later ev w ev' w' \<and> Q x ev' w'))"
  by (simp add: op_def)

lemma op_bind:
  assumes f: "op F P f Q" and g: "\<And>x. op F (\<lambda>ev w. P ev w \<and> Q x ev w) (g x) R" and P: "lasting P"
  shows "op F P (\<lambda>ev. try_r (f ev) (\<lambda>(x, ev). g x ev)) R"
  unfolding op_def
proof (intro allI impI)
  fix ev y ev'
  assume "try_r (f ev) (\<lambda>(x, ev). g x ev) = Ok (y, ev')" and fits: "fits (gw_of ev')"
  then obtain x ev1 where 1: "f ev = Ok (x, ev1)" and 2: "g x ev1 = Ok (y, ev')" by (auto simp: ok_iff)
  note b = opD [OF g 2 fits]
  note a = opD [OF f 1 conjunct1 [OF b]]
  have "\<exists>w'. good F ev' w' \<and> later ev w ev' w' \<and> R y ev' w'" if w: "good F ev w" "P ev w" for w
  proof -
    from a w obtain w1 where "good F ev1 w1" "later ev w ev1 w1" "Q x ev1 w1" by blast
    moreover have "P ev1 w1" using lastingD [OF P] w calculation(2) by blast
    ultimately show ?thesis using b later_trans by blast
  qed
  with a show "fits (gw_of ev) \<and> (\<forall>w. good F ev w \<longrightarrow> P ev w \<longrightarrow> (\<exists>w'. good F ev' w' \<and> later ev w ev' w' \<and> R y ev' w'))"
    by blast
qed

lemma op_conseq: "op F P f Q \<Longrightarrow> (\<And>ev w. good F ev w \<Longrightarrow> P' ev w \<Longrightarrow> P ev w) \<Longrightarrow>
    (\<And>x ev w. good F ev w \<Longrightarrow> Q x ev w \<Longrightarrow> Q' x ev w) \<Longrightarrow> op F P' f Q'"
  unfolding op_def by blast

lemma step_conseq: "step F P f Q \<Longrightarrow> (\<And>ev w. good F ev w \<Longrightarrow> P' ev w \<Longrightarrow> P ev w) \<Longrightarrow>
    (\<And>ev w. good F ev w \<Longrightarrow> Q ev w \<Longrightarrow> Q' ev w) \<Longrightarrow> step F P' f Q'"
  unfolding step_def by (erule op_conseq) auto

lemma bind_step:
  assumes "op F P f Q" and "\<And>x. step F (\<lambda>ev w. P ev w \<and> Q x ev w) (g x) R" and "lasting P"
  shows "step F P (\<lambda>ev. try_r (f ev) (\<lambda>(x, ev). g x ev)) R"
proof -
  have "(\<lambda>ev. try_r (try_r (f ev) (\<lambda>(x, ev). g x ev)) (\<lambda>ev. Ok ((), ev))) =
      (\<lambda>ev. try_r (f ev) (\<lambda>(x, ev). try_r (g x ev) (\<lambda>ev. Ok ((), ev))))"
    by (rule ext) (simp add: try_r_assoc case_prod_beta')
  with op_bind [OF assms(1), of "\<lambda>x ev. try_r (g x ev) (\<lambda>ev. Ok ((), ev))"] assms(2,3) show ?thesis
    by (simp add: step_def)
qed

lemma step_op:
  assumes "step F P f Q" and "op F (\<lambda>ev w. P ev w \<and> Q ev w) g R" and "lasting P"
  shows "op F P (\<lambda>ev. try_r (f ev) g) R"
proof -
  have "(\<lambda>ev. try_r (f ev) g) = (\<lambda>ev. try_r (try_r (f ev) (\<lambda>ev. Ok ((), ev))) (\<lambda>(x, ev). g ev))"
    by (rule ext) (simp add: try_r_assoc)
  with op_bind [OF assms(1) [unfolded step_def], of "\<lambda>_. g"] assms(2,3) show ?thesis by simp
qed

lemma step_seq:
  assumes "step F P f Q" and "step F (\<lambda>ev w. P ev w \<and> Q ev w) g R" and "lasting P"
  shows "step F P (\<lambda>ev. try_r (f ev) g) R"
proof -
  have "(\<lambda>ev. try_r (try_r (f ev) g) (\<lambda>ev. Ok ((), ev))) = (\<lambda>ev. try_r (f ev) (\<lambda>ev. try_r (g ev) (\<lambda>ev. Ok ((), ev))))"
    by (rule ext) (simp add: try_r_assoc)
  with step_op [OF assms(1), of "\<lambda>ev. try_r (g ev) (\<lambda>ev. Ok ((), ev))"] assms(2,3) show ?thesis
    by (simp add: step_def)
qed

lemma step_ok: "step F Q Ok Q"
  by (rule stepI) auto

lemma step_done: "(\<And>ev w. good F ev w \<Longrightarrow> P ev w \<Longrightarrow> Q ev w) \<Longrightarrow> step F P Ok Q"
  by (rule stepI) auto

lemma op_return: "(\<And>ev w. good F ev w \<Longrightarrow> P ev w \<Longrightarrow> Q x ev w) \<Longrightarrow> op F P (\<lambda>ev. Ok (x, ev)) Q"
  by (auto simp: op_def)

lemma step_abort: "step F P (\<lambda>ev. Abort) Q"
  by (rule stepI) simp

lemma step_assert: "(\<And>ev0. c ev0 \<Longrightarrow> step F P f Q) \<Longrightarrow> step F P (\<lambda>ev. assert_r (c ev) (f ev)) Q"
proof (rule stepI)
  fix ev ev'
  assume c: "\<And>ev0. c ev0 \<Longrightarrow> step F P f Q" and r: "assert_r (c ev) (f ev) = Ok ev'" and fits: "fits (gw_of ev')"
  from r have "c ev" "f ev = Ok ev'" by (simp_all add: ok_iff)
  from stepD [OF c [OF this(1)] this(2) fits]
  show "fits (gw_of ev) \<and> (\<forall>w. good F ev w \<longrightarrow> P ev w \<longrightarrow> (\<exists>w'. good F ev' w' \<and> later ev w ev' w' \<and> Q ev' w'))" .
qed

lemma step_if: "(c \<Longrightarrow> step F P f Q) \<Longrightarrow> (\<not> c \<Longrightarrow> step F P g Q) \<Longrightarrow> step F P (\<lambda>ev. if c then f ev else g ev) Q"
  by (cases c) simp_all

lemma step_keep:
  assumes "step F P f Q" and "lasting P"
  shows "step F P f (\<lambda>ev w. P ev w \<and> Q ev w)"
proof (rule stepI)
  fix ev ev'
  assume "f ev = Ok ev'" and "fits (gw_of ev')"
  from stepD [OF assms(1) this] lastingD [OF assms(2)]
  show "fits (gw_of ev) \<and> (\<forall>w. good F ev w \<longrightarrow> P ev w \<longrightarrow>
      (\<exists>w'. good F ev' w' \<and> later ev w ev' w' \<and> P ev' w' \<and> Q ev' w'))" by blast
qed

lemma step_for_each:
  assumes "\<And>x. x \<in> set xs \<Longrightarrow> step F P (f x) (Q x)" and "lasting P" and "\<And>x. lasting (Q x)"
  shows "step F P (for_each f xs) (\<lambda>ev w. \<forall>x\<in>set xs. Q x ev w)"
  using assms(1)
proof (induction xs)
  case Nil
  show ?case by (rule stepI) auto
next
  case (Cons x xs)
  have IH: "step F (\<lambda>ev w. P ev w \<and> Q x ev w) (for_each f xs) (\<lambda>ev w. (P ev w \<and> Q x ev w) \<and> (\<forall>x\<in>set xs. Q x ev w))"
    using Cons assms(2,3) by (intro step_keep) (auto intro!: lasting_intros elim!: step_conseq)
  have "for_each f (x # xs) = (\<lambda>ev. try_r (f x ev) (for_each f xs))" by (rule ext) simp
  then show ?case
    using step_seq [OF Cons.prems [of x] IH assms(2)] by (auto elim: step_conseq)
qed

lemma step_list: "f = for_each g xs \<Longrightarrow> step F P (for_each g xs) Q \<Longrightarrow> step F P f Q"
  by simp

end

section \<open>The operations of the visitor\<close>

lemma later_writers:
  "grown (syms_of ev) w (symbols_in_order (snd s)) w' \<Longrightarrow> later ev w (ev\<lparr>ev_writers := s\<rparr>) w'"
  by (simp add: later_def)

lemma locals_ok_grown:
  "locals_ok ev w \<Longrightarrow> grown syms w syms' w' \<Longrightarrow> Locals ev' = Locals ev \<Longrightarrow> locals_ok ev' w'"
  using is_local_grown [of syms w syms' w'] by (fastforce simp: locals_ok_def)

lemma visitor_ok_writers:
  assumes "visitor_ok F ev w" and g: "grown (syms_of ev) w (symbols_in_order (snd s)) w'"
  shows "visitor_ok F (ev\<lparr>ev_writers := s\<rparr>) w'"
proof -
  have "length (w_locals w) \<le> length (w_locals w')" using g by (auto simp: grown_def)
  then show ?thesis using assms locals_ok_grown [OF _ g] valid_grown [OF g]
    by (fastforce simp: visitor_ok_def is_site_def)
qed

context open_writer begin

lemma good_this: "good F ev w \<Longrightarrow> unat (w_symbol w) < length (syms_of ev)"
  using wr_this [of "fst (ev_writers ev)" "snd (ev_writers ev)" w] by (simp add: good_def)

lemma good_valid_local: "good F ev w \<Longrightarrow> local_node n ev w \<Longrightarrow> node_valid n ev w"
  using good_this by (auto simp: local_node_def node_valid_def intro: valid_local)

lemma global_valid: "global_of g n ev w \<Longrightarrow> node_valid n ev w"
  by (auto simp: global_of_def node_valid_def intro: valid_symbol)

lemma good_has_node: "good F ev w \<Longrightarrow> has_node V n ev w \<Longrightarrow> is_node n \<Longrightarrow> node_valid n ev w"
  using rep_valid [of "map_of (Locals ev)" "syms_of ev" w V n] good_this [of F ev w]
  by (auto simp: has_node_def node_valid_def)

text \<open>An operation that only works on the writers.\<close>

lemma yields_good:
  assumes "good F ev w" and "yields (ev_writers ev) w s Q"
  shows "\<exists>w'. good F (ev\<lparr>ev_writers := s\<rparr>) w' \<and> later ev w (ev\<lparr>ev_writers := s\<rparr>) w' \<and> Q w'"
proof -
  from assms(2) obtain w' where "wr s w'" and g: "grown (syms_of ev) w (symbols_in_order (snd s)) w'" and "Q w'"
    by (auto simp: yields_def)
  with assms(1) visitor_ok_writers [OF _ g] later_writers [OF g] show ?thesis by (auto simp: good_def)
qed

lemma emit_edge_step:
  "step F (\<lambda>ev w. (is_node t \<longrightarrow> node_valid t ev w) \<and> (is_node f \<longrightarrow> node_valid f ev w)) (emit_edge k t f i)
     (\<lambda>ev w. is_node t \<and> is_node f \<and> has_edge (edge_of k t f i) ev w)"
proof (rule stepI)
  fix ev ev'
  assume "emit_edge k t f i ev = Ok ev'" and fits: "fits (gw_of ev')"
  then obtain s where e: "write_edge k t f i (ev_writers ev) = Ok s" and ev': "ev' = ev\<lparr>ev_writers := s\<rparr>"
    by (auto simp: emit_edge_def ok_iff)
  have snd: "snd s = gw_of ev" and n: "is_node t" "is_node f" using e by (cases "ev_writers ev", auto simp: write_edge_ok)+
  have "\<exists>w'. good F ev' w' \<and> later ev w ev' w' \<and> has_edge (edge_of k t f i) ev' w'"
    if g: "good F ev w" and v: "(is_node t \<longrightarrow> node_valid t ev w) \<and> (is_node f \<longrightarrow> node_valid f ev w)" for w
  proof -
    have "wr s (w\<lparr>w_edges := w_edges w @ [edge_of k t f i]\<rparr>)"
      using write_edge_yields [OF e] g v n by (simp add: good_def node_valid_def)
    then have "yields (ev_writers ev) w s (\<lambda>w'. edge_of k t f i \<in> set (w_edges w'))"
      using grown_edge snd by (auto simp: yields_def intro!: exI [of _ "w\<lparr>w_edges := w_edges w @ [edge_of k t f i]\<rparr>"])
    from yields_good [OF g this] show ?thesis by (simp add: ev' has_edge_def)
  qed
  with fits n show "fits (gw_of ev) \<and> (\<forall>w. good F ev w \<longrightarrow>
      (is_node t \<longrightarrow> node_valid t ev w) \<and> (is_node f \<longrightarrow> node_valid f ev w) \<longrightarrow>
      (\<exists>w'. good F ev' w' \<and> later ev w ev' w' \<and> is_node t \<and> is_node f \<and> has_edge (edge_of k t f i) ev' w'))"
    by (simp add: ev' snd)
qed

lemma fresh_local_exact:
  assumes "fresh_local nm ev = Ok (n, ev')" and "fits (gw_of ev')"
  shows "fits (gw_of ev) \<and> (\<forall>w. good F ev w \<longrightarrow> (let w' = w\<lparr>w_locals := w_locals w @ [nm]\<rparr>
    in good F ev' w' \<and> later ev w ev' w' \<and> is_local w' (length (w_locals w)) n))"
proof -
  from assms(1) obtain s where l: "freshLocal nm (ev_writers ev) = Ok (n, s)" and ev': "ev' = ev\<lparr>ev_writers := s\<rparr>"
    by (auto simp: fresh_local_def ok_iff)
  obtain fw gw fw' gw' where s: "ev_writers ev = (fw, gw)" "s = (fw', gw')" by (cases "ev_writers ev"; cases s)
  have "let w' = w\<lparr>w_locals := w_locals w @ [nm]\<rparr>
      in good F ev' w' \<and> later ev w ev' w' \<and> is_local w' (length (w_locals w)) n" if g: "good F ev w" for w
  proof -
    let ?w = "w\<lparr>w_locals := w_locals w @ [nm]\<rparr>"
    from wr_local [of fw gw w nm n fw' gw'] g l s assms(2) ev'
    have 1: "wr s ?w" "is_local ?w (length (w_locals w)) n" "symbols_in_order gw' = symbols_in_order gw"
      by (auto simp: good_def)
    then have gr: "grown (syms_of ev) w (symbols_in_order (snd s)) ?w" using grown_local s by simp
    from 1 g visitor_ok_writers [OF _ gr] later_writers [OF gr] show ?thesis by (simp add: good_def ev')
  qed
  with fits_local [OF l] assms(2) show ?thesis by (simp add: ev')
qed

lemma fresh_local_op: "op F P (fresh_local nm) (\<lambda>n ev w. local_node n ev w)"
  unfolding op_def local_node_def Let_def using fresh_local_exact [of nm _ _ _ F] by (meson)

lemma global_node_op: "op F P (global_node GO) (\<lambda>n ev w. global_of (gid GO) n ev w)"
  unfolding op_def
proof (intro allI impI)
  fix ev n ev'
  assume "global_node GO ev = Ok (n, ev')" and fits: "fits (gw_of ev')"
  then obtain gw where c: "constantNode (GlobalConst (GlobalObject GO)) (ev_writers ev) = Ok (n, fst (ev_writers ev), gw)"
    and gw: "gw_symbol (GlobalObject GO) (gw_of ev) = Ok (n, gw)"
    and ev': "ev' = ev\<lparr>ev_writers := (fst (ev_writers ev), gw)\<rparr>"
    by (cases "ev_writers ev") (auto simp: global_node_def ok_iff)
  have "\<exists>w'. good F ev' w' \<and> later ev w ev' w' \<and> global_of (gid GO) n ev' w'" if g: "good F ev w" for w
  proof -
    have "yields (ev_writers ev) w (fst (ev_writers ev), gw) (\<lambda>w'. is_symbol (symbols_in_order gw) (gid GO) n)"
      using wr_symbol [of "fst (ev_writers ev)" "gw_of ev" w "GlobalObject GO" n gw] g gw fits ev'
      by (auto simp: yields_def good_def grown_def underlying_object_def)
    from yields_good [OF g this] show ?thesis by (simp add: ev' global_of_def)
  qed
  with fits_symbol [OF gw] fits show "fits (gw_of ev) \<and> (\<forall>w. good F ev w \<longrightarrow> P ev w \<longrightarrow>
      (\<exists>w'. good F ev' w' \<and> later ev w ev' w' \<and> global_of (gid GO) n ev' w'))"
    by (simp add: ev')
qed

text \<open>The node of a value. A new local is not among the nodes of other values.\<close>

lemma node_of_op: "op F P (node_for env V) (\<lambda>n ev w. has_node V n ev w)"
  unfolding op_def
proof (intro allI impI)
  fix ev n ev'
  assume r: "node_for env V ev = Ok (n, ev')" and fits: "fits (gw_of ev')"
  have local: "fits (gw_of ev) \<and> (\<forall>w. good F ev w \<longrightarrow> (\<exists>w'. good F ev' w' \<and> later ev w ev' w' \<and> has_node V n ev' w'))"
    if V: "V = Instr i \<or> V = Argument i" for i
  proof (cases "map_of (Locals ev) V")
    case (Some m)
    then have "ev' = ev" "n = m" using r V by (auto simp: node_for_def)
    moreover have "has_node V m ev w" if "good F ev w" for w
      using that V Some map_of_SomeD [OF Some] by (auto simp: good_def visitor_ok_def locals_ok_def has_node_def rep_def)
    ultimately show ?thesis using fits by auto
  next
    case None
    obtain s where l: "freshLocal (local_name_for env V) (ev_writers ev) = Ok (n, s)"
      and ev': "ev' = ev\<lparr>ev_writers := s, Locals := (V, n) # Locals ev\<rparr>"
      using r V None by (auto simp: node_for_def fresh_local_def ok_iff)
    obtain fw gw fw' gw' where s: "ev_writers ev = (fw, gw)" "s = (fw', gw')" by (cases "ev_writers ev"; cases s)
    let ?nm = "local_name_for env V"
    have "\<exists>w'. good F ev' w' \<and> later ev w ev' w' \<and> has_node V n ev' w'" if g: "good F ev w" for w
    proof -
      let ?w = "w\<lparr>w_locals := w_locals w @ [?nm]\<rparr>"
      have wr': "wr s ?w" and loc: "is_local ?w (length (w_locals w)) n" and sy: "symbols_in_order gw' = symbols_in_order gw"
        using wr_local [of fw gw w ?nm n fw' gw'] g l s fits ev' by (auto simp: good_def)
      have gr: "grown (syms_of ev) w (symbols_in_order (snd s)) ?w" using grown_local [of "symbols_in_order gw" w ?nm] s sy by simp
      note ok = visitor_ok_writers [OF _ gr, of F] later_writers [OF gr]
      have "n \<notin> snd ` set (Locals ev)"
        using g loc by (auto simp: good_def visitor_ok_def locals_ok_def is_local_def)
      then have "visitor_ok F ev' ?w"
        using g ok(1) loc V by (auto simp: good_def visitor_ok_def locals_ok_def ev' is_site_def)
      moreover have "later ev w ev' ?w"
        using ok(2) None by (auto simp: later_def ev' map_le_def domI)
      moreover have "has_node V n ev' ?w" using V loc by (auto simp: has_node_def rep_def ev')
      ultimately show ?thesis using wr' by (intro exI [of _ ?w]) (simp add: good_def ev')
    qed
    with fits_local [OF l] fits show ?thesis by (simp add: ev')
  qed
  show "fits (gw_of ev) \<and> (\<forall>w. good F ev w \<longrightarrow> P ev w \<longrightarrow> (\<exists>w'. good F ev' w' \<and> later ev w ev' w' \<and> has_node V n ev' w'))"
  proof (cases V)
    case (Const C)
    then obtain s where c: "constantNode C (ev_writers ev) = Ok (n, s)" and ev': "ev' = ev\<lparr>ev_writers := s\<rparr>"
      using r by (auto simp: node_for_def ok_iff)
    note y = constantNode_yields(1) [OF c]
    have "\<exists>w'. good F ev' w' \<and> later ev w ev' w' \<and> has_node V n ev' w'" if g: "good F ev w" for w
      using yields_good [OF g, of s] y fits g by (force simp: ev' has_node_def rep_def Const good_def)
    with y fits show ?thesis by (simp add: ev')
  next
    case InlineAsm
    then show ?thesis using r fits by (auto simp: node_for_def has_node_def rep_def)
  next
    case OtherValue
    then show ?thesis using r by (simp add: node_for_def)
  qed (use local in auto)
qed

lemma add_call_step: "step F P (\<lambda>ev. Ok (add_call p c ev)) (has_call (p, c))"
  by (rule stepI)
    (auto simp: add_call_def has_call_def good_def visitor_ok_def locals_ok_def later_def is_site_def Let_def)

lemma traceSite_op: "op F P (traceSite F n) (\<lambda>site ev w. site_of F n site ev w)"
  unfolding op_def
proof (intro allI impI)
  fix ev site ev'
  assume r: "traceSite F n ev = Ok (site, ev')" and fits: "fits (gw_of ev')"
  show "fits (gw_of ev) \<and> (\<forall>w. good F ev w \<longrightarrow> P ev w \<longrightarrow> (\<exists>w'. good F ev' w' \<and> later ev w ev' w' \<and> site_of F n site ev' w'))"
  proof (cases "map_of (trace_sites ev) n")
    case (Some k)
    then have "ev' = ev" "site = k" using r by (auto simp: traceSite_def ok_iff)
    moreover have "site_of F n k ev w" if "good F ev w" for w
      using that map_of_SomeD [OF Some] by (auto simp: good_def visitor_ok_def site_of_def)
    ultimately show ?thesis using fits by auto
  next
    case None
    let ?a = "ev_added ev"
    obtain i where i: "local_idx_of n = Some i" "is_node n" and site: "site = next_number ?a"
      and ev': "ev' = ev\<lparr>ev_added := ?a\<lparr>next_number := site + 1,
        new_globals := new_globals ?a @ [(site, TraceSite (gid (fn_object (pf_function F))) i)]\<rparr>, trace_sites := (n, site) # trace_sites ev\<rparr>"
      using r None by (auto simp: traceSite_def add_global_def ok_iff Let_def split: option.splits)
    have "is_site F n site ev'" using i by (simp add: is_site_def ev')
    moreover have "is_site F m k ev'" if "is_site F m k ev" for m k
      using that by (auto simp: is_site_def ev')
    ultimately have "visitor_ok F ev' w" if "visitor_ok F ev w" for w
      using that by (fastforce simp: visitor_ok_def locals_ok_def ev')
    moreover have "later ev w ev' w" for w by (simp add: later_def ev')
    ultimately show ?thesis using fits \<open>is_site F n site ev'\<close>
      by (auto simp: ev' good_def site_of_def)
  qed
qed

end


end
