(* ===== verification/Reachability_Inv.thy ===== *)
theory Reachability_Inv imports Reachability_Logic begin

text \<open>
  What each instruction stands for in the edges and the inserted calls, as assertions on the visitor, and
  that each operation of the pass establishes its own.
\<close>

section \<open>What an instruction means for the edges\<close>

text \<open>
  The edge from one value to another; constants without addresses have no node, and then there is
  nothing to record.
\<close>

definition flows :: "edge_kind \<Rightarrow> val \<Rightarrow> val \<Rightarrow> assertion" where
  "flows k To From ev w \<longleftrightarrow>
     (\<exists>f. has_node From f ev w \<and>
        (f = null_node \<or> (\<exists>t. has_node To t ev w \<and> (t = null_node \<or> has_edge (Edge k t f 0) ev w))))"

text \<open>A value is traced before an instruction if it has a local and is at least as wide as a pointer.\<close>

definition trace_item :: "pass_env \<Rightarrow> nat \<Rightarrow> val \<Rightarrow> runtime_call" where
  "trace_item env site v =
     (if type_of env v = PointerTy \<or> type_of env v = IntegerTy (pointer_size env * 8) then TraceWord site v
      else TraceBuffer site v (store_size env (type_of env v)))"

definition traced :: "pass_env \<Rightarrow> pass_function \<Rightarrow> nat \<Rightarrow> val \<Rightarrow> assertion" where
  "traced env F i v ev w \<longleftrightarrow>
     (\<exists>n. has_node v n ev w \<and>
        (n = null_node \<or> local_idx_of n = None \<or> store_size env (type_of env v) < pointer_size env \<or>
         (\<exists>site. site_of F n site ev w \<and> has_call (Before i, trace_item env site v) ev w)))"

definition store_traced :: "pass_env \<Rightarrow> pass_function \<Rightarrow> nat \<Rightarrow> val \<Rightarrow> val \<Rightarrow> assertion" where
  "store_traced env F i To From ev w \<longleftrightarrow>
     (\<exists>t f. has_node To t ev w \<and> has_node From f ev w \<and>
        (t = null_node \<or> f = null_node \<or> (traced env F i To ev w \<and> traced env F i From ev w)))"

lemma lasting_flows [lasting_intros]: "lasting (flows k To From)"
  unfolding flows_def by (intro lasting_intros)

lemma lasting_traced [lasting_intros]: "lasting (traced env F i v)"
  unfolding traced_def by (intro lasting_intros)

lemma lasting_store_traced [lasting_intros]: "lasting (store_traced env F i To From)"
  unfolding store_traced_def by (intro lasting_intros)

context open_writer begin

abbreviation always :: assertion where
  "always \<equiv> \<lambda>ev w. True"

lemma step_any: "step F always f Q \<Longrightarrow> step F P f Q"
  by (rule step_conseq) auto

lemma emit_edge_nodes:
  assumes "\<And>ev w. good F ev w \<Longrightarrow> P ev w \<Longrightarrow> (is_node t \<longrightarrow> node_valid t ev w) \<and> (is_node f \<longrightarrow> node_valid f ev w)"
  shows "step F P (emit_edge k t f i) (\<lambda>ev w. is_node t \<and> is_node f \<and> has_edge (edge_of k t f i) ev w)"
  using emit_edge_step by (rule step_conseq) (use assms in auto)

lemma emit_flow:
  assumes "\<And>ev w. P ev w \<Longrightarrow> has_node To t ev w \<and> has_node From f ev w" and "lasting P"
  shows "step F P (emit_edge k t f 0) (flows k To From)"
proof (rule step_conseq)
  show "step F P (emit_edge k t f 0) (\<lambda>ev w. P ev w \<and> is_node t \<and> is_node f \<and> has_edge (edge_of k t f 0) ev w)"
    using assms good_has_node by (intro step_keep emit_edge_nodes) blast+
  show "flows k To From ev w" if "P ev w \<and> is_node t \<and> is_node f \<and> has_edge (edge_of k t f 0) ev w" for ev w
    using that assms(1) [of ev w] by (auto simp: flows_def split: if_splits)
qed

lemma traceValue_step: "step F always (traceValue env F v i) (traced env F i v)"
  unfolding traceValue_def [abs_def]
proof (rule step_assert, rule bind_step [OF node_of_op])
  fix n
  show "step F (\<lambda>ev w. True \<and> has_node v n ev w)
     (\<lambda>ev. if \<not> is_node n \<or> local_idx_of n = None then Ok ev
        else try_r (traceSite F n ev) (\<lambda>(site, ev).
          let ty = type_of env v; size_bytes = store_size env ty
          in if size_bytes < pointer_size env then Ok ev
             else if ty = PointerTy \<or> ty = IntegerTy (pointer_size env * 8)
             then Ok (add_call (Before i) (TraceWord site v) ev)
             else Ok (add_call (Before i) (TraceBuffer site v size_bytes) ev))) (traced env F i v)"
  proof (rule step_if)
    show "step F (\<lambda>ev w. True \<and> has_node v n ev w) Ok (traced env F i v)" if "\<not> is_node n \<or> local_idx_of n = None"
      using that by (intro step_done) (auto simp: traced_def)
    show "step F (\<lambda>ev w. True \<and> has_node v n ev w) (\<lambda>ev. try_r (traceSite F n ev) (\<lambda>(site, ev).
          let ty = type_of env v; size_bytes = store_size env ty
          in if size_bytes < pointer_size env then Ok ev
             else if ty = PointerTy \<or> ty = IntegerTy (pointer_size env * 8)
             then Ok (add_call (Before i) (TraceWord site v) ev)
             else Ok (add_call (Before i) (TraceBuffer site v size_bytes) ev))) (traced env F i v)"
    proof (rule bind_step [OF traceSite_op])
      fix site
      let ?P = "\<lambda>ev w. (True \<and> has_node v n ev w) \<and> site_of F n site ev w"
      have "step F ?P (\<lambda>ev. Ok (add_call (Before i) (trace_item env site v) ev)) (traced env F i v)"
        using step_keep [OF add_call_step, of ?P]
        by (rule step_conseq) (auto intro!: lasting_intros simp: traced_def)
      moreover have "step F ?P Ok (traced env F i v)" if "store_size env (type_of env v) < pointer_size env"
        using that by (intro step_done) (auto simp: traced_def)
      ultimately show "step F ?P (\<lambda>ev. let ty = type_of env v; size_bytes = store_size env ty
          in if size_bytes < pointer_size env then Ok ev
             else if ty = PointerTy \<or> ty = IntegerTy (pointer_size env * 8)
             then Ok (add_call (Before i) (TraceWord site v) ev)
             else Ok (add_call (Before i) (TraceBuffer site v size_bytes) ev)) (traced env F i v)"
        by (cases "store_size env (type_of env v) < pointer_size env";
            cases "type_of env v = PointerTy \<or> type_of env v = IntegerTy (pointer_size env * 8)")
          (simp_all add: Let_def trace_item_def)
    qed (auto intro!: lasting_intros)
  qed
qed (auto intro!: lasting_intros)

lemma addLoadEdge_step: "step F always (addLoadEdge env To From) (flows LoadK To From)"
  unfolding addLoadEdge_def [abs_def]
  by (intro bind_step [OF node_of_op] step_if emit_flow)
    (auto intro!: lasting_intros step_done simp: flows_def)

lemma addAssignEdge_step: "step F always (addAssignEdge env To From) (flows AssignK To From)"
  unfolding addAssignEdge_def [abs_def]
  by (intro bind_step [OF node_of_op] step_if emit_flow)
    (auto intro!: lasting_intros step_done simp: flows_def)

lemma step_conj:
  assumes "step F P f Q" and "\<And>ev w. good F ev w \<Longrightarrow> P ev w \<and> Q ev w \<Longrightarrow> R ev w" and "lasting P"
  shows "step F P f R"
  using step_keep [OF assms(1,3)] by (rule step_conseq) (use assms(2) in auto)

text \<open>Two operations, each with its own result.\<close>

lemma step_two:
  assumes f: "step F P f A" and g: "step F P g B" and st: "lasting A" "lasting P"
  shows "step F P (\<lambda>ev. try_r (f ev) g) (\<lambda>ev w. A ev w \<and> B ev w)"
proof (rule step_seq [OF f _ st(2)])
  have "step F (\<lambda>ev w. P ev w \<and> A ev w) g B" by (rule step_conseq [OF g]) auto
  from step_keep [OF this] st have "step F (\<lambda>ev w. P ev w \<and> A ev w) g (\<lambda>ev w. (P ev w \<and> A ev w) \<and> B ev w)"
    by (auto intro: lasting_intros)
  then show "step F (\<lambda>ev w. P ev w \<and> A ev w) g (\<lambda>ev w. A ev w \<and> B ev w)" by (rule step_conseq) auto
qed

lemma step_both:
  "step F P f A \<Longrightarrow> step F always g B \<Longrightarrow> lasting A \<Longrightarrow> lasting P \<Longrightarrow>
   step F P (\<lambda>ev. try_r (f ev) g) (\<lambda>ev w. A ev w \<and> B ev w)"
  by (rule step_two [OF _ step_any])

lemma addStoreEdge_step:
  "step F always (addStoreEdge env F i To From)
     (\<lambda>ev w. flows StoreK To From ev w \<and> (BraceletTraceMode env = TraceFull \<longrightarrow> store_traced env F i To From ev w))"
  (is "step F always _ ?Q")
  unfolding addStoreEdge_def [abs_def]
proof (intro bind_step [OF node_of_op])
  fix f t
  let ?P = "\<lambda>ev w. (True \<and> has_node From f ev w) \<and> has_node To t ev w"
  have P: "lasting ?P" by (intro lasting_intros)
  let ?tr = "\<lambda>ev. if BraceletTraceMode env = TraceFull then try_r (traceValue env F To i ev) (traceValue env F From i) else Ok ev"
  let ?T = "\<lambda>ev w. BraceletTraceMode env = TraceFull \<longrightarrow> traced env F i To ev w \<and> traced env F i From ev w"
  have tr: "step F always ?tr ?T"
    using step_both [OF traceValue_step traceValue_step lasting_traced lasting_const]
    by (cases "BraceletTraceMode env = TraceFull") (auto intro: step_done)
  have "step F ?P (emit_edge StoreK t f 0) (flows StoreK To From)" by (rule emit_flow) (use P in auto)
  from step_both [OF this tr lasting_flows P] have
    "step F ?P (\<lambda>ev. try_r (emit_edge StoreK t f 0 ev) ?tr) (\<lambda>ev w. flows StoreK To From ev w \<and> ?T ev w)" .
  then have "step F ?P (\<lambda>ev. try_r (emit_edge StoreK t f 0 ev) ?tr) ?Q"
    by (rule step_conj) (use P in \<open>auto simp: store_traced_def\<close>)
  moreover have "step F ?P Ok ?Q" if "\<not> (is_node f \<and> is_node t)"
    using that by (intro step_done) (auto simp: flows_def store_traced_def)
  ultimately show "step F ?P (\<lambda>ev. if is_node f \<and> is_node t then try_r (emit_edge StoreK t f 0 ev) ?tr else Ok ev) ?Q"
    by (intro step_if) simp_all
qed (auto intro!: lasting_intros)

end

subsection \<open>Returns and copies\<close>

definition returns_value :: "pass_function \<Rightarrow> val \<Rightarrow> assertion" where
  "returns_value F v ev w \<longleftrightarrow>
     (\<exists>n. has_node v n ev w \<and>
        (n = null_node \<or> (\<exists>f. global_of (gid (fn_object (pf_function F))) f ev w \<and> has_edge (Edge ReturnK f n 0) ev w)))"

definition copies :: "val \<Rightarrow> val \<Rightarrow> assertion" where
  "copies Dst Src ev w \<longleftrightarrow>
     (\<exists>tmp s d. local_node tmp ev w \<and> has_node Src s ev w \<and> has_node Dst d ev w \<and>
        has_edge (Edge LoadK tmp s 0) ev w \<and> has_edge (Edge StoreK d tmp 0) ev w)"

definition starts_varargs :: "val \<Rightarrow> assertion" where
  "starts_varargs Dst ev w \<longleftrightarrow>
     (\<exists>va tmp d. varargs_are va ev w \<and> local_node tmp ev w \<and> has_node Dst d ev w \<and>
        has_edge (Edge LoadK tmp va 0) ev w \<and> has_edge (Edge StoreK d tmp 0) ev w)"

lemma lasting_more [lasting_intros]:
  "lasting (returns_value F v)" "lasting (copies Dst Src)" "lasting (starts_varargs Dst)"
  unfolding returns_value_def copies_def starts_varargs_def by (intro lasting_intros)+

context open_writer begin

lemma add_calls:
  "fold (\<lambda>a. add_call (Before i) (AllocaFree a)) as ev =
     ev\<lparr>ev_added := (ev_added ev)\<lparr>inserted := inserted (ev_added ev) @ map (\<lambda>a. (Before i, AllocaFree a)) as\<rparr>\<rparr>"
  by (induction as arbitrary: ev) (simp_all add: add_call_def Let_def)

lemma frees_step:
  "step F (\<lambda>ev w. \<forall>a\<in>A. to_free a ev w) (\<lambda>ev. Ok (fold (\<lambda>a. add_call (Before i) (AllocaFree a)) (allocas_to_free ev) ev))
     (\<lambda>ev w. \<forall>a\<in>A. has_call (Before i, AllocaFree a) ev w)"
  by (rule stepI)
    (auto simp: add_calls has_call_def good_def visitor_ok_def locals_ok_def later_def is_site_def to_free_def)

lemma visitReturnInst_step:
  "step F (\<lambda>ev w. \<forall>a\<in>A. to_free a ev w) (visitReturnInst env F i v)
     (\<lambda>ev w. (\<forall>a\<in>A. has_call (Before i, AllocaFree a) ev w) \<and> (case v of None \<Rightarrow> True | Some v \<Rightarrow> returns_value F v ev w))"
proof -
  let ?g = "\<lambda>ev. case v of None \<Rightarrow> Ok ev | Some v \<Rightarrow>
             try_r (node_for env v ev) (\<lambda>(N, ev).
               if is_node N then
                 try_r (global_node (fn_object (pf_function F)) ev) (\<lambda>(f, ev). emit_edge ReturnK f N 0 ev)
               else Ok ev)"
  have "step F always ?g (\<lambda>ev w. case v of None \<Rightarrow> True | Some v \<Rightarrow> returns_value F v ev w)"
  proof (cases v)
    case None
    then show ?thesis by (simp add: step_done)
  next
    case (Some x)
    have "step F always (\<lambda>ev. try_r (node_for env x ev) (\<lambda>(N, ev).
               if is_node N then
                 try_r (global_node (fn_object (pf_function F)) ev) (\<lambda>(f, ev). emit_edge ReturnK f N 0 ev)
               else Ok ev)) (returns_value F x)"
    proof (intro bind_step [OF node_of_op] step_if bind_step [OF global_node_op])
      fix n f
      let ?P = "\<lambda>ev w. (True \<and> has_node x n ev w) \<and> global_of (gid (fn_object (pf_function F))) f ev w"
      have "step F ?P (emit_edge ReturnK f n 0) (\<lambda>ev w. is_node f \<and> is_node n \<and> has_edge (edge_of ReturnK f n 0) ev w)"
        by (rule emit_edge_nodes) (use global_valid good_has_node in blast)
      then show "step F ?P (emit_edge ReturnK f n 0) (returns_value F x)"
        by (rule step_conj) (auto simp: returns_value_def intro!: lasting_intros)
    next
      fix n
      assume "\<not> is_node n"
      then show "step F (\<lambda>ev w. True \<and> has_node x n ev w) Ok (returns_value F x)"
        by (intro step_done) (auto simp: returns_value_def)
    qed (auto intro!: lasting_intros)
    then show ?thesis by (simp add: Some)
  qed
  from step_both [OF frees_step this] show ?thesis
    by (simp add: visitReturnInst_def [abs_def] Let_def lasting_intros)
qed

lemma copy_through_step: "step F always (copy_through env nm I) (copies (c_args I ! 0) (c_args I ! 1))"
  unfolding copy_through_def [abs_def]
proof (intro bind_step [OF fresh_local_op] bind_step [OF node_of_op])
  fix tmp s
  let ?P = "\<lambda>ev w. (True \<and> local_node tmp ev w) \<and> has_node (c_args I ! 1) s ev w"
  have e: "step F ?P (emit_edge LoadK tmp s 0) (\<lambda>ev w. is_node tmp \<and> is_node s \<and> has_edge (edge_of LoadK tmp s 0) ev w)"
    by (rule emit_edge_nodes) (use good_valid_local good_has_node in blast)
  show "step F ?P (\<lambda>ev. try_r (emit_edge LoadK tmp s 0 ev) (\<lambda>ev. try_r (node_for env (c_args I ! 0) ev) (\<lambda>(Dst, ev).
      emit_edge StoreK Dst tmp 0 ev))) (copies (c_args I ! 0) (c_args I ! 1))"
  proof (intro step_seq [OF e] bind_step [OF node_of_op])
    fix d
    let ?P2 = "\<lambda>ev w. (?P ev w \<and> is_node tmp \<and> is_node s \<and> has_edge (edge_of LoadK tmp s 0) ev w) \<and> has_node (c_args I ! 0) d ev w"
    have "step F ?P2 (emit_edge StoreK d tmp 0) (\<lambda>ev w. is_node d \<and> is_node tmp \<and> has_edge (edge_of StoreK d tmp 0) ev w)"
      by (rule emit_edge_nodes) (use good_valid_local good_has_node in blast)
    then show "step F ?P2 (emit_edge StoreK d tmp 0) (copies (c_args I ! 0) (c_args I ! 1))"
      by (rule step_conj) (auto simp: copies_def intro!: lasting_intros)
  qed (auto intro!: lasting_intros)
qed (auto intro!: lasting_intros)

lemma varargs_op: "op F P (\<lambda>ev. Ok (VarArgs ev, ev)) (\<lambda>va ev w. va = null_node \<or> varargs_are va ev w)"
  by (auto simp: op_def varargs_are_def)

lemma visit_vastart_step: "step F always (visit_vastart env I) (starts_varargs (c_args I ! 0))"
proof -
  let ?f = "\<lambda>va ev. try_r (fresh_local ''vastart() tmp'' ev) (\<lambda>(tmp, ev).
      try_r (emit_edge LoadK tmp va 0 ev) (\<lambda>ev.
      try_r (node_for env (c_args I ! 0) ev) (\<lambda>(d, ev). emit_edge StoreK d tmp 0 ev)))"
  have main: "step F (\<lambda>ev w. varargs_are va ev w) (?f va) (starts_varargs (c_args I ! 0))" for va
  proof (intro bind_step [OF fresh_local_op])
    fix tmp
    let ?P = "\<lambda>ev w. varargs_are va ev w \<and> local_node tmp ev w"
    have va: "node_valid va ev w" if "good F ev w" "varargs_are va ev w" for ev w
      using that by (auto simp: good_def visitor_ok_def varargs_are_def node_valid_def)
    have e: "step F ?P (emit_edge LoadK tmp va 0) (\<lambda>ev w. is_node tmp \<and> is_node va \<and> has_edge (edge_of LoadK tmp va 0) ev w)"
      by (rule emit_edge_nodes) (use good_valid_local va in blast)
    show "step F ?P (\<lambda>ev. try_r (emit_edge LoadK tmp va 0 ev) (\<lambda>ev. try_r (node_for env (c_args I ! 0) ev) (\<lambda>(d, ev).
        emit_edge StoreK d tmp 0 ev))) (starts_varargs (c_args I ! 0))"
    proof (intro step_seq [OF e] bind_step [OF node_of_op])
      fix d
      let ?P2 = "\<lambda>ev w. (?P ev w \<and> is_node tmp \<and> is_node va \<and> has_edge (edge_of LoadK tmp va 0) ev w) \<and> has_node (c_args I ! 0) d ev w"
      have "step F ?P2 (emit_edge StoreK d tmp 0) (\<lambda>ev w. is_node d \<and> is_node tmp \<and> has_edge (edge_of StoreK d tmp 0) ev w)"
        by (rule emit_edge_nodes) (use good_valid_local good_has_node in blast)
      then show "step F ?P2 (emit_edge StoreK d tmp 0) (starts_varargs (c_args I ! 0))"
        by (rule step_conj) (auto simp: starts_varargs_def intro!: lasting_intros)
    qed (auto intro!: lasting_intros)
  qed (auto intro!: lasting_intros)
  have "visit_vastart env I = (\<lambda>ev. try_r (Ok (VarArgs ev, ev)) (\<lambda>(va, ev). assert_r (is_node va) (?f va ev)))"
    by (rule ext) (simp add: visit_vastart_def Let_def)
  moreover have "step F always (\<lambda>ev. try_r (Ok (VarArgs ev, ev)) (\<lambda>(va, ev). assert_r (is_node va) (?f va ev)))
      (starts_varargs (c_args I ! 0))"
  proof (intro bind_step [OF varargs_op] step_assert)
    fix va
    assume "is_node va"
    then show "step F (\<lambda>ev w. True \<and> (va = null_node \<or> varargs_are va ev w)) (?f va) (starts_varargs (c_args I ! 0))"
      by (intro step_conseq [OF main]) auto
  qed (intro lasting_intros)
  ultimately show ?thesis by simp
qed

end

subsection \<open>Calls\<close>

text \<open>The edges and calls of a call instruction whose node is \<open>c\<close>.\<close>

definition arg_index :: "call_base \<Rightarrow> nat \<Rightarrow> u32" where
  "arg_index I k = (if c_vararg I \<and> c_args I \<noteq> [] then min (of_nat k) (c_params I) else of_nat k)"

definition supplied :: "call_base \<Rightarrow> node \<Rightarrow> nat \<Rightarrow> assertion" where
  "supplied I c k ev w \<longleftrightarrow>
     (\<exists>a. has_node (c_args I ! k) a ev w \<and> (a = null_node \<or> has_edge (Edge ArgumentSupplyK c a (arg_index I k)) ev w))"

definition calls_node :: "call_base \<Rightarrow> node \<Rightarrow> assertion" where
  "calls_node I c ev w \<longleftrightarrow>
     (\<exists>g. has_node (resolve_alias (c_callee I)) g ev w \<and>
        has_edge (Edge CallK c g (if c_vararg I \<and> c_args I \<noteq> [] then c_params I + 1 else c_params I)) ev w)"

definition labelled :: "pass_env \<Rightarrow> pass_function \<Rightarrow> nat \<Rightarrow> node \<Rightarrow> assertion" where
  "labelled env F i c ev w \<longleftrightarrow>
     (\<exists>l. local_idx_of c = Some l \<and>
        (has_loc env i \<or> pf_subprogram F \<longrightarrow>
           has_label (i, BraceletCallsiteDwarfLabelPrefix @ show_dec (unat l)) ev w))"

definition call_traced :: "pass_env \<Rightarrow> pass_function \<Rightarrow> nat \<Rightarrow> call_base \<Rightarrow> assertion" where
  "call_traced env F i I ev w \<longleftrightarrow>
     (let Callee = resolve_alias (c_callee I)
      in (BraceletTraceMode env \<noteq> TraceOff \<and> (is_indirect I \<or> BraceletTraceMode env = TraceFull) \<longrightarrow> traced env F i Callee ev w) \<and>
         (BraceletTraceMode env = TraceFull \<longrightarrow>
            (if value_name env Callee \<in> set TRACE_ALLOC_FUNCTION_NAMES
             then \<exists>n site. has_node (Instr i) n ev w \<and> site_of F n site ev w \<and> has_call (After i, TagAllocation site i) ev w
             else \<forall>v\<in>set (c_args I). traced env F i v ev w)))"

definition dlsym_recorded_in :: "nat \<Rightarrow> node \<Rightarrow> assertion" where
  "dlsym_recorded_in i c ev w \<longleftrightarrow>
     (\<exists>page p. has_global (page, PagePtr) ev w \<and> global_of page p ev w \<and> has_call (After i, PageInsert i page) ev w \<and>
        has_edge (Edge DlsymPagePointerK c p 0) ev w)"

definition plain_call :: "pass_env \<Rightarrow> pass_function \<Rightarrow> nat \<Rightarrow> call_base \<Rightarrow> assertion" where
  "plain_call env F i I ev w \<longleftrightarrow>
     (\<exists>c. local_node c ev w \<and> (\<not> c_void I \<longrightarrow> has_node (Instr i) c ev w) \<and> labelled env F i c ev w \<and>
        (if calls_dlsym env I then dlsym_recorded_in i c ev w
         else (\<forall>k\<in>set [0..<length (c_args I)]. supplied I c k ev w) \<and> calls_node I c ev w \<and> call_traced env F i I ev w))"

text \<open>What a call stands for: an ordinary call, one of the intrinsics, or nothing.\<close>

definition call_covered :: "pass_env \<Rightarrow> pass_function \<Rightarrow> nat \<Rightarrow> call_base \<Rightarrow> assertion" where
  "call_covered env F i I ev w \<longleftrightarrow>
     c_callee I = InlineAsm \<or> BraceletTraceMode env \<noteq> TraceOff \<and> is_trace_call env I \<or>
     (case c_intrinsic I of
        NotIntrinsic \<Rightarrow> plain_call env F i I ev w
      | VaStart \<Rightarrow> starts_varargs (c_args I ! 0) ev w
      | VaCopy \<Rightarrow> copies (c_args I ! 0) (c_args I ! 1) ev w
      | MemMove \<Rightarrow> copies (c_args I ! 0) (c_args I ! 1) ev w
      | MemCpy \<Rightarrow> copies (c_args I ! 0) (c_args I ! 1) ev w
      | _ \<Rightarrow> True)"

lemma lasting_calls [lasting_intros]:
  "lasting (supplied I c k)" "lasting (calls_node I c)" "lasting (labelled env F i c)" "lasting (dlsym_recorded_in i c)"
  unfolding supplied_def calls_node_def labelled_def dlsym_recorded_in_def by (intro lasting_intros)+

lemma lasting_call_traced [lasting_intros]: "lasting (call_traced env F i I)"
  unfolding call_traced_def Let_def
  by (cases "value_name env (resolve_alias (c_callee I)) \<in> set TRACE_ALLOC_FUNCTION_NAMES") (simp_all add: lasting_intros)

lemma lasting_plain_call [lasting_intros]: "lasting (plain_call env F i I)"
  unfolding plain_call_def by (cases "calls_dlsym env I") (simp_all add: lasting_intros)

lemma lasting_call_covered [lasting_intros]: "lasting (call_covered env F i I)"
  unfolding call_covered_def by (cases "c_intrinsic I") (simp_all add: lasting_intros)

context open_writer begin

lemma supply_argument_step:
  "step F (\<lambda>ev w. local_node c ev w) (supply_argument env I c k) (supplied I c k)"
proof -
  let ?f = "\<lambda>ev. try_r (node_for env (c_args I ! k) ev) (\<lambda>(a, ev).
      if is_node a then emit_edge ArgumentSupplyK c a (arg_index I k) ev else Ok ev)"
  have "step F (\<lambda>ev w. local_node c ev w) ?f (supplied I c k)"
  proof (intro bind_step [OF node_of_op] step_if)
    fix a
    let ?P = "\<lambda>ev w. local_node c ev w \<and> has_node (c_args I ! k) a ev w"
    have "step F ?P (emit_edge ArgumentSupplyK c a (arg_index I k))
        (\<lambda>ev w. is_node c \<and> is_node a \<and> has_edge (edge_of ArgumentSupplyK c a (arg_index I k)) ev w)"
      by (rule emit_edge_nodes) (use good_valid_local good_has_node in blast)
    then show "step F ?P (emit_edge ArgumentSupplyK c a (arg_index I k)) (supplied I c k)"
      by (rule step_conj) (auto simp: supplied_def intro!: lasting_intros)
    show "step F ?P Ok (supplied I c k)" if "\<not> is_node a"
      using that by (intro step_done) (auto simp: supplied_def)
  qed (intro lasting_intros)
  moreover have "supply_argument env I c k = (\<lambda>ev. assert_r (c_vararg I \<and> c_args I \<noteq> [] \<or> k < unat (c_params I)) (?f ev))"
    by (rule ext) (simp only: supply_argument_def Let_def arg_index_def)
  ultimately show ?thesis by (simp add: step_assert)
qed

lemma trace_call_step: "step F always (trace_call env F i I) (call_traced env F i I)"
proof (cases "BraceletTraceMode env = TraceOff")
  case True
  then show ?thesis by (simp add: trace_call_def [abs_def]) (rule step_done, simp add: call_traced_def)
next
  case False
  let ?c = "resolve_alias (c_callee I)"
  let ?ind = "is_indirect I \<or> BraceletTraceMode env = TraceFull"
  let ?alloc = "value_name env ?c \<in> set TRACE_ALLOC_FUNCTION_NAMES"
  let ?f = "\<lambda>ev. if ?ind then traceValue env F ?c i ev else Ok ev"
  let ?add = "\<lambda>ev. try_r (node_for env (Instr i) ev) (\<lambda>(n, ev).
      try_r (traceSite F n ev) (\<lambda>(site, ev). Ok (add_call (After i) (TagAllocation site i) ev)))"
  let ?tag = "\<lambda>ev. assert_r (has_point_after env i) (?add ev)"
  let ?g = "\<lambda>ev. if BraceletTraceMode env \<noteq> TraceFull then Ok ev
      else if ?alloc then ?tag ev else for_each (\<lambda>v. traceValue env F v i) (c_args I) ev"
  let ?G = "\<lambda>ev w. BraceletTraceMode env = TraceFull \<longrightarrow>
      (if ?alloc then \<exists>n site. has_node (Instr i) n ev w \<and> site_of F n site ev w \<and> has_call (After i, TagAllocation site i) ev w
       else \<forall>v\<in>set (c_args I). traced env F i v ev w)"
  have f: "step F always ?f (\<lambda>ev w. ?ind \<longrightarrow> traced env F i ?c ev w)"
    by (rule step_if) (auto intro: step_done step_conseq [OF traceValue_step])
  have tag: "step F always ?add (\<lambda>ev w. \<exists>n site. has_node (Instr i) n ev w \<and> site_of F n site ev w \<and>
      has_call (After i, TagAllocation site i) ev w)"
  proof (intro bind_step [OF node_of_op] bind_step [OF traceSite_op])
    fix n site
    let ?P = "\<lambda>ev w. (True \<and> has_node (Instr i) n ev w) \<and> site_of F n site ev w"
    show "step F ?P (\<lambda>ev. Ok (add_call (After i) (TagAllocation site i) ev))
        (\<lambda>ev w. \<exists>n site. has_node (Instr i) n ev w \<and> site_of F n site ev w \<and> has_call (After i, TagAllocation site i) ev w)"
      by (rule step_conj [OF add_call_step]) (auto intro!: lasting_intros)
  qed (auto intro!: lasting_intros)
  have args: "step F always (for_each (\<lambda>v. traceValue env F v i) (c_args I)) (\<lambda>ev w. \<forall>v\<in>set (c_args I). traced env F i v ev w)"
    by (rule step_for_each) (auto intro!: traceValue_step lasting_intros)
  have g: "step F always ?g ?G"
    using step_assert [OF tag, of "\<lambda>_. has_point_after env i"] args
    by (cases "BraceletTraceMode env = TraceFull"; cases ?alloc) (auto intro: step_done)
  have "trace_call env F i I = (\<lambda>ev. try_r (?f ev) ?g)"
    using False by (simp add: trace_call_def [abs_def] Let_def)
  moreover have "step F always (\<lambda>ev. try_r (?f ev) ?g) (\<lambda>ev w. (?ind \<longrightarrow> traced env F i ?c ev w) \<and> ?G ev w)"
    by (rule step_both [OF f g]) (auto intro!: lasting_intros)
  ultimately show ?thesis by (auto simp: call_traced_def Let_def elim!: step_conseq)
qed

lemma call_edges_step:
  "step F (\<lambda>ev w. local_node c ev w) (call_edges env F i I c)
     (\<lambda>ev w. (\<forall>k\<in>set [0..<length (c_args I)]. supplied I c k ev w) \<and> calls_node I c ev w \<and> call_traced env F i I ev w)"
proof -
  let ?L = "\<lambda>ev w. local_node c ev w"
  let ?n = "if c_vararg I \<and> c_args I \<noteq> [] then c_params I + 1 else c_params I"
  have args: "step F ?L (for_each (supply_argument env I c) [0..<length (c_args I)])
      (\<lambda>ev w. \<forall>k\<in>set [0..<length (c_args I)]. supplied I c k ev w)"
    by (rule step_for_each) (auto intro!: supply_argument_step lasting_intros)
  have call: "step F ?L (\<lambda>ev. try_r (node_for env (resolve_alias (c_callee I)) ev) (\<lambda>(g, ev).
      try_r (emit_edge CallK c g ?n ev) (trace_call env F i I))) (\<lambda>ev w. calls_node I c ev w \<and> call_traced env F i I ev w)"
  proof (intro bind_step [OF node_of_op] step_both [OF _ trace_call_step])
    fix g
    let ?P = "\<lambda>ev w. local_node c ev w \<and> has_node (resolve_alias (c_callee I)) g ev w"
    have "step F ?P (emit_edge CallK c g ?n) (\<lambda>ev w. is_node c \<and> is_node g \<and> has_edge (edge_of CallK c g ?n) ev w)"
      by (rule emit_edge_nodes) (use good_valid_local good_has_node in blast)
    then show "step F ?P (emit_edge CallK c g ?n) (calls_node I c)"
      by (rule step_conj) (auto simp: calls_node_def intro!: lasting_intros)
  qed (intro lasting_intros)+
  show ?thesis
    unfolding call_edges_def [abs_def]
    by (rule step_two [OF args call]) (auto intro!: lasting_intros)
qed

lemma call_node_op: "op F P (call_node env i I) (\<lambda>c ev w. local_node c ev w \<and> (\<not> c_void I \<longrightarrow> has_node (Instr i) c ev w))"
proof (cases "c_void I")
  case True
  show ?thesis
    unfolding op_def
  proof (intro allI impI)
    fix ev ev' :: edge_visitor and c
    let ?ev = "ev\<lparr>CallVoidNumber := CallVoidNumber ev + 1\<rparr>"
    assume r: "call_node env i I ev = Ok (c, ev')" and fits: "fits (gw_of ev')"
    then obtain nm where f: "fresh_local nm ?ev = Ok (c, ev')" using True by (auto simp: call_node_def Let_def)
    have same: "good F ev w = good F ?ev w" "later ?ev w ev' w' = later ev w ev' w'" for w w'
      by (simp_all add: good_def visitor_ok_def locals_ok_def is_site_def later_def)
    from opD [OF fresh_local_op [where P = always and F = F] f fits] True
    show "fits (gw_of ev) \<and> (\<forall>w. good F ev w \<longrightarrow> P ev w \<longrightarrow>
        (\<exists>w'. good F ev' w' \<and> later ev w ev' w' \<and> local_node c ev' w' \<and> (\<not> c_void I \<longrightarrow> has_node (Instr i) c ev' w')))"
      by (simp add: same)
  qed
next
  case False
  then have "call_node env i I = node_for env (Instr i)" by (simp add: call_node_def [abs_def])
  moreover have "op F P (node_for env (Instr i)) (\<lambda>c ev w. local_node c ev w \<and> (\<not> c_void I \<longrightarrow> has_node (Instr i) c ev w))"
    by (rule op_conseq [OF node_of_op]) (auto simp: has_node_def rep_def local_node_def)
  ultimately show ?thesis by simp
qed

lemma annotate_call_step: "step F P (annotate_call env F i c) (labelled env F i c)"
proof (rule stepI)
  fix ev ev'
  assume "annotate_call env F i c ev = Ok ev'" and fits: "fits (gw_of ev')"
  then obtain l where l: "local_idx_of c = Some l"
    and ev': "ev' = (if has_loc env i \<or> pf_subprogram F
      then ev\<lparr>ev_added := (ev_added ev)\<lparr>call_labels := call_labels (ev_added ev) @
        [(i, BraceletCallsiteDwarfLabelPrefix @ show_dec (unat l))]\<rparr>\<rparr> else ev)"
    by (auto simp: annotate_call_def Let_def split: option.splits if_splits)
  show "fits (gw_of ev) \<and> (\<forall>w. good F ev w \<longrightarrow> P ev w \<longrightarrow>
      (\<exists>w'. good F ev' w' \<and> later ev w ev' w' \<and> labelled env F i c ev' w'))"
    using fits l
    by (auto simp: ev' good_def visitor_ok_def locals_ok_def is_site_def later_def labelled_def has_label_def intro: exI [of _ l])
qed

lemma page_op: "op F P (\<lambda>ev. Ok (add_global PagePtr ev)) (\<lambda>page ev w. has_global (page, PagePtr) ev w)"
  by (fastforce simp: op_def add_global_def Let_def good_def visitor_ok_def locals_ok_def is_site_def later_def has_global_def)

lemma visit_dlsym_step: "step F (\<lambda>ev w. local_node c ev w) (visit_dlsym env i c) (dlsym_recorded_in i c)"
proof -
  let ?f = "\<lambda>page ev. try_r (Ok (add_call (After i) (PageInsert i page) ev)) (\<lambda>ev.
      try_r (global_node (new_object page) ev) (\<lambda>(p, ev). emit_edge DlsymPagePointerK c p 0 ev))"
  have "visit_dlsym env i c = (\<lambda>ev. try_r (Ok (add_global PagePtr ev)) (\<lambda>(page, ev). assert_r (links_dlsym_runtime env) (?f page ev)))"
    by (rule ext) (simp add: visit_dlsym_def Let_def case_prod_beta')
  moreover have "step F (\<lambda>ev w. local_node c ev w)
      (\<lambda>ev. try_r (Ok (add_global PagePtr ev)) (\<lambda>(page, ev). assert_r (links_dlsym_runtime env) (?f page ev))) (dlsym_recorded_in i c)"
  proof (intro bind_step [OF page_op] step_assert step_seq [OF add_call_step] bind_step [OF global_node_op])
    fix page p
    let ?P = "\<lambda>ev w. ((local_node c ev w \<and> has_global (page, PagePtr) ev w) \<and> has_call (After i, PageInsert i page) ev w) \<and>
      global_of (gid (new_object page)) p ev w"
    have "step F ?P (emit_edge DlsymPagePointerK c p 0) (\<lambda>ev w. is_node c \<and> is_node p \<and> has_edge (edge_of DlsymPagePointerK c p 0) ev w)"
      by (rule emit_edge_nodes) (use good_valid_local global_valid in blast)
    then show "step F ?P (emit_edge DlsymPagePointerK c p 0) (dlsym_recorded_in i c)"
      by (rule step_conj) (auto simp: dlsym_recorded_in_def new_object_def intro!: lasting_intros)
  qed (intro lasting_intros)+
  ultimately show ?thesis by simp
qed

lemma visitCallBase_step: "step F always (visitCallBase env F i I) (call_covered env F i I)"
proof -
  have plain: "step F always (\<lambda>ev. try_r (call_node env i I ev) (\<lambda>(c, ev).
      try_r (annotate_call env F i c ev) (\<lambda>ev. if calls_dlsym env I then visit_dlsym env i c ev else call_edges env F i I c ev)))
      (plain_call env F i I)"
  proof (intro bind_step [OF call_node_op] step_seq [OF annotate_call_step])
    fix c
    let ?P = "\<lambda>ev w. (True \<and> local_node c ev w \<and> (\<not> c_void I \<longrightarrow> has_node (Instr i) c ev w)) \<and> labelled env F i c ev w"
    have P: "lasting ?P" by (intro lasting_intros)
    show "step F ?P (\<lambda>ev. if calls_dlsym env I then visit_dlsym env i c ev else call_edges env F i I c ev) (plain_call env F i I)"
    proof (rule step_if)
      assume d: "calls_dlsym env I"
      have "step F ?P (visit_dlsym env i c) (dlsym_recorded_in i c)" by (rule step_conseq [OF visit_dlsym_step]) auto
      then show "step F ?P (visit_dlsym env i c) (plain_call env F i I)"
        by (rule step_conj) (use d P in \<open>auto simp: plain_call_def\<close>)
    next
      assume d: "\<not> calls_dlsym env I"
      have "step F ?P (call_edges env F i I c) (\<lambda>ev w. (\<forall>k\<in>set [0..<length (c_args I)]. supplied I c k ev w) \<and>
          calls_node I c ev w \<and> call_traced env F i I ev w)"
        by (rule step_conseq [OF call_edges_step]) auto
      then show "step F ?P (call_edges env F i I c) (plain_call env F i I)"
        by (rule step_conj) (use d P in \<open>auto simp: plain_call_def\<close>)
    qed
  qed (intro lasting_intros)+
  show ?thesis
    unfolding visitCallBase_def [abs_def]
    by (intro step_if; (rule step_done)?; cases "c_intrinsic I")
      (auto simp: call_covered_def intro: step_done step_conseq [OF plain] step_conseq [OF visit_vastart_step]
        step_conseq [OF copy_through_step])
qed

end

subsection \<open>Instructions\<close>

text \<open>The operands whose addresses an instruction passes on to its value.\<close>

fun assigned :: "opcode \<Rightarrow> val list" where
  "assigned (GetElementPtrInst p) = [p]"
| "assigned (PHINode vs) = vs"
| "assigned (PtrToIntInst v) = [v]"
| "assigned (IntToPtrInst v) = [v]"
| "assigned (BitCastInst v) = [v]"
| "assigned (AddrSpaceCastInst v) = [v]"
| "assigned (CastInst v) = [v]"
| "assigned (SelectInst t f) = [t, f]"
| "assigned (ExtractElementInst v) = [v]"
| "assigned (InsertElementInst v e) = [v, e]"
| "assigned (ShuffleVectorInst v w) = [v, w]"
| "assigned (ExtractValueInst v) = [v]"
| "assigned (InsertValueInst v e) = [v, e]"
| "assigned (FreezeInst v) = [v]"
| "assigned (UnaryOperator v) = [v]"
| "assigned (BinaryOperator v w) = [v, w]"
| "assigned _ = []"

fun loaded_from :: "opcode \<Rightarrow> val list" where
  "loaded_from (LoadInst p) = [p]"
| "loaded_from (AtomicCmpXchgInst p v) = [p]"
| "loaded_from (AtomicRMWInst p v) = [p]"
| "loaded_from _ = []"

fun stored_to :: "opcode \<Rightarrow> (val \<times> val) list" where
  "stored_to (StoreInst p v) = [(p, v)]"
| "stored_to (AtomicCmpXchgInst p v) = [(p, v)]"
| "stored_to (AtomicRMWInst p v) = [(p, v)]"
| "stored_to _ = []"

definition stores_flow :: "pass_env \<Rightarrow> pass_function \<Rightarrow> nat \<Rightarrow> val \<times> val \<Rightarrow> assertion" where
  "stores_flow env F i pv ev w \<longleftrightarrow>
     flows StoreK (fst pv) (snd pv) ev w \<and>
     (BraceletTraceMode env = TraceFull \<longrightarrow> store_traced env F i (fst pv) (snd pv) ev w)"

text \<open>What an instruction stands for, given the allocas that are freed before a return.\<close>

definition instr_covered :: "pass_env \<Rightarrow> pass_function \<Rightarrow> nat set \<Rightarrow> instr \<Rightarrow> assertion" where
  "instr_covered env F A I ev w \<longleftrightarrow>
     (let (i, oc) = I
      in (\<forall>v\<in>set (assigned oc). flows AssignK (Instr i) v ev w) \<and>
         (\<forall>p\<in>set (loaded_from oc). flows LoadK (Instr i) p ev w) \<and>
         (\<forall>pv\<in>set (stored_to oc). stores_flow env F i pv ev w) \<and>
         (case oc of
            ReturnInst v \<Rightarrow>
              (\<forall>a\<in>A. has_call (Before i, AllocaFree a) ev w) \<and> (case v of None \<Rightarrow> True | Some v \<Rightarrow> returns_value F v ev w)
          | CallBase I \<Rightarrow> call_covered env F i I ev w
          | _ \<Rightarrow> True))"

lemma lasting_stores [lasting_intros]: "lasting (stores_flow env F i pv)"
  unfolding stores_flow_def by (intro lasting_intros)

lemma lasting_instr [lasting_intros]: "lasting (instr_covered env F A I)"
proof -
  obtain i oc where I: "I = (i, oc)" by fastforce
  have "lasting (\<lambda>ev w. case oc of
            ReturnInst v \<Rightarrow>
              (\<forall>a\<in>A. has_call (Before i, AllocaFree a) ev w) \<and> (case v of None \<Rightarrow> True | Some v \<Rightarrow> returns_value F v ev w)
          | CallBase I \<Rightarrow> call_covered env F i I ev w
          | _ \<Rightarrow> True)"
  proof (cases oc)
    case (ReturnInst v)
    then show ?thesis by (cases v) (simp_all add: lasting_intros)
  qed (simp_all add: lasting_intros)
  then show ?thesis unfolding instr_covered_def [abs_def] I by (simp add: lasting_intros)
qed

context open_writer begin

lemma assign_all: "step F P (for_each (addAssignEdge env (Instr i)) vs) (\<lambda>ev w. \<forall>v\<in>set vs. flows AssignK (Instr i) v ev w)"
  by (rule step_any, rule step_for_each) (auto intro!: addAssignEdge_step lasting_intros)

lemma store_step: "step F P (addStoreEdge env F i p v) (stores_flow env F i (p, v))"
  by (rule step_any, rule step_conseq [OF addStoreEdge_step]) (auto simp: stores_flow_def)

lemma load_store_step:
  "step F P (\<lambda>ev. try_r (addLoadEdge env (Instr i) p ev) (addStoreEdge env F i p v))
     (\<lambda>ev w. flows LoadK (Instr i) p ev w \<and> stores_flow env F i (p, v) ev w)"
  by (rule step_any, rule step_both [OF addLoadEdge_step store_step]) (intro lasting_intros)+

lemma visit_instruction_step:
  "step F (\<lambda>ev w. \<forall>a\<in>A. to_free a ev w) (visit_instruction env F I) (instr_covered env F A I)"
proof -
  obtain i oc where I: "I = (i, oc)" by fastforce
  note assign = assign_all [where vs = "[v]" for v, simplified] addAssignEdge_step [THEN step_any]
  show ?thesis
  proof (cases oc)
    case (ReturnInst v)
    from visitReturnInst_step [of F A env i v] show ?thesis
      by (simp add: visit_instruction_def [abs_def] instr_covered_def [abs_def] I ReturnInst)
  next
    case (CallBase c)
    from visitCallBase_step [THEN step_any] show ?thesis
      by (simp add: visit_instruction_def [abs_def] instr_covered_def [abs_def] I CallBase)
  next
    case (AtomicCmpXchgInst p v)
    from load_store_step show ?thesis
      by (simp add: visit_instruction_def [abs_def] instr_covered_def [abs_def] I AtomicCmpXchgInst)
  next
    case (AtomicRMWInst p v)
    from load_store_step show ?thesis
      by (simp add: visit_instruction_def [abs_def] instr_covered_def [abs_def] I AtomicRMWInst)
  qed (insert assign_all [of F _ env i "[a, b]" for a b] assign_all step_abort store_step addLoadEdge_step [THEN step_any]
      addAssignEdge_step [THEN step_any], simp_all add: visit_instruction_def [abs_def] instr_covered_def [abs_def] I step_done)
qed

lemma visit_inserted_step: "step F always (visit_inserted env F pc) always"
proof (rule stepI)
  fix ev ev'
  assume r: "visit_inserted env F pc ev = Ok ev'" and fits: "fits (gw_of ev')"
  show "fits (gw_of ev) \<and> (\<forall>w. good F ev w \<longrightarrow> True \<longrightarrow> (\<exists>w'. good F ev' w' \<and> later ev w ev' w' \<and> True))"
  proof (cases "inserted_call env (snd pc)")
    case None
    then show ?thesis using r fits by (auto simp: visit_inserted_def)
  next
    case (Some I)
    let ?a = "ev_added ev"
    let ?ev = "ev\<lparr>ev_added := ?a\<lparr>next_number := next_number ?a + 1\<rparr>\<rparr>"
    have same: "good F ev w = good F ?ev w" "later ?ev w ev' w' = later ev w ev' w'" for w w'
      by (simp_all add: good_def visitor_ok_def locals_ok_def is_site_def later_def)
    from r Some have "visitCallBase env F (next_number ?a) I ?ev = Ok ev'" by (simp add: visit_inserted_def Let_def)
    from stepD [OF visitCallBase_step this fits] show ?thesis unfolding same by auto
  qed
qed

lemma visit_one_step: "step F (\<lambda>ev w. \<forall>a\<in>A. to_free a ev w) (visit_one env F I) (instr_covered env F A I)"
proof (rule stepI)
  fix ev ev'
  assume r: "visit_one env F I ev = Ok ev'" and fits: "fits (gw_of ev')"
  let ?P = "\<lambda>ev w. \<forall>a\<in>A. to_free a ev w"
  let ?g = "\<lambda>xs. if visits_inserted env then for_each (visit_inserted env F) xs else Ok"
  from r obtain ev1 xs where 1: "visit_instruction env F I ev = Ok ev1" and 2: "?g xs ev1 = Ok ev'"
    by (cases "visits_inserted env") (auto simp: visit_one_def ok_iff)
  have "step F always (for_each (visit_inserted env F) xs) (\<lambda>ev w. \<forall>x\<in>set xs. True)"
    by (rule step_for_each) (auto intro!: visit_inserted_step lasting_intros)
  then have "step F always (?g xs) always" by (auto intro: step_done elim: step_conseq)
  moreover have "lasting ?P" by (intro lasting_intros)
  ultimately have s: "step F ?P (\<lambda>ev. try_r (visit_instruction env F I ev) (?g xs)) (\<lambda>ev w. instr_covered env F A I ev w \<and> True)"
    by (intro step_both [OF visit_instruction_step _ lasting_instr])
  from stepD [OF s, of ev ev'] 1 2 fits
  show "fits (gw_of ev) \<and> (\<forall>w. good F ev w \<longrightarrow> ?P ev w \<longrightarrow>
      (\<exists>w'. good F ev' w' \<and> later ev w ev' w' \<and> instr_covered env F A I ev' w'))" by simp
qed

end

subsection \<open>Entering a function\<close>

text \<open>The allocas are the first locals.\<close>

definition early :: "nat \<Rightarrow> assertion" where
  "early i ev w \<longleftrightarrow>
     (\<exists>n k. has_node (Instr i) n ev w \<and> local_idx_of n = Some k \<and> unat k < length (Locals ev))"

definition all_early :: assertion where
  "all_early ev w \<longleftrightarrow> (\<forall>(V, n)\<in>set (Locals ev). \<exists>k. local_idx_of n = Some k \<and> unat k < length (Locals ev))"

definition alloca_index :: "nat \<Rightarrow> assertion" where
  "alloca_index i ev w \<longleftrightarrow>
     (\<exists>n k. has_node (Instr i) n ev w \<and> local_idx_of n = Some k \<and> unat k < unat (NumAllocas ev))"

definition alloca_traced :: "pass_env \<Rightarrow> pass_function \<Rightarrow> instr \<Rightarrow> assertion" where
  "alloca_traced env F I ev w \<longleftrightarrow>
     (case I of
        (i, AllocaInst is_static alloc_size) \<Rightarrow>
          BraceletTraceMode env = TraceFull \<and> is_static \<longrightarrow>
            to_free i ev w \<and> (\<exists>n site sz. alloc_size = Some sz \<and> local_node n ev w \<and> site_of F n site ev w \<and>
              has_call (AtEntry, AllocaAllocate site sz) ev w)
      | _ \<Rightarrow> True)"

definition is_alloca :: "instr \<Rightarrow> bool" where
  "is_alloca I \<longleftrightarrow> (case I of (i, AllocaInst st sz) \<Rightarrow> True | _ \<Rightarrow> False)"

definition preprocessed :: "pass_env \<Rightarrow> pass_function \<Rightarrow> instr \<Rightarrow> assertion" where
  "preprocessed env F I ev w \<longleftrightarrow> (is_alloca I \<longrightarrow> early (fst I) ev w) \<and> alloca_traced env F I ev w"

lemma lasting_early [lasting_intros]: "lasting (early i)"
  using lastingD [OF lasting_node] by (fastforce simp: lasting_def early_def later_def [of _ _ _ w for w])

lemma lasting_alloca_index [lasting_intros]: "lasting (alloca_index i)"
  using lastingD [OF lasting_node] by (fastforce simp: lasting_def alloca_index_def later_def [of _ _ _ w for w])

lemma lasting_alloca_traced [lasting_intros]: "lasting (alloca_traced env F I)"
proof -
  obtain i oc where "I = (i, oc)" by fastforce
  then show ?thesis unfolding alloca_traced_def [abs_def] by (cases oc) (auto intro!: lasting_intros)
qed

lemma lasting_preprocessed [lasting_intros]: "lasting (preprocessed env F I)"
  unfolding preprocessed_def by (intro lasting_intros)

context open_writer begin

lemma step_loop:
  assumes "\<And>x. x \<in> set xs \<Longrightarrow> step F P (f x) (\<lambda>ev w. P ev w \<and> Q x ev w)" and "\<And>x. lasting (Q x)"
  shows "step F P (for_each f xs) (\<lambda>ev w. P ev w \<and> (\<forall>x\<in>set xs. Q x ev w))"
  using assms(1)
proof (induction xs)
  case Nil
  show ?case by (rule stepI) auto
next
  case (Cons x xs)
  show ?case
  proof (rule stepI)
    fix ev ev'
    assume "for_each f (x # xs) ev = Ok ev'" and fits: "fits (gw_of ev')"
    then obtain ev1 where 1: "f x ev = Ok ev1" and 2: "for_each f xs ev1 = Ok ev'" by (auto simp: ok_iff)
    have "step F P (for_each f xs) (\<lambda>ev w. P ev w \<and> (\<forall>x\<in>set xs. Q x ev w))" using Cons by simp
    note b = stepD [OF this 2 fits]
    have "step F P (f x) (\<lambda>ev w. P ev w \<and> Q x ev w)" using Cons.prems by simp
    note a = stepD [OF this 1 conjunct1 [OF b]]
    show "fits (gw_of ev) \<and> (\<forall>w. good F ev w \<longrightarrow> P ev w \<longrightarrow>
        (\<exists>w'. good F ev' w' \<and> later ev w ev' w' \<and> P ev' w' \<and> (\<forall>x\<in>set (x # xs). Q x ev' w')))"
    proof (intro conjI allI impI)
      fix w
      assume "good F ev w" "P ev w"
      with a obtain w1 where 1: "good F ev1 w1" "later ev w ev1 w1" "P ev1 w1" "Q x ev1 w1" by blast
      with b obtain w2 where 2: "good F ev' w2" "later ev1 w1 ev' w2" "P ev' w2" "\<forall>x\<in>set xs. Q x ev' w2" by blast
      from lastingD [OF assms(2) 2(2) 1(4)] 2 later_trans [OF 1(2) 2(2)]
      show "\<exists>w'. good F ev' w' \<and> later ev w ev' w' \<and> P ev' w' \<and> (\<forall>x\<in>set (x # xs). Q x ev' w')" by auto
    qed (use a in blast)
  qed
qed

lemma insert_local_good:
  assumes "good F ev w" and "local_node n ev w" and "n \<notin> snd ` set (Locals ev)" and "length (Locals ev) < length (w_locals w)"
  shows "good F (insert_local (Instr i) n ev) w" "later ev w (insert_local (Instr i) n ev) w"
  using assms
  by (auto simp: insert_local_def good_def visitor_ok_def locals_ok_def is_site_def local_node_def later_def map_le_def domI)

lemma same_locals:
  "fresh_local nm ev = Ok (n, ev') \<Longrightarrow> Locals ev' = Locals ev"
  "traceSite F n ev = Ok (site, ev') \<Longrightarrow> Locals ev' = Locals ev"
  "Locals (add_call p c ev) = Locals ev"
  by (auto simp: fresh_local_def traceSite_def add_global_def add_call_def Let_def ok_iff split: option.splits)

lemma early_insert:
  assumes g: "good F ev w" and e: "all_early ev w" and n: "local_node n ev w"
    and k: "map_option unat (local_idx_of n) = Some (length (Locals ev))"
  shows "good F (insert_local (Instr i) n ev) w \<and> later ev w (insert_local (Instr i) n ev) w \<and>
    all_early (insert_local (Instr i) n ev) w \<and> early i (insert_local (Instr i) n ev) w"
proof -
  have new: "n \<notin> snd ` set (Locals ev)" using e k by (fastforce simp: all_early_def)
  have "length (Locals ev) < length (w_locals w)" using n k by (auto simp: local_node_def is_local_def)
  note i = insert_local_good [OF g n new this, of i]
  have node: "has_node (Instr i) m ev w" if "map_of (Locals ev) (Instr i) = Some m" for m
    using that map_of_SomeD [OF that] g by (auto simp: good_def visitor_ok_def locals_ok_def has_node_def rep_def)
  show ?thesis
  proof (cases "map_of (Locals ev) (Instr i)")
    case None
    then have "all_early (insert_local (Instr i) n ev) w" "early i (insert_local (Instr i) n ev) w"
      using e k n by (fastforce simp: insert_local_def all_early_def early_def has_node_def rep_def local_node_def)+
    with i show ?thesis by simp
  next
    case (Some m)
    from e map_of_SomeD [OF Some] obtain j where "local_idx_of m = Some j" "unat j < length (Locals ev)"
      by (fastforce simp: all_early_def)
    with node [OF Some] i e show ?thesis by (auto simp: insert_local_def early_def Some)
  qed
qed

lemma preprocess_step:
  "step F all_early (preprocessVisitAllocaInst env F I) (\<lambda>ev w. all_early ev w \<and> preprocessed env F I ev w)"
proof (rule stepI)
  fix ev ev'
  assume r: "preprocessVisitAllocaInst env F I ev = Ok ev'" and fits: "fits (gw_of ev')"
  show "fits (gw_of ev) \<and> (\<forall>w. good F ev w \<longrightarrow> all_early ev w \<longrightarrow>
      (\<exists>w'. good F ev' w' \<and> later ev w ev' w' \<and> all_early ev' w' \<and> preprocessed env F I ev' w'))"
  proof (cases "is_alloca I")
    case False
    then have "ev' = ev" using r by (auto simp: preprocessVisitAllocaInst_def is_alloca_def split: prod.splits opcode.splits)
    moreover have "preprocessed env F I ev w" for w
      using False by (auto simp: preprocessed_def is_alloca_def alloca_traced_def split: prod.splits opcode.splits)
    ultimately show ?thesis using fits by auto
  next
    case True
    then obtain i st sz where I: "I = (i, AllocaInst st sz)" by (auto simp: is_alloca_def split: prod.splits opcode.splits)
    let ?tr = "BraceletTraceMode env = TraceFull \<and> st"
    from r obtain N ev1 where 1: "fresh_local (''ALLOCA_'' @ value_name env (Instr i)) ev = Ok (N, ev1)"
      and k: "map_option unat (local_idx_of N) = Some (length (Locals ev1))"
      and 2: "(if ?tr then assert_r (sz \<noteq> None) (try_r (traceSite F N ev1) (\<lambda>(site, ev).
           Ok (insert_local (Instr i) N ((add_call AtEntry (AllocaAllocate site (the sz)) ev)
             \<lparr>allocas_to_free := allocas_to_free (add_call AtEntry (AllocaAllocate site (the sz)) ev) @ [i]\<rparr>))))
         else Ok (insert_local (Instr i) N ev1)) = Ok ev'"
      by (auto simp: preprocessVisitAllocaInst_def I ok_iff Let_def cong: if_cong)
    note L1 = same_locals(1) [OF 1]
    define ev2 where "ev2 = (if ?tr then (case traceSite F N ev1 of Ok (site, ev) \<Rightarrow>
        (add_call AtEntry (AllocaAllocate site (the sz)) ev)
          \<lparr>allocas_to_free := allocas_to_free (add_call AtEntry (AllocaAllocate site (the sz)) ev) @ [i]\<rparr>) else ev1)"
    have ev': "ev' = insert_local (Instr i) N ev2" using 2 by (auto simp: ev2_def ok_iff split: if_splits)
    then have f2: "fits (gw_of ev2)" using fits by (simp add: insert_local_def split: if_splits)
    have traced: "fits (gw_of ev1) \<and> Locals ev2 = Locals ev1 \<and> (\<forall>w. good F ev1 w \<longrightarrow> local_node N ev1 w \<longrightarrow>
        (\<exists>w'. good F ev2 w' \<and> later ev1 w ev2 w' \<and> alloca_traced env F I ev2 w'))"
    proof (cases ?tr)
      case False
      then show ?thesis using f2 by (auto simp: ev2_def alloca_traced_def I)
    next
      case tr: True
      with 2 obtain site ev3 s where t: "traceSite F N ev1 = Ok (site, ev3)" and s: "sz = Some s" by (auto simp: ok_iff)
      let ?c = "add_call AtEntry (AllocaAllocate site s) ev3"
      have e2: "ev2 = ?c\<lparr>allocas_to_free := allocas_to_free ?c @ [i]\<rparr>" using tr t s by (simp add: ev2_def)
      have f3: "fits (gw_of ev3)" using f2 by (simp add: e2 add_call_def Let_def)
      note o = opD [OF traceSite_op [where P = "\<lambda>ev w. local_node N ev w"] t f3]
      have "\<exists>w'. good F ev2 w' \<and> later ev1 w ev2 w' \<and> alloca_traced env F I ev2 w'"
        if g: "good F ev1 w" and n: "local_node N ev1 w" for w
      proof -
        from o g n obtain w3 where w3: "good F ev3 w3" "later ev1 w ev3 w3" "site_of F N site ev3 w3" by blast
        then have "good F ev2 w3" "later ev3 w3 ev2 w3" "site_of F N site ev2 w3"
          by (auto simp: e2 add_call_def Let_def good_def visitor_ok_def locals_ok_def is_site_def later_def site_of_def)
        moreover have "local_node N ev2 w3" using lastingD [OF lasting_local w3(2) n] by (simp add: local_node_def)
        ultimately have "good F ev2 w3 \<and> later ev1 w ev2 w3 \<and> alloca_traced env F I ev2 w3"
          using later_trans [OF w3(2)] s
          by (auto simp: alloca_traced_def I e2 to_free_def has_call_def add_call_def Let_def)
        then show ?thesis by blast
      qed
      with o same_locals(2) [OF t] show ?thesis by (simp add: e2 same_locals(3))
    qed
    note f = opD [OF fresh_local_op [where P = all_early] 1 conjunct1 [OF traced]]
    have "\<exists>w'. good F ev' w' \<and> later ev w ev' w' \<and> all_early ev' w' \<and> preprocessed env F I ev' w'"
      if g: "good F ev w" and e: "all_early ev w" for w
    proof -
      from f g e obtain w1 where w1: "good F ev1 w1" "later ev w ev1 w1" "local_node N ev1 w1" by blast
      from traced w1(1,3) obtain w2 where w2: "good F ev2 w2" "later ev1 w1 ev2 w2" "alloca_traced env F I ev2 w2" by blast
      have "all_early ev2 w2" using e traced L1 by (simp add: all_early_def)
      moreover have "local_node N ev2 w2" using lastingD [OF lasting_local w2(2) w1(3)] .
      moreover have "map_option unat (local_idx_of N) = Some (length (Locals ev2))" using k traced by simp
      ultimately have i: "good F ev' w2 \<and> later ev2 w2 ev' w2 \<and> all_early ev' w2 \<and> early i ev' w2"
        unfolding ev' using early_insert [OF w2(1)] by blast
      with lastingD [OF lasting_alloca_traced _ w2(3)] have "preprocessed env F I ev' w2" by (auto simp: preprocessed_def I)
      with i later_trans [OF later_trans [OF w1(2) w2(2)]] show ?thesis by blast
    qed
    with f show ?thesis by blast
  qed
qed

end

definition this_node :: "node \<Rightarrow> assertion" where
  "this_node n ev w \<longleftrightarrow> is_node n \<and> symbol_of n = w_symbol w \<and> local_idx_of n = None"

definition alloca_node :: "node \<Rightarrow> assertion" where
  "alloca_node n ev w \<longleftrightarrow> (\<exists>k. local_idx_of n = Some k \<and> unat k < unat (NumAllocas ev))"

text \<open>The model of the list of variadic arguments: two allocas, one of which points to all the arguments.\<close>

definition varargs_set :: "pass_function \<Rightarrow> assertion" where
  "varargs_set F ev w \<longleftrightarrow>
     (\<exists>va area data this. varargs_are va ev w \<and> alloca_node va ev w \<and> alloca_node area ev w \<and> local_node data ev w \<and>
        this_node this ev w \<and> has_edge (Edge ArgumentDefinitionK data this (of_nat (length (pf_args F)))) ev w \<and>
        has_edge (Edge StoreK area data 0) ev w \<and> has_edge (Edge StoreK va area 0) ev w)"

definition defines_argument :: "pass_function \<Rightarrow> nat \<Rightarrow> assertion" where
  "defines_argument F k ev w \<longleftrightarrow>
     (\<exists>n this. has_node (Argument (pf_args F ! k)) n ev w \<and> this_node this ev w \<and>
        has_edge (Edge ArgumentDefinitionK n this (of_nat k)) ev w)"

lemma lasting_entry [lasting_intros]:
  "lasting (this_node n)" "lasting (alloca_node n)"
  by (auto simp: lasting_def this_node_def alloca_node_def later_def grown_def)

lemma lasting_setup [lasting_intros]: "lasting (varargs_set F)" "lasting (defines_argument F k)"
  unfolding varargs_set_def defines_argument_def by (intro lasting_intros)+

context open_writer begin

lemma this_op: "op F P (\<lambda>ev. try_r (this_function ev) (\<lambda>t. Ok (t, ev))) (\<lambda>t ev w. this_node t ev w)"
  unfolding op_def
proof (intro allI impI)
  fix ev t ev'
  assume "try_r (this_function ev) (\<lambda>t. Ok (t, ev)) = Ok (t, ev')" and fits: "fits (gw_of ev')"
  then have t: "node_symbol (ThisSymbolIdx (fst (ev_writers ev))) = Ok t" and ev': "ev' = ev"
    by (auto simp: this_function_def thisFunction_def ok_iff)
  have "this_node t ev w" if g: "good F ev w" for w
  proof -
    have th: "ThisSymbolIdx (fst (ev_writers ev)) = w_symbol w" "unat (w_symbol w) < length (symbols_in_order (gw_of ev))"
      using wr_this [of "fst (ev_writers ev)" "gw_of ev" w] g by (auto simp: good_def)
    have "length (symbols_in_order (gw_of ev)) \<le> 2 ^ 31"
      using g wr_fits [of "ev_writers ev" w] wr_syms [of "fst (ev_writers ev)" "gw_of ev" w] by (auto simp: good_def fits_def)
    then have "symbol_ok (w_symbol w)" using th by (simp add: symbol_ok_def)
    from node_symbol_fields [OF this] t th show ?thesis by (simp add: this_node_def)
  qed
  with fits ev' show "fits (gw_of ev) \<and> (\<forall>w. good F ev w \<longrightarrow> P ev w \<longrightarrow>
      (\<exists>w'. good F ev' w' \<and> later ev w ev' w' \<and> this_node t ev' w'))" by auto
qed

lemma this_valid: "good F ev w \<Longrightarrow> this_node t ev w \<Longrightarrow> node_valid t ev w"
  using good_this by (auto simp: this_node_def node_valid_def valid_def node_ok_def)

lemma define_argument_step: "step F P (define_argument env F k) (defines_argument F k)"
proof (rule step_any)
  have "define_argument env F k = (\<lambda>ev. try_r (node_for env (Argument (pf_args F ! k)) ev) (\<lambda>(n, ev).
      try_r (try_r (this_function ev) (\<lambda>t. Ok (t, ev))) (\<lambda>(t, ev). emit_edge ArgumentDefinitionK n t (of_nat k) ev)))"
    by (rule ext) (simp add: define_argument_def try_r_assoc)
  moreover have "step F always (\<lambda>ev. try_r (node_for env (Argument (pf_args F ! k)) ev) (\<lambda>(n, ev).
      try_r (try_r (this_function ev) (\<lambda>t. Ok (t, ev))) (\<lambda>(t, ev). emit_edge ArgumentDefinitionK n t (of_nat k) ev)))
      (defines_argument F k)"
  proof (intro bind_step [OF node_of_op] bind_step [OF this_op])
    fix n t
    let ?P = "\<lambda>ev w. (True \<and> has_node (Argument (pf_args F ! k)) n ev w) \<and> this_node t ev w"
    have "step F ?P (emit_edge ArgumentDefinitionK n t (of_nat k))
        (\<lambda>ev w. is_node n \<and> is_node t \<and> has_edge (edge_of ArgumentDefinitionK n t (of_nat k)) ev w)"
      by (rule emit_edge_nodes) (use this_valid good_has_node in blast)
    then show "step F ?P (emit_edge ArgumentDefinitionK n t (of_nat k)) (defines_argument F k)"
      by (rule step_conj) (auto simp: defines_argument_def intro!: lasting_intros)
  qed (intro lasting_intros)+
  ultimately show "step F always (define_argument env F k) (defines_argument F k)" by simp
qed

text \<open>Right before, there are as many locals as allocas.\<close>

definition only_allocas :: assertion where
  "only_allocas ev w \<longleftrightarrow> unat (NumAllocas ev) = length (w_locals w) \<and> VarArgs ev = null_node"

lemma setup_varargs_step:
  "step F only_allocas (setup_varargs F) (\<lambda>ev w. pf_vararg F \<longrightarrow> varargs_set F ev w)"
proof (cases "pf_vararg F")
  case False
  then show ?thesis by (auto simp: setup_varargs_def [abs_def] intro: step_done)
next
  case True
  let ?n = "of_nat (length (pf_args F)) :: u32"
  let ?rest = "\<lambda>va area ev. try_r (fresh_local ''TheVarArgs'' ev) (\<lambda>(data, ev).
      try_r (try_r (this_function ev) (\<lambda>t. Ok (t, ev))) (\<lambda>(this, ev).
      try_r (emit_edge ArgumentDefinitionK data this ?n ev) (\<lambda>ev.
      try_r (emit_edge StoreK area data 0 ev) (emit_edge StoreK va area 0))))"
  have rest: "step F (\<lambda>ev w. varargs_are va ev w \<and> local_node va ev w \<and> local_node area ev w \<and> alloca_node va ev w \<and> alloca_node area ev w)
      (?rest va area) (varargs_set F)" (is "step F ?P _ _") for va area
  proof (intro bind_step [OF fresh_local_op] bind_step [OF this_op])
    fix data this
    let ?P1 = "\<lambda>ev w. (?P ev w \<and> local_node data ev w) \<and> this_node this ev w"
    have P1: "lasting ?P1" by (intro lasting_intros)
    have e: "step F ?P1 (emit_edge k t f i) (has_edge (edge_of k t f i))"
      if "\<And>ev w. good F ev w \<Longrightarrow> ?P1 ev w \<Longrightarrow> node_valid t ev w \<and> node_valid f ev w" for k t f i
      using emit_edge_nodes [of F ?P1 t f k i] by (rule step_conseq) (use that in auto)
    have 1: "step F ?P1 (emit_edge ArgumentDefinitionK data this ?n) (has_edge (edge_of ArgumentDefinitionK data this ?n))"
      and 2: "step F ?P1 (emit_edge StoreK area data 0) (has_edge (edge_of StoreK area data 0))"
      and 3: "step F ?P1 (emit_edge StoreK va area 0) (has_edge (edge_of StoreK va area 0))"
      using good_valid_local this_valid by (intro e; blast)+
    have "step F ?P1 (\<lambda>ev. try_r (emit_edge ArgumentDefinitionK data this ?n ev) (\<lambda>ev.
        try_r (emit_edge StoreK area data 0 ev) (emit_edge StoreK va area 0)))
        (\<lambda>ev w. has_edge (edge_of ArgumentDefinitionK data this ?n) ev w \<and>
           has_edge (edge_of StoreK area data 0) ev w \<and> has_edge (edge_of StoreK va area 0) ev w)"
      by (intro step_two [OF 1] step_two [OF 2 3] P1 lasting_intros)
    then show "step F ?P1 (\<lambda>ev. try_r (emit_edge ArgumentDefinitionK data this ?n ev) (\<lambda>ev.
        try_r (emit_edge StoreK area data 0 ev) (emit_edge StoreK va area 0))) (varargs_set F)"
      by (rule step_conj) (use P1 in \<open>auto simp: varargs_set_def\<close>)
  qed (intro lasting_intros)+
  show ?thesis
  proof (rule stepI)
    fix ev ev'
    assume r: "setup_varargs F ev = Ok ev'" and fits: "fits (gw_of ev')"
    then obtain va ev1 area ev2 where 1: "fresh_local ''TheVarArgsAlloca'' ev = Ok (va, ev1)"
      and 2: "fresh_local ''TheVarArgsArea'' ev1 = Ok (area, ev2)"
      and 3: "?rest va area (ev2\<lparr>VarArgs := va, NumAllocas := NumAllocas ev2 + 2\<rparr>) = Ok ev'"
      using True by (auto simp: setup_varargs_def ok_iff)
    let ?ev = "ev2\<lparr>VarArgs := va, NumAllocas := NumAllocas ev2 + 2\<rparr>"
    note c = stepD [OF rest 3 fits]
    have f2: "fits (gw_of ev2)" using c by simp
    note b = fresh_local_exact [OF 2 f2]
    note a = fresh_local_exact [OF 1 conjunct1 [OF b]]
    have same: "NumAllocas ev2 = NumAllocas ev" "VarArgs ev2 = VarArgs ev"
      using 1 2 by (auto simp: fresh_local_def ok_iff)
    have "\<exists>w'. good F ev' w' \<and> later ev w ev' w' \<and> (pf_vararg F \<longrightarrow> varargs_set F ev' w')"
      if g: "good F ev w" and o: "only_allocas ev w" for w
    proof -
      let ?w1 = "w\<lparr>w_locals := w_locals w @ [''TheVarArgsAlloca'']\<rparr>"
      let ?w2 = "?w1\<lparr>w_locals := w_locals ?w1 @ [''TheVarArgsArea'']\<rparr>"
      from a g have g1: "good F ev1 ?w1" "later ev w ev1 ?w1" "is_local ?w1 (length (w_locals w)) va" by (simp_all add: Let_def)
      note bw = b [of F, THEN conjunct2, rule_format, OF g1(1), unfolded Let_def]
      have g2: "good F ev2 ?w2" "later ev1 ?w1 ev2 ?w2" "is_local ?w2 (length (w_locals ?w1)) area"
        using bw by blast+
      have len: "length (w_locals ?w2) < 2 ^ 16" using wr_num [of "fst (ev_writers ev2)" "gw_of ev2" ?w2] g2(1) by (simp add: good_def)
      have n: "unat (NumAllocas ev2 + 2) = length (w_locals w) + 2"
        using o same len by (simp add: only_allocas_def unat_plus_small)
      have va: "is_local ?w2 (length (w_locals w)) va" using g1(3) by (simp add: is_local_def)
      have "valid (syms_of ev2) ?w2 va" using valid_local [OF va] good_this [OF g2(1)] by simp
      then have "good F ?ev ?w2" using g2(1) n by (auto simp: good_def visitor_ok_def locals_ok_def is_site_def)
      moreover have "later ev2 ?w2 ?ev ?w2" using n o same by (auto simp: later_def only_allocas_def)
      moreover have "varargs_are va ?ev ?w2 \<and> local_node va ?ev ?w2 \<and> local_node area ?ev ?w2 \<and>
          alloca_node va ?ev ?w2 \<and> alloca_node area ?ev ?w2"
        using va g2(3) n by (auto simp: varargs_are_def local_node_def alloca_node_def is_local_def)
      ultimately obtain w' where "good F ev' w'" "later ?ev ?w2 ev' w'" "varargs_set F ev' w'" "later ev2 ?w2 ?ev ?w2"
        using c by blast
      with later_trans [OF g1(2) later_trans [OF g2(2) later_trans]] show ?thesis by blast
    qed
    with a show "fits (gw_of ev) \<and> (\<forall>w. good F ev w \<longrightarrow> only_allocas ev w \<longrightarrow>
        (\<exists>w'. good F ev' w' \<and> later ev w ev' w' \<and> (pf_vararg F \<longrightarrow> varargs_set F ev' w')))" by blast
  qed
qed

end


end
