(* ===== verification/Reachability_Spec.thy ===== *)
theory Reachability_Spec imports Reachability_Inv begin

text \<open>
  The properties of the compiler pass: what the graph of a function holds for each of its instructions, and what
  the pass makes of a module.
\<close>

section \<open>A function\<close>

text \<open>While only allocas were seen, there are as many locals as entries in the map.\<close>

definition num_locals_of :: "edge_visitor \<Rightarrow> u32" where
  "num_locals_of ev = num_locals (fst (ev_writers ev))"

lemma fresh_local_count:
  "fresh_local nm ev = Ok (n, ev') \<Longrightarrow> num_locals_of ev' = num_locals_of ev + 1 \<and> Locals ev' = Locals ev \<and>
     NumAllocas ev' = NumAllocas ev \<and> VarArgs ev' = VarArgs ev"
  by (auto simp: fresh_local_def freshLocal_def num_locals_of_def Let_def ok_iff case_prod_beta split: if_splits)

lemma traceSite_count:
  "traceSite F n ev = Ok (site, ev') \<Longrightarrow> num_locals_of ev' = num_locals_of ev \<and> Locals ev' = Locals ev \<and>
     NumAllocas ev' = NumAllocas ev \<and> VarArgs ev' = VarArgs ev"
  by (auto simp: traceSite_def add_global_def num_locals_of_def Let_def ok_iff split: option.splits)

lemma preprocess_count:
  assumes "preprocessVisitAllocaInst env F I ev = Ok ev'" and "map_of (Locals ev) (Instr (fst I)) = None"
    and "num_locals_of ev = of_nat (length (Locals ev))"
  shows "num_locals_of ev' = of_nat (length (Locals ev')) \<and> NumAllocas ev' = NumAllocas ev \<and> VarArgs ev' = VarArgs ev \<and>
    fst ` set (Locals ev') \<subseteq> insert (Instr (fst I)) (fst ` set (Locals ev))"
proof (cases "is_alloca I")
  case False
  then have "ev' = ev" using assms(1) by (auto simp: preprocessVisitAllocaInst_def is_alloca_def split: prod.splits opcode.splits)
  with assms(3) show ?thesis by auto
next
  case True
  then obtain i st sz where I: "I = (i, AllocaInst st sz)" by (auto simp: is_alloca_def split: prod.splits opcode.splits)
  from assms(1) obtain N ev1 where 1: "fresh_local (''ALLOCA_'' @ value_name env (Instr i)) ev = Ok (N, ev1)"
    and 2: "(if BraceletTraceMode env = TraceFull \<and> st then assert_r (sz \<noteq> None) (try_r (traceSite F N ev1) (\<lambda>(site, ev).
         Ok (insert_local (Instr i) N ((add_call AtEntry (AllocaAllocate site (the sz)) ev)
           \<lparr>allocas_to_free := allocas_to_free (add_call AtEntry (AllocaAllocate site (the sz)) ev) @ [i]\<rparr>))))
       else Ok (insert_local (Instr i) N ev1)) = Ok ev'"
    by (auto simp: preprocessVisitAllocaInst_def I ok_iff Let_def cong: if_cong)
  note f = fresh_local_count [OF 1]
  have ins: "num_locals_of (insert_local (Instr i) N e) = of_nat (length (Locals (insert_local (Instr i) N e))) \<and>
      fst ` set (Locals (insert_local (Instr i) N e)) \<subseteq> insert (Instr (fst I)) (fst ` set (Locals ev)) \<and>
      NumAllocas (insert_local (Instr i) N e) = NumAllocas e \<and> VarArgs (insert_local (Instr i) N e) = VarArgs e"
    if "num_locals_of e = num_locals_of ev + 1" "Locals e = Locals ev" for e
    using that assms(2,3) by (auto simp: insert_local_def I num_locals_of_def)
  show ?thesis
  proof (cases "BraceletTraceMode env = TraceFull \<and> st")
    case False
    with 2 ins [of ev1] f show ?thesis by auto
  next
    case t: True
    with 2 obtain site ev2 where 3: "traceSite F N ev1 = Ok (site, ev2)"
      and ev': "ev' = insert_local (Instr i) N ((add_call AtEntry (AllocaAllocate site (the sz)) ev2)
        \<lparr>allocas_to_free := allocas_to_free (add_call AtEntry (AllocaAllocate site (the sz)) ev2) @ [i]\<rparr>)"
      by (auto simp: ok_iff)
    from ins [of "(add_call AtEntry (AllocaAllocate site (the sz)) ev2)
        \<lparr>allocas_to_free := allocas_to_free (add_call AtEntry (AllocaAllocate site (the sz)) ev2) @ [i]\<rparr>"] traceSite_count [OF 3] f
    show ?thesis by (auto simp: ev' add_call_def Let_def num_locals_of_def)
  qed
qed

lemma preprocess_counts:
  assumes "for_each (preprocessVisitAllocaInst env F) Is ev = Ok ev'" and "distinct (map fst Is)"
    and "num_locals_of ev = of_nat (length (Locals ev))" and "\<And>i. i \<in> fst ` set Is \<Longrightarrow> map_of (Locals ev) (Instr i) = None"
  shows "num_locals_of ev' = of_nat (length (Locals ev')) \<and> NumAllocas ev' = NumAllocas ev \<and> VarArgs ev' = VarArgs ev"
  using assms
proof (induction Is arbitrary: ev)
  case (Cons I Is)
  then obtain ev1 where 1: "preprocessVisitAllocaInst env F I ev = Ok ev1"
    and 2: "for_each (preprocessVisitAllocaInst env F) Is ev1 = Ok ev'" by (auto simp: ok_iff)
  have c: "num_locals_of ev1 = of_nat (length (Locals ev1))" "NumAllocas ev1 = NumAllocas ev" "VarArgs ev1 = VarArgs ev"
    "fst ` set (Locals ev1) \<subseteq> insert (Instr (fst I)) (fst ` set (Locals ev))"
    using preprocess_count [OF 1] Cons.prems(3,4) by auto
  have "map_of (Locals ev1) (Instr i) = None" if "i \<in> fst ` set Is" for i
  proof -
    have "fst I \<notin> fst ` set Is" using Cons.prems(2) by simp
    with that have "i \<noteq> fst I" by blast
    moreover have "map_of (Locals ev) (Instr i) = None" using Cons.prems(4) that by auto
    ultimately show ?thesis using c(4) by (auto simp: map_of_eq_None_iff)
  qed
  from Cons.IH [OF 2 _ c(1) this] Cons.prems(2) c show ?case by auto
qed simp

lemma finish_fits: "finish srt na s = Ok s' \<Longrightarrow> fits (snd s') = fits (snd s)"
proof -
  assume f: "finish srt na s = Ok s'"
  obtain fw gw fw' gw' where "s = (fw, gw)" "s' = (fw', gw')" by (cases s; cases s')
  with finish_ok(4) [of srt na fw gw fw' gw'] f show ?thesis by (simp add: fits_def)
qed

text \<open>What the edges and the code added for a function amount to.\<close>

definition freed_allocas :: "pass_env \<Rightarrow> pass_function \<Rightarrow> nat set" where
  "freed_allocas env F = {i. BraceletTraceMode env = TraceFull \<and> (\<exists>sz. (i, AllocaInst True sz) \<in> set (pf_body F))}"

definition function_covered :: "pass_env \<Rightarrow> pass_function \<Rightarrow> assertion" where
  "function_covered env F ev w \<longleftrightarrow>
     (\<forall>I\<in>set (pf_body F). is_alloca I \<longrightarrow> alloca_index (fst I) ev w) \<and>
     (\<forall>I\<in>set (pf_body F). alloca_traced env F I ev w) \<and>
     (pf_vararg F \<longrightarrow> varargs_set F ev w) \<and>
     (\<forall>k\<in>set [0..<length (pf_args F)]. defines_argument F k ev w) \<and>
     (\<forall>I\<in>set (pf_body F). instr_covered env F (freed_allocas env F) I ev w)"

lemma alloca_traced_frame:
  "ev_added ev' = ev_added ev \<Longrightarrow> allocas_to_free ev' = allocas_to_free ev \<Longrightarrow>
   alloca_traced env F I ev' w = alloca_traced env F I ev w"
  by (cases I; cases "snd I")
    (simp_all add: alloca_traced_def to_free_def local_node_def site_of_def is_site_def has_call_def)

text \<open>What is added to the module is never taken back.\<close>

definition added_grown :: "additions \<Rightarrow> additions \<Rightarrow> bool" where
  "added_grown a a' \<longleftrightarrow>
     (\<exists>xs. inserted a' = inserted a @ xs) \<and> (\<exists>xs. new_globals a' = new_globals a @ xs) \<and>
     (\<exists>xs. call_labels a' = call_labels a @ xs)"

lemma added_grown_refl [simp]: "added_grown a a"
  by (simp add: added_grown_def)

lemma added_grown_trans: "added_grown a b \<Longrightarrow> added_grown b c \<Longrightarrow> added_grown a c"
  by (auto simp: added_grown_def)

context open_writer begin

text \<open>Once all allocas are numbered, the locals are those of the allocas.\<close>

lemma allocas_ready:
  assumes 1: "for_each (preprocessVisitAllocaInst env F) (pf_body F) ev0 = Ok ev1"
    and d: "distinct (map fst (pf_body F))" and len0: "num_locals_of ev0 = 0"
    and "Locals ev0 = []" "VarArgs ev0 = null_node"
    and good: "good F ev1 w1" and pre: "\<forall>I\<in>set (pf_body F). preprocessed env F I ev1 w1"
  defines "ev \<equiv> ev1\<lparr>NumAllocas := of_nat (length (Locals ev1))\<rparr>"
  shows "good F ev w1" and "only_allocas ev w1"
    and "\<forall>I\<in>set (pf_body F). is_alloca I \<longrightarrow> alloca_index (fst I) ev w1"
    and "\<forall>I\<in>set (pf_body F). alloca_traced env F I ev w1"
proof -
  have c: "num_locals_of ev1 = of_nat (length (Locals ev1))" "VarArgs ev1 = null_node"
    using preprocess_counts [OF 1 d] len0 assms(4,5) by simp_all
  have n1: "num_locals_of ev1 = of_nat (length (w_locals w1))" "length (w_locals w1) < 2 ^ 16"
    using wr_num [of "fst (ev_writers ev1)" "gw_of ev1" w1] good by (auto simp: good_def num_locals_of_def)
  have le: "length (Locals ev1) \<le> length (w_locals w1)" using good by (simp add: good_def visitor_ok_def)
  have u: "unat (of_nat (length (w_locals w1)) :: u32) = length (w_locals w1)"
    "unat (of_nat (length (Locals ev1)) :: u32) = length (Locals ev1)"
    using n1(2) le by (simp_all add: unat_of_nat_small)
  have eq: "length (Locals ev1) = length (w_locals w1)" using u c(1) n1(1) by metis
  with u have eq2: "unat (NumAllocas ev) = length (w_locals w1)" by (simp add: ev_def)
  show "good F ev w1" "only_allocas ev w1"
    using good eq eq2 c(2) by (auto simp: ev_def good_def visitor_ok_def locals_ok_def is_site_def only_allocas_def)
  have "alloca_index i ev w1" if "early i ev1 w1" for i
    using that eq eq2 by (auto simp: ev_def early_def alloca_index_def has_node_def)
  moreover have "alloca_traced env F I ev w1" if "alloca_traced env F I ev1 w1" for I
    using that alloca_traced_frame [of ev1 ev] by (simp add: ev_def)
  ultimately show "\<forall>I\<in>set (pf_body F). is_alloca I \<longrightarrow> alloca_index (fst I) ev w1"
    "\<forall>I\<in>set (pf_body F). alloca_traced env F I ev w1" using pre unfolding preprocessed_def by blast+
qed

lemma run_visitor_covers:
  assumes v: "run_visitor env srt F s a = Ok (s', a')"
    and fits: "fits (snd s')" and d: "distinct (map fst (pf_body F))"
  shows "fits (snd s)" and "wr s w \<Longrightarrow> w_locals w = [] \<Longrightarrow> \<exists>ev w'. wr (ev_writers ev) w' \<and> grown (symbols_in_order (snd s)) w (syms_of ev) w' \<and>
    finish srt (NumAllocas ev) (ev_writers ev) = Ok s' \<and> visitor_ok F ev w' \<and>
    added_grown a a' \<and> ev_added ev = a' \<and> function_covered env F ev w'"
proof -
  let ?ev0 = "\<lparr>ev_writers = s, ev_added = a, Locals = [], trace_sites = [], VarArgs = null_node, CallVoidNumber = 0,
        NumAllocas = 0, allocas_to_free = []\<rparr>"
  from v obtain ev1 ev2 ev3 ev where
    1: "for_each (preprocessVisitAllocaInst env F) (pf_body F) ?ev0 = Ok ev1"
    and 2: "setup_varargs F (ev1\<lparr>NumAllocas := of_nat (length (Locals ev1))\<rparr>) = Ok ev2"
    and 3: "for_each (define_argument env F) [0..<length (pf_args F)] ev2 = Ok ev3"
    and 4: "for_each (visit_one env F) (pf_body F) ev3 = Ok ev"
    and 5: "finish srt (NumAllocas ev) (ev_writers ev) = Ok s'" and a': "a' = ev_added ev"
    by (auto simp: run_visitor_def EdgeVisitor_init_def ok_iff)
  let ?ev1 = "ev1\<lparr>NumAllocas := of_nat (length (Locals ev1))\<rparr>"
  let ?A = "freed_allocas env F"
  let ?I = "\<lambda>ev w. (\<forall>I\<in>set (pf_body F). is_alloca I \<longrightarrow> alloca_index (fst I) ev w) \<and>
    (\<forall>I\<in>set (pf_body F). alloca_traced env F I ev w)"
  have I: "lasting ?I" by (intro lasting_intros)
  have free: "\<forall>a\<in>?A. to_free a ev w" if "?I ev w" for ev w
    using that by (fastforce simp: freed_allocas_def alloca_traced_def)
  have f4: "fits (gw_of ev)" using finish_fits [OF 5] fits by simp
  have s4: "step F ?I (for_each (visit_one env F) (pf_body F)) (\<lambda>ev w. \<forall>I\<in>set (pf_body F). instr_covered env F ?A I ev w)"
  proof (rule step_for_each)
    show "step F ?I (visit_one env F I) (instr_covered env F ?A I)" for I
      by (rule step_conseq [OF visit_one_step [of F ?A]]) (use free in blast)+
  qed (rule I lasting_instr)+
  have s3: "step F ?I (for_each (define_argument env F) [0..<length (pf_args F)])
      (\<lambda>ev w. \<forall>k\<in>set [0..<length (pf_args F)]. defines_argument F k ev w)"
    by (rule step_for_each) (auto intro!: define_argument_step lasting_intros)
  note b4 = stepD [OF s4 4 f4]
  note b3 = stepD [OF s3 3 conjunct1 [OF b4]]
  note b2 = stepD [OF setup_varargs_step 2 conjunct1 [OF b3]]
  have s1: "step F all_early (for_each (preprocessVisitAllocaInst env F) (pf_body F))
      (\<lambda>ev w. all_early ev w \<and> (\<forall>I\<in>set (pf_body F). preprocessed env F I ev w))"
    by (rule step_loop) (auto intro!: preprocess_step lasting_intros)
  have f1: "fits (gw_of ev1)" using b2 by simp
  note b1 = stepD [OF s1 1 f1]
  show "fits (snd s)" using b1 by simp
  assume w: "wr s w" and start: "w_locals w = []"
  have "good F ?ev0 w" using w by (simp add: good_def visitor_ok_def locals_ok_def)
  moreover have "all_early ?ev0 w" by (simp add: all_early_def)
  ultimately obtain w1 where w1: "good F ev1 w1" "later ?ev0 w ev1 w1" "all_early ev1 w1"
    "\<forall>I\<in>set (pf_body F). preprocessed env F I ev1 w1" using b1 by blast
  have len0: "num_locals_of ?ev0 = 0"
    using wr_num [of "fst s" "snd s" w] w start by (simp add: num_locals_of_def)
  note ready = allocas_ready [OF 1 d len0 _ _ w1(1,4)]
  have g1: "good F ?ev1 w1" "only_allocas ?ev1 w1" and I1: "?I ?ev1 w1" using ready by simp_all
  from b2 g1 obtain w2 where w2: "good F ev2 w2" "later ?ev1 w1 ev2 w2" "pf_vararg F \<longrightarrow> varargs_set F ev2 w2" by blast
  note I2 = lastingD [OF I w2(2) I1]
  from b3 w2(1) I2 obtain w3 where w3: "good F ev3 w3" "later ev2 w2 ev3 w3"
    "\<forall>k\<in>set [0..<length (pf_args F)]. defines_argument F k ev3 w3" by blast
  note I3 = lastingD [OF I w3(2) I2]
  from b4 w3(1) I3 obtain w4 where w4: "good F ev w4" "later ev3 w3 ev w4"
    "\<forall>I\<in>set (pf_body F). instr_covered env F ?A I ev w4" by blast
  note I4 = lastingD [OF I w4(2) I3]
  have V: "lasting (\<lambda>ev w. pf_vararg F \<longrightarrow> varargs_set F ev w)"
    and D: "lasting (\<lambda>ev w. \<forall>k\<in>set [0..<length (pf_args F)]. defines_argument F k ev w)" by (intro lasting_intros)+
  have "function_covered env F ev w4"
    using I4 w4(3) lastingD [OF V later_trans [OF w3(2) w4(2)] w2(3)] lastingD [OF D w4(2) w3(3)]
    by (simp add: function_covered_def)
  moreover have "grown (symbols_in_order (snd s)) w (syms_of ev) w4"
    "added_grown a (ev_added ev)"
    using w1(2) later_trans [OF w2(2) later_trans [OF w3(2) w4(2)]]
    by (auto simp: later_def added_grown_def intro: grown_trans)
  moreover have "visitor_ok F ev w4" "wr (ev_writers ev) w4"
    using w4(1) by (simp_all add: good_def)
  ultimately show "\<exists>ev w'. wr (ev_writers ev) w' \<and> grown (symbols_in_order (snd s)) w (syms_of ev) w' \<and>
    finish srt (NumAllocas ev) (ev_writers ev) = Ok s' \<and> visitor_ok F ev w' \<and>
    added_grown a a' \<and> ev_added ev = a' \<and> function_covered env F ev w'" using 5 a' by blast
qed
end

lemma sbom_strings_symbols:
  assumes "sbom_strings si gw = (c, v, gw')"
  shows "symbols_in_order gw' = symbols_in_order gw"
proof -
  have "gw' = snd (snd (sbom_strings si gw))" using assms by simp
  then show ?thesis by (cases si) (simp_all add: sbom_strings_def split_beta Let_def gw_string_frame)
qed

text \<open>A new function writer, between two functions of a run.\<close>

definition opened :: "(string \<Rightarrow> string \<Rightarrow> string) \<Rightarrow> llvm_function \<Rightarrow> graph_writer \<Rightarrow> function_writer \<Rightarrow> written" where
  "opened canon F gw fw =
     (let (cname, ver) = sbom_texts (getSbomInfoOfFunction canon F gw)
      in \<lparr>w_symbol = ThisSymbolIdx fw, w_component = cname, w_version = ver,
          w_locals = [], w_allocas = 0, w_edges = []\<rparr>)"

lemma opened_simps [simp]:
  "w_symbol (opened canon F gw fw) = ThisSymbolIdx fw" "w_locals (opened canon F gw fw) = []"
  by (simp_all add: opened_def case_prod_beta)

definition symbol_is :: "graph_writer \<Rightarrow> written \<Rightarrow> nat \<Rightarrow> bool" where
  "symbol_is gw w g \<longleftrightarrow> unat (w_symbol w) < length (symbols_in_order gw) \<and> symbols_in_order gw ! unat (w_symbol w) = g"

lemma open_function:
  assumes run: "writer_run canon srt dbg gw None ws" and init: "FunctionWriter_init canon F dbg gw = Ok (fw, gw1)"
    and fits: "fits gw1"
  shows "fits gw" "writer_run canon srt dbg gw1 (Some (fw, opened canon F gw fw)) ws"
    "\<exists>ks. symbols_in_order gw1 = symbols_in_order gw @ ks" "symbol_is gw1 (opened canon F gw fw) (gid (fn_object F))"
proof -
  let ?gw = "gw\<lparr>has_active_function_writer := True, num_functions := num_functions gw + 1\<rparr>"
  from init obtain n gw2 c v where s: "gw_symbol (GlobalObject (fn_object F)) ?gw = Ok (n, gw2)"
    and b: "sbom_strings (getSbomInfoOfFunction canon F gw2) gw2 = (c, v, gw1)"
    by (rule FunctionWriter_init_ok)
  have idx: "ThisSymbolIdx fw = symbol_of n"
    using init s b by (auto simp: FunctionWriter_init_def node_symbol_of_def ok_iff)
  note sz = gw_symbol_sizes [OF s] sbom_strings_sizes [OF b] blob_grows(2) [OF s] blob_grows(3) [OF b]
  show f: "fits gw" using fits sz by (simp add: fits_def)
  have syms: "symbols_in_order gw1 = symbols_in_order gw2" using sbom_strings_symbols [OF b] .
  show "\<exists>ks. symbols_in_order gw1 = symbols_in_order gw @ ks"
    using s by (auto simp: syms gw_symbol_def Let_def ok_iff split: option.splits)
  have "sbom_texts (getSbomInfoOfFunction canon F gw) = (w_component (opened canon F gw fw), w_version (opened canon F gw fw))"
    by (simp add: opened_def case_prod_beta)
  from run_function [OF run init this]
  show "writer_run canon srt dbg gw1 (Some (fw, opened canon F gw fw)) ws"
    by (simp add: opened_def case_prod_beta)
  have "writer_inv srt dbg gw None ws" using f run by (rule run_fits [rotated])
  then have "tables_inv srt dbg ?gw None ws"
    by (auto simp: writer_inv_def tables_inv_def strings_ok_def symbols_ok_def strings_def open_ok_def)
  from gw_symbol_inv [OF this s] fits sz
  show "symbol_is gw1 (opened canon F gw fw) (gid (fn_object F))"
    by (simp add: symbol_is_def idx syms fits_def underlying_object_def)
qed

text \<open>The graph of a function, as it is written in the end.\<close>

definition function_graph :: "pass_env \<Rightarrow> pass_function \<Rightarrow> graph_writer \<Rightarrow> additions \<Rightarrow> written \<Rightarrow> bool" where
  "function_graph env F gw a w \<longleftrightarrow>
     symbol_is gw w (gid (fn_object (pf_function F))) \<and>
     (\<exists>ev. gw_of ev = gw \<and> ev_added ev = a \<and> NumAllocas ev = w_allocas w \<and> visitor_ok F ev w \<and> function_covered env F ev w)"

lemma lasting_function [lasting_intros]: "lasting (function_covered env F)"
  unfolding function_covered_def by (intro lasting_intros)

lemma is_site_mono: "is_site F n k ev \<Longrightarrow> set (new_globals (ev_added ev)) \<subseteq> set (new_globals (ev_added ev')) \<Longrightarrow> is_site F n k ev'"
  by (auto simp: is_site_def)

lemma function_graph_ghost:
  assumes "visitor_ok F ev w" "function_covered env F ev w" "symbol_is gw w (gid (fn_object (pf_function F)))"
    and syms: "\<exists>ks. symbols_in_order gw = syms_of ev @ ks" and added: "added_grown (ev_added ev) a"
  shows "function_graph env F gw a (w\<lparr>w_allocas := NumAllocas ev\<rparr>)"
proof -
  let ?ev = "ev\<lparr>ev_writers := (fst (ev_writers ev), gw), ev_added := a\<rparr>"
  let ?w = "w\<lparr>w_allocas := NumAllocas ev\<rparr>"
  have g: "grown (syms_of ev) w (syms_of ?ev) ?w" using syms by (simp add: grown_def)
  then have "later ev w ?ev ?w" using added by (simp add: later_def added_grown_def)
  then have "function_covered env F ?ev ?w" using assms(2) lastingD [OF lasting_function] by blast
  moreover have "visitor_ok F ?ev ?w"
  proof -
    have "locals_ok ?ev ?w" using assms(1) g by (auto simp: visitor_ok_def intro: locals_ok_grown)
    moreover have "set (new_globals (ev_added ev)) \<subseteq> set (new_globals (ev_added ?ev))"
      using added by (auto simp: added_grown_def)
    ultimately show ?thesis
      using assms(1) valid_grown [OF g] is_site_mono [of F _ _ ev ?ev] by (fastforce simp: visitor_ok_def)
  qed
  ultimately show ?thesis using assms(3) unfolding function_graph_def
    by (intro conjI exI [of _ ?ev]) (simp_all add: symbol_is_def)
qed

lemma function_graph_grown:
  assumes "function_graph env F gw a w" and "\<exists>ks. symbols_in_order gw' = symbols_in_order gw @ ks" and "added_grown a a'"
  shows "function_graph env F gw' a' w"
proof -
  from assms(1) obtain ev where ev: "gw_of ev = gw" "ev_added ev = a" "NumAllocas ev = w_allocas w" "visitor_ok F ev w"
    "function_covered env F ev w" and s: "symbol_is gw w (gid (fn_object (pf_function F)))"
    by (auto simp: function_graph_def)
  have "symbol_is gw' w (gid (fn_object (pf_function F)))" using s assms(2) by (auto simp: symbol_is_def nth_append)
  from function_graph_ghost [OF ev(4,5) this] assms(2,3) ev(1-3) show ?thesis by simp
qed

lemma run_visitor_run:
  assumes run: "writer_run canon srt dbg gw None ws" and init: "FunctionWriter_init canon (pf_function F) dbg gw = Ok s"
    and v: "run_visitor env srt F s a = Ok ((fw, gw'), a')" and fits: "fits gw'" and d: "distinct (map fst (pf_body F))"
  shows "fits gw \<and> (\<exists>w. writer_run canon srt dbg gw' None (ws @ [w]) \<and> function_graph env F gw' a' w) \<and>
    added_grown a a' \<and> (\<exists>ks. symbols_in_order gw' = symbols_in_order gw @ ks)"
proof -
  obtain fw0 gw1 where s: "s = (fw0, gw1)" by (cases s)
  note i = init [unfolded s]
  let ?w0 = "opened canon (pf_function F) gw fw0"
  let ?wr = "\<lambda>s w. fits (snd s) \<and> writer_run canon srt dbg (snd s) (Some (fst s, w)) ws"
  have wr: "open_writer ?wr" by (rule run.open_writer_axioms)
  note c = open_writer.run_visitor_covers [OF wr v [unfolded s] _ d]
  have f1: "fits gw1" using c(1) fits by simp
  note o = open_function [OF run i f1]
  obtain ev w where ev: "fits (gw_of ev)" "writer_run canon srt dbg (gw_of ev) (Some (fst (ev_writers ev), w)) ws"
    "grown (symbols_in_order gw1) ?w0 (syms_of ev) w" "finish srt (NumAllocas ev) (ev_writers ev) = Ok (fw, gw')"
    "visitor_ok F ev w" "added_grown a a'" "ev_added ev = a'" "function_covered env F ev w"
    using c(2) [of ?w0] o(2) f1 fits by auto
  have fin: "finish srt (NumAllocas ev) (fst (ev_writers ev), gw_of ev) = Ok (fw, gw')" using ev(4) by simp
  have "num_locals (fst (ev_writers ev)) = of_nat (length (w_locals w))" "length (w_locals w) < 2 ^ 16"
    using open_writer.wr_num [OF wr, where fw = "fst (ev_writers ev)" and gw = "gw_of ev" and w = w] ev(1,2) by auto
  then have "NumAllocas ev \<le> num_locals (fst (ev_writers ev))"
    using ev(5) by (simp add: visitor_ok_def word_le_nat_alt unat_of_nat_small)
  from run_finish [OF ev(2) this fin]
  have r: "writer_run canon srt dbg gw' None (ws @ [w\<lparr>w_allocas := NumAllocas ev\<rparr>])" .
  have same: "symbols_in_order gw' = syms_of ev" using finish_ok(4) [OF fin] by simp
  have "symbol_is gw' w (gid (fn_object (pf_function F)))"
    using o(4) ev(3) by (auto simp: symbol_is_def same grown_def nth_append)
  from function_graph_ghost [OF ev(5,8) this, of a'] ev(7) same
  have "function_graph env F gw' a' (w\<lparr>w_allocas := NumAllocas ev\<rparr>)" by simp
  moreover have "\<exists>ks. symbols_in_order gw' = symbols_in_order gw @ ks" using o(3) ev(3) same by (auto simp: grown_def)
  ultimately show ?thesis using o(1) r ev(6) by blast
qed

end
