(* ===== verification/Reachability_Module.thy ===== *)
theory Reachability_Module imports Reachability_Spec begin

text \<open>
  The pass over a module. Each comdat has its own graph writer; here its calls, over all global variables and all
  functions, are put together to one run of the writer, and what was shown of a function is carried
  to the graph that is written in the end.
\<close>

text \<open>
  The module. There is a graph writer for each comdat, and at most one function of it is open: the one
  that holds the initializers. The runs of the writers are kept as a ghost, for each comdat the
  open function and the finished ones.
\<close>

type_synonym ghost = "comdat option \<Rightarrow> written option \<times> written list"

definition writtens :: "written option \<times> written list \<Rightarrow> written set" where
  "writtens t = set_option (fst t) \<union> set (snd t)"

definition comdat_ok ::
  "(string \<Rightarrow> string \<Rightarrow> string) \<Rightarrow> sorter \<Rightarrow> bool \<Rightarrow> graph_writer \<Rightarrow> function_writer option
     \<Rightarrow> written option \<times> written list \<Rightarrow> bool" where
  "comdat_ok canon srt dbg gw ofw t \<longleftrightarrow>
     (case (ofw, fst t) of
        (None, None) \<Rightarrow> writer_run canon srt dbg gw None (snd t)
      | (Some fw, Some w) \<Rightarrow> writer_run canon srt dbg gw (Some (fw, w)) (snd t)
      | _ \<Rightarrow> False)"

definition pass_ok ::
  "(string \<Rightarrow> string \<Rightarrow> string) \<Rightarrow> sorter \<Rightarrow> bool \<Rightarrow> (comdat option \<times> function_writer) list \<Rightarrow> pass_state \<Rightarrow> ghost \<Rightarrow> bool" where
  "pass_ok canon srt dbg opn ps T \<longleftrightarrow>
     distinct (map fst (GraphWriters ps)) \<and> distinct (map fst opn) \<and> fst ` set opn \<subseteq> fst ` set (GraphWriters ps) \<and>
     (\<forall>C. map_of (GraphWriters ps) C = None \<longrightarrow> T C = (None, [])) \<and>
     (\<forall>C gw. map_of (GraphWriters ps) C = Some gw \<longrightarrow> comdat_ok canon srt dbg gw (map_of opn C) (T C))"

lemma pass_okD:
  assumes "pass_ok canon srt dbg opn ps T"
  shows "map_of (GraphWriters ps) C = None \<Longrightarrow> T C = (None, []) \<and> map_of opn C = None"
    and "map_of (GraphWriters ps) C = Some gw \<Longrightarrow> comdat_ok canon srt dbg gw (map_of opn C) (T C)"
    and "distinct (map fst (GraphWriters ps))" "distinct (map fst opn)" "fst ` set opn \<subseteq> fst ` set (GraphWriters ps)"
  using assms unfolding pass_ok_def map_of_eq_None_iff by blast+


definition all_fit :: "pass_state \<Rightarrow> bool" where
  "all_fit ps \<longleftrightarrow> (\<forall>C gw. map_of (GraphWriters ps) C = Some gw \<longrightarrow> fits gw)"

definition symbols_grown :: "graph_writer \<Rightarrow> graph_writer \<Rightarrow> bool" where
  "symbols_grown gw gw' \<longleftrightarrow> (\<exists>ks. symbols_in_order gw' = symbols_in_order gw @ ks)"

definition comdat_later :: "graph_writer \<Rightarrow> written option \<times> written list \<Rightarrow> graph_writer \<Rightarrow> written option \<times> written list \<Rightarrow> bool" where
  "comdat_later gw t gw' t' \<longleftrightarrow>
     symbols_grown gw gw' \<and> set (snd t) \<subseteq> set (snd t') \<and>
     (\<forall>w\<in>writtens t. \<exists>w'\<in>writtens t'. grown (symbols_in_order gw) w (symbols_in_order gw') w')"

definition pass_later :: "pass_state \<Rightarrow> ghost \<Rightarrow> pass_state \<Rightarrow> ghost \<Rightarrow> bool" where
  "pass_later ps T ps' T' \<longleftrightarrow>
     (\<forall>C gw. map_of (GraphWriters ps) C = Some gw \<longrightarrow>
        (\<exists>gw'. map_of (GraphWriters ps') C = Some gw' \<and> comdat_later gw (T C) gw' (T' C))) \<and>
     added_grown (ps_added ps) (ps_added ps')"

lemma symbols_grown_refl [simp]: "symbols_grown gw gw"
  by (simp add: symbols_grown_def)

lemma symbols_grown_trans: "symbols_grown a b \<Longrightarrow> symbols_grown b c \<Longrightarrow> symbols_grown a c"
  by (auto simp: symbols_grown_def)

lemma comdat_later_refl [simp]: "comdat_later gw t gw t"
  by (auto simp: comdat_later_def intro: grown_refl)

lemma comdat_later_trans: "comdat_later a r b s \<Longrightarrow> comdat_later b s c t \<Longrightarrow> comdat_later a r c t"
  unfolding comdat_later_def by (meson symbols_grown_trans subset_trans grown_trans)

lemma pass_later_refl [simp]: "pass_later ps T ps T"
  by (simp add: pass_later_def)

lemma pass_later_trans: "pass_later a r b s \<Longrightarrow> pass_later b s c t \<Longrightarrow> pass_later a r c t"
  unfolding pass_later_def by (meson comdat_later_trans added_grown_trans)

text \<open>Replacing the writer of a comdat.\<close>

lemma map_of_put [simp]:
  "map_of (GraphWriters (put_writer C gw ps)) = (map_of (GraphWriters ps))(C \<mapsto> gw)"
  by (simp add: put_writer_def update_conv')

lemma keys_put [simp]:
  "map_of (GraphWriters ps) C \<noteq> None \<Longrightarrow> map fst (GraphWriters (put_writer C gw ps)) = map fst (GraphWriters ps)"
  by (simp add: put_writer_def update_keys dom_map_of_conv_image_fst [symmetric] domIff)

lemma pass_ok_put:
  assumes "pass_ok canon srt dbg opn ps T" and "map_of (GraphWriters ps) C \<noteq> None"
    and "comdat_ok canon srt dbg gw' (map_of opn' C) t"
    and "distinct (map fst opn')" "fst ` set opn' \<subseteq> insert C (fst ` set opn)" "\<And>D. D \<noteq> C \<Longrightarrow> map_of opn' D = map_of opn D"
  shows "pass_ok canon srt dbg opn' (put_writer C gw' ps) (T(C := t))"
proof -
  let ?ps = "put_writer C gw' ps"
  have keys: "map fst (GraphWriters ?ps) = map fst (GraphWriters ps)" using assms(2) by simp
  have C: "C \<in> fst ` set (GraphWriters ps)" using assms(2) by (metis map_of_eq_None_iff)
  have dom: "fst ` set (GraphWriters ?ps) = fst ` set (GraphWriters ps)" by (metis keys list.set_map)
  have 1: "fst ` set opn' \<subseteq> fst ` set (GraphWriters ?ps)" using assms(5) C pass_okD(5) [OF assms(1)] unfolding dom by blast
  have 2: "(T(C := t)) D = (None, [])" if "map_of (GraphWriters ?ps) D = None" for D
    using that pass_okD(1) [OF assms(1), of D] by (cases "D = C") simp_all
  have 3: "comdat_ok canon srt dbg gw (map_of opn' D) ((T(C := t)) D)" if "map_of (GraphWriters ?ps) D = Some gw" for D gw
    using that assms(3) pass_okD(2) [OF assms(1), of D gw] assms(6) [of D] by (cases "D = C") simp_all
  have "distinct (map fst (GraphWriters ?ps))" using pass_okD(3) [OF assms(1)] keys by metis
  with 1 2 3 assms(4) show ?thesis unfolding pass_ok_def by blast
qed

lemma pass_later_put:
  assumes "map_of (GraphWriters ps) C = Some gw" and "comdat_later gw (T C) gw' t"
  shows "pass_later ps T (put_writer C gw' ps) (T(C := t))"
  using assms by (simp add: pass_later_def) (simp add: put_writer_def)

lemma put_frame [simp]: "ps_added (put_writer C gw ps) = ps_added ps" "GlobalWriters (put_writer C gw ps) = GlobalWriters ps"
  by (simp_all add: put_writer_def)

lemma all_fit_put: "all_fit (put_writer C gw' ps) \<Longrightarrow> fits gw' \<and> ((\<forall>gw. map_of (GraphWriters ps) C = Some gw \<longrightarrow> fits gw) \<longrightarrow> all_fit ps)"
  unfolding all_fit_def by (auto split: if_splits)

lemma pass_cong:
  "GraphWriters ps' = GraphWriters ps \<Longrightarrow> pass_ok canon srt dbg opn ps' T = pass_ok canon srt dbg opn ps T"
  "GraphWriters ps' = GraphWriters ps \<Longrightarrow> all_fit ps' = all_fit ps"
  by (simp_all add: pass_ok_def all_fit_def)

lemma later_cong:
  "GraphWriters ps' = GraphWriters ps \<Longrightarrow> added_grown (ps_added ps) (ps_added ps') \<Longrightarrow> pass_later ps T ps' T"
  by (simp add: pass_later_def)

lemma GraphWriterForComdat_step:
  assumes "GraphWriterForComdat env C ps = (gw, ps')"
  shows "map_of (GraphWriters ps') C = Some gw" "all_fit ps' \<Longrightarrow> all_fit ps"
    "pass_ok canon srt (\<not> NoIncludeDebugData env) opn ps T \<Longrightarrow> pass_ok canon srt (\<not> NoIncludeDebugData env) opn ps' T"
    "pass_later ps T ps' T" "ps_added ps' = ps_added ps" "GlobalWriters ps' = GlobalWriters ps"
proof -
  have cases: "ps' = ps \<and> map_of (GraphWriters ps) C = Some gw \<or>
      map_of (GraphWriters ps) C = None \<and> ps' = ps\<lparr>GraphWriters := GraphWriters ps @ [(C, gw)]\<rparr> \<and>
      gw = GraphWriter_init C (getSbomInfo env) (SbomMap env) (\<not> NoIncludeDebugData env)"
    using assms by (auto simp: GraphWriterForComdat_def Let_def split: option.splits)
  then have "map_of (GraphWriters ps) \<subseteq>\<^sub>m map_of (GraphWriters ps')"
    by (auto simp: map_le_def map_add_def)
  then show "all_fit ps' \<Longrightarrow> all_fit ps"
    unfolding all_fit_def using map_le_Some by metis
  show "map_of (GraphWriters ps') C = Some gw" "pass_later ps T ps' T"
    "ps_added ps' = ps_added ps" "GlobalWriters ps' = GlobalWriters ps"
    using cases by (auto simp: pass_later_def map_add_def)
  assume ok: "pass_ok canon srt (\<not> NoIncludeDebugData env) opn ps T"
  show "pass_ok canon srt (\<not> NoIncludeDebugData env) opn ps' T"
  proof (cases "ps' = ps")
    case False
    with cases have new: "map_of (GraphWriters ps) C = None" "ps' = ps\<lparr>GraphWriters := GraphWriters ps @ [(C, gw)]\<rparr>"
      "gw = GraphWriter_init C (getSbomInfo env) (SbomMap env) (\<not> NoIncludeDebugData env)" by auto
    let ?ok = "comdat_ok canon srt (\<not> NoIncludeDebugData env)"
    note old = pass_okD [OF ok]
    have "?ok gw (map_of opn C) (T C)"
      using run_init old(1) [OF new(1)] by (simp add: comdat_ok_def new(3))
    then have "?ok gw' (map_of opn D) (T D)" if "map_of (GraphWriters ps') D = Some gw'" for D gw'
      using that old(2) [of D gw'] new(1) unfolding new(2) by (cases "map_of (GraphWriters ps) D") (auto split: if_splits)
    moreover have "T D = (None, [])" if "map_of (GraphWriters ps') D = None" for D
      using that old(1) [of D] unfolding new(2) by (cases "map_of (GraphWriters ps) D") (auto split: if_splits)
    moreover have "distinct (map fst (GraphWriters ps'))"
      using old(3) new(1) by (simp add: new(2) map_of_eq_None_iff)
    moreover have "fst ` set opn \<subseteq> fst ` set (GraphWriters ps')" using old(5) by (auto simp: new(2))
    ultimately show ?thesis using old(4) unfolding pass_ok_def by blast
  qed (use ok in simp)
qed

text \<open>An initializer: its global receives what the constant holds.\<close>

definition initialized :: "ir_constant \<Rightarrow> nat \<Rightarrow> graph_writer \<Rightarrow> written \<Rightarrow> bool" where
  "initialized C g gw w \<longleftrightarrow>
     leaves C = {} \<or>
     (\<exists>v n. covers (symbols_in_order gw) w (leaves C) v \<and> is_symbol (symbols_in_order gw) g n \<and>
        Edge StoreK n v 0 \<in> set (w_edges w))"

lemma initialized_grown:
  assumes "initialized C g gw w" and g: "grown (symbols_in_order gw) w (symbols_in_order gw') w'"
  shows "initialized C g gw' w'"
proof -
  have "set (w_edges w) \<subseteq> set (w_edges w')" using g by (auto simp: grown_def)
  with assms(1) show ?thesis unfolding initialized_def using covers_grown [OF g] is_symbol_grown [OF g] by blast
qed

context open_writer begin

lemma write_initializer_yields:
  assumes "write_initializer C GO s = Ok s'" and fits: "fits (snd s')"
  shows "fits (snd s)" and "wr s w \<Longrightarrow> yields s w s' (initialized C (gid GO) (snd s'))"
proof -
  from assms(1) obtain v s1 where 1: "constantNode C s = Ok (v, s1)"
    and 2: "(if \<not> is_node v then Ok s1
        else try_r (constantNode (GlobalConst (GlobalObject GO)) s1) (\<lambda>(n, s). write_edge StoreK n v 0 s)) = Ok s'"
    by (auto simp: write_initializer_def ok_iff)
  have both: "fits (snd s1) \<and> (\<forall>w. wr s1 w \<longrightarrow> covers (symbols_in_order (snd s1)) w (leaves C) v \<longrightarrow>
      yields s1 w s' (initialized C (gid GO) (snd s')))"
  proof (cases "is_node v")
    case False
    with 2 have "s' = s1" by simp
    then show ?thesis using fits False
      by (auto simp: yields_def initialized_def covers_def dest: valid_is_node split: if_splits)
  next
    case True
    with 2 obtain n s2 where g: "constantNode (GlobalConst (GlobalObject GO)) s1 = Ok (n, s2)"
      and e: "write_edge StoreK n v 0 s2 = Ok s'" by (auto simp: ok_iff simp del: constantNode.simps)
    have snd: "snd s' = snd s2" using e by (cases s2) (auto simp: write_edge_ok)
    then have f2: "fits (snd s2)" using fits by simp
    note y = constantNode_yields(1) [OF g f2]
    have "yields s1 w s' (initialized C (gid GO) (snd s'))"
      if w: "wr s1 w" and c: "covers (symbols_in_order (snd s1)) w (leaves C) v" for w
    proof -
      from y w have "yields s1 w s2 (\<lambda>w'. covers (symbols_in_order (snd s2)) w' {gid GO} n)"
        by (simp add: underlying_object_def)
      then obtain w2 where w2: "wr s2 w2" "grown (symbols_in_order (snd s1)) w (symbols_in_order (snd s2)) w2"
        "covers (symbols_in_order (snd s2)) w2 {gid GO} n" by (auto simp: yields_def)
      obtain m where "gw_symbol (GlobalObject GO) (snd s1) = Ok (n, m)" "s2 = (fst s1, m)"
        using g by (cases s1) (auto simp: ok_iff)
      with wr_symbol [of "fst s1" "snd s1" w "GlobalObject GO" n m] w f2
      have sym: "is_symbol (symbols_in_order (snd s2)) (gid GO) n" by (simp add: underlying_object_def)
      let ?w = "w2\<lparr>w_edges := w_edges w2 @ [edge_of StoreK n v 0]\<rparr>"
      have cv: "covers (symbols_in_order (snd s2)) w2 (leaves C) v" using covers_grown [OF w2(2) c] .
      have "valid (symbols_in_order (snd s2)) w2 n" "valid (symbols_in_order (snd s2)) w2 v"
        using valid_symbol [OF sym] covers_nonempty [OF cv True] by simp_all
      then have "wr s' ?w" using write_edge_yields [OF e w2(1)] by simp
      moreover have "initialized C (gid GO) (snd s') ?w"
        using sym covers_grown [OF grown_edge cv] unfolding initialized_def snd
        by (intro disjI2 exI [of _ v] exI [of _ n]) auto
      moreover have "grown (symbols_in_order (snd s1)) w (symbols_in_order (snd s')) ?w"
        using grown_trans [OF w2(2) grown_edge] snd by simp
      ultimately show ?thesis unfolding yields_def by blast
    qed
    with y show ?thesis by blast
  qed
  note y = constantNode_yields(1) [OF 1 conjunct1 [OF both]]
  show "fits (snd s)" using y by blast
  assume w: "wr s w"
  from y w have "yields s w s1 (\<lambda>w'. covers (symbols_in_order (snd s1)) w' (leaves C) v)" by blast
  then show "yields s w s' (initialized C (gid GO) (snd s'))"
    by (rule yields_trans) (use both in blast)
qed

end

lemma write_initializer_run:
  assumes "write_initializer C GO (fw, gw) = Ok (fw', gw')" and "fits gw'"
  shows "fits gw" and "writer_run canon srt dbg gw (Some (fw, w)) ws \<Longrightarrow>
    \<exists>w'. writer_run canon srt dbg gw' (Some (fw', w')) ws \<and> grown (symbols_in_order gw) w (symbols_in_order gw') w' \<and>
      initialized C (gid GO) gw' w'"
proof -
  let ?wr = "\<lambda>s w. fits (snd s) \<and> writer_run canon srt dbg (snd s) (Some (fst s, w)) ws"
  have wr: "open_writer ?wr" by (rule run.open_writer_axioms)
  note y = open_writer.write_initializer_yields [OF wr assms(1)]
  show f: "fits gw" using y(1) assms(2) by simp
  assume "writer_run canon srt dbg gw (Some (fw, w)) ws"
  with f y(2) [of w] assms(2) show "\<exists>w'. writer_run canon srt dbg gw' (Some (fw', w')) ws \<and>
      grown (symbols_in_order gw) w (symbols_in_order gw') w' \<and> initialized C (gid GO) gw' w'"
    by (simp add: open_writer.yields_def [OF wr])
qed

subsection \<open>The steps of the pass\<close>

text \<open>A loop over a state with a ghost, whose invariants hold as long as the last state fits.\<close>

lemma for_each_ghost:
  assumes step: "\<And>x s s'. x \<in> set xs \<Longrightarrow> f x s = Ok s' \<Longrightarrow> fit s' \<Longrightarrow>
      fit s \<and> (\<forall>g. I s g \<longrightarrow> (\<exists>g'. I s' g' \<and> L s g s' g' \<and> Q x s' g'))"
    and L: "\<And>s g. L s g s g" "\<And>s g t h u k. L s g t h \<Longrightarrow> L t h u k \<Longrightarrow> L s g u k"
    and Q: "\<And>x s g s' g'. L s g s' g' \<Longrightarrow> Q x s g \<Longrightarrow> Q x s' g'"
  shows "for_each f xs s = Ok s' \<Longrightarrow> fit s' \<Longrightarrow>
      fit s \<and> (\<forall>g. I s g \<longrightarrow> (\<exists>g'. I s' g' \<and> L s g s' g' \<and> (\<forall>x\<in>set xs. Q x s' g')))"
  using step
proof (induction xs arbitrary: s)
  case Nil
  then show ?case using L(1) by auto
next
  case (Cons x xs)
  from Cons.prems(1) obtain s1 where 1: "f x s = Ok s1" and 2: "for_each f xs s1 = Ok s'" by (auto simp: ok_iff)
  have IH: "fit s1 \<and> (\<forall>g. I s1 g \<longrightarrow> (\<exists>g'. I s' g' \<and> L s1 g s' g' \<and> (\<forall>x\<in>set xs. Q x s' g')))"
    by (rule Cons.IH [OF 2 Cons.prems(2)]) (rule Cons.prems(3), simp_all)
  note a = Cons.prems(3) [OF _ 1 conjunct1 [OF IH]]
  have "\<exists>g'. I s' g' \<and> L s g s' g' \<and> (\<forall>x\<in>set (x # xs). Q x s' g')" if g: "I s g" for g
  proof -
    from a g obtain g1 where g1: "I s1 g1" "L s g s1 g1" "Q x s1 g1" by auto
    with IH obtain g' where g': "I s' g'" "L s1 g1 s' g'" "\<forall>x\<in>set xs. Q x s' g'" by blast
    from L(2) [OF g1(2) g'(2)] Q [OF g'(2) g1(3)] g' show ?thesis by auto
  qed
  with a show ?case by auto
qed

lemma fits_init:
  assumes "FunctionWriter_init canon F dbg gw = Ok (fw, gw')" and "fits gw'"
  shows "fits gw"
proof -
  from assms(1) obtain n gw1 c v where
    s: "gw_symbol (GlobalObject (fn_object F))
       (gw\<lparr>has_active_function_writer := True, num_functions := num_functions gw + 1\<rparr>) = Ok (n, gw1)"
    and b: "sbom_strings (getSbomInfoOfFunction canon F gw1) gw1 = (c, v, gw')" by (rule FunctionWriter_init_ok)
  from gw_symbol_sizes [OF s] sbom_strings_sizes [OF b] blob_grows(2) [OF s] blob_grows(3) [OF b] assms(2)
  show ?thesis by (simp add: fits_def)
qed

text \<open>A global variable.\<close>

definition global_done :: "global_var \<Rightarrow> pass_state \<Rightarrow> ghost \<Rightarrow> bool" where
  "global_done G ps T \<longleftrightarrow>
     (has_edges G \<longrightarrow>
       (\<exists>gw w. map_of (GraphWriters ps) (go_comdat (gv_object G)) = Some gw \<and>
          w \<in> writtens (T (go_comdat (gv_object G))) \<and>
          initialized (the (gv_initializer G)) (gid (gv_object G)) gw w))"

lemma global_done_later: "pass_later ps T ps' T' \<Longrightarrow> global_done G ps T \<Longrightarrow> global_done G ps' T'"
  unfolding global_done_def pass_later_def comdat_later_def using initialized_grown by meson

lemma writtens_simps [simp]: "writtens (Some w, ws) = insert w (set ws)" "writtens (None, ws) = set ws"
  by (simp_all add: writtens_def)

lemma comdat_laterI:
  assumes "symbols_grown gw gw'" and "set (snd t) \<subseteq> set (snd t')"
    and "\<And>w. fst t = Some w \<Longrightarrow> \<exists>w'\<in>writtens t'. grown (symbols_in_order gw) w (symbols_in_order gw') w'"
  shows "comdat_later gw t gw' t'"
proof -
  have "grown (symbols_in_order gw) w (symbols_in_order gw') w" for w
    using assms(1) by (auto simp: symbols_grown_def grown_def)
  then show ?thesis using assms by (force simp: comdat_later_def writtens_def)
qed

lemma comdat_ok_simps [simp]:
  "comdat_ok canon srt dbg gw None (None, ws) = writer_run canon srt dbg gw None ws"
  "comdat_ok canon srt dbg gw (Some fw) (Some w, ws) = writer_run canon srt dbg gw (Some (fw, w)) ws"
  by (simp_all add: comdat_ok_def)

lemma comdat_ok_cases:
  assumes "comdat_ok canon srt dbg gw ofw t"
  obtains (closed) ws where "ofw = None" "t = (None, ws)" "writer_run canon srt dbg gw None ws"
  | (active) fw w ws where "ofw = Some fw" "t = (Some w, ws)" "writer_run canon srt dbg gw (Some (fw, w)) ws"
  using assms unfolding comdat_ok_def by (cases t; cases "fst t"; cases ofw) auto

text \<open>One comdat takes a step.\<close>

lemma comdat_step:
  assumes ok: "pass_ok canon srt dbg opn ps T" and gw: "map_of (GraphWriters ps) C = Some gw"
    and t: "comdat_ok canon srt dbg gw' (map_of opn' C) t" and later: "comdat_later gw (T C) gw' t"
    and opn: "distinct (map fst opn')" "fst ` set opn' \<subseteq> insert C (fst ` set opn)" "\<And>D. D \<noteq> C \<Longrightarrow> map_of opn' D = map_of opn D"
    and ps': "GraphWriters ps' = GraphWriters (put_writer C gw' ps)" "added_grown (ps_added ps) (ps_added ps')"
  shows "pass_ok canon srt dbg opn' ps' (T(C := t)) \<and> pass_later ps T ps' (T(C := t))"
proof
  have "pass_ok canon srt dbg opn' (put_writer C gw' ps) (T(C := t))"
    by (rule pass_ok_put [OF ok _ t opn]) (simp add: gw)
  then show "pass_ok canon srt dbg opn' ps' (T(C := t))" using pass_cong(1) [OF ps'(1)] by simp
  from pass_later_put [where T = T, OF gw later] ps' show "pass_later ps T ps' (T(C := t))"
    by (simp add: pass_later_def)
qed

lemma GlobalWriterForComdat_step:
  assumes "GlobalWriterForComdat env canon C ps = Ok (fw, ps')" and fit: "all_fit ps'"
  shows "all_fit ps \<and>
    (\<forall>T. pass_ok canon srt (\<not> NoIncludeDebugData env) (GlobalWriters ps) ps T \<longrightarrow>
      (\<exists>T'. pass_ok canon srt (\<not> NoIncludeDebugData env) (GlobalWriters ps') ps' T' \<and> pass_later ps T ps' T' \<and>
        map_of (GlobalWriters ps') C = Some fw))"
proof (cases "map_of (GlobalWriters ps) C")
  case (Some f)
  with assms show ?thesis using pass_later_refl by (auto simp: GlobalWriterForComdat_def)
next
  case None
  let ?a = "ps_added ps"
  let ?ps = "ps\<lparr>ps_added := ?a\<lparr>next_number := Suc (next_number ?a)\<rparr>\<rparr>"
  let ?F = "\<lparr>fn_object = new_object (next_number ?a), fn_file = None\<rparr>"
  let ?dbg = "\<not> NoIncludeDebugData env"
  obtain gw ps1 where 1: "GraphWriterForComdat env C ?ps = (gw, ps1)" by fastforce
  from assms(1) obtain gw' where 2: "FunctionWriter_init canon ?F ?dbg gw = Ok (fw, gw')"
    and "ps' = (put_writer C gw' ps1)\<lparr>GlobalWriters := GlobalWriters ps1 @ [(C, fw)]\<rparr>"
    by (auto simp: GlobalWriterForComdat_def None 1 ok_iff Let_def)
  note s = GraphWriterForComdat_step [OF 1]
  have ps': "ps' = (put_writer C gw' ps1)\<lparr>GlobalWriters := GlobalWriters ps @ [(C, fw)]\<rparr>"
    using \<open>ps' = _\<close> s(6) by simp
  have f: "all_fit (put_writer C gw' ps1)" using fit by (simp add: ps' all_fit_def)
  then have "fits gw'" by (rule all_fit_put [THEN conjunct1])
  have sz: "fits gw' \<Longrightarrow> fits gw" using 2 fits_init by blast
  have f1: "all_fit ps1" using all_fit_put [OF f] sz s(1) by auto
  then have f0: "all_fit ps" using s(2) by (simp add: all_fit_def)
  have "\<exists>T'. pass_ok canon srt ?dbg (GlobalWriters ps') ps' T' \<and> pass_later ps T ps' T'"
    if T: "pass_ok canon srt ?dbg (GlobalWriters ps) ps T" for T
  proof -
    have "pass_ok canon srt ?dbg (GlobalWriters ps) ?ps T" by (rule pass_cong(1) [THEN iffD2, OF _ T]) simp
    then have ok: "pass_ok canon srt ?dbg (GlobalWriters ps) ps1 T" by (rule s(3))
    have "comdat_ok canon srt ?dbg gw None (T C)" using pass_okD(2) [OF ok s(1)] None by simp
    then obtain ws where t: "T C = (None, ws)" and run: "writer_run canon srt ?dbg gw None ws"
      by (cases rule: comdat_ok_cases) auto
    note o = open_function [OF run 2 \<open>fits gw'\<close>]
    let ?t = "(Some (opened canon ?F gw fw), ws)"
    have gr: "symbols_grown gw gw'" using o(3) by (auto simp: symbols_grown_def)
    have "C \<notin> fst ` set (GlobalWriters ps)" using None by (simp only: map_of_eq_None_iff not_False_eq_True)
    then have d: "distinct (map fst (GlobalWriters ps'))" using pass_okD(4) [OF T] by (simp add: ps')
    have m: "map_of (GlobalWriters ps') = (map_of (GlobalWriters ps))(C \<mapsto> fw)"
      using None by (auto simp: ps' map_add_def fun_eq_iff split: option.split)
    have p: "pass_ok canon srt ?dbg (GlobalWriters ps') ps' (T(C := ?t)) \<and> pass_later ps1 T ps' (T(C := ?t))"
    proof (rule comdat_step [OF ok s(1), where gw' = gw'])
      show "comdat_later gw (T C) gw' ?t" by (rule comdat_laterI) (simp_all add: gr t)
    qed (use d m o(2) in \<open>auto simp: ps'\<close>)
    have "pass_later ps T ?ps T" by (rule later_cong) (simp_all add: added_grown_def)
    then have "pass_later ps T ps' (T(C := ?t))" using s(4) p pass_later_trans by blast
    with p show ?thesis by blast
  qed
  moreover have "map_of (GlobalWriters ps') C = Some fw" using None by (simp add: ps' map_add_def)
  ultimately show ?thesis using f0 by blast
qed

lemma visit_global_step:
  assumes "visit_global env canon G ps = Ok ps'" and fit: "all_fit ps'"
  shows "all_fit ps \<and>
    (\<forall>T. pass_ok canon srt (\<not> NoIncludeDebugData env) (GlobalWriters ps) ps T \<longrightarrow>
      (\<exists>T'. pass_ok canon srt (\<not> NoIncludeDebugData env) (GlobalWriters ps') ps' T' \<and> pass_later ps T ps' T' \<and>
        global_done G ps' T'))"
proof (cases "has_edges G")
  case False
  with assms have "ps' = ps" by (simp add: visit_global_def)
  with fit False show ?thesis using pass_later_refl by (auto simp: global_done_def)
next
  case True
  let ?C = "go_comdat (gv_object G)"
  let ?dbg = "\<not> NoIncludeDebugData env"
  let ?init = "the (gv_initializer G)"
  from assms(1) True obtain fw ps1 where 1: "GlobalWriterForComdat env canon ?C ps = Ok (fw, ps1)"
    and r: "(let (gw, ps) = GraphWriterForComdat env ?C ps1
           in try_r (write_initializer ?init (gv_object G) (fw, gw)) (\<lambda>(fw, gw).
                Ok ((put_writer ?C gw ps)\<lparr>GlobalWriters := AList.update ?C fw (GlobalWriters ps)\<rparr>))) = Ok ps'"
    by (auto simp: visit_global_def Let_def ok_iff)
  obtain gw ps2 where 2: "GraphWriterForComdat env ?C ps1 = (gw, ps2)" by fastforce
  from r obtain fw' gw' where 3: "write_initializer ?init (gv_object G) (fw, gw) = Ok (fw', gw')"
    and ps': "ps' = (put_writer ?C gw' ps2)\<lparr>GlobalWriters := AList.update ?C fw' (GlobalWriters ps2)\<rparr>"
    by (auto simp: 2 ok_iff)
  note s = GraphWriterForComdat_step [OF 2]
  have f: "all_fit (put_writer ?C gw' ps2)" using fit by (simp add: ps' all_fit_def)
  then have fg: "fits gw'" by (rule all_fit_put [THEN conjunct1])
  note w = write_initializer_run [OF 3 fg]
  have "all_fit ps2" using all_fit_put [OF f] w(1) s(1) by auto
  then have f1: "all_fit ps1" by (rule s(2))
  note a = GlobalWriterForComdat_step [OF 1 f1]
  have "\<exists>T'. pass_ok canon srt ?dbg (GlobalWriters ps') ps' T' \<and> pass_later ps T ps' T' \<and> global_done G ps' T'"
    if T: "pass_ok canon srt ?dbg (GlobalWriters ps) ps T" for T
  proof -
    from a T obtain T1 where T1: "pass_ok canon srt ?dbg (GlobalWriters ps1) ps1 T1" "pass_later ps T ps1 T1"
      and fw: "map_of (GlobalWriters ps1) ?C = Some fw" by blast
    note ok = s(3) [OF T1(1)]
    have "comdat_ok canon srt ?dbg gw (Some fw) (T1 ?C)" using pass_okD(2) [OF ok s(1)] fw by simp
    then obtain w ws where t: "T1 ?C = (Some w, ws)" and run: "writer_run canon srt ?dbg gw (Some (fw, w)) ws"
      by (cases rule: comdat_ok_cases) auto
    from w(2) [OF run] obtain w' where w': "writer_run canon srt ?dbg gw' (Some (fw', w')) ws"
      "grown (symbols_in_order gw) w (symbols_in_order gw') w'" "initialized ?init (gid (gv_object G)) gw' w'" by blast
    let ?t = "(Some w', ws)"
    have d: "distinct (map fst (GlobalWriters ps'))" using pass_okD(4) [OF T1(1)] by (simp add: ps' s(6) distinct_update)
    have m: "map_of (GlobalWriters ps') = (map_of (GlobalWriters ps1))(?C \<mapsto> fw')" by (simp add: ps' s(6) update_conv')
    have k: "fst ` set (GlobalWriters ps') \<subseteq> insert ?C (fst ` set (GlobalWriters ps1))"
      by (simp add: ps' s(6) dom_update)
    have gr: "symbols_grown gw gw'" using w'(2) by (auto simp: symbols_grown_def grown_def)
    have p: "pass_ok canon srt ?dbg (GlobalWriters ps') ps' (T1(?C := ?t)) \<and> pass_later ps2 T1 ps' (T1(?C := ?t))"
    proof (rule comdat_step [OF ok s(1), where gw' = gw'])
      show "comdat_later gw (T1 ?C) gw' ?t" by (rule comdat_laterI) (use gr w'(2) in \<open>auto simp: t\<close>)
    qed (use d m k w'(1) in \<open>auto simp: ps'\<close>)
    have "pass_later ps T ps' (T1(?C := ?t))" using T1(2) s(4) p pass_later_trans by blast
    moreover have "global_done G ps' (T1(?C := ?t))" using w'(3) by (auto simp: global_done_def ps')
    ultimately show ?thesis using p by blast
  qed
  with a show ?thesis by blast
qed

lemma finish_global_step:
  assumes "finish_global env srt (C, fw) ps = Ok ps'" and fit: "all_fit ps'"
  shows "all_fit ps \<and>
    (\<forall>T. pass_ok canon srt (\<not> NoIncludeDebugData env) ((C, fw) # opn) ps T \<longrightarrow>
      (\<exists>T'. pass_ok canon srt (\<not> NoIncludeDebugData env) opn ps' T' \<and> pass_later ps T ps' T'))"
proof -
  let ?dbg = "\<not> NoIncludeDebugData env"
  obtain gw ps1 where 1: "GraphWriterForComdat env C ps = (gw, ps1)" by fastforce
  from assms(1) obtain fw' gw' where 2: "finish srt 0 (fw, gw) = Ok (fw', gw')" and ps': "ps' = put_writer C gw' ps1"
    by (auto simp: finish_global_def 1 ok_iff)
  note s = GraphWriterForComdat_step [OF 1]
  have same: "symbols_in_order gw' = symbols_in_order gw" using finish_ok(4) [OF 2] by simp
  have "fits gw" using finish_fits [OF 2] all_fit_put fit by (auto simp: ps')
  then have "all_fit ps1" using all_fit_put fit s(1) by (auto simp: ps')
  then have f: "all_fit ps" by (rule s(2))
  have "\<exists>T'. pass_ok canon srt ?dbg opn ps' T' \<and> pass_later ps T ps' T'"
    if T: "pass_ok canon srt ?dbg ((C, fw) # opn) ps T" for T
  proof -
    note ok = s(3) [OF T]
    have "comdat_ok canon srt ?dbg gw (Some fw) (T C)" using pass_okD(2) [OF ok s(1)] by simp
    then obtain w ws where t: "T C = (Some w, ws)" and run: "writer_run canon srt ?dbg gw (Some (fw, w)) ws"
      by (cases rule: comdat_ok_cases) auto
    let ?t = "(None, ws @ [w\<lparr>w_allocas := 0\<rparr>])"
    have C: "map_of opn C = None" and d: "distinct (map fst opn)" using pass_okD(4) [OF T] by (auto simp: map_of_eq_None_iff)
    have "grown (symbols_in_order gw) w (symbols_in_order gw') (w\<lparr>w_allocas := 0\<rparr>)" by (simp add: grown_def same)
    then have later: "comdat_later gw (T C) gw' ?t"
      by (intro comdat_laterI) (auto simp: t same symbols_grown_def)
    have fin: "writer_run canon srt ?dbg gw' None (ws @ [w\<lparr>w_allocas := 0\<rparr>])" using run_finish [OF run _ 2] by simp
    have "pass_ok canon srt ?dbg opn ps' (T(C := ?t)) \<and> pass_later ps1 T ps' (T(C := ?t))"
      by (rule comdat_step [OF ok s(1), where gw' = gw']) (use C d later fin in \<open>auto simp: ps'\<close>)
    with s(4) pass_later_trans show ?thesis by blast
  qed
  with f show ?thesis by blast
qed

lemma finish_globals:
  "for_each (finish_global env srt) opn ps = Ok ps' \<Longrightarrow> all_fit ps' \<Longrightarrow> all_fit ps \<and>
    (\<forall>T. pass_ok canon srt (\<not> NoIncludeDebugData env) opn ps T \<longrightarrow>
      (\<exists>T'. pass_ok canon srt (\<not> NoIncludeDebugData env) [] ps' T' \<and> pass_later ps T ps' T'))"
proof (induction opn arbitrary: ps)
  case Nil
  then show ?case using pass_later_refl by auto
next
  case (Cons e opn)
  from Cons.prems(1) obtain ps1 where 1: "finish_global env srt e ps = Ok ps1"
    and 2: "for_each (finish_global env srt) opn ps1 = Ok ps'" by (auto simp: ok_iff)
  note IH = Cons.IH [OF 2 Cons.prems(2)]
  obtain C fw where e: "e = (C, fw)" by fastforce
  note a = finish_global_step [OF 1 [unfolded e] conjunct1 [OF IH], of canon opn]
  show ?case unfolding e using a IH pass_later_trans by meson
qed

text \<open>A function.\<close>

definition function_done :: "pass_env \<Rightarrow> pass_function \<Rightarrow> pass_state \<Rightarrow> ghost \<Rightarrow> bool" where
  "function_done env F ps T \<longleftrightarrow>
     (\<not> skipped F \<longrightarrow>
       (\<exists>gw w. map_of (GraphWriters ps) (go_comdat (fn_object (pf_function F))) = Some gw \<and>
          w \<in> set (snd (T (go_comdat (fn_object (pf_function F))))) \<and> function_graph env F gw (ps_added ps) w))"

lemma function_done_later: "pass_later ps T ps' T' \<Longrightarrow> function_done env F ps T \<Longrightarrow> function_done env F ps' T'"
  unfolding function_done_def pass_later_def comdat_later_def symbols_grown_def
  using function_graph_grown by (meson subsetD)

lemma edit_function_step:
  assumes "edit_function env canon srt F ps = Ok ps'" and fit: "all_fit ps'" and d: "distinct (map fst (pf_body F))"
  shows "all_fit ps \<and>
    (\<forall>T. pass_ok canon srt (\<not> NoIncludeDebugData env) [] ps T \<longrightarrow>
      (\<exists>T'. pass_ok canon srt (\<not> NoIncludeDebugData env) [] ps' T' \<and> pass_later ps T ps' T' \<and> function_done env F ps' T'))"
proof (cases "skipped F")
  case True
  with assms have "ps' = ps" by (simp add: edit_function_def)
  with fit True show ?thesis using pass_later_refl by (auto simp: function_done_def)
next
  case False
  let ?C = "go_comdat (fn_object (pf_function F))"
  let ?dbg = "\<not> NoIncludeDebugData env"
  obtain gw ps1 where 1: "GraphWriterForComdat env ?C ps = (gw, ps1)" by fastforce
  note s = GraphWriterForComdat_step [OF 1]
  from assms(1) False obtain s0 fw gw' a' where 2: "FunctionWriter_init canon (pf_function F) ?dbg gw = Ok s0"
    and 3: "run_visitor env srt F s0 (ps_added ps1) = Ok ((fw, gw'), a')"
    and ps': "ps' = (put_writer ?C gw' ps1)\<lparr>ps_added := a'\<rparr>"
    by (auto simp: edit_function_def 1 ok_iff Let_def)
  have f: "all_fit (put_writer ?C gw' ps1)" using fit by (simp add: ps' all_fit_def)
  then have fg: "fits gw'" by (rule all_fit_put [THEN conjunct1])
  obtain fw0 gw0 where s0: "s0 = (fw0, gw0)" by (cases s0)
  have wr: "open_writer (\<lambda>s w. fits (snd s) \<and> writer_run canon srt ?dbg (snd s) (Some (fst s, w)) [])"
    by (rule run.open_writer_axioms)
  have "fits gw0" using open_writer.run_visitor_covers(1) [OF wr 3 _ d] fg s0 by simp
  then have "fits gw" using fits_init 2 s0 by blast
  then have "all_fit ps1" using all_fit_put [OF f] s(1) by auto
  then have f0: "all_fit ps" by (rule s(2))
  have "\<exists>T'. pass_ok canon srt ?dbg [] ps' T' \<and> pass_later ps T ps' T' \<and> function_done env F ps' T'"
    if T: "pass_ok canon srt ?dbg [] ps T" for T
  proof -
    note ok = s(3) [OF T]
    have "comdat_ok canon srt ?dbg gw None (T ?C)" using pass_okD(2) [OF ok s(1)] by simp
    then obtain ws where t: "T ?C = (None, ws)" and run: "writer_run canon srt ?dbg gw None ws"
      by (cases rule: comdat_ok_cases) auto
    from run_visitor_run [OF run 2 3 fg d] obtain w where w: "writer_run canon srt ?dbg gw' None (ws @ [w])"
      "function_graph env F gw' a' w" "added_grown (ps_added ps1) a'" "symbols_grown gw gw'"
      by (auto simp: symbols_grown_def)
    let ?t = "(None, ws @ [w])"
    have later: "comdat_later gw (T ?C) gw' ?t" using w(4) by (intro comdat_laterI) (auto simp: t)
    have p: "pass_ok canon srt ?dbg [] ps' (T(?C := ?t)) \<and> pass_later ps1 T ps' (T(?C := ?t))"
      by (rule comdat_step [OF ok s(1), where gw' = gw']) (use later w(1,3) in \<open>auto simp: ps'\<close>)
    have "function_done env F ps' (T(?C := ?t))" using w(2) by (auto simp: function_done_def ps')
    with p s(4) pass_later_trans show ?thesis by blast
  qed
  with f0 show ?thesis by blast
qed

text \<open>There is one graph writer for each comdat.\<close>

lemma GraphWriterForComdat_keys:
  "distinct (map fst (GraphWriters ps)) \<Longrightarrow> distinct (map fst (GraphWriters (snd (GraphWriterForComdat env C ps))))"
  by (auto simp: GraphWriterForComdat_def Let_def map_of_eq_None_iff split: option.splits)

lemma put_keys: "distinct (map fst (GraphWriters ps)) \<Longrightarrow> distinct (map fst (GraphWriters (put_writer C gw ps)))"
  by (simp add: put_writer_def distinct_update)

lemma GlobalWriterForComdat_keys:
  "GlobalWriterForComdat env canon C ps = Ok (fw, ps') \<Longrightarrow> distinct (map fst (GraphWriters ps)) \<Longrightarrow>
     distinct (map fst (GraphWriters ps'))"
  by (auto simp: GlobalWriterForComdat_def Let_def ok_iff case_prod_beta
      intro!: put_keys GraphWriterForComdat_keys split: option.splits)

lemma step_keys:
  "visit_global env canon G ps = Ok ps' \<Longrightarrow> distinct (map fst (GraphWriters ps)) \<Longrightarrow> distinct (map fst (GraphWriters ps'))"
  "finish_global env srt e ps = Ok ps' \<Longrightarrow> distinct (map fst (GraphWriters ps)) \<Longrightarrow> distinct (map fst (GraphWriters ps'))"
  "edit_function env canon srt F ps = Ok ps' \<Longrightarrow> distinct (map fst (GraphWriters ps)) \<Longrightarrow> distinct (map fst (GraphWriters ps'))"
  by (auto simp: visit_global_def finish_global_def edit_function_def Let_def ok_iff case_prod_beta
      intro!: put_keys GraphWriterForComdat_keys dest: GlobalWriterForComdat_keys split: if_splits)

lemma for_each_keep:
  "for_each f xs s = Ok s' \<Longrightarrow> (\<And>x s s'. f x s = Ok s' \<Longrightarrow> P s \<Longrightarrow> P s') \<Longrightarrow> P s \<Longrightarrow> P s'"
  by (induction xs arbitrary: s) (auto simp: ok_iff)

lemma keys_distinct:
  assumes "for_each (visit_global env canon) Gs \<lparr>GraphWriters = [], GlobalWriters = [], ps_added = a\<rparr> = Ok ps1"
    and "for_each (finish_global env srt) es ps1 = Ok ps2" and "for_each (edit_function env canon srt) Fs ps2 = Ok ps3"
  shows "distinct (map fst (GraphWriters ps3))"
proof -
  let ?P = "\<lambda>ps. distinct (map fst (GraphWriters ps))"
  have "?P ps1" by (rule for_each_keep [where P = ?P, OF assms(1)]) (use step_keys in auto)
  then have "?P ps2" by (rule for_each_keep [where P = ?P, OF assms(2), rotated]) (rule step_keys)
  then show ?thesis by (rule for_each_keep [where P = ?P, OF assms(3), rotated]) (rule step_keys)
qed

subsection \<open>The pass\<close>

lemma write_all:
  "for_each (\<lambda>(C, gw) ms. try_r (writeTo c gw) (\<lambda>m. Ok (ms @ [m]))) gws acc = Ok ms \<Longrightarrow>
     \<exists>new. ms = acc @ new \<and> list_all2 (\<lambda>(C, gw) m. writeTo c gw = Ok m) gws new"
proof (induction gws arbitrary: acc)
  case (Cons e gws)
  obtain C gw where e: "e = (C, gw)" by fastforce
  with Cons.prems obtain m where m: "writeTo c gw = Ok m"
    and "for_each (\<lambda>(C, gw) ms. try_r (writeTo c gw) (\<lambda>m. Ok (ms @ [m]))) gws (acc @ [m]) = Ok ms"
    by (auto simp: ok_iff)
  from Cons.IH [OF this(2)] obtain new where "ms = acc @ m # new" "list_all2 (\<lambda>(C, gw) m. writeTo c gw = Ok m) gws new"
    by auto
  with m show ?case by (intro exI [of _ "m # new"]) (simp add: e)
qed simp

lemma visit_globals:
  assumes "for_each (visit_global env canon) Gs ps = Ok ps'" and "all_fit ps'"
  shows "all_fit ps \<and>
    (\<forall>T. pass_ok canon srt (\<not> NoIncludeDebugData env) (GlobalWriters ps) ps T \<longrightarrow>
      (\<exists>T'. pass_ok canon srt (\<not> NoIncludeDebugData env) (GlobalWriters ps') ps' T' \<and> pass_later ps T ps' T' \<and>
        (\<forall>G\<in>set Gs. global_done G ps' T')))"
  by (rule for_each_ghost [where L = pass_later and Q = global_done and
        I = "\<lambda>ps. pass_ok canon srt (\<not> NoIncludeDebugData env) (GlobalWriters ps) ps",
      OF visit_global_step pass_later_refl pass_later_trans global_done_later assms])

lemma edit_functions:
  assumes "for_each (edit_function env canon srt) Fs ps = Ok ps'" and "all_fit ps'"
    and "\<And>F. F \<in> set Fs \<Longrightarrow> distinct (map fst (pf_body F))"
  shows "all_fit ps \<and>
    (\<forall>T. pass_ok canon srt (\<not> NoIncludeDebugData env) [] ps T \<longrightarrow>
      (\<exists>T'. pass_ok canon srt (\<not> NoIncludeDebugData env) [] ps' T' \<and> pass_later ps T ps' T' \<and>
        (\<forall>F\<in>set Fs. function_done env F ps' T')))"
  by (rule for_each_ghost [where L = pass_later and Q = "function_done env" and
        I = "pass_ok canon srt (\<not> NoIncludeDebugData env) []",
      OF edit_function_step pass_later_refl pass_later_trans function_done_later assms(1,2)])
    (use assms(3) in blast)+

text \<open>
  What is written for a module: for each comdat, the output of a finished run of its graph writer. Each
  function that is not skipped has its graph in the run of its comdat, and so has each initializer.
\<close>

definition module_graphs ::
  "pass_env \<Rightarrow> (string \<Rightarrow> string \<Rightarrow> string) \<Rightarrow> sorter \<Rightarrow> ir_module \<Rightarrow> additions
     \<Rightarrow> (comdat option \<rightharpoonup> graph_writer \<times> written list) \<Rightarrow> bool" where
  "module_graphs env canon srt M a gs \<longleftrightarrow>
     (\<forall>C gw ws. gs C = Some (gw, ws) \<longrightarrow> writer_run canon srt (\<not> NoIncludeDebugData env) gw None ws) \<and>
     (\<forall>F\<in>set (m_functions M). \<not> skipped F \<longrightarrow>
        (\<exists>gw ws. gs (go_comdat (fn_object (pf_function F))) = Some (gw, ws) \<and> (\<exists>w\<in>set ws. function_graph env F gw a w))) \<and>
     (\<forall>G\<in>set (m_globals M). has_edges G \<longrightarrow>
        (\<exists>gw ws. gs (go_comdat (gv_object G)) = Some (gw, ws) \<and>
           (\<exists>w\<in>set ws. initialized (the (gv_initializer G)) (gid (gv_object G)) gw w)))"

text \<open>The table of components does not matter for what a function has to get.\<close>

lemma function_graph_table: "function_graph (env\<lparr>SbomMap := mp\<rparr>) = function_graph env"
proof -
  let ?env = "env\<lparr>SbomMap := mp\<rparr>"
  have size: "store_size ?env t = store_size env t" for t by (cases t) simp_all
  have tr: "traced ?env = traced env" by (intro ext) (simp add: traced_def trace_item_def size)
  have st: "stores_flow ?env = stores_flow env" by (intro ext) (simp add: stores_flow_def store_traced_def tr)
  have dl: "calls_dlsym ?env = calls_dlsym env" by (intro ext) (simp add: calls_dlsym_def split: option.split)
  have pc: "plain_call ?env = plain_call env"
    by (intro ext) (simp add: plain_call_def labelled_def call_traced_def tr dl)
  have cc: "call_covered ?env = call_covered env"
    by (intro ext) (simp add: call_covered_def is_trace_call_def pc cong: intrinsic.case_cong)
  have "instr_covered ?env = instr_covered env" by (intro ext) (simp add: instr_covered_def st cc cong: opcode.case_cong)
  moreover have "alloca_traced ?env = alloca_traced env"
    by (intro ext) (simp add: alloca_traced_def split: prod.split opcode.split)
  ultimately have "function_covered ?env = function_covered env"
    by (intro ext) (simp add: function_covered_def freed_allocas_def)
  then show ?thesis by (simp add: function_graph_def [abs_def])
qed

lemma module_graphs_table: "module_graphs (env\<lparr>SbomMap := mp\<rparr>) = module_graphs env"
  by (simp add: module_graphs_def function_graph_table fun_eq_iff)

lemma pass_graphs:
  assumes r: "runBraceletReachability env canon srt c n M = Ok (Some (a, ms))"
    and d: "\<And>F. F \<in> set (m_functions M) \<Longrightarrow> distinct (map fst (pf_body F))"
  shows "\<exists>gws. distinct (map fst gws) \<and> list_all2 (\<lambda>(C, gw) m. writeTo c gw = Ok m) gws ms \<and>
    ((\<forall>(C, gw)\<in>set gws. fits gw) \<longrightarrow>
      (\<exists>gs. (\<forall>C. map_option fst (gs C) = map_of gws C) \<and> module_graphs env canon srt M a gs))"
proof -
  let ?a = "\<lparr>next_number = n, new_globals = [], inserted = [], call_labels = []\<rparr>"
  let ?ps = "\<lparr>GraphWriters = [], GlobalWriters = [], ps_added = ?a\<rparr>"
  let ?dbg = "\<not> NoIncludeDebugData env"
  from r obtain mp ps1 ps2 ps3 where 1: "for_each (visit_global (env\<lparr>SbomMap := mp\<rparr>) canon) (m_globals M) ?ps = Ok ps1"
    and 2: "for_each (finish_global (env\<lparr>SbomMap := mp\<rparr>) srt) (GlobalWriters ps1) ps1 = Ok ps2"
    and 3: "for_each (edit_function (env\<lparr>SbomMap := mp\<rparr>) canon srt) (m_functions M) ps2 = Ok ps3"
    and 4: "for_each (\<lambda>(C, gw) ms. try_r (writeTo c gw) (\<lambda>m. Ok (ms @ [m]))) (GraphWriters ps3) [] = Ok ms"
    and a: "a = ps_added ps3"
    by (auto simp: runBraceletReachability_def ok_iff Let_def split: if_splits)
  let ?env = "env\<lparr>SbomMap := mp\<rparr>"
  have keys: "distinct (map fst (GraphWriters ps3))" using keys_distinct [OF 1 2 3] .
  have "\<exists>gs. (\<forall>C. map_option fst (gs C) = map_of (GraphWriters ps3) C) \<and> module_graphs env canon srt M a gs"
    if fits: "\<forall>(C, gw)\<in>set (GraphWriters ps3). fits gw"
  proof -
    have "all_fit ps3" using fits by (auto simp: all_fit_def dest!: map_of_SomeD)
    note c = edit_functions [where canon = canon, OF 3 this d]
    note b = finish_globals [where canon = canon, OF 2 conjunct1 [OF c]]
    note a' = visit_globals [where srt = srt, OF 1 conjunct1 [OF b]]
    have "pass_ok canon srt ?dbg [] ?ps (\<lambda>_. (None, []))" by (simp add: pass_ok_def)
    with a' [simplified] obtain T1 where T1: "pass_ok canon srt ?dbg (GlobalWriters ps1) ps1 T1" "\<forall>G\<in>set (m_globals M). global_done G ps1 T1"
      by auto
    with b [simplified] obtain T2 where T2: "pass_ok canon srt ?dbg [] ps2 T2" "pass_later ps1 T1 ps2 T2" by blast
    with c [simplified] obtain T3 where T3: "pass_ok canon srt ?dbg [] ps3 T3" "pass_later ps2 T2 ps3 T3"
      "\<forall>F\<in>set (m_functions M). function_done ?env F ps3 T3" by blast
    have G: "\<forall>G\<in>set (m_globals M). global_done G ps3 T3"
      using T1(2) global_done_later pass_later_trans [OF T2(2) T3(2)] by blast
    have T: "writer_run canon srt ?dbg gw None (snd (T3 C)) \<and> writtens (T3 C) = set (snd (T3 C))"
      if "map_of (GraphWriters ps3) C = Some gw" for C gw
      using pass_okD(2) [OF T3(1) that] by (cases rule: comdat_ok_cases) auto
    let ?gs = "\<lambda>C. map_option (\<lambda>gw. (gw, snd (T3 C))) (map_of (GraphWriters ps3) C)"
    have "module_graphs ?env canon srt M a ?gs"
      unfolding module_graphs_def
    proof (intro conjI allI ballI impI)
      fix F
      assume "F \<in> set (m_functions M)" "\<not> skipped F"
      with T3(3) show "\<exists>gw ws. ?gs (go_comdat (fn_object (pf_function F))) = Some (gw, ws) \<and>
          (\<exists>w\<in>set ws. function_graph ?env F gw a w)" by (fastforce simp: function_done_def a)
    next
      fix X
      assume "X \<in> set (m_globals M)" "has_edges X"
      with G T show "\<exists>gw ws. ?gs (go_comdat (gv_object X)) = Some (gw, ws) \<and>
          (\<exists>w\<in>set ws. initialized (the (gv_initializer X)) (gid (gv_object X)) gw w)" by (fastforce simp: global_done_def)
    qed (use T in auto)
    then have "module_graphs env canon srt M a ?gs" by (simp only: module_graphs_table)
    moreover have "\<forall>C. map_option fst (?gs C) = map_of (GraphWriters ps3) C" by (simp add: option.map_comp comp_def option.map_ident)
    ultimately show ?thesis by (intro exI [of _ ?gs]) blast
  qed
  with keys write_all [OF 4] show ?thesis by auto
qed

end
