(* ===== verification/Graph_Reader.thy ===== *)
theory Graph_Reader
  imports Graph_Writer Object_Api
begin

text \<open>
  \<open>src/Edges/Reader.h\<close> and \<open>src/Edges/Reader.cpp\<close>: the debug data of a graph
  (\<open>GraphDebugData\<close>), the cursor over one object file's function stream (\<open>Frame\<close>), the
  scanner that cuts a section into graphs (\<open>FrameDecoder\<close>), and \<open>readEdges\<close>, which
  calls back once per function. The buffers a decoder keeps between graphs are in its state where
  their old content can be seen again; log output is left out.
\<close>

section \<open>Debug data\<close>

record graph_debug_data =
  gdd_string_blob :: string
  gdd_local_indices :: "u32 list option"
  gdd_string_offsets :: "u32 list"

text \<open>A C string: the characters before the first NUL.\<close>

definition c_string :: "string \<Rightarrow> string" where
  "c_string s = takeWhile (\<lambda>c. c \<noteq> nul) s"

definition gdd_string :: "graph_debug_data \<Rightarrow> nat \<Rightarrow> string result" where
  "gdd_string d string_idx =
     ensure (string_idx < length (gdd_string_offsets d))
       (''string index '' @ show_dec string_idx @ '' is out of bounds'')
       (Ok (c_string (drop (unat (gdd_string_offsets d ! string_idx)) (gdd_string_blob d))))"

definition has_locals :: "graph_debug_data \<Rightarrow> bool" where
  "has_locals d \<longleftrightarrow> gdd_local_indices d \<noteq> None"

text \<open>\<open>local_name\<close> dereferences \<open>local_indices\<close>, which must be present.\<close>

definition local_name :: "graph_debug_data \<Rightarrow> nat \<Rightarrow> string result" where
  "local_name d idx =
     (case gdd_local_indices d of
        None \<Rightarrow> Abort
      | Some is \<Rightarrow>
          ensure (idx < length is) (''local idx '' @ show_dec idx @ '' is out of bounds'')
            (gdd_string d (unat (is ! idx))))"

definition debug_data_split_at ::
  "graph_debug_data \<Rightarrow> nat \<Rightarrow> (graph_debug_data \<times> graph_debug_data) result" where
  "debug_data_split_at gdd pos =
     (case gdd_local_indices gdd of
        None \<Rightarrow> Abort
      | Some is \<Rightarrow>
          ensure (pos \<le> length is) (''Local index '' @ show_dec pos @ '' is out of range'')
            (Ok (gdd\<lparr>gdd_local_indices := Some (take pos is)\<rparr>,
                 gdd\<lparr>gdd_local_indices := Some (drop pos is)\<rparr>)))"

fun find_char :: "char \<Rightarrow> string \<Rightarrow> nat option" where
  "find_char c [] = None"
| "find_char c (x # xs) = (if x = c then Some 0 else map_option Suc (find_char c xs))"

text \<open>The loop that collects where each string of the blob starts.\<close>

function string_offsets_from :: "string \<Rightarrow> nat \<Rightarrow> u32 list result" where
  "string_offsets_from blob offset =
     (if offset < length blob then
        (case find_char nul (drop offset blob) of
           None \<Rightarrow> Err (new_error (''string_blob doesn't end with '' @ [nul]))
         | Some j \<Rightarrow>
             try_r (string_offsets_from blob (offset + j + 1)) (\<lambda>os. Ok (of_nat offset # os)))
      else Ok [])"
  by pat_completeness auto
termination
  by (relation "measure (\<lambda>(blob, offset). length blob - offset)") auto

declare string_offsets_from.simps [simp del]

definition string_offsets_of :: "string \<Rightarrow> u32 list result" where
  "string_offsets_of blob =
     (if blob = [] then Ok []
      else try_r (string_offsets_from blob 0) (\<lambda>os.
             ensure (last blob = nul) (''string_blob doesn't end with '' @ [nul]) (Ok os)))"

definition resize :: "nat \<Rightarrow> bytes \<Rightarrow> bytes" where
  "resize n b = take n b @ replicate (n - length b) 0"

text \<open>
  \<open>GraphDebugDataParser::parse_debug_data\<close>. \<open>buf\<close> is \<open>decompressed_debug_data\<close>, which
  survives from the previous graph: decompression overwrites a prefix, the rest is old content.
\<close>

definition parse_debug_data ::
  "codec \<Rightarrow> ('w, 'm) object_api_scheme \<Rightarrow> graph_header \<Rightarrow> u64 \<Rightarrow> bytes \<Rightarrow> 'w
     \<Rightarrow> (graph_debug_data \<times> bytes \<times> 'w) result" where
  "parse_debug_data c api header debug_data_address buf w =
     assert_r (debug_data_address \<noteq> 0)
     (try_ctx (''Reading debug data at address '' @ show_hex (unat debug_data_address))
        (copyData api (unat (debug_data_compressed_size header)) debug_data_address w)
        (\<lambda>(compressed, w).
      case zstd_content_size c compressed of
        None \<Rightarrow> Err (new_error ''Unable to get zstd size for debug data'')
      | Some debug_data_size \<Rightarrow>
        let cap = debug_data_size + svb_padding c in
        (case zstd_decompress c cap compressed of
           None \<Rightarrow> Err (new_error ''ZSTD decompression failed, debug data'')
         | Some d \<Rightarrow>
           assert_r (length d = debug_data_size)
           (let full = d @ drop (length d) (resize cap buf) in
            ensure (unat (string_blob_length header) \<le> length full)
              ''string blob length too large''
            (let string_blob = map char_of_byte (take (unat (string_blob_length header)) full);
                 encoded = drop (unat (string_blob_length header)) full;
                 encoded_len = of_nat (length encoded) - of_nat (svb_padding c) :: u64;
                 n = unat (total_num_locals header) in
             try_r
               (if has_debug_locals header \<noteq> 0
                then ensure (svb_validate c encoded encoded_len n)
                       (''Failed to validate debug data local index stream ('' @ show_dec n @
                        '' locals encoded into '' @ show_dec (unat encoded_len) @ '' bytes)'')
                       (Ok (Some (svb_delta_decode c encoded n)))
                else Ok None)
               (\<lambda>string_indices.
                  try_r (string_offsets_of string_blob) (\<lambda>offsets.
                    Ok (\<lparr>gdd_string_blob = string_blob, gdd_local_indices = string_indices,
                         gdd_string_offsets = offsets\<rparr>, full, w))))))))"

section \<open>Frames\<close>

record frame =
  fr_header :: graph_header
  fr_function_data :: "u32 list"
  fr_symbol_addresses :: "u64 list"
  fr_debug_data :: graph_debug_data

definition symbol_address :: "u64 list \<Rightarrow> nat \<Rightarrow> u64 result" where
  "symbol_address addrs idx =
     ensure (idx < length addrs) ''symbol address is out of bounds'' (Ok (addrs ! idx))"

definition decode_node :: "u64 list \<Rightarrow> u32 \<Rightarrow> u64 \<Rightarrow> node result" where
  "decode_node addrs number function_address =
     (if number AND 1 \<noteq> 0
      then try_r (symbol_address addrs (unat (drop_bit 1 number))) node_symbol
      else node_local function_address (ucast (drop_bit 1 number)))"

definition next_words :: "nat \<Rightarrow> frame \<Rightarrow> (u32 list \<times> frame) result" where
  "next_words cnt fr =
     ensure (cnt \<le> length (fr_function_data fr))
       (''unexpected end of function data. Expected at least '' @ show_dec cnt @ '' more'')
       (Ok (take cnt (fr_function_data fr),
            fr\<lparr>fr_function_data := drop cnt (fr_function_data fr)\<rparr>))"

definition next_word :: "frame \<Rightarrow> (u32 \<times> frame) result" where
  "next_word fr = try_r (next_words 1 fr) (\<lambda>(out, fr). Ok (hd out, fr))"

definition next_locals :: "u32 \<Rightarrow> frame \<Rightarrow> (graph_debug_data \<times> frame) result" where
  "next_locals n fr =
     (if \<not> has_locals (fr_debug_data fr) then Ok (fr_debug_data fr, fr)
      else try_r (debug_data_split_at (fr_debug_data fr) (unat n)) (\<lambda>(out, state).
             Ok (out, fr\<lparr>fr_debug_data := state\<rparr>)))"

section \<open>Functions and their edges\<close>

record function_info =
  fi_function :: node
  fi_num_allocas :: u32
  fi_num_locals :: u32
  fi_debug_data :: graph_debug_data
  fi_sbom_info :: "sbom_information option"
  fi_edge_data :: "edge_kind \<Rightarrow> u32 list"
  fi_symbol_addresses :: "u64 list"

text \<open>
  \<open>visitEdgesInner\<close>: \<open>prev\<close> runs through both components. An edge array always holds
  whole edges; reading past its end would trip the span's assertion.
\<close>

fun visit_words ::
  "u64 list \<Rightarrow> u64 \<Rightarrow> edge_kind \<Rightarrow> (edge \<Rightarrow> 'w \<Rightarrow> 'w result) \<Rightarrow> u32 \<Rightarrow> u32 list \<Rightarrow> 'w \<Rightarrow> 'w result"
  where
  "visit_words addrs this k cb prev [] w = Ok w"
| "visit_words addrs this k cb prev [x] w = Abort"
| "visit_words addrs this k cb prev (x # y # rest) w =
     (let to_number = prev + zigzag_decode x;
          from_number = to_number + zigzag_decode y
      in try_r (decode_node addrs to_number this) (\<lambda>t.
         try_r (decode_node addrs from_number this) (\<lambda>f.
           if indexed k
           then (case rest of
                   [] \<Rightarrow> Abort
                 | z # rest' \<Rightarrow>
                     try_r (mk_edge k t f z) (\<lambda>e.
                     try_r (cb e w) (visit_words addrs this k cb from_number rest')))
           else try_r (mk_edge k t f 0) (\<lambda>e.
                try_r (cb e w) (visit_words addrs this k cb from_number rest)))))"

definition visitEdges ::
  "function_info \<Rightarrow> edge_kind \<Rightarrow> (edge \<Rightarrow> 'w \<Rightarrow> 'w result) \<Rightarrow> 'w \<Rightarrow> 'w result" where
  "visitEdges fi k cb w =
     (if fi_edge_data fi k = [] then Ok w
      else try_r (node_symbol_of (fi_function fi)) (\<lambda>this.
             visit_words (fi_symbol_addresses fi) this k cb 0 (fi_edge_data fi k) w))"

definition visitAllEdges ::
  "function_info \<Rightarrow> (edge \<Rightarrow> 'w \<Rightarrow> 'w result) \<Rightarrow> 'w \<Rightarrow> 'w result" where
  "visitAllEdges fi cb = visit_tuple (\<lambda>k. visitEdges fi k cb)"

definition read_edge_kind ::
  "edge_kind \<Rightarrow> (edge_kind \<Rightarrow> u32 list) \<times> frame \<Rightarrow> ((edge_kind \<Rightarrow> u32 list) \<times> frame) result"
  where
  "read_edge_kind k s =
     (let (ed, fr) = s
      in try_r (next_word fr) (\<lambda>(edge_count, fr).
         try_r (next_words (num_components k * unat edge_count) fr) (\<lambda>(data, fr).
           Ok (ed(k := data), fr))))"

definition sbom_of_strings :: "string \<Rightarrow> string \<Rightarrow> sbom_information option" where
  "sbom_of_strings s v =
     (if s \<noteq> [] \<and> v \<noteq> [] then Some \<lparr>ComponentName = s, Version = v\<rparr> else None)"

text \<open>One iteration of the loop over the functions of a frame, up to the callback.\<close>

definition read_function :: "frame \<Rightarrow> (function_info \<times> frame) result" where
  "read_function fr =
     try_r (next_word fr) (\<lambda>(function_symbol_index, fr).
     try_r (next_word fr) (\<lambda>(component_string_index, fr).
     try_r (next_word fr) (\<lambda>(version_string_index, fr).
     try_r (symbol_address (fr_symbol_addresses fr) (unat function_symbol_index))
       (\<lambda>function_address.
     try_r (next_word fr) (\<lambda>(n_locals, fr).
     try_r (next_word fr) (\<lambda>(n_allocas, fr).
     ensure (n_allocas \<le> n_locals)
       (''num_allocas ('' @ show_dec (unat n_allocas) @ '') <= num_locals ('' @
        show_dec (unat n_locals) @ '')'')
     (try_r (next_locals n_locals fr) (\<lambda>(debug_data, fr).
      try_r (node_symbol function_address) (\<lambda>function.
      try_r (gdd_string debug_data (unat component_string_index)) (\<lambda>sComp.
      try_r (gdd_string debug_data (unat version_string_index)) (\<lambda>vComp.
      try_r (visit_tuple read_edge_kind (\<lambda>_. [], fr)) (\<lambda>(edge_data, fr).
        Ok (\<lparr>fi_function = function, fi_num_allocas = n_allocas, fi_num_locals = n_locals,
             fi_debug_data = debug_data, fi_sbom_info = sbom_of_strings sComp vComp,
             fi_edge_data = edge_data, fi_symbol_addresses = fr_symbol_addresses fr\<rparr>,
            fr)))))))))))))"

fun read_functions ::
  "(function_info \<Rightarrow> 'w \<Rightarrow> 'w result) \<Rightarrow> nat \<Rightarrow> frame \<Rightarrow> 'w \<Rightarrow> 'w result" where
  "read_functions callback 0 fr w = Ok w"
| "read_functions callback (Suc n) fr w =
     try_r (read_function fr) (\<lambda>(cfi, fr).
     try_r (callback cfi w) (read_functions callback n fr))"

section \<open>Sections\<close>

record frame_decoder =
  full_section_data :: bytes
  section_data_cursor :: nat
  section_start :: u64
  decompressed_debug_data :: bytes

definition consumeBytes ::
  "nat \<Rightarrow> string \<Rightarrow> frame_decoder \<Rightarrow> (bytes \<times> frame_decoder) result" where
  "consumeBytes num_bytes what d =
     ensure (section_data_cursor d + num_bytes \<le> length (full_section_data d))
       (''Buffer has only '' @ show_dec (length (full_section_data d) - section_data_cursor d) @
        '' bytes. '' @ show_dec num_bytes @ '' expected. (Reading '' @ what @ '')'')
       (Ok (take num_bytes (drop (section_data_cursor d) (full_section_data d)),
            d\<lparr>section_data_cursor := section_data_cursor d + num_bytes\<rparr>))"

definition consumeAddresses ::
  "('w, 'm) object_api_scheme \<Rightarrow> nat \<Rightarrow> string \<Rightarrow> frame_decoder \<Rightarrow> 'w
     \<Rightarrow> (u64 list \<times> frame_decoder \<times> 'w) result" where
  "consumeAddresses api cnt what d w =
     (let addr = section_start d + of_nat (section_data_cursor d)
      in try_r (consumeBytes (cnt * pointerSize) what d) (\<lambda>(_, d).
         try_ctx (''Reading addresses for '' @ what) (resolvePointers api cnt addr w)
           (\<lambda>(dst, w). Ok (dst, d, w))))"

text \<open>Decompression and decoding of the function stream, in the middle of \<open>consumeOneGraph\<close>.\<close>

definition decode_function_data :: "codec \<Rightarrow> graph_header \<Rightarrow> bytes \<Rightarrow> u32 list result" where
  "decode_function_data c header compressed =
     (case zstd_content_size c compressed of
        None \<Rightarrow> Err (new_error ''Unable to get zstd size for function data'')
      | Some function_data_size \<Rightarrow>
        (case zstd_decompress c function_data_size compressed of
           None \<Rightarrow> Err (new_error ''ZSTD decompression failed, function data'')
         | Some fd \<Rightarrow>
           assert_r (length fd = function_data_size)
           (let n = unat (function_array_length header) in
            ensure (svb_validate c fd (of_nat function_data_size) n)
              ''Invalid streamvbyte function data''
              (Ok (svb_decode c fd n)))))"

definition consumeOneGraph ::
  "codec \<Rightarrow> ('w, 'm) object_api_scheme \<Rightarrow> frame_decoder \<Rightarrow> 'w
     \<Rightarrow> (frame \<times> frame_decoder \<times> 'w) result" where
  "consumeOneGraph c api d w =
     try_r (consumeBytes header_size ''graph header'' d) (\<lambda>(hb, d).
     let header = header_of_bytes hb in
     assert_r (magic_number header = GRAPH_MAGIC_NUMBER)
     (try_r (consumeAddresses api 1 ''debug data address'' d w) (\<lambda>(dda, d, w).
      try_r (consumeAddresses api (unat (num_symbols header)) ''symbol addresses'' d w)
        (\<lambda>(addrs, d, w).
      try_r (consumeBytes (unat (function_data_compressed_size header))
               ''compressed function data'' d) (\<lambda>(compressed, d).
      try_r (decode_function_data c header compressed) (\<lambda>fd.
      try_r (parse_debug_data c api header (hd dda) (decompressed_debug_data d) w)
        (\<lambda>(dd, buf, w).
           Ok (\<lparr>fr_header = header, fr_function_data = fd,
                fr_symbol_addresses = addrs, fr_debug_data = dd\<rparr>,
               d\<lparr>decompressed_debug_data := buf\<rparr>, w))))))))"

text \<open>\<open>std::string::find\<close> of a pattern: the first position where it occurs.\<close>

fun find_from :: "'a list \<Rightarrow> 'a list \<Rightarrow> nat option" where
  "find_from pat [] = (if pat = [] then Some 0 else None)"
| "find_from pat (x # xs) =
     (if take (length pat) (x # xs) = pat then Some 0 else map_option Suc (find_from pat xs))"

lemma consumeBytes_ok [ok_iff]:
  "consumeBytes n what d = Ok (bs, d') \<longleftrightarrow>
     section_data_cursor d + n \<le> length (full_section_data d) \<and>
     bs = take n (drop (section_data_cursor d) (full_section_data d)) \<and>
     d' = d\<lparr>section_data_cursor := section_data_cursor d + n\<rparr>"
  by (auto simp: consumeBytes_def ok_iff)

lemma consumeAddresses_ok [ok_iff]:
  "consumeAddresses api n what d w = Ok (ps, d', w') \<longleftrightarrow>
     section_data_cursor d + n * pointerSize \<le> length (full_section_data d) \<and>
     d' = d\<lparr>section_data_cursor := section_data_cursor d + n * pointerSize\<rparr> \<and>
     resolvePointers api n (section_start d + of_nat (section_data_cursor d)) w = Ok (ps, w')"
  by (auto simp: consumeAddresses_def ok_iff)

text \<open>Every graph consumes at least its header, so the scanner terminates.\<close>

lemma consumeOneGraph_cursor:
  assumes "consumeOneGraph c api d w = Ok (fr, d', w')"
  shows "full_section_data d' = full_section_data d \<and>
    section_data_cursor d + header_size \<le> section_data_cursor d' \<and>
    section_data_cursor d' \<le> length (full_section_data d)"
  using assms
  by (auto simp: consumeOneGraph_def ok_iff Let_def split: option.splits)

function run_graphs ::
  "codec \<Rightarrow> ('w, 'm) object_api_scheme \<Rightarrow> (frame \<Rightarrow> 'w \<Rightarrow> 'w result) \<Rightarrow> frame_decoder \<Rightarrow> 'w
     \<Rightarrow> (frame_decoder \<times> 'w) result" where
  "run_graphs c api cb d w =
     (if section_data_cursor d < length (full_section_data d) then
        (case find_from magic_bytes (drop (section_data_cursor d) (full_section_data d)) of
           None \<Rightarrow> Ok (d, w)
         | Some j \<Rightarrow>
             try_r
               (consumeOneGraph c api
                  (d\<lparr>section_data_cursor := section_data_cursor d + j\<rparr>) w)
               (\<lambda>(fr, d', w1). try_r (cb fr w1) (\<lambda>w2. run_graphs c api cb d' w2)))
      else Ok (d, w))"
  by pat_completeness auto
termination
proof (relation "measure (\<lambda>(c, api, cb, d, w).
         length (full_section_data d) - section_data_cursor d)", goal_cases)
  case 1
  show ?case by simp
next
  case (2 c api cb d w j x fr d'' d' w1 w2)
  then show ?case
    by (auto simp: header_size_def dest!: consumeOneGraph_cursor)
qed

declare run_graphs.simps [simp del]

definition runOnSection ::
  "codec \<Rightarrow> ('w, 'm) object_api_scheme \<Rightarrow> (frame \<Rightarrow> 'w \<Rightarrow> 'w result) \<Rightarrow> obj_section
     \<Rightarrow> frame_decoder \<times> 'w \<Rightarrow> (frame_decoder \<times> 'w) result" where
  "runOnSection c api cb section s =
     (let (d, w) = s
      in try_ctx (''Reading section '' @ sec_name section)
           (copyData api (unat (sec_size section)) (sec_start section) w)
           (\<lambda>(data, w).
              run_graphs c api cb
                (d\<lparr>full_section_data := data, section_data_cursor := 0,
                   section_start := sec_start section\<rparr>) w))"

definition readEdges ::
  "codec \<Rightarrow> ('w, 'm) object_api_scheme \<Rightarrow> (function_info \<Rightarrow> 'w \<Rightarrow> 'w result) \<Rightarrow> 'w \<Rightarrow> 'w result"
  where
  "readEdges c api callback w =
     (let names = SectionNames (isApple api w);
          d0 = \<lparr>full_section_data = [], section_data_cursor = 0, section_start = 0,
                decompressed_debug_data = []\<rparr>;
          on_frame = (\<lambda>fr. read_functions callback (unat (hdr_num_functions (fr_header fr))) fr);
          on_section = (\<lambda>s dw.
            if sec_name s \<noteq> graph_section names then Ok dw
            else runOnSection c api on_frame s dw)
      in try_r (object_sections api w) (\<lambda>ss.
         try_r (for_each on_section ss (d0, w)) (\<lambda>(_, w). Ok w)))"

end
