(* ===== verification/Graph_Roundtrip.thy ===== *)
theory Graph_Roundtrip
  imports Graph_Writer_Inv Graph_Reader
begin

text \<open>
  Reading back what was written: the graph reader, run on an image that contains the globals of
  finished modules, calls back once per function with the function's node, locals, origin and,
  for each kind, a permutation of its edges with every symbol index replaced by its address. The
  proof goes bottom up: one node, one edge list, one function, the string blob, one graph, a
  section of graphs, and \<open>readEdges\<close> itself.
\<close>

section \<open>Relocated nodes and edges\<close>

text \<open>
  What a node of the writer becomes in the reader: its symbol index is replaced by the address
  the linker gave that symbol, its local index stays.
\<close>

definition reloc_node :: "u64 list \<Rightarrow> node \<Rightarrow> node" where
  "reloc_node addrs n =
     Node (push_bit 16 (addrs ! unat (symbol_of n) + 1) OR (raw n AND 0xffff))"

definition reloc_edge :: "u64 list \<Rightarrow> edge \<Rightarrow> edge" where
  "reloc_edge addrs e =
     Edge (kind e) (reloc_node addrs (to_node e)) (reloc_node addrs (from_node e)) (edge_idx e)"

definition addresses_ok :: "nat \<Rightarrow> u64 list \<Rightarrow> bool" where
  "addresses_ok n addrs \<longleftrightarrow> length addrs = n \<and> n \<le> 2 ^ 31 \<and> (\<forall>a\<in>set addrs. symbol_ok a)"

lemma addresses_ok_nth: "addresses_ok n addrs \<Longrightarrow> i < n \<Longrightarrow> symbol_ok (addrs ! i)"
  by (simp add: addresses_ok_def)

lemma local_idx_of_Some:
  assumes "local_idx_of n = Some l"
  shows "raw n AND 0xffff = ucast l + 1"
proof -
  let ?r = "raw n AND 0xffff"
  have nz: "?r \<noteq> 0" and l: "l = ucast (?r - 1)"
    using assms by (auto simp: local_idx_of_def Let_def split: if_splits)
  have "?r \<le> 0xffff" by (rule word_and_le1)
  then have le: "unat ?r \<le> 0xffff" by (simp add: word_le_nat_alt)
  have p: "unat (?r - 1) = unat ?r - 1" using nz by (simp add: unat_minus_one)
  have "unat l = unat ?r - 1" unfolding l using le p by (subst unat_ucast_small) auto
  moreover have "unat (ucast l :: u64) = unat l"
    using unat_lt_size [of l] by (simp add: unat_ucast_small)
  moreover have "0 < unat ?r" using nz by (simp add: unat_gt_0)
  ultimately have "unat (ucast l + 1 :: u64) = unat ?r"
    using le by (subst unat_suc_small) auto
  then show ?thesis by (rule unat_inject [symmetric])
qed

lemma local_idx_of_None: "local_idx_of n = None \<Longrightarrow> raw n AND 0xffff = 0"
  by (auto simp: local_idx_of_def Let_def split: if_splits)

text \<open>The reader's \<open>decode_node\<close> inverts the writer's \<open>encode_node\<close>, up to relocation.\<close>

lemma decode_node_word:
  assumes "node_ok nsym this nl n" and "nl < 2 ^ 16" and a: "addresses_ok nsym addrs"
    and "unat this < nsym"
  shows "decode_node addrs (node_word n) (addrs ! unat this) = Ok (reloc_node addrs n)"
    and "is_node (reloc_node addrs n)"
proof -
  let ?i = "unat (symbol_of n)"
  have i: "?i < nsym" "nsym \<le> 2 ^ 31" "length addrs = nsym"
    using assms by (auto simp: node_ok_def addresses_ok_def)
  have s: "symbol_ok (addrs ! ?i)" using addresses_ok_nth [OF a i(1)] .
  have "decode_node addrs (node_word n) (addrs ! unat this) = Ok (reloc_node addrs n) \<and>
    is_node (reloc_node addrs n)"
  proof (cases "local_idx_of n")
    case None
    let ?w = "ucast (push_bit 1 (symbol_of n) OR 1) :: u32"
    have w: "node_word n = ?w" by (simp add: node_word_def None)
    have "bit ?w 0" by (simp add: bit_simps)
    then have one: "?w AND 1 \<noteq> 0" by (simp add: and_one_eq odd_iff_mod_2_eq_one bit_0)
    have "drop_bit 1 ?w = ucast (symbol_of n)"
    proof (rule bit_word_eqI)
      fix m assume "m < LENGTH(32)"
      moreover have "drop_bit 31 (symbol_of n) = 0"
        using i by (simp add: drop_bit_eq_0_unat)
      then have "\<not> bit (symbol_of n) 31" by (simp add: drop_bit_eq_0_iff)
      ultimately show "bit (drop_bit 1 ?w) m = bit (ucast (symbol_of n) :: u32) m"
        by (cases "m = 31") (auto simp: bit_simps bit_double)
    qed
    then have "unat (drop_bit 1 ?w) = ?i" using i by (simp add: unat_ucast_small)
    then show ?thesis
      using i one node_symbol_fields [OF s] local_idx_of_None [OF None]
      by (simp add: decode_node_def w symbol_address_def reloc_node_def)
  next
    case (Some l)
    then have l: "unat l < nl" "symbol_of n = this" using assms(1) by (auto simp: node_ok_def)
    let ?w = "push_bit 1 (ucast l) :: u32"
    have w: "node_word n = ?w" by (simp add: node_word_def Some)
    have "\<not> bit ?w 0" by (simp add: bit_double)
    then have one: "?w AND 1 = 0" using and_1_eq_0 by blast
    have "unat (ucast l :: u32) = unat l" using unat_lt_size [of l] by (simp add: unat_ucast_small)
    then have "drop_bit 1 ?w = ucast l"
      using unat_lt_size [of l] by (intro push_bit_1_u32) simp
    moreover have "ucast (ucast l :: u32) = (ucast l :: u64)"
      by (rule unat_inject) (use unat_lt_size [of l] in \<open>simp add: unat_ucast_small\<close>)
    moreover have "local_ok (ucast l)"
      using l(1) assms(2) unat_lt_size [of l] by (simp add: local_ok_def unat_ucast_small)
    ultimately show ?thesis
      using one node_local_fields [OF s] l(2) local_idx_of_Some [OF Some]
      by (simp add: decode_node_def w reloc_node_def)
  qed
  then show "decode_node addrs (node_word n) (addrs ! unat this) = Ok (reloc_node addrs n)"
    and "is_node (reloc_node addrs n)" by simp_all
qed

section \<open>Edge lists\<close>

text \<open>The edge a raw edge of kind \<open>k\<close> stands for in the reader.\<close>

definition dec_node :: "u64 list \<Rightarrow> u64 \<Rightarrow> u32 \<Rightarrow> node" where
  "dec_node addrs this x = (case decode_node addrs x this of Ok n \<Rightarrow> n | _ \<Rightarrow> null_node)"

definition dec_edge :: "u64 list \<Rightarrow> u64 \<Rightarrow> edge_kind \<Rightarrow> raw_edge \<Rightarrow> edge" where
  "dec_edge addrs this k r =
     (case r of (a, b, i) \<Rightarrow>
        Edge k (dec_node addrs this a) (dec_node addrs this b) (if indexed k then i else 0))"

definition raw_ok :: "u64 list \<Rightarrow> u64 \<Rightarrow> raw_edge \<Rightarrow> bool" where
  "raw_ok addrs this r \<longleftrightarrow>
     (\<forall>x\<in>{fst r, fst (snd r)}. \<exists>n. decode_node addrs x this = Ok n \<and> is_node n)"

text \<open>Visiting a delta-coded list calls back once per edge, in the order of the list.\<close>

lemma visit_words_delta:
  assumes "\<forall>r\<in>set raws. raw_ok addrs this r"
  shows "visit_words addrs this k cb prev (delta_encode k prev raws) w =
    for_each cb (map (dec_edge addrs this k) raws) w"
  using assms
proof (induction raws arbitrary: prev w)
  case (Cons r raws)
  obtain a b i where r: "r = (a, b, i)" by (cases r)
  from Cons.prems obtain na nb where
    "decode_node addrs a this = Ok na" "is_node na" "decode_node addrs b this = Ok nb" "is_node nb"
    by (auto simp: raw_ok_def r)
  then have e: "mk_edge k (dec_node addrs this a) (dec_node addrs this b) i =
      Ok (dec_edge addrs this k r)" "mk_edge k na nb (if indexed k then i else 0) =
      Ok (dec_edge addrs this k r)"
    and d: "decode_node addrs a this = Ok na" "decode_node addrs b this = Ok nb"
    by (auto simp: mk_edge_def dec_edge_def dec_node_def r)
  have p: "prev + zigzag_decode (zigzag_encode (a - prev)) = a"
    "a + zigzag_decode (zigzag_encode (b - a)) = b"
    by (simp_all add: zigzag_decode_encode)
  have IH: "visit_words addrs this k cb b (delta_encode k b raws) =
      for_each cb (map (dec_edge addrs this k) raws)"
    using Cons by (intro ext) simp
  show ?case
  proof (cases "indexed k")
    case True
    with p d e IH show ?thesis by (simp add: r Let_def)
  next
    case False
    with p d e IH show ?thesis by (simp add: r Let_def)
  qed
qed simp

text \<open>The edges of kind \<open>k\<close> in the order they are read: sorted, relocated.\<close>

definition read_order :: "sorter \<Rightarrow> u64 list \<Rightarrow> written \<Rightarrow> edge_kind \<Rightarrow> edge list" where
  "read_order srt addrs w k =
     map (dec_edge addrs (addrs ! unat (w_symbol w)) k) (sorted_raws srt k w)"

definition sorter_ok :: "sorter \<Rightarrow> bool" where
  "sorter_ok srt \<longleftrightarrow> (\<forall>lt xs. mset (srt lt xs) = mset xs)"

lemma sorter_ok_set: "sorter_ok srt \<Longrightarrow> set (srt lt xs) = set xs"
  by (metis sorter_ok_def set_mset_mset)

lemma raw_of_decodes:
  assumes "written_ok srt nsym w" and "addresses_ok nsym addrs" and "e \<in> set (w_edges w)"
  shows "raw_ok addrs (addrs ! unat (w_symbol w)) (raw_of e)"
    and "dec_edge addrs (addrs ! unat (w_symbol w)) (kind e) (raw_of e) = reloc_edge addrs e"
proof -
  have ok: "edge_ok nsym (w_symbol w) (length (w_locals w)) e"
    and l: "length (w_locals w) < 2 ^ 16" and t: "unat (w_symbol w) < nsym"
    using assms(1,3) by (auto simp: written_ok_def)
  then have n: "node_ok nsym (w_symbol w) (length (w_locals w)) (to_node e)"
    "node_ok nsym (w_symbol w) (length (w_locals w)) (from_node e)"
    by (simp_all add: edge_ok_def)
  note a = decode_node_word [OF n(1) l assms(2) t]
  note b = decode_node_word [OF n(2) l assms(2) t]
  from a b show "raw_ok addrs (addrs ! unat (w_symbol w)) (raw_of e)"
    by (auto simp: raw_ok_def raw_of_def)
  from a b ok show "dec_edge addrs (addrs ! unat (w_symbol w)) (kind e) (raw_of e) =
      reloc_edge addrs e"
    by (auto simp: dec_edge_def dec_node_def raw_of_def reloc_edge_def edge_ok_def)
qed

lemma sorted_raws_ok:
  assumes "written_ok srt nsym w" and "addresses_ok nsym addrs" and "sorter_ok srt"
  shows "\<forall>r\<in>set (sorted_raws srt k w). raw_ok addrs (addrs ! unat (w_symbol w)) r"
  using raw_of_decodes(1) [OF assms(1,2)]
  by (auto simp: sorted_raws_def sorter_ok_set [OF assms(3)] kind_edges_def)

lemma read_order_mset:
  assumes "written_ok srt nsym w" and "addresses_ok nsym addrs" and "sorter_ok srt"
  shows "mset (read_order srt addrs w k) = mset (map (reloc_edge addrs) (kind_edges k w))"
proof -
  let ?d = "dec_edge addrs (addrs ! unat (w_symbol w)) k"
  have "mset (read_order srt addrs w k) = image_mset ?d (mset (map raw_of (kind_edges k w)))"
    using assms(3) by (simp add: read_order_def sorted_raws_def sorter_ok_def)
  also have "\<dots> = mset (map (?d \<circ> raw_of) (kind_edges k w))"
    by (simp add: multiset.map_comp)
  also have "map (?d \<circ> raw_of) (kind_edges k w) = map (reloc_edge addrs) (kind_edges k w)"
    using raw_of_decodes(2) [OF assms(1,2)] by (auto simp: kind_edges_def)
  finally show ?thesis .
qed

section \<open>Functions\<close>

definition function_node :: "u64 list \<Rightarrow> written \<Rightarrow> node" where
  "function_node addrs w = Node (push_bit 16 (addrs ! unat (w_symbol w) + 1))"

definition info_of :: "sorter \<Rightarrow> u64 list \<Rightarrow> graph_debug_data \<Rightarrow> written \<Rightarrow> function_info" where
  "info_of srt addrs d w =
     \<lparr>fi_function = function_node addrs w, fi_num_allocas = w_allocas w,
      fi_num_locals = of_nat (length (w_locals w)), fi_debug_data = d,
      fi_sbom_info = sbom_of_strings (w_component w) (w_version w),
      fi_edge_data = (\<lambda>k. delta_encode k 0 (sorted_raws srt k w)),
      fi_symbol_addresses = addrs\<rparr>"

lemma visitEdges_info:
  assumes "written_ok srt nsym w" and "addresses_ok nsym addrs" and "sorter_ok srt"
  shows "visitEdges (info_of srt addrs d w) k cb s = for_each cb (read_order srt addrs w k) s"
proof -
  have "symbol_ok (addrs ! unat (w_symbol w))"
    using assms(1) addresses_ok_nth [OF assms(2)] by (simp add: written_ok_def)
  note f = node_symbol_fields [OF this]
  show ?thesis
  proof (cases "sorted_raws srt k w")
    case Nil
    then show ?thesis by (simp add: visitEdges_def info_of_def read_order_def)
  next
    case (Cons r rs)
    then have "delta_encode k 0 (sorted_raws srt k w) \<noteq> []" by (cases r) simp
    with f visit_words_delta [OF sorted_raws_ok [OF assms]] show ?thesis
      by (simp add: visitEdges_def info_of_def read_order_def node_symbol_of_def function_node_def)
  qed
qed

text \<open>
  The debug data of a graph reads back the strings of the writer's table.
\<close>

definition reads_strings :: "string list \<Rightarrow> graph_debug_data \<Rightarrow> bool" where
  "reads_strings strs d \<longleftrightarrow> (\<forall>i<length strs. gdd_string d i = Ok (strs ! i))"

lemma reads_strings_locals [simp]:
  "reads_strings strs (d\<lparr>gdd_local_indices := x\<rparr>) = reads_strings strs d"
  by (simp add: reads_strings_def gdd_string_def)

lemma reads_string_at:
  "reads_strings strs d \<Longrightarrow> string_at strs i s \<Longrightarrow> gdd_string d (unat i) = Ok s"
  by (simp add: reads_strings_def string_at_def)

lemma local_name_at:
  assumes "reads_strings strs d" and "gdd_local_indices d = Some is"
    and "list_all2 (string_at strs) is names" and "i < length names"
  shows "local_name d i = Ok (names ! i)"
  using assms list_all2_nthD2 [OF assms(3,4)] list_all2_lengthD [OF assms(3)]
  by (simp add: local_name_def reads_string_at)

text \<open>A frame with \<open>xs\<close> still to be read, and its debug data cut at \<open>m\<close> locals.\<close>

definition frame_at :: "graph_header \<Rightarrow> u64 list \<Rightarrow> graph_debug_data \<Rightarrow> u32 list \<Rightarrow> frame" where
  "frame_at h addrs d xs =
     \<lparr>fr_header = h, fr_function_data = xs, fr_symbol_addresses = addrs, fr_debug_data = d\<rparr>"

definition take_locals :: "nat \<Rightarrow> graph_debug_data \<Rightarrow> graph_debug_data" where
  "take_locals m d = d\<lparr>gdd_local_indices := map_option (take m) (gdd_local_indices d)\<rparr>"

definition drop_locals :: "nat \<Rightarrow> graph_debug_data \<Rightarrow> graph_debug_data" where
  "drop_locals m d = d\<lparr>gdd_local_indices := map_option (drop m) (gdd_local_indices d)\<rparr>"

definition enough_locals :: "nat \<Rightarrow> graph_debug_data \<Rightarrow> bool" where
  "enough_locals m d \<longleftrightarrow> (case gdd_local_indices d of None \<Rightarrow> True | Some is \<Rightarrow> m \<le> length is)"

lemma reads_strings_cut [simp]:
  "reads_strings strs (take_locals m d) = reads_strings strs d"
  "reads_strings strs (drop_locals m d) = reads_strings strs d"
  by (simp_all add: take_locals_def drop_locals_def)

lemma next_word_front: "next_word (frame_at h addrs d (x # xs)) = Ok (x, frame_at h addrs d xs)"
  by (simp add: next_word_def next_words_def frame_at_def)

lemma next_words_front:
  "length xs = n \<Longrightarrow>
    next_words n (frame_at h addrs d (xs @ ys)) = Ok (xs, frame_at h addrs d ys)"
  by (simp add: next_words_def frame_at_def)

lemma next_locals_front:
  "enough_locals (unat n) d \<Longrightarrow> next_locals n (frame_at h addrs d xs) =
     Ok (take_locals (unat n) d, frame_at h addrs (drop_locals (unat n) d) xs)"
  by (cases "gdd_local_indices d")
    (simp_all add: next_locals_def has_locals_def frame_at_def take_locals_def drop_locals_def
      debug_data_split_at_def enough_locals_def)

lemma length_delta_encode: "length (delta_encode k p rs) = num_components k * length rs"
  by (induction k p rs rule: delta_encode.induct) (simp_all add: num_components_def)

lemma read_edge_kind_front:
  assumes "length (sorted_raws srt k w) < 2 ^ 32"
  shows "read_edge_kind k (ed, frame_at h addrs d (kind_words srt w k @ rest)) =
    Ok (ed(k := delta_encode k 0 (sorted_raws srt k w)), frame_at h addrs d rest)"
proof -
  have "unat (of_nat (length (sorted_raws srt k w)) :: u32) = length (sorted_raws srt k w)"
    using assms by (simp add: unat_of_nat_small)
  then show ?thesis
    by (simp add: read_edge_kind_def kind_words_def next_word_front next_words_front
        length_delta_encode)
qed

lemma read_kinds_front:
  assumes "\<forall>k. length (sorted_raws srt k w) < 2 ^ 32" and "distinct ks"
  shows "for_each read_edge_kind ks
      (ed, frame_at h addrs d (concat (map (kind_words srt w) ks) @ rest)) =
    Ok (\<lambda>k. if k \<in> set ks then delta_encode k 0 (sorted_raws srt k w) else ed k,
        frame_at h addrs d rest)"
  using assms(2)
proof (induction ks arbitrary: ed)
  case (Cons k ks)
  then show ?case
    using assms(1) by (auto simp: read_edge_kind_front fun_eq_iff)
qed simp

text \<open>Reading back one function.\<close>

lemma read_function_front:
  assumes w: "written_ok srt nsym w" and a: "addresses_ok nsym addrs"
    and s: "string_at strs c (w_component w)" "string_at strs v (w_version w)"
    and d: "reads_strings strs d" and l: "enough_locals (length (w_locals w)) d"
  shows "read_function (frame_at h addrs d (function_words srt c v w @ rest)) =
    Ok (info_of srt addrs (take_locals (length (w_locals w)) d) w,
        frame_at h addrs (drop_locals (length (w_locals w)) d) rest)"
proof -
  let ?m = "length (w_locals w)"
  let ?addr = "addrs ! unat (w_symbol w)"
  have sym: "unat (w_symbol w) < nsym" and m: "?m < 2 ^ 16" and al: "unat (w_allocas w) \<le> ?m"
    and k: "\<forall>k. length (sorted_raws srt k w) < 2 ^ 32"
    using w by (simp_all add: written_ok_def)
  have n: "length addrs = nsym" "nsym \<le> 2 ^ 31" using a by (simp_all add: addresses_ok_def)
  have i: "unat (ucast (w_symbol w) :: u32) = unat (w_symbol w)"
    using sym n by (simp add: unat_ucast_small)
  have um: "unat (of_nat ?m :: u32) = ?m" using m by (simp add: unat_of_nat_small)
  have al': "w_allocas w \<le> of_nat ?m" using al um by (simp add: word_le_nat_alt)
  have "symbol_ok ?addr" using addresses_ok_nth [OF a sym] .
  note fn = node_symbol_fields [OF this]
  have kinds: "visit_tuple read_edge_kind (\<lambda>_. [], frame_at h addrs (drop_locals ?m d)
        (concat (map (kind_words srt w) all_kinds) @ rest)) =
      Ok (\<lambda>k. delta_encode k 0 (sorted_raws srt k w), frame_at h addrs (drop_locals ?m d) rest)"
    using read_kinds_front [OF k distinct_all_kinds] by (simp add: visit_tuple_def set_all_kinds)
  have sa: "fr_symbol_addresses (frame_at h addrs x y) = addrs" for x y by (simp add: frame_at_def)
  show ?thesis
    using l sym
    by (simp add: read_function_def function_words_def next_word_front sa symbol_address_def i n um
        al' next_locals_front fn kinds reads_string_at [OF _ s(1)] reads_string_at [OF _ s(2)] d
        info_of_def function_node_def)
qed

text \<open>All functions of a graph, in the order they were written.\<close>

fun infos_of ::
  "sorter \<Rightarrow> u64 list \<Rightarrow> graph_debug_data \<Rightarrow> written list \<Rightarrow> function_info list" where
  "infos_of srt addrs d [] = []"
| "infos_of srt addrs d (w # ws) =
     info_of srt addrs (take_locals (length (w_locals w)) d) w #
     infos_of srt addrs (drop_locals (length (w_locals w)) d) ws"

lemma read_functions_front:
  assumes "list_all2 (stored srt strs nsym) ws parts" and "addresses_ok nsym addrs"
    and "reads_strings strs d" and "enough_locals (length (concat (map w_locals ws))) d"
  shows "read_functions cb (length ws) (frame_at h addrs d (concat parts)) s =
    for_each cb (infos_of srt addrs d ws) s"
  using assms(1,3,4)
proof (induction ws parts arbitrary: d s rule: list_all2_induct)
  case Nil
  then show ?case by simp
next
  case (Cons w ws part parts)
  from \<open>stored srt strs nsym w part\<close> obtain c v where w: "written_ok srt nsym w"
    and cv: "string_at strs c (w_component w)" "string_at strs v (w_version w)"
    and part: "part = function_words srt c v w" by (auto simp: stored_def)
  have l: "enough_locals (length (w_locals w)) d"
    "enough_locals (length (concat (map w_locals ws))) (drop_locals (length (w_locals w)) d)"
    using Cons.prems(2) by (auto simp: enough_locals_def drop_locals_def split: option.splits)
  note one = read_function_front [OF w assms(2) cv Cons.prems(1) l(1)]
  have rec: "read_functions cb (length ws)
      (frame_at h addrs (drop_locals (length (w_locals w)) d) (concat parts)) =
      for_each cb (infos_of srt addrs (drop_locals (length (w_locals w)) d) ws)"
    using Cons.IH [of "drop_locals (length (w_locals w)) d"] Cons.prems l(2)
    by (intro ext) simp
  show ?case by (simp add: part one rec)
qed

text \<open>The names of the locals of each function.\<close>

lemma infos_of_names:
  assumes "list_all2 (string_at strs) is (concat (map w_locals ws))"
    and "gdd_local_indices d = Some is" and "reads_strings strs d"
    and "n < length ws" and "j < length (w_locals (ws ! n))"
  shows "local_name (fi_debug_data (infos_of srt addrs d ws ! n)) j = Ok (w_locals (ws ! n) ! j)"
  using assms
proof (induction ws arbitrary: n d "is")
  case (Cons w ws)
  let ?m = "length (w_locals w)"
  have t: "list_all2 (string_at strs) (take ?m is) (w_locals w)"
    and dr: "list_all2 (string_at strs) (drop ?m is) (concat (map w_locals ws))"
    using Cons.prems(1) by (auto simp: list_all2_append2)
  show ?case
  proof (cases n)
    case 0
    have "gdd_local_indices (take_locals ?m d) = Some (take ?m is)"
      using Cons.prems(2) by (simp add: take_locals_def)
    from local_name_at [OF _ this t] Cons.prems(3,5) 0 show ?thesis
      by (simp add: info_of_def)
  next
    case (Suc n')
    have "gdd_local_indices (drop_locals ?m d) = Some (drop ?m is)"
      using Cons.prems(2) by (simp add: drop_locals_def)
    from Cons.IH [OF dr this] Cons.prems(3-5) Suc show ?thesis by simp
  qed
qed simp

section \<open>The string blob\<close>

definition no_nul :: "string list \<Rightarrow> bool" where
  "no_nul strs \<longleftrightarrow> (\<forall>s\<in>set strs. nul \<notin> set s)"

fun starts :: "nat \<Rightarrow> string list \<Rightarrow> nat list" where
  "starts p [] = []"
| "starts p (s # ss) = p # starts (p + length s + 1) ss"

lemma blob_of_simps [simp]: "blob_of [] = []" "blob_of (s # ss) = s @ nul # blob_of ss"
  by (simp_all add: blob_of_def)

lemma length_starts [simp]: "length (starts p ss) = length ss"
  by (induction ss arbitrary: p) simp_all

lemma find_char_here: "c \<notin> set s \<Longrightarrow> find_char c (s @ c # t) = Some (length s)"
  by (induction s) auto

lemma string_offsets_from_blob:
  assumes "no_nul ss"
  shows "string_offsets_from (pre @ blob_of ss) (length pre) =
    Ok (map of_nat (starts (length pre) ss))"
  using assms
proof (induction ss arbitrary: pre)
  case Nil
  then show ?case by (simp add: string_offsets_from.simps)
next
  case (Cons s ss)
  have "string_offsets_from ((pre @ s @ [nul]) @ blob_of ss) (length (pre @ s @ [nul])) =
      Ok (map of_nat (starts (length (pre @ s @ [nul])) ss))"
    using Cons.prems by (intro Cons.IH) (simp add: no_nul_def)
  then have "string_offsets_from (pre @ s @ nul # blob_of ss) (length pre + length s + 1) =
      Ok (map of_nat (starts (length pre + length s + 1) ss))" by (simp add: add.assoc)
  moreover have "find_char nul (drop (length pre) (pre @ s @ nul # blob_of ss)) = Some (length s)"
    using Cons.prems find_char_here by (simp add: no_nul_def)
  ultimately show ?case by (subst string_offsets_from.simps) simp
qed

lemma blob_ends: "ss \<noteq> [] \<Longrightarrow> blob_of ss \<noteq> [] \<and> last (blob_of ss) = nul"
  by (induction ss rule: rev_induct) (simp_all add: blob_of_def)

lemma string_offsets_of_blob: "no_nul ss \<Longrightarrow> string_offsets_of (blob_of ss) = Ok (map of_nat (starts 0 ss))"
  using string_offsets_from_blob [of ss "[]"] blob_ends [of ss]
  by (cases "ss = []") (simp_all add: string_offsets_of_def)

lemma blob_suffix:
  "i < length ss \<Longrightarrow> starts (length pre) ss ! i < length (pre @ blob_of ss) \<and>
    (\<exists>rest. drop (starts (length pre) ss ! i) (pre @ blob_of ss) = ss ! i @ nul # rest)"
proof (induction ss arbitrary: pre i)
  case (Cons s ss)
  show ?case
  proof (cases i)
    case (Suc j)
    with Cons.prems Cons.IH [of j "pre @ s @ [nul]"] show ?thesis by (simp add: add.assoc)
  qed simp
qed simp

lemma c_string_here: "nul \<notin> set s \<Longrightarrow> c_string (s @ nul # rest) = s"
  by (induction s) (auto simp: c_string_def)

text \<open>The blob, cut by its offsets, is the table of strings again.\<close>

lemma blob_reads_strings:
  assumes "no_nul ss" and "length (blob_of ss) < 2 ^ 32"
    and "gdd_string_blob d = blob_of ss" and "gdd_string_offsets d = map of_nat (starts 0 ss)"
  shows "reads_strings ss d"
  unfolding reads_strings_def
proof (intro allI impI)
  fix i assume i: "i < length ss"
  from blob_suffix [OF i, of "[]"] obtain rest where
    lt: "starts 0 ss ! i < length (blob_of ss)"
    and dr: "drop (starts 0 ss ! i) (blob_of ss) = ss ! i @ nul # rest" by auto
  have "unat (of_nat (starts 0 ss ! i) :: u32) = starts 0 ss ! i"
    using lt assms(2) by (simp add: unat_of_nat_small)
  moreover have "nul \<notin> set (ss ! i)" using assms(1) i by (simp add: no_nul_def)
  ultimately show "gdd_string d i = Ok (ss ! i)"
    using i dr by (simp add: gdd_string_def assms(3,4) c_string_here)
qed

section \<open>One graph in a section\<close>

text \<open>
  A graph global as the linker lays it out: the header, the pointers to the debug data and to
  the symbols (whatever bytes they hold before relocation), the compressed stream.
\<close>

record placed_graph =
  pg_module :: module_globals
  pg_pointers :: bytes
  pg_debug_address :: u64
  pg_addresses :: "u64 list"

definition image_of :: "placed_graph \<Rightarrow> bytes" where
  "image_of g =
     (let gg = graph_global (pg_module g)
      in header_bytes (gg_header gg) @ pg_pointers g @ gg_function_data gg)"

text \<open>
  What the object file gives at the address \<open>a\<close> of such a graph: the pointers resolve to the
  debug data and to the symbols, and the debug data can be copied.
\<close>

definition served :: "('w, 'm) object_api_scheme \<Rightarrow> u64 \<Rightarrow> placed_graph \<Rightarrow> bool" where
  "served api a g \<longleftrightarrow>
     length (pg_pointers g) = (1 + length (pg_addresses g)) * pointerSize \<and> pg_debug_address g \<noteq> 0 \<and>
     (\<forall>w. resolvePointers api 1 (a + of_nat header_size) w = Ok ([pg_debug_address g], w)) \<and>
     (\<forall>w. resolvePointers api (length (pg_addresses g)) (a + of_nat (header_size + pointerSize)) w =
        Ok (pg_addresses g, w)) \<and>
     (\<forall>w. copyData api (length (debug_global (pg_module g))) (pg_debug_address g) w =
        Ok (debug_global (pg_module g), w))"

text \<open>What \<open>writeTo\<close> promises about its two globals.\<close>

definition globals_for :: "codec \<Rightarrow> graph_writer \<Rightarrow> module_globals \<Rightarrow> bool" where
  "globals_for c gw m \<longleftrightarrow>
     (let h = gg_header (graph_global m) in
      debug_global m = zstd_compress c
        (map byte_of_char (StringBlob gw) @ svb_delta_encode c (local_names gw)) \<and>
      gg_function_data (graph_global m) = zstd_compress c (svb_encode c (function_data gw)) \<and>
      gg_symbols (graph_global m) = symbols_in_order gw \<and>
      magic_number h = GRAPH_MAGIC_NUMBER \<and>
      unat (function_data_compressed_size h) = length (gg_function_data (graph_global m)) \<and>
      unat (debug_data_compressed_size h) = length (debug_global m) \<and>
      unat (num_symbols h) = length (Symbols gw) \<and>
      unat (string_blob_length h) = length (StringBlob gw) \<and>
      (has_debug_locals h \<noteq> 0) = gw_record_debug_data gw \<and>
      unat (total_num_locals h) = length (local_names gw) \<and>
      hdr_num_functions h = num_functions gw \<and>
      unat (function_array_length h) = length (function_data gw))"

lemma u32_of_size_ok [ok_iff]:
  "u32_of_size n = Ok x \<longleftrightarrow> n < 2 ^ 32 \<and> x = of_nat n"
  by (auto simp: u32_of_size_def ok_iff)

lemma writeTo_globals:
  assumes "writeTo c gw = Ok m"
  shows "globals_for c gw m"
  using assms by (auto simp: writeTo_def globals_for_def Let_def ok_iff unat_of_nat_u32
      split: if_splits)

lemma decode_function_data_globals:
  assumes "codec_ok c" and "globals_for c gw m"
  shows "decode_function_data c (gg_header (graph_global m)) (gg_function_data (graph_global m)) =
    Ok (function_data gw)"
proof -
  let ?e = "svb_encode c (function_data gw)"
  have "svb_validate c ?e (of_nat (length ?e)) (length (function_data gw))"
    "svb_decode c ?e (length (function_data gw)) = function_data gw"
    using assms(1) unfolding codec_ok_def by (metis append_Nil2)+
  moreover have "zstd_content_size c (zstd_compress c ?e) = Some (length ?e)"
    "zstd_decompress c (length ?e) (zstd_compress c ?e) = Some ?e"
    using assms(1) by (simp_all add: codec_ok_def)
  ultimately show ?thesis
    using assms(2) by (simp add: decode_function_data_def globals_for_def Let_def)
qed

lemma length_resize [simp]: "length (resize n b) = n"
  by (simp add: resize_def)

lemma parse_debug_data_globals:
  assumes c: "codec_ok c" and m: "globals_for c gw m" and gw: "strings_ok gw"
    and nn: "no_nul (strings gw)" and a: "a \<noteq> 0"
    and copy: "\<forall>w. copyData api (length (debug_global m)) a w = Ok (debug_global m, w)"
  obtains buf' where
    "parse_debug_data c api (gg_header (graph_global m)) a buf w =
      Ok (\<lparr>gdd_string_blob = StringBlob gw,
           gdd_local_indices = (if gw_record_debug_data gw then Some (local_names gw) else None),
           gdd_string_offsets = map of_nat (starts 0 (strings gw))\<rparr>, buf', w)"
proof -
  let ?h = "gg_header (graph_global m)"
  let ?enc = "svb_delta_encode c (local_names gw)"
  define raw where "raw = map byte_of_char (StringBlob gw) @ ?enc"
  define junk where "junk = drop (length raw) (resize (length raw + svb_padding c) buf)"
  have junk: "length junk = svb_padding c" by (simp add: junk_def)
  have h: "unat (debug_data_compressed_size ?h) = length (zstd_compress c raw)"
    "debug_global m = zstd_compress c raw"
    "unat (string_blob_length ?h) = length (StringBlob gw)"
    "(has_debug_locals ?h \<noteq> 0) = gw_record_debug_data gw"
    "unat (total_num_locals ?h) = length (local_names gw)"
    using m by (simp_all add: globals_for_def Let_def raw_def)
  have z: "zstd_content_size c (zstd_compress c raw) = Some (length raw)"
    "zstd_decompress c (length raw + svb_padding c) (zstd_compress c raw) = Some raw"
    using c unfolding codec_ok_def by simp_all
  have v: "svb_validate c (?enc @ junk) (of_nat (length ?enc)) (length (local_names gw))"
    "svb_delta_decode c (?enc @ junk) (length (local_names gw)) = local_names gw"
    using c by (simp_all add: codec_ok_def)
  have off: "string_offsets_of (StringBlob gw) = Ok (map of_nat (starts 0 (strings gw)))"
    using gw nn by (simp add: strings_ok_def string_offsets_of_blob)
  have tk: "take (length (StringBlob gw)) raw = map byte_of_char (StringBlob gw)"
    "drop (length (StringBlob gw)) raw = ?enc" "length raw = length (StringBlob gw) + length ?enc"
    by (simp_all add: raw_def)
  have "parse_debug_data c api ?h a buf w =
      Ok (\<lparr>gdd_string_blob = StringBlob gw,
           gdd_local_indices = (if gw_record_debug_data gw then Some (local_names gw) else None),
           gdd_string_offsets = map of_nat (starts 0 (strings gw))\<rparr>, raw @ junk, w)"
    unfolding parse_debug_data_def
    using a copy v off h by (simp add: z Let_def junk flip: junk_def) (simp add: tk v junk off)
  then show thesis by (rule that)
qed

text \<open>The debug data of a graph after reading, and what a run leaves in the tables.\<close>

definition debug_data_of :: "graph_writer \<Rightarrow> graph_debug_data" where
  "debug_data_of gw =
     \<lparr>gdd_string_blob = StringBlob gw,
      gdd_local_indices = (if gw_record_debug_data gw then Some (local_names gw) else None),
      gdd_string_offsets = map of_nat (starts 0 (strings gw))\<rparr>"

text \<open>
  A finished module: its writer after a complete run, the globals \<open>writeTo\<close> made of it, and
  where the linker put them.
\<close>

record linked_module =
  lm_writer :: graph_writer
  lm_written :: "written list"
  lm_debug :: bool
  lm_graph :: placed_graph

definition linked_ok ::
  "(string \<Rightarrow> string \<Rightarrow> string) \<Rightarrow> sorter \<Rightarrow> codec \<Rightarrow> linked_module \<Rightarrow> bool" where
  "linked_ok canon srt c lm \<longleftrightarrow>
     writer_run canon srt (lm_debug lm) (lm_writer lm) None (lm_written lm) \<and>
     length (lm_written lm) < 2 ^ 32 \<and>
     no_nul (strings (lm_writer lm)) \<and>
     writeTo c (lm_writer lm) = Ok (pg_module (lm_graph lm)) \<and>
     addresses_ok (length (Symbols (lm_writer lm))) (pg_addresses (lm_graph lm))"

text \<open>What the reader makes of the functions of a module.\<close>

definition module_infos :: "sorter \<Rightarrow> linked_module \<Rightarrow> function_info list" where
  "module_infos srt lm =
     infos_of srt (pg_addresses (lm_graph lm)) (debug_data_of (lm_writer lm)) (lm_written lm)"

lemma linked_inv:
  assumes "linked_ok canon srt c lm"
  shows "writer_inv srt (lm_debug lm) (lm_writer lm) None (lm_written lm)"
    and "length (blob_of (strings (lm_writer lm))) < 2 ^ 32"
    and "globals_for c (lm_writer lm) (pg_module (lm_graph lm))"
    and "length (symbols_in_order (lm_writer lm)) = length (Symbols (lm_writer lm))"
proof -
  let ?gw = "lm_writer lm"
  have run: "writer_run canon srt (lm_debug lm) ?gw None (lm_written lm)"
    and w: "writeTo c ?gw = Ok (pg_module (lm_graph lm))"
    and a: "length (Symbols ?gw) \<le> 2 ^ 31"
    using assms by (auto simp: linked_ok_def addresses_ok_def)
  show g: "globals_for c ?gw (pg_module (lm_graph lm))" using writeTo_globals [OF w] .
  have b: "StringBlob ?gw = blob_of (strings ?gw)"
    using writer_run_strings_ok [OF run] by (simp add: strings_ok_def)
  have l: "length (StringBlob ?gw) < 2 ^ 32"
    using g unat_lt_size [of "string_blob_length (gg_header (graph_global (pg_module (lm_graph lm))))"]
    by (simp add: globals_for_def Let_def)
  then have s: "length (strings ?gw) \<le> 2 ^ 32" using blob_of_length [of "strings ?gw"] b by simp
  show i: "writer_inv srt (lm_debug lm) ?gw None (lm_written lm)"
    using writer_run_inv [OF run s a] .
  show "length (blob_of (strings ?gw)) < 2 ^ 32" using l b by simp
  show "length (symbols_in_order ?gw) = length (Symbols ?gw)"
    using i by (simp add: writer_inv_def tables_inv_def symbols_ok_def)
qed

text \<open>A module's functions are read back in the order they were written, with their edges.\<close>

lemma linked_functions:
  assumes "linked_ok canon srt c lm"
  shows "read_functions cb (length (lm_written lm))
      (frame_at h (pg_addresses (lm_graph lm)) (debug_data_of (lm_writer lm))
        (function_data (lm_writer lm))) s =
    for_each cb (module_infos srt lm) s"
    and "unat (num_functions (lm_writer lm)) = length (lm_written lm)"
    and "reads_strings (strings (lm_writer lm)) (debug_data_of (lm_writer lm))"
    and "names_ok (lm_debug lm) (strings (lm_writer lm)) (local_names (lm_writer lm))
      (concat (map w_locals (lm_written lm)))"
    and "gw_record_debug_data (lm_writer lm) = lm_debug lm"
    and "\<forall>w\<in>set (lm_written lm). written_ok srt (length (Symbols (lm_writer lm))) w"
proof -
  let ?gw = "lm_writer lm" and ?ws = "lm_written lm"
  note inv = linked_inv(1) [OF assms, unfolded writer_inv_def tables_inv_def]
  have nn: "no_nul (strings ?gw)" and a: "addresses_ok (length (Symbols ?gw)) (pg_addresses (lm_graph lm))"
    and len: "length ?ws < 2 ^ 32" using assms by (simp_all add: linked_ok_def)
  show r: "reads_strings (strings ?gw) (debug_data_of ?gw)"
    using inv by (intro blob_reads_strings [OF nn linked_inv(2) [OF assms]])
      (simp_all add: debug_data_of_def strings_ok_def)
  show dbg: "gw_record_debug_data ?gw = lm_debug lm" using inv by simp
  show names: "names_ok (lm_debug lm) (strings ?gw) (local_names ?gw) (concat (map w_locals ?ws))"
    using inv by (simp add: open_locals_def)
  have e: "enough_locals (length (concat (map w_locals ?ws))) (debug_data_of ?gw)"
    using names dbg by (auto simp: enough_locals_def debug_data_of_def names_ok_def
        intro: eq_refl [OF list_all2_lengthD [symmetric]])
  obtain parts where p: "list_all2 (stored srt (strings ?gw) (length (Symbols ?gw))) ?ws parts"
    "function_data ?gw = concat parts"
    using inv linked_inv(4) [OF assms] by (auto simp: history_ok_def)
  from read_functions_front [OF p(1) a r e] p(2)
  show "read_functions cb (length ?ws)
      (frame_at h (pg_addresses (lm_graph lm)) (debug_data_of ?gw) (function_data ?gw)) s =
    for_each cb (module_infos srt lm) s" by (simp add: module_infos_def)
  show "unat (num_functions ?gw) = length ?ws" using inv len by (simp add: unat_of_nat_u32)
  show "\<forall>w\<in>set ?ws. written_ok srt (length (Symbols ?gw)) w"
    using p(1) by (auto simp: list_all2_conv_all_nth in_set_conv_nth stored_def)
qed

section \<open>A section of graphs\<close>

lemma consumeOneGraph_linked:
  assumes lm: "linked_ok canon srt c lm" and c: "codec_ok c"
    and sv: "served api (section_start d + of_nat (section_data_cursor d)) (lm_graph lm)"
    and cur: "drop (section_data_cursor d) (full_section_data d) = image_of (lm_graph lm) @ rest"
    and le: "section_data_cursor d \<le> length (full_section_data d)"
  obtains buf where
    "consumeOneGraph c api d w =
      Ok (frame_at (gg_header (graph_global (pg_module (lm_graph lm)))) (pg_addresses (lm_graph lm))
            (debug_data_of (lm_writer lm)) (function_data (lm_writer lm)),
          d\<lparr>section_data_cursor := section_data_cursor d + length (image_of (lm_graph lm)),
            decompressed_debug_data := buf\<rparr>, w)"
proof -
  let ?g = "lm_graph lm" and ?gw = "lm_writer lm"
  let ?m = "pg_module ?g"
  let ?h = "gg_header (graph_global ?m)" and ?fd = "gg_function_data (graph_global ?m)"
  let ?cur = "section_data_cursor d" and ?data = "full_section_data d"
  note gl = linked_inv(3) [OF lm]
  have mg: "magic_number ?h = GRAPH_MAGIC_NUMBER"
    and ns: "unat (num_symbols ?h) = length (pg_addresses ?g)"
    and fs: "unat (function_data_compressed_size ?h) = length ?fd"
    using gl lm by (simp_all add: globals_for_def Let_def linked_ok_def addresses_ok_def)
  have two: "length (magic_number ?h) = 2" by (simp add: mg GRAPH_MAGIC_NUMBER_def)
  note hb = header_of_header_bytes [OF two]
  have lp: "length (pg_pointers ?g) = (1 + length (pg_addresses ?g)) * 8"
    and nz: "pg_debug_address ?g \<noteq> 0"
    and r1: "\<And>w. resolvePointers api 1 (section_start d + of_nat (?cur + header_size)) w =
        Ok ([pg_debug_address ?g], w)"
    and r2: "\<And>w. resolvePointers api (length (pg_addresses ?g))
        (section_start d + of_nat (?cur + header_size + pointerSize)) w = Ok (pg_addresses ?g, w)"
    and cp: "\<forall>w. copyData api (length (debug_global ?m)) (pg_debug_address ?g) w =
        Ok (debug_global ?m, w)"
    using sv by (simp_all add: served_def add.assoc pointerSize_def)
  have img: "image_of ?g = header_bytes ?h @ pg_pointers ?g @ ?fd"
    by (simp add: image_of_def Let_def)
  have len: "length ?data = ?cur + header_size + length (pg_pointers ?g) + length ?fd + length rest"
    using arg_cong [OF cur, of length] le hb(2) by (simp add: img)
  have hd: "header_of_bytes (take header_size (drop ?cur ?data)) = ?h"
    using hb(1) [of "[]"] hb(2) by (simp add: cur img)
  have tk: "take (length ?fd) (drop (?cur + header_size + 8 + length (pg_addresses ?g) * 8) ?data) = ?fd"
  proof -
    have "drop (?cur + header_size + 8 + length (pg_addresses ?g) * 8) ?data =
        drop (header_size + length (pg_pointers ?g)) (drop ?cur ?data)"
      by (simp add: lp ac_simps)
    also have "\<dots> = ?fd @ rest" using hb(2) by (simp add: cur img)
    finally show ?thesis by simp
  qed
  have sok: "strings_ok ?gw" and nn: "no_nul (strings ?gw)"
    using linked_inv(1) [OF lm] lm by (simp_all add: writer_inv_def tables_inv_def linked_ok_def)
  from parse_debug_data_globals [OF c gl sok nn nz cp] obtain buf where
    pd: "parse_debug_data c api ?h (pg_debug_address ?g) (decompressed_debug_data d) w =
      Ok (debug_data_of ?gw, buf, w)" by (metis debug_data_of_def)
  note df = decode_function_data_globals [OF c gl]
  have "consumeOneGraph c api d w =
      Ok (frame_at ?h (pg_addresses ?g) (debug_data_of ?gw) (function_data ?gw),
          d\<lparr>section_data_cursor := ?cur + length (image_of ?g), decompressed_debug_data := buf\<rparr>, w)"
    using len lp tk r1 r2 hb(2)
    by (simp add: consumeOneGraph_def consumeBytes_def consumeAddresses_def hd mg ns fs pd df
        pointerSize_def frame_at_def img Let_def add.assoc)
  then show thesis by (rule that)
qed

text \<open>The scanner skips the zeros the linker pads with.\<close>

lemma magic_bytes_eq: "magic_bytes = [0x4e, 0x3b, 0xc7, 0x3a, 0x19, 0xcf, 0x5e, 0x44]"
  by (simp add: magic_bytes_def GRAPH_MAGIC_NUMBER_def le32_def le_bytes_numeral)

lemma find_from_zeros: "find_from magic_bytes (replicate n 0 @ magic_bytes @ rest) = Some n"
  by (induction n) (simp_all add: magic_bytes_eq)

lemma find_from_none: "find_from magic_bytes (replicate n 0) = None"
  by (induction n) (simp_all add: magic_bytes_eq)

lemma magic_prefix:
  "magic_number h = GRAPH_MAGIC_NUMBER \<Longrightarrow> \<exists>t. header_bytes h = magic_bytes @ t"
  by (simp add: header_bytes_def header_words_def magic_bytes_def)

lemma image_magic:
  assumes "linked_ok canon srt c lm"
  obtains t where "image_of (lm_graph lm) = magic_bytes @ t"
proof -
  have "magic_number (gg_header (graph_global (pg_module (lm_graph lm)))) = GRAPH_MAGIC_NUMBER"
    using linked_inv(3) [OF assms] by (simp add: globals_for_def Let_def)
  from magic_prefix [OF this] obtain t where
    "header_bytes (gg_header (graph_global (pg_module (lm_graph lm)))) = magic_bytes @ t" ..
  then have "image_of (lm_graph lm) = magic_bytes @ t @ pg_pointers (lm_graph lm) @
      gg_function_data (graph_global (pg_module (lm_graph lm)))"
    by (simp add: image_of_def Let_def)
  then show thesis by (rule that)
qed

text \<open>The section: each graph behind some zeros, zeros at the end.\<close>

fun section_bytes :: "(nat \<times> linked_module) list \<Rightarrow> nat \<Rightarrow> bytes" where
  "section_bytes [] tail = replicate tail 0"
| "section_bytes ((pad, lm) # ms) tail =
     replicate pad 0 @ image_of (lm_graph lm) @ section_bytes ms tail"

fun all_served ::
  "('w, 'm) object_api_scheme \<Rightarrow> u64 \<Rightarrow> nat \<Rightarrow> (nat \<times> linked_module) list \<Rightarrow> bool" where
  "all_served api start cur [] = True"
| "all_served api start cur ((pad, lm) # ms) =
     (served api (start + of_nat (cur + pad)) (lm_graph lm) \<and>
      all_served api start (cur + pad + length (image_of (lm_graph lm))) ms)"

definition frame_of :: "linked_module \<Rightarrow> frame" where
  "frame_of lm =
     frame_at (gg_header (graph_global (pg_module (lm_graph lm)))) (pg_addresses (lm_graph lm))
       (debug_data_of (lm_writer lm)) (function_data (lm_writer lm))"

lemma run_graphs_linked:
  assumes "\<forall>(pad, lm)\<in>set ms. linked_ok canon srt c lm" and "codec_ok c"
    and "all_served api (section_start d) (section_data_cursor d) ms"
    and "drop (section_data_cursor d) (full_section_data d) = section_bytes ms tail"
    and "section_data_cursor d \<le> length (full_section_data d)"
  shows "try_r (run_graphs c api cb d w) (\<lambda>(d, w). Ok w) =
    for_each (\<lambda>(pad, lm). cb (frame_of lm)) ms w"
  using assms
proof (induction ms arbitrary: d w)
  case Nil
  then show ?case
    by (subst run_graphs.simps) (simp add: find_from_none)
next
  case (Cons pm ms)
  obtain pad lm where pm: "pm = (pad, lm)" by (cases pm)
  let ?img = "image_of (lm_graph lm)"
  let ?cur = "section_data_cursor d"
  let ?d1 = "d\<lparr>section_data_cursor := ?cur + pad\<rparr>"
  have lm: "linked_ok canon srt c lm" using Cons.prems(1) by (simp add: pm)
  obtain t where t: "?img = magic_bytes @ t" using lm by (rule image_magic)
  have data: "drop ?cur (full_section_data d) = replicate pad 0 @ ?img @ section_bytes ms tail"
    using Cons.prems(4) by (simp add: pm)
  have more: "?cur + pad + length ?img \<le> length (full_section_data d)"
    using arg_cong [OF data, of length] Cons.prems(5) by simp
  have pos: "length magic_bytes = 8" by (simp add: magic_bytes_eq)
  have lt: "?cur < length (full_section_data d)" using more pos t by simp
  have find: "find_from magic_bytes (drop ?cur (full_section_data d)) = Some pad"
    using find_from_zeros [of pad "t @ section_bytes ms tail"] by (simp add: data t)
  have dr: "drop (?cur + pad) (full_section_data d) = ?img @ section_bytes ms tail"
    using arg_cong [OF data, of "drop pad"] by (simp add: add.commute)
  have sv: "served api (section_start ?d1 + of_nat (section_data_cursor ?d1)) (lm_graph lm)"
    using Cons.prems(3) by (simp add: pm)
  have 1: "drop (section_data_cursor ?d1) (full_section_data ?d1) = ?img @ section_bytes ms tail"
    "section_data_cursor ?d1 \<le> length (full_section_data ?d1)"
    using dr more by simp_all
  show ?case
  proof -
    obtain buf where cons: "consumeOneGraph c api ?d1 w = Ok (frame_of lm,
        ?d1\<lparr>section_data_cursor := section_data_cursor ?d1 + length ?img,
           decompressed_debug_data := buf\<rparr>, w)"
      using consumeOneGraph_linked [OF lm Cons.prems(2) sv 1] unfolding frame_of_def by metis
    let ?d2 = "d\<lparr>section_data_cursor := ?cur + pad + length ?img, decompressed_debug_data := buf\<rparr>"
    have dr2: "drop (?cur + pad + length ?img) (full_section_data d) = section_bytes ms tail"
      using arg_cong [OF dr, of "drop (length ?img)"] by (simp add: add.commute)
    have IH: "try_r (run_graphs c api cb ?d2 w2) (\<lambda>(d, w). Ok w) =
        for_each (\<lambda>(pad, lm). cb (frame_of lm)) ms w2" for w2
      using Cons.prems(1-3) dr2 more by (intro Cons.IH) (simp_all add: pm)
    show ?thesis
      by (subst run_graphs.simps) (simp add: lt find cons pm try_r_assoc IH)
  qed
qed

section \<open>The whole image\<close>

lemma frame_of_functions:
  assumes "linked_ok canon srt c lm"
  shows "read_functions cb (unat (hdr_num_functions (fr_header (frame_of lm)))) (frame_of lm) s =
    for_each cb (module_infos srt lm) s"
proof -
  have "hdr_num_functions (gg_header (graph_global (pg_module (lm_graph lm)))) =
      num_functions (lm_writer lm)"
    using linked_inv(3) [OF assms] by (simp add: globals_for_def Let_def)
  with linked_functions(1,2) [OF assms] show ?thesis
    by (simp add: frame_of_def) (simp add: frame_at_def)
qed

text \<open>What a graph section of the image holds: \<open>layout\<close> gives its modules and its tail.\<close>

definition image_ok ::
  "(string \<Rightarrow> string \<Rightarrow> string) \<Rightarrow> sorter \<Rightarrow> codec \<Rightarrow> ('w, 'm) object_api_scheme \<Rightarrow> obj_section list
     \<Rightarrow> (obj_section \<Rightarrow> (nat \<times> linked_module) list \<times> nat) \<Rightarrow> string \<Rightarrow> bool" where
  "image_ok canon srt c api ss layout name \<longleftrightarrow>
     (\<forall>w. object_sections api w = Ok ss \<and> graph_section (SectionNames (isApple api w)) = name) \<and>
     (\<forall>s\<in>set ss. sec_name s = name \<longrightarrow>
        (\<forall>w. copyData api (unat (sec_size s)) (sec_start s) w =
          Ok (section_bytes (fst (layout s)) (snd (layout s)), w)) \<and>
        all_served api (sec_start s) 0 (fst (layout s)) \<and>
        (\<forall>(pad, lm)\<in>set (fst (layout s)). linked_ok canon srt c lm))"

definition visit_section ::
  "string \<Rightarrow> sorter \<Rightarrow> (obj_section \<Rightarrow> (nat \<times> linked_module) list \<times> nat)
     \<Rightarrow> (function_info \<Rightarrow> 'w \<Rightarrow> 'w result) \<Rightarrow> obj_section \<Rightarrow> 'w \<Rightarrow> 'w result" where
  "visit_section name srt layout cb s w =
     (if sec_name s = name
      then for_each (\<lambda>(pad, lm). for_each cb (module_infos srt lm)) (fst (layout s)) w
      else Ok w)"

lemma on_sections:
  assumes "\<forall>s\<in>set ss. sec_name s = name \<longrightarrow>
      (\<forall>w. copyData api (unat (sec_size s)) (sec_start s) w =
          Ok (section_bytes (fst (layout s)) (snd (layout s)), w)) \<and>
      all_served api (sec_start s) 0 (fst (layout s)) \<and>
      (\<forall>(pad, lm)\<in>set (fst (layout s)). linked_ok canon srt c lm)"
    and "codec_ok c"
  shows "try_r (for_each (\<lambda>s dw. if sec_name s \<noteq> name then Ok dw else runOnSection c api
      (\<lambda>fr. read_functions cb (unat (hdr_num_functions (fr_header fr))) fr) s dw) ss (d, w))
      (\<lambda>(_, w). Ok w) =
    for_each (visit_section name srt layout cb) ss w"
  using assms(1)
proof (induction ss arbitrary: d w)
  case (Cons s ss)
  let ?f = "\<lambda>fr. read_functions cb (unat (hdr_num_functions (fr_header fr))) fr"
  show ?case
  proof (cases "sec_name s = name")
    case False
    with Cons show ?thesis by (simp add: visit_section_def)
  next
    case True
    let ?d = "d\<lparr>full_section_data := section_bytes (fst (layout s)) (snd (layout s)),
        section_data_cursor := 0, section_start := sec_start s\<rparr>"
    have lk: "\<forall>(pad, lm)\<in>set (fst (layout s)). linked_ok canon srt c lm"
      using Cons.prems True by simp
    have "try_r (run_graphs c api ?f ?d w) (\<lambda>(d, w). Ok w) =
        for_each (\<lambda>(pad, lm). ?f (frame_of lm)) (fst (layout s)) w"
      using Cons.prems True lk by (intro run_graphs_linked [OF _ assms(2)]) simp_all
    also have "\<dots> = visit_section name srt layout cb s w"
      unfolding visit_section_def using True lk
      by (auto intro!: for_each_cong simp: frame_of_functions)
    finally have one: "try_r (run_graphs c api ?f ?d w) (\<lambda>(d, w). Ok w) =
        visit_section name srt layout cb s w" .
    have run: "runOnSection c api ?f s (d, w) = run_graphs c api ?f ?d w"
      using Cons.prems True by (simp add: runOnSection_def)
    show ?thesis
    proof (cases "run_graphs c api ?f ?d w")
      case (Ok x)
      obtain d' w' where x: "x = (d', w')" by (cases x)
      with one Ok have "visit_section name srt layout cb s w = Ok w'" by simp
      with Cons True Ok run x show ?thesis by simp
    next
      case (Err e)
      with one True run show ?thesis by (simp flip: one)
    next
      case Abort
      with one True run show ?thesis by (simp flip: one)
    qed
  qed
qed simp

lemma readEdges_layout:
  assumes "image_ok canon srt c api ss layout name" and "codec_ok c"
  shows "readEdges c api cb w = for_each (visit_section name srt layout cb) ss w"
proof -
  have "object_sections api w = Ok ss" "graph_section (SectionNames (isApple api w)) = name"
    using assms(1) by (simp_all add: image_ok_def)
  moreover have "\<forall>s\<in>set ss. sec_name s = name \<longrightarrow>
      (\<forall>w. copyData api (unat (sec_size s)) (sec_start s) w =
          Ok (section_bytes (fst (layout s)) (snd (layout s)), w)) \<and>
      all_served api (sec_start s) 0 (fst (layout s)) \<and>
      (\<forall>(pad, lm)\<in>set (fst (layout s)). linked_ok canon srt c lm)"
    using assms(1) unfolding image_ok_def by (rule conjunct2)
  ultimately show ?thesis
    using on_sections [OF _ assms(2)] by (simp add: readEdges_def Let_def)
qed

text \<open>
  C1. \<open>readEdges\<close> on an image whose graph sections hold the output of finished writer runs
  (zero padding between the graphs allowed) is the loop that calls back once per function written,
  section by section, module by module, in the order of writing; it fails exactly when a callback
  fails, with the callback's error.
\<close>

theorem readEdges_image:
  assumes "image_ok canon srt c api ss layout name" and "codec_ok c"
  shows "readEdges c api cb w = for_each (visit_section name srt layout cb) ss w"
  using assms by (rule readEdges_layout)

lemma module_infos_nth:
  "i < length ws \<Longrightarrow> \<exists>d'. infos_of srt addrs d ws ! i = info_of srt addrs d' (ws ! i)"
proof (induction ws arbitrary: i d)
  case (Cons w ws)
  then show ?case by (cases i) auto
qed simp

lemma length_infos_of [simp]: "length (infos_of srt addrs d ws) = length ws"
  by (induction ws arbitrary: d) simp_all

lemma linked_function:
  assumes "linked_ok canon srt c lm" and "sorter_ok srt" and "i < length (lm_written lm)"
  shows "let w = lm_written lm ! i; addrs = pg_addresses (lm_graph lm);
             fi = module_infos srt lm ! i
    in fi_function fi = Node (push_bit 16 (addrs ! unat (w_symbol w) + 1)) \<and>
       fi_num_locals fi = of_nat (length (w_locals w)) \<and> fi_num_allocas fi = w_allocas w \<and>
       fi_sbom_info fi = sbom_of_strings (w_component w) (w_version w) \<and>
       (lm_debug lm \<longrightarrow> (\<forall>j<length (w_locals w).
          local_name (fi_debug_data fi) j = Ok (w_locals w ! j))) \<and>
       (\<forall>k. \<exists>es. mset es = mset (map (reloc_edge addrs) (kind_edges k w)) \<and>
          (\<forall>cb (s :: 's). visitEdges fi k cb s = for_each cb es s))"
proof -
  let ?w = "lm_written lm ! i" and ?addrs = "pg_addresses (lm_graph lm)"
  let ?fi = "module_infos srt lm ! i"
  note lf = linked_functions [OF assms(1)]
  have a: "addresses_ok (length (Symbols (lm_writer lm))) ?addrs"
    using assms(1) by (simp add: linked_ok_def)
  have w: "written_ok srt (length (Symbols (lm_writer lm))) ?w" using lf(6) assms(3) by simp
  obtain d' where fi: "?fi = info_of srt ?addrs d' ?w"
    using module_infos_nth [OF assms(3)] unfolding module_infos_def by blast
  have names: "local_name (fi_debug_data ?fi) j = Ok (w_locals ?w ! j)"
    if "lm_debug lm" and j: "j < length (w_locals ?w)" for j
  proof -
    have "list_all2 (string_at (strings (lm_writer lm))) (local_names (lm_writer lm))
        (concat (map w_locals (lm_written lm)))"
      using lf(4) that by (simp add: names_ok_def)
    moreover have "gdd_local_indices (debug_data_of (lm_writer lm)) = Some (local_names (lm_writer lm))"
      using lf(5) that by (simp add: debug_data_of_def)
    ultimately show ?thesis
      unfolding module_infos_def using lf(3) assms(3) j by (rule infos_of_names)
  qed
  have edges: "\<exists>es. mset es = mset (map (reloc_edge ?addrs) (kind_edges k ?w)) \<and>
      (\<forall>cb (s :: 's). visitEdges ?fi k cb s = for_each cb es s)" for k
    unfolding fi
    by (intro exI [of _ "read_order srt ?addrs ?w k"] conjI allI read_order_mset [OF w a assms(2)]
        visitEdges_info [OF w a assms(2)])
  have fields: "fi_function ?fi = Node (push_bit 16 (?addrs ! unat (w_symbol ?w) + 1))"
    "fi_num_locals ?fi = of_nat (length (w_locals ?w))" "fi_num_allocas ?fi = w_allocas ?w"
    "fi_sbom_info ?fi = sbom_of_strings (w_component ?w) (w_version ?w)"
    unfolding fi by (simp_all add: info_of_def function_node_def)
  show ?thesis
    unfolding Let_def by (intro conjI impI allI fields names edges)
qed

text \<open>
  C2. Each function the reader reports is the one that was written: its node carries the address the
  linker gave the symbol, the counts of locals and allocas and the SBOM strings are the writer's,
  the debug names are those given to \<open>freshLocal\<close>, and visiting the edges of any kind calls
  back exactly on the edges added, relocated, in some order.
\<close>

theorem function_roundtrip:
  assumes "linked_ok canon srt c lm" and "sorter_ok srt" and "i < length (lm_written lm)"
  shows "let w = lm_written lm ! i; addrs = pg_addresses (lm_graph lm);
             fi = module_infos srt lm ! i
    in fi_function fi = Node (push_bit 16 (addrs ! unat (w_symbol w) + 1)) \<and>
       fi_num_locals fi = of_nat (length (w_locals w)) \<and> fi_num_allocas fi = w_allocas w \<and>
       fi_sbom_info fi = sbom_of_strings (w_component w) (w_version w) \<and>
       (lm_debug lm \<longrightarrow> (\<forall>j<length (w_locals w).
          local_name (fi_debug_data fi) j = Ok (w_locals w ! j))) \<and>
       (\<forall>k. \<exists>es. mset es = mset (map (reloc_edge addrs) (kind_edges k w)) \<and>
          (\<forall>cb (s :: 's). visitEdges fi k cb s = for_each cb es s))"
  using assms by (rule linked_function)

section \<open>An example image\<close>

text \<open>
  A codec that meets \<open>codec_ok\<close>: words in four bytes each, no compression; and one module
  with one function, one local called \<open>x\<close> and the edge from the function's symbol to it.
\<close>

definition plain_codec :: codec where
  "plain_codec =
     \<lparr>svb_padding = 16,
      svb_encode = (\<lambda>ws. concat (map le32 ws)),
      svb_validate = (\<lambda>bs len n. len = of_nat (4 * n)),
      svb_decode = (\<lambda>bs n. read_words32 n bs),
      svb_delta_encode = (\<lambda>ws. concat (map le32 ws)),
      svb_delta_decode = (\<lambda>bs n. read_words32 n bs),
      zstd_compress = id, zstd_content_size = (\<lambda>b. Some (length b)),
      zstd_decompress = (\<lambda>cap b. if length b \<le> cap then Some b else None)\<rparr>"

lemma plain_codec_ok: "codec_ok plain_codec"
  by (simp add: codec_ok_def plain_codec_def read_words32_le32 length_concat_le32)

definition ex_fun :: llvm_function where
  "ex_fun = \<lparr>fn_object = \<lparr>gid = 7, go_comdat = None, local_linkage = False\<rparr>, fn_file = None\<rparr>"

definition ex_gw1 :: graph_writer where
  "ex_gw1 = (GraphWriter_init None None (\<lambda>_. None) True)
     \<lparr>has_active_function_writer := True, num_functions := 1, Symbols := [(7, 0)],
      symbols_in_order := [7], StringBlobIndices := [('''', 0)], StringBlob := [nul]\<rparr>"

definition ex_gw2 :: graph_writer where
  "ex_gw2 = ex_gw1
     \<lparr>StringBlobIndices := [('''', 0), (''x'', 1)], StringBlob := [nul, CHR ''x'', nul],
      local_names := [1]\<rparr>"

definition ex_gw :: graph_writer where
  "ex_gw = ex_gw2\<lparr>has_active_function_writer := False,
     function_data := [0, 0, 0, 1, 1, 1, 0, 2, 0, 0, 0, 0, 0, 0, 0]\<rparr>"

definition ex_fw :: function_writer where
  "ex_fw = \<lparr>ThisSymbolIdx = 0, SbomComponentIdx = 0, SbomVersionIdx = 0, Written = False,
     fw_record_debug_data = True, num_locals = 0, m_edges = (\<lambda>_. [])\<rparr>"

definition ex_edge :: edge where
  "ex_edge = Edge AssignK (Node 0x10001) (Node 0x10000) 0"

definition ex_written :: written where
  "ex_written = \<lparr>w_symbol = 0, w_component = '''', w_version = '''', w_locals = [''x''],
     w_allocas = 1, w_edges = [ex_edge]\<rparr>"

definition plain_sort :: sorter where
  "plain_sort lt xs = xs"

lemma plain_sort_ok: "sorter_ok plain_sort"
  by (simp add: sorter_ok_def plain_sort_def)

lemma ex_start:
  "FunctionWriter_init (\<lambda>d f. f) ex_fun True (GraphWriter_init None None (\<lambda>_. None) True) =
    Ok (ex_fw, ex_gw1)"
  by (simp add: FunctionWriter_init_def GraphWriter_init_def gw_symbol_def ex_fun_def Let_def
      underlying_object_def assertComdat_def requiredComdat_def node_symbol_def node_symbol_of_def
      is_node_def symbol_of_def sbom_strings_def getSbomInfoOfFunction_def gw_string_def
      ex_fw_def ex_gw1_def)

lemma ex_local:
  "freshLocal ''x'' (ex_fw, ex_gw1) = Ok (Node 0x10001, ex_fw\<lparr>num_locals := 1\<rparr>, ex_gw2)"
  by (simp add: freshLocal_def ex_fw_def ex_gw1_def ex_gw2_def gw_string_def node_local_def Let_def
      GraphWriter_init_def)

lemma ex_add:
  "addEdge ex_edge (ex_fw\<lparr>num_locals := 1\<rparr>) =
    Ok (ex_fw\<lparr>num_locals := 1, m_edges := (\<lambda>_. [])(AssignK := [(0, 1, 0)])\<rparr>)"
  by (simp add: addEdge_def encode_node_def node_local_idx_def is_node_def local_idx_of_def
      symbol_of_def ex_edge_def ex_fw_def Let_def)

lemma ex_finish:
  "\<exists>fw. finish plain_sort 1 (ex_fw\<lparr>num_locals := 1, m_edges := (\<lambda>_. [])(AssignK := [(0, 1, 0)])\<rparr>,
     ex_gw2) = Ok (fw, ex_gw)"
  by (simp add: finish_def ex_fw_def ex_gw2_def ex_gw1_def ex_gw_def as_u32_def visit_tuple_def
      all_kinds_def finish_kind_def plain_sort_def u32_of_size_def Let_def zigzag_encode_def
      GraphWriter_init_def sign_shift)

lemma ex_edge_ok: "edge_ok 1 0 1 ex_edge"
  by (simp add: edge_ok_def node_ok_def ex_edge_def is_node_def local_idx_of_def symbol_of_def Let_def)

lemma ex_run: "writer_run (\<lambda>d f. f) plain_sort True ex_gw None [ex_written]"
proof -
  let ?run = "writer_run (\<lambda>d f. f) plain_sort True"
  let ?w = "\<lparr>w_symbol = 0, w_component = '''', w_version = '''', w_locals = [], w_allocas = 0,
    w_edges = []\<rparr>"
  have 0: "?run (GraphWriter_init None None (\<lambda>_. None) True) None []" by (rule run_init)
  have "sbom_texts (getSbomInfoOfFunction (\<lambda>d f. f) ex_fun
      (GraphWriter_init None None (\<lambda>_. None) True)) = ('''', '''')"
    by (simp add: sbom_texts_def getSbomInfoOfFunction_def ex_fun_def GraphWriter_init_def)
  from run_function [OF 0 ex_start this] have 1: "?run ex_gw1 (Some (ex_fw, ?w)) []"
    by (simp add: ex_fw_def)
  from run_local [OF 1 ex_local]
  have 2: "?run ex_gw2 (Some (ex_fw\<lparr>num_locals := 1\<rparr>, ?w\<lparr>w_locals := [''x'']\<rparr>)) []" by simp
  have "edge_ok (length (Symbols ex_gw2)) (ThisSymbolIdx (ex_fw\<lparr>num_locals := 1\<rparr>))
      (unat (num_locals (ex_fw\<lparr>num_locals := 1\<rparr>))) ex_edge"
    using ex_edge_ok by (simp add: ex_gw2_def ex_gw1_def ex_fw_def)
  from run_edge [OF 2 this ex_add]
  have 3: "?run ex_gw2 (Some (ex_fw\<lparr>num_locals := 1, m_edges := (\<lambda>_. [])(AssignK := [(0, 1, 0)])\<rparr>,
      ?w\<lparr>w_locals := [''x''], w_edges := [ex_edge]\<rparr>)) []" by simp
  from ex_finish obtain fw where "finish plain_sort 1
      (ex_fw\<lparr>num_locals := 1, m_edges := (\<lambda>_. [])(AssignK := [(0, 1, 0)])\<rparr>, ex_gw2) = Ok (fw, ex_gw)" ..
  from run_finish [OF 3 _ this] show ?thesis by (simp add: ex_written_def)
qed

definition ex_module :: module_globals where
  "ex_module = (case writeTo plain_codec ex_gw of Ok m \<Rightarrow> m)"

lemma ex_writeTo: "writeTo plain_codec ex_gw = Ok ex_module"
  unfolding ex_module_def
  by (simp add: writeTo_def ex_gw_def ex_gw2_def ex_gw1_def plain_codec_def u32_of_size_def
      GraphWriter_init_def Let_def length_concat_le32)

definition ex_graph :: placed_graph where
  "ex_graph = \<lparr>pg_module = ex_module, pg_pointers = replicate 16 0, pg_debug_address = 0x2000,
     pg_addresses = [0x1000]\<rparr>"

definition ex_linked :: linked_module where
  "ex_linked = \<lparr>lm_writer = ex_gw, lm_written = [ex_written], lm_debug = True,
     lm_graph = ex_graph\<rparr>"

lemma ex_linked_ok: "linked_ok (\<lambda>d f. f) plain_sort plain_codec ex_linked"
  using ex_run ex_writeTo
  by (simp add: linked_ok_def ex_linked_def ex_graph_def addresses_ok_def symbol_ok_def no_nul_def
      strings_def ex_gw_def ex_gw2_def ex_gw1_def nul_def)

definition ex_section :: obj_section where
  "ex_section = \<lparr>sec_name = ''GR_graph_edges'', sec_start = 0x4000,
     sec_size = of_nat (length (section_bytes [(4, ex_linked)] 3))\<rparr>"

definition ex_api :: "'w object_api" where
  "ex_api =
     \<lparr>isApple = (\<lambda>_. False), object_sections = (\<lambda>_. Ok [ex_section]),
      symbolName = (\<lambda>_ w. Ok (''main'', w)),
      copyData = (\<lambda>n a w. Ok (if a = 0x4000 then section_bytes [(4, ex_linked)] 3
        else debug_global ex_module, w)),
      resolvePointers = (\<lambda>n a w. Ok (if a = 0x402c then [0x2000] else [0x1000], w))\<rparr>"

definition ex_layout :: "obj_section \<Rightarrow> (nat \<times> linked_module) list \<times> nat" where
  "ex_layout s = ([(4, ex_linked)], 3)"

lemma ex_image_ok:
  "image_ok (\<lambda>d f. f) plain_sort plain_codec ex_api [ex_section] ex_layout ''GR_graph_edges''"
  using ex_linked_ok
  by (simp add: image_ok_def ex_api_def ex_section_def SectionNames_def ex_layout_def served_def
      ex_linked_def ex_graph_def pointerSize_def header_size_def)

theorem readEdges_image_witness:
  "readEdges plain_codec ex_api (\<lambda>fi n. Ok (n + unat (fi_num_locals fi))) 41 = Ok 42"
  unfolding readEdges_image [OF ex_image_ok plain_codec_ok]
  by (simp add: visit_section_def ex_section_def ex_layout_def module_infos_def ex_linked_def
      ex_written_def info_of_def)

theorem function_roundtrip_witness:
  "local_name (fi_debug_data (module_infos plain_sort ex_linked ! 0)) 0 = Ok ''x'' \<and>
   (\<exists>es. mset es = {#Edge AssignK (Node 0x10010001) (Node 0x10010000) 0#} \<and>
     (\<forall>cb (s :: nat). visitEdges (module_infos plain_sort ex_linked ! 0) AssignK cb s =
        for_each cb es s))"
proof -
  have l: "0 < length (lm_written ex_linked)" by (simp add: ex_linked_def)
  note r = function_roundtrip [OF ex_linked_ok plain_sort_ok l, where 's = nat, unfolded Let_def]
  have w: "lm_written ex_linked ! 0 = ex_written" "lm_debug ex_linked"
    "pg_addresses (lm_graph ex_linked) = [0x1000]" by (simp_all add: ex_linked_def ex_graph_def)
  have e: "mset (map (reloc_edge [0x1000]) (kind_edges AssignK ex_written)) =
      {#Edge AssignK (Node 0x10010001) (Node 0x10010000) 0#}"
    by (simp add: kind_edges_def ex_written_def ex_edge_def reloc_edge_def reloc_node_def
        symbol_of_def)
  have "local_name (fi_debug_data (module_infos plain_sort ex_linked ! 0)) 0 = Ok ''x''"
    using r by (simp add: w) (simp add: ex_written_def)
  moreover have "\<exists>es. mset es = mset (map (reloc_edge [0x1000]) (kind_edges AssignK ex_written)) \<and>
     (\<forall>cb (s :: nat). visitEdges (module_infos plain_sort ex_linked ! 0) AssignK cb s =
        for_each cb es s)"
    using r unfolding w by blast
  ultimately show ?thesis unfolding e by blast
qed

end
