(* ===== verification/Read_Run.thy ===== *)
theory Read_Run
  imports Graph_Reader
begin

text \<open>
  What the clients of \<open>readEdges\<close> know of a successful read: it is a run of callbacks on functions
  between reads of the object, and the edges a function calls back on are a fixed list that does not
  depend on the callback. The analyses prove their results over these runs.
\<close>

section \<open>What a run of the reader does\<close>

text \<open>
  \<open>readEdges\<close> as its callers see it: reads of the object interleaved with calls of the callback on
  some functions.
\<close>

inductive read_run :: "'w object_api \<Rightarrow> (function_info \<Rightarrow> 'w \<Rightarrow> 'w result) \<Rightarrow> 'w \<Rightarrow> function_info list \<Rightarrow> 'w \<Rightarrow> bool"
  for api cb w where
  start: "read_run api cb w [] w"
| copy: "read_run api cb w fis w1 \<Longrightarrow> copyData api n a w1 = Ok (bs, w2) \<Longrightarrow> read_run api cb w fis w2"
| resolve: "read_run api cb w fis w1 \<Longrightarrow> resolvePointers api n a w1 = Ok (ps, w2) \<Longrightarrow> read_run api cb w fis w2"
| callback: "read_run api cb w fis w1 \<Longrightarrow> cb fi w1 = Ok w2 \<Longrightarrow> read_run api cb w (fis @ [fi]) w2"

lemma read_functions_run:
  "read_functions cb n fr w1 = Ok w2 \<Longrightarrow> read_run api cb w fis w1 \<Longrightarrow> \<exists>fis'. read_run api cb w (fis @ fis') w2"
proof (induction n arbitrary: fr w1 fis)
  case 0
  then show ?case by (auto intro: exI [of _ "[]"])
next
  case (Suc n)
  from Suc.prems(1) obtain fi fr' w3 where s: "cb fi w1 = Ok w3" "read_functions cb n fr' w3 = Ok w2"
    by (auto simp: ok_iff)
  from Suc.IH [OF s(2) read_run.callback [OF Suc.prems(2) s(1)]] show ?case
    by (auto intro: exI [of _ "fi # _"])
qed

lemma parse_debug_data_run:
  assumes "parse_debug_data c api h a buf w1 = Ok (dd, buf', w2)"
  shows "\<exists>n bs. copyData api n a w1 = Ok (bs, w2)"
  using assms by (auto simp: parse_debug_data_def ok_iff Let_def split: option.splits)

lemma consumeOneGraph_run:
  assumes "consumeOneGraph c api d w1 = Ok (fr, d', w2)" and "read_run api cb w fis w1"
  shows "read_run api cb w fis w2"
proof -
  from assms(1) obtain n1 a1 p1 w3 n2 a2 p2 w4 h a3 buf dd buf'
    where "resolvePointers api n1 a1 w1 = Ok (p1, w3)" "resolvePointers api n2 a2 w3 = Ok (p2, w4)"
      "parse_debug_data c api h a3 buf w4 = Ok (dd, buf', w2)"
    by (auto simp: consumeOneGraph_def ok_iff Let_def)
  with assms(2) parse_debug_data_run [OF this(3)] show ?thesis
    by (blast intro: read_run.resolve read_run.copy)
qed

lemma run_graphs_run:
  assumes "run_graphs c api (\<lambda>fr. read_functions cb (k fr) fr) d w1 = Ok (d', w2)"
    and "read_run api cb w fis w1"
  shows "\<exists>fis'. read_run api cb w (fis @ fis') w2"
  using assms
proof (induction c api "\<lambda>fr. read_functions cb (k fr) fr" d w1 arbitrary: fis rule: run_graphs.induct)
  case (1 c api d w1)
  show ?case
  proof (cases "d' = d \<and> w2 = w1")
    case True
    with 1(3) show ?thesis by (auto intro: exI [of _ "[]"])
  next
    case False
    with 1(2) obtain j fr d1 w3 w4 where j: "section_data_cursor d < length (full_section_data d)"
      "find_from magic_bytes (drop (section_data_cursor d) (full_section_data d)) = Some j"
      and one: "consumeOneGraph c api (d\<lparr>section_data_cursor := section_data_cursor d + j\<rparr>) w1 = Ok (fr, d1, w3)"
      and fns: "read_functions cb (k fr) fr w3 = Ok w4"
      and rest: "run_graphs c api (\<lambda>fr. read_functions cb (k fr) fr) d1 w4 = Ok (d', w2)"
      by (subst (asm) run_graphs.simps) (auto simp: ok_iff split: if_splits option.splits)
    from consumeOneGraph_run [OF one 1(3)] read_functions_run [OF fns] obtain fis1
      where r: "read_run api cb w (fis @ fis1) w4" by blast
    from 1(1) [OF j one refl refl fns rest r] show ?thesis by auto
  qed
qed

lemma on_section_run:
  assumes "runOnSection c api (\<lambda>fr. read_functions cb (k fr) fr) s (d, w1) = Ok (d', w2)"
    and "read_run api cb w fis w1"
  shows "\<exists>fis'. read_run api cb w (fis @ fis') w2"
  using assms run_graphs_run read_run.copy
  by (fastforce simp: runOnSection_def ok_iff)

text \<open>A successful read is such a run.\<close>

lemma readEdges_run:
  assumes "readEdges c api cb w = Ok w'"
  shows "\<exists>fis. read_run api cb w fis w'"
proof -
  let ?names = "SectionNames (isApple api w)"
  let ?f = "\<lambda>s dw. if sec_name s \<noteq> graph_section ?names then Ok dw
     else runOnSection c api (\<lambda>fr. read_functions cb (unat (hdr_num_functions (fr_header fr))) fr) s dw"
  let ?d0 = "\<lparr>full_section_data = [], section_data_cursor = 0, section_start = 0,
                decompressed_debug_data = []\<rparr>"
  obtain ss d1 where l: "for_each ?f ss (?d0, w) = Ok (d1, w')"
    using assms by (auto simp: readEdges_def Let_def ok_iff)
  define P where "P dw \<longleftrightarrow> (\<exists>fis. read_run api cb w fis (snd dw))" for dw :: "frame_decoder \<times> 'a"
  have "P (d1, w')"
  proof (rule for_each_inv [OF l])
    show "P (?d0, w)" unfolding P_def snd_conv by (rule exI, rule read_run.start)
    fix s and dw dw' :: "frame_decoder \<times> 'a"
    assume p: "P dw" and "?f s dw = Ok dw'"
    then have d: "dw' = dw \<or> runOnSection c api
        (\<lambda>fr. read_functions cb (unat (hdr_num_functions (fr_header fr))) fr) s (fst dw, snd dw) =
        Ok (fst dw', snd dw')" by (auto split: if_splits)
    from p obtain fis where r: "read_run api cb w fis (snd dw)" by (auto simp: P_def)
    from d show "P dw'"
    proof
      assume "runOnSection c api
        (\<lambda>fr. read_functions cb (unat (hdr_num_functions (fr_header fr))) fr) s (fst dw, snd dw) =
        Ok (fst dw', snd dw')"
      from on_section_run [OF this r] show ?thesis by (auto simp: P_def)
    qed (use p in simp)
  qed
  then show ?thesis by (simp add: P_def)
qed

section \<open>The edges of a function\<close>

text \<open>\<open>visitAllEdges\<close> calls back on a fixed list of edges, whatever the callback does.\<close>

definition edges_of :: "function_info \<Rightarrow> edge list result" where
  "edges_of fi = visitAllEdges fi (\<lambda>e es. Ok (es @ [e])) []"

lemma visit_words_log:
  "visit_words addrs this k cb prev ws s = Ok s' \<Longrightarrow>
    \<exists>es. (\<forall>xs. visit_words addrs this k (\<lambda>e es. Ok (es @ [e])) prev ws xs = Ok (xs @ es)) \<and>
      for_each cb es s = Ok s' \<and> (\<forall>e\<in>set es. kind e = k)"
proof (induction addrs this k cb prev ws s rule: visit_words.induct)
  case (1 addrs this k cb prev s)
  then show ?case by (auto intro: exI [of _ "[]"])
next
  case (3 addrs this k cb prev x y rest s)
  let ?to = "prev + zigzag_decode x" and ?from = "prev + zigzag_decode x + zigzag_decode y"
  let ?G = "\<lambda>e t f s1 ws'. decode_node addrs ?to this = Ok t \<and> decode_node addrs ?from this = Ok f \<and>
    cb e s = Ok s1 \<and> kind e = k \<and> visit_words addrs this k cb ?from ws' s1 = Ok s' \<and>
    (\<forall>xs. visit_words addrs this k (\<lambda>e es. Ok (es @ [e])) prev (x # y # rest) xs =
      visit_words addrs this k (\<lambda>e es. Ok (es @ [e])) ?from ws' (xs @ [e])) \<and>
    (\<exists>es. (\<forall>xs. visit_words addrs this k (\<lambda>e es. Ok (es @ [e])) ?from ws' xs = Ok (xs @ es)) \<and>
      for_each cb es s1 = Ok s' \<and> (\<forall>e\<in>set es. kind e = k))"
  have "\<exists>e t f s1 ws'. ?G e t f s1 ws'"
  proof (cases "indexed k")
    case True
    obtain z ws' where r: "rest = z # ws'" using 3(3) True by (cases rest) (auto simp: Let_def ok_iff)
    with True 3(3) obtain t f e s1 where g: "decode_node addrs ?to this = Ok t"
      "decode_node addrs ?from this = Ok f" "rest = z # ws'" "mk_edge k t f z = Ok e" "cb e s = Ok s1"
      "visit_words addrs this k cb ?from ws' s1 = Ok s'"
      by (auto simp: Let_def ok_iff split: list.splits)
    from g(4) have "kind e = k" by (auto simp: mk_edge_def ok_iff)
    with g True 3(1) [OF refl refl g(1,2) True g(3,4,5,6)] show ?thesis
      by (intro exI [of _ e] exI [of _ t] exI [of _ f] exI [of _ s1] exI [of _ ws']) (simp add: Let_def)
  next
    case False
    with 3(3) obtain t f e s1 where g: "decode_node addrs ?to this = Ok t"
      "decode_node addrs ?from this = Ok f" "mk_edge k t f 0 = Ok e" "cb e s = Ok s1"
      "visit_words addrs this k cb ?from rest s1 = Ok s'"
      by (auto simp: Let_def ok_iff)
    from g(3) have "kind e = k" by (auto simp: mk_edge_def ok_iff)
    with g False 3(2) [OF refl refl g(1,2) False g(3,4,5)] show ?thesis
      by (intro exI [of _ e] exI [of _ t] exI [of _ f] exI [of _ s1] exI [of _ rest]) (simp add: Let_def)
  qed
  then obtain e t f s1 ws' es where g: "?G e t f s1 ws'" and es:
    "\<forall>xs. visit_words addrs this k (\<lambda>e es. Ok (es @ [e])) ?from ws' xs = Ok (xs @ es)"
    "for_each cb es s1 = Ok s'" "\<forall>e\<in>set es. kind e = k" by blast
  then show ?case by (intro exI [of _ "e # es"]) (simp del: visit_words.simps)
qed auto

lemma visitEdges_log:
  assumes "visitEdges fi k cb s = Ok s'"
  shows "\<exists>es. (\<forall>xs. visitEdges fi k (\<lambda>e es. Ok (es @ [e])) xs = Ok (xs @ es)) \<and> for_each cb es s = Ok s' \<and>
    (\<forall>e\<in>set es. kind e = k)"
proof (cases "fi_edge_data fi k = []")
  case True
  with assms show ?thesis by (intro exI [of _ "[]"]) (simp add: visitEdges_def)
next
  case False
  with assms obtain this where this: "node_symbol_of (fi_function fi) = Ok this"
    and v: "visit_words (fi_symbol_addresses fi) this k cb 0 (fi_edge_data fi k) s = Ok s'"
    by (auto simp: visitEdges_def ok_iff)
  from visit_words_log [OF v] this False show ?thesis by (simp add: visitEdges_def)
qed

lemma visit_kinds_log:
  "for_each (\<lambda>k. visitEdges fi k cb) ks s = Ok s' \<Longrightarrow>
    \<exists>es. (\<forall>xs. for_each (\<lambda>k. visitEdges fi k (\<lambda>e es. Ok (es @ [e]))) ks xs = Ok (xs @ es)) \<and>
      for_each cb es s = Ok s'"
proof (induction ks arbitrary: s)
  case Nil
  then show ?case by (auto intro: exI [of _ "[]"])
next
  case (Cons k ks)
  from Cons.prems obtain s1 where s1: "visitEdges fi k cb s = Ok s1"
    "for_each (\<lambda>k. visitEdges fi k cb) ks s1 = Ok s'" by (auto simp: ok_iff)
  from visitEdges_log [OF s1(1)] Cons.IH [OF s1(2)] obtain es1 es2 where
    "\<forall>xs. visitEdges fi k (\<lambda>e es. Ok (es @ [e])) xs = Ok (xs @ es1)" "for_each cb es1 s = Ok s1"
    "\<forall>xs. for_each (\<lambda>k. visitEdges fi k (\<lambda>e es. Ok (es @ [e]))) ks xs = Ok (xs @ es2)"
    "for_each cb es2 s1 = Ok s'" by blast
  then show ?case by (intro exI [of _ "es1 @ es2"]) (simp add: for_each_append)
qed

lemma visitAllEdges_log:
  assumes "visitAllEdges fi cb s = Ok s'"
  shows "\<exists>es. edges_of fi = Ok es \<and> for_each cb es s = Ok s'"
proof -
  from visit_kinds_log [OF assms [unfolded visitAllEdges_def visit_tuple_def]] show ?thesis
    unfolding edges_of_def visitAllEdges_def visit_tuple_def by fastforce
qed

text \<open>A step of a loop that establishes a fact which later steps keep.\<close>

lemma for_each_each:
  assumes "for_each f xs s = Ok s'" and "x \<in> set xs" and "\<And>s t. f x s = Ok t \<Longrightarrow> Q t"
    and "\<And>y s t. Q s \<Longrightarrow> f y s = Ok t \<Longrightarrow> Q t"
  shows "Q s'"
  using assms(1,2)
proof (induction xs arbitrary: s)
  case (Cons y ys)
  from Cons.prems(1) obtain t where t: "f y s = Ok t" "for_each f ys t = Ok s'" by (auto simp: ok_iff)
  show ?case
  proof (cases "y = x")
    case True
    show ?thesis
      by (rule for_each_inv [OF t(2), where P = Q]) (use assms(3) t(1) True assms(4) in blast)+
  next
    case False
    with Cons t(2) show ?thesis by simp
  qed
qed simp

end
