(* ===== verification/Read_Log.thy ===== *)
theory Read_Log
  imports Graph_Roundtrip Read_Run
begin

text \<open>
  Which functions a client of \<open>readEdges\<close> sees. \<open>functions_read\<close> is the reader itself with the client's
  callback and a list of the functions it called back on; on an image that finished writer runs
  produced that list is the functions of all its graphs.
\<close>

section \<open>The reader with a log\<close>

definition logged ::
  "(function_info \<Rightarrow> 'w \<Rightarrow> 'w result) \<Rightarrow> function_info \<Rightarrow> 'w \<times> function_info list
     \<Rightarrow> ('w \<times> function_info list) result" where
  "logged cb fi s = try_r (cb fi (fst s)) (\<lambda>w. Ok (w, snd s @ [fi]))"

definition functions_read ::
  "codec \<Rightarrow> 'w object_api \<Rightarrow> (function_info \<Rightarrow> 'w \<Rightarrow> 'w result) \<Rightarrow> 'w \<Rightarrow> function_info list result" where
  "functions_read c api cb w = try_r (readEdges c (lift_api api) (logged cb) (w, [])) (\<lambda>s. Ok (snd s))"

lemma logged_ok [simp]: "cb fi w = Ok w' \<Longrightarrow> logged cb fi (w, l) = Ok (w', l @ [fi])"
  by (simp add: logged_def)

text \<open>A part of a run from \<open>w1\<close> to \<open>w2\<close> that calls back on \<open>fis\<close>.\<close>

definition run_part ::
  "'w object_api \<Rightarrow> (function_info \<Rightarrow> 'w \<Rightarrow> 'w result) \<Rightarrow> 'w \<Rightarrow> function_info list \<Rightarrow> 'w \<Rightarrow> bool" where
  "run_part api cb w1 fis w2 \<longleftrightarrow>
     (\<forall>w pre. read_run api cb w pre w1 \<longrightarrow> read_run api cb w (pre @ fis) w2)"

lemma run_part_refl: "run_part api cb w [] w"
  by (simp add: run_part_def)

lemma run_part_trans:
  "run_part api cb w1 xs w2 \<Longrightarrow> run_part api cb w2 ys w3 \<Longrightarrow> run_part api cb w1 (xs @ ys) w3"
  by (simp add: run_part_def flip: append_assoc)

lemma read_functions_logged:
  "read_functions cb n fr w1 = Ok w2 \<Longrightarrow>
    \<exists>fis. run_part api cb w1 fis w2 \<and>
      (\<forall>l. read_functions (logged cb) n fr (w1, l) = Ok (w2, l @ fis))"
proof (induction n arbitrary: fr w1)
  case 0
  then show ?case by (intro exI [of _ "[]"]) (simp add: run_part_refl)
next
  case (Suc n)
  from Suc.prems obtain fi fr' w3 where s: "read_function fr = Ok (fi, fr')" "cb fi w1 = Ok w3"
    "read_functions cb n fr' w3 = Ok w2" by (auto simp: ok_iff)
  from Suc.IH [OF s(3)] obtain fis where f: "run_part api cb w3 fis w2"
    "\<forall>l. read_functions (logged cb) n fr' (w3, l) = Ok (w2, l @ fis)" by blast
  have "run_part api cb w1 [fi] w3" using s(2) by (auto simp: run_part_def intro: read_run.callback)
  from run_part_trans [OF this f(1)] s f(2) show ?case
    by (intro exI [of _ "fi # fis"]) simp
qed

lemma try_r_into:
  "try_r (ensure b m k) f = ensure b m (try_r k f)" "try_r (assert_r b k) f = assert_r b (try_r k f)"
  "try_r (try_ctx t m2 g) f = try_ctx t m2 (\<lambda>x. try_r (g x) f)"
  by (cases b, simp_all, cases b, simp_all, cases m2, simp_all)

lemma parse_debug_data_lift:
  assumes "parse_debug_data c api h a buf w = Ok (dd, buf', w')"
  shows "parse_debug_data c (lift_api api) h a buf (w, l) = Ok (dd, buf', w', l)"
proof -
  have "parse_debug_data c (lift_api api) h a buf (w, l) =
      try_r (parse_debug_data c api h a buf w) (\<lambda>(dd, buf, w). Ok (dd, buf, w, l))"
    by (cases "copyData api (unat (debug_data_compressed_size h)) a w")
      (simp_all add: parse_debug_data_def Let_def try_r_into try_r_assoc split: option.split prod.split)
  with assms show ?thesis by simp
qed

lemma consumeAddresses_lift:
  assumes "consumeAddresses api n what d w = Ok (ps, d', w')"
  shows "consumeAddresses (lift_api api) n what d (w, l) = Ok (ps, d', w', l)"
  using assms by (auto simp: ok_iff)

lemma consumeOneGraph_lift:
  assumes "consumeOneGraph c api d w = Ok (fr, d', w')"
  shows "consumeOneGraph c (lift_api api) d (w, l) = Ok (fr, d', w', l)"
proof -
  from assms obtain hb d1 dda d2 w1 addrs d3 w2 comp d4 fd dd buf where s:
    "consumeBytes header_size ''graph header'' d = Ok (hb, d1)"
    "magic_number (header_of_bytes hb) = GRAPH_MAGIC_NUMBER"
    "consumeAddresses api 1 ''debug data address'' d1 w = Ok (dda, d2, w1)"
    "consumeAddresses api (unat (num_symbols (header_of_bytes hb))) ''symbol addresses'' d2 w1 = Ok (addrs, d3, w2)"
    "consumeBytes (unat (function_data_compressed_size (header_of_bytes hb))) ''compressed function data'' d3 =
       Ok (comp, d4)"
    "decode_function_data c (header_of_bytes hb) comp = Ok fd"
    "parse_debug_data c api (header_of_bytes hb) (hd dda) (decompressed_debug_data d4) w2 = Ok (dd, buf, w')"
    "fr = \<lparr>fr_header = header_of_bytes hb, fr_function_data = fd, fr_symbol_addresses = addrs,
      fr_debug_data = dd\<rparr>" "d' = d4\<lparr>decompressed_debug_data := buf\<rparr>"
    unfolding consumeOneGraph_def Let_def
    by (clarsimp simp del: consumeBytes_ok consumeAddresses_ok simp: try_r_ok assert_r_ok)
  note l = consumeAddresses_lift [OF s(3)] consumeAddresses_lift [OF s(4)] parse_debug_data_lift [OF s(7)]
  show ?thesis unfolding consumeOneGraph_def Let_def s l
    by (simp only: s l prod.case try_r_simps assert_r_simps simp_thms)
qed

lemma consumeOneGraph_part:
  "consumeOneGraph c api d w = Ok (fr, d', w') \<Longrightarrow> run_part api cb w [] w'"
  by (simp add: run_part_def consumeOneGraph_run)

abbreviation frame_callback ::
  "(function_info \<Rightarrow> 'w \<Rightarrow> 'w result) \<Rightarrow> frame \<Rightarrow> 'w \<Rightarrow> 'w result" where
  "frame_callback cb \<equiv> (\<lambda>fr. read_functions cb (unat (hdr_num_functions (fr_header fr))) fr)"

lemma run_graphs_stop:
  assumes "\<not> (section_data_cursor d < length (full_section_data d) \<and>
    find_from magic_bytes (drop (section_data_cursor d) (full_section_data d)) \<noteq> None)"
  shows "run_graphs c api f d w = Ok (d, w)"
  using assms by (subst run_graphs.simps) auto

lemma run_graphs_logged:
  assumes "run_graphs c api (frame_callback cb) d w = Ok (d', w')"
  shows "\<exists>fis. run_part api cb w fis w' \<and>
    (\<forall>l. run_graphs c (lift_api api) (frame_callback (logged cb)) d (w, l) = Ok (d', w', l @ fis))"
  using assms
proof (induction c api "frame_callback cb" d w rule: run_graphs.induct)
  case (1 c api d w)
  let ?lt = "section_data_cursor d < length (full_section_data d)"
  let ?find = "find_from magic_bytes (drop (section_data_cursor d) (full_section_data d))"
  show ?case
  proof (cases "?lt \<and> ?find \<noteq> None")
    case False
    note stop = run_graphs_stop [OF False]
    from 1(2) have "d' = d" "w' = w" by (simp_all add: stop)
    then show ?thesis by (intro exI [of _ "[]"]) (simp add: run_part_refl stop)
  next
    case True
    then obtain j where j: ?lt "?find = Some j" by blast
    let ?d = "d\<lparr>section_data_cursor := section_data_cursor d + j\<rparr>"
    from 1(2) j obtain fr d1 w1 w2 where g: "consumeOneGraph c api ?d w = Ok (fr, d1, w1)"
      and f: "frame_callback cb fr w1 = Ok w2"
      and r: "run_graphs c api (frame_callback cb) d1 w2 = Ok (d', w')"
      by (subst (asm) run_graphs.simps) (auto simp: ok_iff)
    from 1(1) [OF j g refl refl f r] obtain fis2 where i2: "run_part api cb w2 fis2 w'"
      "\<forall>l. run_graphs c (lift_api api) (frame_callback (logged cb)) d1 (w2, l) = Ok (d', w', l @ fis2)"
      by blast
    from read_functions_logged [OF f] obtain fis1 where i1: "run_part api cb w1 fis1 w2"
      "\<forall>l. frame_callback (logged cb) fr (w1, l) = Ok (w2, l @ fis1)" by blast
    from run_part_trans [OF consumeOneGraph_part [OF g] run_part_trans [OF i1(1) i2(1)]]
    have "run_part api cb w (fis1 @ fis2) w'" by simp
    moreover have "run_graphs c (lift_api api) (frame_callback (logged cb)) d (w, l) =
        Ok (d', w', l @ fis1 @ fis2)" for l
      by (subst run_graphs.simps) (simp add: j consumeOneGraph_lift [OF g] i1(2) i2(2))
    ultimately show ?thesis by blast
  qed
qed

lemma section_logged:
  assumes "runOnSection c api (frame_callback cb) s (d, w) = Ok (d', w')"
  shows "\<exists>fis. run_part api cb w fis w' \<and>
    (\<forall>l. runOnSection c (lift_api api) (frame_callback (logged cb)) s (d, w, l) = Ok (d', w', l @ fis))"
proof -
  from assms obtain bs w1 where b: "copyData api (unat (sec_size s)) (sec_start s) w = Ok (bs, w1)"
    and r: "run_graphs c api (frame_callback cb) (d\<lparr>full_section_data := bs, section_data_cursor := 0,
      section_start := sec_start s\<rparr>) w1 = Ok (d', w')" by (auto simp: runOnSection_def ok_iff)
  have p: "run_part api cb w [] w1" using b by (auto simp: run_part_def intro: read_run.copy)
  from run_graphs_logged [OF r] obtain fis where "run_part api cb w1 fis w'"
    "\<forall>l. run_graphs c (lift_api api) (frame_callback (logged cb)) (d\<lparr>full_section_data := bs,
      section_data_cursor := 0, section_start := sec_start s\<rparr>) (w1, l) = Ok (d', w', l @ fis)" by blast
  with run_part_trans [OF p] b show ?thesis by (intro exI [of _ fis]) (auto simp: runOnSection_def)
qed

lemma sections_logged:
  fixes api :: "'w object_api"
  assumes "for_each (\<lambda>s dw. if sec_name s \<noteq> name then Ok dw
      else runOnSection c api (frame_callback cb) s dw) ss (d, w) = Ok (d', w')"
  shows "\<exists>fis. run_part api cb w fis w' \<and>
    (\<forall>l. for_each (\<lambda>s dw. if sec_name s \<noteq> name then Ok dw
      else runOnSection c (lift_api api) (frame_callback (logged cb)) s dw) ss (d, w, l) =
      Ok (d', w', l @ fis))"
  using assms
proof (induction ss arbitrary: d w)
  case Nil
  then show ?case by (intro exI [of _ "[]"]) (simp add: run_part_refl)
next
  case (Cons s ss)
  show ?case
  proof (cases "sec_name s = name")
    case False
    with Cons show ?thesis by simp
  next
    case True
    with Cons.prems obtain d1 w1 where r: "runOnSection c api (frame_callback cb) s (d, w) = Ok (d1, w1)"
      and rest: "for_each (\<lambda>s dw. if sec_name s \<noteq> name then Ok dw
        else runOnSection c api (frame_callback cb) s dw) ss (d1, w1) = Ok (d', w')"
      by (auto simp: ok_iff)
    from section_logged [OF r] Cons.IH [OF rest] obtain xs ys where
      x: "run_part api cb w xs w1" "\<forall>l. runOnSection c (lift_api api) (frame_callback (logged cb)) s (d, w, l) =
        Ok (d1, w1, l @ xs)" and y: "run_part api cb w1 ys w'"
      "\<forall>l. for_each (\<lambda>s dw. if sec_name s \<noteq> name then Ok dw
        else runOnSection c (lift_api api) (frame_callback (logged cb)) s dw) ss (d1, w1, l) =
        Ok (d', w', l @ ys)" by blast
    from run_part_trans [OF x(1) y(1)] True x(2) y(2) show ?thesis
      by (intro exI [of _ "xs @ ys"]) simp
  qed
qed

text \<open>A successful read has a log, and is a run that calls back on exactly the functions logged.\<close>

lemma readEdges_logged:
  assumes "readEdges c api cb w = Ok w'"
  obtains fis where "functions_read c api cb w = Ok fis" and "read_run api cb w fis w'"
proof -
  from assms obtain ss d where "object_sections api w = Ok ss" and
    "for_each (\<lambda>s dw. if sec_name s \<noteq> graph_section (SectionNames (isApple api w)) then Ok dw
      else runOnSection c api (frame_callback cb) s dw) ss (\<lparr>full_section_data = [],
        section_data_cursor = 0, section_start = 0, decompressed_debug_data = []\<rparr>, w) = Ok (d, w')"
    by (auto simp: readEdges_def Let_def ok_iff)
  note ss = this(1) and l = sections_logged [OF this(2)]
  from l obtain fis where p: "run_part api cb w fis w'" and "functions_read c api cb w = Ok fis"
    using ss by (auto simp: functions_read_def readEdges_def Let_def)
  with p [unfolded run_part_def, rule_format, OF read_run.start] show thesis by (auto intro: that)
qed

section \<open>The functions of an image\<close>

definition image_infos ::
  "string \<Rightarrow> sorter \<Rightarrow> (obj_section \<Rightarrow> (nat \<times> linked_module) list \<times> nat) \<Rightarrow> obj_section list
     \<Rightarrow> function_info list" where
  "image_infos name srt layout ss =
     concat (map (\<lambda>s. concat (map (\<lambda>(pad, lm). module_infos srt lm) (fst (layout s))))
       (filter (\<lambda>s. sec_name s = name) ss))"

lemma for_each_concat: "for_each (\<lambda>x. for_each f (g x)) xs s = for_each f (concat (map g xs)) s"
proof (induction xs arbitrary: s)
  case (Cons x xs)
  then show ?case by (cases "for_each f (g x) s") (simp_all add: for_each_append)
qed simp

lemma visit_sections_infos:
  "for_each (visit_section name srt layout cb) ss s = for_each cb (image_infos name srt layout ss) s"
proof (induction ss arbitrary: s)
  case (Cons x ss)
  have "(\<lambda>(pad, lm). for_each cb (module_infos srt lm)) =
      (\<lambda>pl. for_each cb ((\<lambda>(pad :: nat, lm). module_infos srt lm) pl))" by auto
  then show ?case using Cons
    by (cases "visit_section name srt layout cb x s")
      (simp_all add: visit_section_def image_infos_def for_each_concat for_each_append split: if_splits)
qed (simp add: image_infos_def)

lemma for_each_logged:
  "for_each (logged cb) fis (w, l) = Ok (w', l') \<Longrightarrow> l' = l @ fis"
proof (induction fis arbitrary: w l)
  case (Cons fi fis)
  from Cons.prems obtain w1 where "for_each (logged cb) fis (w1, l @ [fi]) = Ok (w', l')"
    by (cases "cb fi w") (auto simp: logged_def [of cb fi])
  from Cons.IH [OF this] show ?case by simp
qed simp

lemma all_served_lift: "all_served api a n ms \<Longrightarrow> all_served (lift_api api) a n ms"
  by (induction api a n ms rule: all_served.induct) (auto simp: served_def)

lemma image_ok_lift:
  "image_ok canon srt c api ss layout name \<Longrightarrow> image_ok canon srt c (lift_api api) ss layout name"
  by (auto simp: image_ok_def intro: all_served_lift)

lemma functions_read_image:
  assumes "functions_read c api cb w = Ok fis" and "image_ok canon srt c api ss layout name" and "codec_ok c"
  shows "fis = image_infos name srt layout ss"
proof -
  from assms(1) obtain w' where "readEdges c (lift_api api) (logged cb) (w, []) = Ok (w', fis)"
    by (auto simp: functions_read_def ok_iff)
  with readEdges_layout [OF image_ok_lift [OF assms(2)] assms(3)] visit_sections_infos
  have "for_each (logged cb) (image_infos name srt layout ss) (w, []) = Ok (w', fis)" by metis
  from for_each_logged [OF this] show ?thesis by simp
qed

end
