(* ===== verification/Pass_Spec.thy ===== *)
theory Pass_Spec imports Reachability_Module Read_Log begin

text \<open>
  The properties of the compiler pass as a whole: what it leaves in a module, that its graphs are what the
  reader expects and its labels what the reader of the debug information expects, and a module it
  does not get through. The example is evaluated from the first global variable to the bytes of the graph.
\<close>

section \<open>What a module gets\<close>

lemma writeTo_fits:
  assumes "writeTo c gw = Ok m" and "num_symbols (gg_header (graph_global m)) \<le> 2 ^ 31"
  shows "fits gw" "length (function_data gw) < 2 ^ 32"
proof -
  from assms(1) have l: "length (StringBlob gw) < 2 ^ 32" "length (Symbols gw) < 2 ^ 32" "length (function_data gw) < 2 ^ 32"
    and n: "num_symbols (gg_header (graph_global m)) = of_nat (length (Symbols gw))"
    by (auto simp: writeTo_def u32_of_size_def Let_def ok_iff)
  from assms(2) have "of_nat (length (Symbols gw)) \<le> (2 ^ 31 :: u32)" by (simp only: n)
  then have "length (Symbols gw) \<le> 2 ^ 31" using l(2) by (simp add: word_le_nat_alt unat_of_nat_small)
  with l show "fits gw" "length (function_data gw) < 2 ^ 32" by (simp_all add: fits_def)
qed

lemma writeTo_symbols: "writeTo c gw = Ok m \<Longrightarrow> gg_symbols (graph_global m) = symbols_in_order gw"
  by (auto simp: writeTo_def Let_def ok_iff)

text \<open>The graphs of a module: each comdat with its writer and what it wrote.\<close>

type_synonym module_graph = "comdat option \<times> graph_writer \<times> written list"

lemma pass_module_graphs:
  assumes "runBraceletReachability env canon srt c n M = Ok (Some (a, ms))"
    and "\<And>F. F \<in> set (m_functions M) \<Longrightarrow> distinct (map fst (pf_body F))"
    and "\<And>m. m \<in> set ms \<Longrightarrow> num_symbols (gg_header (graph_global m)) \<le> 2 ^ 31"
  obtains gs :: "module_graph list" where "distinct (map fst gs)" "list_all2 (\<lambda>(C, gw, ws) m. writeTo c gw = Ok m) gs ms"
    "module_graphs env canon srt M a (map_of gs)"
    "\<And>C gw ws. (C, gw, ws) \<in> set gs \<Longrightarrow> writer_run canon srt (\<not> NoIncludeDebugData env) gw None ws \<and> fits gw"
proof -
  from pass_graphs [OF assms(1,2)] obtain gws where gws: "distinct (map fst gws)"
    "list_all2 (\<lambda>(C, gw) m. writeTo c gw = Ok m) gws ms"
    and g: "(\<forall>(C, gw)\<in>set gws. fits gw) \<longrightarrow>
      (\<exists>gs. (\<forall>C. map_option fst (gs C) = map_of gws C) \<and> module_graphs env canon srt M a gs)" by blast
  have fit: "fits gw" if "(C, gw) \<in> set gws" for C gw
  proof -
    from that obtain k where "k < length gws" "gws ! k = (C, gw)" by (auto simp: in_set_conv_nth)
    with gws(2) have "writeTo c gw = Ok (ms ! k)" "ms ! k \<in> set ms" by (auto simp: list_all2_conv_all_nth)
    with writeTo_fits(1) assms(3) show ?thesis by blast
  qed
  with g obtain gs where gs: "\<And>C. map_option fst (gs C) = map_of gws C" and mg: "module_graphs env canon srt M a gs" by blast
  let ?gs = "map (\<lambda>(C, gw). (C, gw, snd (the (gs C)))) gws"
  have "map_of ?gs C = gs C" for C
  proof -
    have "map_of ?gs = (\<lambda>C. map_option (\<lambda>gw. (gw, snd (the (gs C)))) (map_of gws C))"
      by (induction gws) (auto simp: fun_eq_iff)
    then show ?thesis using gs [of C] by (cases "gs C") auto
  qed
  then have m: "map_of ?gs = gs" by (rule ext)
  have keys: "map fst ?gs = map fst gws" by (induction gws) auto
  have "writer_run canon srt (\<not> NoIncludeDebugData env) gw None ws \<and> fits gw" if "(C, gw, ws) \<in> set ?gs" for C gw ws
  proof -
    have "distinct (map fst ?gs)" unfolding keys by (rule gws(1))
    from map_of_is_SomeI [OF this that] have "map_of ?gs C = Some (gw, ws)" .
    then have "gs C = Some (gw, ws)" by (simp only: m)
    moreover have "fits gw" using that fit by auto
    ultimately show ?thesis using mg unfolding module_graphs_def by blast
  qed
  moreover have "list_all2 (\<lambda>(C, gw, ws) m. writeTo c gw = Ok m) ?gs ms"
    using gws(2) by (simp add: list_all2_map1 case_prod_beta')
  moreover have "distinct (map fst ?gs)" using gws(1) by (simp only: keys)
  ultimately show thesis using that [of ?gs] mg m by simp
qed

lemma written_typed:
  assumes "writer_run canon srt dbg gw None ws" and "fits gw" and "w \<in> set ws"
  shows "written_ok srt (length (symbols_in_order gw)) w"
proof -
  have "writer_inv srt dbg gw None ws" using run_fits [OF assms(1,2)] .
  then obtain parts where "list_all2 (stored srt (strings gw) (length (symbols_in_order gw))) ws parts"
    by (auto simp: writer_inv_def tables_inv_def history_ok_def)
  then show ?thesis using assms(3) by (auto simp: list_all2_conv_all_nth in_set_conv_nth stored_def)
qed

lemma written_count:
  assumes "writer_run canon srt dbg gw None ws" and "fits gw"
  shows "length ws \<le> length (function_data gw)"
proof -
  have count: "list_all2 (stored srt strs k) ws parts \<Longrightarrow> length ws \<le> length (concat parts)" for strs k ws parts
    by (induction rule: list_all2_induct) (auto simp: stored_def function_words_def)
  from run_fits [OF assms] show ?thesis
    using count by (auto simp: writer_inv_def tables_inv_def history_ok_def)
qed

text \<open>
  C3. What \<open>runBraceletReachability\<close> leaves in a module, when it finishes: the
  graph of each comdat is the output of a finished run of its graph writer, in which every function
  that is not skipped has its graph (each alloca a numbered local, each argument
  defined, each instruction its edges, each call its arguments, callee and label, and in a traced build
  the inserted calls), and every initializer a store into its global.
\<close>

theorem runBraceletReachability_graphs:
  assumes "runBraceletReachability env canon srt c n M = Ok (Some (a, ms))"
    and "\<And>F. F \<in> set (m_functions M) \<Longrightarrow> distinct (map fst (pf_body F))"
    and "\<And>m. m \<in> set ms \<Longrightarrow> num_symbols (gg_header (graph_global m)) \<le> 2 ^ 31"
  shows "\<exists>gs. distinct (map fst gs) \<and> list_all2 (\<lambda>(C, gw, ws) m. writeTo c gw = Ok m) gs ms \<and>
    module_graphs env canon srt M a (map_of gs)"
proof (rule pass_module_graphs [OF assms])
  fix gs :: "module_graph list"
  assume "distinct (map fst gs)" "list_all2 (\<lambda>(C, gw, ws) m. writeTo c gw = Ok m) gs ms"
    "module_graphs env canon srt M a (map_of gs)"
  then show ?thesis by blast
qed

text \<open>
  C17. Every edge the pass writes is well typed: it joins nodes that are symbols of the graph's table
  or locals of its function within their number, only the kinds with an index carry one, and the allocas
  are among the locals.
\<close>

theorem pass_edges_typed:
  assumes "runBraceletReachability env canon srt c n M = Ok (Some (a, ms))"
    and "\<And>F. F \<in> set (m_functions M) \<Longrightarrow> distinct (map fst (pf_body F))"
    and "\<And>m. m \<in> set ms \<Longrightarrow> num_symbols (gg_header (graph_global m)) \<le> 2 ^ 31"
  shows "list_all (\<lambda>m. \<exists>gw ws. writeTo c gw = Ok m \<and> writer_run canon srt (\<not> NoIncludeDebugData env) gw None ws \<and>
    (\<forall>w\<in>set ws. unat (w_allocas w) \<le> length (w_locals w) \<and> length (w_locals w) < 2 ^ 16 \<and>
      (\<forall>e\<in>set (w_edges w). edge_ok (length (gg_symbols (graph_global m))) (w_symbol w) (length (w_locals w)) e))) ms"
proof (rule pass_module_graphs [OF assms])
  fix gs :: "module_graph list"
  assume l: "list_all2 (\<lambda>(C, gw, ws) m. writeTo c gw = Ok m) gs ms"
    and r: "\<And>C gw ws. (C, gw, ws) \<in> set gs \<Longrightarrow> writer_run canon srt (\<not> NoIncludeDebugData env) gw None ws \<and> fits gw"
  show ?thesis
    unfolding list_all_length
  proof (intro allI impI)
    fix k
    assume k: "k < length ms"
    obtain C gw ws where g: "gs ! k = (C, gw, ws)" by (metis prod_cases3)
    from l k have "k < length gs" by (simp add: list_all2_conv_all_nth)
    then have "(C, gw, ws) \<in> set gs" using nth_mem [of k gs] by (simp add: g)
    from l k g have w: "writeTo c gw = Ok (ms ! k)" by (auto simp: list_all2_conv_all_nth)
    from \<open>(C, gw, ws) \<in> set gs\<close>
    have run: "writer_run canon srt (\<not> NoIncludeDebugData env) gw None ws" "fits gw" using r by blast+
    have "gg_symbols (graph_global (ms ! k)) = symbols_in_order gw"
      by (rule writeTo_symbols [OF w])
    with w run written_typed [OF run] show "\<exists>gw ws. writeTo c gw = Ok (ms ! k) \<and>
        writer_run canon srt (\<not> NoIncludeDebugData env) gw None ws \<and>
        (\<forall>w\<in>set ws. unat (w_allocas w) \<le> length (w_locals w) \<and> length (w_locals w) < 2 ^ 16 \<and>
          (\<forall>e\<in>set (w_edges w). edge_ok (length (gg_symbols (graph_global (ms ! k)))) (w_symbol w) (length (w_locals w)) e))"
      by (intro exI [of _ gw] exI [of _ ws]) (simp add: written_ok_def)
  qed
qed

lemma linked_pass:
  assumes "writer_run canon srt dbg gw None ws" and "fits gw" and "writeTo c gw = Ok m"
    and "pg_module pg = m" "no_nul (strings gw)" "addresses_ok (length (Symbols gw)) (pg_addresses pg)"
  shows "linked_ok canon srt c \<lparr>lm_writer = gw, lm_written = ws, lm_debug = dbg, lm_graph = pg\<rparr>"
proof -
  have "length (function_data gw) < 2 ^ 32" using assms(3) by (auto simp: writeTo_def u32_of_size_def Let_def ok_iff)
  then have "length ws < 2 ^ 32" using written_count [OF assms(1,2)] by simp
  with assms show ?thesis by (simp add: linked_ok_def)
qed

text \<open>
  Where the linker puts the graphs of a module: one section, the graphs one behind the other with some
  padding before each and a tail of zeros, their relocated addresses and debug data in memory.
\<close>

fun graphs_bytes :: "(nat \<times> placed_graph) list \<Rightarrow> nat \<Rightarrow> bytes" where
  "graphs_bytes [] tail = replicate tail 0"
| "graphs_bytes ((pad, pg) # pgs) tail = replicate pad 0 @ image_of pg @ graphs_bytes pgs tail"

fun graphs_served :: "'w object_api \<Rightarrow> u64 \<Rightarrow> nat \<Rightarrow> (nat \<times> placed_graph) list \<Rightarrow> bool" where
  "graphs_served api start cur [] = True"
| "graphs_served api start cur ((pad, pg) # pgs) =
     (served api (start + of_nat (cur + pad)) pg \<and>
      graphs_served api start (cur + pad + length (image_of pg)) pgs)"

definition holds_graphs :: "'w object_api \<Rightarrow> obj_section \<Rightarrow> (nat \<times> placed_graph) list \<Rightarrow> nat \<Rightarrow> bool" where
  "holds_graphs api sec pgs tail \<longleftrightarrow>
     (\<forall>w. object_sections api w = Ok [sec] \<and> graph_section (SectionNames (isApple api w)) = sec_name sec \<and>
        copyData api (unat (sec_size sec)) (sec_start sec) w = Ok (graphs_bytes pgs tail, w)) \<and>
     graphs_served api (sec_start sec) 0 pgs"

text \<open>A placed graph of a module: the global the pass left, and an address for each of its symbols.\<close>

definition placed :: "module_globals \<Rightarrow> placed_graph \<Rightarrow> bool" where
  "placed m pg \<longleftrightarrow> pg_module pg = m \<and> addresses_ok (length (gg_symbols (graph_global m))) (pg_addresses pg)"

text \<open>
  What the reader says of a function that was written: its address, counts and SBOM strings, and its edges,
  kind by kind, with the relocated nodes.
\<close>

definition reported_as :: "u64 list \<Rightarrow> written \<Rightarrow> function_info \<Rightarrow> bool" where
  "reported_as addrs w fi \<longleftrightarrow>
     fi_function fi = Node (push_bit 16 (addrs ! unat (w_symbol w) + 1)) \<and>
     fi_num_locals fi = of_nat (length (w_locals w)) \<and> fi_num_allocas fi = w_allocas w \<and>
     fi_sbom_info fi = sbom_of_strings (w_component w) (w_version w) \<and>
     (\<forall>k. \<exists>es. visitEdges fi k (\<lambda>e es. Ok (es @ [e])) [] = Ok es \<and>
        mset es = mset (map (reloc_edge addrs) (kind_edges k w)))"

lemma linked_reported:
  assumes "linked_ok canon srt c lm" and "sorter_ok srt" and "w \<in> set (lm_written lm)"
  shows "\<exists>fi\<in>set (module_infos srt lm). reported_as (pg_addresses (lm_graph lm)) w fi"
proof -
  from assms(3) obtain i where i: "i < length (lm_written lm)" "lm_written lm ! i = w" by (auto simp: in_set_conv_nth)
  have "\<exists>es. visitEdges (module_infos srt lm ! i) k (\<lambda>e es. Ok (es @ [e])) [] = Ok es \<and>
      mset es = mset (map (reloc_edge (pg_addresses (lm_graph lm))) (kind_edges k w))" for k
  proof -
    from linked_function [OF assms(1,2) i(1), where 's = "edge list"] i(2) obtain es where
      es: "mset es = mset (map (reloc_edge (pg_addresses (lm_graph lm))) (kind_edges k w))"
      and v: "\<And>cb s. visitEdges (module_infos srt lm ! i) k cb (s :: edge list) = for_each cb es s"
      unfolding Let_def by blast
    have "for_each (\<lambda>e es. Ok (es @ [e])) es xs = Ok (xs @ es)" for es xs :: "edge list"
      by (induction es arbitrary: xs) simp_all
    with v es show ?thesis by simp
  qed
  moreover have "module_infos srt lm ! i \<in> set (module_infos srt lm)"
    using i(1) by (simp add: module_infos_def)
  ultimately show ?thesis
    using linked_function [OF assms(1,2) i(1), where 's = unit] i(2) by (auto simp: reported_as_def Let_def)
qed

text \<open>The modules of a section, and the section as the reader's theorem has it.\<close>

definition linked_modules :: "bool \<Rightarrow> module_graph list \<Rightarrow> (nat \<times> placed_graph) list \<Rightarrow> (nat \<times> linked_module) list" where
  "linked_modules dbg gs pgs =
     map2 (\<lambda>(C, gw, ws) (pad, pg). (pad, \<lparr>lm_writer = gw, lm_written = ws, lm_debug = dbg, lm_graph = pg\<rparr>)) gs pgs"

lemma linked_modules_bytes:
  "length gs = length pgs \<Longrightarrow> section_bytes (linked_modules dbg gs pgs) tail = graphs_bytes pgs tail"
  by (induction gs pgs rule: list_induct2) (auto simp: linked_modules_def)

lemma linked_modules_served:
  "length gs = length pgs \<Longrightarrow> all_served api start cur (linked_modules dbg gs pgs) = graphs_served api start cur pgs"
  by (induction gs pgs arbitrary: cur rule: list_induct2) (auto simp: linked_modules_def)

lemma placed_linked:
  assumes "writer_run canon srt dbg gw None ws" and "fits gw" and "writeTo c gw = Ok m" and "placed m pg"
    and "no_nul (strings gw)"
  shows "linked_ok canon srt c \<lparr>lm_writer = gw, lm_written = ws, lm_debug = dbg, lm_graph = pg\<rparr>"
proof -
  have "gg_symbols (graph_global m) = symbols_in_order gw" by (rule writeTo_symbols [OF assms(3)])
  moreover have "length (symbols_in_order gw) = length (Symbols gw)"
    using run_fits [OF assms(1,2)] by (simp add: writer_inv_def tables_inv_def symbols_ok_def)
  ultimately show ?thesis using assms by (intro linked_pass [where m = m]) (auto simp: placed_def)
qed

lemma linked_modules_nth:
  assumes "k < length gs" "length gs = length pgs" "gs ! k = (C, gw, ws)"
  shows "(fst (pgs ! k), \<lparr>lm_writer = gw, lm_written = ws, lm_debug = dbg, lm_graph = snd (pgs ! k)\<rparr>) \<in>
    set (linked_modules dbg gs pgs)"
proof -
  have "linked_modules dbg gs pgs ! k =
      (fst (pgs ! k), \<lparr>lm_writer = gw, lm_written = ws, lm_debug = dbg, lm_graph = snd (pgs ! k)\<rparr>)"
    using assms by (simp add: linked_modules_def case_prod_beta')
  moreover have "k < length (linked_modules dbg gs pgs)" using assms by (simp add: linked_modules_def)
  ultimately show ?thesis by (metis nth_mem)
qed

lemma linked_modules_ok:
  assumes "list_all2 (\<lambda>(C, gw, ws) m. writeTo c gw = Ok m) gs ms"
    and "\<And>C gw ws. (C, gw, ws) \<in> set gs \<Longrightarrow>
      writer_run canon srt dbg gw None ws \<and> fits gw \<and> no_nul (strings gw)"
    and "list_all2 (\<lambda>m (pad, pg). placed m pg) ms pgs" and "(pad, lm) \<in> set (linked_modules dbg gs pgs)"
  shows "linked_ok canon srt c lm"
proof -
  have len: "length gs = length ms" "length ms = length pgs"
    using assms(1,3) by (simp_all add: list_all2_lengthD)
  from assms(4) obtain k where k: "k < length gs" "linked_modules dbg gs pgs ! k = (pad, lm)"
    using len by (auto simp: in_set_conv_nth linked_modules_def)
  obtain C gw ws where g: "gs ! k = (C, gw, ws)" by (cases "gs ! k")
  obtain p pg where q: "pgs ! k = (p, pg)" by (cases "pgs ! k")
  have "lm = \<lparr>lm_writer = gw, lm_written = ws, lm_debug = dbg, lm_graph = pg\<rparr>"
    using k g q len by (simp add: linked_modules_def)
  moreover have "writeTo c gw = Ok (ms ! k)" "placed (ms ! k) pg"
    using assms(1,3) k(1) g q len by (auto simp: list_all2_conv_all_nth)
  moreover have "(C, gw, ws) \<in> set gs" using k(1) g by (metis nth_mem)
  ultimately show ?thesis using assms(2) placed_linked by blast
qed

lemma linked_modules_image:
  assumes "holds_graphs api sec pgs tail" and "length gs = length pgs"
    and "\<And>pad lm. (pad, lm) \<in> set (linked_modules dbg gs pgs) \<Longrightarrow> linked_ok canon srt c lm"
  shows "image_ok canon srt c api [sec] (\<lambda>_. (linked_modules dbg gs pgs, tail)) (sec_name sec)"
  using assms by (auto simp: image_ok_def holds_graphs_def linked_modules_bytes linked_modules_served)

text \<open>
  C4. The pass and the reader fit together. The graphs the pass leaves in a module come from one run of the
  graph writer per comdat; once a linker has put them into a section, with zeros between them and addresses
  for their symbols, and no interned name has a zero byte, \<open>readEdges\<close> on the object calls back on a fixed
  list of functions, and each function that the pass did not skip is among them: there is a function with
  the address of its symbol, its locals and allocas, and exactly the edges of its graph, relocated.
\<close>

theorem pass_to_reader:
  assumes "runBraceletReachability env canon srt c n M = Ok (Some (a, ms))"
    and "\<And>F. F \<in> set (m_functions M) \<Longrightarrow> distinct (map fst (pf_body F))"
    and "\<And>m. m \<in> set ms \<Longrightarrow> num_symbols (gg_header (graph_global m)) \<le> 2 ^ 31"
    and "codec_ok c" and "sorter_ok srt"
  shows "\<exists>gs :: module_graph list. list_all2 (\<lambda>(C, gw, ws) m. writeTo c gw = Ok m) gs ms \<and>
    (\<forall>(C, gw, ws)\<in>set gs. writer_run canon srt (\<not> NoIncludeDebugData env) gw None ws) \<and>
    ((\<forall>(C, gw, ws)\<in>set gs. no_nul (strings gw)) \<longrightarrow>
      (\<forall>pgs (api :: 's object_api) sec tail.
        list_all2 (\<lambda>m (pad, pg). placed m pg) ms pgs \<and> holds_graphs api sec pgs tail \<longrightarrow>
        (\<exists>fis. (\<forall>cb s. readEdges c api cb s = for_each cb fis s) \<and>
          (\<forall>F\<in>set (m_functions M). \<not> skipped F \<longrightarrow>
            (\<exists>k<length gs. \<exists>C gw ws w fi. gs ! k = (C, gw, ws) \<and> w \<in> set ws \<and> function_graph env F gw a w \<and>
              fi \<in> set fis \<and> reported_as (pg_addresses (snd (pgs ! k))) w fi)))))"
proof (rule pass_module_graphs [OF assms(1-3)])
  let ?dbg = "\<not> NoIncludeDebugData env"
  fix gs :: "module_graph list"
  assume l: "list_all2 (\<lambda>(C, gw, ws) m. writeTo c gw = Ok m) gs ms" and mg: "module_graphs env canon srt M a (map_of gs)"
    and r: "\<And>C gw ws. (C, gw, ws) \<in> set gs \<Longrightarrow> writer_run canon srt ?dbg gw None ws \<and> fits gw"
  show ?thesis
  proof (intro exI [of _ gs] conjI l impI allI)
    show "\<forall>(C, gw, ws)\<in>set gs. writer_run canon srt ?dbg gw None ws" using r by blast
  next
    fix pgs and api :: "'s object_api" and sec tail
    assume nn: "\<forall>(C, gw, ws)\<in>set gs. no_nul (strings gw)"
      and "list_all2 (\<lambda>m (pad, pg). placed m pg) ms pgs \<and> holds_graphs api sec pgs tail"
    then have p: "list_all2 (\<lambda>m (pad, pg). placed m pg) ms pgs" and h: "holds_graphs api sec pgs tail" by simp_all
    let ?lms = "linked_modules ?dbg gs pgs"
    have len: "length gs = length pgs" using l p by (simp add: list_all2_lengthD)
    have ok: "linked_ok canon srt c lm" if "(pad, lm) \<in> set ?lms" for pad lm
      using r nn by (intro linked_modules_ok [OF l _ p that]) blast
    let ?fis = "image_infos (sec_name sec) srt (\<lambda>_. (?lms, tail)) [sec]"
    have "readEdges c api cb s = for_each cb ?fis s" for cb s
      by (rule trans [OF readEdges_layout [OF linked_modules_image [OF h len ok] assms(4)] visit_sections_infos])
    moreover have "\<exists>k<length gs. \<exists>C gw ws w fi. gs ! k = (C, gw, ws) \<and> w \<in> set ws \<and> function_graph env F gw a w \<and>
        fi \<in> set ?fis \<and> reported_as (pg_addresses (snd (pgs ! k))) w fi"
      if F: "F \<in> set (m_functions M)" "\<not> skipped F" for F
    proof -
      from mg F obtain gw ws w where "map_of gs (go_comdat (fn_object (pf_function F))) = Some (gw, ws)"
        and w: "w \<in> set ws" "function_graph env F gw a w" unfolding module_graphs_def by blast
      then obtain C where "(C, gw, ws) \<in> set gs" by (blast dest: map_of_SomeD)
      then obtain k where k: "k < length gs" "gs ! k = (C, gw, ws)" by (auto simp: in_set_conv_nth)
      let ?lm = "\<lparr>lm_writer = gw, lm_written = ws, lm_debug = ?dbg, lm_graph = snd (pgs ! k)\<rparr>"
      have m: "(fst (pgs ! k), ?lm) \<in> set ?lms" by (rule linked_modules_nth [OF k(1) len k(2)])
      from linked_reported [OF ok [OF m] assms(5)] w(1) obtain fi where
        fi: "fi \<in> set (module_infos srt ?lm)" "reported_as (pg_addresses (snd (pgs ! k))) w fi" by auto
      have "fi \<in> set ?fis" using fi(1) m by (auto simp: image_infos_def intro!: bexI [OF _ m])
      with k w fi(2) show ?thesis by blast
    qed
    ultimately show "\<exists>fis. (\<forall>cb s. readEdges c api cb s = for_each cb fis s) \<and>
        (\<forall>F\<in>set (m_functions M). \<not> skipped F \<longrightarrow>
          (\<exists>k<length gs. \<exists>C gw ws w fi. gs ! k = (C, gw, ws) \<and> w \<in> set ws \<and> function_graph env F gw a w \<and>
            fi \<in> set fis \<and> reported_as (pg_addresses (snd (pgs ! k))) w fi))"
      by (intro exI [of _ ?fis]) blast
  qed
qed

lemma parse_label:
  "reads_decimal getAsInteger \<Longrightarrow> i < 2 ^ 64 \<Longrightarrow>
     ParseNodeIDFromName getAsInteger func (BraceletCallsiteDwarfLabelPrefix @ show_dec i) = node_local func (of_nat i)"
  by (simp add: ParseNodeIDFromName_def reads_decimal_def)

text \<open>
  C16. The DWARF label of a call and the graph agree: for every call with a debug location that is
  neither inline assembly, an intrinsic nor a call of the tracer, a label is attached from which the
  reader of the debug information gets back the local that stands for the call, and unless it calls
  \<open>dlsym\<close> that local has a call edge.
\<close>

theorem call_labels_parse:
  assumes "runBraceletReachability env canon srt c n M = Ok (Some (a, ms))"
    and "\<And>F. F \<in> set (m_functions M) \<Longrightarrow> distinct (map fst (pf_body F))"
    and "\<And>m. m \<in> set ms \<Longrightarrow> num_symbols (gg_header (graph_global m)) \<le> 2 ^ 31"
    and "F \<in> set (m_functions M)" "\<not> skipped F"
    and "(i, CallBase I) \<in> set (pf_body F)" "c_callee I \<noteq> InlineAsm" "c_intrinsic I = NotIntrinsic"
      "BraceletTraceMode env = TraceOff \<or> \<not> is_trace_call env I" "has_loc env i \<or> pf_subprogram F"
    and "reads_decimal getAsInteger"
  shows "\<exists>gw w l lab. function_graph env F gw a w \<and> unat l < length (w_locals w) \<and> (i, lab) \<in> set (call_labels a) \<and>
    ParseNodeIDFromName getAsInteger func lab = node_local func (of_nat (unat l)) \<and>
    (calls_dlsym env I \<or>
     (\<exists>e\<in>set (w_edges w). kind e = CallK \<and> symbol_of (to_node e) = w_symbol w \<and> local_idx_of (to_node e) = Some l))"
proof (rule pass_module_graphs [OF assms(1-3)])
  fix gs :: "module_graph list"
  assume mg: "module_graphs env canon srt M a (map_of gs)"
  then obtain gw w where w: "function_graph env F gw a w" using assms(4,5) unfolding module_graphs_def by blast
  then obtain ev where ev: "ev_added ev = a" and cov: "function_covered env F ev w" by (auto simp: function_graph_def)
  from cov assms(6) have "instr_covered env F (freed_allocas env F) (i, CallBase I) ev w"
    unfolding function_covered_def by blast
  then have "call_covered env F i I ev w" by (simp add: instr_covered_def)
  with assms(7-9) have "plain_call env F i I ev w" by (auto simp: call_covered_def)
  then obtain c where c: "local_node c ev w" "labelled env F i c ev w"
    and e: "calls_dlsym env I \<or> calls_node I c ev w" unfolding plain_call_def by meson
  from c(2) assms(10) obtain l where l: "local_idx_of c = Some l"
    and lab: "(i, BraceletCallsiteDwarfLabelPrefix @ show_dec (unat l)) \<in> set (call_labels a)"
    by (auto simp: labelled_def has_label_def ev)
  have "unat l < length (w_locals w)" "symbol_of c = w_symbol w" using c(1) l by (auto simp: local_node_def is_local_def)
  moreover have "unat l < 2 ^ LENGTH(16)" by (rule unsigned_less)
  then have "ParseNodeIDFromName getAsInteger func (BraceletCallsiteDwarfLabelPrefix @ show_dec (unat l)) =
      node_local func (of_nat (unat l))"
    using assms(11) by (intro parse_label) simp_all
  moreover have "calls_dlsym env I \<or>
     (\<exists>e\<in>set (w_edges w). kind e = CallK \<and> symbol_of (to_node e) = w_symbol w \<and> local_idx_of (to_node e) = Some l)"
    using e l \<open>symbol_of c = w_symbol w\<close> by (force simp: calls_node_def has_edge_def)
  ultimately show ?thesis using w lab by blast
qed

lemma for_each_visits: "for_each f xs s = Ok s' \<Longrightarrow> x \<in> set xs \<Longrightarrow> \<exists>t t'. f x t = Ok t'"
  by (induction xs arbitrary: s) (auto simp: ok_iff)

lemma null_edge: "emit_edge k t null_node i ev \<noteq> Ok ev'" "emit_edge k null_node f i ev \<noteq> Ok ev'"
  by (auto simp: emit_edge_def write_edge_def mk_edge_def ok_iff case_prod_beta)

text \<open>
  The constants for which \<open>constantNode\<close> finds no node: data, and compound constants all of whose operands,
  if any, are such constants.
\<close>

fun nodeless :: "ir_constant \<Rightarrow> bool" where
  "nodeless DataConst = True"
| "nodeless (CompoundConst nm Os) = (\<forall>C\<in>set Os. nodeless C)"
| "nodeless (GlobalConst G) = False"
| "nodeless OtherConst = False"

lemma nodeless_operands:
  "nodeless C \<longrightarrow> constantNode C s = Ok (null_node, s)"
  "(\<forall>C\<in>set Os. nodeless C) \<longrightarrow> fst b = null_node \<longrightarrow> build_operands nm Os b = Ok b"
proof (induction C s and nm Os b rule: constantNode_build_operands.induct)
  case (6 nm C Os Out fresh s)
  have "\<not> is_node null_node" by (simp add: is_node_def null_node_def)
  then show ?case using 6 by (auto simp: builder_add_def)
qed simp_all

lemma nodeless_null: "nodeless C \<Longrightarrow> constantNode C s = Ok (null_node, s)"
  using nodeless_operands(1) by blast

text \<open>
  C40. The pass does not get through a function with a \<open>memcpy\<close>, \<open>memmove\<close> or \<open>va_copy\<close> whose source or
  destination is a constant without a node, such as \<open>null\<close> or an expression over such constants: unlike a load, the
  copy does not ask whether there is a node, and the edge is refused.
\<close>

theorem copy_null_aborts:
  assumes "(i, CallBase I) \<in> set (pf_body F)" "c_callee I \<noteq> InlineAsm" "c_intrinsic I \<in> {MemCpy, MemMove, VaCopy}"
    and "BraceletTraceMode env = TraceOff \<or> \<not> is_trace_call env I"
    and "nodeless C" and "c_args I ! 1 = Const C \<or> c_args I ! 0 = Const C"
  shows "run_visitor env srt F s a \<noteq> Ok r"
proof
  assume "run_visitor env srt F s a = Ok r"
  then obtain ev ev' where "for_each (visit_one env F) (pf_body F) ev = Ok ev'" by (auto simp: run_visitor_def ok_iff)
  from for_each_visits [OF this assms(1)] obtain t t' where "visitCallBase env F i I t = Ok t'"
    by (auto simp: visit_one_def visit_instruction_def ok_iff)
  then obtain nm where "copy_through env nm I t = Ok t'" using assms(2-4) by (auto simp: visitCallBase_def)
  with assms(6) show False
    by (auto simp: copy_through_def node_for_def nodeless_null [OF assms(5)] ok_iff null_edge)
qed


section \<open>An example\<close>

text \<open>
  A function with one alloca, one argument, a store, a call and a return, and a global initialized
  with the addresses of two functions, in a build that traces everything.
\<close>

definition px_object :: "nat \<Rightarrow> global_object" where
  "px_object k = \<lparr>gid = k, go_comdat = None, local_linkage = False\<rparr>"

definition px_llvm_function :: llvm_function where
  "px_llvm_function = \<lparr>fn_object = px_object 1, fn_file = None\<rparr>"

definition px_call :: call_base where
  "px_call = \<lparr>c_callee = Const (GlobalConst (GlobalObject (px_object 2))), c_args = [Argument 7],
     c_called = Some (px_object 2), c_intrinsic = NotIntrinsic, c_void = False, c_params = 1, c_vararg = False\<rparr>"

definition px_function :: pass_function where
  "px_function = \<lparr>pf_function = px_llvm_function, pf_name = ''f'', pf_intrinsic = False, pf_declaration = False,
     pf_vararg = False, pf_args = [7], pf_subprogram = True,
     pf_body = [(0, AllocaInst True (Some 8)), (1, StoreInst (Instr 0) (Argument 7)), (2, CallBase px_call),
       (3, ReturnInst (Some (Instr 2)))]\<rparr>"

definition px_env :: pass_env where
  "px_env = \<lparr>BraceletEmitEdges = True, NoIncludeDebugData = True, BraceletTraceMode = TraceFull,
     BraceletComponentName = '''', BraceletVersion = '''', BraceletFileTable = '''',
     read_file = (\<lambda>_. None), parse_json = (\<lambda>_. None), SbomMap = (\<lambda>_. None), value_name = (\<lambda>_. ''''),
     operand_text = (\<lambda>_. ''''), stable_loc = (\<lambda>_. ''''), has_loc = (\<lambda>_. True), type_of = (\<lambda>_. PointerTy),
     pointer_size = 8, runtime_object = (\<lambda>_. px_object 9), has_point_after = (\<lambda>_. True),
     BraceletDlsymRuntime = ''dlsym.bc'', parse_bitcode = (\<lambda>_. None), link_in = (\<lambda>_. None),
     visits_inserted = False\<rparr>"

definition px_global :: global_var where
  "px_global = \<lparr>gv_object = px_object 3, gv_name = ''v'', gv_external_init = False,
     gv_initializer = Some (CompoundConst '''' [GlobalConst (GlobalObject (px_object 1)), DataConst,
        GlobalConst (GlobalObject (px_object 2))])\<rparr>"

definition px_module :: ir_module where
  "px_module = \<lparr>m_name = ''m'', m_globals = [px_global], m_functions = [px_function]\<rparr>"

lemmas pass_eval = run_visitor_def EdgeVisitor_init_def preprocessVisitAllocaInst_def fresh_local_def freshLocal_def
  setup_varargs_def define_argument_def node_for_def visit_one_def visit_instruction_def addStoreEdge_def emit_edge_def
  write_edge_def mk_edge_def addEdge_def encode_node_def node_local_idx_def traceValue_def traceSite_def add_global_def
  add_call_def insert_local_def local_name_for_def nameWithLocation_def this_function_def thisFunction_def
  visitCallBase_def is_trace_call_def call_node_def annotate_call_def calls_dlsym_def call_edges_def supply_argument_def
  resolve_alias_def trace_call_def is_indirect_def visitReturnInst_def global_node_def gw_symbol_def assertComdat_def
  requiredComdat_def node_symbol_def node_symbol_of_def is_node_def symbol_of_def local_idx_of_def node_local_def gw_string_def
  underlying_object_def Let_def TRACE_ALLOC_FUNCTION_NAMES_def


lemma px_run:
  "\<exists>a m. runBraceletReachability px_env (\<lambda>d f. f) plain_sort plain_codec 100 px_module = Ok (Some (a, [m])) \<and>
     num_symbols (gg_header (graph_global m)) = 4 \<and> string_blob_length (gg_header (graph_global m)) = 1 \<and>
     inserted a = [(AtEntry, AllocaAllocate 101 8), (Before 1, TraceWord 101 (Instr 0)), (Before 1, TraceWord 102 (Argument 7)),
       (Before 2, TraceWord 102 (Argument 7)), (Before 3, AllocaFree 0)]"
  by (simp add: pass_eval px_env_def px_function_def px_llvm_function_def px_object_def px_call_def GraphWriter_init_def
      px_module_def px_global_def runBraceletReachability_def visit_global_def has_edges_def has_prefix_def
      GlobalWriterForComdat_def GraphWriterForComdat_def new_object_def getSbomInfo_def getSbomMap_def FunctionWriter_init_def
      sbom_strings_def getSbomInfoOfFunction_def put_writer_def write_initializer_def builder_add_def finish_global_def
      finish_def as_u32_def visit_tuple_def all_kinds_def finish_kind_def plain_sort_def u32_of_size_def zigzag_encode_def
      sign_shift edit_function_def skipped_def GlobalValueFunctionPrefix_def writeTo_def plain_codec_def
      length_concat_le32 null_node_def)

lemma px_distinct: "F \<in> set (m_functions px_module) \<Longrightarrow> distinct (map fst (pf_body F))"
  by (simp add: px_module_def px_function_def)

lemma px_in: "px_function \<in> set (m_functions px_module)" "\<not> skipped px_function" "(2, CallBase px_call) \<in> set (pf_body px_function)"
  by (simp_all add: px_module_def px_function_def skipped_def GlobalValueFunctionPrefix_def has_prefix_def)

abbreviation px_pass :: "(additions \<times> module_globals list) option result" where
  "px_pass \<equiv> runBraceletReachability px_env (\<lambda>d f. f) plain_sort plain_codec 100 px_module"

theorem runBraceletReachability_graphs_witness:
  "\<exists>a m gs. px_pass = Ok (Some (a, [m])) \<and> length (inserted a) = 5 \<and> distinct (map fst gs) \<and>
     list_all2 (\<lambda>(C, gw, ws) m. writeTo plain_codec gw = Ok m) gs [m] \<and>
     module_graphs px_env (\<lambda>d f. f) plain_sort px_module a (map_of gs)"
proof -
  obtain a m where r: "px_pass = Ok (Some (a, [m]))" "num_symbols (gg_header (graph_global m)) = 4" "length (inserted a) = 5"
    using px_run by auto
  from runBraceletReachability_graphs [OF r(1) px_distinct] r show ?thesis by simp
qed

theorem pass_edges_typed_witness:
  "\<exists>a m. px_pass = Ok (Some (a, [m])) \<and> num_symbols (gg_header (graph_global m)) = 4 \<and>
     (\<exists>gw ws. writeTo plain_codec gw = Ok m \<and> writer_run (\<lambda>d f. f) plain_sort False gw None ws \<and>
       (\<forall>w\<in>set ws. unat (w_allocas w) \<le> length (w_locals w) \<and> length (w_locals w) < 2 ^ 16 \<and>
         (\<forall>e\<in>set (w_edges w). edge_ok (length (gg_symbols (graph_global m))) (w_symbol w) (length (w_locals w)) e)))"
proof -
  obtain a m where r: "px_pass = Ok (Some (a, [m]))" "num_symbols (gg_header (graph_global m)) = 4" using px_run by auto
  have "NoIncludeDebugData px_env" by (simp add: px_env_def)
  with pass_edges_typed [OF r(1) px_distinct] r show ?thesis by simp
qed

text \<open>An object with the graph of the example: four zeros before it, three behind it, four symbols.\<close>

definition px_graph :: "module_globals \<Rightarrow> placed_graph" where
  "px_graph m = \<lparr>pg_module = m, pg_pointers = replicate 40 0, pg_debug_address = 0x2000,
     pg_addresses = [0x1000, 0x1010, 0x1020, 0x1030]\<rparr>"

definition px_section :: obj_section where
  "px_section = \<lparr>sec_name = ''GR_graph_edges'', sec_start = 0x4000, sec_size = 0x1000\<rparr>"

definition px_image :: "module_globals \<Rightarrow> unit object_api" where
  "px_image m =
     \<lparr>isApple = (\<lambda>_. False), object_sections = (\<lambda>_. Ok [px_section]), symbolName = (\<lambda>_ w. Ok (''f'', w)),
      copyData = (\<lambda>n a w. Ok (if a = 0x4000 then graphs_bytes [(4, px_graph m)] 3 else debug_global m, w)),
      resolvePointers = (\<lambda>n a w. Ok (if a = 0x402c then [0x2000] else [0x1000, 0x1010, 0x1020, 0x1030], w))\<rparr>"

lemma px_holds: "holds_graphs (px_image m) px_section [(4, px_graph m)] 3"
  by (simp add: holds_graphs_def px_image_def px_section_def SectionNames_def served_def px_graph_def
      pointerSize_def header_size_def)

lemma px_placed: "length (gg_symbols (graph_global m)) = 4 \<Longrightarrow> placed m (px_graph m)"
  by (simp add: placed_def px_graph_def addresses_ok_def symbol_ok_def)

text \<open>A blob of one byte has no name but the empty one.\<close>

lemma short_blob_no_nul: "length (blob_of ss) = 1 \<Longrightarrow> no_nul ss"
  by (cases ss) (auto simp: blob_of_def no_nul_def)

theorem pass_to_reader_witness:
  "\<exists>a m fis gw w fi. px_pass = Ok (Some (a, [m])) \<and>
     (\<forall>cb s. readEdges plain_codec (px_image m) cb s = for_each cb fis s) \<and>
     function_graph px_env px_function gw a w \<and> fi \<in> set fis \<and>
     reported_as [0x1000, 0x1010, 0x1020, 0x1030] w fi"
proof -
  obtain a m where r: "px_pass = Ok (Some (a, [m]))" "num_symbols (gg_header (graph_global m)) = 4"
    and b: "string_blob_length (gg_header (graph_global m)) = 1" using px_run by auto
  have n: "\<And>m'. m' \<in> set [m] \<Longrightarrow> num_symbols (gg_header (graph_global m')) \<le> 2 ^ 31" using r(2) by simp
  from pass_to_reader [OF r(1) px_distinct n plain_codec_ok plain_sort_ok, where 's = unit] obtain gs :: "module_graph list"
    where l: "list_all2 (\<lambda>(C, gw, ws) m. writeTo plain_codec gw = Ok m) gs [m]"
    and wr: "\<forall>(C, gw, ws)\<in>set gs. writer_run (\<lambda>d f. f) plain_sort (\<not> NoIncludeDebugData px_env) gw None ws"
    and p: "(\<forall>(C, gw, ws)\<in>set gs. no_nul (strings gw)) \<longrightarrow>
      (\<forall>pgs (api :: unit object_api) sec tail.
        list_all2 (\<lambda>m (pad, pg). placed m pg) [m] pgs \<and> holds_graphs api sec pgs tail \<longrightarrow>
        (\<exists>fis. (\<forall>cb s. readEdges plain_codec api cb s = for_each cb fis s) \<and>
          (\<forall>F\<in>set (m_functions px_module). \<not> skipped F \<longrightarrow>
            (\<exists>k<length gs. \<exists>C gw ws w fi. gs ! k = (C, gw, ws) \<and> w \<in> set ws \<and> function_graph px_env F gw a w \<and>
              fi \<in> set fis \<and> reported_as (pg_addresses (snd (pgs ! k))) w fi))))" by blast
  from l obtain C gw ws where gs: "gs = [(C, gw, ws)]" and m: "writeTo plain_codec gw = Ok m"
    by (auto simp: list_all2_Cons2)
  have g: "globals_for plain_codec gw m" by (rule writeTo_globals [OF m])
  have s: "strings_ok gw" using wr by (auto simp: gs dest: writer_run_strings_ok)
  have "length (StringBlob gw) = 1" using g b by (simp add: globals_for_def Let_def)
  with s have "no_nul (strings gw)" by (intro short_blob_no_nul) (simp add: strings_ok_def)
  moreover have "length (gg_symbols (graph_global m)) = 4"
  proof -
    have "length (symbols_in_order gw) = length (Symbols gw)"
      using wr run_fits [OF _ writeTo_fits(1) [OF m]] r(2)
      by (auto simp: gs writer_inv_def tables_inv_def symbols_ok_def)
    then show ?thesis using g r(2) by (simp add: globals_for_def Let_def)
  qed
  ultimately obtain fis where f: "\<forall>cb s. readEdges plain_codec (px_image m) cb s = for_each cb fis s"
    and F: "\<forall>F\<in>set (m_functions px_module). \<not> skipped F \<longrightarrow>
      (\<exists>k<length gs. \<exists>C gw ws w fi. gs ! k = (C, gw, ws) \<and> w \<in> set ws \<and> function_graph px_env F gw a w \<and>
        fi \<in> set fis \<and> reported_as (pg_addresses (snd ([(4 :: nat, px_graph m)] ! k))) w fi)"
    using p [rule_format, of "[(4, px_graph m)]" "px_image m" px_section 3] px_holds px_placed by (auto simp: gs)
  from F px_in(1,2) obtain w fi where "w \<in> set ws" "function_graph px_env px_function gw a w" "fi \<in> set fis"
    "reported_as (pg_addresses (px_graph m)) w fi" by (auto simp: gs)
  with f r(1) show ?thesis by (auto simp: px_graph_def)
qed

theorem call_labels_parse_witness:
  "\<exists>a m. px_pass = Ok (Some (a, [m])) \<and>
     (\<exists>gw w l lab. function_graph px_env px_function gw a w \<and> unat l < length (w_locals w) \<and> (2, lab) \<in> set (call_labels a) \<and>
       ParseNodeIDFromName decimal_integer 0x1000 lab = node_local 0x1000 (of_nat (unat l)) \<and>
       (\<exists>e\<in>set (w_edges w). kind e = CallK \<and> symbol_of (to_node e) = w_symbol w \<and> local_idx_of (to_node e) = Some l))"
proof -
  obtain a m where r: "px_pass = Ok (Some (a, [m]))" "num_symbols (gg_header (graph_global m)) = 4" using px_run by auto
  have "c_callee px_call \<noteq> InlineAsm" "c_intrinsic px_call = NotIntrinsic" "\<not> is_trace_call px_env px_call"
    "has_loc px_env 2 \<or> pf_subprogram px_function" "\<not> calls_dlsym px_env px_call"
    by (simp_all add: px_call_def px_env_def px_object_def is_trace_call_def calls_dlsym_def)
  with call_labels_parse [OF r(1) px_distinct _ px_in(1,2,3) _ _ _ _ decimal_integer_reads, where func = "0x1000"] r show ?thesis by simp
qed

definition px_copy :: call_base where
  "px_copy = px_call\<lparr>c_args := [Argument 7, Const (CompoundConst '''' [DataConst, CompoundConst '''' []]), Const DataConst], c_intrinsic := MemCpy, c_void := True\<rparr>"

theorem copy_null_aborts_witness:
  "\<forall>r. run_visitor px_env plain_sort (px_function\<lparr>pf_body := [(2, CallBase px_copy)]\<rparr>) (ex_fw, ex_gw1)
     \<lparr>next_number = 100, new_globals = [], inserted = [], call_labels = []\<rparr> \<noteq> Ok r"
  by (intro allI copy_null_aborts [where i = 2 and I = px_copy and C = "CompoundConst '''' [DataConst, CompoundConst '''' []]"])
    (simp_all add: px_copy_def px_call_def px_env_def px_object_def is_trace_call_def)



end
