(* ===== verification/Elf_Segments.thy ===== *)
theory Elf_Segments
  imports Result_Type "HOL-Library.Product_Lexorder"
begin

text \<open>
  \<open>src/Tracing/Runtime/elf_segments.cpp\<close>: the cached set of the addresses of loaded ELF segments,
  its rescan, and the lock-free publication of a new set by compare-and-swap. \<open>dl_iterate_phdr\<close>
  is the list of loaded objects of the state. The first part models one thread, the second all of
  them as a step relation with one rule per atomic action.
\<close>

section \<open>Program headers\<close>

record phdr =
  p_type :: u32
  p_vaddr :: u64
  p_memsz :: u64

record phdr_info =
  dlpi_addr :: u64
  dlpi_phdr :: "phdr list"

definition PT_LOAD :: u32 where
  "PT_LOAD = 1"

text \<open>
  The two library types the file uses: \<open>boost::icl::interval_set\<close> (the empty set, \<open>add\<close> of a
  right-open interval, \<open>find\<close>) and \<open>boost::hash2::xxh3_128\<close> on the bytes it has been fed.
\<close>

record ('i, 'h) elf_lib =
  iset_empty :: 'i
  iset_add :: "u64 \<times> u64 \<Rightarrow> 'i \<Rightarrow> 'i"
  iset_find :: "u64 \<Rightarrow> 'i \<Rightarrow> bool"
  xxh3_128 :: "bytes \<Rightarrow> 'h"

record ('i, 'h) ElfSegments =
  segments :: 'i
  segments_hash :: 'h

section \<open>Scanning\<close>

definition scan_phdr ::
  "('i, 'h) elf_lib \<Rightarrow> phdr_info \<Rightarrow> phdr \<Rightarrow> 'i \<times> (u64 \<times> u64) list \<Rightarrow> ('i \<times> (u64 \<times> u64) list) result"
  where
  "scan_phdr lib info ph = (\<lambda>(segs, intervals).
     if p_type ph \<noteq> PT_LOAD then Ok (segs, intervals)
     else let base = dlpi_addr info + p_vaddr ph; end = base + p_memsz ph
          in assert_r (base < end) (assert_r (base \<noteq> - 1) (assert_r (end \<noteq> - 1)
               (Ok (iset_add lib (base, end) segs, intervals @ [(base, end)])))))"

definition hash_input :: "(u64 \<times> u64) list \<Rightarrow> bytes" where
  "hash_input intervals = concat (map (\<lambda>(lower, upper). le64 lower @ le64 upper) (sort intervals))"

definition scan_segments ::
  "('i, 'h) elf_lib \<Rightarrow> phdr_info list \<Rightarrow> ('i, 'h) ElfSegments result" where
  "scan_segments lib infos =
     try_r (for_each (\<lambda>info. for_each (scan_phdr lib info) (dlpi_phdr info)) infos (iset_empty lib, []))
       (\<lambda>(segs, intervals).
         Ok \<lparr>segments = segs, segments_hash = xxh3_128 lib (hash_input intervals)\<rparr>)"

text \<open>\<open>rescan\<close> in a process with one thread: the exchange cannot fail.\<close>

definition rescan ::
  "('i, 'h) elf_lib \<Rightarrow> phdr_info list \<Rightarrow> ('i, 'h) ElfSegments option \<Rightarrow>
   ('i, 'h) ElfSegments option result" where
  "rescan lib infos old =
     try_r (scan_segments lib infos) (\<lambda>new_intervals.
       case old of
         None \<Rightarrow> Ok (Some new_intervals)
       | Some o1 \<Rightarrow>
           if segments_hash new_intervals = segments_hash o1 then Ok old
           else Ok (Some new_intervals))"

definition pointerIsInElfSegment ::
  "('i, 'h) elf_lib \<Rightarrow> phdr_info list \<Rightarrow> u64 \<Rightarrow> ('i, 'h) ElfSegments option \<Rightarrow>
   (bool \<times> ('i, 'h) ElfSegments option) result" where
  "pointerIsInElfSegment lib infos ptr elf =
     (if ptr = - 1 then Ok (False, elf)
      else try_r (if elf = None then rescan lib infos elf else Ok elf) (\<lambda>elf.
        case elf of
          None \<Rightarrow> Abort
        | Some es \<Rightarrow> Ok (iset_find lib ptr (segments es), elf)))"

section \<open>Rescanning from several threads\<close>

text \<open>
  The program counter of a thread in \<open>rescan\<close>: outside, after (re)loading \<open>old\<close>, and with a
  finished scan before the hash comparison and the compare-and-swap. A published set is never freed,
  so a pointer to one is its position in \<open>published\<close>. \<open>asked\<close> is not part of the program: it records
  the list of loaded objects at the time of a thread's call. \<open>dlclose\<close> does nothing, so the loaded
  segments only grow.
\<close>

datatype ('i, 'h) rescan_pc =
    Outside
  | Loaded "nat option"
  | Scanned "nat option" "('i, 'h) ElfSegments"

record ('i, 'h) process =
  phdrs :: "phdr_info list"
  published :: "('i, 'h) ElfSegments list"
  ELF_SEGMENTS :: "nat option"
  pcs :: "nat \<Rightarrow> ('i, 'h) rescan_pc"
  asked :: "nat \<Rightarrow> phdr_info list"

definition load_ranges :: "phdr_info list \<Rightarrow> (u64 \<times> u64) list" where
  "load_ranges infos = concat (map (\<lambda>info. map (\<lambda>ph.
     (dlpi_addr info + p_vaddr ph, dlpi_addr info + p_vaddr ph + p_memsz ph))
     (filter (\<lambda>ph. p_type ph = PT_LOAD) (dlpi_phdr info))) infos)"

definition loaded :: "phdr_info list \<Rightarrow> u64 set" where
  "loaded infos = {p. \<exists>(l, u)\<in>set (load_ranges infos). l \<le> p \<and> p < u}"

definition same_hash ::
  "('i, 'h) ElfSegments list \<Rightarrow> nat option \<Rightarrow> ('i, 'h) ElfSegments \<Rightarrow> bool" where
  "same_hash heap old new =
     (case old of None \<Rightarrow> False | Some i \<Rightarrow> segments_hash new = segments_hash (heap ! i))"

inductive rescan_step ::
  "('i, 'h) elf_lib \<Rightarrow> phdr_info list set \<Rightarrow> ('i, 'h) process \<Rightarrow> ('i, 'h) process \<Rightarrow> bool"
  for lib A where
  call: "pcs s t = Outside \<Longrightarrow>
    rescan_step lib A s (s\<lparr>pcs := (pcs s)(t := Loaded (ELF_SEGMENTS s)),
      asked := (asked s)(t := phdrs s)\<rparr>)"
| scan: "pcs s t = Loaded old \<Longrightarrow> scan_segments lib (phdrs s) = Ok new \<Longrightarrow>
    rescan_step lib A s (s\<lparr>pcs := (pcs s)(t := Scanned old new)\<rparr>)"
| unchanged: "pcs s t = Scanned old new \<Longrightarrow> same_hash (published s) old new \<Longrightarrow>
    rescan_step lib A s (s\<lparr>pcs := (pcs s)(t := Outside)\<rparr>)"
| publish: "pcs s t = Scanned old new \<Longrightarrow> \<not> same_hash (published s) old new \<Longrightarrow>
    ELF_SEGMENTS s = old \<Longrightarrow>
    rescan_step lib A s (s\<lparr>published := published s @ [new],
      ELF_SEGMENTS := Some (length (published s)), pcs := (pcs s)(t := Outside)\<rparr>)"
| retry: "pcs s t = Scanned old new \<Longrightarrow> \<not> same_hash (published s) old new \<Longrightarrow>
    ELF_SEGMENTS s \<noteq> old \<Longrightarrow>
    rescan_step lib A s (s\<lparr>pcs := (pcs s)(t := Loaded (ELF_SEGMENTS s))\<rparr>)"
| dlopen: "infos \<in> A \<Longrightarrow> loaded (phdrs s) \<subseteq> loaded infos \<Longrightarrow>
    rescan_step lib A s (s\<lparr>phdrs := infos\<rparr>)"

definition process_start :: "phdr_info list \<Rightarrow> ('i, 'h) process" where
  "process_start infos = \<lparr>phdrs = infos, published = [], ELF_SEGMENTS = None,
     pcs = (\<lambda>_. Outside), asked = (\<lambda>_. [])\<rparr>"

inductive reachable ::
  "('i, 'h) elf_lib \<Rightarrow> phdr_info list set \<Rightarrow> ('i, 'h) process \<Rightarrow> bool" for lib A where
  start: "infos \<in> A \<Longrightarrow> reachable lib A (process_start infos)"
| steps: "reachable lib A s \<Longrightarrow> rescan_step lib A s s' \<Longrightarrow> reachable lib A s'"

section \<open>What a scan finds\<close>

text \<open>The documented behaviour of the interval set, for points it accepts.\<close>

definition icl_ok :: "('i, 'h) elf_lib \<Rightarrow> bool" where
  "icl_ok lib \<longleftrightarrow>
     (\<forall>p. p \<noteq> - 1 \<longrightarrow> \<not> iset_find lib p (iset_empty lib)) \<and>
     (\<forall>p l u s. p \<noteq> - 1 \<longrightarrow> l < u \<longrightarrow>
        iset_find lib p (iset_add lib (l, u) s) = (l \<le> p \<and> p < u \<or> iset_find lib p s))"

definition points :: "('i, 'h) elf_lib \<Rightarrow> ('i, 'h) ElfSegments \<Rightarrow> u64 set" where
  "points lib es = {p. p \<noteq> - 1 \<and> iset_find lib p (segments es)}"

lemma scan_phdrs_ok:
  assumes "icl_ok lib" and "for_each (scan_phdr lib info) phs (segs, ivs) = Ok (segs', ivs')"
  shows "ivs' = ivs @ load_ranges [info\<lparr>dlpi_phdr := phs\<rparr>] \<and>
    (\<forall>p. p \<noteq> - 1 \<longrightarrow> iset_find lib p segs' =
       (iset_find lib p segs \<or> p \<in> loaded [info\<lparr>dlpi_phdr := phs\<rparr>])) \<and>
    - 1 \<notin> loaded [info\<lparr>dlpi_phdr := phs\<rparr>]"
  using assms(2)
proof (induction phs arbitrary: segs ivs)
  case Nil
  then show ?case by (simp add: load_ranges_def loaded_def)
next
  case (Cons ph phs)
  from Cons.prems obtain segs1 ivs1 where 1: "scan_phdr lib info ph (segs, ivs) = Ok (segs1, ivs1)"
    and 2: "for_each (scan_phdr lib info) phs (segs1, ivs1) = Ok (segs', ivs')"
    by (auto simp: ok_iff)
  show ?case
    using 1 Cons.IH [OF 2] assms(1)
    by (auto simp: scan_phdr_def Let_def ok_iff load_ranges_def loaded_def icl_ok_def
        split: if_splits)
qed

lemma scan_infos_ok:
  assumes "icl_ok lib"
    and "for_each (\<lambda>info. for_each (scan_phdr lib info) (dlpi_phdr info)) infos (segs, ivs) = Ok (segs', ivs')"
  shows "ivs' = ivs @ load_ranges infos \<and>
    (\<forall>p. p \<noteq> - 1 \<longrightarrow> iset_find lib p segs' = (iset_find lib p segs \<or> p \<in> loaded infos)) \<and>
    - 1 \<notin> loaded infos"
  using assms(2)
proof (induction infos arbitrary: segs ivs)
  case Nil
  then show ?case by (simp add: load_ranges_def loaded_def)
next
  case (Cons info infos)
  from Cons.prems obtain segs1 ivs1
    where 1: "for_each (scan_phdr lib info) (dlpi_phdr info) (segs, ivs) = Ok (segs1, ivs1)"
      and 2: "for_each (\<lambda>info. for_each (scan_phdr lib info) (dlpi_phdr info)) infos (segs1, ivs1)
        = Ok (segs', ivs')"
    by (auto simp: ok_iff)
  have s: "load_ranges (info # infos) = load_ranges [info] @ load_ranges infos"
    "loaded (info # infos) = loaded [info] \<union> loaded infos"
    by (auto simp: load_ranges_def loaded_def)
  show ?case
    using scan_phdrs_ok [OF assms(1) 1] Cons.IH [OF 2] unfolding s by simp
qed

lemma scan_segments_ok:
  assumes "icl_ok lib" and "scan_segments lib infos = Ok es"
  shows "points lib es = loaded infos"
    and "segments_hash es = xxh3_128 lib (hash_input (load_ranges infos))"
proof -
  from assms(2) obtain segs ivs where
    f: "for_each (\<lambda>info. for_each (scan_phdr lib info) (dlpi_phdr info)) infos
      (iset_empty lib, []) = Ok (segs, ivs)"
    and es: "es = \<lparr>segments = segs, segments_hash = xxh3_128 lib (hash_input ivs)\<rparr>"
    by (auto simp: scan_segments_def ok_iff)
  from scan_infos_ok [OF assms(1) f] assms(1)
  have i: "ivs = load_ranges infos" and n: "- 1 \<notin> loaded infos"
    and p: "p \<noteq> - 1 \<Longrightarrow> iset_find lib p segs = (p \<in> loaded infos)" for p
    by (auto simp: icl_ok_def)
  show "points lib es = loaded infos"
  proof (rule set_eqI)
    fix x
    show "x \<in> points lib es \<longleftrightarrow> x \<in> loaded infos"
      using n p [of x] by (cases "x = - 1") (simp_all add: points_def es)
  qed
  show "segments_hash es = xxh3_128 lib (hash_input (load_ranges infos))"
    by (simp add: es i)
qed

lemma hash_input_inj:
  assumes "hash_input xs = hash_input ys"
  shows "set xs = set ys"
proof -
  have "concat (map (\<lambda>(l, u). le64 l @ le64 u) as) = concat (map (\<lambda>(l, u). le64 l @ le64 u) bs)
      \<Longrightarrow> as = bs" for as bs :: "(u64 \<times> u64) list"
  proof (induction as arbitrary: bs)
    case Nil
    show ?case
    proof (cases bs)
      case (Cons b bs')
      then show ?thesis using arg_cong [OF Nil, of length] by (cases b) simp
    qed simp
  next
    case (Cons a as)
    obtain l u where a: "a = (l, u)" by (cases a)
    obtain l' u' bs' where b: "bs = (l', u') # bs'"
      using arg_cong [OF Cons.prems, of length] a by (cases bs) auto
    from Cons.prems have l: "le64 l = le64 l'" "le64 u = le64 u'"
      and r: "concat (map (\<lambda>(l, u). le64 l @ le64 u) as) = concat (map (\<lambda>(l, u). le64 l @ le64 u) bs')"
      by (simp_all add: a b append_eq_append_conv)
    have "l = l'" "u = u'" using l by (metis append_Nil2 read64_le64)+
    with a b Cons.IH [OF r] show ?case by simp
  qed
  from this [OF assms [unfolded hash_input_def]] show ?thesis by (metis set_sort)
qed

lemma loaded_eqI: "set (load_ranges xs) = set (load_ranges ys) \<Longrightarrow> loaded xs = loaded ys"
  by (simp add: loaded_def)

section \<open>The invariant of concurrent rescans\<close>

text \<open>No two different lists of segments of the run have the same hash.\<close>

definition collision_free :: "('i, 'h) elf_lib \<Rightarrow> phdr_info list set \<Rightarrow> bool" where
  "collision_free lib A \<longleftrightarrow> (\<forall>xs\<in>A. \<forall>ys\<in>A.
     xxh3_128 lib (hash_input (load_ranges xs)) = xxh3_128 lib (hash_input (load_ranges ys)) \<longrightarrow>
     hash_input (load_ranges xs) = hash_input (load_ranges ys))"

definition scan_of ::
  "('i, 'h) elf_lib \<Rightarrow> phdr_info list set \<Rightarrow> phdr_info list \<Rightarrow> ('i, 'h) ElfSegments \<Rightarrow> bool" where
  "scan_of lib A infos es \<longleftrightarrow> infos \<in> A \<and> scan_segments lib infos = Ok es"

fun old_ok :: "('i, 'h) ElfSegments list \<Rightarrow> nat option \<Rightarrow> bool" where
  "old_ok heap None = True"
| "old_ok heap (Some i) = (i < length heap)"

definition heap_ok :: "('i, 'h) elf_lib \<Rightarrow> phdr_info list set \<Rightarrow> ('i, 'h) process \<Rightarrow> bool" where
  "heap_ok lib A s \<longleftrightarrow> phdrs s \<in> A \<and>
     ELF_SEGMENTS s = (if published s = [] then None else Some (length (published s) - 1)) \<and>
     (\<forall>i<length (published s). \<exists>infos. scan_of lib A infos (published s ! i) \<and>
        loaded infos \<subseteq> loaded (phdrs s)) \<and>
     (\<forall>j<length (published s). \<forall>i\<le>j. points lib (published s ! i) \<subseteq> points lib (published s ! j))"

fun pc_ok ::
  "('i, 'h) elf_lib \<Rightarrow> phdr_info list set \<Rightarrow> ('i, 'h) ElfSegments list \<Rightarrow> u64 set \<Rightarrow> u64 set \<Rightarrow>
   ('i, 'h) rescan_pc \<Rightarrow> bool" where
  "pc_ok lib A heap now before Outside = True"
| "pc_ok lib A heap now before (Loaded old) = (old_ok heap old \<and> before \<subseteq> now)"
| "pc_ok lib A heap now before (Scanned old new) =
     (old_ok heap old \<and>
      (\<exists>infos. scan_of lib A infos new \<and> before \<subseteq> loaded infos \<and> loaded infos \<subseteq> now) \<and>
      (\<forall>i. old = Some i \<longrightarrow> points lib (heap ! i) \<subseteq> points lib new))"

definition thread_ok ::
  "('i, 'h) elf_lib \<Rightarrow> phdr_info list set \<Rightarrow> ('i, 'h) process \<Rightarrow> nat \<Rightarrow> bool" where
  "thread_ok lib A s t =
     pc_ok lib A (published s) (loaded (phdrs s)) (loaded (asked s t)) (pcs s t)"

definition process_inv :: "('i, 'h) elf_lib \<Rightarrow> phdr_info list set \<Rightarrow> ('i, 'h) process \<Rightarrow> bool" where
  "process_inv lib A s \<longleftrightarrow> heap_ok lib A s \<and> (\<forall>t. thread_ok lib A s t)"

lemma scan_of_points: "icl_ok lib \<Longrightarrow> scan_of lib A infos es \<Longrightarrow> points lib es = loaded infos"
  by (simp add: scan_of_def scan_segments_ok)

lemma heap_points: "icl_ok lib \<Longrightarrow> heap_ok lib A s \<Longrightarrow> i < length (published s) \<Longrightarrow>
    points lib (published s ! i) \<subseteq> loaded (phdrs s)"
  unfolding heap_ok_def by (metis scan_of_points)

lemma heap_last:
  "heap_ok lib A s \<Longrightarrow> ELF_SEGMENTS s = Some i \<Longrightarrow> i < length (published s) \<and> i = length (published s) - 1"
  by (auto simp: heap_ok_def split: if_splits)

lemma heap_old_ok: "heap_ok lib A s \<Longrightarrow> old_ok (published s) (ELF_SEGMENTS s)"
  by (auto simp: heap_ok_def)

lemma start_inv: "infos \<in> A \<Longrightarrow> process_inv lib A (process_start infos)"
  by (simp add: process_inv_def heap_ok_def thread_ok_def process_start_def)

text \<open>What a thread knows stays true while sets are published and libraries are loaded.\<close>

lemma old_ok_grow: "old_ok heap old \<Longrightarrow> old_ok (heap @ new) old"
  by (cases old) simp_all

lemma pc_ok_grow:
  assumes "pc_ok lib A heap now before pc" and "now \<subseteq> now'"
  shows "pc_ok lib A (heap @ new) now' before pc"
proof (cases pc)
  case (Scanned old es)
  from assms(1) obtain infos where "scan_of lib A infos es" "before \<subseteq> loaded infos" "loaded infos \<subseteq> now'"
    using assms(2) by (auto simp: Scanned)
  with assms(1) show ?thesis by (cases old) (auto simp: nth_append Scanned)
qed (use assms old_ok_grow in auto)

lemmas pc_ok_later = pc_ok_grow [where new = "[]", simplified]

lemma publish_heap:
  assumes icl: "icl_ok lib" and h: "heap_ok lib A s" and t: "thread_ok lib A s t"
    and pc: "pcs s t = Scanned (ELF_SEGMENTS s) new"
  shows "heap_ok lib A (s\<lparr>published := published s @ [new],
    ELF_SEGMENTS := Some (length (published s)), pcs := g\<rparr>)"
proof -
  let ?p = "published s" and ?q = "published s @ [new]"
  have old: "ELF_SEGMENTS s = (if ?p = [] then None else Some (length ?p - 1))"
    and mono: "\<And>i j. j < length ?p \<Longrightarrow> i \<le> j \<Longrightarrow> points lib (?p ! i) \<subseteq> points lib (?p ! j)"
    and sc: "\<And>i. i < length ?p \<Longrightarrow>
      \<exists>infos. scan_of lib A infos (?p ! i) \<and> loaded infos \<subseteq> loaded (phdrs s)"
    and A: "phdrs s \<in> A"
    using h by (auto simp: heap_ok_def)
  from t pc obtain infos where new: "scan_of lib A infos new" "loaded infos \<subseteq> loaded (phdrs s)"
    and above: "\<And>i. ELF_SEGMENTS s = Some i \<Longrightarrow> points lib (?p ! i) \<subseteq> points lib new"
    by (auto simp: thread_ok_def)
  have top: "points lib (?p ! i) \<subseteq> points lib new" if "i < length ?p" for i
  proof -
    have "?p \<noteq> []" using that by auto
    then have "points lib (?p ! (length ?p - 1)) \<subseteq> points lib new" using above old by simp
    moreover have "points lib (?p ! i) \<subseteq> points lib (?p ! (length ?p - 1))"
      using that by (intro mono) auto
    ultimately show ?thesis by blast
  qed
  have 1: "\<exists>infos. scan_of lib A infos (?q ! i) \<and> loaded infos \<subseteq> loaded (phdrs s)"
    if "i < length ?q" for i
    using that sc [of i] new by (cases "i < length ?p") (auto simp: nth_append less_Suc_eq)
  have 2: "points lib (?q ! i) \<subseteq> points lib (?q ! j)" if "j < length ?q" "i \<le> j" for i j
    using that mono [of j i] top [of i]
    by (cases "j < length ?p"; cases "i < length ?p") (auto simp: nth_append less_Suc_eq)
  from 1 2 A show ?thesis by (simp add: heap_ok_def)
qed

lemma step_inv:
  assumes icl: "icl_ok lib" and inv: "process_inv lib A s" and st: "rescan_step lib A s s'"
  shows "process_inv lib A s'"
proof -
  have h: "heap_ok lib A s" and th: "\<And>t. thread_ok lib A s t"
    using inv by (simp_all add: process_inv_def)
  have A: "phdrs s \<in> A" using h by (simp add: heap_ok_def)
  from st show ?thesis
  proof cases
    case (call t)
    have "heap_ok lib A s'" using h by (simp add: call heap_ok_def)
    moreover have "thread_ok lib A s' u" for u
      using th [of u] heap_old_ok [OF h] by (simp add: call thread_ok_def)
    ultimately show ?thesis by (simp add: process_inv_def)
  next
    case (scan t old new)
    have "heap_ok lib A s'" using h by (simp add: scan(1) heap_ok_def)
    moreover have "thread_ok lib A s' u" for u
    proof (cases "u = t")
      case True
      have so: "scan_of lib A (phdrs s) new" using A scan(3) by (simp add: scan_of_def)
      have "\<forall>i. old = Some i \<longrightarrow> points lib (published s ! i) \<subseteq> points lib new"
        using th [of t] scan(2) unfolding scan_of_points [OF icl so]
        by (intro allI impI heap_points [OF icl h]) (simp add: thread_ok_def)
      with so th [of t] scan(2) show ?thesis
        by (auto simp: scan(1) True thread_ok_def)
    next
      case False
      then show ?thesis using th [of u] by (simp add: scan(1) thread_ok_def)
    qed
    ultimately show ?thesis by (simp add: process_inv_def)
  next
    case (unchanged t old new)
    have "heap_ok lib A s'" using h by (simp add: unchanged(1) heap_ok_def)
    moreover have "thread_ok lib A s' u" for u
      using th [of u] by (simp add: unchanged(1) thread_ok_def)
    ultimately show ?thesis by (simp add: process_inv_def)
  next
    case (publish t old new)
    have "heap_ok lib A s'"
      unfolding publish(1) using publish by (intro publish_heap [OF icl h th [of t]]) simp
    moreover have "thread_ok lib A s' u" for u
      using pc_ok_grow [OF th [of u, unfolded thread_ok_def] order_refl]
      by (simp add: publish(1) thread_ok_def)
    ultimately show ?thesis by (simp add: process_inv_def)
  next
    case (retry t old new)
    have "heap_ok lib A s'" using h by (simp add: retry(1) heap_ok_def)
    moreover have "loaded (asked s t) \<subseteq> loaded (phdrs s)"
      using th [of t] retry(2) by (auto simp: thread_ok_def)
    then have "thread_ok lib A s' u" for u
      using th [of u] heap_old_ok [OF h] by (simp add: retry(1) thread_ok_def)
    ultimately show ?thesis by (simp add: process_inv_def)
  next
    case (dlopen infos)
    have "heap_ok lib A s'"
      using h dlopen(2) order_trans [OF _ dlopen(3)] unfolding dlopen(1) heap_ok_def by simp metis
    moreover have "thread_ok lib A s' u" for u
      using th [of u] dlopen(3) pc_ok_later by (simp add: dlopen(1) thread_ok_def) blast
    ultimately show ?thesis by (simp add: process_inv_def)
  qed
qed

lemma reachable_inv: "icl_ok lib \<Longrightarrow> reachable lib A s \<Longrightarrow> process_inv lib A s"
proof -
  assume i: "icl_ok lib" and "reachable lib A s"
  from this(2) show "process_inv lib A s" by induction (simp_all add: start_inv step_inv i)
qed

section \<open>What the lookup answers\<close>

text \<open>A scan with the hash of the published segments covers no more than they do.\<close>

lemma same_hash_loaded:
  assumes "icl_ok lib" and "collision_free lib A" and "scan_of lib A infos new" and "scan_of lib A infos' old"
    and "segments_hash new = segments_hash old"
  shows "loaded infos = loaded infos'"
proof -
  have "xxh3_128 lib (hash_input (load_ranges infos)) = xxh3_128 lib (hash_input (load_ranges infos'))"
    using assms(3-5) scan_segments_ok(2) [OF assms(1), of infos new] scan_segments_ok(2) [OF assms(1), of infos' old]
    by (simp add: scan_of_def)
  then have "hash_input (load_ranges infos) = hash_input (load_ranges infos')"
    using assms(2-4) by (simp add: collision_free_def scan_of_def)
  then show ?thesis by (intro loaded_eqI hash_input_inj)
qed

lemma unchanged_covers:
  assumes "icl_ok lib" and "collision_free lib A" and "process_inv lib A s"
    and pc: "pcs s t = Scanned old new" and hash: "same_hash (published s) old new"
  shows "ELF_SEGMENTS s = Some (length (published s) - 1)"
    and "loaded (asked s t) \<subseteq> points lib (published s ! (length (published s) - 1))"
proof -
  have h: "heap_ok lib A s" and th: "thread_ok lib A s t" using assms(3) by (simp_all add: process_inv_def)
  from hash obtain j where j: "old = Some j" and eq: "segments_hash new = segments_hash (published s ! j)"
    by (auto simp: same_hash_def split: option.splits)
  have jl: "j < length (published s)" using th pc by (simp add: j thread_ok_def)
  from th pc obtain infos where new: "scan_of lib A infos new" "loaded (asked s t) \<subseteq> loaded infos"
    by (auto simp: thread_ok_def)
  from h jl obtain infos' where old': "scan_of lib A infos' (published s ! j)" by (auto simp: heap_ok_def)
  have "loaded (asked s t) \<subseteq> points lib (published s ! j)"
    using new(2) scan_of_points [OF assms(1) old'] same_hash_loaded [OF assms(1,2) new(1) old' eq] by simp
  also have "\<dots> \<subseteq> points lib (published s ! (length (published s) - 1))"
    using h jl by (simp add: heap_ok_def)
  finally show "loaded (asked s t) \<subseteq> points lib (published s ! (length (published s) - 1))" .
  show "ELF_SEGMENTS s = Some (length (published s) - 1)" using h jl by (auto simp: heap_ok_def)
qed

text \<open>
  C12. With any number of threads rescanning and loading libraries in any order: when a call of
  \<open>rescan\<close> returns, whether it published its scan or found the hash unchanged, the published
  interval set contains every address that was in a loaded segment when the call began (so a library
  that \<open>dlopen\<close> loaded before its rescan is never lost to a racing thread), and it contains only
  addresses of segments loaded by now.
\<close>

theorem rescan_complete:
  assumes "icl_ok lib" and "collision_free lib A" and "reachable lib A s"
    and "rescan_step lib A s s'" and "pcs s t \<noteq> Outside" and "pcs s' t = Outside"
  shows "\<exists>i. ELF_SEGMENTS s' = Some i \<and> i < length (published s') \<and>
    (\<forall>p. p \<noteq> - 1 \<longrightarrow>
      (p \<in> loaded (asked s' t) \<longrightarrow> iset_find lib p (segments (published s' ! i))) \<and>
      (iset_find lib p (segments (published s' ! i)) \<longrightarrow> p \<in> loaded (phdrs s')))"
proof -
  have inv: "process_inv lib A s" using assms(1,3) by (rule reachable_inv)
  have inv': "process_inv lib A s'" by (rule step_inv [OF assms(1) inv assms(4)])
  then have h': "heap_ok lib A s'" by (simp add: process_inv_def)
  have h: "heap_ok lib A s" and th: "thread_ok lib A s t" using inv by (simp_all add: process_inv_def)
  have "\<exists>i. ELF_SEGMENTS s' = Some i \<and> loaded (asked s' t) \<subseteq> points lib (published s' ! i)"
    using assms(4)
  proof cases
    case (unchanged u old new)
    then have u: "u = t" using assms(5,6) by (auto split: if_splits)
    then obtain j where "ELF_SEGMENTS s = Some (length (published s) - 1)"
        "loaded (asked s t) \<subseteq> points lib (published s ! (length (published s) - 1))"
      using unchanged_covers [OF assms(1,2) inv] unchanged(2,3) by auto
    then show ?thesis by (simp add: unchanged(1))
  next
    case (publish u old new)
    then have u: "u = t" using assms(5,6) by (auto split: if_splits)
    from th publish(2) obtain infos where new: "scan_of lib A infos new"
      and sub: "loaded (asked s t) \<subseteq> loaded infos" by (auto simp: u thread_ok_def)
    show ?thesis using sub scan_of_points [OF assms(1) new] by (simp add: publish(1))
  qed (use assms(5,6) in \<open>auto split: if_splits\<close>)
  then obtain i where i: "ELF_SEGMENTS s' = Some i"
    and le: "loaded (asked s' t) \<subseteq> points lib (published s' ! i)" by blast
  have il: "i < length (published s')" using heap_last [OF h' i] by simp
  from i il le heap_points [OF assms(1) h' il] show ?thesis
    by (intro exI [of _ i] conjI) (auto simp: points_def)
qed

text \<open>
  C13. In a process with one thread, a lookup whose first use scans the loaded objects answers, for every
  address, whether it lies in a \<open>PT_LOAD\<close> segment (the largest address never does), and later lookups
  reuse that scan.
\<close>

theorem pointerIsInElfSegment_exact:
  assumes "icl_ok lib" and "pointerIsInElfSegment lib infos ptr None = Ok (b, elf)"
  shows "b = (ptr \<noteq> - 1 \<and> ptr \<in> loaded infos) \<and>
    (\<forall>infos' p. ptr \<noteq> - 1 \<longrightarrow>
      pointerIsInElfSegment lib infos' p elf = Ok (p \<noteq> - 1 \<and> p \<in> loaded infos, elf))"
proof (cases "ptr = - 1")
  case True
  then show ?thesis using assms(2) by (simp add: pointerIsInElfSegment_def)
next
  case False
  with assms(2) obtain es where sc: "scan_segments lib infos = Ok es"
    and b: "b = iset_find lib ptr (segments es)" and elf: "elf = Some es"
    by (auto simp: pointerIsInElfSegment_def rescan_def ok_iff split: option.splits)
  have f: "p \<noteq> - 1 \<Longrightarrow> iset_find lib p (segments es) = (p \<in> loaded infos)" for p
    using scan_segments_ok(1) [OF assms(1) sc] by (auto simp: points_def)
  show ?thesis using False f by (auto simp: b elf pointerIsInElfSegment_def)
qed

subsection \<open>An example\<close>

text \<open>One library, an interval set kept as the list of its intervals, no hashing.\<close>

definition ex_elf_lib :: "((u64 \<times> u64) list, bytes) elf_lib" where
  "ex_elf_lib = \<lparr>iset_empty = [], iset_add = (#),
     iset_find = (\<lambda>p ivs. list_ex (\<lambda>(l, u). l \<le> p \<and> p < u) ivs), xxh3_128 = (\<lambda>bs. bs)\<rparr>"

definition ex_infos :: "phdr_info list" where
  "ex_infos = [\<lparr>dlpi_addr = 0x400000,
     dlpi_phdr = [\<lparr>p_type = 1, p_vaddr = 0x1000, p_memsz = 0x200\<rparr>,
                  \<lparr>p_type = 2, p_vaddr = 0x9000, p_memsz = 0\<rparr>]\<rparr>]"

lemma ex_elf_lib_ok: "icl_ok ex_elf_lib"
  by (auto simp: icl_ok_def ex_elf_lib_def)

lemma ex_collision_free: "collision_free ex_elf_lib A"
  by (simp add: collision_free_def ex_elf_lib_def)

definition ex_es :: "((u64 \<times> u64) list, bytes) ElfSegments" where
  "ex_es = \<lparr>segments = [(0x401000, 0x401200)], segments_hash = hash_input [(0x401000, 0x401200)]\<rparr>"

lemma ex_scan: "scan_segments ex_elf_lib ex_infos = Ok ex_es"
  by (simp add: scan_segments_def ex_elf_lib_def ex_infos_def ex_es_def scan_phdr_def PT_LOAD_def)

theorem pointerIsInElfSegment_exact_witness:
  "0x401010 \<in> loaded ex_infos \<and>
   pointerIsInElfSegment ex_elf_lib [] 0x300000 (Some ex_es) =
     Ok (0x300000 \<noteq> (- 1 :: u64) \<and> 0x300000 \<in> loaded ex_infos, Some ex_es)"
proof -
  have "pointerIsInElfSegment ex_elf_lib ex_infos 0x401010 None = Ok (True, Some ex_es)"
    by (simp add: pointerIsInElfSegment_def rescan_def ex_scan) (simp add: ex_es_def ex_elf_lib_def)
  from pointerIsInElfSegment_exact [OF ex_elf_lib_ok this] show ?thesis by auto
qed

theorem rescan_complete_witness:
  "\<exists>(s' :: ((u64 \<times> u64) list, bytes) process) i. ELF_SEGMENTS s' = Some i \<and> i < length (published s') \<and> published s' = [ex_es] \<and>
    (\<forall>p. p \<noteq> - 1 \<longrightarrow>
      (p \<in> loaded (asked s' 0) \<longrightarrow> iset_find ex_elf_lib p (segments (published s' ! i))) \<and>
      (iset_find ex_elf_lib p (segments (published s' ! i)) \<longrightarrow> p \<in> loaded (phdrs s')))"
proof -
  define s0 :: "((u64 \<times> u64) list, bytes) process" where "s0 = process_start ex_infos"
  define s1 where "s1 = s0\<lparr>pcs := (pcs s0)(0 := Loaded (ELF_SEGMENTS s0)),
      asked := (asked s0)(0 := phdrs s0)\<rparr>"
  define s2 where "s2 = s1\<lparr>pcs := (pcs s1)(0 := Scanned None ex_es)\<rparr>"
  define s3 where "s3 = s2\<lparr>published := published s2 @ [ex_es],
      ELF_SEGMENTS := Some (length (published s2)), pcs := (pcs s2)(0 := Outside)\<rparr>"
  have "reachable ex_elf_lib {ex_infos} s0" unfolding s0_def by (rule start) simp
  moreover have "rescan_step ex_elf_lib {ex_infos} s0 s1"
    unfolding s1_def by (rule call) (simp add: s0_def process_start_def)
  ultimately have r: "reachable ex_elf_lib {ex_infos} s1" by (rule steps)
  have "rescan_step ex_elf_lib {ex_infos} s1 s2"
    unfolding s2_def by (rule scan) (simp_all add: s1_def s0_def process_start_def ex_scan)
  with r have r2: "reachable ex_elf_lib {ex_infos} s2" by (rule steps)
  have st: "rescan_step ex_elf_lib {ex_infos} s2 s3"
    unfolding s3_def
    by (rule publish [where t = 0 and old = None])
      (simp_all add: s2_def s1_def s0_def process_start_def same_hash_def)
  have pc: "pcs s2 0 \<noteq> Outside" "pcs s3 0 = Outside" and p: "published s3 = [ex_es]"
    by (simp_all add: s3_def s2_def s1_def s0_def process_start_def)
  from rescan_complete [OF ex_elf_lib_ok ex_collision_free r2 st pc] obtain i where
    "ELF_SEGMENTS s3 = Some i \<and> i < length (published s3) \<and>
    (\<forall>p. p \<noteq> - 1 \<longrightarrow>
      (p \<in> loaded (asked s3 0) \<longrightarrow> iset_find ex_elf_lib p (segments (published s3 ! i))) \<and>
      (iset_find ex_elf_lib p (segments (published s3 ! i)) \<longrightarrow> p \<in> loaded (phdrs s3)))" ..
  with p show ?thesis by (intro exI [of _ s3] exI [of _ i]) blast
qed

end
