(* ===== verification/Vhmalloc.thy ===== *)
theory Vhmalloc
  imports Result_Type
begin

text \<open>
  \<open>src/Tracing/Runtime/vhmalloc.cpp\<close>: the allocator that keeps a tag per object, so that an
  address can be traced back to the allocation site. Objects of one size class live in slabs of
  whole pages; a two-level map leads from an address to its slab; every pool keeps all its slabs
  in one doubly linked list and those with free elements, in the same order, in another. The
  model is of one thread; its locks are left out. Reading through a null pointer, a failed
  \<open>assert\<close> and undefined behaviour are \<open>Abort\<close>.
\<close>

section \<open>State\<close>

text \<open>
  Pointers to slabs are optional numbers, \<open>None\<close> being the null pointer; the slabs and the
  pools of one thread are stores indexed by them. An address is a word; the objects themselves
  are not modelled. \<open>ids\<close> has one tag per element, 0 when the element is free.
\<close>

record pool =
  element_size :: nat
  pool_free :: nat
  free_head :: "nat option"
  free_tail :: "nat option"
  full_head :: "nat option"

record slab =
  slab_pool :: nat
  capacity :: nat
  slab_free :: nat
  objects :: u64
  prev :: "nat option"
  next_slab :: "nat option"
  free_prev :: "nat option"
  free_next :: "nat option"
  ids :: "u64 list"

datatype malloc_thread_state = Uninit | Ready | InsideMalloc

record vhm =
  slabs :: "nat \<Rightarrow> slab"
  num_slabs :: nat
  sizedPools :: "nat \<Rightarrow> pool"
  slabMap :: "nat \<Rightarrow> (nat \<Rightarrow> nat option) option"
  thread_state :: malloc_thread_state

definition overprovision :: nat where
  "overprovision = 3"

definition NUMPOOLS :: nat where
  "NUMPOOLS = 26"

definition upd_slab :: "nat \<Rightarrow> (slab \<Rightarrow> slab) \<Rightarrow> vhm \<Rightarrow> vhm" where
  "upd_slab s f st = st\<lparr>slabs := (slabs st)(s := f (slabs st s))\<rparr>"

definition upd_pool :: "nat \<Rightarrow> (pool \<Rightarrow> pool) \<Rightarrow> vhm \<Rightarrow> vhm" where
  "upd_pool p f st = st\<lparr>sizedPools := (sizedPools st)(p := f (sizedPools st p))\<rparr>"

text \<open>Writing through a pointer that has been compared with NULL.\<close>

definition upd_opt :: "nat option \<Rightarrow> (slab \<Rightarrow> slab) \<Rightarrow> vhm \<Rightarrow> vhm" where
  "upd_opt s f st = (case s of None \<Rightarrow> st | Some s \<Rightarrow> upd_slab s f st)"

definition pool_of :: "vhm \<Rightarrow> nat \<Rightarrow> pool" where
  "pool_of st s = sizedPools st (slab_pool (slabs st s))"

section \<open>The map from addresses to slabs\<close>

definition level1 :: "u64 \<Rightarrow> nat" where
  "level1 ptr = unat (drop_bit 30 ptr)"

definition level2 :: "u64 \<Rightarrow> nat" where
  "level2 ptr = unat (drop_bit 12 (ptr AND mask 30))"

definition getSlab :: "vhm \<Rightarrow> u64 \<Rightarrow> nat option" where
  "getSlab st ptr =
     (if 2 ^ 17 \<le> level1 ptr then None
      else case slabMap st (level1 ptr) of
        None \<Rightarrow> None
      | Some region \<Rightarrow> region (level2 ptr))"

text \<open>\<open>markSlab\<close> indexes the first level without a check; beyond it the model aborts.\<close>

definition markSlab :: "u64 \<Rightarrow> nat \<Rightarrow> vhm \<Rightarrow> vhm result" where
  "markSlab ptr s st =
     assert_r (level1 ptr < 2 ^ 17)
      (let region = (case slabMap st (level1 ptr) of None \<Rightarrow> (\<lambda>_. None) | Some r \<Rightarrow> r)
       in Ok (st\<lparr>slabMap := (slabMap st)(level1 ptr := Some (region(level2 ptr := Some s)))\<rparr>))"

section \<open>Slabs\<close>

text \<open>Adding a slab at the front of both lists of its pool.\<close>

definition push_full :: "nat \<Rightarrow> nat \<Rightarrow> vhm \<Rightarrow> vhm" where
  "push_full p s st =
     (let h = full_head (sizedPools st p)
      in upd_pool p (\<lambda>pl. pl\<lparr>full_head := Some s\<rparr>)
          (upd_opt h (\<lambda>sl. sl\<lparr>prev := Some s\<rparr>)
            (upd_slab s (\<lambda>sl. sl\<lparr>prev := None, next_slab := h\<rparr>) st)))"

definition push_free :: "nat \<Rightarrow> nat \<Rightarrow> vhm \<Rightarrow> vhm" where
  "push_free p s st =
     (let h = free_head (sizedPools st p);
          st1 = upd_slab s (\<lambda>sl. sl\<lparr>free_prev := None, free_next := h\<rparr>) st;
          st2 = (if h \<noteq> None then upd_opt h (\<lambda>sl. sl\<lparr>free_prev := Some s\<rparr>) st1
                 else upd_pool p (\<lambda>pl. pl\<lparr>free_tail := Some s\<rparr>) st1)
      in upd_pool p (\<lambda>pl. pl\<lparr>free_head := Some s\<rparr>) st2)"

definition slab_pages :: "nat \<Rightarrow> nat \<Rightarrow> nat" where
  "slab_pages esize cnt =
     (let toAllocate = (if cnt = 0 then esize else esize * cnt)
      in if toAllocate mod 4096 = 0 then toAllocate div 4096 else toAllocate div 4096 + 1)"

text \<open>\<open>base\<close> is what \<open>mmap\<close> returns for the objects. The new slab is number \<open>num_slabs\<close>.\<close>

definition allocateSlab :: "u64 \<Rightarrow> nat \<Rightarrow> nat \<Rightarrow> vhm \<Rightarrow> vhm result" where
  "allocateSlab base p cnt st =
     (let esize = element_size (sizedPools st p);
          numPages = slab_pages esize cnt;
          cap = numPages * 4096 div esize;
          s = num_slabs st;
          st1 = upd_slab s (\<lambda>sl. sl\<lparr>slab_pool := p, capacity := cap, slab_free := cap,
                   ids := replicate cap 0, objects := base\<rparr>)
                 (upd_pool p (\<lambda>pl. pl\<lparr>pool_free := pool_free pl + cap\<rparr>)
                   (st\<lparr>num_slabs := s + 1\<rparr>))
      in try_r (for_each (\<lambda>i. markSlab (base + of_nat (i * 4096)) s) [0..<numPages] st1) (\<lambda>st2.
           Ok (push_free p s (push_full p s st2))))"

text \<open>The index of the element and the offset in it.\<close>

definition getElementIndex :: "vhm \<Rightarrow> nat \<Rightarrow> u64 \<Rightarrow> (nat \<times> nat) result" where
  "getElementIndex st s ptr =
     (let slab_offset = ptr - objects (slabs st s);
          esize = element_size (pool_of st s);
          index = unat slab_offset div esize
      in assert_r (0 \<le> sint slab_offset \<and> index < capacity (slabs st s))
           (Ok (index, unat slab_offset mod esize)))"

definition getElementPtr :: "vhm \<Rightarrow> nat \<Rightarrow> nat \<Rightarrow> u64 result" where
  "getElementPtr st s index =
     assert_r (index < capacity (slabs st s))
       (Ok (objects (slabs st s) + of_nat (index * element_size (pool_of st s))))"

section \<open>Moving slabs on and off the free list\<close>

text \<open>The walk to the next predecessor with a free element; \<open>fuel\<close> bounds the steps.\<close>

fun free_predecessor :: "nat \<Rightarrow> vhm \<Rightarrow> nat option \<Rightarrow> nat option result" where
  "free_predecessor 0 st cur = Abort"
| "free_predecessor (Suc fuel) st cur =
     (case cur of
        None \<Rightarrow> Ok None
      | Some c \<Rightarrow> if 0 < slab_free (slabs st c) then Ok (Some c)
                 else free_predecessor fuel st (prev (slabs st c)))"

definition insert_after :: "nat \<Rightarrow> nat \<Rightarrow> nat \<Rightarrow> vhm \<Rightarrow> vhm" where
  "insert_after p c s st =
     (let n = free_next (slabs st c);
          st1 = upd_slab c (\<lambda>sl. sl\<lparr>free_next := Some s\<rparr>)
                  (upd_slab s (\<lambda>sl. sl\<lparr>free_next := n, free_prev := Some c\<rparr>) st)
      in if n \<noteq> None then upd_opt n (\<lambda>sl. sl\<lparr>free_prev := Some s\<rparr>) st1
         else upd_pool p (\<lambda>pl. pl\<lparr>free_tail := Some s\<rparr>) st1)"

definition makeFree :: "nat \<Rightarrow> nat \<Rightarrow> vhm \<Rightarrow> vhm result" where
  "makeFree p s st =
     try_r (free_predecessor (num_slabs st + 1) st (prev (slabs st s))) (\<lambda>cur.
       case cur of
         Some c \<Rightarrow> Ok (insert_after p c s st)
       | None \<Rightarrow> Ok (push_free p s st))"

definition makeFull :: "nat \<Rightarrow> nat \<Rightarrow> vhm \<Rightarrow> vhm" where
  "makeFull p s st =
     (let fp = free_prev (slabs st s); fn = free_next (slabs st s);
          st1 = (if fp \<noteq> None then upd_opt fp (\<lambda>sl. sl\<lparr>free_next := fn\<rparr>) st
                 else upd_pool p (\<lambda>pl. pl\<lparr>free_head := fn\<rparr>) st)
      in upd_opt fn (\<lambda>sl. sl\<lparr>free_prev := fp\<rparr>) st1)"

definition poolinit :: "nat \<Rightarrow> pool" where
  "poolinit esize =
     \<lparr>element_size = esize, pool_free = 0, free_head = None, free_tail = None, full_head = None\<rparr>"

section \<open>Allocation\<close>

fun pick_slab :: "nat \<Rightarrow> vhm \<Rightarrow> nat option \<Rightarrow> nat \<Rightarrow> (nat \<times> nat) result" where
  "pick_slab 0 st cur offset = Abort"
| "pick_slab (Suc fuel) st cur offset =
     (case cur of
        None \<Rightarrow> Abort
      | Some s \<Rightarrow>
          if slab_free (slabs st s) \<le> offset
          then pick_slab fuel st (free_next (slabs st s)) (offset - slab_free (slabs st s))
          else Ok (s, offset))"

text \<open>The index of the free element number \<open>offset\<close>; running off the end asserts.\<close>

fun pick_index :: "u64 list \<Rightarrow> nat \<Rightarrow> nat option" where
  "pick_index [] offset = None"
| "pick_index (t # ts) offset =
     (if t = 0 then (case offset of 0 \<Rightarrow> Some 0 | Suc o' \<Rightarrow> map_option Suc (pick_index ts o'))
      else map_option Suc (pick_index ts offset))"

text \<open>\<open>rnd\<close> is the value of \<open>rand_r\<close>, \<open>base\<close> where a new slab would be mapped.\<close>

definition allocate :: "u64 \<Rightarrow> nat \<Rightarrow> nat \<Rightarrow> u64 \<Rightarrow> vhm \<Rightarrow> (u64 \<times> vhm) result" where
  "allocate base rnd p tag st =
     assert_r (tag \<noteq> 0)
      (try_r
        (if pool_free (sizedPools st p) \<le> overprovision
         then allocateSlab base p (2 * overprovision) st else Ok st)
        (\<lambda>st. let offset = rnd mod pool_free (sizedPools st p) in
           try_r (pick_slab (num_slabs st + 1) st (free_head (sizedPools st p)) offset)
             (\<lambda>(s, offset).
           case pick_index (ids (slabs st s)) offset of
             None \<Rightarrow> Abort
           | Some i \<Rightarrow>
               (let st1 = upd_pool p (\<lambda>pl. pl\<lparr>pool_free := pool_free pl - 1\<rparr>)
                     (upd_slab s (\<lambda>sl. sl\<lparr>ids := (ids sl)[i := tag],
                        slab_free := slab_free sl - 1\<rparr>) st);
                    st2 = (if slab_free (slabs st1 s) = 0 then makeFull p s st1 else st1)
                in try_r (getElementPtr st2 s i) (\<lambda>ptr. Ok (ptr, st2))))))"

definition deallocate :: "nat \<Rightarrow> u64 \<Rightarrow> vhm \<Rightarrow> vhm result" where
  "deallocate s ptr st =
     try_r (getElementIndex st s ptr) (\<lambda>(index, _).
       let p = slab_pool (slabs st s);
           st1 = upd_pool p (\<lambda>pl. pl\<lparr>pool_free := pool_free pl + 1\<rparr>)
                   (upd_slab s (\<lambda>sl. sl\<lparr>ids := (ids sl)[index := 0],
                      slab_free := slab_free sl + 1\<rparr>) st)
       in if slab_free (slabs st1 s) = 1 then makeFree p s st1 else Ok st1)"

section \<open>The interface\<close>

text \<open>\<open>PointerInfo\<close>: tag and offset, both 0 when there is nothing.\<close>

definition getid :: "vhm \<Rightarrow> nat \<Rightarrow> u64 \<Rightarrow> (u64 \<times> nat) result" where
  "getid st s ptr =
     try_r (getElementIndex st s ptr) (\<lambda>(index, object_offset).
       let raw_id = ids (slabs st s) ! index
       in Ok (if raw_id = 0 then (0, 0) else (raw_id, object_offset)))"

definition PointerInfo_of :: "vhm \<Rightarrow> u64 \<Rightarrow> (u64 \<times> nat) result" where
  "PointerInfo_of st ptr =
     (case getSlab st ptr of None \<Rightarrow> Ok (0, 0) | Some s \<Rightarrow> getid st s ptr)"

text \<open>\<open>__builtin_clzl\<close>, undefined on 0.\<close>

definition clzl :: "u64 \<Rightarrow> nat result" where
  "clzl x = assert_r (x \<noteq> 0) (Ok (length (takeWhile (\<lambda>i. \<not> bit x i) (rev [0..<64]))))"

definition malloc_bin :: "u64 \<Rightarrow> nat result" where
  "malloc_bin sz =
     try_r (clzl (sz - 1)) (\<lambda>z.
       let logSize = 1 + (63 - z); bin = (if logSize < 4 then 0 else logSize - 4)
       in assert_r (bin < NUMPOOLS) (Ok bin))"

definition init_pools :: "vhm \<Rightarrow> vhm" where
  "init_pools st =
     st\<lparr>sizedPools := (\<lambda>i. if i < NUMPOOLS then poolinit (2 ^ (i + 4)) else sizedPools st i),
        thread_state := Ready\<rparr>"

text \<open>\<open>sys\<close> is the pointer the system's \<open>malloc\<close> would give.\<close>

definition xxmalloc :: "u64 \<Rightarrow> nat \<Rightarrow> u64 \<Rightarrow> u64 \<Rightarrow> vhm \<Rightarrow> (u64 \<times> vhm) result" where
  "xxmalloc base rnd sys sz st =
     (if sz = 0 then Ok (0, st)
      else if thread_state st = InsideMalloc then Ok (sys, st)
      else let st0 = (if thread_state st \<noteq> Ready then init_pools st else st)
           in try_r (malloc_bin sz) (\<lambda>bin.
              try_r (allocate base rnd bin (- 1) (st0\<lparr>thread_state := InsideMalloc\<rparr>)) (\<lambda>(ptr, st1).
                Ok (ptr, st1\<lparr>thread_state := Ready\<rparr>))))"

definition xxfree :: "u64 \<Rightarrow> vhm \<Rightarrow> vhm result" where
  "xxfree ptr st =
     (if ptr = 0 then Ok st
      else case getSlab st ptr of None \<Rightarrow> Ok st | Some s \<Rightarrow> deallocate s ptr st)"

definition xxmalloc_usable_size :: "vhm \<Rightarrow> u64 \<Rightarrow> nat" where
  "xxmalloc_usable_size st ptr =
     (case getSlab st ptr of None \<Rightarrow> 0 | Some s \<Rightarrow> element_size (pool_of st s))"

definition setTag :: "u64 \<Rightarrow> u64 \<Rightarrow> vhm \<Rightarrow> vhm result" where
  "setTag ptr tag st =
     assert_r (tag \<noteq> 0)
      (case getSlab st ptr of
         None \<Rightarrow> Abort
       | Some s \<Rightarrow>
           try_r (getElementIndex st s ptr) (\<lambda>(index, _).
             assert_r (ids (slabs st s) ! index = - 1)
               (Ok (upd_slab s (\<lambda>sl. sl\<lparr>ids := (ids sl)[index := tag]\<rparr>) st))))"

end
