(* ===== verification/Linked_Lists.thy ===== *)
theory Linked_Lists
  imports Main
begin

text \<open>
  Doubly linked lists given by their link functions, as the slabs of \<open>vhmalloc.cpp\<close> form them:
  the list predicate, and what pushing, unlinking and inserting do to it.
\<close>

section \<open>Doubly linked lists\<close>

text \<open>
  \<open>seg nx pv h p xs e q\<close>: starting at \<open>h\<close> with predecessor \<open>p\<close>, the links \<open>nx\<close> and
  \<open>pv\<close> run through \<open>xs\<close> and end at \<open>e\<close>, whose predecessor is \<open>q\<close>.
\<close>

fun seg ::
  "(nat \<Rightarrow> nat option) \<Rightarrow> (nat \<Rightarrow> nat option) \<Rightarrow> nat option \<Rightarrow> nat option \<Rightarrow> nat list
     \<Rightarrow> nat option \<Rightarrow> nat option \<Rightarrow> bool" where
  "seg nx pv h p [] e q = (h = e \<and> p = q)"
| "seg nx pv h p (x # xs) e q = (h = Some x \<and> pv x = p \<and> seg nx pv (nx x) (Some x) xs e q)"

definition dll :: "(nat \<Rightarrow> nat option) \<Rightarrow> (nat \<Rightarrow> nat option) \<Rightarrow> nat option \<Rightarrow> nat list \<Rightarrow> bool" where
  "dll nx pv h xs \<longleftrightarrow> (\<exists>q. seg nx pv h None xs None q)"

lemma seg_append:
  "seg nx pv h p (xs @ ys) e q \<longleftrightarrow> (\<exists>m r. seg nx pv h p xs m r \<and> seg nx pv m r ys e q)"
  by (induction xs arbitrary: h p) auto

lemma seg_cong:
  "(\<And>x. x \<in> set xs \<Longrightarrow> nx x = nx' x \<and> pv x = pv' x) \<Longrightarrow>
    seg nx pv h p xs e q = seg nx' pv' h p xs e q"
  by (induction xs arbitrary: h p) auto

lemma dll_cong:
  "(\<And>x. x \<in> set xs \<Longrightarrow> nx x = nx' x \<and> pv x = pv' x) \<Longrightarrow> dll nx pv h xs = dll nx' pv' h xs"
  unfolding dll_def by (rule arg_cong [where f = Ex], intro ext seg_cong)

lemma seg_last: "seg nx pv h p xs e q \<Longrightarrow> q = (if xs = [] then p else Some (last xs))"
  by (induction xs arbitrary: h p) auto

lemma seg_hd: "seg nx pv h p xs e q \<Longrightarrow> h = (case xs of [] \<Rightarrow> e | x # _ \<Rightarrow> Some x)"
  by (cases xs) auto

text \<open>Pushing at the front.\<close>

lemma dll_push:
  assumes "dll nx pv h xs" and "s \<notin> set xs" and "distinct xs"
  shows "dll (nx(s := h)) ((case h of None \<Rightarrow> pv | Some x \<Rightarrow> pv(x := Some s))(s := None)) (Some s) (s # xs)"
proof (cases xs)
  case Nil
  with assms(1) show ?thesis by (simp add: dll_def)
next
  case (Cons x ys)
  with assms(1) have h: "h = Some x" by (auto simp: dll_def)
  from assms(1) Cons obtain q where "seg nx pv (nx x) (Some x) ys None q" by (auto simp: dll_def)
  moreover have "seg nx pv (nx x) (Some x) ys None q =
      seg (nx(s := h)) ((pv(x := Some s))(s := None)) (nx x) (Some x) ys None q"
    using assms(2,3) Cons by (intro seg_cong) auto
  ultimately show ?thesis using assms(2) Cons h by (auto simp: dll_def)
qed

text \<open>Unlinking an element.\<close>

lemma dll_remove:
  assumes "dll nx pv h (xs @ s # ys)" and "distinct (xs @ s # ys)"
  shows "dll (case pv s of None \<Rightarrow> nx | Some c \<Rightarrow> nx(c := nx s))
    (case nx s of None \<Rightarrow> pv | Some m \<Rightarrow> pv(m := pv s))
    (case pv s of None \<Rightarrow> nx s | Some c \<Rightarrow> h) (xs @ ys)"
proof -
  let ?nx = "case pv s of None \<Rightarrow> nx | Some c \<Rightarrow> nx(c := nx s)"
  let ?pv = "case nx s of None \<Rightarrow> pv | Some m \<Rightarrow> pv(m := pv s)"
  from assms(1) obtain q where x: "seg nx pv h None xs (Some s) (pv s)"
    and y: "seg nx pv (nx s) (Some s) ys None q"
    by (auto simp: dll_def seg_append)
  note px = seg_last [OF x] and ny = seg_hd [OF y]
  have pin: "c \<in> set xs" if "pv s = Some c" for c
    using px that by (auto split: if_splits)
  have y': "\<exists>q'. seg ?nx ?pv (nx s) (pv s) ys None q'"
  proof (cases ys)
    case Nil
    with y show ?thesis by simp
  next
    case (Cons z zs)
    with y have z: "nx s = Some z" "seg nx pv (nx z) (Some z) zs None q" by auto
    have "seg nx pv (nx z) (Some z) zs None q = seg ?nx ?pv (nx z) (Some z) zs None q"
      using assms(2) Cons z(1) pin by (intro seg_cong) (auto split: option.splits)
    moreover have "?nx z = nx z"
      using assms(2) Cons pin by (auto split: option.splits)
    ultimately show ?thesis using z Cons by (intro exI [of _ q]) simp
  qed
  show ?thesis
  proof (cases xs rule: rev_cases)
    case Nil
    with px y' show ?thesis by (simp add: dll_def)
  next
    case (snoc us c)
    with px have c: "pv s = Some c" by simp
    from x snoc obtain r where u: "seg nx pv h None us (Some c) (pv c)"
      and "nx c = Some s" by (auto simp: seg_append)
    have "seg nx pv h None us (Some c) (pv c) = seg ?nx ?pv h None us (Some c) (pv c)"
      using assms(2) snoc c ny by (intro seg_cong) (auto split: list.splits)
    moreover have "?nx c = nx s" "?pv c = pv c"
      using assms(2) snoc c ny by (auto split: list.splits)
    ultimately have "seg ?nx ?pv h None (us @ [c]) (nx s) (Some c)"
      using u by (auto simp: seg_append)
    with y' snoc c show ?thesis
      unfolding dll_def by (auto simp: seg_append)
  qed
qed

text \<open>Linking in an element after another.\<close>

lemma dll_insert:
  assumes "dll nx pv h (xs @ c # ys)" and "distinct (xs @ c # ys)" and "s \<notin> set (xs @ c # ys)"
  shows "dll (nx(s := nx c, c := Some s))
    ((case nx c of None \<Rightarrow> pv | Some m \<Rightarrow> pv(m := Some s))(s := Some c)) h (xs @ c # s # ys)"
proof -
  let ?nx = "nx(s := nx c, c := Some s)"
  let ?pv = "(case nx c of None \<Rightarrow> pv | Some m \<Rightarrow> pv(m := Some s))(s := Some c)"
  from assms(1) obtain q where x: "seg nx pv h None xs (Some c) (pv c)"
    and y: "seg nx pv (nx c) (Some c) ys None q"
    by (auto simp: dll_def seg_append)
  note ny = seg_hd [OF y]
  have x': "seg ?nx ?pv h None xs (Some c) (pv c)"
  proof -
    have "seg nx pv h None xs (Some c) (pv c) = seg ?nx ?pv h None xs (Some c) (pv c)"
      using assms(2,3) ny by (intro seg_cong) (auto split: list.splits)
    with x show ?thesis by simp
  qed
  have y': "\<exists>q'. seg ?nx ?pv (nx c) (Some s) ys None q'"
  proof (cases ys)
    case Nil
    with y show ?thesis by simp
  next
    case (Cons z zs)
    with y have z: "nx c = Some z" "seg nx pv (nx z) (Some z) zs None q" by auto
    have "seg nx pv (nx z) (Some z) zs None q = seg ?nx ?pv (nx z) (Some z) zs None q"
      using assms(2,3) Cons z(1) by (intro seg_cong) auto
    moreover have "?nx z = nx z" "?pv z = Some s" using assms(2,3) Cons z by auto
    ultimately show ?thesis using z Cons by (intro exI [of _ q]) simp
  qed
  have "?pv c = pv c" "?pv s = Some c" "?nx c = Some s" "?nx s = nx c"
    using assms(2,3) ny by (auto split: list.splits)
  with x' y' show ?thesis unfolding dll_def by (auto simp: seg_append)
qed

end
