(* ===== verification/Vhmalloc_Inv.thy ===== *)
theory Vhmalloc_Inv
  imports Vhmalloc Linked_Lists
begin

text \<open>
  The allocator keeps its data structure: both lists of every pool well linked and in the same
  order, counters exact, the address map covering exactly the slabs. From this, what the callers
  see: an allocation is a fresh range whose every address leads to its tag, freeing and tagging
  change that range and nothing else.
\<close>

section \<open>The invariant\<close>

definition full_dll :: "vhm \<Rightarrow> nat \<Rightarrow> nat list \<Rightarrow> bool" where
  "full_dll st p xs \<longleftrightarrow>
     dll (\<lambda>s. next_slab (slabs st s)) (\<lambda>s. prev (slabs st s)) (full_head (sizedPools st p)) xs"

definition free_dll :: "vhm \<Rightarrow> nat \<Rightarrow> nat list \<Rightarrow> bool" where
  "free_dll st p xs \<longleftrightarrow>
     dll (\<lambda>s. free_next (slabs st s)) (\<lambda>s. free_prev (slabs st s)) (free_head (sizedPools st p)) xs"

definition has_free :: "vhm \<Rightarrow> nat \<Rightarrow> bool" where
  "has_free st s \<longleftrightarrow> 0 < slab_free (slabs st s)"

text \<open>
  A pool: its slabs \<open>xs\<close> in the order of the full list; the free list is that list without the
  slabs that have nothing free, in the same order; the counter is the sum.
\<close>

definition pool_ok :: "vhm \<Rightarrow> nat \<Rightarrow> nat list \<Rightarrow> bool" where
  "pool_ok st p xs \<longleftrightarrow>
     element_size (sizedPools st p) = 2 ^ (p + 4) \<and>
     distinct xs \<and> set xs = {s. s < num_slabs st \<and> slab_pool (slabs st s) = p} \<and>
     full_dll st p xs \<and> free_dll st p (filter (has_free st) xs) \<and>
     pool_free (sizedPools st p) = sum_list (map (\<lambda>s. slab_free (slabs st s)) xs)"

definition slab_bytes :: "vhm \<Rightarrow> nat \<Rightarrow> nat" where
  "slab_bytes st s = capacity (slabs st s) * element_size (pool_of st s)"

definition slab_ok :: "vhm \<Rightarrow> nat \<Rightarrow> bool" where
  "slab_ok st s \<longleftrightarrow>
     slab_pool (slabs st s) < NUMPOOLS \<and>
     length (ids (slabs st s)) = capacity (slabs st s) \<and>
     slab_free (slabs st s) = length (filter (\<lambda>t. t = 0) (ids (slabs st s))) \<and>
     0 < unat (objects (slabs st s)) \<and> unat (objects (slabs st s)) mod 4096 = 0 \<and>
     slab_bytes st s mod 4096 = 0 \<and> unat (objects (slabs st s)) + slab_bytes st s \<le> 2 ^ 47"

definition in_slab :: "vhm \<Rightarrow> nat \<Rightarrow> u64 \<Rightarrow> bool" where
  "in_slab st s a \<longleftrightarrow>
     unat (objects (slabs st s)) \<le> unat a \<and>
     unat a < unat (objects (slabs st s)) + slab_bytes st s"

definition map_ok :: "vhm \<Rightarrow> bool" where
  "map_ok st \<longleftrightarrow> (\<forall>a s. getSlab st a = Some s \<longleftrightarrow> s < num_slabs st \<and> in_slab st s a)"

definition vh_inv :: "vhm \<Rightarrow> bool" where
  "vh_inv st \<longleftrightarrow>
     (\<forall>p<NUMPOOLS. \<exists>xs. pool_ok st p xs) \<and> (\<forall>s<num_slabs st. slab_ok st s) \<and> map_ok st"

subsection \<open>What links do not touch\<close>

text \<open>Two states that differ in links and list heads only.\<close>

definition same_core :: "vhm \<Rightarrow> vhm \<Rightarrow> bool" where
  "same_core st st' \<longleftrightarrow>
     (\<forall>s. slab_pool (slabs st' s) = slab_pool (slabs st s) \<and>
          capacity (slabs st' s) = capacity (slabs st s) \<and>
          slab_free (slabs st' s) = slab_free (slabs st s) \<and>
          objects (slabs st' s) = objects (slabs st s) \<and> ids (slabs st' s) = ids (slabs st s)) \<and>
     (\<forall>p. element_size (sizedPools st' p) = element_size (sizedPools st p) \<and>
          pool_free (sizedPools st' p) = pool_free (sizedPools st p)) \<and>
     num_slabs st' = num_slabs st \<and> slabMap st' = slabMap st"

lemma same_core_refl [simp]: "same_core st st"
  by (simp add: same_core_def)

lemma same_core_trans: "same_core a b \<Longrightarrow> same_core b c \<Longrightarrow> same_core a c"
  by (simp add: same_core_def)

lemma same_core_links:
  "same_core st (makeFull p s st)" "same_core st (push_free p s st)"
  "same_core st (push_full p s st)" "same_core st (insert_after p c s st)"
  by (auto simp: same_core_def makeFull_def push_free_def push_full_def insert_after_def
      upd_slab_def upd_pool_def upd_opt_def Let_def split: option.splits)

lemma same_core_eqs:
  assumes "same_core st st'"
  shows "slab_bytes st' s = slab_bytes st s" "slab_ok st' s = slab_ok st s"
    "in_slab st' s a = in_slab st s a" "getSlab st' a = getSlab st a" "map_ok st' = map_ok st"
    "has_free st' s = has_free st s" "getElementIndex st' s a = getElementIndex st s a"
    "getElementPtr st' s i = getElementPtr st s i" "PointerInfo_of st' a = PointerInfo_of st a"
    "num_slabs st' = num_slabs st"
proof -
  note c = assms [unfolded same_core_def]
  show b: "\<And>s. slab_bytes st' s = slab_bytes st s" using c by (simp add: slab_bytes_def pool_of_def)
  show "slab_ok st' s = slab_ok st s" using c b by (simp add: slab_ok_def)
  show i: "\<And>s a. in_slab st' s a = in_slab st s a" using c b by (simp add: in_slab_def)
  show g: "\<And>a. getSlab st' a = getSlab st a" using c by (simp add: getSlab_def)
  show "num_slabs st' = num_slabs st" using c by simp
  with g i show "map_ok st' = map_ok st" by (simp add: map_ok_def)
  show "has_free st' s = has_free st s" using c by (simp add: has_free_def)
  show e: "\<And>s a. getElementIndex st' s a = getElementIndex st s a"
    using c by (simp add: getElementIndex_def pool_of_def)
  show "getElementPtr st' s i = getElementPtr st s i"
    using c by (simp add: getElementPtr_def pool_of_def)
  show "PointerInfo_of st' a = PointerInfo_of st a"
    using c e g by (simp add: PointerInfo_of_def getid_def split: option.split)
qed

text \<open>A pool whose slabs are not touched.\<close>

lemma pool_ok_frame:
  assumes "pool_ok st p xs" and "sizedPools st' p = sizedPools st p"
    and "\<And>s. s \<in> set xs \<Longrightarrow> slabs st' s = slabs st s"
    and "{s. s < num_slabs st' \<and> slab_pool (slabs st' s) = p} = set xs"
  shows "pool_ok st' p xs"
proof -
  have "full_dll st' p xs = full_dll st p xs"
    unfolding full_dll_def assms(2) using assms(3) by (intro dll_cong) simp
  moreover have f: "filter (has_free st') xs = filter (has_free st) xs"
    using assms(3) by (intro filter_cong) (simp_all add: has_free_def)
  moreover have "free_dll st' p (filter (has_free st) xs) = free_dll st p (filter (has_free st) xs)"
    unfolding free_dll_def assms(2) using assms(3) by (intro dll_cong) simp
  moreover have "sum_list (map (\<lambda>s. slab_free (slabs st' s)) xs) =
      sum_list (map (\<lambda>s. slab_free (slabs st s)) xs)"
    using assms(3) by (simp cong: map_cong)
  ultimately show ?thesis using assms(1,2,4) by (simp add: pool_ok_def)
qed

lemma sum_list_update_fun:
  assumes "distinct xs" and "s \<in> set xs"
  shows "sum_list (map (f(s := v)) xs) + f s = sum_list (map f xs) + (v :: nat)"
proof -
  have "map (f(s := v)) (remove1 s xs) = map f (remove1 s xs)"
    using assms(1) by (auto simp: set_remove1_eq)
  with sum_list_map_remove1 [OF assms(2), of f] sum_list_map_remove1 [OF assms(2), of "f(s := v)"]
  show ?thesis by simp
qed

section \<open>Addresses\<close>

definition page_of :: "u64 \<Rightarrow> nat" where
  "page_of a = unat a div 4096"

lemma level1_page: "level1 a = page_of a div 2 ^ 18"
  by (simp add: level1_def page_of_def unat_drop_bit_eq drop_bit_eq_div unat_div
      flip: div_mult2_eq)

lemma level2_page: "level2 a = page_of a mod 2 ^ 18"
proof -
  have "unat (a AND mask 30) = unat a mod 2 ^ 30"
    by (simp only: take_bit_eq_mask [symmetric] unsigned_take_bit_eq) (simp add: take_bit_eq_mod)
  then have "level2 a = unat a mod (4096 * 2 ^ 18) div 4096"
    by (simp add: level2_def drop_bit_eq_div unat_div)
  then show ?thesis by (simp only: mod_mult2_eq page_of_def)
qed

lemma same_page:
  "level1 a = level1 b \<and> level2 a = level2 b \<longleftrightarrow> page_of a = page_of b"
  unfolding level1_page level2_page by (metis div_mult_mod_eq)

lemma getSlab_markSlab:
  assumes "markSlab ptr s st = Ok st'"
  shows "getSlab st' a = (if page_of a = page_of ptr then Some s else getSlab st a)"
    and "slabs st' = slabs st" "num_slabs st' = num_slabs st" "sizedPools st' = sizedPools st"
proof -
  have l: "level1 ptr < 2 ^ 17" and st': "st' = st\<lparr>slabMap := (slabMap st)(level1 ptr :=
      Some ((case slabMap st (level1 ptr) of None \<Rightarrow> (\<lambda>_. None) | Some r \<Rightarrow> r)(level2 ptr := Some s)))\<rparr>"
    using assms by (auto simp: markSlab_def ok_iff Let_def)
  show "getSlab st' a = (if page_of a = page_of ptr then Some s else getSlab st a)"
    using l same_page [of a ptr] by (auto simp: getSlab_def st' split: option.splits)
qed (use assms in \<open>auto simp: markSlab_def ok_iff Let_def\<close>)

section \<open>The walks of \<open>allocate\<close> and \<open>makeFree\<close>\<close>

lemma pick_slab_ok:
  assumes "seg (\<lambda>s. free_next (slabs st s)) pv h p xs None q"
    and "offset < sum_list (map (\<lambda>s. slab_free (slabs st s)) xs)" and "length xs < fuel"
  shows "\<exists>s off. pick_slab fuel st h offset = Ok (s, off) \<and> s \<in> set xs \<and> off < slab_free (slabs st s)"
  using assms
proof (induction xs arbitrary: h p offset fuel)
  case (Cons x xs)
  then obtain fuel' where f: "fuel = Suc fuel'" by (cases fuel) auto
  show ?case
  proof (cases "slab_free (slabs st x) \<le> offset")
    case True
    then have "offset - slab_free (slabs st x) < sum_list (map (\<lambda>s. slab_free (slabs st s)) xs)"
      using Cons.prems(2) by simp
    moreover have "seg (\<lambda>s. free_next (slabs st s)) pv (free_next (slabs st x)) (Some x) xs None q"
      "length xs < fuel'" using Cons.prems f by simp_all
    ultimately obtain s off where
      "pick_slab fuel' st (free_next (slabs st x)) (offset - slab_free (slabs st x)) = Ok (s, off)"
      "s \<in> set xs" "off < slab_free (slabs st s)" using Cons.IH by blast
    with Cons.prems True f show ?thesis by (intro exI [of _ s] exI [of _ off]) auto
  next
    case False
    with Cons.prems f show ?thesis by simp
  qed
qed simp

lemma pick_index_ok:
  "offset < length (filter (\<lambda>t. t = 0) ts) \<Longrightarrow>
    \<exists>i. pick_index ts offset = Some i \<and> i < length ts \<and> ts ! i = 0"
proof (induction ts arbitrary: offset)
  case (Cons t ts)
  show ?case
  proof (cases "t = 0")
    case True
    show ?thesis
    proof (cases offset)
      case 0
      with True show ?thesis by simp
    next
      case (Suc o')
      with Cons True obtain i where "pick_index ts o' = Some i" "i < length ts" "ts ! i = 0" by auto
      with True Suc show ?thesis by (intro exI [of _ "Suc i"]) simp
    qed
  next
    case False
    with Cons obtain i where "pick_index ts offset = Some i" "i < length ts" "ts ! i = 0" by auto
    with False show ?thesis by (intro exI [of _ "Suc i"]) simp
  qed
qed simp

text \<open>Walking back from \<open>xs\<close>, the last slab of \<open>xs\<close> with something free.\<close>

lemma free_predecessor_ok:
  assumes "seg nx (\<lambda>s. prev (slabs st s)) h None xs e q" and "length xs < fuel"
  shows "free_predecessor fuel st q =
    Ok (let fs = filter (has_free st) xs in if fs = [] then None else Some (last fs))"
  using assms
proof (induction xs arbitrary: e q fuel rule: rev_induct)
  case Nil
  then show ?case by (cases fuel) auto
next
  case (snoc x xs)
  then obtain fuel' where f: "fuel = Suc fuel'" by (cases fuel) auto
  from snoc.prems(1) have q: "q = Some x" and "seg nx (\<lambda>s. prev (slabs st s)) h None xs (Some x) (prev (slabs st x))"
    by (auto simp: seg_append)
  from snoc.IH [OF this(2), of fuel'] snoc.prems(2) f q show ?case
    by (simp add: has_free_def Let_def)
qed

lemma length_distinct_slabs:
  assumes "distinct xs" and "set xs \<subseteq> {..<n}"
  shows "length xs \<le> n"
  using assms by (metis card_lessThan card_mono distinct_card finite_lessThan)

section \<open>A new slab\<close>

definition fresh_mapping :: "u64 \<Rightarrow> nat \<Rightarrow> vhm \<Rightarrow> bool" where
  "fresh_mapping base bytes st \<longleftrightarrow>
     0 < unat base \<and> unat base mod 4096 = 0 \<and> unat base + bytes \<le> 2 ^ 47 \<and>
     (\<forall>a. unat base \<le> unat a \<and> unat a < unat base + bytes \<longrightarrow> getSlab st a = None)"

lemma markSlab_pages:
  assumes "unat base mod 4096 = 0" and "unat base + n * 4096 \<le> 2 ^ 47"
  obtains st' where "for_each (\<lambda>i. markSlab (base + of_nat (i * 4096)) s) [0..<n] st = Ok st'"
    and "\<And>a. getSlab st' a =
      (if unat base \<le> unat a \<and> unat a < unat base + n * 4096 then Some s else getSlab st a)"
    and "slabs st' = slabs st" "num_slabs st' = num_slabs st" "sizedPools st' = sizedPools st"
      "thread_state st' = thread_state st"
proof -
  have "\<exists>st'. for_each (\<lambda>i. markSlab (base + of_nat (i * 4096)) s) [0..<n] st = Ok st' \<and>
    (\<forall>a. getSlab st' a =
      (if unat base \<le> unat a \<and> unat a < unat base + n * 4096 then Some s else getSlab st a)) \<and>
    slabs st' = slabs st \<and> num_slabs st' = num_slabs st \<and> sizedPools st' = sizedPools st \<and>
    thread_state st' = thread_state st"
    using assms(2)
  proof (induction n)
    case 0
    show ?case by auto
  next
    case (Suc n)
    then obtain st1 where 1: "for_each (\<lambda>i. markSlab (base + of_nat (i * 4096)) s) [0..<n] st = Ok st1"
      and g: "\<And>a. getSlab st1 a =
        (if unat base \<le> unat a \<and> unat a < unat base + n * 4096 then Some s else getSlab st a)"
      and fr: "slabs st1 = slabs st" "num_slabs st1 = num_slabs st" "sizedPools st1 = sizedPools st"
        "thread_state st1 = thread_state st"
      by auto
    let ?p = "base + of_nat (n * 4096)"
    have up: "unat ?p = unat base + n * 4096"
    proof -
      have "unat (of_nat (n * 4096) :: u64) = n * 4096"
        using Suc.prems by (intro unat_of_nat_small) simp
      then show ?thesis using Suc.prems by (subst unat_plus_small) simp_all
    qed
    have "(unat base + n * 4096) div 4096 div 2 ^ 18 < 2 ^ 17"
      using Suc.prems by (simp add: less_mult_imp_div_less)
    then have "level1 ?p < 2 ^ 17" by (simp only: level1_page page_of_def up)
    then obtain st2 where 2: "markSlab ?p s st1 = Ok st2" by (simp add: markSlab_def Let_def)
    have "page_of a = page_of ?p \<longleftrightarrow>
        unat base + n * 4096 \<le> unat a \<and> unat a < unat base + Suc n * 4096" for a
    proof -
      obtain k where k: "unat base = k * 4096" using assms(1) by (metis dvd_def dvd_eq_mod_eq_0 mult.commute)
      have "page_of ?p = k + n" by (simp only: page_of_def up k)
      moreover have "page_of a = m \<longleftrightarrow> m * 4096 \<le> unat a \<and> unat a < (m + 1) * 4096" for m
        unfolding page_of_def by (auto simp: div_nat_eqI)
      ultimately show ?thesis by (simp add: k algebra_simps)
    qed
    with getSlab_markSlab [OF 2] g have
      "getSlab st2 a = (if unat base \<le> unat a \<and> unat a < unat base + Suc n * 4096 then Some s
        else getSlab st a)" for a by auto
    moreover have "thread_state st2 = thread_state st1" using 2 by (auto simp: markSlab_def ok_iff Let_def)
    ultimately show ?case
      using 1 2 fr getSlab_markSlab(2-4) [OF 2] by (simp add: for_each_append)
  qed
  with that show thesis by blast
qed

section \<open>The list operations\<close>

lemma push_full_dll:
  assumes "full_dll st p xs" and "s \<notin> set xs" and "distinct xs"
  shows "full_dll (push_full p s st) p (s # xs)"
proof -
  let ?h = "full_head (sizedPools st p)"
  have h: "?h \<noteq> Some s" using assms(1,2) by (cases xs) (auto simp: full_dll_def dll_def)
  from dll_push [OF assms(1) [unfolded full_dll_def] assms(2,3)]
  show ?thesis
    unfolding full_dll_def
    by (rule back_subst [where P = "\<lambda>x. x"])
      (use h in \<open>auto simp: push_full_def upd_pool_def upd_slab_def upd_opt_def Let_def
        split: option.splits intro!: dll_cong\<close>)
qed

lemma push_free_dll:
  assumes "free_dll st p xs" and "s \<notin> set xs" and "distinct xs"
  shows "free_dll (push_free p s st) p (s # xs)"
proof -
  let ?h = "free_head (sizedPools st p)"
  have h: "?h \<noteq> Some s" using assms(1,2) by (cases xs) (auto simp: free_dll_def dll_def)
  from dll_push [OF assms(1) [unfolded free_dll_def] assms(2,3)]
  show ?thesis
    unfolding free_dll_def
    by (rule back_subst [where P = "\<lambda>x. x"])
      (use h in \<open>auto simp: push_free_def upd_pool_def upd_slab_def upd_opt_def Let_def
        split: option.splits intro!: dll_cong\<close>)
qed

lemma insert_after_dll:
  assumes "free_dll st p (xs @ c # ys)" and "distinct (xs @ c # ys)" and "s \<notin> set (xs @ c # ys)"
  shows "free_dll (insert_after p c s st) p (xs @ c # s # ys)"
proof -
  have n: "free_next (slabs st c) \<noteq> Some s" "free_next (slabs st c) \<noteq> Some c"
  proof -
    from assms(1) obtain q where y: "seg (\<lambda>s. free_next (slabs st s)) (\<lambda>s. free_prev (slabs st s))
        (free_next (slabs st c)) (Some c) ys None q"
      by (auto simp: free_dll_def dll_def seg_append)
    from seg_hd [OF this] assms(2,3) show "free_next (slabs st c) \<noteq> Some s"
      "free_next (slabs st c) \<noteq> Some c" by (auto split: list.splits)
  qed
  have sc: "s \<noteq> c" using assms(3) by auto
  from dll_insert [OF assms(1) [unfolded free_dll_def] assms(2,3)]
  show ?thesis
    unfolding free_dll_def
    by (rule back_subst [where P = "\<lambda>x. x"])
      (use n sc in \<open>auto simp: insert_after_def upd_pool_def upd_slab_def upd_opt_def Let_def
        split: option.splits intro!: dll_cong\<close>)
qed

lemma makeFull_dll:
  assumes "free_dll st p (xs @ s # ys)" and "distinct (xs @ s # ys)"
  shows "free_dll (makeFull p s st) p (xs @ ys)"
proof -
  from dll_remove [OF assms(1) [unfolded free_dll_def] assms(2)]
  show ?thesis
    unfolding free_dll_def
    by (rule back_subst [where P = "\<lambda>x. x"])
      (auto simp: makeFull_def upd_pool_def upd_slab_def upd_opt_def Let_def
        split: option.splits intro!: dll_cong)
qed

text \<open>Each operation touches one list of one pool, and only slabs of that list.\<close>

lemma full_dll_frame:
  "full_dll (push_free p s st) p' xs = full_dll st p' xs"
  "full_dll (insert_after p c s st) p' xs = full_dll st p' xs"
  "full_dll (makeFull p s st) p' xs = full_dll st p' xs"
  by (auto simp: full_dll_def push_free_def insert_after_def makeFull_def upd_pool_def upd_slab_def
      upd_opt_def Let_def split: option.splits intro!: dll_cong)

lemma free_dll_push_full: "free_dll (push_full p s st) p' xs = free_dll st p' xs"
  by (auto simp: free_dll_def push_full_def upd_pool_def upd_slab_def
      upd_opt_def Let_def split: option.splits intro!: dll_cong)

lemma other_slabs:
  "t \<noteq> s \<Longrightarrow> full_head (sizedPools st p) \<noteq> Some t \<Longrightarrow> slabs (push_full p s st) t = slabs st t"
  "t \<noteq> s \<Longrightarrow> free_head (sizedPools st p) \<noteq> Some t \<Longrightarrow> slabs (push_free p s st) t = slabs st t"
  "t \<noteq> s \<Longrightarrow> t \<noteq> c \<Longrightarrow> free_next (slabs st c) \<noteq> Some t \<Longrightarrow> slabs (insert_after p c s st) t = slabs st t"
  "free_prev (slabs st s) \<noteq> Some t \<Longrightarrow> free_next (slabs st s) \<noteq> Some t \<Longrightarrow>
     slabs (makeFull p s st) t = slabs st t"
  by (auto simp: push_full_def push_free_def insert_after_def makeFull_def upd_pool_def upd_slab_def
      upd_opt_def Let_def split: option.splits)

lemma other_pools:
  assumes "q \<noteq> p"
  shows "sizedPools (push_full p s st) q = sizedPools st q"
    and "sizedPools (push_free p s st) q = sizedPools st q"
    and "sizedPools (insert_after p c s st) q = sizedPools st q"
    and "sizedPools (makeFull p s st) q = sizedPools st q"
  using assms
  by (auto simp: push_full_def push_free_def insert_after_def makeFull_def upd_pool_def upd_slab_def
      upd_opt_def Let_def split: option.splits)

text \<open>What a list operation or an update of one slab of pool \<open>p\<close> leaves of the other pools.\<close>

lemma pools_frame:
  assumes "pool_ok st p xs" and "pool_ok st q ys" and "q \<noteq> p"
    and "sizedPools st' q = sizedPools st q"
    and "\<And>t. t \<notin> set xs \<Longrightarrow> slabs st' t = slabs st t"
    and "\<And>t. slab_pool (slabs st' t) = slab_pool (slabs st t)" and "num_slabs st' = num_slabs st"
  shows "pool_ok st' q ys"
proof (rule pool_ok_frame [OF assms(2,4)])
  have "set xs \<inter> set ys = {}" using assms(1-3) by (auto simp: pool_ok_def)
  then show "slabs st' t = slabs st t" if "t \<in> set ys" for t using assms(5) that by blast
  show "{t. t < num_slabs st' \<and> slab_pool (slabs st' t) = q} = set ys"
    using assms(2) by (simp add: assms(6,7) pool_ok_def)
qed

lemma dll_members:
  assumes "dll nx pv h xs" and "s \<in> set xs"
  shows "h = Some t \<Longrightarrow> t \<in> set xs" "nx s = Some t \<Longrightarrow> t \<in> set xs" "pv s = Some t \<Longrightarrow> t \<in> set xs"
proof -
  show "t \<in> set xs" if "h = Some t" using assms that by (cases xs) (auto simp: dll_def)
  from assms(2) obtain as bs where xs: "xs = as @ s # bs" by (auto simp: in_set_conv_decomp)
  with assms(1) obtain q where a: "seg nx pv h None as (Some s) (pv s)"
    and b: "seg nx pv (nx s) (Some s) bs None q" by (auto simp: dll_def seg_append)
  show "t \<in> set xs" if "nx s = Some t" using seg_hd [OF b] that xs by (auto split: list.splits)
  show "t \<in> set xs" if "pv s = Some t" using seg_last [OF a] that xs by (auto split: if_splits)
qed

section \<open>Taking and giving back an element\<close>

text \<open>The bookkeeping of one element: its tag, and the two counters.\<close>

definition put_id :: "nat \<Rightarrow> nat \<Rightarrow> nat \<Rightarrow> u64 \<Rightarrow> nat \<Rightarrow> nat \<Rightarrow> vhm \<Rightarrow> vhm" where
  "put_id p s i tag nfree npool st =
     upd_pool p (\<lambda>pl. pl\<lparr>pool_free := npool\<rparr>)
       (upd_slab s (\<lambda>sl. sl\<lparr>ids := (ids sl)[i := tag], slab_free := nfree\<rparr>) st)"

lemma put_id_simps [simp]:
  "num_slabs (put_id p s i tag nf np st) = num_slabs st"
  "slabMap (put_id p s i tag nf np st) = slabMap st"
  "slabs (put_id p s i tag nf np st) =
     (slabs st)(s := (slabs st s)\<lparr>ids := (ids (slabs st s))[i := tag], slab_free := nf\<rparr>)"
  "sizedPools (put_id p s i tag nf np st) =
     (sizedPools st)(p := (sizedPools st p)\<lparr>pool_free := np\<rparr>)"
  "thread_state (put_id p s i tag nf np st) = thread_state st"
  by (simp_all add: put_id_def upd_pool_def upd_slab_def)

lemma put_id_core:
  assumes "slab_pool (slabs st s) = p"
  shows "getSlab (put_id p s i tag nf np st) a = getSlab st a"
    "slab_bytes (put_id p s i tag nf np st) t = slab_bytes st t"
    "in_slab (put_id p s i tag nf np st) t a = in_slab st t a"
    "map_ok (put_id p s i tag nf np st) = map_ok st"
    "getElementIndex (put_id p s i tag nf np st) t a = getElementIndex st t a"
    "getElementPtr (put_id p s i tag nf np st) t j = getElementPtr st t j"
    "element_size (pool_of (put_id p s i tag nf np st) t) = element_size (pool_of st t)"
proof -
  let ?st = "put_id p s i tag nf np st"
  show e: "\<And>t. element_size (pool_of ?st t) = element_size (pool_of st t)"
    by (simp add: pool_of_def)
  show g: "\<And>a. getSlab ?st a = getSlab st a" by (simp add: getSlab_def)
  show b: "\<And>t. slab_bytes ?st t = slab_bytes st t" using e by (simp add: slab_bytes_def)
  show s: "\<And>t a. in_slab ?st t a = in_slab st t a" by (simp add: in_slab_def b)
  show "map_ok ?st = map_ok st" by (simp add: map_ok_def g s)
  show "getElementIndex ?st t a = getElementIndex st t a"
    using e by (simp add: getElementIndex_def)
  show "getElementPtr ?st t j = getElementPtr st t j"
    using e by (simp add: getElementPtr_def)
qed

lemma count_free_update:
  "i < length ts \<Longrightarrow> length (filter (\<lambda>t. t = 0) (ts[i := tag])) + of_bool (ts ! i = 0) =
    length (filter (\<lambda>t. t = 0) ts) + of_bool (tag = (0 :: u64))"
proof (induction ts arbitrary: i)
  case (Cons t ts)
  then show ?case by (cases i) auto
qed simp


section \<open>The new slab joins its pool\<close>

lemma round_up:
  "(m :: nat) \<le> (if m mod 4096 = 0 then m else (m div 4096 + 1) * 4096)"
  "(if m mod 4096 = 0 then m else (m div 4096 + 1) * 4096) < m + 4096"
proof -
  define q r where "q = m div 4096" and "r = m mod 4096"
  have m: "m = q * 4096 + r" "r < 4096" by (simp_all add: q_def r_def)
  show "m \<le> (if m mod 4096 = 0 then m else (m div 4096 + 1) * 4096)"
    using m unfolding q_def [symmetric] r_def [symmetric] by auto
  show "(if m mod 4096 = 0 then m else (m div 4096 + 1) * 4096) < m + 4096"
    using m unfolding q_def [symmetric] r_def [symmetric] by auto
qed

lemma slab_pages_size:
  assumes "0 < cnt"
  shows "slab_pages (2 ^ k) cnt * 4096 mod 2 ^ k = 0" and "2 ^ k * cnt \<le> slab_pages (2 ^ k) cnt * 4096"
    and "slab_pages (2 ^ k) cnt * 4096 < 2 ^ k * cnt + 4096"
proof -
  let ?n = "2 ^ k * cnt :: nat"
  have p: "slab_pages (2 ^ k) cnt * 4096 = (if ?n mod 4096 = 0 then ?n else (?n div 4096 + 1) * 4096)"
    using assms by (auto simp: slab_pages_def Let_def)
  show "2 ^ k * cnt \<le> slab_pages (2 ^ k) cnt * 4096" "slab_pages (2 ^ k) cnt * 4096 < 2 ^ k * cnt + 4096"
    unfolding p by (rule round_up)+
  show "slab_pages (2 ^ k) cnt * 4096 mod 2 ^ k = 0"
  proof (cases "k \<le> 12")
    case True
    then have "(2::nat) ^ k dvd 2 ^ 12" by (rule le_imp_power_dvd)
    then have "(2::nat) ^ k dvd slab_pages (2 ^ k) cnt * 4096" by simp
    then show ?thesis by (simp add: dvd_eq_mod_eq_0)
  next
    case False
    then have "(2::nat) ^ 12 dvd 2 ^ k" by (intro le_imp_power_dvd) simp
    then have "(4096::nat) dvd ?n" by simp
    then show ?thesis by (simp add: p dvd_eq_mod_eq_0)
  qed
qed

lemma sint_small:
  assumes "unat (x :: u64) < 2 ^ 63"
  shows "0 \<le> sint x"
proof -
  have "\<not> bit x 63"
    using assms by (metis drop_bit_eq_0_iff drop_bit_eq_0_unat order_refl)
  then show ?thesis by (simp add: sint_uint signed_take_bit_eq_if_positive bit_uint_iff)
qed

text \<open>The element an address of a slab belongs to.\<close>

lemma getElementIndex_in:
  assumes "slab_ok st s" and "in_slab st s a" and "0 < element_size (pool_of st s)"
  defines "d \<equiv> unat a - unat (objects (slabs st s))"
  shows "getElementIndex st s a =
      Ok (d div element_size (pool_of st s), d mod element_size (pool_of st s))"
    and "d div element_size (pool_of st s) < capacity (slabs st s)"
proof -
  have le: "objects (slabs st s) \<le> a" and lt: "d < slab_bytes st s"
    using assms(2) by (auto simp: in_slab_def word_le_nat_alt d_def)
  have u: "unat (a - objects (slabs st s)) = d"
    using le by (simp add: unat_sub d_def)
  have "slab_bytes st s \<le> 2 ^ 47" using assms(1) by (auto simp: slab_ok_def)
  then have "0 \<le> sint (a - objects (slabs st s))" using lt u by (intro sint_small) simp
  moreover show *: "d div element_size (pool_of st s) < capacity (slabs st s)"
    using lt assms(3) by (simp add: slab_bytes_def less_mult_imp_div_less)
  ultimately show "getElementIndex st s a =
      Ok (d div element_size (pool_of st s), d mod element_size (pool_of st s))"
    by (simp add: getElementIndex_def u Let_def)
qed

lemma element_size_pos:
  "vh_inv st \<Longrightarrow> slab_pool (slabs st s) < NUMPOOLS \<Longrightarrow>
    element_size (pool_of st s) = 2 ^ (slab_pool (slabs st s) + 4)"
  by (auto simp: vh_inv_def pool_of_def pool_ok_def)

subsection \<open>A new slab\<close>

text \<open>
  The state after \<open>allocateSlab\<close> has entered a new slab for pool \<open>p\<close> in the page map and in
  the pool's count, before it links the slab into the lists of the pool.
\<close>

definition slab_added :: "vhm \<Rightarrow> nat \<Rightarrow> nat \<Rightarrow> nat \<Rightarrow> u64 \<Rightarrow> vhm \<Rightarrow> bool" where
  "slab_added st p cap sz base st2 \<longleftrightarrow>
     vh_inv st \<and> p < NUMPOOLS \<and> 0 < cap \<and> cap * 2 ^ (p + 4) = sz \<and>
     sz mod 4096 = 0 \<and> unat base mod 4096 = 0 \<and> unat base + sz \<le> 2 ^ 47 \<and> 0 < unat base \<and>
     (\<forall>a. unat base \<le> unat a \<and> unat a < unat base + sz \<longrightarrow> getSlab st a = None) \<and>
     (\<forall>a. getSlab st2 a = (if unat base \<le> unat a \<and> unat a < unat base + sz then Some (num_slabs st) else getSlab st a)) \<and>
     slabs st2 = (slabs st)(num_slabs st := (slabs st (num_slabs st))\<lparr>slab_pool := p, capacity := cap, slab_free := cap,
       ids := replicate cap 0, objects := base\<rparr>) \<and>
     num_slabs st2 = num_slabs st + 1 \<and>
     sizedPools st2 = (sizedPools st)(p := (sizedPools st p)\<lparr>pool_free := pool_free (sizedPools st p) + cap\<rparr>) \<and>
     thread_state st2 = thread_state st"

lemma slab_added_parts:
  assumes "slab_added st p cap sz base st2"
  shows "vh_inv st" "p < NUMPOOLS" "0 < cap" "unat base mod 4096 = 0" "unat base + sz \<le> 2 ^ 47" "0 < unat base"
    "cap * 2 ^ (p + 4) = sz" "sz mod 4096 = 0"
    "\<And>a. unat base \<le> unat a \<Longrightarrow> unat a < unat base + sz \<Longrightarrow> getSlab st a = None"
    "\<And>a. getSlab st2 a = (if unat base \<le> unat a \<and> unat a < unat base + sz then Some (num_slabs st) else getSlab st a)"
  using assms by (simp_all add: slab_added_def)

lemma slab_added_fields:
  assumes "slab_added st p cap sz base st2"
  shows "slabs st2 (num_slabs st) = (slabs st (num_slabs st))\<lparr>slab_pool := p, capacity := cap, slab_free := cap,
      ids := replicate cap 0, objects := base\<rparr>"
    and "t \<noteq> num_slabs st \<Longrightarrow> slabs st2 t = slabs st t" and "num_slabs st2 = num_slabs st + 1"
    and "sizedPools st2 p = (sizedPools st p)\<lparr>pool_free := pool_free (sizedPools st p) + cap\<rparr>"
    and "q \<noteq> p \<Longrightarrow> sizedPools st2 q = sizedPools st q"
    and "element_size (sizedPools st p) = 2 ^ (p + 4)"
    and "element_size (sizedPools st2 r) = element_size (sizedPools st r)"
    and "slab_bytes st2 (num_slabs st) = sz" and "t \<noteq> num_slabs st \<Longrightarrow> slab_bytes st2 t = slab_bytes st t"
  using assms by (auto simp: slab_added_def vh_inv_def pool_ok_def slab_bytes_def pool_of_def)

lemma slab_added_map:
  assumes "slab_added st p cap sz base st2"
  shows "map_ok st2"
proof -
  let ?s = "num_slabs st"
  note parts = slab_added_parts [OF assms(1)] and fields = slab_added_fields [OF assms(1)]
  show ?thesis
    unfolding map_ok_def
  proof (intro allI)
    fix a t
    show "getSlab st2 a = Some t \<longleftrightarrow> t < num_slabs st2 \<and> in_slab st2 t a"
    proof (cases "t = ?s")
      case True
      have "getSlab st a \<noteq> Some ?s" using parts(1) by (auto simp: vh_inv_def map_ok_def)
      then show ?thesis using True by (auto simp: parts(10) fields(3) in_slab_def fields(1) fields(8))
    next
      case False
      then have "in_slab st2 t a = in_slab st t a" by (simp add: in_slab_def fields(2) fields(9))
      moreover have "getSlab st a = Some t \<longleftrightarrow> t < ?s \<and> in_slab st t a"
        using parts(1) by (simp add: vh_inv_def map_ok_def)
      ultimately show ?thesis using False parts(9) by (auto simp: parts(10) fields(3))
    qed
  qed
qed

lemma slab_added_slabs:
  assumes "slab_added st p cap sz base st2"
  shows "\<forall>t<num_slabs st2. slab_ok st2 t"
proof -
  let ?s = "num_slabs st"
  note parts = slab_added_parts [OF assms(1)] and fields = slab_added_fields [OF assms(1)]
  show ?thesis
  proof (intro allI impI)
    fix t assume t: "t < num_slabs st2"
    show "slab_ok st2 t"
    proof (cases "t = ?s")
      case True
      with True parts(2,4-6,8) show ?thesis by (simp add: slab_ok_def fields(1) fields(8) filter_replicate)
    next
      case False
      with t parts(1) have "slab_ok st t" by (simp add: vh_inv_def fields(3))
      with False show ?thesis by (simp add: slab_ok_def fields(2) fields(9))
    qed
  qed
qed

lemma slab_added_pool:
  assumes "slab_added st p cap sz base st2" and xs: "pool_ok st p xs"
  shows "pool_ok (push_free p (num_slabs st) (push_full p (num_slabs st) st2)) p (num_slabs st # xs)"
proof -
  let ?s = "num_slabs st"
  note parts = slab_added_parts [OF assms(1)] and fields = slab_added_fields [OF assms(1)]
  let ?st3 = "push_full p ?s st2"
  let ?st4 = "push_free p ?s ?st3"
  have core: "same_core st2 ?st4" by (metis same_core_trans same_core_links)
  have sxs: "?s \<notin> set xs" "distinct xs" using xs by (auto simp: pool_ok_def)
  have sx: "\<And>t. t \<in> set xs \<Longrightarrow> slabs st2 t = slabs st t" using sxs fields(2) by metis
  have hf: "filter (has_free st2) xs = filter (has_free st) xs"
    using sx by (intro filter_cong refl) (simp add: has_free_def)
  have "full_dll st2 p xs = full_dll st p xs"
    unfolding full_dll_def using sx fields(4) by (simp, intro dll_cong) simp
  then have "full_dll ?st3 p (?s # xs)" using xs sxs by (intro push_full_dll) (simp_all add: pool_ok_def)
  then have full: "full_dll ?st4 p (?s # xs)" by (simp add: full_dll_frame)
  have "free_dll st2 p (filter (has_free st) xs) = free_dll st p (filter (has_free st) xs)"
    unfolding free_dll_def using sx fields(4) by (simp, intro dll_cong) simp
  then have "free_dll ?st3 p (filter (has_free st) xs)"
    using xs by (simp add: free_dll_push_full pool_ok_def)
  then have "free_dll ?st4 p (?s # filter (has_free st) xs)" using sxs by (intro push_free_dll) simp_all
  moreover have "filter (has_free ?st4) (?s # xs) = ?s # filter (has_free st) xs"
  proof -
    have "has_free ?st4 = has_free st2" using same_core_eqs(6) [OF core] by auto
    moreover have "has_free st2 ?s" using parts(3) by (simp add: has_free_def fields(1))
    ultimately show ?thesis using hf by simp
  qed
  ultimately have free: "free_dll ?st4 p (filter (has_free ?st4) (?s # xs))" by simp
  have sum: "sum_list (map (\<lambda>t. slab_free (slabs st2 t)) (?s # xs)) =
      cap + sum_list (map (\<lambda>t. slab_free (slabs st t)) xs)"
    using sx by (simp add: fields(1) cong: map_cong)
  have st: "set (?s # xs) = {t. t < num_slabs st2 \<and> slab_pool (slabs st2 t) = p}"
  proof (rule set_eqI)
    fix t
    have "set xs = {t. t < num_slabs st \<and> slab_pool (slabs st t) = p}"
      using xs by (simp add: pool_ok_def)
    then show "t \<in> set (?s # xs) \<longleftrightarrow> t \<in> {t. t < num_slabs st2 \<and> slab_pool (slabs st2 t) = p}"
      by (cases "t = ?s") (simp_all add: fields(1) fields(2) fields(3) less_Suc_eq)
  qed
  show ?thesis
    unfolding pool_ok_def using full free sxs st sum xs core fields(7) fields(6) fields(4)
    by (simp add: same_core_def pool_ok_def)
qed

lemma slab_added_others:
  assumes "slab_added st p cap sz base st2" and xs: "pool_ok st p xs" and ys: "pool_ok st q ys"
    and q: "q < NUMPOOLS" "q \<noteq> p"
  shows "pool_ok (push_free p (num_slabs st) (push_full p (num_slabs st) st2)) q ys"
proof -
  let ?s = "num_slabs st"
  note parts = slab_added_parts [OF assms(1)] and fields = slab_added_fields [OF assms(1)]
  let ?st3 = "push_full p ?s st2"
  let ?st4 = "push_free p ?s ?st3"
  have core: "same_core st2 ?st4" by (metis same_core_trans same_core_links)
  have dj: "set ys \<inter> set (?s # xs) = {}" using xs ys q by (auto simp: pool_ok_def)
  have h1: "full_head (sizedPools st2 p) = Some t \<Longrightarrow> t \<in> set xs" for t
    using xs by (cases xs) (auto simp: pool_ok_def full_dll_def dll_def fields(4))
  have h2: "free_head (sizedPools ?st3 p) = Some t \<Longrightarrow> t \<in> set xs" for t
  proof -
    have "free_head (sizedPools ?st3 p) = free_head (sizedPools st p)"
      by (simp add: push_full_def upd_pool_def upd_slab_def upd_opt_def Let_def fields(4) split: option.split)
    moreover have "free_head (sizedPools st p) = Some t \<Longrightarrow> t \<in> set (filter (has_free st) xs)"
      using xs by (cases "filter (has_free st) xs") (auto simp: pool_ok_def free_dll_def dll_def)
    ultimately show "free_head (sizedPools ?st3 p) = Some t \<Longrightarrow> t \<in> set xs" by auto
  qed
  have eq: "slabs ?st4 t = slabs st t" if t: "t \<in> set ys" for t
  proof -
    have "t \<noteq> ?s" "t \<notin> set xs" using dj t by auto
    then have "slabs ?st4 t = slabs st2 t"
      using h1 h2 by (subst other_slabs(2), auto, subst other_slabs(1), auto)
    then show ?thesis using fields(2) \<open>t \<noteq> ?s\<close> by simp
  qed
  show ?thesis
  proof (rule pool_ok_frame [OF ys])
    show "sizedPools ?st4 q = sizedPools st q" using q by (simp add: other_pools fields(5))
    show "\<And>t. t \<in> set ys \<Longrightarrow> slabs ?st4 t = slabs st t" by (rule eq)
    show "{t. t < num_slabs ?st4 \<and> slab_pool (slabs ?st4 t) = q} = set ys"
    proof -
      have yset: "set ys = {t. t < num_slabs st \<and> slab_pool (slabs st t) = q}"
        using ys by (simp add: pool_ok_def)
      have "t < num_slabs ?st4 \<and> slab_pool (slabs ?st4 t) = q \<longleftrightarrow> t \<in> set ys" for t
        using q core yset
        by (cases "t = ?s") (simp_all add: same_core_def fields(3) less_Suc_eq fields(2) fields(1))
      then show ?thesis by simp
    qed
  qed
qed

lemma slab_added_info:
  assumes "slab_added st p cap sz base st2"
  shows "PointerInfo_of st2 a = PointerInfo_of st a"
proof -
  let ?s = "num_slabs st"
  note parts = slab_added_parts [OF assms(1)] and fields = slab_added_fields [OF assms(1)]
  let ?es = "2 ^ (p + 4) :: nat"
  show ?thesis
  proof (cases "unat base \<le> unat a \<and> unat a < unat base + sz")
    case True
    then have g: "getSlab st2 a = Some ?s" "getSlab st a = None" using parts(10) parts(9) by auto
    have ins: "in_slab st2 ?s a" using True by (simp add: in_slab_def fields(1) fields(8))
    have okS: "slab_ok st2 ?s" using slab_added_slabs [OF assms] fields(3) by simp
    have e: "element_size (pool_of st2 ?s) = ?es" by (simp add: pool_of_def fields(1) fields(4) fields(6))
    note gi = getElementIndex_in [OF okS ins]
    have "getid st2 ?s a = Ok (0, 0)"
      using gi by (simp add: getid_def e fields(1))
    with g show ?thesis by (simp add: PointerInfo_of_def)
  next
    case False
    then have g: "getSlab st2 a = getSlab st a" using parts(10) by auto
    show ?thesis
    proof (cases "getSlab st a")
      case (Some t)
      then have "t \<noteq> ?s" using parts(1) by (auto simp: vh_inv_def map_ok_def)
      then have "getid st2 t a = getid st t a"
        by (simp add: getid_def getElementIndex_def pool_of_def fields(2) fields(7))
      with g Some show ?thesis by (simp add: PointerInfo_of_def)
    qed (simp add: PointerInfo_of_def g)
  qed
qed

lemma allocateSlab_adds:
  assumes inv: "vh_inv st" and p: "p < NUMPOOLS" and c: "0 < cnt"
    and fresh: "fresh_mapping base (slab_pages (2 ^ (p + 4)) cnt * 4096) st"
  obtains st2 cap where "slab_added st p cap (slab_pages (2 ^ (p + 4)) cnt * 4096) base st2" and "cnt \<le> cap"
    and "allocateSlab base p cnt st = Ok (push_free p (num_slabs st) (push_full p (num_slabs st) st2))"
proof -
  let ?es = "2 ^ (p + 4) :: nat" and ?s = "num_slabs st"
  let ?n = "slab_pages ?es cnt"
  let ?cap = "?n * 4096 div ?es"
  have es: "element_size (sizedPools st p) = ?es" using inv p by (auto simp: vh_inv_def pool_ok_def)
  note sz = slab_pages_size [OF c, of "p + 4"]
  have bytes: "?cap * ?es = ?n * 4096" using sz(1) by (simp add: mod_eq_0_iff_dvd dvd_div_mult_self)
  have cap: "cnt \<le> ?cap"
  proof -
    have "cnt * ?es \<le> ?cap * ?es" using sz(2) bytes by (metis mult.commute)
    then show ?thesis by simp
  qed
  define st1 where "st1 = upd_slab ?s (\<lambda>sl. sl\<lparr>slab_pool := p, capacity := ?cap, slab_free := ?cap,
      ids := replicate ?cap 0, objects := base\<rparr>)
     (upd_pool p (\<lambda>pl. pl\<lparr>pool_free := pool_free pl + ?cap\<rparr>) (st\<lparr>num_slabs := ?s + 1\<rparr>))"
  have b: "unat base mod 4096 = 0" "unat base + ?n * 4096 \<le> 2 ^ 47" "0 < unat base"
    and new: "\<And>a. unat base \<le> unat a \<Longrightarrow> unat a < unat base + ?n * 4096 \<Longrightarrow> getSlab st a = None"
    using fresh by (auto simp: fresh_mapping_def)
  obtain st2 where marks: "for_each (\<lambda>i. markSlab (base + of_nat (i * 4096)) ?s) [0..<?n] st1 = Ok st2"
    and g2: "\<And>a. getSlab st2 a =
      (if unat base \<le> unat a \<and> unat a < unat base + ?n * 4096 then Some ?s else getSlab st1 a)"
    and f2: "slabs st2 = slabs st1" "num_slabs st2 = num_slabs st1" "sizedPools st2 = sizedPools st1"
      "thread_state st2 = thread_state st1"
    using markSlab_pages [OF b(1,2), of ?s st1] by blast
  have g1: "getSlab st1 a = getSlab st a" for a
    by (simp add: getSlab_def st1_def upd_slab_def upd_pool_def)
  have "0 < ?cap" using cap c by linarith
  with inv p bytes b new g2 f2 have "slab_added st p ?cap (?n * 4096) base st2"
    unfolding slab_added_def by (simp add: g1 fun_eq_iff) (simp add: st1_def upd_slab_def upd_pool_def)
  moreover have "allocateSlab base p cnt st = Ok (push_free p ?s (push_full p ?s st2))"
    using marks by (simp add: allocateSlab_def es Let_def st1_def)
  ultimately show thesis using cap by (intro that)
qed

lemma allocateSlab_ok:
  assumes inv: "vh_inv st" and p: "p < NUMPOOLS" and c: "0 < cnt"
    and fresh: "fresh_mapping base (slab_pages (2 ^ (p + 4)) cnt * 4096) st"
  obtains st' where "allocateSlab base p cnt st = Ok st'" and "vh_inv st'"
    and "cnt \<le> pool_free (sizedPools st' p)"
    and "\<And>a. PointerInfo_of st' a = PointerInfo_of st a" and "thread_state st' = thread_state st"
proof -
  obtain st2 cap where add: "slab_added st p cap (slab_pages (2 ^ (p + 4)) cnt * 4096) base st2" and cap: "cnt \<le> cap"
    and al: "allocateSlab base p cnt st = Ok (push_free p (num_slabs st) (push_full p (num_slabs st) st2))"
    using allocateSlab_adds [OF assms] by blast
  let ?st4 = "push_free p (num_slabs st) (push_full p (num_slabs st) st2)"
  have core: "same_core st2 ?st4" by (metis same_core_trans same_core_links)
  obtain xs where xs: "pool_ok st p xs" using inv p by (auto simp: vh_inv_def)
  have pools: "\<exists>ys. pool_ok ?st4 q ys" if q: "q < NUMPOOLS" for q
  proof (cases "q = p")
    case True
    with slab_added_pool [OF add xs] show ?thesis by blast
  next
    case False
    moreover obtain ys where "pool_ok st q ys" using inv q by (auto simp: vh_inv_def)
    ultimately show ?thesis using slab_added_others [OF add xs _ q] by blast
  qed
  have inv4: "vh_inv ?st4"
    using pools slab_added_slabs [OF add] slab_added_map [OF add] by (simp add: vh_inv_def same_core_eqs [OF core])
  have info: "PointerInfo_of ?st4 a = PointerInfo_of st a" for a
    using slab_added_info [OF add] same_core_eqs(9) [OF core] by simp
  have fr: "cnt \<le> pool_free (sizedPools ?st4 p)"
    using cap core slab_added_fields(4) [OF add] by (simp add: same_core_def)
  have "thread_state ?st4 = thread_state st2"
    by (simp add: push_free_def push_full_def upd_pool_def upd_slab_def upd_opt_def Let_def split: option.split)
  then have ts: "thread_state ?st4 = thread_state st" using add by (simp add: slab_added_def)
  from al inv4 fr info ts show thesis by (rule that)
qed

section \<open>One element changes hands\<close>

text \<open>A pool whose free list is \<open>fs\<close>, which may still have to be brought up to date.\<close>

definition pool_but :: "vhm \<Rightarrow> nat \<Rightarrow> nat list \<Rightarrow> nat list \<Rightarrow> bool" where
  "pool_but st p xs fs \<longleftrightarrow>
     element_size (sizedPools st p) = 2 ^ (p + 4) \<and>
     distinct xs \<and> set xs = {s. s < num_slabs st \<and> slab_pool (slabs st s) = p} \<and>
     full_dll st p xs \<and> free_dll st p fs \<and>
     pool_free (sizedPools st p) = sum_list (map (\<lambda>s. slab_free (slabs st s)) xs)"

lemma pool_ok_but: "pool_ok st p xs \<longleftrightarrow> pool_but st p xs (filter (has_free st) xs)"
  by (simp add: pool_ok_def pool_but_def)

lemma pool_but_put:
  assumes "pool_ok st p xs" and "s \<in> set xs"
    and "np + slab_free (slabs st s) = pool_free (sizedPools st p) + nf"
  shows "pool_but (put_id p s i tag nf np st) p xs (filter (has_free st) xs)"
proof -
  let ?st = "put_id p s i tag nf np st"
  have "full_dll ?st p xs = full_dll st p xs" unfolding full_dll_def by (auto intro!: dll_cong)
  moreover have "free_dll ?st p fs = free_dll st p fs" for fs
    unfolding free_dll_def by (auto intro!: dll_cong)
  moreover have "(\<lambda>t. slab_free (slabs ?st t)) = (\<lambda>t. slab_free (slabs st t))(s := nf)" by auto
  then have "sum_list (map (\<lambda>t. slab_free (slabs ?st t)) xs) + slab_free (slabs st s) =
      sum_list (map (\<lambda>t. slab_free (slabs st t)) xs) + nf"
    using sum_list_update_fun [of xs s] assms(1,2) by (simp add: pool_ok_def)
  then have "np = sum_list (map (\<lambda>t. slab_free (slabs ?st t)) xs)"
    using assms(1,3) by (simp add: pool_ok_def)
  moreover have "{t. t < num_slabs ?st \<and> slab_pool (slabs ?st t) = p} = set xs"
    using assms(1) by (auto simp: pool_ok_def)
  ultimately show ?thesis
    using assms(1) by (simp add: pool_ok_def pool_but_def del: put_id_simps(3))
qed

lemma pool_but_link:
  assumes "pool_but st p xs fs" and "same_core st st'"
    and "full_dll st' p xs = full_dll st p xs" and "free_dll st' p (filter (has_free st) xs)"
  shows "pool_ok st' p xs"
proof -
  have "has_free st' = has_free st" using same_core_eqs(6) [OF assms(2)] by auto
  with assms show ?thesis by (simp add: pool_ok_def pool_but_def same_core_def)
qed

text \<open>Bringing the free list up to date, when a slab ran full and when it got its first free element.\<close>

lemma filter_same: "s \<notin> set us \<Longrightarrow> (\<And>t. t \<noteq> s \<Longrightarrow> P t = Q t) \<Longrightarrow> filter P us = filter Q us"
  by (intro filter_cong refl) metis

lemma makeFull_pool:
  assumes "pool_but st p xs (filter (has_free st0) xs)" and "s \<in> set xs" and "has_free st0 s"
    and "\<not> has_free st s" and "\<And>t. t \<noteq> s \<Longrightarrow> has_free st t = has_free st0 t"
  shows "pool_ok (makeFull p s st) p xs"
proof (rule pool_but_link [OF assms(1) same_core_links(1) full_dll_frame(3)])
  obtain us vs where xs: "xs = us @ s # vs" using assms(2) by (auto simp: in_set_conv_decomp)
  have d: "distinct xs" using assms(1) by (simp add: pool_but_def)
  have f: "filter (has_free st) us = filter (has_free st0) us"
    "filter (has_free st) vs = filter (has_free st0) vs"
    using d xs by (auto intro!: filter_same assms(5))
  have "free_dll st p (filter (has_free st0) us @ s # filter (has_free st0) vs)"
    using assms(1,3) xs by (simp add: pool_but_def)
  moreover have "distinct (filter (has_free st0) us @ s # filter (has_free st0) vs)"
    using d xs by auto
  ultimately have "free_dll (makeFull p s st) p (filter (has_free st0) us @ filter (has_free st0) vs)"
    by (rule makeFull_dll)
  then show "free_dll (makeFull p s st) p (filter (has_free st) xs)"
    using assms(4) by (simp add: xs f)
qed

lemma makeFree_pool:
  assumes "pool_but st p xs (filter (has_free st0) xs)" and "s \<in> set xs" and "\<not> has_free st0 s"
    and "has_free st s" and "\<And>t. t \<noteq> s \<Longrightarrow> has_free st t = has_free st0 t"
  obtains st' where "makeFree p s st = Ok st'" and "pool_ok st' p xs" and "same_core st st'"
    and "\<And>t. t \<notin> set xs \<Longrightarrow> slabs st' t = slabs st t"
    and "\<And>q. q \<noteq> p \<Longrightarrow> sizedPools st' q = sizedPools st q" and "thread_state st' = thread_state st"
proof -
  obtain us vs where xs: "xs = us @ s # vs" using assms(2) by (auto simp: in_set_conv_decomp)
  have d: "distinct xs" and set: "set xs \<subseteq> {..<num_slabs st}" and full: "full_dll st p xs"
    and free: "free_dll st p (filter (has_free st0) xs)" using assms(1) by (auto simp: pool_but_def)
  let ?us = "filter (has_free st0) us" and ?vs = "filter (has_free st0) vs"
  have f: "filter (has_free st) us = ?us" "filter (has_free st) vs = ?vs"
    using d xs by (auto intro!: filter_same assms(5))
  have free': "free_dll st p (?us @ ?vs)" using free assms(3) by (simp add: xs)
  have goal: "filter (has_free st) xs = ?us @ s # ?vs" using assms(4) by (simp add: xs f)
  from full xs have bseg: "seg (\<lambda>s. next_slab (slabs st s)) (\<lambda>s. prev (slabs st s))
      (full_head (sizedPools st p)) None us (Some s) (prev (slabs st s))"
    by (auto simp: full_dll_def dll_def seg_append)
  have fuel: "length us < num_slabs st + 1"
    using length_distinct_slabs [OF d set] by (simp add: xs)
  have walk: "free_predecessor (num_slabs st + 1) st (prev (slabs st s)) =
      Ok (if ?us = [] then None else Some (last ?us))"
    using free_predecessor_ok [OF bseg fuel] by (simp add: f(1) Let_def del: free_predecessor.simps)
  show thesis
  proof (cases ?us rule: rev_cases)
    case Nil
    have mk: "makeFree p s st = Ok (push_free p s st)" unfolding makeFree_def walk by (simp add: Nil)
    have "free_dll (push_free p s st) p (s # ?vs)"
      using free' d xs Nil by (intro push_free_dll) auto
    then have ok: "pool_ok (push_free p s st) p xs"
      using goal Nil by (intro pool_but_link [OF assms(1) same_core_links(2) full_dll_frame(1)]) simp
    have hd: "t \<in> set xs" if "free_head (sizedPools st p) = Some t" for t
    proof -
      have "t \<in> set ?vs"
        using that free' Nil by (cases ?vs) (auto simp: free_dll_def dll_def simp del: set_filter)
      then show ?thesis by (auto simp: xs)
    qed
    have "slabs (push_free p s st) t = slabs st t" if "t \<notin> set xs" for t
      using that assms(2) hd by (intro other_slabs(2)) auto
    moreover have "thread_state (push_free p s st) = thread_state st"
      by (simp add: push_free_def upd_pool_def upd_slab_def upd_opt_def Let_def split: option.split)
    ultimately show thesis using mk ok same_core_links(2) other_pools(2) by (intro that)
  next
    case (snoc ws c)
    have "c \<in> set ?us" by (simp add: snoc del: set_filter)
    then have c: "c \<in> set us" by simp
    have mk: "makeFree p s st = Ok (insert_after p c s st)" unfolding makeFree_def walk by (simp add: snoc)
    have dd: "distinct (ws @ c # ?vs)" "s \<notin> set (ws @ c # ?vs)"
    proof -
      have "distinct (?us @ ?vs)" "s \<notin> set (?us @ ?vs)" using d xs by auto
      then show "distinct (ws @ c # ?vs)" "s \<notin> set (ws @ c # ?vs)" by (simp_all add: snoc)
    qed
    have "free_dll st p (ws @ c # ?vs)" using free' by (simp add: snoc)
    note ins = insert_after_dll [OF this dd]
    then have ok: "pool_ok (insert_after p c s st) p xs"
      using goal snoc by (intro pool_but_link [OF assms(1) same_core_links(4) full_dll_frame(2)]) simp
    have nx: "t \<in> set xs" if "free_next (slabs st c) = Some t" for t
    proof -
      have "t \<in> set (?us @ ?vs)"
        using dll_members(2) [OF free' [unfolded free_dll_def] _ that] snoc by simp
      then show ?thesis by (auto simp: xs)
    qed
    have "slabs (insert_after p c s st) t = slabs st t" if "t \<notin> set xs" for t
      using that assms(2) c xs nx by (intro other_slabs(3)) auto
    moreover have "thread_state (insert_after p c s st) = thread_state st"
      by (simp add: insert_after_def upd_pool_def upd_slab_def upd_opt_def Let_def split: option.split)
    ultimately show thesis using mk ok same_core_links(4) other_pools(3) by (intro that)
  qed
qed

text \<open>The element number \<open>i\<close> of a slab, as a set of addresses.\<close>

definition in_elem :: "vhm \<Rightarrow> nat \<Rightarrow> nat \<Rightarrow> u64 \<Rightarrow> bool" where
  "in_elem st s i a \<longleftrightarrow>
     unat (objects (slabs st s)) + i * element_size (pool_of st s) \<le> unat a \<and>
     unat a < unat (objects (slabs st s)) + (i + 1) * element_size (pool_of st s)"

lemma in_elem_in_slab: "in_elem st s i a \<Longrightarrow> i < capacity (slabs st s) \<Longrightarrow> in_slab st s a"
proof -
  assume e: "in_elem st s i a" and i: "i < capacity (slabs st s)"
  have "(i + 1) * element_size (pool_of st s) \<le> slab_bytes st s"
    unfolding slab_bytes_def using i by (intro mult_right_mono) simp_all
  with e show ?thesis by (simp add: in_elem_def in_slab_def)
qed

lemma in_elem_div:
  assumes "in_slab st s a" and "0 < element_size (pool_of st s)"
  shows "in_elem st s i a \<longleftrightarrow>
    (unat a - unat (objects (slabs st s))) div element_size (pool_of st s) = i"
proof -
  have "unat (objects (slabs st s)) \<le> unat a" using assms(1) by (simp add: in_slab_def)
  then have "in_elem st s i a \<longleftrightarrow>
      i * element_size (pool_of st s) \<le> unat a - unat (objects (slabs st s)) \<and>
      unat a - unat (objects (slabs st s)) < (i + 1) * element_size (pool_of st s)"
    by (auto simp: in_elem_def)
  also have "\<dots> \<longleftrightarrow> (unat a - unat (objects (slabs st s))) div element_size (pool_of st s) = i"
    using assms(2) by (metis Suc_eq_plus1 div_less_iff_less_mult le_less_Suc_eq less_eq_div_iff_mult_less_eq
        lessI order_refl)
  finally show ?thesis .
qed

lemma getSlab_iff: "vh_inv st \<Longrightarrow> getSlab st a = Some s \<longleftrightarrow> s < num_slabs st \<and> in_slab st s a"
  by (simp add: vh_inv_def map_ok_def)

lemma put_id_info:
  assumes inv: "vh_inv st" and s: "s < num_slabs st" and p: "slab_pool (slabs st s) = p"
    and i: "i < capacity (slabs st s)"
  shows "PointerInfo_of (put_id p s i tag nf np st) a =
    (if in_elem st s i a
     then Ok (if tag = 0 then (0, 0)
              else (tag, (unat a - unat (objects (slabs st s))) mod element_size (pool_of st s)))
     else PointerInfo_of st a)"
proof -
  let ?st = "put_id p s i tag nf np st"
  note c = put_id_core [OF p]
  have sok: "slab_ok st s" using inv s by (simp add: vh_inv_def)
  then have es: "0 < element_size (pool_of st s)"
    using element_size_pos [OF inv] by (simp add: slab_ok_def)
  show ?thesis
  proof (cases "getSlab st a")
    case None
    have "\<not> in_slab st s a" using getSlab_iff [OF inv, of a s] None s by simp
    then have "\<not> in_elem st s i a" using in_elem_in_slab i by blast
    with None show ?thesis by (simp add: PointerInfo_of_def c)
  next
    case (Some t)
    show ?thesis
    proof (cases "t = s")
      case True
      then have ins: "in_slab st s a" using getSlab_iff [OF inv] Some by simp
      note g = getElementIndex_in [OF sok ins es]
      have len: "length (ids (slabs st s)) = capacity (slabs st s)" using sok by (simp add: slab_ok_def)
      show ?thesis
        using Some True g i len in_elem_div [OF ins es, of i]
        by (simp add: PointerInfo_of_def c getid_def)
    next
      case False
      have "getSlab st a = Some s \<longleftrightarrow> in_slab st s a" using getSlab_iff [OF inv] s by simp
      with Some False have "\<not> in_elem st s i a" using in_elem_in_slab i by auto
      with Some False show ?thesis by (simp add: PointerInfo_of_def c getid_def)
    qed
  qed
qed

text \<open>Putting a tag together with the list update keeps the invariant.\<close>

lemma put_id_inv:
  assumes inv: "vh_inv st" and s: "s < num_slabs st" and p: "slab_pool (slabs st s) = p"
    and i: "i < capacity (slabs st s)"
    and nf: "nf + of_bool (ids (slabs st s) ! i = 0) = slab_free (slabs st s) + of_bool (tag = 0)"
    and xs: "pool_ok st p xs" and ok: "pool_ok st' p xs"
    and core: "same_core (put_id p s i tag nf np st) st'"
    and slabs: "\<And>t. t \<notin> set xs \<Longrightarrow> slabs st' t = slabs (put_id p s i tag nf np st) t"
    and pools: "\<And>q. q \<noteq> p \<Longrightarrow> sizedPools st' q = sizedPools (put_id p s i tag nf np st) q"
  shows "vh_inv st'"
proof -
  let ?st = "put_id p s i tag nf np st"
  note c = put_id_core [OF p] and d = same_core_eqs [OF core]
  have sxs: "s \<in> set xs" using xs s p by (simp add: pool_ok_def)
  have sok: "slab_ok st t" if "t < num_slabs st" for t using inv that by (simp add: vh_inv_def)
  have "slab_ok ?st t" if t: "t < num_slabs st" for t
  proof (cases "t = s")
    case True
    have "nf = length (filter (\<lambda>t. t = 0) ((ids (slabs st s))[i := tag]))"
      using nf i count_free_update [of i "ids (slabs st s)" tag] sok [OF s]
      by (simp add: slab_ok_def)
    with True sok [OF s] show ?thesis by (simp add: slab_ok_def c)
  next
    case False
    with sok [OF t] show ?thesis by (simp add: slab_ok_def c)
  qed
  then have slabs': "\<forall>t<num_slabs st'. slab_ok st' t" by (simp add: d)
  have map': "map_ok st'" using inv by (simp add: d c vh_inv_def)
  have "\<exists>ys. pool_ok st' q ys" if q: "q < NUMPOOLS" for q
  proof (cases "q = p")
    case True
    with ok show ?thesis by blast
  next
    case False
    obtain ys where ys: "pool_ok st q ys" using inv q by (auto simp: vh_inv_def)
    have "pool_ok st' q ys"
    proof (rule pools_frame [OF xs ys False])
      show "sizedPools st' q = sizedPools st q" using pools [OF False] False by simp
      show "slabs st' t = slabs st t" if "t \<notin> set xs" for t
        using slabs [OF that] that sxs by auto
      show "slab_pool (slabs st' t) = slab_pool (slabs st t)" for t
        using core by (auto simp: same_core_def)
      show "num_slabs st' = num_slabs st" by (simp add: d)
    qed
    then show ?thesis ..
  qed
  with slabs' map' show ?thesis by (simp add: vh_inv_def)
qed

end
