(* ===== verification/Tagged_Heap.thy ===== *)
theory Tagged_Heap
  imports Result_Type
begin

text \<open>
  The contract between the allocator and the trace runtime: every address can be looked up, and
  setting the tag of an allocation makes every address in it lead to that tag. A tag of 0 means
  that the address is not in an allocation, the largest tag that the allocation has no tag yet.
\<close>

locale tagged_heap =
  fixes info :: "'s \<Rightarrow> u64 \<Rightarrow> (u64 \<times> nat) result"
    and usable :: "'s \<Rightarrow> u64 \<Rightarrow> nat"
    and set_tag :: "u64 \<Rightarrow> u64 \<Rightarrow> 's \<Rightarrow> 's result"
    and inv :: "'s \<Rightarrow> bool"
  assumes info_total: "inv s \<Longrightarrow> \<exists>t off. info s a = Ok (t, off)"
    and set_tag_ok:
      "inv s \<Longrightarrow> info s p = Ok (- 1, off) \<Longrightarrow> t \<noteq> 0 \<Longrightarrow>
        \<exists>s'. set_tag p t s = Ok s' \<and> inv s' \<and>
          (\<forall>a. info s' a =
            (if unat p - off \<le> unat a \<and> unat a < unat p - off + usable s p
             then Ok (t, unat a - (unat p - off)) else info s a))"
begin

definition tag_at :: "'s \<Rightarrow> u64 \<Rightarrow> u64" where
  "tag_at s a = (case info s a of Ok (t, off) \<Rightarrow> t | _ \<Rightarrow> 0)"

lemma info_tag_at: "inv s \<Longrightarrow> \<exists>off. info s a = Ok (tag_at s a, off)"
  using info_total [of s a] by (auto simp: tag_at_def)

lemma tag_at_set_tag:
  assumes "inv s" and "info s p = Ok (- 1, off)" and "t \<noteq> 0" and "set_tag p t s = Ok s'"
  shows "inv s'"
    and "tag_at s' a = (if unat p - off \<le> unat a \<and> unat a < unat p - off + usable s p
      then t else tag_at s a)"
proof -
  from set_tag_ok [OF assms(1-3)] assms(4) have i: "inv s'" and n: "\<forall>a. info s' a =
      (if unat p - off \<le> unat a \<and> unat a < unat p - off + usable s p
       then Ok (t, unat a - (unat p - off)) else info s a)" by auto
  show "inv s'" by (rule i)
  show "tag_at s' a = (if unat p - off \<le> unat a \<and> unat a < unat p - off + usable s p
      then t else tag_at s a)"
    using n by (simp add: tag_at_def)
qed

end

end
