(* ===== verification/Vhmalloc_Spec.thy ===== *)
theory Vhmalloc_Spec
  imports Vhmalloc_Inv Tagged_Heap
begin

text \<open>
  The operations of \<open>vhmalloc.cpp\<close> keep the invariant of \<open>Vhmalloc_Inv\<close> and do what the trace
  runtime relies on: \<open>allocate\<close>, \<open>deallocate\<close> and \<open>setTag\<close> on one element, the interpretation of
  the tagged-heap contract, the size classes, and the entry points \<open>xxmalloc\<close> and \<open>xxfree\<close>.
\<close>
section \<open>What callers see\<close>

text \<open>An address with a tag, taken apart.\<close>

lemma tagged_elem:
  assumes inv: "vh_inv st" and info: "PointerInfo_of st ptr = Ok (t, off)" and t: "t \<noteq> 0"
  obtains s i where "s < num_slabs st" "getSlab st ptr = Some s" "i < capacity (slabs st s)"
    "getElementIndex st s ptr = Ok (i, off)" "ids (slabs st s) ! i = t" "slab_ok st s"
    "element_size (pool_of st s) = 2 ^ (slab_pool (slabs st s) + 4)"
    "unat ptr - off = unat (objects (slabs st s)) + i * element_size (pool_of st s)"
proof -
  obtain s where s: "getSlab st ptr = Some s" and g: "getid st s ptr = Ok (t, off)"
    using info t by (auto simp: PointerInfo_of_def split: option.splits)
  have n: "s < num_slabs st" and ins: "in_slab st s ptr" using getSlab_iff [OF inv] s by simp_all
  have sok: "slab_ok st s" using inv n by (simp add: vh_inv_def)
  then have es: "element_size (pool_of st s) = 2 ^ (slab_pool (slabs st s) + 4)"
    using element_size_pos [OF inv] by (simp add: slab_ok_def)
  then have pos: "0 < element_size (pool_of st s)" by simp
  let ?d = "unat ptr - unat (objects (slabs st s))" and ?e = "element_size (pool_of st s)"
  note gi = getElementIndex_in [OF sok ins pos]
  have off: "off = ?d mod ?e" and id: "ids (slabs st s) ! (?d div ?e) = t"
    using g t by (auto simp: getid_def gi Let_def split: if_splits)
  have "unat (objects (slabs st s)) \<le> unat ptr" using ins by (simp add: in_slab_def)
  moreover have "?d div ?e * ?e + ?d mod ?e = ?d" by simp
  ultimately have "unat ptr - off = unat (objects (slabs st s)) + ?d div ?e * ?e"
    unfolding off by linarith
  from that [OF n s gi(2) _ id sok es this] gi(1) off show thesis by simp
qed

text \<open>Where an element begins, as an address range.\<close>

lemma in_elem_range:
  assumes "unat b = unat (objects (slabs st s)) + i * element_size (pool_of st s)"
  shows "in_elem st s i a \<longleftrightarrow> unat b \<le> unat a \<and> unat a < unat b + element_size (pool_of st s)"
  using assms by (auto simp: in_elem_def algebra_simps)

lemma elem_offset:
  assumes "in_elem st s i a"
  shows "(unat a - unat (objects (slabs st s))) mod element_size (pool_of st s) =
    unat a - (unat (objects (slabs st s)) + i * element_size (pool_of st s))"
proof -
  let ?d = "unat a - unat (objects (slabs st s))" and ?e = "element_size (pool_of st s)"
  have d: "i * ?e \<le> ?d" "?d < (i + 1) * ?e" using assms by (auto simp: in_elem_def)
  then have "?d = i * ?e + (?d - i * ?e)" "?d - i * ?e < ?e" by simp_all
  then have "?d mod ?e = ?d - i * ?e" by (metis mod_mult_self3 mod_less)
  then show ?thesis by simp
qed

lemma elem_unat:
  assumes "slab_ok st s" and "i < capacity (slabs st s)"
  shows "unat (objects (slabs st s) + of_nat (i * element_size (pool_of st s))) =
    unat (objects (slabs st s)) + i * element_size (pool_of st s)"
proof -
  have "i * element_size (pool_of st s) \<le> slab_bytes st s"
    unfolding slab_bytes_def using assms(2) by (intro mult_right_mono) simp_all
  moreover have "unat (objects (slabs st s)) + slab_bytes st s \<le> 2 ^ 47"
    using assms(1) by (simp add: slab_ok_def)
  ultimately have b: "unat (objects (slabs st s)) + i * element_size (pool_of st s) \<le> 2 ^ 47" by linarith
  then have u: "unat (of_nat (i * element_size (pool_of st s)) :: u64) = i * element_size (pool_of st s)"
    by (intro unat_of_nat_small) simp
  show ?thesis using b u by (subst unat_plus_small) simp_all
qed

text \<open>Changing a tag in place, between two tags that are not 0.\<close>

lemma retag_inv:
  assumes inv: "vh_inv st" and s: "s < num_slabs st" and i: "i < capacity (slabs st s)"
    and t: "ids (slabs st s) ! i \<noteq> 0" "tag \<noteq> 0"
  defines "p \<equiv> slab_pool (slabs st s)"
  defines "st' \<equiv> put_id p s i tag (slab_free (slabs st s)) (pool_free (sizedPools st p)) st"
  shows "vh_inv st'"
proof -
  have pn: "p < NUMPOOLS" using inv s by (auto simp: vh_inv_def slab_ok_def p_def)
  obtain xs where xs: "pool_ok st p xs" using inv pn by (auto simp: vh_inv_def)
  have sxs: "s \<in> set xs" using xs s by (simp add: pool_ok_def p_def)
  have "has_free st' = has_free st" by (intro ext) (simp add: has_free_def st'_def)
  then have ok: "pool_ok st' p xs"
    using pool_but_put [OF xs sxs] by (simp add: pool_ok_but st'_def)
  show ?thesis
    by (rule put_id_inv [OF inv s _ i _ xs ok, where tag = tag and nf = "slab_free (slabs st s)"
        and np = "pool_free (sizedPools st p)"]) (use t in \<open>simp_all add: st'_def p_def\<close>)
qed

text \<open>Taking a free element of a slab.\<close>

lemma take_elem:
  assumes inv: "vh_inv st" and s: "s < num_slabs st" and p: "slab_pool (slabs st s) = p"
    and i: "i < capacity (slabs st s)" and free: "ids (slabs st s) ! i = 0" and tag: "tag \<noteq> 0"
  defines "st1 \<equiv> put_id p s i tag (slab_free (slabs st s) - 1) (pool_free (sizedPools st p) - 1) st"
  defines "st2 \<equiv> (if slab_free (slabs st1 s) = 0 then makeFull p s st1 else st1)"
  shows "vh_inv st2" and "same_core st1 st2" and "thread_state st2 = thread_state st"
proof -
  have sok: "slab_ok st s" using inv s by (simp add: vh_inv_def)
  then have pn: "p < NUMPOOLS" using p by (simp add: slab_ok_def)
  obtain xs where xs: "pool_ok st p xs" using inv pn by (auto simp: vh_inv_def)
  have sxs: "s \<in> set xs" using xs s p by (simp add: pool_ok_def)
  have "0 \<in> set (ids (slabs st s))" using i free sok by (metis nth_mem slab_ok_def)
  then have sf: "0 < slab_free (slabs st s)"
    using sok by (auto simp: slab_ok_def filter_empty_conv)
  have "slab_free (slabs st s) \<le> sum_list (map (\<lambda>t. slab_free (slabs st t)) xs)"
    using sxs by (intro member_le_sum_list) auto
  then have pf: "slab_free (slabs st s) \<le> pool_free (sizedPools st p)" using xs by (simp add: pool_ok_def)
  have but: "pool_but st1 p xs (filter (has_free st) xs)"
    unfolding st1_def using sf pf by (intro pool_but_put [OF xs sxs]) simp
  have hf: "t \<noteq> s \<Longrightarrow> has_free st1 t = has_free st t" for t by (simp add: has_free_def st1_def)
  have hs: "has_free st s" using sf by (simp add: has_free_def)
  show core: "same_core st1 st2" by (simp add: st2_def same_core_links)
  show "thread_state st2 = thread_state st"
    by (simp add: st2_def st1_def makeFull_def upd_pool_def upd_slab_def upd_opt_def Let_def split: option.split)
  have ok: "pool_ok st2 p xs"
  proof (cases "slab_free (slabs st1 s) = 0")
    case True
    have "pool_ok (makeFull p s st1) p xs"
      using True hf hs by (intro makeFull_pool [OF but sxs]) (simp_all add: has_free_def)
    with True show ?thesis by (simp add: st2_def)
  next
    case False
    have "filter (has_free st1) xs = filter (has_free st) xs"
      using False hf hs by (intro filter_cong refl) (metis has_free_def neq0_conv)
    with False but show ?thesis by (simp add: st2_def pool_ok_but)
  qed
  have fp: "t \<in> set xs" if "free_prev (slabs st1 s) = Some t \<or> free_next (slabs st1 s) = Some t" for t
  proof -
    have "dll (\<lambda>s. free_next (slabs st1 s)) (\<lambda>s. free_prev (slabs st1 s))
        (free_head (sizedPools st1 p)) (filter (has_free st) xs)"
      using but by (simp add: pool_but_def free_dll_def)
    from dll_members(2,3) [OF this, of s t] that hs sxs show ?thesis by auto
  qed
  show "vh_inv st2"
  proof (rule put_id_inv [OF inv s p i _ xs ok core [unfolded st1_def]])
    show "slab_free (slabs st s) - 1 + of_bool (ids (slabs st s) ! i = 0) =
        slab_free (slabs st s) + of_bool (tag = 0)" using free sf tag by simp
    show "slabs st2 t = slabs (put_id p s i tag (slab_free (slabs st s) - 1)
        (pool_free (sizedPools st p) - 1) st) t" if "t \<notin> set xs" for t
    proof -
      have "slabs (makeFull p s st1) t = slabs st1 t"
        using fp that by (intro other_slabs(4)) blast+
      then show ?thesis unfolding st1_def [symmetric] st2_def by simp
    qed
    show "sizedPools st2 q = sizedPools (put_id p s i tag (slab_free (slabs st s) - 1)
        (pool_free (sizedPools st p) - 1) st) q" if "q \<noteq> p" for q
      unfolding st1_def [symmetric] st2_def using that by (simp add: other_pools)
  qed
qed

text \<open>Giving an element back.\<close>

lemma give_elem:
  assumes inv: "vh_inv st" and s: "s < num_slabs st"
    and idx: "getElementIndex st s ptr = Ok (i, off)" and i: "i < capacity (slabs st s)"
    and used: "ids (slabs st s) ! i \<noteq> 0"
  defines "p \<equiv> slab_pool (slabs st s)"
  defines "st1 \<equiv> put_id p s i 0 (slab_free (slabs st s) + 1) (pool_free (sizedPools st p) + 1) st"
  obtains st2 where "deallocate s ptr st = Ok st2" and "vh_inv st2" and "same_core st1 st2"
    and "thread_state st2 = thread_state st"
proof -
  have sok: "slab_ok st s" using inv s by (simp add: vh_inv_def)
  then have pn: "p < NUMPOOLS" by (simp add: slab_ok_def p_def)
  have pe: "slab_pool (slabs st s) = p" by (simp add: p_def)
  obtain xs where xs: "pool_ok st p xs" using inv pn by (auto simp: vh_inv_def)
  have sxs: "s \<in> set xs" using xs s by (simp add: pool_ok_def p_def)
  have but: "pool_but st1 p xs (filter (has_free st) xs)"
    unfolding st1_def by (intro pool_but_put [OF xs sxs]) simp
  have hf: "t \<noteq> s \<Longrightarrow> has_free st1 t = has_free st t" for t by (simp add: has_free_def st1_def)
  have de: "deallocate s ptr st = (if slab_free (slabs st1 s) = 1 then makeFree p s st1 else Ok st1)"
    by (simp add: deallocate_def idx Let_def st1_def put_id_def p_def upd_pool_def upd_slab_def)
  have nf: "slab_free (slabs st s) + 1 + of_bool (ids (slabs st s) ! i = 0) =
      slab_free (slabs st s) + of_bool ((0::u64) = 0)" using used by simp
  show thesis
  proof (cases "slab_free (slabs st1 s) = 1")
    case True
    have "\<not> has_free st s" "has_free st1 s" using True by (simp_all add: has_free_def st1_def)
    from makeFree_pool [OF but sxs this hf] obtain st2 where
      m: "makeFree p s st1 = Ok st2" and ok: "pool_ok st2 p xs" and core: "same_core st1 st2"
      and sl: "\<And>t. t \<notin> set xs \<Longrightarrow> slabs st2 t = slabs st1 t"
      and po: "\<And>q. q \<noteq> p \<Longrightarrow> sizedPools st2 q = sizedPools st1 q"
      and ts: "thread_state st2 = thread_state st1" by blast
    have "vh_inv st2"
      by (rule put_id_inv [OF inv s pe i nf xs ok core [unfolded st1_def]])
        (use sl po in \<open>simp_all add: st1_def\<close>)
    moreover have "thread_state st2 = thread_state st" using ts by (simp add: st1_def)
    ultimately show thesis using de True m core by (intro that [of st2]) simp_all
  next
    case False
    then have h: "has_free st s" by (simp add: has_free_def st1_def)
    have "has_free st1 t = has_free st t" for t
      by (cases "t = s") (use hf h in \<open>simp_all add: has_free_def st1_def\<close>)
    then have "has_free st1 = has_free st" by (rule ext)
    with but have ok: "pool_ok st1 p xs" by (simp add: pool_ok_but)
    have core: "same_core (put_id p s i 0 (slab_free (slabs st s) + 1)
        (pool_free (sizedPools st p) + 1) st) st1" by (simp add: st1_def)
    have "vh_inv st1"
      by (rule put_id_inv [OF inv s pe i nf xs ok core]) (simp_all add: st1_def)
    then show thesis using de False by (intro that [of st1]) (simp_all add: st1_def)
  qed
qed

subsection \<open>The interface\<close>

text \<open>\<open>allocate\<close> step by step: make room, pick a free element, take it.\<close>

lemma allocate_room:
  assumes inv: "vh_inv st" and p: "p < NUMPOOLS"
    and fresh: "pool_free (sizedPools st p) \<le> overprovision \<Longrightarrow>
      fresh_mapping base (slab_pages (2 ^ (p + 4)) (2 * overprovision) * 4096) st"
  obtains st0 where "(if pool_free (sizedPools st p) \<le> overprovision
      then allocateSlab base p (2 * overprovision) st else Ok st) = Ok st0"
    and "vh_inv st0" and "0 < pool_free (sizedPools st0 p)"
    and "\<And>a. PointerInfo_of st0 a = PointerInfo_of st a" and "thread_state st0 = thread_state st"
proof (cases "pool_free (sizedPools st p) \<le> overprovision")
  case True
  have "0 < 2 * overprovision" by (simp add: overprovision_def)
  from allocateSlab_ok [OF inv p this fresh [OF True]] True that show thesis
    by (metis \<open>0 < 2 * overprovision\<close> order_less_le_trans)
next
  case False
  with inv that show thesis by simp
qed

lemma allocate_pick:
  assumes inv: "vh_inv st" and p: "p < NUMPOOLS" and off: "off < pool_free (sizedPools st p)"
  obtains s k i where "pick_slab (num_slabs st + 1) st (free_head (sizedPools st p)) off = Ok (s, k)"
    and "s < num_slabs st" and "slab_pool (slabs st s) = p" and "pick_index (ids (slabs st s)) k = Some i"
    and "i < capacity (slabs st s)" and "ids (slabs st s) ! i = 0"
proof -
  obtain xs where xs: "pool_ok st p xs" using inv p by (auto simp: vh_inv_def)
  let ?fs = "filter (has_free st) xs"
  obtain q where sg: "seg (\<lambda>s. free_next (slabs st s)) (\<lambda>s. free_prev (slabs st s))
      (free_head (sizedPools st p)) None ?fs None q"
    using xs by (auto simp: pool_ok_def free_dll_def dll_def)
  have "sum_list (map (\<lambda>s. slab_free (slabs st s)) ?fs) = pool_free (sizedPools st p)"
    using xs sum_list_map_filter [of xs "has_free st" "\<lambda>s. slab_free (slabs st s)"]
    by (simp add: pool_ok_def has_free_def)
  then have off': "off < sum_list (map (\<lambda>s. slab_free (slabs st s)) ?fs)" using off by simp
  have "length ?fs \<le> num_slabs st"
    using xs by (intro length_distinct_slabs) (auto simp: pool_ok_def)
  then have len: "length ?fs < num_slabs st + 1" by simp
  from pick_slab_ok [OF sg off' len] obtain s k where
    ps: "pick_slab (num_slabs st + 1) st (free_head (sizedPools st p)) off = Ok (s, k)"
    and sin: "s \<in> set ?fs" and lt: "k < slab_free (slabs st s)" by blast
  have s: "s < num_slabs st" "slab_pool (slabs st s) = p" using sin xs by (auto simp: pool_ok_def)
  have sok: "slab_ok st s" using inv s by (simp add: vh_inv_def)
  then have "k < length (filter (\<lambda>t. t = 0) (ids (slabs st s)))" using lt by (simp add: slab_ok_def)
  from pick_index_ok [OF this] sok obtain i where
    "pick_index (ids (slabs st s)) k = Some i" "i < capacity (slabs st s)" "ids (slabs st s) ! i = 0"
    by (auto simp: slab_ok_def)
  with ps s show thesis by (rule that)
qed

lemma free_element_info:
  assumes inv: "vh_inv st" and s: "s < num_slabs st" and i: "i < capacity (slabs st s)"
    and free: "ids (slabs st s) ! i = 0" and el: "in_elem st s i a"
    and es: "element_size (pool_of st s) = 2 ^ (slab_pool (slabs st s) + 4)"
  shows "PointerInfo_of st a = Ok (0, 0)"
proof -
  have sok: "slab_ok st s" using inv s by (simp add: vh_inv_def)
  have ins: "in_slab st s a" and dv: "(unat a - unat (objects (slabs st s))) div 2 ^ (slab_pool (slabs st s) + 4) = i"
    using el in_elem_in_slab i in_elem_div [of st s a i] es by auto
  have "getElementIndex st s a = Ok (i, (unat a - unat (objects (slabs st s))) mod 2 ^ (slab_pool (slabs st s) + 4))"
    using getElementIndex_in(1) [OF sok ins] es dv by simp
  moreover have "getSlab st a = Some s" using getSlab_iff [OF inv] ins s by simp
  ultimately show ?thesis using free by (simp add: PointerInfo_of_def getid_def)
qed

lemma allocate_ok:
  assumes inv: "vh_inv st" and p: "p < NUMPOOLS" and tag: "tag \<noteq> 0"
    and fresh: "pool_free (sizedPools st p) \<le> overprovision \<Longrightarrow>
      fresh_mapping base (slab_pages (2 ^ (p + 4)) (2 * overprovision) * 4096) st"
  obtains ptr st' where "allocate base rnd p tag st = Ok (ptr, st')" and "vh_inv st'"
    and "\<And>a. PointerInfo_of st' a =
      (if unat ptr \<le> unat a \<and> unat a < unat ptr + 2 ^ (p + 4) then Ok (tag, unat a - unat ptr)
       else PointerInfo_of st a)"
    and "\<And>a. unat ptr \<le> unat a \<Longrightarrow> unat a < unat ptr + 2 ^ (p + 4) \<Longrightarrow> PointerInfo_of st a = Ok (0, 0)"
    and "0 < unat ptr" and "xxmalloc_usable_size st' ptr = 2 ^ (p + 4)"
    and "thread_state st' = thread_state st"
proof -
  obtain st0 where grow: "(if pool_free (sizedPools st p) \<le> overprovision
      then allocateSlab base p (2 * overprovision) st else Ok st) = Ok st0"
    and inv0: "vh_inv st0" and pf: "0 < pool_free (sizedPools st0 p)"
    and info0: "\<And>a. PointerInfo_of st0 a = PointerInfo_of st a"
    and ts0: "thread_state st0 = thread_state st"
    using allocate_room [OF inv p fresh] by blast
  obtain s k i where ps: "pick_slab (num_slabs st0 + 1) st0 (free_head (sizedPools st0 p))
      (rnd mod pool_free (sizedPools st0 p)) = Ok (s, k)"
    and s: "s < num_slabs st0" "slab_pool (slabs st0 s) = p"
    and pi: "pick_index (ids (slabs st0 s)) k = Some i" "i < capacity (slabs st0 s)"
    and free: "ids (slabs st0 s) ! i = 0"
    using allocate_pick [OF inv0 p mod_less_divisor [OF pf]] by blast
  have sok: "slab_ok st0 s" using inv0 s by (simp add: vh_inv_def)
  define st1 where "st1 = put_id p s i tag (slab_free (slabs st0 s) - 1)
      (pool_free (sizedPools st0 p) - 1) st0"
  define st2 where "st2 = (if slab_free (slabs st1 s) = 0 then makeFull p s st1 else st1)"
  note tk = take_elem [OF inv0 s pi(2) free tag, folded st1_def, folded st2_def]
  define ptr where "ptr = objects (slabs st0 s) + of_nat (i * element_size (pool_of st0 s))"
  have es: "element_size (pool_of st0 s) = 2 ^ (p + 4)"
    using element_size_pos [OF inv0, of s] s p by simp
  note up = elem_unat [OF sok pi(2), folded ptr_def]
  have ptr: "getElementPtr st2 s i = Ok ptr"
    unfolding same_core_eqs(8) [OF tk(2)] st1_def put_id_core(6) [OF s(2)]
    using pi(2) by (simp add: getElementPtr_def ptr_def)
  have al: "allocate base rnd p tag st = Ok (ptr, st2)"
  proof -
    have e: "upd_pool p (\<lambda>pl. pl\<lparr>pool_free := pool_free pl - 1\<rparr>) (upd_slab s
        (\<lambda>sl. sl\<lparr>ids := (ids sl)[i := tag], slab_free := slab_free sl - 1\<rparr>) st0) = st1"
      by (simp add: st1_def put_id_def upd_pool_def upd_slab_def)
    have "tag = 0 \<longleftrightarrow> False" using tag by simp
    then show ?thesis
      unfolding allocate_def grow
      by (simp only: assert_r_simps not_False_eq_True try_r_simps Let_def ps prod.case pi(1)
          option.case e st2_def [symmetric] ptr)
  qed
  have info: "PointerInfo_of st2 a = (if unat ptr \<le> unat a \<and> unat a < unat ptr + 2 ^ (p + 4)
      then Ok (tag, unat a - unat ptr) else PointerInfo_of st a)" for a
    using put_id_info [OF inv0 s pi(2), of tag _ _ a] in_elem_range [OF up, of a] elem_offset [of st0 s i a]
    by (simp only: same_core_eqs(9) [OF tk(2)] st1_def) (simp add: info0 tag up es)
  have before: "PointerInfo_of st a = Ok (0, 0)"
    if "unat ptr \<le> unat a" "unat a < unat ptr + 2 ^ (p + 4)" for a
  proof -
    have "in_elem st0 s i a" using that in_elem_range [OF up, of a] es by simp
    then show ?thesis using free_element_info [OF inv0 s(1) pi(2) free] es by (simp add: s(2) info0)
  qed
  have pos: "0 < unat ptr" using sok by (simp add: up slab_ok_def)
  have "in_elem st0 s i ptr" using in_elem_range [OF up, of ptr] es by simp
  then have "getSlab st0 ptr = Some s" using getSlab_iff [OF inv0] in_elem_in_slab pi(2) s by blast
  then have us: "xxmalloc_usable_size st2 ptr = 2 ^ (p + 4)"
    using es tk(2) by (simp add: xxmalloc_usable_size_def same_core_eqs(4) [OF tk(2)] st1_def
        put_id_core [OF s(2)] pool_of_def same_core_def s(2))
  show thesis
    by (rule that [OF al tk(1) info before pos us]) (use tk(3) ts0 in simp_all)
qed

lemma xxfree_ok:
  assumes inv: "vh_inv st" and info: "PointerInfo_of st ptr = Ok (t, off)" and t: "t \<noteq> 0"
  obtains st' where "xxfree ptr st = Ok st'" and "vh_inv st'"
    and "\<And>a. PointerInfo_of st' a =
      (if unat ptr - off \<le> unat a \<and> unat a < unat ptr - off + xxmalloc_usable_size st ptr
       then Ok (0, 0) else PointerInfo_of st a)"
    and "thread_state st' = thread_state st"
proof -
  obtain s i where e: "s < num_slabs st" "getSlab st ptr = Some s" "i < capacity (slabs st s)"
    "getElementIndex st s ptr = Ok (i, off)" "ids (slabs st s) ! i = t" "slab_ok st s"
    and base: "unat ptr - off = unat (objects (slabs st s)) + i * element_size (pool_of st s)"
    using tagged_elem [OF assms] by metis
  from give_elem [OF inv e(1) e(4) e(3)] e(5) t obtain st2 where
    de: "deallocate s ptr st = Ok st2" and inv2: "vh_inv st2" and ts: "thread_state st2 = thread_state st"
    and core: "same_core (put_id (slab_pool (slabs st s)) s i 0 (slab_free (slabs st s) + 1)
      (pool_free (sizedPools st (slab_pool (slabs st s))) + 1) st) st2" by metis
  have "\<not> in_slab st s 0" using e(6) by (simp add: in_slab_def slab_ok_def)
  then have "ptr \<noteq> 0" using getSlab_iff [OF inv] e(2) by auto
  then have fr: "xxfree ptr st = Ok st2" by (simp add: xxfree_def e(2) de)
  have us: "xxmalloc_usable_size st ptr = element_size (pool_of st s)"
    by (simp add: xxmalloc_usable_size_def e(2))
  have "PointerInfo_of st2 a =
      (if unat ptr - off \<le> unat a \<and> unat a < unat ptr - off + xxmalloc_usable_size st ptr
       then Ok (0, 0) else PointerInfo_of st a)" for a
  proof -
    have "in_elem st s i a \<longleftrightarrow> unat ptr - off \<le> unat a \<and>
        unat a < unat ptr - off + xxmalloc_usable_size st ptr"
      unfolding us base by (auto simp: in_elem_def algebra_simps)
    then show ?thesis
      using put_id_info [OF inv e(1) refl e(3), of 0 _ _ a] by (simp add: same_core_eqs(9) [OF core])
  qed
  from that [OF fr inv2 this ts] show thesis .
qed

lemma setTag_ok:
  assumes inv: "vh_inv st" and info: "PointerInfo_of st ptr = Ok (- 1, off)" and t: "tag \<noteq> 0"
  obtains st' where "setTag ptr tag st = Ok st'" and "vh_inv st'"
    and "\<And>a. PointerInfo_of st' a =
      (if unat ptr - off \<le> unat a \<and> unat a < unat ptr - off + xxmalloc_usable_size st ptr
       then Ok (tag, unat a - (unat ptr - off)) else PointerInfo_of st a)"
    and "thread_state st' = thread_state st"
proof -
  obtain s i where e: "s < num_slabs st" "getSlab st ptr = Some s" "i < capacity (slabs st s)"
    "getElementIndex st s ptr = Ok (i, off)" "ids (slabs st s) ! i = - 1" "slab_ok st s"
    and base: "unat ptr - off = unat (objects (slabs st s)) + i * element_size (pool_of st s)"
    using tagged_elem [OF inv info] by (metis neg_equal_0_iff_equal zero_neq_one)
  let ?p = "slab_pool (slabs st s)"
  let ?st = "put_id ?p s i tag (slab_free (slabs st s)) (pool_free (sizedPools st ?p)) st"
  have "?st = upd_slab s (\<lambda>sl. sl\<lparr>ids := (ids sl)[i := tag]\<rparr>) st"
    by (simp add: put_id_def upd_slab_def upd_pool_def)
  then have st: "setTag ptr tag st = Ok ?st" using t by (simp add: setTag_def e)
  have inv': "vh_inv ?st" using e(5) t by (intro retag_inv [OF inv e(1) e(3)]) simp_all
  have us: "xxmalloc_usable_size st ptr = element_size (pool_of st s)"
    by (simp add: xxmalloc_usable_size_def e(2))
  have "PointerInfo_of ?st a =
      (if unat ptr - off \<le> unat a \<and> unat a < unat ptr - off + xxmalloc_usable_size st ptr
       then Ok (tag, unat a - (unat ptr - off)) else PointerInfo_of st a)" for a
  proof -
    have "in_elem st s i a \<longleftrightarrow> unat ptr - off \<le> unat a \<and>
        unat a < unat ptr - off + xxmalloc_usable_size st ptr"
      unfolding us base by (auto simp: in_elem_def algebra_simps)
    then show ?thesis
      using put_id_info [OF inv e(1) refl e(3), of tag _ _ a] elem_offset [of st s i a] t base
      by simp
  qed
  from that [OF st inv' this] show thesis by simp
qed

lemma PointerInfo_total:
  assumes inv: "vh_inv st"
  shows "\<exists>t off. PointerInfo_of st a = Ok (t, off)"
proof (cases "getSlab st a")
  case None
  then show ?thesis by (simp add: PointerInfo_of_def)
next
  case (Some s)
  then have s: "s < num_slabs st" "in_slab st s a" using getSlab_iff [OF inv] by simp_all
  then have sok: "slab_ok st s" using inv by (simp add: vh_inv_def)
  then have "0 < element_size (pool_of st s)" using element_size_pos [OF inv] by (simp add: slab_ok_def)
  from getElementIndex_in(1) [OF sok s(2) this] Some show ?thesis
    by (simp add: PointerInfo_of_def getid_def Let_def)
qed

interpretation vh: tagged_heap PointerInfo_of xxmalloc_usable_size setTag vh_inv
proof
  fix st a
  assume "vh_inv st"
  then show "\<exists>t off. PointerInfo_of st a = Ok (t, off)" by (rule PointerInfo_total)
next
  fix st ptr off tag
  assume "vh_inv st" and "PointerInfo_of st ptr = Ok (- 1, off)" and "tag \<noteq> (0 :: u64)"
  then show "\<exists>st'. setTag ptr tag st = Ok st' \<and> vh_inv st' \<and>
      (\<forall>a. PointerInfo_of st' a =
        (if unat ptr - off \<le> unat a \<and> unat a < unat ptr - off + xxmalloc_usable_size st ptr
         then Ok (tag, unat a - (unat ptr - off)) else PointerInfo_of st a))"
    by (rule setTag_ok) blast
qed

subsection \<open>Size classes\<close>

lemma clzl_ok:
  assumes "x \<noteq> 0"
  obtains z where "clzl x = Ok z" "z < 64" "2 ^ (63 - z) \<le> unat x" "unat x < 2 ^ (64 - z)"
proof -
  define xs where "xs = rev [0..<64::nat]"
  define P where "P = (\<lambda>i. \<not> bit x i)"
  define z where "z = length (takeWhile P xs)"
  have len: "length xs = 64" and nth: "\<And>k. k < 64 \<Longrightarrow> xs ! k = 63 - k"
    by (simp_all add: xs_def rev_nth)
  have le: "z \<le> 64" using length_takeWhile_le [of P xs] by (simp add: z_def len)
  have hi: "\<not> bit x m" if "64 - z \<le> m" for m
  proof (cases "m < 64")
    case True
    then have k: "63 - m < z" using that by linarith
    have "takeWhile P xs ! (63 - m) = xs ! (63 - m)" using k by (simp add: takeWhile_nth z_def)
    also have "\<dots> = m" using True by (simp add: nth)
    finally have "m \<in> set (takeWhile P xs)" using k nth_mem unfolding z_def by metis
    then show ?thesis by (auto simp: P_def dest: set_takeWhileD)
  next
    case False
    then show ?thesis using bit_imp_le_length [of x m] by auto
  qed
  have lt: "z < 64"
  proof (rule ccontr)
    assume "\<not> z < 64"
    then have "\<not> bit x m" for m using hi [of m] by simp
    then have "x = 0" by (intro bit_word_eqI) simp
    with assms show False by simp
  qed
  then have "\<not> P (xs ! z)" using nth_length_takeWhile [of P xs] by (simp add: z_def len)
  then have lo: "bit x (63 - z)" using lt by (simp add: nth P_def)
  have "drop_bit (64 - z) x = 0" using hi by (simp add: drop_bit_eq_0_iff)
  then have 1: "unat x < 2 ^ (64 - z)" by (simp only: drop_bit_eq_0_unat)
  have "drop_bit (63 - z) x \<noteq> 0" using lo by (auto simp: drop_bit_eq_0_iff)
  then have 2: "2 ^ (63 - z) \<le> unat x" by (simp only: drop_bit_eq_0_unat not_less)
  have "clzl x = Ok z" using assms by (simp add: clzl_def z_def P_def xs_def)
  from that [OF this lt 2 1] show thesis .
qed

text \<open>The smallest power of two from 16 on that the size fits in.\<close>

lemma malloc_bin_ok:
  assumes "2 \<le> unat sz" and "unat sz \<le> 2 ^ 29"
  obtains bin where "malloc_bin sz = Ok bin" "bin < NUMPOOLS" "unat sz \<le> 2 ^ (bin + 4)"
    "bin = 0 \<or> 2 ^ (bin + 3) < unat sz"
proof -
  have u: "unat (sz - 1) = unat sz - 1" using assms(1) by (intro unat_minus_one) auto
  then have "sz - 1 \<noteq> 0" using assms(1) by (metis One_nat_def diff_is_0_eq not_less_eq_eq numeral_2_eq_2 unat_0)
  then obtain z where z: "clzl (sz - 1) = Ok z" "z < 64" "2 ^ (63 - z) \<le> unat sz - 1"
    "unat sz - 1 < 2 ^ (64 - z)" using u by (metis clzl_ok)
  have ls: "1 + (63 - z) = 64 - z" using z(2) by simp
  have "(2::nat) ^ (63 - z) < 2 ^ 29" using z(3) assms by linarith
  then have z29: "63 - z < 29" by (rule power_less_imp_less_exp [rotated]) simp
  have up: "unat sz \<le> 2 ^ (64 - z)" using z(4) by linarith
  show thesis
  proof (cases "64 - z < 4")
    case True
    have "(2::nat) ^ (64 - z) \<le> 2 ^ 4" using True by (intro power_increasing) simp_all
    then have "unat sz \<le> 2 ^ (0 + 4)" using up by simp
    moreover have "malloc_bin sz = Ok 0"
      using True z(1) by (simp add: malloc_bin_def ls [simplified] Let_def NUMPOOLS_def)
    ultimately show thesis using that [of 0] by (simp add: NUMPOOLS_def)
  next
    case False
    let ?b = "64 - z - 4"
    have b: "?b < NUMPOOLS" using z29 by (simp add: NUMPOOLS_def)
    have m: "malloc_bin sz = Ok ?b"
      using False z(1,2) b by (simp add: malloc_bin_def Let_def)
    have "?b + 4 = 64 - z" "?b + 3 = 63 - z" using False by simp_all
    then have "unat sz \<le> 2 ^ (?b + 4)" "2 ^ (?b + 3) < unat sz" using up z(3) assms(1) by simp_all
    with m b show thesis using that by blast
  qed
qed

subsection \<open>\<open>xxmalloc\<close> and \<open>xxfree\<close>\<close>

text \<open>A thread before its first allocation, or between two calls.\<close>

definition vh_started :: "vhm \<Rightarrow> bool" where
  "vh_started st \<longleftrightarrow>
     thread_state st = Ready \<and> vh_inv st \<or>
     thread_state st = Uninit \<and> num_slabs st = 0 \<and> slabMap st = (\<lambda>_. None)"

lemma vh_inv_thread_state [simp]:
  "vh_inv (st\<lparr>thread_state := x\<rparr>) = vh_inv st"
  "PointerInfo_of (st\<lparr>thread_state := x\<rparr>) a = PointerInfo_of st a"
  "xxmalloc_usable_size (st\<lparr>thread_state := x\<rparr>) a = xxmalloc_usable_size st a"
  "fresh_mapping b n (st\<lparr>thread_state := x\<rparr>) = fresh_mapping b n st"
proof -
  have c: "same_core st (st\<lparr>thread_state := x\<rparr>)" by (simp add: same_core_def)
  note d = same_core_eqs [OF c]
  show "PointerInfo_of (st\<lparr>thread_state := x\<rparr>) a = PointerInfo_of st a" by (rule d)
  show "xxmalloc_usable_size (st\<lparr>thread_state := x\<rparr>) a = xxmalloc_usable_size st a"
    unfolding xxmalloc_usable_size_def d(4) by (simp add: pool_of_def split: option.split)
  show "fresh_mapping b n (st\<lparr>thread_state := x\<rparr>) = fresh_mapping b n st"
    by (simp add: fresh_mapping_def d)
  have "has_free (st\<lparr>thread_state := x\<rparr>) = has_free st" by (intro ext) (simp add: has_free_def)
  then have "pool_ok (st\<lparr>thread_state := x\<rparr>) p xs = pool_ok st p xs" for p xs
    by (simp add: pool_ok_def full_dll_def free_dll_def)
  then show "vh_inv (st\<lparr>thread_state := x\<rparr>) = vh_inv st" by (simp add: vh_inv_def d)
qed

lemma init_pools_ok:
  assumes "num_slabs st = 0" and "slabMap st = (\<lambda>_. None)"
  shows "vh_inv (init_pools st)" and "PointerInfo_of (init_pools st) a = PointerInfo_of st a"
    and "fresh_mapping b n (init_pools st) = fresh_mapping b n st"
proof -
  have "getSlab st a = None" "getSlab (init_pools st) a = None" for a
    using assms by (simp_all add: getSlab_def init_pools_def)
  note g = this
  show "PointerInfo_of (init_pools st) a = PointerInfo_of st a" by (simp add: PointerInfo_of_def g)
  show "fresh_mapping b n (init_pools st) = fresh_mapping b n st" by (simp add: fresh_mapping_def g)
  have "pool_ok (init_pools st) p []" if "p < NUMPOOLS" for p
    using that assms
    by (simp add: pool_ok_def full_dll_def free_dll_def dll_def init_pools_def poolinit_def)
  moreover have "num_slabs (init_pools st) = 0" using assms by (simp add: init_pools_def)
  ultimately show "vh_inv (init_pools st)"
    unfolding vh_inv_def map_ok_def by (auto simp: g)
qed

lemma minus_one_nonzero: "(- 1 :: u64) \<noteq> 0"
  by simp

lemma xxmalloc_ok:
  assumes st: "vh_started st" and sz: "2 \<le> unat sz" "unat sz \<le> 2 ^ 29"
    and fresh: "\<And>p. malloc_bin sz = Ok p \<Longrightarrow>
      fresh_mapping base (slab_pages (2 ^ (p + 4)) (2 * overprovision) * 4096) st"
  obtains ptr st' where "xxmalloc base rnd sys sz st = Ok (ptr, st')" and "thread_state st' = Ready"
    and "vh_inv st'" and "unat sz \<le> xxmalloc_usable_size st' ptr" and "0 < unat ptr"
    and "\<And>a. PointerInfo_of st' a =
      (if unat ptr \<le> unat a \<and> unat a < unat ptr + xxmalloc_usable_size st' ptr
       then Ok (- 1, unat a - unat ptr) else PointerInfo_of st a)"
    and "\<And>a. unat ptr \<le> unat a \<Longrightarrow> unat a < unat ptr + xxmalloc_usable_size st' ptr \<Longrightarrow>
      PointerInfo_of st a = Ok (0, 0)"
proof -
  obtain p where bin: "malloc_bin sz = Ok p" "p < NUMPOOLS" "unat sz \<le> 2 ^ (p + 4)"
    by (rule malloc_bin_ok [OF sz])
  define st0 where "st0 = (if thread_state st \<noteq> Ready then init_pools st else st)"
  have i0: "vh_inv st0" and p0: "\<And>a. PointerInfo_of st0 a = PointerInfo_of st a"
    and f0: "\<And>b n. fresh_mapping b n st0 = fresh_mapping b n st"
    using st init_pools_ok [of st] by (auto simp: vh_started_def st0_def)
  let ?st0 = "st0\<lparr>thread_state := InsideMalloc\<rparr>"
  have i0': "vh_inv ?st0" using i0 by simp
  have f0': "fresh_mapping base (slab_pages (2 ^ (p + 4)) (2 * overprovision) * 4096) ?st0"
    using fresh [OF bin(1)] f0 by simp
  obtain ptr st1 where
    al: "allocate base rnd p (- 1) ?st0 = Ok (ptr, st1)"
    and i1: "vh_inv st1" and info': "\<And>a. PointerInfo_of st1 a =
      (if unat ptr \<le> unat a \<and> unat a < unat ptr + 2 ^ (p + 4) then Ok (- 1, unat a - unat ptr)
       else PointerInfo_of ?st0 a)"
    and bef': "\<And>a. unat ptr \<le> unat a \<Longrightarrow> unat a < unat ptr + 2 ^ (p + 4) \<Longrightarrow>
      PointerInfo_of ?st0 a = Ok (0, 0)"
    and pos: "0 < unat ptr" and us: "xxmalloc_usable_size st1 ptr = 2 ^ (p + 4)"
    and "thread_state st1 = thread_state ?st0"
    by (rule allocate_ok [OF i0' bin(2) minus_one_nonzero f0', where rnd = rnd]) (rule that)
  note info = info' [unfolded vh_inv_thread_state(2)] and bef = bef' [unfolded vh_inv_thread_state(2)]
  have "sz \<noteq> 0" "thread_state st \<noteq> InsideMalloc" using sz st by (auto simp: vh_started_def)
  then have x: "xxmalloc base rnd sys sz st = Ok (ptr, st1\<lparr>thread_state := Ready\<rparr>)"
    unfolding xxmalloc_def st0_def [symmetric] Let_def using bin(1) al by simp
  show thesis
    by (rule that [OF x]) (use i1 info bef pos us p0 bin(3) in \<open>simp_all\<close>)
qed

text \<open>
  C9. \<open>xxmalloc\<close> of any size from 2 to \<open>2 ^ 29\<close> succeeds (given that \<open>mmap\<close> returns unused,
  page-aligned user-space memory), whatever the random choice of the element: the pointer is not
  null and its usable size is at least what was asked; no address of it belonged to an allocation
  before, afterwards every address of it reports the tag of untagged allocations and its offset,
  and all other addresses report what they did; lists, counters and the address map stay correct.
\<close>

theorem xxmalloc_fresh_tagged:
  assumes "vh_started st" and "2 \<le> unat sz" and "unat sz \<le> 2 ^ 29"
    and "\<And>p. malloc_bin sz = Ok p \<Longrightarrow>
      fresh_mapping base (slab_pages (2 ^ (p + 4)) (2 * overprovision) * 4096) st"
  shows "\<exists>ptr st'. xxmalloc base rnd sys sz st = Ok (ptr, st') \<and>
    thread_state st' = Ready \<and> vh_inv st' \<and> 0 < unat ptr \<and>
    unat sz \<le> xxmalloc_usable_size st' ptr \<and>
    (\<forall>a. PointerInfo_of st' a =
      (if unat ptr \<le> unat a \<and> unat a < unat ptr + xxmalloc_usable_size st' ptr
       then Ok (- 1, unat a - unat ptr) else PointerInfo_of st a)) \<and>
    (\<forall>a. unat ptr \<le> unat a \<and> unat a < unat ptr + xxmalloc_usable_size st' ptr \<longrightarrow>
      PointerInfo_of st a = Ok (0, 0))"
  by (rule xxmalloc_ok [OF assms(1-3), of base rnd sys]) (use assms(4) in blast)+

text \<open>
  C10. Freeing any address inside an allocation succeeds, even when the slab had been full and has to
  be put back on the free list behind its nearest predecessor: exactly the addresses of that
  allocation lose their tag, and the allocator's data structure stays correct.
\<close>

theorem xxfree_releases:
  assumes "vh_inv st" and "PointerInfo_of st ptr = Ok (t, off)" and "t \<noteq> 0"
  shows "\<exists>st'. xxfree ptr st = Ok st' \<and> vh_inv st' \<and> thread_state st' = thread_state st \<and>
    (\<forall>a. PointerInfo_of st' a =
      (if unat ptr - off \<le> unat a \<and> unat a < unat ptr - off + xxmalloc_usable_size st ptr
       then Ok (0, 0) else PointerInfo_of st a))"
  by (rule xxfree_ok [OF assms]) blast

text \<open>
  A request for one byte reaches \<open>__builtin_clzl(0)\<close>, which is undefined; the model aborts.
\<close>

theorem xxmalloc_size_one: "thread_state st \<noteq> InsideMalloc \<Longrightarrow> xxmalloc base rnd sys 1 st = Abort"
  by (simp add: xxmalloc_def malloc_bin_def clzl_def Let_def)

subsection \<open>An example\<close>

definition ex_vh :: vhm where
  "ex_vh = \<lparr>slabs = (\<lambda>_. \<lparr>slab_pool = 0, capacity = 0, slab_free = 0, objects = 0, prev = None,
      next_slab = None, free_prev = None, free_next = None, ids = []\<rparr>), num_slabs = 0,
    sizedPools = (\<lambda>_. poolinit 0), slabMap = (\<lambda>_. None), thread_state = Uninit\<rparr>"

lemma ex_vh_started: "vh_started ex_vh"
  by (simp add: vh_started_def ex_vh_def)

lemma ex_fresh: "malloc_bin 20 = Ok p \<Longrightarrow>
    fresh_mapping 0x10000 (slab_pages (2 ^ (p + 4)) (2 * overprovision) * 4096) ex_vh"
proof -
  assume "malloc_bin 20 = Ok p"
  moreover obtain q where "malloc_bin 20 = Ok q" "q = 0 \<or> 2 ^ (q + 3) < unat (20 :: u64)"
    by (rule malloc_bin_ok [of 20]) simp_all
  ultimately have "p = 0 \<or> (2::nat) ^ (p + 3) < 2 ^ 5" by auto
  then have "p = 0 \<or> p + 3 < 5" using power_less_imp_less_exp [of "2::nat" "p + 3" 5] by auto
  then have "p + 4 = 4 \<or> p + 4 = 5" by auto
  then show ?thesis
    by (auto simp: fresh_mapping_def slab_pages_def overprovision_def ex_vh_def getSlab_def)
qed

definition ex_malloc :: "u64 \<times> vhm" where
  "ex_malloc = (case xxmalloc 0x10000 5 0 20 ex_vh of
     Ok (ptr, st) \<Rightarrow> (ptr, st) | _ \<Rightarrow> (0, ex_vh))"

lemma ex_malloc_ok:
  "vh_inv (snd ex_malloc)" "PointerInfo_of (snd ex_malloc) (fst ex_malloc) = Ok (- 1, 0)"
proof -
  obtain ptr st' where x: "xxmalloc 0x10000 5 0 20 ex_vh = Ok (ptr, st')" and i: "vh_inv st'"
    and us: "unat (20 :: u64) \<le> xxmalloc_usable_size st' ptr"
    and info: "\<And>a. PointerInfo_of st' a =
      (if unat ptr \<le> unat a \<and> unat a < unat ptr + xxmalloc_usable_size st' ptr
       then Ok (- 1, unat a - unat ptr) else PointerInfo_of ex_vh a)"
    by (rule xxmalloc_ok [OF ex_vh_started, where sz = 20 and base = "0x10000" and rnd = 5 and sys = 0]) (simp, simp, rule ex_fresh, blast+)
  have m: "fst ex_malloc = ptr" "snd ex_malloc = st'" by (simp_all add: ex_malloc_def x)
  show "vh_inv (snd ex_malloc)" unfolding m by (rule i)
  show "PointerInfo_of (snd ex_malloc) (fst ex_malloc) = Ok (- 1, 0)"
    unfolding m using us info [of ptr] by simp
qed

text \<open>
  C29. Giving a tag to a fresh allocation, through any address inside it, succeeds: from then on all
  its addresses and no others report the new tag with their offset, and the structure stays
  correct.
\<close>

theorem setTag_retags:
  assumes "vh_inv st" and "PointerInfo_of st ptr = Ok (- 1, off)" and "tag \<noteq> 0"
  shows "\<exists>st'. setTag ptr tag st = Ok st' \<and> vh_inv st' \<and>
    (\<forall>a. PointerInfo_of st' a =
      (if unat ptr - off \<le> unat a \<and> unat a < unat ptr - off + xxmalloc_usable_size st ptr
       then Ok (tag, unat a - (unat ptr - off)) else PointerInfo_of st a))"
  by (rule vh.set_tag_ok [OF assms])

theorem setTag_retags_witness:
  "\<exists>st'. setTag (fst ex_malloc) 7 (snd ex_malloc) = Ok st' \<and> vh_inv st' \<and>
    (\<forall>a. PointerInfo_of st' a =
      (if unat (fst ex_malloc) - 0 \<le> unat a \<and>
          unat a < unat (fst ex_malloc) - 0 + xxmalloc_usable_size (snd ex_malloc) (fst ex_malloc)
       then Ok (7, unat a - (unat (fst ex_malloc) - 0)) else PointerInfo_of (snd ex_malloc) a))"
  by (rule setTag_retags [OF ex_malloc_ok]) simp

theorem xxfree_releases_witness:
  "\<exists>st'. xxfree (fst ex_malloc) (snd ex_malloc) = Ok st' \<and> vh_inv st' \<and>
    thread_state st' = thread_state (snd ex_malloc) \<and>
    (\<forall>a. PointerInfo_of st' a =
      (if unat (fst ex_malloc) - 0 \<le> unat a \<and>
          unat a < unat (fst ex_malloc) - 0 + xxmalloc_usable_size (snd ex_malloc) (fst ex_malloc)
       then Ok (0, 0) else PointerInfo_of (snd ex_malloc) a))"
  by (rule xxfree_releases [OF ex_malloc_ok]) simp

theorem xxmalloc_fresh_tagged_witness:
  "\<exists>ptr st'. xxmalloc 0x10000 5 0 20 ex_vh = Ok (ptr, st') \<and>
    thread_state st' = Ready \<and> vh_inv st' \<and> 0 < unat ptr \<and>
    unat (20 :: u64) \<le> xxmalloc_usable_size st' ptr \<and>
    (\<forall>a. PointerInfo_of st' a =
      (if unat ptr \<le> unat a \<and> unat a < unat ptr + xxmalloc_usable_size st' ptr
       then Ok (- 1, unat a - unat ptr) else PointerInfo_of ex_vh a)) \<and>
    (\<forall>a. unat ptr \<le> unat a \<and> unat a < unat ptr + xxmalloc_usable_size st' ptr \<longrightarrow>
      PointerInfo_of ex_vh a = Ok (0, 0))"
  by (rule xxmalloc_fresh_tagged [OF ex_vh_started, where sz = 20 and base = "0x10000" and rnd = 5 and sys = 0]) (simp, simp, rule ex_fresh)

theorem xxmalloc_size_one_witness: "xxmalloc 0x10000 5 0 1 ex_vh = Abort"
  by (rule xxmalloc_size_one) (simp add: ex_vh_def)

end
