(* ===== verification/Edge_Store.thy ===== *)
theory Edge_Store
  imports Result_Type
begin

text \<open>
  The trace edge of \<open>BraceletRuntimeStructs\<close> with the accessors that
  \<open>src/Tracing/Runtime/edge_hash_set.h\<close> defines on it, and the contract between the hash set
  and the trace runtime that fills it: adding an edge inserts its key into a set and says whether it
  was new.
\<close>

section \<open>Edges\<close>

record trace_edge =
  trace_site :: u64
  te_value :: u64

definition EDGE_ZERO :: trace_edge where
  "EDGE_ZERO = \<lparr>trace_site = 0, te_value = 0\<rparr>"

definition edge_present :: "trace_edge \<Rightarrow> bool" where
  "edge_present e \<longleftrightarrow> trace_site e \<noteq> 0"

text \<open>The epoch is a \<open>uint8_t\<close> that is 0 or 1, here a \<open>bool\<close>.\<close>

definition edge_epoch :: "trace_edge \<Rightarrow> bool" where
  "edge_epoch e \<longleftrightarrow> trace_site e AND 1 \<noteq> 0"

definition edge_equal :: "trace_edge \<Rightarrow> trace_edge \<Rightarrow> bool" where
  "edge_equal a b \<longleftrightarrow>
     drop_bit 1 (trace_site a) = drop_bit 1 (trace_site b) \<and> te_value a = te_value b"

definition edge_set_epoch :: "trace_edge \<Rightarrow> bool \<Rightarrow> trace_edge" where
  "edge_set_epoch e ep =
     \<lparr>trace_site = push_bit 1 (drop_bit 1 (trace_site e)) OR of_bool ep, te_value = te_value e\<rparr>"

text \<open>The sixteen bytes of an edge in memory; \<open>fnv\<close> is \<open>boost::hash2::fnv1a_64\<close> on bytes.\<close>

definition edge_bytes :: "trace_edge \<Rightarrow> bytes" where
  "edge_bytes e = le64 (trace_site e) @ le64 (te_value e)"

definition edge_hash :: "(bytes \<Rightarrow> u64) \<Rightarrow> trace_edge \<Rightarrow> u64" where
  "edge_hash fnv e = fnv (edge_bytes (edge_set_epoch e False))"

lemma edge_set_epoch_epoch [simp]: "edge_epoch (edge_set_epoch e ep) = ep"
  by (cases ep) (auto simp: edge_epoch_def edge_set_epoch_def and_1_eq_0 bit_or_iff bit_double)

text \<open>Two edges are the same up to the epoch bit exactly when their keys agree.\<close>

definition edge_key :: "trace_edge \<Rightarrow> u64 \<times> u64" where
  "edge_key e = (drop_bit 1 (trace_site e), te_value e)"

lemma edge_equal_key: "edge_equal a b \<longleftrightarrow> edge_key a = edge_key b"
  by (simp add: edge_equal_def edge_key_def)

lemma drop_push_epoch: "drop_bit 1 (push_bit 1 (drop_bit 1 x) OR of_bool b) = drop_bit 1 x"
  for x :: u64
proof (rule bit_word_eqI)
  fix n assume n: "n < LENGTH(64)"
  show "bit (drop_bit 1 (push_bit 1 (drop_bit 1 x) OR of_bool b)) n = bit (drop_bit 1 x) n"
  proof (cases "n = 63")
    case True
    have "\<not> bit x 64" using bit_imp_le_length [of x 64] by auto
    with True show ?thesis by (simp add: bit_drop_bit_eq bit_or_iff bit_double)
  next
    case False
    with n show ?thesis by (cases b) (auto simp: bit_drop_bit_eq bit_or_iff bit_double)
  qed
qed

lemma key_set_epoch [simp]: "edge_key (edge_set_epoch e b) = edge_key e"
  unfolding edge_key_def edge_set_epoch_def by (simp only: drop_push_epoch trace_edge.select_convs)

lemma set_epoch_key: "edge_set_epoch a b = edge_set_epoch c b \<longleftrightarrow> edge_key a = edge_key c"
  by (metis edge_key_def edge_set_epoch_def key_set_epoch prod.inject)

lemma set_epoch_twice [simp]: "edge_set_epoch (edge_set_epoch e b) c = edge_set_epoch e c"
  by (simp add: set_epoch_key)

text \<open>A usable edge keeps a part of its key in \<open>trace_site\<close>, so it stays present.\<close>

definition edge_ok_key :: "trace_edge \<Rightarrow> bool" where
  "edge_ok_key e \<longleftrightarrow> fst (edge_key e) \<noteq> 0"

lemma edge_ok_key_present: "edge_ok_key e \<Longrightarrow> edge_present e"
  by (auto simp: edge_ok_key_def edge_key_def edge_present_def)

lemma edge_ok_key_epoch [simp]: "edge_ok_key (edge_set_epoch e b) = edge_ok_key e"
  by (simp add: edge_ok_key_def)

lemma EDGE_ZERO_absent [simp]: "\<not> edge_present EDGE_ZERO"
  by (simp add: EDGE_ZERO_def edge_present_def)

section \<open>The contract of an edge store\<close>

locale edge_store =
  fixes add :: "trace_edge \<Rightarrow> 's \<Rightarrow> (bool \<times> 's) result"
    and keys :: "'s \<Rightarrow> (u64 \<times> u64) set"
    and inv :: "'s \<Rightarrow> bool"
  assumes add_inv: "inv s \<Longrightarrow> edge_ok_key e \<Longrightarrow> add e s = Ok (b, s') \<Longrightarrow> inv s'"
    and add_keys:
      "inv s \<Longrightarrow> edge_ok_key e \<Longrightarrow> add e s = Ok (b, s') \<Longrightarrow> keys s' = insert (edge_key e) (keys s)"
    and add_new: "inv s \<Longrightarrow> edge_ok_key e \<Longrightarrow> add e s = Ok (b, s') \<Longrightarrow> b = (edge_key e \<notin> keys s)"
begin

lemma add_again:
  assumes "inv s" and "edge_ok_key e" and "add e s = Ok (b, s')" and "add e s' = Ok (b', s'')"
  shows "\<not> b'" and "keys s'' = keys s'"
  using assms add_inv [OF assms(1-3)] add_keys [OF assms(1-3)]
    add_new [OF _ assms(2,4)] add_keys [OF _ assms(2,4)] by auto

lemma add_all:
  assumes "for_each (\<lambda>e s. try_r (add e s) (\<lambda>(_, s). Ok s)) es s = Ok s'" and "inv s"
    and "\<forall>e\<in>set es. edge_ok_key e"
  shows "inv s' \<and> keys s' = keys s \<union> edge_key ` set es"
  using assms
proof (induction es arbitrary: s)
  case (Cons e es)
  from Cons.prems(1) obtain b t where t: "add e s = Ok (b, t)"
    and rest: "for_each (\<lambda>e s. try_r (add e s) (\<lambda>(_, s). Ok s)) es t = Ok s'"
    by (auto simp: ok_iff)
  have e: "edge_ok_key e" using Cons.prems(3) by simp
  from Cons.IH [OF rest add_inv [OF Cons.prems(2) e t]] Cons.prems(3)
  show ?case using add_keys [OF Cons.prems(2) e t] by auto
qed simp

end

end
