(* ===== verification/Edge_Hash_Set.thy ===== *)
theory Edge_Hash_Set
  imports Edge_Store
begin

text \<open>
  \<open>src/Tracing/Runtime/edge_hash_set.h\<close>: the open-addressing hash set of trace edges that lives
  in a memory-mapped file. A table of a power-of-two size is probed along \<open>IndexSequence\<close>; when
  three quarters are used it doubles, and \<open>resize_insert\<close> rehashes in place, telling the moved
  edges from the others by the epoch in their lowest bit. \<open>assert\<close> and \<open>abort\<close> are
  \<open>Abort\<close>. The hash and the operating system are parameters.
\<close>

section \<open>The index sequence\<close>

definition murmur64 :: "u64 \<Rightarrow> u64" where
  "murmur64 h0 =
     (let h1 = h0 XOR drop_bit 33 h0;
          h2 = h1 * 0xff51afd7ed558ccd;
          h3 = h2 XOR drop_bit 33 h2;
          h4 = h3 * 0xc4ceb9fe1a85ec53
      in h4 XOR drop_bit 33 h4)"

record index_sequence =
  is_edge_count :: u64
  is_hash :: u64
  attempts_remaining :: nat

definition IndexSequence :: "(bytes \<Rightarrow> u64) \<Rightarrow> u64 \<Rightarrow> trace_edge \<Rightarrow> index_sequence" where
  "IndexSequence fnv ec e =
     \<lparr>is_edge_count = ec, is_hash = edge_hash fnv e, attempts_remaining = 1024\<rparr>"

definition next_index :: "index_sequence \<Rightarrow> (nat \<times> index_sequence) result" where
  "next_index seq =
     assert_r (attempts_remaining seq \<noteq> 0)
      (let h = (if attempts_remaining seq mod 4 = 3 then murmur64 (is_hash seq)
                else is_hash seq + 1)
       in Ok (unat (h AND (is_edge_count seq - 1)),
              seq\<lparr>is_hash := h, attempts_remaining := attempts_remaining seq - 1\<rparr>))"

section \<open>The set\<close>

record edge_hash_set =
  edge_count :: u64
  inserted_edges :: u64
  resize_threshold :: u64
  hs_edges :: "trace_edge list option"   \<comment> \<open>the mapped file; \<open>None\<close> is the null pointer\<close>
  hs_epoch :: bool

definition is_ready :: "edge_hash_set \<Rightarrow> bool" where
  "is_ready hs \<longleftrightarrow> hs_edges hs \<noteq> None"

definition slots :: "edge_hash_set \<Rightarrow> trace_edge list" where
  "slots hs = (case hs_edges hs of None \<Rightarrow> [] | Some es \<Rightarrow> es)"

definition edge_size :: "u64 \<Rightarrow> u64" where
  "edge_size ec = ec * 16"

definition update_resize_threshold :: "edge_hash_set \<Rightarrow> edge_hash_set" where
  "update_resize_threshold hs = hs\<lparr>resize_threshold := (edge_count hs * 3) div 4\<rparr>"

text \<open>The name handed to \<open>mkostemp\<close>.\<close>

definition trace_file_template :: "string \<Rightarrow> nat \<Rightarrow> string" where
  "trace_file_template base_path pid =
     take 1023 (base_path @ ''/trace-'' @ show_dec pid @ ''_XXXXXX'')"

text \<open>
  The operating system enters as \<open>truncate_ok\<close>, which says whether \<open>ftruncate\<close> to a size
  succeeds; a new file reads as zeros, and so does the part by which a file grows. The constructor
  aborts when the directory is missing or a call fails.
\<close>

definition EdgeHashSet_init ::
  "(u64 \<Rightarrow> bool) \<Rightarrow> string option \<Rightarrow> nat \<Rightarrow> edge_hash_set result" where
  "EdgeHashSet_init truncate_ok base_path log2_initial_buffer_size =
     (let ec = push_bit log2_initial_buffer_size 1
      in assert_r (base_path \<noteq> None)
         (assert_r (truncate_ok (edge_size ec))
           (Ok (update_resize_threshold
             \<lparr>edge_count = ec, inserted_edges = 0, resize_threshold = 0,
              hs_edges = Some (replicate (unat ec) EDGE_ZERO), hs_epoch = False\<rparr>))))"

subsection \<open>Growing\<close>

text \<open>
  The loop of \<open>resize_insert\<close>. Its argument is a reference into the array, so the model passes
  the slot \<open>i\<close> and reads it anew in every round; an access outside the mapping is \<open>Abort\<close>.
  The recursion is on the attempts.
\<close>

function resize_probe ::
  "bool \<Rightarrow> nat \<Rightarrow> index_sequence \<Rightarrow> trace_edge list \<Rightarrow> (bool \<times> trace_edge list) result" where
  "resize_probe ep i seq es =
     (case next_index seq of
        Abort \<Rightarrow> Abort
      | Err e \<Rightarrow> Err e
      | Ok (j, seq') \<Rightarrow>
          assert_r (i < length es \<and> j < length es)
           (let dst = es ! j; edge = es ! i in
            if edge_present dst then
              if edge_epoch dst = ep then
                if edge_equal edge dst then Ok (False, es) else resize_probe ep i seq' es
              else Ok (True, es[i := dst, j := edge])
            else Ok (False, es[j := edge_set_epoch edge ep, i := EDGE_ZERO])))"
  by pat_completeness auto
termination
  by (relation "measure (\<lambda>(ep, i, seq, es). attempts_remaining seq)")
    (auto simp: next_index_def assert_r_def Let_def split: if_splits)

declare resize_probe.simps [simp del]

definition resize_insert ::
  "(bytes \<Rightarrow> u64) \<Rightarrow> u64 \<Rightarrow> bool \<Rightarrow> nat \<Rightarrow> trace_edge list \<Rightarrow> (bool \<times> trace_edge list) result" where
  "resize_insert fnv ec ep i es =
     assert_r (i < length es)
      (let edge = es ! i in
       if \<not> edge_present edge \<or> edge_epoch edge = ep then Ok (False, es)
       else let edge' = edge_set_epoch edge ep
            in resize_probe ep i (IndexSequence fnv ec edge') (es[i := edge']))"

text \<open>Each round that asks for another moves one edge to the new epoch, so the loop ends.\<close>

definition stale :: "bool \<Rightarrow> trace_edge \<Rightarrow> bool" where
  "stale ep e \<longleftrightarrow> edge_present e \<and> edge_epoch e \<noteq> ep"

definition num_stale :: "bool \<Rightarrow> trace_edge list \<Rightarrow> nat" where
  "num_stale ep es = size (filter_mset (stale ep) (mset es))"

lemma resize_probe_swap:
  "resize_probe ep i seq es = Ok (True, es') \<Longrightarrow> mset es' = mset es"
proof (induction ep i seq es rule: resize_probe.induct)
  case (1 ep i seq es)
  from "1.prems" obtain j seq' where n: "next_index seq = Ok (j, seq')"
    and b: "i < length es" "j < length es"
    by (subst (asm) resize_probe.simps) (auto simp: ok_iff split: result.splits)
  have "resize_probe ep i seq es =
    (let dst = es ! j; edge = es ! i in
            if edge_present dst then
              if edge_epoch dst = ep then
                if edge_equal edge dst then Ok (False, es) else resize_probe ep i seq' es
              else Ok (True, es[i := dst, j := edge])
            else Ok (False, es[j := edge_set_epoch edge ep, i := EDGE_ZERO]))"
    by (subst resize_probe.simps) (simp add: n b)
  with "1.prems" "1.IH" [OF n refl refl refl] mset_swap [of j es i] b show ?case
    by (auto simp: Let_def split: if_splits)
qed

lemma num_stale_update:
  "i < length es \<Longrightarrow> stale ep (es ! i) \<Longrightarrow> \<not> stale ep e \<Longrightarrow> num_stale ep (es[i := e]) < num_stale ep es"
  using size_Diff1_less [of "es ! i" "filter_mset (stale ep) (mset es)"]
  by (simp add: num_stale_def mset_update)

lemma resize_insert_stale:
  assumes "resize_insert fnv ec ep i es = Ok (True, es')"
  shows "num_stale ep es' < num_stale ep es"
proof -
  let ?e = "edge_set_epoch (es ! i) ep"
  have b: "i < length es" "stale ep (es ! i)"
    and p: "resize_probe ep i (IndexSequence fnv ec ?e) (es[i := ?e]) = Ok (True, es')"
    using assms by (auto simp: resize_insert_def ok_iff Let_def stale_def split: if_splits)
  have "num_stale ep es' = num_stale ep (es[i := ?e])"
    using resize_probe_swap [OF p] by (simp add: num_stale_def)
  also have "\<dots> < num_stale ep es"
    using b by (intro num_stale_update) (simp_all add: stale_def)
  finally show ?thesis .
qed

function resize_slot ::
  "(bytes \<Rightarrow> u64) \<Rightarrow> u64 \<Rightarrow> bool \<Rightarrow> nat \<Rightarrow> trace_edge list \<Rightarrow> trace_edge list result" where
  "resize_slot fnv ec ep i es =
     try_r (resize_insert fnv ec ep i es) (\<lambda>(again, es').
       if again then resize_slot fnv ec ep i es' else Ok es')"
  by pat_completeness auto
termination
  by (relation "measure (\<lambda>(fnv, ec, ep, i, es). num_stale ep es)")
    (auto simp: resize_insert_stale)

declare resize_slot.simps [simp del]

definition increase_size ::
  "(bytes \<Rightarrow> u64) \<Rightarrow> (u64 \<Rightarrow> bool) \<Rightarrow> edge_hash_set \<Rightarrow> edge_hash_set result" where
  "increase_size fnv truncate_ok hs =
     (let ep = (\<not> hs_epoch hs);
          old_count = edge_count hs;
          ec = old_count * 2
      in assert_r (truncate_ok (edge_size ec))
          (try_r
            (for_each (resize_slot fnv ec ep) [0..<unat old_count]
              (slots hs @ replicate (unat ec - length (slots hs)) EDGE_ZERO))
            (\<lambda>es. Ok (update_resize_threshold
                (hs\<lparr>hs_epoch := ep, edge_count := ec, hs_edges := Some es\<rparr>)))))"

subsection \<open>Adding an edge\<close>

text \<open>The loop of \<open>add_edge\<close>, on the attempts: the slot to fill, if the edge is not there.\<close>

function add_probe ::
  "trace_edge \<Rightarrow> index_sequence \<Rightarrow> trace_edge list \<Rightarrow> nat option result" where
  "add_probe e seq es =
     (case next_index seq of
        Abort \<Rightarrow> Abort
      | Err x \<Rightarrow> Err x
      | Ok (j, seq') \<Rightarrow>
          assert_r (j < length es)
           (if \<not> edge_present (es ! j) then Ok (Some j)
            else if edge_equal (es ! j) e then Ok None
            else add_probe e seq' es))"
  by pat_completeness auto
termination
  by (relation "measure (\<lambda>(e, seq, es). attempts_remaining seq)")
    (auto simp: next_index_def assert_r_def Let_def split: if_splits)

declare add_probe.simps [simp del]

definition add_edge ::
  "(bytes \<Rightarrow> u64) \<Rightarrow> (u64 \<Rightarrow> bool) \<Rightarrow> trace_edge \<Rightarrow> edge_hash_set \<Rightarrow> (bool \<times> edge_hash_set) result"
  where
  "add_edge fnv truncate_ok e hs =
     (if \<not> is_ready hs then Ok (False, hs)
      else assert_r (\<not> edge_epoch e)
       (try_r
         (if inserted_edges hs \<ge> resize_threshold hs
          then try_r (increase_size fnv truncate_ok hs) (\<lambda>hs'.
                 assert_r (inserted_edges hs' < resize_threshold hs') (Ok hs'))
          else Ok hs)
         (\<lambda>hs. let e = edge_set_epoch e (hs_epoch hs) in
            try_r (add_probe e (IndexSequence fnv (edge_count hs) e) (slots hs)) (\<lambda>dst.
              case dst of
                None \<Rightarrow> Ok (False, hs)
              | Some j \<Rightarrow>
                  Ok (True, hs\<lparr>inserted_edges := inserted_edges hs + 1,
                             hs_edges := Some ((slots hs)[j := e])\<rparr>)))))"

text \<open>The destructor: \<open>munmap\<close>, and not ready any more.\<close>

definition EdgeHashSet_destroy :: "edge_hash_set \<Rightarrow> edge_hash_set result" where
  "EdgeHashSet_destroy hs = assert_r (is_ready hs) (Ok (hs\<lparr>hs_edges := None\<rparr>))"

end
