(* ===== verification/Edge_Hash_Set_Inv.thy ===== *)
theory Edge_Hash_Set_Inv
  imports Edge_Hash_Set
begin

text \<open>
  The hash set implements a set: probe sequences as lists, the invariant of a table (also in the
  middle of a rehash), and that every operation keeps it. \<open>add_edge\<close> interprets the contract
  \<open>edge_store\<close>.
\<close>

section \<open>Probe sequences as lists\<close>

fun probe_list :: "u64 \<Rightarrow> nat \<Rightarrow> u64 \<Rightarrow> nat list" where
  "probe_list ec 0 h = []"
| "probe_list ec (Suc n) h =
     (let h' = (if Suc n mod 4 = 3 then murmur64 h else h + 1)
      in unat (h' AND (ec - 1)) # probe_list ec n h')"

definition seq_list :: "index_sequence \<Rightarrow> nat list" where
  "seq_list seq = probe_list (is_edge_count seq) (attempts_remaining seq) (is_hash seq)"

lemma next_index_cases:
  obtains (stop) "next_index seq = Abort" "seq_list seq = []"
  | (go) j seq' where "next_index seq = Ok (j, seq')" "seq_list seq = j # seq_list seq'"
  by (cases "attempts_remaining seq") (auto simp: next_index_def seq_list_def Let_def)

text \<open>The slots where an edge may be, in the order they are tried.\<close>

definition slots_of :: "(bytes \<Rightarrow> u64) \<Rightarrow> u64 \<Rightarrow> trace_edge \<Rightarrow> nat list" where
  "slots_of fnv ec e = seq_list (IndexSequence fnv ec e)"

text \<open>The slots depend on the key alone.\<close>

lemma slots_of_epoch [simp]: "slots_of fnv ec (edge_set_epoch e b) = slots_of fnv ec e"
  by (simp add: slots_of_def IndexSequence_def edge_hash_def)

lemma slots_of_key: "edge_key a = edge_key b \<Longrightarrow> slots_of fnv ec a = slots_of fnv ec b"
  by (metis set_epoch_key slots_of_epoch)

section \<open>What the loops do\<close>

lemma add_probe_ok:
  assumes "add_probe e seq es = Ok r"
  shows "\<exists>pre j post. seq_list seq = pre @ j # post \<and> j < length es \<and>
    (\<forall>q\<in>set pre. q < length es \<and> edge_present (es ! q) \<and> edge_key (es ! q) \<noteq> edge_key e) \<and>
    (case r of None \<Rightarrow> edge_present (es ! j) \<and> edge_key (es ! j) = edge_key e
     | Some k \<Rightarrow> k = j \<and> \<not> edge_present (es ! j))"
  using assms
proof (induction e seq es rule: add_probe.induct)
  case (1 e seq es)
  show ?case
  proof (cases rule: next_index_cases [of seq])
    case stop
    with "1.prems" show ?thesis by (subst (asm) add_probe.simps) simp
  next
    case (go j seq')
    have u: "add_probe e seq es = assert_r (j < length es)
           (if \<not> edge_present (es ! j) then Ok (Some j)
            else if edge_equal (es ! j) e then Ok None
            else add_probe e seq' es)"
      by (subst add_probe.simps) (simp add: go(1))
    have j: "j < length es" using "1.prems" by (auto simp: u ok_iff)
    consider "\<not> edge_present (es ! j)" | "edge_present (es ! j)" "edge_equal (es ! j) e"
      | "edge_present (es ! j)" "\<not> edge_equal (es ! j) e" by blast
    then show ?thesis
    proof cases
      case 1
      with "1.prems" j go(2) show ?thesis
        by (intro exI [of _ "[]"]) (auto simp: u)
    next
      case 2
      with "1.prems" j go(2) show ?thesis
        by (intro exI [of _ "[]"]) (auto simp: u edge_equal_key)
    next
      case 3
      then have "add_probe e seq' es = Ok r" using "1.prems" j by (simp add: u)
      from "1.IH" [OF go(1) refl _ _ this] 3 obtain pre k post where
        "seq_list seq' = pre @ k # post" "k < length es"
        "\<forall>q\<in>set pre. q < length es \<and> edge_present (es ! q) \<and> edge_key (es ! q) \<noteq> edge_key e"
        "case r of None \<Rightarrow> edge_present (es ! k) \<and> edge_key (es ! k) = edge_key e
         | Some m \<Rightarrow> m = k \<and> \<not> edge_present (es ! k)" by auto
      with go(2) j 3 show ?thesis
        by - (rule exI [of _ "j # pre"], rule exI [of _ k], rule exI [of _ post],
          auto simp: edge_equal_key)
    qed
  qed
qed

lemma resize_probe_ok:
  assumes "resize_probe ep i seq es = Ok (b, es')"
  shows "\<exists>pre j post. seq_list seq = pre @ j # post \<and> i < length es \<and> j < length es \<and>
    (\<forall>q\<in>set pre. q < length es \<and> edge_present (es ! q) \<and> edge_epoch (es ! q) = ep \<and>
       edge_key (es ! q) \<noteq> edge_key (es ! i)) \<and>
    (edge_present (es ! j) \<and> edge_epoch (es ! j) = ep \<and> edge_key (es ! j) = edge_key (es ! i) \<and>
       \<not> b \<and> es' = es \<or>
     edge_present (es ! j) \<and> edge_epoch (es ! j) \<noteq> ep \<and> b \<and> es' = es[i := es ! j, j := es ! i] \<or>
     \<not> edge_present (es ! j) \<and> \<not> b \<and> es' = es[j := edge_set_epoch (es ! i) ep, i := EDGE_ZERO])"
  using assms
proof (induction ep i seq es rule: resize_probe.induct)
  case (1 ep i seq es)
  show ?case
  proof (cases rule: next_index_cases [of seq])
    case stop
    with "1.prems" show ?thesis by (subst (asm) resize_probe.simps) simp
  next
    case (go j seq')
    have u: "resize_probe ep i seq es = assert_r (i < length es \<and> j < length es)
           (if edge_present (es ! j) then
              if edge_epoch (es ! j) = ep then
                if edge_equal (es ! i) (es ! j) then Ok (False, es) else resize_probe ep i seq' es
              else Ok (True, es[i := es ! j, j := es ! i])
            else Ok (False, es[j := edge_set_epoch (es ! i) ep, i := EDGE_ZERO]))"
      by (subst resize_probe.simps) (simp add: go(1) Let_def)
    have j: "i < length es" "j < length es" using "1.prems" by (auto simp: u ok_iff)
    show ?thesis
    proof (cases "edge_present (es ! j) \<and> edge_epoch (es ! j) = ep \<and> \<not> edge_equal (es ! i) (es ! j)")
      case False
      with "1.prems" j go(2) show ?thesis
        by - (rule exI [of _ "[]"], rule exI [of _ j], rule exI [of _ "seq_list seq'"],
          auto simp: u edge_equal_key split: if_splits)
    next
      case True
      then have "resize_probe ep i seq' es = Ok (b, es')" using "1.prems" j by (simp add: u)
      from "1.IH" [OF go(1) refl refl refl _ _ _ this] True j obtain pre k post where
        "seq_list seq' = pre @ k # post" "k < length es"
        "\<forall>q\<in>set pre. q < length es \<and> edge_present (es ! q) \<and> edge_epoch (es ! q) = ep \<and>
           edge_key (es ! q) \<noteq> edge_key (es ! i)"
        "edge_present (es ! k) \<and> edge_epoch (es ! k) = ep \<and> edge_key (es ! k) = edge_key (es ! i) \<and>
           \<not> b \<and> es' = es \<or>
         edge_present (es ! k) \<and> edge_epoch (es ! k) \<noteq> ep \<and> b \<and> es' = es[i := es ! k, k := es ! i] \<or>
         \<not> edge_present (es ! k) \<and> \<not> b \<and> es' = es[k := edge_set_epoch (es ! i) ep, i := EDGE_ZERO]"
        by auto
      with go(2) j True show ?thesis
        by - (rule exI [of _ "j # pre"], rule exI [of _ k], rule exI [of _ post],
          auto simp: edge_equal_key)
    qed
  qed
qed

section \<open>The invariant\<close>

text \<open>The keys held by the table, each as often as it occurs.\<close>

definition keys_of :: "trace_edge list \<Rightarrow> (u64 \<times> u64) multiset" where
  "keys_of es = image_mset edge_key (filter_mset edge_present (mset es))"

text \<open>
  An edge of the current epoch sits in a slot of its sequence before which every slot is taken, by
  edges of the current epoch. This is what \<open>check\<close> of the unit test looks at, and a little more:
  the search for that edge cannot stop early.
\<close>

definition settled :: "(bytes \<Rightarrow> u64) \<Rightarrow> u64 \<Rightarrow> bool \<Rightarrow> trace_edge list \<Rightarrow> nat \<Rightarrow> bool" where
  "settled fnv ec ep es p \<longleftrightarrow>
     (\<exists>pre post. slots_of fnv ec (es ! p) = pre @ p # post \<and>
        (\<forall>q\<in>set pre. q < length es \<and> edge_present (es ! q) \<and> edge_epoch (es ! q) = ep))"

definition slots_ok :: "(bytes \<Rightarrow> u64) \<Rightarrow> u64 \<Rightarrow> bool \<Rightarrow> trace_edge list \<Rightarrow> bool" where
  "slots_ok fnv ec ep es \<longleftrightarrow>
     (\<forall>k. count (keys_of es) k \<le> 1) \<and>
     (\<forall>e\<in>set es. edge_present e \<longrightarrow> edge_ok_key e) \<and>
     (\<forall>p<length es. edge_present (es ! p) \<and> edge_epoch (es ! p) = ep \<longrightarrow> settled fnv ec ep es p)"

lemma keys_of_update:
  "i < length es \<Longrightarrow> keys_of (es[i := e]) =
    (keys_of es - (if edge_present (es ! i) then {#edge_key (es ! i)#} else {#})) +
    (if edge_present e then {#edge_key e#} else {#})"
  by (auto simp: keys_of_def mset_update image_mset_Diff)

lemma keys_of_mem: "i < length es \<Longrightarrow> edge_present (es ! i) \<Longrightarrow> edge_key (es ! i) \<in># keys_of es"
  by (auto simp: keys_of_def)

lemma keys_of_swap: "i < length es \<Longrightarrow> j < length es \<Longrightarrow> keys_of (es[i := es ! j, j := es ! i]) = keys_of es"
  using mset_swap [of j es i] by (simp add: keys_of_def)

lemma keys_unique:
  assumes "\<forall>k. count (keys_of es) k \<le> 1" and "p < length es" "q < length es"
    and "edge_present (es ! p)" "edge_present (es ! q)" "edge_key (es ! p) = edge_key (es ! q)"
  shows "p = q"
proof (rule ccontr)
  assume ne: "p \<noteq> q"
  let ?es = "es[p := EDGE_ZERO]"
  have "edge_key (?es ! q) \<in># keys_of ?es" using ne assms by (intro keys_of_mem) simp_all
  then have "edge_key (es ! p) \<in># keys_of es - {#edge_key (es ! p)#}"
    using ne assms by (simp add: keys_of_update)
  then have "1 < count (keys_of es) (edge_key (es ! p))"
    by (metis count_diff count_single count_greater_zero_iff zero_less_diff)
  with assms(1) show False by (metis not_le)
qed

text \<open>Being settled survives as long as the edges of the epoch stay where they are.\<close>

lemma settled_mono:
  assumes "settled fnv ec ep es p" and "length es' = length es" and "es' ! p = es ! p"
    and "\<And>q. q < length es \<Longrightarrow> edge_present (es ! q) \<Longrightarrow> edge_epoch (es ! q) = ep \<Longrightarrow>
      edge_present (es' ! q) \<and> edge_epoch (es' ! q) = ep"
  shows "settled fnv ec ep es' p"
  using assms unfolding settled_def by (metis (no_types, lifting))

text \<open>
  One edge gets to the slot of its search, all edges of the epoch stay, and no other slot gets an
  edge of the epoch: this is what a rehash and an insertion have in common.
\<close>

lemma slots_ok_settle:
  assumes ok: "slots_ok fnv ec ep es" and len: "length es' = length es"
    and seq: "slots_of fnv ec (es' ! j) = pre @ j # post"
    and pre: "\<forall>q\<in>set pre. q < length es \<and> edge_present (es ! q) \<and> edge_epoch (es ! q) = ep"
    and keep: "\<And>q. q < length es \<Longrightarrow> edge_present (es ! q) \<Longrightarrow> edge_epoch (es ! q) = ep \<Longrightarrow> es' ! q = es ! q"
    and others: "\<And>q. q < length es \<Longrightarrow> q \<noteq> j \<Longrightarrow> edge_present (es' ! q) \<Longrightarrow> edge_epoch (es' ! q) = ep \<Longrightarrow>
      es' ! q = es ! q"
    and "\<forall>k. count (keys_of es') k \<le> 1" and "\<forall>e\<in>set es'. edge_present e \<longrightarrow> edge_ok_key e"
  shows "slots_ok fnv ec ep es'"
proof -
  have "settled fnv ec ep es' p"
    if p: "p < length es" "edge_present (es' ! p)" "edge_epoch (es' ! p) = ep" for p
  proof (cases "p = j")
    case True
    have "\<forall>q\<in>set pre. q < length es' \<and> edge_present (es' ! q) \<and> edge_epoch (es' ! q) = ep"
      using pre keep len by auto
    with True seq show ?thesis by (auto simp: settled_def)
  next
    case False
    with p have e: "es' ! p = es ! p" by (intro others)
    with ok p have "settled fnv ec ep es p" by (simp add: slots_ok_def)
    then show ?thesis by (rule settled_mono) (use len e keep in auto)
  qed
  with assms show ?thesis by (simp add: slots_ok_def)
qed

subsection \<open>Rehashing one slot\<close>

text \<open>Where the edge of slot \<open>i\<close> goes: it stays, swaps places with a stale edge or moves to an empty slot.\<close>

lemma resize_insert_slot:
  assumes ok: "slots_ok fnv ec ep es" and r: "resize_insert fnv ec ep i es = Ok (b, es')"
    and st: "stale ep (es ! i)"
  obtains pre j post where "slots_of fnv ec (es ! i) = pre @ j # post" and "j < length es"
    and "\<forall>q\<in>set pre. q < length es \<and> edge_present (es ! q) \<and> edge_epoch (es ! q) = ep"
    and "j = i \<and> \<not> b \<and> es' = es[i := edge_set_epoch (es ! i) ep] \<or>
      j \<noteq> i \<and> stale ep (es ! j) \<and> b \<and> es' = es[i := es ! j, j := edge_set_epoch (es ! i) ep] \<or>
      j \<noteq> i \<and> \<not> edge_present (es ! j) \<and> \<not> b \<and> es' = es[j := edge_set_epoch (es ! i) ep, i := EDGE_ZERO]"
proof -
  let ?e = "edge_set_epoch (es ! i) ep"
  let ?es = "es[i := ?e]"
  have i: "i < length es" using r by (auto simp: resize_insert_def ok_iff)
  have pi: "edge_present (es ! i)" "edge_epoch (es ! i) \<noteq> ep" using st by (simp_all add: stale_def)
  then have pe: "edge_present ?e" using ok i by (simp add: slots_ok_def edge_ok_key_present)
  then have uniq: "\<forall>k. count (keys_of ?es) k \<le> 1"
    using ok i pi by (simp add: slots_ok_def keys_of_update keys_of_mem)
  have "resize_probe ep i (IndexSequence fnv ec ?e) ?es = Ok (b, es')"
    using r i pi by (simp add: resize_insert_def Let_def)
  from resize_probe_ok [OF this] i obtain pre j post where
    seq: "slots_of fnv ec (es ! i) = pre @ j # post" and j: "j < length es"
    and pre: "\<forall>q\<in>set pre. q < length es \<and> edge_present (?es ! q) \<and> edge_epoch (?es ! q) = ep \<and>
      edge_key (?es ! q) \<noteq> edge_key (es ! i)"
    and out: "edge_present (?es ! j) \<and> edge_epoch (?es ! j) = ep \<and>
        edge_key (?es ! j) = edge_key (es ! i) \<and> \<not> b \<and> es' = ?es \<or>
      edge_present (?es ! j) \<and> edge_epoch (?es ! j) \<noteq> ep \<and> b \<and> es' = ?es[i := ?es ! j, j := ?e] \<or>
      \<not> edge_present (?es ! j) \<and> \<not> b \<and> es' = ?es[j := ?e, i := EDGE_ZERO]"
    by (auto simp flip: slots_of_def)
  have "i \<notin> set pre" using pre i by auto
  then have pre': "\<forall>q\<in>set pre. q < length es \<and> edge_present (es ! q) \<and> edge_epoch (es ! q) = ep"
    using pre by (metis nth_list_update_neq)
  show thesis
  proof (cases "j = i")
    case True
    with out i pe have "\<not> b" "es' = ?es" by auto
    with True show thesis by (intro that [OF seq j pre']) simp
  next
    case False
    then have "\<not> (edge_present (?es ! j) \<and> edge_epoch (?es ! j) = ep \<and> edge_key (?es ! j) = edge_key (es ! i))"
      using keys_unique [OF uniq, of j i] i j pe by auto
    with False out show thesis
      by (intro that [OF seq j pre']) (auto simp: stale_def list_update_swap)
  qed
qed

lemma resize_moved_ok:
  assumes ok: "slots_ok fnv ec ep es" and st: "stale ep (es ! i)" and i: "i < length es"
    and seq: "slots_of fnv ec (es ! i) = pre @ j # post" and j: "j < length es"
    and pre: "\<forall>q\<in>set pre. q < length es \<and> edge_present (es ! q) \<and> edge_epoch (es ! q) = ep"
    and out: "j = i \<and> \<not> b \<and> es' = es[i := edge_set_epoch (es ! i) ep] \<or>
      j \<noteq> i \<and> stale ep (es ! j) \<and> b \<and> es' = es[i := es ! j, j := edge_set_epoch (es ! i) ep] \<or>
      j \<noteq> i \<and> \<not> edge_present (es ! j) \<and> \<not> b \<and> es' = es[j := edge_set_epoch (es ! i) ep, i := EDGE_ZERO]"
  shows "slots_ok fnv ec ep es'" and "keys_of es' = keys_of es" and "length es' = length es"
    and "\<not> b \<Longrightarrow> \<not> stale ep (es' ! i)"
    and "p \<noteq> i \<Longrightarrow> p < length es \<Longrightarrow> \<not> stale ep (es ! p) \<Longrightarrow> \<not> stale ep (es' ! p)"
proof -
  let ?e = "edge_set_epoch (es ! i) ep"
  have pi: "edge_present (es ! i)" "edge_epoch (es ! i) \<noteq> ep" using st by (simp_all add: stale_def)
  have eok: "edge_ok_key (es ! i)" using ok i pi by (simp add: slots_ok_def)
  then have pe: "edge_present ?e" by (simp add: edge_ok_key_present)
  have k1: "keys_of (es[i := ?e]) = keys_of es" using i pi pe by (simp add: keys_of_update keys_of_mem)
  then have "keys_of (es[i := es ! j, j := ?e]) = keys_of es" if "j \<noteq> i"
    using keys_of_swap [of i "es[i := ?e]" j] that i j by (simp add: list_update_swap)
  with k1 show keys: "keys_of es' = keys_of es"
    using out i j pi pe by (auto simp: keys_of_update keys_of_mem)
  show len: "length es' = length es" using out by auto
  have ok': "\<forall>e\<in>set es'. edge_present e \<longrightarrow> edge_ok_key e"
    using ok eok j out by (auto simp: slots_ok_def dest!: set_update_subset_insert [THEN subsetD])
  have at: "es' ! j = ?e" using out i j by auto
  show "slots_ok fnv ec ep es'"
  proof (rule slots_ok_settle [OF ok len _ pre])
    show "slots_of fnv ec (es' ! j) = pre @ j # post" using seq by (simp add: at)
    show "es' ! q = es ! q" if "q < length es" "edge_present (es ! q)" "edge_epoch (es ! q) = ep" for q
    proof -
      have "q \<noteq> i" and "j \<noteq> i \<longrightarrow> q \<noteq> j" using that out pi by (auto simp: stale_def)
      with out show ?thesis by auto
    qed
    show "es' ! q = es ! q" if "q < length es" "q \<noteq> j" "edge_present (es' ! q)" "edge_epoch (es' ! q) = ep" for q
      using that out i j by (auto simp: nth_list_update stale_def split: if_splits)
    show "\<forall>k. count (keys_of es') k \<le> 1" using ok by (simp add: keys slots_ok_def)
  qed (rule ok')
  show "\<not> b \<Longrightarrow> \<not> stale ep (es' ! i)" using out i j by (auto simp: stale_def nth_list_update)
  show "p \<noteq> i \<Longrightarrow> p < length es \<Longrightarrow> \<not> stale ep (es ! p) \<Longrightarrow> \<not> stale ep (es' ! p)"
    using out i j by (cases "p = j") (auto simp: stale_def)
qed

lemma resize_insert_ok:
  assumes ok: "slots_ok fnv ec ep es" and r: "resize_insert fnv ec ep i es = Ok (b, es')"
  shows "slots_ok fnv ec ep es'" and "keys_of es' = keys_of es" and "length es' = length es"
    and "\<not> b \<Longrightarrow> \<not> stale ep (es' ! i)" and "i < length es"
    and "\<And>p. p \<noteq> i \<Longrightarrow> p < length es \<Longrightarrow> \<not> stale ep (es ! p) \<Longrightarrow> \<not> stale ep (es' ! p)"
proof -
  have i: "i < length es" using r by (auto simp: resize_insert_def ok_iff)
  have all: "slots_ok fnv ec ep es' \<and> keys_of es' = keys_of es \<and> length es' = length es \<and>
      (\<not> b \<longrightarrow> \<not> stale ep (es' ! i)) \<and>
      (\<forall>p. p \<noteq> i \<and> p < length es \<and> \<not> stale ep (es ! p) \<longrightarrow> \<not> stale ep (es' ! p))"
  proof (cases "stale ep (es ! i)")
    case False
    then have "b = False" "es' = es"
      using r i by (auto simp: resize_insert_def Let_def stale_def)
    with ok False show ?thesis by simp
  next
    case True
    from resize_insert_slot [OF ok r True] obtain pre j post where
      "slots_of fnv ec (es ! i) = pre @ j # post" "j < length es"
      "\<forall>q\<in>set pre. q < length es \<and> edge_present (es ! q) \<and> edge_epoch (es ! q) = ep"
      "j = i \<and> \<not> b \<and> es' = es[i := edge_set_epoch (es ! i) ep] \<or>
       j \<noteq> i \<and> stale ep (es ! j) \<and> b \<and> es' = es[i := es ! j, j := edge_set_epoch (es ! i) ep] \<or>
       j \<noteq> i \<and> \<not> edge_present (es ! j) \<and> \<not> b \<and> es' = es[j := edge_set_epoch (es ! i) ep, i := EDGE_ZERO]" .
    note moved = resize_moved_ok [OF ok True i this]
    then show ?thesis by blast
  qed
  show "slots_ok fnv ec ep es'" and "keys_of es' = keys_of es" and "length es' = length es"
    and "\<not> b \<Longrightarrow> \<not> stale ep (es' ! i)" and "i < length es"
    and "\<And>p. p \<noteq> i \<Longrightarrow> p < length es \<Longrightarrow> \<not> stale ep (es ! p) \<Longrightarrow> \<not> stale ep (es' ! p)"
    using all i by simp_all
qed

lemma resize_slot_ok:
  assumes "resize_slot fnv ec ep i es = Ok es'" and "slots_ok fnv ec ep es"
  shows "slots_ok fnv ec ep es' \<and> keys_of es' = keys_of es \<and> length es' = length es \<and>
    \<not> stale ep (es' ! i) \<and>
    (\<forall>p. p \<noteq> i \<and> p < length es \<and> \<not> stale ep (es ! p) \<longrightarrow> \<not> stale ep (es' ! p))"
  using assms
proof (induction fnv ec ep i es rule: resize_slot.induct)
  case (1 fnv ec ep i es)
  from "1.prems"(1) obtain b es1 where r: "resize_insert fnv ec ep i es = Ok (b, es1)"
    and rest: "(if b then resize_slot fnv ec ep i es1 else Ok es1) = Ok es'"
    by (subst (asm) resize_slot.simps) (auto simp: ok_iff)
  note o = resize_insert_ok [OF "1.prems"(2) r]
  show ?case
  proof (cases b)
    case True
    with rest have "resize_slot fnv ec ep i es1 = Ok es'" by simp
    from "1.IH" [OF r refl True this o(1)] o show ?thesis by simp
  next
    case False
    with rest o show ?thesis by simp
  qed
qed

text \<open>The pass over the old part of the table leaves no edge of the old epoch.\<close>

lemma rehash_all:
  assumes "for_each (resize_slot fnv ec ep) [0..<n] es = Ok es'" and "slots_ok fnv ec ep es"
    and "n \<le> length es" and "\<And>p. n \<le> p \<Longrightarrow> p < length es \<Longrightarrow> \<not> stale ep (es ! p)"
  shows "slots_ok fnv ec ep es' \<and> keys_of es' = keys_of es \<and> length es' = length es \<and>
    (\<forall>p<length es. \<not> stale ep (es' ! p))"
proof -
  have "slots_ok fnv ec ep es' \<and> keys_of es' = keys_of es \<and> length es' = length es \<and>
      (\<forall>p<length es. p < m \<or> n \<le> p \<longrightarrow> \<not> stale ep (es' ! p))"
    if "for_each (resize_slot fnv ec ep) [0..<m] es = Ok es'" "m \<le> n" for m es'
    using that
  proof (induction m arbitrary: es')
    case 0
    with assms(2,4) show ?case by simp
  next
    case (Suc m)
    from Suc.prems(1) obtain es1 where 1: "for_each (resize_slot fnv ec ep) [0..<m] es = Ok es1"
      and 2: "resize_slot fnv ec ep m es1 = Ok es'"
      by (auto simp: for_each_append ok_iff)
    note ih = Suc.IH [OF 1 Suc_leD [OF Suc.prems(2)]]
    with resize_slot_ok [OF 2] show ?case by (auto simp: less_Suc_eq)
  qed
  from this [OF assms(1) order_refl] show ?thesis by (auto simp: not_less)
qed

section \<open>The set as a whole\<close>

text \<open>
  The state between two calls: a power-of-two table with one settled copy of every key, all of
  the current epoch, the count of them, and the threshold of three quarters.
\<close>

definition hs_inv :: "(bytes \<Rightarrow> u64) \<Rightarrow> edge_hash_set \<Rightarrow> bool" where
  "hs_inv fnv hs \<longleftrightarrow>
     (\<exists>es. hs_edges hs = Some es \<and> length es = unat (edge_count hs) \<and>
       slots_ok fnv (edge_count hs) (hs_epoch hs) es \<and>
       (\<forall>e\<in>set es. \<not> stale (hs_epoch hs) e) \<and>
       unat (inserted_edges hs) = size (keys_of es)) \<and>
     (\<exists>k. edge_count hs = push_bit k 1 \<and> k < 59) \<and>
     resize_threshold hs = (edge_count hs * 3) div 4 \<and>
     inserted_edges hs \<le> resize_threshold hs"

text \<open>What the set stands for: the pairs of a trace site and a value.\<close>

definition hs_keys :: "edge_hash_set \<Rightarrow> (u64 \<times> u64) set" where
  "hs_keys hs = set_mset (keys_of (slots hs))"

text \<open>\<open>ftruncate\<close> takes a signed size: it refuses sizes of \<open>2 ^ 63\<close> and more.\<close>

definition off_t_limit :: "(u64 \<Rightarrow> bool) \<Rightarrow> bool" where
  "off_t_limit truncate_ok \<longleftrightarrow> (\<forall>n. truncate_ok n \<longrightarrow> unat n < 2 ^ 63)"

lemma unat_pow2: "k < 64 \<Longrightarrow> unat (push_bit k 1 :: u64) = 2 ^ k"
  by (simp add: push_bit_eq_mult unat_of_nat_small [of "2 ^ k", simplified])

lemma keys_of_append_zero: "keys_of (es @ replicate n EDGE_ZERO) = keys_of es"
  by (simp add: keys_of_def filter_mset_eq_conv)

lemma unat_threshold:
  assumes "k < 59"
  shows "unat ((push_bit k 1 * 3) div 4 :: u64) = 3 * 2 ^ k div 4"
proof -
  have "(2::nat) ^ k \<le> 2 ^ 58" using assms by (intro power_increasing) simp_all
  then have "unat (push_bit k 1 * 3 :: u64) = 3 * 2 ^ k"
    using assms by (simp only: unat_word_ariths unat_pow2) simp
  then show ?thesis by (simp only: unat_div) simp
qed

text \<open>The rehash into a table of twice the size, whose epoch is the other one.\<close>

lemma rehash_doubled:
  assumes "slots_ok fnv ec ep es" and "\<forall>e\<in>set es. \<not> stale ep e"
    and run: "for_each (resize_slot fnv ec' (\<not> ep)) [0..<length es] (es @ replicate (length es) EDGE_ZERO) = Ok es'"
  shows "slots_ok fnv ec' (\<not> ep) es'" and "keys_of es' = keys_of es" and "length es' = 2 * length es"
    and "\<forall>e\<in>set es'. \<not> stale (\<not> ep) e"
proof -
  let ?es0 = "es @ replicate (length es) EDGE_ZERO"
  have keys: "keys_of ?es0 = keys_of es" by (rule keys_of_append_zero)
  have "\<not> (edge_present e \<and> edge_epoch e = (\<not> ep))" if "e \<in> set ?es0" for e
    using that assms(2) by (auto simp: stale_def)
  then have "\<not> (edge_present (?es0 ! p) \<and> edge_epoch (?es0 ! p) = (\<not> ep))" if "p < length ?es0" for p
    using nth_mem [OF that] by blast
  moreover have "\<forall>e\<in>set ?es0. edge_present e \<longrightarrow> edge_ok_key e" using assms(1) by (auto simp: slots_ok_def)
  ultimately have "slots_ok fnv ec' (\<not> ep) ?es0"
    using assms(1) unfolding slots_ok_def keys by blast
  moreover have "\<not> stale (\<not> ep) (?es0 ! p)" if "length es \<le> p" "p < length ?es0" for p
    using that by (simp add: nth_append stale_def)
  ultimately have out: "slots_ok fnv ec' (\<not> ep) es' \<and> keys_of es' = keys_of ?es0 \<and> length es' = length ?es0 \<and>
      (\<forall>p<length ?es0. \<not> stale (\<not> ep) (es' ! p))"
    by (intro rehash_all [OF run]) auto
  then show "slots_ok fnv ec' (\<not> ep) es'" "keys_of es' = keys_of es" "length es' = 2 * length es"
      "\<forall>e\<in>set es'. \<not> stale (\<not> ep) e"
    using keys by (auto simp: in_set_conv_nth)
qed

lemma increase_size_ok:
  assumes inv: "hs_inv fnv hs" and lim: "off_t_limit truncate_ok"
    and r: "increase_size fnv truncate_ok hs = Ok hs'"
  shows "hs_inv fnv hs'" and "hs_keys hs' = hs_keys hs" and "is_ready hs'"
    and "inserted_edges hs' < resize_threshold hs'"
proof -
  let ?ep = "\<not> hs_epoch hs" and ?ec = "edge_count hs * 2"
  obtain es k where es: "hs_edges hs = Some es" "length es = unat (edge_count hs)"
    "slots_ok fnv (edge_count hs) (hs_epoch hs) es" "\<forall>e\<in>set es. \<not> stale (hs_epoch hs) e"
    "unat (inserted_edges hs) = size (keys_of es)" and k: "edge_count hs = push_bit k 1" "k < 59"
    and th: "resize_threshold hs = (edge_count hs * 3) div 4"
    "inserted_edges hs \<le> resize_threshold hs"
    using inv by (auto simp: hs_inv_def)
  have ec: "?ec = push_bit (Suc k) 1" by (simp add: k push_bit_eq_mult)
  have tr: "truncate_ok (edge_size ?ec)" using r by (auto simp: increase_size_def ok_iff Let_def)
  have k1: "Suc k < 59"
  proof (rule ccontr)
    assume "\<not> Suc k < 59"
    with k have "k = 58" by simp
    then have "unat (edge_size ?ec) = 2 ^ 63" by (simp add: edge_size_def k push_bit_eq_mult)
    with lim tr show False by (auto simp: off_t_limit_def)
  qed
  have uec: "unat ?ec = 2 ^ Suc k" unfolding ec by (rule unat_pow2) (use k1 in simp)
  have len: "length es = 2 ^ k" unfolding es(2) k(1) by (rule unat_pow2) (use k in simp)
  obtain es' where run: "for_each (resize_slot fnv ?ec ?ep) [0..<length es]
      (es @ replicate (length es) EDGE_ZERO) = Ok es'"
    and hs': "hs' = update_resize_threshold (hs\<lparr>hs_epoch := ?ep, edge_count := ?ec, hs_edges := Some es'\<rparr>)"
    using r es(2) by (auto simp: increase_size_def ok_iff Let_def slots_def es(1) uec len)
  note out = rehash_doubled [OF es(3,4) run]
  have t1: "resize_threshold hs' = (?ec * 3) div 4" by (simp add: hs' update_resize_threshold_def)
  have "unat (resize_threshold hs) = 3 * 2 ^ k div 4"
    unfolding th(1) k(1) by (rule unat_threshold [OF k(2)])
  moreover have "unat (resize_threshold hs') = 3 * 2 ^ Suc k div 4"
    unfolding t1 ec by (rule unat_threshold [OF k1])
  ultimately have u: "unat (resize_threshold hs) = 3 * 2 ^ k div 4"
    "unat (resize_threshold hs') = 3 * 2 ^ Suc k div 4" .
  have "unat (inserted_edges hs) \<le> 3 * 2 ^ k div 4" using th(2) u by (simp add: word_le_nat_alt)
  also have "\<dots> < 3 * 2 ^ Suc k div 4"
  proof -
    have "3 * x div 4 < 3 * (2 * x) div 4" if "1 \<le> x" for x :: nat using that by presburger
    from this [of "2 ^ k"] show ?thesis by simp
  qed
  finally show lt: "inserted_edges hs' < resize_threshold hs'"
    using u by (simp add: word_less_nat_alt hs' update_resize_threshold_def)
  show "is_ready hs'" by (simp add: hs' update_resize_threshold_def is_ready_def)
  show "hs_keys hs' = hs_keys hs"
    using out es(1) by (simp add: hs_keys_def slots_def hs' update_resize_threshold_def)
  have "length es' = unat ?ec" using out(3) by (simp add: uec len)
  then show "hs_inv fnv hs'"
    using out es(5) ec k1 t1 lt unfolding hs_inv_def
    by (auto simp: hs' update_resize_threshold_def intro!: exI [of _ "Suc k"])
qed

text \<open>A settled edge is found before an empty slot.\<close>

lemma settled_found:
  assumes "pre' @ p # post' = pre @ j # post" and "\<forall>q\<in>set pre'. P q" and "P p" and "\<not> P j"
  shows "p \<in> set pre"
  using assms
proof (induction pre' arbitrary: pre)
  case Nil
  then show ?case by (cases pre) auto
next
  case (Cons x xs)
  then show ?case by (cases pre) auto
qed

lemma absent_key:
  assumes ok: "slots_ok fnv ec ep es" and fresh: "\<forall>e\<in>set es. \<not> stale ep e"
    and seq: "slots_of fnv ec e = pre @ j # post"
    and pre: "\<forall>q\<in>set pre. q < length es \<and> edge_present (es ! q) \<and> edge_key (es ! q) \<noteq> edge_key e"
    and ab: "\<not> edge_present (es ! j)"
  shows "edge_key e \<notin># keys_of es"
proof
  assume "edge_key e \<in># keys_of es"
  then obtain p where p: "p < length es" "edge_present (es ! p)" "edge_key (es ! p) = edge_key e"
    by (auto simp: keys_of_def in_set_conv_nth)
  have "edge_epoch (es ! p) = ep" using fresh p by (auto simp: stale_def)
  with ok p obtain pre' post' where
    "slots_of fnv ec (es ! p) = pre' @ p # post'" "\<forall>q\<in>set pre'. edge_present (es ! q)"
    by (auto simp: slots_ok_def settled_def)
  with seq slots_of_key [OF p(3)] have "p \<in> set pre"
    using settled_found [of pre' p post' pre j post "\<lambda>q. edge_present (es ! q)"] p ab by auto
  with pre p show False by auto
qed

lemma put_edge_ok:
  assumes ok: "slots_ok fnv ec ep es" and fresh: "\<forall>e\<in>set es. \<not> stale ep e" and e: "edge_ok_key e"
    and seq: "slots_of fnv ec e = pre @ j # post"
    and pre: "\<forall>q\<in>set pre. q < length es \<and> edge_present (es ! q) \<and> edge_key (es ! q) \<noteq> edge_key e"
    and j: "j < length es" and ab: "\<not> edge_present (es ! j)"
  defines "es' \<equiv> es[j := edge_set_epoch e ep]"
  shows "keys_of es' = keys_of es + {#edge_key e#}" and "slots_ok fnv ec ep es'" and "\<forall>x\<in>set es'. \<not> stale ep x"
proof -
  have pe: "edge_present (edge_set_epoch e ep)" using e by (simp add: edge_ok_key_present)
  show keys: "keys_of es' = keys_of es + {#edge_key e#}" using j ab pe by (simp add: es'_def keys_of_update)
  show "\<forall>x\<in>set es'. \<not> stale ep x"
    using fresh by (auto simp: es'_def stale_def dest: set_update_subset_insert [THEN subsetD])
  show "slots_ok fnv ec ep es'"
  proof (rule slots_ok_settle [OF ok])
    show "slots_of fnv ec (es' ! j) = pre @ j # post" using seq j by (simp add: es'_def)
    show "\<forall>q\<in>set pre. q < length es \<and> edge_present (es ! q) \<and> edge_epoch (es ! q) = ep"
      using pre fresh by (auto simp: stale_def)
    show "\<forall>k. count (keys_of es') k \<le> 1"
      using ok absent_key [OF ok fresh seq pre ab] by (auto simp: keys slots_ok_def count_eq_zero_iff)
    show "\<forall>x\<in>set es'. edge_present x \<longrightarrow> edge_ok_key x"
      using ok e by (auto simp: es'_def slots_ok_def dest: set_update_subset_insert [THEN subsetD])
    show "es' ! q = es ! q" if "q < length es" "edge_present (es ! q)" for q
      using that ab by (cases "q = j") (auto simp: es'_def)
  qed (simp_all add: es'_def)
qed

lemma add_edge_ok:
  assumes inv: "hs_inv fnv hs" and lim: "off_t_limit truncate_ok" and e: "edge_ok_key e"
    and r: "add_edge fnv truncate_ok e hs = Ok (b, hs')"
  shows "hs_inv fnv hs'" and "hs_keys hs' = insert (edge_key e) (hs_keys hs)"
    and "b = (edge_key e \<notin> hs_keys hs)"
proof -
  have rdy: "is_ready hs" using inv by (auto simp: hs_inv_def is_ready_def)
  obtain hs1 dst where
    grow: "(if inserted_edges hs \<ge> resize_threshold hs
          then try_r (increase_size fnv truncate_ok hs) (\<lambda>hs'.
                 assert_r (inserted_edges hs' < resize_threshold hs') (Ok hs'))
          else Ok hs) = Ok hs1"
    and pr: "add_probe (edge_set_epoch e (hs_epoch hs1))
        (IndexSequence fnv (edge_count hs1) (edge_set_epoch e (hs_epoch hs1))) (slots hs1) = Ok dst"
    and res: "(case dst of None \<Rightarrow> (False, hs1)
       | Some j \<Rightarrow> (True, hs1\<lparr>inserted_edges := inserted_edges hs1 + 1,
           hs_edges := Some ((slots hs1)[j := edge_set_epoch e (hs_epoch hs1)])\<rparr>)) = (b, hs')"
    using r rdy by (auto simp: add_edge_def ok_iff Let_def split: option.splits)
  have i1: "hs_inv fnv hs1" and k1: "hs_keys hs1 = hs_keys hs"
    and lt: "inserted_edges hs1 < resize_threshold hs1"
    using grow inv increase_size_ok [OF inv lim] by (auto simp: ok_iff split: if_splits)
  let ?e = "edge_set_epoch e (hs_epoch hs1)"
  obtain es k where es: "hs_edges hs1 = Some es" "length es = unat (edge_count hs1)"
    "slots_ok fnv (edge_count hs1) (hs_epoch hs1) es" "\<forall>e\<in>set es. \<not> stale (hs_epoch hs1) e"
    "unat (inserted_edges hs1) = size (keys_of es)" and k: "edge_count hs1 = push_bit k 1" "k < 59"
    and th: "resize_threshold hs1 = (edge_count hs1 * 3) div 4"
    using i1 by (auto simp: hs_inv_def)
  have sl: "slots hs1 = es" by (simp add: slots_def es)
  from add_probe_ok [OF pr, unfolded sl key_set_epoch] obtain pre j post where
    seq: "slots_of fnv (edge_count hs1) e = pre @ j # post" and j: "j < length es"
    and pre: "\<forall>q\<in>set pre. q < length es \<and> edge_present (es ! q) \<and> edge_key (es ! q) \<noteq> edge_key e"
    and out: "case dst of None \<Rightarrow> edge_present (es ! j) \<and> edge_key (es ! j) = edge_key e
       | Some m \<Rightarrow> m = j \<and> \<not> edge_present (es ! j)"
    by (auto simp flip: slots_of_def)
  have all: "hs_inv fnv hs' \<and> hs_keys hs' = insert (edge_key e) (hs_keys hs) \<and>
      b = (edge_key e \<notin> hs_keys hs)"
  proof (cases dst)
    case None
    with out keys_of_mem [OF j] have "edge_key e \<in> hs_keys hs1" by (simp add: hs_keys_def sl)
    with None res i1 k1 show ?thesis by (auto simp: insert_absorb)
  next
    case (Some m)
    with out have m: "m = j" and ab: "\<not> edge_present (es ! j)" by auto
    let ?es = "es[j := ?e]"
    note new = absent_key [OF es(3,4) seq pre ab] and put = put_edge_ok [OF es(3,4) e seq pre j ab]
    note keys = put(1) and so = put(2) and st = put(3)
    have cnt: "unat (inserted_edges hs1 + 1) = size (keys_of ?es)"
      using lt es(5) unat_lt_size [of "resize_threshold hs1"]
      by (subst unat_suc_small) (auto simp: keys word_less_nat_alt)
    have le: "inserted_edges hs1 + 1 \<le> resize_threshold hs1" using lt by (rule inc_le)
    have hs': "hs' = hs1\<lparr>inserted_edges := inserted_edges hs1 + 1, hs_edges := Some ?es\<rparr>" and "b = True"
      using res Some m sl by auto
    moreover have "hs_inv fnv hs'"
      using so st cnt le es(2) k th unfolding hs_inv_def hs' by auto
    moreover have "hs_keys hs' = insert (edge_key e) (hs_keys hs1)"
      by (simp add: hs_keys_def slots_def hs' es keys)
    moreover have "edge_key e \<notin> hs_keys hs1" using new by (simp add: hs_keys_def sl)
    ultimately show ?thesis using k1 by simp
  qed
  then show "hs_inv fnv hs'" and "hs_keys hs' = insert (edge_key e) (hs_keys hs)"
    and "b = (edge_key e \<notin> hs_keys hs)" by simp_all
qed


section \<open>The contract of the set\<close>

interpretation hash_set: edge_store "add_edge fnv truncate_ok" hs_keys
    "\<lambda>hs. hs_inv fnv hs \<and> off_t_limit truncate_ok"
  for fnv :: "bytes \<Rightarrow> u64" and truncate_ok :: "u64 \<Rightarrow> bool"
proof unfold_locales
  fix s e b s'
  assume "hs_inv fnv s \<and> off_t_limit truncate_ok" and "edge_ok_key e"
    and "add_edge fnv truncate_ok e s = Ok (b, s')"
  then show "hs_inv fnv s' \<and> off_t_limit truncate_ok"
    and "hs_keys s' = insert (edge_key e) (hs_keys s)" and "b = (edge_key e \<notin> hs_keys s)"
    using add_edge_ok [of fnv s truncate_ok e b s'] by blast+
qed

text \<open>
  C5. \<open>add_edge\<close> behaves as insertion into a mathematical set of (trace site, value) pairs, whatever
  the hash function does and whether or not the call grows and rehashes the table: it reports an
  addition exactly when the pair was not there, afterwards the set has that pair and all earlier
  ones, and the table is well-formed again (one copy of each key, each reachable by its probe
  sequence, a correct count, load at most three quarters).
\<close>

theorem add_edge_set:
  assumes "hs_inv fnv hs" and "off_t_limit truncate_ok" and "edge_ok_key e"
    and "add_edge fnv truncate_ok e hs = Ok (b, hs')"
  shows "hs_inv fnv hs' \<and> hs_keys hs' = insert (edge_key e) (hs_keys hs) \<and>
    b = (edge_key e \<notin> hs_keys hs)"
  using assms by (simp add: hash_set.add_inv [of fnv hs truncate_ok e b hs'] hash_set.add_keys
      hash_set.add_new)

lemma init_inv:
  assumes "EdgeHashSet_init truncate_ok base n = Ok hs" and "n < 31"
  shows "hs_inv fnv hs" and "hs_keys hs = {}"
proof -
  have hs: "hs = update_resize_threshold
      \<lparr>edge_count = push_bit n 1, inserted_edges = 0, resize_threshold = 0,
       hs_edges = Some (replicate (unat (push_bit n 1 :: u64)) EDGE_ZERO), hs_epoch = False\<rparr>"
    using assms(1) by (simp add: EdgeHashSet_init_def Let_def ok_iff del: push_bit_of_1)
  have k: "keys_of (replicate m EDGE_ZERO) = {#}" for m
    using keys_of_append_zero [of "[]" m] by (simp add: keys_of_def)
  show "hs_keys hs = {}" by (simp add: hs update_resize_threshold_def hs_keys_def slots_def k)
  have "slots_ok fnv (push_bit n 1) False (replicate m EDGE_ZERO)" for m
    by (auto simp: slots_ok_def k)
  with assms(2) show "hs_inv fnv hs"
    unfolding hs_inv_def
    by (auto simp: hs update_resize_threshold_def k stale_def
        simp del: push_bit_of_1 intro!: exI [of _ n])
qed

lemma table_contents:
  assumes "EdgeHashSet_init truncate_ok base n = Ok hs0" and "n < 31" and "off_t_limit truncate_ok"
    and "\<forall>e\<in>set es. edge_ok_key e"
    and "for_each (\<lambda>e s. try_r (add_edge fnv truncate_ok e s) (\<lambda>(_, s). Ok s)) es hs0 = Ok hs"
  shows "mset (map edge_key (filter edge_present (slots hs))) = mset_set (edge_key ` set es) \<and>
    (\<forall>e\<in>set (slots hs). edge_present e \<longrightarrow> edge_epoch e = hs_epoch hs) \<and>
    unat (inserted_edges hs) = card (edge_key ` set es)"
proof -
  have "hs_inv fnv hs0 \<and> off_t_limit truncate_ok" "hs_keys hs0 = {}"
    using init_inv [OF assms(1,2)] assms(3) by simp_all
  with hash_set.add_all [OF assms(5) _ assms(4)]
  have inv: "hs_inv fnv hs" and keys: "set_mset (keys_of (slots hs)) = edge_key ` set es"
    by (simp_all add: hs_keys_def)
  from inv have one: "\<forall>k. count (keys_of (slots hs)) k \<le> 1"
    and st: "\<forall>e\<in>set (slots hs). \<not> stale (hs_epoch hs) e"
    and cnt: "unat (inserted_edges hs) = size (keys_of (slots hs))"
    by (auto simp: hs_inv_def slots_def slots_ok_def)
  have eq: "keys_of (slots hs) = mset_set (edge_key ` set es)"
  proof (rule multiset_eqI)
    fix k
    show "count (keys_of (slots hs)) k = count (mset_set (edge_key ` set es)) k"
    proof (cases "k \<in> edge_key ` set es")
      case True
      then have "0 < count (keys_of (slots hs)) k" using keys by simp
      with one have "count (keys_of (slots hs)) k = 1" by (metis One_nat_def Suc_leI le_antisym)
      with True show ?thesis by simp
    next
      case False
      then have "count (keys_of (slots hs)) k = 0" using keys by (simp add: count_eq_zero_iff)
      with False show ?thesis by simp
    qed
  qed
  then show ?thesis
    using st cnt by (auto simp: keys_of_def stale_def simp flip: mset_filter)
qed

text \<open>
  C7. From a fresh set, any sequence of additions that does not abort leaves in the mapped file exactly
  the distinct edges given, each once and each tagged with the current epoch, and nothing else but
  zero slots; the counter is their number.
\<close>

theorem trace_file_contents:
  assumes "EdgeHashSet_init truncate_ok base n = Ok hs0" and "n < 31" and "off_t_limit truncate_ok"
    and "\<forall>e\<in>set es. edge_ok_key e"
    and "for_each (\<lambda>e s. try_r (add_edge fnv truncate_ok e s) (\<lambda>(_, s). Ok s)) es hs0 = Ok hs"
  shows "mset (map edge_key (filter edge_present (slots hs))) = mset_set (edge_key ` set es) \<and>
    (\<forall>e\<in>set (slots hs). edge_present e \<longrightarrow> edge_epoch e = hs_epoch hs) \<and>
    unat (inserted_edges hs) = card (edge_key ` set es)"
  using assms by (rule table_contents)

subsection \<open>An example\<close>

text \<open>Two slots, a constant hash: the third edge makes the table grow to four slots.\<close>

definition ex_te :: "u64 \<Rightarrow> trace_edge" where
  "ex_te v = \<lparr>trace_site = 2, te_value = v\<rparr>"

definition ex_hs0 :: edge_hash_set where
  "ex_hs0 = \<lparr>edge_count = 2, inserted_edges = 0, resize_threshold = 1,
     hs_edges = Some [EDGE_ZERO, EDGE_ZERO], hs_epoch = False\<rparr>"

lemma replicate_two: "replicate 2 x = [x, x]"
  by (simp add: numeral_2_eq_2)

lemma ex_init: "EdgeHashSet_init (\<lambda>n. n \<le> 64) (Some ''/tmp'') 1 = Ok ex_hs0"
  by (simp add: EdgeHashSet_init_def update_resize_threshold_def ex_hs0_def edge_size_def
      replicate_two)

lemma ex_limit: "off_t_limit (\<lambda>n. n \<le> 64)"
  by (auto simp: off_t_limit_def word_le_nat_alt)

lemma ex_te_ok: "edge_ok_key (ex_te v)"
  by (simp add: edge_ok_key_def edge_key_def ex_te_def)

definition ex_hs1 :: edge_hash_set where
  "ex_hs1 = ex_hs0\<lparr>inserted_edges := 1, hs_edges := Some [EDGE_ZERO, ex_te 5]\<rparr>"

lemma ex_add1: "add_edge (\<lambda>_. 0) (\<lambda>n. n \<le> 64) (ex_te 5) ex_hs0 = Ok (True, ex_hs1)"
  by (simp add: add_edge_def ex_hs0_def ex_hs1_def ex_te_def is_ready_def edge_epoch_def slots_def
      edge_set_epoch_def add_probe.simps IndexSequence_def next_index_def edge_hash_def
      EDGE_ZERO_def edge_present_def Let_def)

definition ex_hs2 :: edge_hash_set where
  "ex_hs2 = \<lparr>edge_count = 4, inserted_edges = 1, resize_threshold = 3,
     hs_edges = Some [EDGE_ZERO, edge_set_epoch (ex_te 5) True, EDGE_ZERO, EDGE_ZERO],
     hs_epoch = True\<rparr>"

lemma ex_grow: "increase_size (\<lambda>_. 0) (\<lambda>n. n \<le> 64) ex_hs1 = Ok ex_hs2"
  by (simp add: increase_size_def ex_hs0_def ex_hs1_def ex_hs2_def ex_te_def slots_def replicate_two
      upt_rec edge_size_def resize_slot.simps resize_insert_def resize_probe.simps edge_epoch_def
      edge_set_epoch_def IndexSequence_def next_index_def edge_hash_def EDGE_ZERO_def
      edge_present_def edge_equal_def update_resize_threshold_def Let_def)

definition ex_hs3 :: edge_hash_set where
  "ex_hs3 = ex_hs2\<lparr>inserted_edges := 2, hs_edges := Some [edge_set_epoch (ex_te 6) True,
     edge_set_epoch (ex_te 5) True, EDGE_ZERO, EDGE_ZERO]\<rparr>"

lemma ex_add2: "add_edge (\<lambda>_. 0) (\<lambda>n. n \<le> 64) (ex_te 6) ex_hs1 = Ok (True, ex_hs3)"
proof -
  have 1: "is_ready ex_hs1" "\<not> edge_epoch (ex_te 6)" "resize_threshold ex_hs1 \<le> inserted_edges ex_hs1"
    "inserted_edges ex_hs2 < resize_threshold ex_hs2"
    by (simp_all add: ex_hs1_def ex_hs0_def ex_hs2_def is_ready_def edge_epoch_def ex_te_def)
  show ?thesis
    unfolding add_edge_def
    by (simp add: 1 ex_grow)
      (simp add: ex_hs2_def ex_hs3_def ex_te_def slots_def edge_set_epoch_def add_probe.simps
        IndexSequence_def next_index_def edge_hash_def EDGE_ZERO_def edge_present_def
        edge_equal_def murmur64_def Let_def)
qed

lemma ex_add3: "add_edge (\<lambda>_. 0) (\<lambda>n. n \<le> 64) (ex_te 5) ex_hs3 = Ok (False, ex_hs3)"
  by (simp add: add_edge_def ex_hs2_def ex_hs3_def ex_te_def slots_def edge_set_epoch_def
      add_probe.simps IndexSequence_def next_index_def edge_hash_def EDGE_ZERO_def
      edge_present_def edge_equal_def edge_epoch_def is_ready_def Let_def)

theorem add_edge_set_witness:
  "hs_inv (\<lambda>_. 0) ex_hs3 \<and> hs_keys ex_hs3 = insert (1, 6) (hs_keys ex_hs1) \<and>
   (1, 6) \<notin> hs_keys ex_hs1"
proof -
  have "hs_inv (\<lambda>_. 0) ex_hs0" using ex_init by (rule init_inv) simp
  then have "hs_inv (\<lambda>_. 0) ex_hs1" using ex_limit ex_te_ok ex_add1 by (rule add_edge_ok)
  from add_edge_set [OF this ex_limit ex_te_ok ex_add2] show ?thesis
    by (simp add: edge_key_def ex_te_def)
qed

theorem trace_file_contents_witness:
  "mset (map edge_key (filter edge_present (slots ex_hs3))) = {#(1, 5), (1, 6)#} \<and>
   unat (inserted_edges ex_hs3) = 2"
proof -
  have "for_each (\<lambda>e s. try_r (add_edge (\<lambda>_. 0) (\<lambda>n. n \<le> 64) e s) (\<lambda>(_, s). Ok s))
      [ex_te 5, ex_te 6, ex_te 5] ex_hs0 = Ok ex_hs3"
    by (simp add: ex_add1 ex_add2 ex_add3)
  from trace_file_contents [OF ex_init _ ex_limit _ this] show ?thesis
    by (simp add: ex_te_ok) (simp add: edge_key_def ex_te_def insert_commute)
qed

end
