(* ===== verification/Trace_Runtime.thy ===== *)
theory Trace_Runtime
  imports Elf_Segments Vhmalloc_Spec Edge_Hash_Set_Inv
begin

text \<open>
  \<open>src/Tracing/Runtime/trace_runtime.cpp\<close> and \<open>exports.cpp\<close>: the functions that instrumented code
  calls. They combine the segment cache, the tagging allocator and the edge hash set of a thread;
  the proofs use the allocator and the hash set only through their interpreted contracts.
\<close>

section \<open>State and environment\<close>

text \<open>
  What the runtime gets from outside: the FNV hash, the behaviour of \<open>ftruncate\<close>, the value of
  \<open>BRACELET_TRACE_DIR\<close>, and the libraries of \<open>Elf_Segments\<close>. The state is that of one thread:
  its heap, the loaded objects, the cached segments, and its edge buffer, a \<open>thread_local\<close> that is
  constructed when it is first used.
\<close>

record ('i, 'h) runtime_env =
  env_fnv :: "bytes \<Rightarrow> u64"
  env_truncate_ok :: "u64 \<Rightarrow> bool"
  env_trace_dir :: "string option"
  env_elf :: "('i, 'h) elf_lib"

record ('i, 'h) runtime =
  rt_heap :: vhm
  rt_objects :: "phdr_info list"
  rt_elf :: "('i, 'h) ElfSegments option"
  TL_BUFFER :: "edge_hash_set option"

section \<open>Tracing\<close>

definition value_to_maybe_node ::
  "('i, 'h) runtime_env \<Rightarrow> u64 \<Rightarrow> ('i, 'h) runtime \<Rightarrow> (u64 \<times> ('i, 'h) runtime) result" where
  "value_to_maybe_node env v st =
     try_r (pointerIsInElfSegment (env_elf env) (rt_objects st) v (rt_elf st)) (\<lambda>(in_elf, elf).
       let st = st\<lparr>rt_elf := elf\<rparr>
       in if in_elf then Ok (v, st)
          else try_r (PointerInfo_of (rt_heap st) v) (\<lambda>(tag, offset).
            if tag \<noteq> 0 then Ok (tag, st) else Ok (0, st)))"

definition tl_buffer :: "('i, 'h) runtime_env \<Rightarrow> ('i, 'h) runtime \<Rightarrow> edge_hash_set result" where
  "tl_buffer env st =
     (case TL_BUFFER st of
        Some hs \<Rightarrow> Ok hs
      | None \<Rightarrow> EdgeHashSet_init (env_truncate_ok env) (env_trace_dir env) 10)"

definition traceWord ::
  "('i, 'h) runtime_env \<Rightarrow> u64 \<Rightarrow> u64 \<Rightarrow> ('i, 'h) runtime \<Rightarrow> ('i, 'h) runtime result" where
  "traceWord env site v st =
     try_r (value_to_maybe_node env v st) (\<lambda>(v, st).
       if v \<noteq> 0 then
         try_r (tl_buffer env st) (\<lambda>hs.
           try_r (add_edge (env_fnv env) (env_truncate_ok env)
                   \<lparr>trace_site = site, te_value = v\<rparr> hs) (\<lambda>(_, hs).
             Ok (st\<lparr>TL_BUFFER := Some hs\<rparr>)))
       else Ok st)"

text \<open>The words that the loop of \<open>traceBuffer\<close> reads: it stops when \<open>idx + 8 < size\<close> fails.\<close>

function buffer_words :: "nat \<Rightarrow> bytes \<Rightarrow> u64 list" where
  "buffer_words idx buf =
     (if idx + 8 < length buf
      then read64 (take 8 (drop idx buf)) # buffer_words (idx + 8) buf else [])"
  by auto
termination by (relation "measure (\<lambda>(idx, buf). length buf - idx)") auto

declare buffer_words.simps [simp del]

definition traceBuffer ::
  "('i, 'h) runtime_env \<Rightarrow> u64 \<Rightarrow> bytes \<Rightarrow> ('i, 'h) runtime \<Rightarrow> ('i, 'h) runtime result" where
  "traceBuffer env site buf st = for_each (traceWord env site) (buffer_words 0 buf) st"

section \<open>Exported functions\<close>

text \<open>
  \<open>malloc\<close> and \<open>free\<close> are those of the allocator; where its memory comes from and the random
  choice are arguments, as in \<open>xxmalloc\<close>. \<open>dlopen\<close> first lets the system's own \<open>dlopen\<close> load
  objects, then rescans; \<open>dlclose\<close> does nothing.
\<close>

definition braceletTraceTagAllocation ::
  "u64 \<Rightarrow> u64 \<Rightarrow> ('i, 'h) runtime \<Rightarrow> ('i, 'h) runtime result" where
  "braceletTraceTagAllocation site ptr st =
     try_r (setTag ptr site (rt_heap st)) (\<lambda>h. Ok (st\<lparr>rt_heap := h\<rparr>))"

definition braceletTraceAllocaAllocate ::
  "u64 \<Rightarrow> nat \<Rightarrow> u64 \<Rightarrow> u64 \<Rightarrow> u64 \<Rightarrow> ('i, 'h) runtime \<Rightarrow> (u64 \<times> ('i, 'h) runtime) result" where
  "braceletTraceAllocaAllocate base rnd sys site sz st =
     try_r (xxmalloc base rnd sys sz (rt_heap st)) (\<lambda>(ptr, h).
       try_r (braceletTraceTagAllocation site ptr (st\<lparr>rt_heap := h\<rparr>)) (\<lambda>st. Ok (ptr, st)))"

definition braceletTraceAllocaFree :: "u64 \<Rightarrow> ('i, 'h) runtime \<Rightarrow> ('i, 'h) runtime result" where
  "braceletTraceAllocaFree ptr st = try_r (xxfree ptr (rt_heap st)) (\<lambda>h. Ok (st\<lparr>rt_heap := h\<rparr>))"

definition dlopen ::
  "('i, 'h) runtime_env \<Rightarrow> (phdr_info list \<Rightarrow> u64 \<times> phdr_info list) \<Rightarrow> ('i, 'h) runtime \<Rightarrow>
   (u64 \<times> ('i, 'h) runtime) result" where
  "dlopen env underlying st =
     (let (rc, objs) = underlying (rt_objects st)
      in try_r (rescan (env_elf env) objs (rt_elf st)) (\<lambda>elf.
           Ok (rc, st\<lparr>rt_objects := objs, rt_elf := elf\<rparr>)))"

definition dlclose :: "u64 \<Rightarrow> ('i, 'h) runtime \<Rightarrow> u64 \<times> ('i, 'h) runtime" where
  "dlclose handle st = (0, st)"

section \<open>The invariant\<close>

definition rt_keys :: "('i, 'h) runtime \<Rightarrow> (u64 \<times> u64) set" where
  "rt_keys st = (case TL_BUFFER st of None \<Rightarrow> {} | Some hs \<Rightarrow> hs_keys hs)"

definition cache_ok :: "('i, 'h) elf_lib \<Rightarrow> phdr_info list \<Rightarrow> ('i, 'h) ElfSegments option \<Rightarrow> bool" where
  "cache_ok lib objs elf \<longleftrightarrow> (\<forall>es. elf = Some es \<longrightarrow>
     points lib es = loaded objs \<and> segments_hash es = xxh3_128 lib (hash_input (load_ranges objs)))"

definition rt_inv :: "('i, 'h) runtime_env \<Rightarrow> ('i, 'h) runtime \<Rightarrow> bool" where
  "rt_inv env st \<longleftrightarrow> vh_inv (rt_heap st) \<and> off_t_limit (env_truncate_ok env) \<and>
     (\<forall>hs. TL_BUFFER st = Some hs \<longrightarrow> hs_inv (env_fnv env) hs) \<and>
     cache_ok (env_elf env) (rt_objects st) (rt_elf st)"

text \<open>What a traced word means: an address in a loaded segment stands for itself, an address in
  an allocation for the tag of the allocation, anything else for nothing.\<close>

definition node_of :: "('i, 'h) runtime \<Rightarrow> u64 \<Rightarrow> u64" where
  "node_of st v = (if v \<noteq> - 1 \<and> v \<in> loaded (rt_objects st) then v else vh.tag_at (rt_heap st) v)"

definition word_keys :: "('i, 'h) runtime \<Rightarrow> u64 \<Rightarrow> u64 list \<Rightarrow> (u64 \<times> u64) set" where
  "word_keys st site vs = {(drop_bit 1 site, node_of st v) | v. v \<in> set vs \<and> node_of st v \<noteq> 0}"

text \<open>Tracing changes the buffer and the segment cache only.\<close>

definition same_memory :: "('i, 'h) runtime \<Rightarrow> ('i, 'h) runtime \<Rightarrow> bool" where
  "same_memory st st' \<longleftrightarrow> rt_heap st' = rt_heap st \<and> rt_objects st' = rt_objects st"


lemma rescan_ok:
  assumes icl: "icl_ok lib" and c: "cache_ok lib objs elf" and r: "rescan lib objs' elf = Ok elf'"
    and cf: "collision_free lib {objs, objs'}"
  shows "cache_ok lib objs' elf'" and "elf' \<noteq> None"
proof -
  from r obtain new where sc: "scan_segments lib objs' = Ok new"
    and e: "elf' = Some new \<or> elf' = elf \<and> (\<exists>es. elf = Some es \<and> segments_hash new = segments_hash es)"
    by (auto simp: rescan_def ok_iff split: option.splits if_splits)
  note n = scan_segments_ok [OF icl sc]
  show "elf' \<noteq> None" using e by auto
  from e show "cache_ok lib objs' elf'"
  proof
    assume "elf' = Some new"
    then show ?thesis using n by (simp add: cache_ok_def)
  next
    assume "elf' = elf \<and> (\<exists>es. elf = Some es \<and> segments_hash new = segments_hash es)"
    then obtain es where es: "elf' = Some es" "elf = Some es" "segments_hash new = segments_hash es" by blast
    have o1: "points lib es = loaded objs" "segments_hash es = xxh3_128 lib (hash_input (load_ranges objs))"
      using c es(2) by (simp_all add: cache_ok_def)
    have "xxh3_128 lib (hash_input (load_ranges objs)) = xxh3_128 lib (hash_input (load_ranges objs'))"
      by (simp only: o1(2) [symmetric] n(2) [symmetric] es(3))
    then have "hash_input (load_ranges objs) = hash_input (load_ranges objs')"
      using cf unfolding collision_free_def by blast
    then have "loaded objs = loaded objs'" by (rule loaded_eqI [OF hash_input_inj])
    with o1(1) n(2) es show ?thesis by (simp add: cache_ok_def)
  qed
qed

lemma lookup_ok:
  assumes icl: "icl_ok lib" and c: "cache_ok lib objs elf"
    and r: "pointerIsInElfSegment lib objs v elf = Ok (b, elf')"
  shows "b = (v \<noteq> - 1 \<and> v \<in> loaded objs)" and "cache_ok lib objs elf'"
proof -
  have cf: "collision_free lib {objs, objs}" by (simp add: collision_free_def)
  have "cache_ok lib objs elf' \<and> b = (v \<noteq> - 1 \<and> v \<in> loaded objs)"
  proof (cases "v = - 1")
    case True
    then show ?thesis using r c by (simp add: pointerIsInElfSegment_def)
  next
    case False
    then obtain elf1 es where e: "elf1 = Some es" "elf' = elf1" "b = iset_find lib v (segments es)"
      and o1: "(if elf = None then rescan lib objs elf else Ok elf) = Ok elf1"
      using r by (auto simp: pointerIsInElfSegment_def ok_iff split: option.splits)
    have "cache_ok lib objs elf1"
      using o1 c rescan_ok(1) [OF icl c _ cf] by (auto split: if_splits)
    with e False show ?thesis by (auto simp: cache_ok_def points_def)
  qed
  then show "b = (v \<noteq> - 1 \<and> v \<in> loaded objs)" "cache_ok lib objs elf'" by simp_all
qed

lemma value_to_maybe_node_ok:
  assumes icl: "icl_ok (env_elf env)" and inv: "rt_inv env st"
    and r: "value_to_maybe_node env v st = Ok (n, st')"
  shows "n = node_of st v" and "rt_inv env st'" and "same_memory st st'" and "rt_keys st' = rt_keys st"
proof -
  from r obtain b elf where
    l: "pointerIsInElfSegment (env_elf env) (rt_objects st) v (rt_elf st) = Ok (b, elf)"
    and rest: "(if b then Ok (v, st\<lparr>rt_elf := elf\<rparr>)
      else try_r (PointerInfo_of (rt_heap st) v) (\<lambda>(tag, offset).
        if tag \<noteq> 0 then Ok (tag, st\<lparr>rt_elf := elf\<rparr>) else Ok (0, st\<lparr>rt_elf := elf\<rparr>))) = Ok (n, st')"
    by (auto simp: value_to_maybe_node_def ok_iff Let_def cong: if_cong)
  have sc: "cache_ok (env_elf env) (rt_objects st) (rt_elf st)"
    using inv by (simp add: rt_inv_def)
  note lk = lookup_ok [OF icl sc l]
  have st': "st' = st\<lparr>rt_elf := elf\<rparr>" using rest by (cases b) (auto simp: ok_iff split: if_splits)
  have "vh_inv (rt_heap st)" using inv by (simp add: rt_inv_def)
  then obtain off where p: "PointerInfo_of (rt_heap st) v = Ok (vh.tag_at (rt_heap st) v, off)"
    using vh.info_tag_at by blast
  show "n = node_of st v"
  proof (cases b)
    case True
    then show ?thesis using rest lk(1) by (simp add: node_of_def)
  next
    case False
    then have "n = vh.tag_at (rt_heap st) v" using rest by (simp add: p split: if_splits)
    with False lk(1) show ?thesis by (auto simp: node_of_def)
  qed
  show "rt_inv env st'" using inv lk(2) by (simp add: rt_inv_def st')
  show "same_memory st st'" "rt_keys st' = rt_keys st"
    by (simp_all add: st' same_memory_def rt_keys_def)
qed

lemma tl_buffer_ok:
  assumes "rt_inv env st" and "tl_buffer env st = Ok hs"
  shows "hs_inv (env_fnv env) hs" and "hs_keys hs = rt_keys st"
proof -
  show "hs_inv (env_fnv env) hs" "hs_keys hs = rt_keys st"
  proof (atomize (full), cases "TL_BUFFER st")
    case None
    then have "EdgeHashSet_init (env_truncate_ok env) (env_trace_dir env) 10 = Ok hs"
      using assms(2) by (simp add: tl_buffer_def)
    from init_inv [OF this] None
    show "hs_inv (env_fnv env) hs \<and> hs_keys hs = rt_keys st" by (simp add: rt_keys_def)
  next
    case (Some b)
    then show "hs_inv (env_fnv env) hs \<and> hs_keys hs = rt_keys st"
      using assms by (simp add: tl_buffer_def rt_inv_def rt_keys_def)
  qed
qed

lemma traceWord_ok:
  assumes icl: "icl_ok (env_elf env)" and site: "drop_bit 1 site \<noteq> 0" and inv: "rt_inv env st"
    and r: "traceWord env site v st = Ok st'"
  shows "rt_inv env st'" and "same_memory st st'"
    and "rt_keys st' = rt_keys st \<union> word_keys st site [v]"
proof -
  from r obtain n st1 where v: "value_to_maybe_node env v st = Ok (n, st1)"
    and rest: "(if n \<noteq> 0 then try_r (tl_buffer env st1) (\<lambda>hs.
         try_r (add_edge (env_fnv env) (env_truncate_ok env) \<lparr>trace_site = site, te_value = n\<rparr> hs)
           (\<lambda>(_, hs). Ok (st1\<lparr>TL_BUFFER := Some hs\<rparr>))) else Ok st1) = Ok st'"
    by (auto simp: traceWord_def ok_iff)
  note n = value_to_maybe_node_ok [OF icl inv v]
  let ?e = "\<lparr>trace_site = site, te_value = n\<rparr>"
  show "rt_inv env st'" "same_memory st st'" "rt_keys st' = rt_keys st \<union> word_keys st site [v]"
  proof (atomize (full), cases "n = 0")
    case True
    then show "rt_inv env st' \<and> same_memory st st' \<and> rt_keys st' = rt_keys st \<union> word_keys st site [v]"
      using rest n by (simp add: word_keys_def)
  next
    case False
    from rest False obtain hs b hs' where hs: "tl_buffer env st1 = Ok hs"
      and add: "add_edge (env_fnv env) (env_truncate_ok env) ?e hs = Ok (b, hs')"
      and st': "st' = st1\<lparr>TL_BUFFER := Some hs'\<rparr>" by (auto simp: ok_iff)
    note b = tl_buffer_ok [OF n(2) hs]
    have e: "edge_ok_key ?e" "edge_key ?e = (drop_bit 1 site, n)"
      using site by (simp_all add: edge_ok_key_def edge_key_def)
    have i: "hs_inv (env_fnv env) hs \<and> off_t_limit (env_truncate_ok env)"
      using b(1) inv by (simp add: rt_inv_def)
    have k: "hs_keys hs' = insert (drop_bit 1 site, n) (rt_keys st)"
      using hash_set.add_keys [OF i e(1) add] b(2) n(4) e(2) by simp
    have "rt_inv env st'" using n(2) hash_set.add_inv [OF i e(1) add] by (simp add: rt_inv_def st')
    moreover have "same_memory st st'" using n(3) by (simp add: same_memory_def st')
    moreover have "rt_keys st' = rt_keys st \<union> word_keys st site [v]"
      using k n(1) False by (auto simp: rt_keys_def st' word_keys_def)
    ultimately show "rt_inv env st' \<and> same_memory st st' \<and>
        rt_keys st' = rt_keys st \<union> word_keys st site [v]" by simp
  qed
qed











text \<open>
  A buffer of exactly one word is not traced at all: the loop condition leaves out the last word.
\<close>

theorem traceBuffer_last_word: "length buf = 8 \<Longrightarrow> traceBuffer env site buf st = Ok st"
  by (simp add: traceBuffer_def buffer_words.simps)

text \<open>
  A stack allocation moved to the heap: after \<open>braceletTraceAllocaAllocate\<close> returned \<open>ptr\<close>, tracing
  any word that points into the new block records the edge to its allocation site, unless the
  word is the address of a loaded segment.
\<close>

theorem alloca_traced:
  assumes "icl_ok (env_elf env)" and "rt_inv env st" and "thread_state (rt_heap st) = Ready"
    and "2 \<le> unat sz" and "unat sz \<le> 2 ^ 29"
    and "\<And>p. malloc_bin sz = Ok p \<Longrightarrow>
      fresh_mapping base (slab_pages (2 ^ (p + 4)) (2 * overprovision) * 4096) (rt_heap st)"
    and "site \<noteq> 0" and "drop_bit 1 use \<noteq> 0"
  shows "\<exists>ptr st'. braceletTraceAllocaAllocate base rnd sys site sz st = Ok (ptr, st') \<and>
    rt_inv env st' \<and>
    (\<forall>a st''. unat ptr \<le> unat a \<and> unat a < unat ptr + unat sz \<and> a \<notin> loaded (rt_objects st) \<and>
      traceWord env use a st' = Ok st'' \<longrightarrow> rt_keys st'' = insert (drop_bit 1 use, site) (rt_keys st))"
proof -
  have vs: "vh_started (rt_heap st)" using assms(2,3) by (simp add: vh_started_def rt_inv_def)
  obtain ptr h where x: "xxmalloc base rnd sys sz (rt_heap st) = Ok (ptr, h)" and hi: "vh_inv h"
    and us: "unat sz \<le> xxmalloc_usable_size h ptr"
    and info: "\<And>a. PointerInfo_of h a =
      (if unat ptr \<le> unat a \<and> unat a < unat ptr + xxmalloc_usable_size h ptr
       then Ok (- 1, unat a - unat ptr) else PointerInfo_of (rt_heap st) a)"
    by (rule xxmalloc_ok [OF vs assms(4,5), where base = base and rnd = rnd and sys = sys])
      (use assms(6) in blast)+
  have at: "PointerInfo_of h ptr = Ok (- 1, 0)" using info [of ptr] us assms(4) by simp
  obtain h2 where t: "setTag ptr site h = Ok h2" using vh.set_tag_ok [OF hi at assms(7)] by blast
  note tag = vh.tag_at_set_tag [OF hi at assms(7) t]
  let ?st = "st\<lparr>rt_heap := h2\<rparr>"
  have r: "braceletTraceAllocaAllocate base rnd sys site sz st = Ok (ptr, ?st)"
    by (simp add: braceletTraceAllocaAllocate_def braceletTraceTagAllocation_def x t)
  have i: "rt_inv env ?st" using assms(2) tag(1) by (simp add: rt_inv_def)
  have "rt_keys st'' = insert (drop_bit 1 use, site) (rt_keys st)"
    if a: "unat ptr \<le> unat a \<and> unat a < unat ptr + unat sz \<and> a \<notin> loaded (rt_objects st) \<and>
      traceWord env use a ?st = Ok st''" for a st''
  proof -
    have "node_of ?st a = site" using a tag(2) [of a] us by (simp add: node_of_def)
    then show ?thesis
      using traceWord_ok(3) [OF assms(1,8) i, of a st''] a assms(7)
      by (simp add: word_keys_def rt_keys_def)
  qed
  with r i show ?thesis by (intro exI [of _ ptr] exI [of _ ?st] conjI allI impI)
qed

text \<open>
  The wrapped \<open>dlopen\<close> keeps the runtime's invariant: after it the segment cache describes the newly
  loaded objects too, so a traced word that points into the new library becomes a node (unless two
  segment lists of this step have the same hash).
\<close>

theorem dlopen_keeps:
  assumes "icl_ok (env_elf env)" and "rt_inv env st" and "underlying (rt_objects st) = (rc, objs)"
    and "collision_free (env_elf env) {rt_objects st, objs}" and "dlopen env underlying st = Ok (r, st')"
  shows "r = rc \<and> rt_inv env st' \<and> rt_objects st' = objs \<and> rt_keys st' = rt_keys st \<and>
    (\<forall>v. v \<noteq> - 1 \<and> v \<in> loaded objs \<longrightarrow> node_of st' v = v)"
proof -
  from assms(3,5) obtain elf where e: "rescan (env_elf env) objs (rt_elf st) = Ok elf"
    and st': "st' = st\<lparr>rt_objects := objs, rt_elf := elf\<rparr>" "r = rc"
    by (auto simp: dlopen_def ok_iff)
  have "cache_ok (env_elf env) objs elf"
    using rescan_ok(1) [OF assms(1) _ e assms(4)] assms(2) by (simp add: rt_inv_def)
  then show ?thesis using assms(2) by (simp add: st' rt_inv_def rt_keys_def node_of_def)
qed

subsection \<open>An example\<close>

definition ex_env :: "((u64 \<times> u64) list, bytes) runtime_env" where
  "ex_env = \<lparr>env_fnv = (\<lambda>_. 0), env_truncate_ok = (\<lambda>n. n \<le> 64), env_trace_dir = Some ''/tmp'',
     env_elf = ex_elf_lib\<rparr>"

definition ex_objects :: "phdr_info list" where
  "ex_objects = [\<lparr>dlpi_addr = 0, dlpi_phdr = [\<lparr>p_type = 1, p_vaddr = 4, p_memsz = 2\<rparr>]\<rparr>]"

definition ex_rt :: "((u64 \<times> u64) list, bytes) runtime" where
  "ex_rt = \<lparr>rt_heap = (init_pools ex_vh)\<lparr>thread_state := Ready\<rparr>, rt_objects = ex_objects,
     rt_elf = None, TL_BUFFER = Some ex_hs0\<rparr>"

lemma ex_rt_inv: "rt_inv ex_env ex_rt"
proof -
  have "vh_inv (init_pools ex_vh)" by (rule init_pools_ok) (simp_all add: ex_vh_def)
  moreover have "hs_inv (\<lambda>_. 0) ex_hs0" using ex_init by (rule init_inv) simp
  ultimately show ?thesis
    using ex_limit by (simp add: rt_inv_def ex_rt_def ex_env_def cache_ok_def)
qed

lemma ex_env_icl: "icl_ok (env_elf ex_env)"
  by (simp add: ex_env_def ex_elf_lib_ok)





theorem traceBuffer_last_word_witness: "traceBuffer ex_env 2 (le64 5) ex_rt = Ok ex_rt"
  by (rule traceBuffer_last_word) simp

lemma ex_rt_fresh: "malloc_bin 20 = Ok p \<Longrightarrow>
    fresh_mapping 0x10000 (slab_pages (2 ^ (p + 4)) (2 * overprovision) * 4096) (rt_heap ex_rt)"
  using ex_fresh [of p] init_pools_ok(3) [of ex_vh] by (simp add: ex_rt_def ex_vh_def)

theorem alloca_traced_witness:
  "\<exists>ptr st'. braceletTraceAllocaAllocate 0x10000 5 0 8 20 ex_rt = Ok (ptr, st') \<and>
    rt_inv ex_env st' \<and>
    (\<forall>a st''. unat ptr \<le> unat a \<and> unat a < unat ptr + unat (20 :: u64) \<and> a \<notin> loaded (rt_objects ex_rt) \<and>
      traceWord ex_env 2 a st' = Ok st'' \<longrightarrow> rt_keys st'' = insert (drop_bit 1 2, 8) (rt_keys ex_rt))"
  by (rule alloca_traced [OF ex_env_icl ex_rt_inv _ _ _ ex_rt_fresh]) (simp_all add: ex_rt_def)

theorem dlopen_keeps_witness:
  "7 = (7 :: u64) \<and> rt_inv ex_env (ex_rt\<lparr>rt_elf := Some ex_es, rt_objects := ex_infos\<rparr>) \<and>
   node_of (ex_rt\<lparr>rt_elf := Some ex_es, rt_objects := ex_infos\<rparr>) 0x401010 = 0x401010"
proof -
  have d: "dlopen ex_env (\<lambda>_. (7, ex_infos)) ex_rt =
      Ok (7, ex_rt\<lparr>rt_elf := Some ex_es, rt_objects := ex_infos\<rparr>)"
    by (simp add: dlopen_def ex_env_def rescan_def ex_scan) (simp add: ex_rt_def)
  have "(0x401010 :: u64) \<in> loaded ex_infos"
    by (simp add: loaded_def load_ranges_def ex_infos_def PT_LOAD_def)
  with dlopen_keeps [OF ex_env_icl ex_rt_inv _ _ d, of 7 ex_infos] show ?thesis
    by (simp add: ex_env_def ex_collision_free)
qed

end
