(* ===== verification/Static_Object.thy ===== *)
theory Static_Object
  imports Object_Api
begin

text \<open>
  \<open>src/ObjectParsing/StaticObject.cpp\<close>: an object file on disk as an implementation of the
  \<open>Object\<close> interface. Its addresses are pairs of a section and an offset; pointers are resolved
  through relocations, which also give names to the addresses they lead to. An operation that
  returns an error leaves the caches as they were in the model; the code may have filled some.
\<close>

section \<open>LLVM object files\<close>

text \<open>
  What the object reader asks an \<open>llvm::object::ObjectFile\<close>, as data: the values its accessors
  return. A reference to a section that only needs its header is an \<open>obj_header\<close>.
\<close>

record obj_header =
  sh_index :: u64
  sh_name :: "string result"
  sh_address :: u64
  sh_size :: u64

record obj_symbol =
  sym_name :: "string result"
  sym_address :: "u64 result"
  sym_section :: "obj_header option result"   \<comment> \<open>\<open>None\<close> is \<open>section_end\<close>\<close>

record obj_reloc =
  rel_offset :: u64
  rel_symbol :: "obj_symbol option"
  rel_addend :: "u64 option"

record section_ref = obj_header +
  sh_contents :: "bytes result"
  sh_isBSS :: bool
  sh_relocated :: "obj_header option result"
  sh_relocs :: "obj_reloc list"

record obj_file =
  of_sections :: "section_ref list"
  of_apple :: bool
  of_bytesInAddress :: nat

section \<open>Exploded addresses\<close>

record exploded =
  section_offset :: u32
  section_idx_plus_one :: u16
  ex_zero :: u16

definition exploded_zero :: exploded where
  "exploded_zero = \<lparr>section_offset = 0, section_idx_plus_one = 0, ex_zero = 0\<rparr>"

definition explode :: "u64 \<Rightarrow> exploded" where
  "explode addr =
     \<lparr>section_offset = ucast addr, section_idx_plus_one = ucast (drop_bit 32 addr),
      ex_zero = ucast (drop_bit 48 addr)\<rparr>"

definition implode :: "exploded \<Rightarrow> u64" where
  "implode e = ucast (section_offset e) OR push_bit 32 (ucast (section_idx_plus_one e)) OR
     push_bit 48 (ucast (ex_zero e))"

definition section_idx :: "exploded \<Rightarrow> nat result" where
  "section_idx e = assert_r (1 \<le> section_idx_plus_one e) (Ok (unat (section_idx_plus_one e - 1)))"

text \<open>The setter takes a \<open>uint16_t\<close>, to which its callers' indices are cut off.\<close>

definition set_section_idx :: "u64 \<Rightarrow> exploded \<Rightarrow> exploded result" where
  "set_section_idx i e =
     (let idx = (ucast i :: u16)
      in assert_r (idx < - 1) (Ok (e\<lparr>section_idx_plus_one := idx + 1\<rparr>)))"

section \<open>Translating DWARF addresses\<close>

text \<open>\<open>std::map\<close> from section addresses to sections; \<open>insert\<close> keeps an entry that is there.\<close>

definition load_sections :: "obj_file \<Rightarrow> (u64 \<times> obj_header) list" where
  "load_sections obj = fold (\<lambda>sec m.
     if sh_address sec \<in> fst ` set m then m else (sh_address sec, obj_header.truncate sec) # m)
     (of_sections obj) []"

text \<open>The element before \<open>upper_bound(addr)\<close>: the one with the greatest key up to \<open>addr\<close>.\<close>

fun floor_entry :: "u64 \<Rightarrow> (u64 \<times> obj_header) list \<Rightarrow> (u64 \<times> obj_header) option" where
  "floor_entry addr [] = None"
| "floor_entry addr ((k, s) # m) =
     (case floor_entry addr m of
        None \<Rightarrow> if k \<le> addr then Some (k, s) else None
      | Some (k', s') \<Rightarrow> if k \<le> addr \<and> k' < k then Some (k, s) else Some (k', s'))"

definition translateAddr :: "(u64 \<times> obj_header) list \<Rightarrow> u64 \<Rightarrow> u64 result" where
  "translateAddr secs addr =
     (case floor_entry addr secs of
        None \<Rightarrow> Err (new_error (''Should be able to find section for '' @ show_hex (unat addr)))
      | Some (_, sec) \<Rightarrow>
          let sectionOff = addr - sh_address sec
          in ensure (sectionOff < sh_size sec)
               (''Address of '' @ show_hex (unat addr) @ '' should be inbounds for section '' @
                show_dec (unat (sh_index sec)) @ '' of size '' @ show_dec (unat (sh_size sec)) @ '' '')
             (try_r (set_section_idx (sh_index sec) exploded_zero) (\<lambda>e.
               Ok (implode (e\<lparr>section_offset := ucast sectionOff\<rparr>)))))"

definition getSectionLoadAddress :: "obj_header \<Rightarrow> u64 result" where
  "getSectionLoadAddress sec =
     try_r (set_section_idx (sh_index sec) exploded_zero) (\<lambda>e. Ok (implode e))"

section \<open>The object\<close>

text \<open>
  A section of the object has no \<open>SectionRef\<close> when it is the one made up for external symbols;
  reading through the default one is undefined and aborts here.
\<close>

record static_section =
  ss_name :: string
  ss_section :: "section_ref option"
  lazy_contents :: "bytes option"
  lazy_relocations :: "(u64 \<times> u64) list option"

record static_object =
  so_obj :: obj_file
  so_sections :: "static_section option list"
  extern_symbols_section :: nat
  extern_symbol_indices :: "(string \<times> u32) list"
  symbol_names :: "(u64 \<times> string) list"

definition new_section :: "string \<Rightarrow> section_ref option \<Rightarrow> static_section" where
  "new_section nm ref = \<lparr>ss_name = nm, ss_section = ref, lazy_contents = None, lazy_relocations = None\<rparr>"

definition grow_sections :: "nat \<Rightarrow> 'a option list \<Rightarrow> 'a option list" where
  "grow_sections n xs = xs @ replicate (n - length xs) None"

definition init_section ::
  "section_ref \<Rightarrow> static_section option list \<Rightarrow> static_section option list result" where
  "init_section sec secs =
     (let idx = unat (sh_index sec);
          secs = (if length secs \<le> idx + 1 then grow_sections (idx + 1) secs else secs)
      in ensure (secs ! idx = None) (''Duplicate section idx '' @ show_dec idx)
           (try_r (sh_name sec) (\<lambda>nm. Ok (secs[idx := Some (new_section nm (Some sec))]))))"

definition StaticObject_init :: "obj_file \<Rightarrow> static_object result" where
  "StaticObject_init obj =
     try_r (for_each init_section (of_sections obj) []) (\<lambda>secs.
       Ok \<lparr>so_obj = obj,
           so_sections = secs @ [Some (new_section ''extern symbols section (bracelet)'' None)],
           extern_symbols_section = length secs, extern_symbol_indices = [], symbol_names = []\<rparr>)"

definition so_isApple :: "static_object \<Rightarrow> bool" where
  "so_isApple so = of_apple (so_obj so)"

text \<open>What \<open>visitSections\<close> shows its callback, in order.\<close>

definition section_view :: "static_object \<Rightarrow> nat \<Rightarrow> obj_section list result" where
  "section_view so i =
     (if i = extern_symbols_section so then Ok []
      else case so_sections so ! i of
        None \<Rightarrow> Ok []
      | Some s \<Rightarrow>
          try_r (set_section_idx (of_nat i) exploded_zero) (\<lambda>start.
            case ss_section s of
              None \<Rightarrow> Abort
            | Some sec \<Rightarrow> Ok [\<lparr>sec_name = ss_name s, sec_start = implode start, sec_size = sh_size sec\<rparr>]))"

definition so_sections_of :: "static_object \<Rightarrow> obj_section list result" where
  "so_sections_of so =
     for_each (\<lambda>i out. try_r (section_view so i) (\<lambda>s. Ok (out @ s))) [0..<length (so_sections so)] []"

definition so_symbolName :: "u64 \<Rightarrow> static_object \<Rightarrow> (string \<times> static_object) result" where
  "so_symbolName addr so =
     (case map_of (symbol_names so) addr of
        None \<Rightarrow> Err (new_error (''Cannot find symbol name for address '' @ show_hex (unat addr)))
      | Some nm \<Rightarrow> Ok (nm, so))"

definition upd_section :: "nat \<Rightarrow> static_section \<Rightarrow> static_object \<Rightarrow> static_object" where
  "upd_section i s so = so\<lparr>so_sections := (so_sections so)[i := Some s]\<rparr>"

definition contents :: "static_section \<Rightarrow> (bytes \<times> static_section) result" where
  "contents s =
     (case lazy_contents s of
        Some bs \<Rightarrow> Ok (bs, s)
      | None \<Rightarrow>
          case ss_section s of
            None \<Rightarrow> Abort
          | Some sec \<Rightarrow>
              try_ctx (''Loading contents of section '' @ ss_name s) (sh_contents sec) (\<lambda>bs.
                assert_r (length bs = unat (sh_size sec)) (Ok (bs, s\<lparr>lazy_contents := Some bs\<rparr>))))"

definition so_copyData :: "nat \<Rightarrow> u64 \<Rightarrow> static_object \<Rightarrow> (bytes \<times> static_object) result" where
  "so_copyData n addr_raw so =
     (if n = 0 then Ok ([], so)
      else ensure (addr_raw \<noteq> 0) ''Can't copy from NULL''
       (let addr = explode addr_raw in
        try_r (section_idx addr) (\<lambda>idx.
        ensure (idx < length (so_sections so)) ''Address section is out of range''
        (case so_sections so ! idx of
           None \<Rightarrow> Err (new_error (''section '' @ show_dec idx @ '' is undefined''))
         | Some s \<Rightarrow>
             try_r (contents s) (\<lambda>(section_body, s).
               let so = upd_section idx s so
               in ensure (unat (section_offset addr) \<le> length section_body)
                    ''Section offset is out of bounds for section''
                  (let address_data = drop (unat (section_offset addr)) section_body
                   in ensure (n \<le> length address_data)
                        (''Can only copy '' @ show_dec (length address_data) @ '' bytes. '' @
                         show_dec n @ '' bytes desired.'')
                      (Ok (take n address_data, so))))))))"

section \<open>Relocations\<close>

text \<open>
  The address a relocation stands for. An external symbol gets the next free offset of the made-up
  section, under which its name is recorded; a defined symbol its section and offset.
\<close>

definition extern_address ::
  "string \<Rightarrow> exploded \<Rightarrow> static_object \<Rightarrow> (exploded \<times> static_object) result" where
  "extern_address symbol_name e so =
     (case map_of (extern_symbol_indices so) symbol_name of
        Some i \<Rightarrow> Ok (e\<lparr>section_offset := i\<rparr>, so)
      | None \<Rightarrow>
          let i = of_nat (length (extern_symbol_indices so)); e = e\<lparr>section_offset := i\<rparr>
          in assert_r (implode e \<notin> fst ` set (symbol_names so))
               (Ok (e, so\<lparr>extern_symbol_indices := (symbol_name, i) # extern_symbol_indices so,
                          symbol_names := (implode e, symbol_name) # symbol_names so\<rparr>)))"

definition defined_address ::
  "obj_symbol \<Rightarrow> obj_header \<Rightarrow> u64 \<Rightarrow> u64 option \<Rightarrow> exploded \<Rightarrow> static_object \<Rightarrow>
   (exploded \<times> static_object) result" where
  "defined_address symbol symbol_section symbol_addr addend e so =
     (let reladd = (case addend of None \<Rightarrow> 0 | Some a \<Rightarrow> a);
          off = (ucast (symbol_addr - sh_address symbol_section + reladd) :: u32);
          e = e\<lparr>section_offset := off\<rparr>
      in assert_r ((ucast off :: u64) \<le> sh_size symbol_section)
          (if implode e \<notin> fst ` set (symbol_names so)
           then try_r (sym_name symbol) (\<lambda>nm.
                  Ok (e, so\<lparr>symbol_names := (implode e, nm) # symbol_names so\<rparr>))
           else Ok (e, so)))"

type_synonym reloc_map = "(u64 \<times> u64) list"

definition add_relocation ::
  "obj_reloc \<Rightarrow> reloc_map \<times> static_object \<Rightarrow> (reloc_map \<times> static_object) result" where
  "add_relocation reloc = (\<lambda>(relocations, so).
     assert_r (rel_offset reloc \<notin> fst ` set relocations)
      (case rel_symbol reloc of
         None \<Rightarrow> Ok (relocations, so)
       | Some symbol \<Rightarrow>
           try_r (sym_address symbol) (\<lambda>symbol_addr.
           try_r (sym_section symbol) (\<lambda>symbol_section.
           try_r
            (case symbol_section of
               None \<Rightarrow>
                 try_r (sym_name symbol) (\<lambda>symbol_name.
                 try_r (set_section_idx (of_nat (extern_symbols_section so)) exploded_zero) (\<lambda>e.
                   extern_address symbol_name e so))
             | Some sec \<Rightarrow>
                 try_r (set_section_idx (sh_index sec) exploded_zero) (\<lambda>e.
                   defined_address symbol sec symbol_addr (rel_addend reloc) e so))
            (\<lambda>(e, so). Ok ((rel_offset reloc, implode e) # relocations, so))))))"

definition add_relocation_section ::
  "u64 \<Rightarrow> section_ref \<Rightarrow> reloc_map \<times> static_object \<Rightarrow> (reloc_map \<times> static_object) result" where
  "add_relocation_section idx reloc_section st =
     try_r (sh_relocated reloc_section) (\<lambda>relocation_target.
       case relocation_target of
         None \<Rightarrow> Ok st
       | Some target \<Rightarrow>
           if sh_index target \<noteq> idx then Ok st
           else for_each add_relocation (sh_relocs reloc_section) st)"

definition relocations ::
  "static_section \<Rightarrow> static_object \<Rightarrow> (reloc_map \<times> static_section \<times> static_object) result" where
  "relocations s so =
     (case lazy_relocations s of
        Some m \<Rightarrow> Ok (m, s, so)
      | None \<Rightarrow>
          case ss_section s of
            None \<Rightarrow> Abort
          | Some sec \<Rightarrow>
              try_r (for_each (add_relocation_section (sh_index sec)) (of_sections (so_obj so)) ([], so))
                (\<lambda>(m, so). Ok (m, s\<lparr>lazy_relocations := Some m\<rparr>, so)))"

definition resolve_at :: "section_ref \<Rightarrow> string \<Rightarrow> reloc_map \<Rightarrow> u64 \<Rightarrow> u64 result" where
  "resolve_at sec nm m address =
     (case map_of m address of
        Some a \<Rightarrow> Ok a
      | None \<Rightarrow> ensure (sh_isBSS sec)
          (''Cannot find relocation for section '' @ nm @ '', address '' @ show_dec (unat address)) (Ok 0))"

definition so_resolvePointers :: "nat \<Rightarrow> u64 \<Rightarrow> static_object \<Rightarrow> (u64 list \<times> static_object) result" where
  "so_resolvePointers n addr_raw so =
     assert_r (of_bytesInAddress (so_obj so) = 8)
     (if n = 0 then Ok ([], so)
      else ensure (addr_raw \<noteq> 0) ''Can't copy from NULL''
       (let addr = explode addr_raw in
        try_r (section_idx addr) (\<lambda>idx.
        ensure (idx < length (so_sections so)) ''Address section is out of range''
        (case so_sections so ! idx of
           None \<Rightarrow> Abort
         | Some s \<Rightarrow>
             case ss_section s of
               None \<Rightarrow> Abort
             | Some sec \<Rightarrow>
                 let off = (ucast (section_offset addr) :: u64);
                     room = (sh_size sec - off) div 8
                 in ensure (off \<le> sh_size sec) ''Section offset is out of bounds for section''
                   (ensure (n \<le> unat room)
                     (''Can only copy '' @ show_dec (unat room) @ '' addresses. '' @ show_dec n @
                      '' addresses desired.'')
                     (try_r (relocations s so) (\<lambda>(m, s, so).
                        let so = upd_section idx s so; base_address = sh_address sec + off
                        in try_r (for_each (\<lambda>i out. try_r (resolve_at sec (ss_name s) m
                               (base_address + of_nat (i * 8))) (\<lambda>a. Ok (out @ [a]))) [0..<n] [])
                             (\<lambda>out. Ok (out, so)))))))))"

definition static_api :: "static_object object_api" where
  "static_api = \<lparr>isApple = so_isApple, object_sections = so_sections_of, symbolName = so_symbolName,
     copyData = so_copyData, resolvePointers = so_resolvePointers\<rparr>"

section \<open>Opening a file\<close>

text \<open>What \<open>llvm::object::createBinary\<close> finds at a path is the argument \<open>createBinary\<close>.\<close>

datatype binary = ObjectFile obj_file | OtherBinary

definition openLLVMObject :: "(string \<Rightarrow> binary result) \<Rightarrow> string \<Rightarrow> obj_file result" where
  "openLLVMObject createBinary exe =
     try_ctx (''Opening binary '' @ exe) (createBinary exe) (\<lambda>b.
       case b of
         OtherBinary \<Rightarrow> Err (new_error (''Exe '' @ exe @ '' isn't an object file''))
       | ObjectFile obj \<Rightarrow> Ok obj)"

definition openObject :: "(string \<Rightarrow> binary result) \<Rightarrow> string \<Rightarrow> static_object result" where
  "openObject createBinary exe =
     try_r (openLLVMObject createBinary exe) (\<lambda>obj.
       try_ctx (''Reading binary '' @ exe) (StaticObject_init obj) Ok)"

section \<open>Exploded addresses are addresses\<close>

lemma implode_explode [simp]: "implode (explode a) = a"
proof (rule bit_word_eqI)
  fix n assume n: "n < LENGTH(64)"
  show "bit (implode (explode a)) n = bit a n"
  proof (cases "n < 32")
    case True
    then show ?thesis by (simp add: implode_def explode_def bit_or_iff bit_push_bit_iff bit_ucast_iff)
  next
    case False
    then have "n = n - 32 + 32" "48 \<le> n \<Longrightarrow> n = n - 48 + 48" by simp_all
    with n False show ?thesis
      by (cases "n < 48")
        (auto simp: implode_def explode_def bit_or_iff bit_push_bit_iff bit_ucast_iff bit_drop_bit_eq)
  qed
qed

lemma explode_implode [simp]: "explode (implode e) = e"
proof -
  have 1: "ucast (implode e) = section_offset e"
    by (rule bit_word_eqI) (auto simp: implode_def bit_or_iff bit_push_bit_iff bit_ucast_iff)
  have 2: "ucast (drop_bit 32 (implode e)) = section_idx_plus_one e"
    by (rule bit_word_eqI)
      (auto simp: implode_def bit_or_iff bit_push_bit_iff bit_ucast_iff bit_drop_bit_eq
        dest: bit_imp_le_length)
  have 3: "ucast (drop_bit 48 (implode e)) = ex_zero e"
    by (rule bit_word_eqI)
      (auto simp: implode_def bit_or_iff bit_push_bit_iff bit_ucast_iff bit_drop_bit_eq
        dest: bit_imp_le_length)
  show ?thesis by (simp add: explode_def 1 2 3)
qed

lemma implode_inject: "implode a = implode b \<longleftrightarrow> a = b"
  by (metis explode_implode)

lemma implode_nonzero: "section_idx_plus_one e \<noteq> 0 \<Longrightarrow> implode e \<noteq> 0"
proof
  assume "section_idx_plus_one e \<noteq> 0" and "implode e = 0"
  then have "e = explode 0" by (metis explode_implode)
  with \<open>section_idx_plus_one e \<noteq> 0\<close> show False by (simp add: explode_def)
qed

lemma set_section_idx_ok:
  assumes "set_section_idx i e = Ok e'"
  shows "e' = e\<lparr>section_idx_plus_one := ucast i + 1\<rparr>" and "section_idx_plus_one e' \<noteq> 0"
proof -
  have "ucast i < (- 1 :: u16)" and e': "e' = e\<lparr>section_idx_plus_one := ucast i + 1\<rparr>"
    using assms by (simp_all add: set_section_idx_def Let_def ok_iff)
  then have "ucast i + 1 \<noteq> (0 :: u16)"
    by (metis add.commute add_eq_0_iff less_irrefl)
  then show "e' = e\<lparr>section_idx_plus_one := ucast i + 1\<rparr>" "section_idx_plus_one e' \<noteq> 0"
    using e' by simp_all
qed

lemma section_idx_of_set:
  assumes "unat i < 65535"
  shows "set_section_idx i e = Ok (e\<lparr>section_idx_plus_one := ucast i + 1\<rparr>)"
    and "section_idx (e\<lparr>section_idx_plus_one := ucast i + 1, section_offset := off\<rparr>) = Ok (unat i)"
proof -
  have u: "unat (ucast i :: u16) = unat i" using assms by (intro unat_ucast_small) simp
  have max: "unat (- 1 :: u16) = 65535" by (simp add: unsigned_minus_1_eq_mask mask_eq_exp_minus_1)
  have s: "unat (ucast i + 1 :: u16) = unat i + 1"
    using assms u by (subst unat_suc_small) simp_all
  show "set_section_idx i e = Ok (e\<lparr>section_idx_plus_one := ucast i + 1\<rparr>)"
    using assms u max by (simp add: set_section_idx_def Let_def word_less_nat_alt)
  show "section_idx (e\<lparr>section_idx_plus_one := ucast i + 1, section_offset := off\<rparr>) = Ok (unat i)"
    using s u by (simp add: section_idx_def word_le_nat_alt)
qed

section \<open>Translation finds the section of an address\<close>

lemma load_sections_mem:
  shows "(k, s) \<in> set (load_sections obj) \<Longrightarrow>
      \<exists>sec\<in>set (of_sections obj). k = sh_address sec \<and> s = obj_header.truncate sec"
    and "fst ` set (load_sections obj) = sh_address ` set (of_sections obj)"
proof -
  define add where "add = (\<lambda>(sec :: section_ref) m. if sh_address sec \<in> fst ` set m then m
    else (sh_address sec, obj_header.truncate sec) # m)"
  have "set (fold add ss []) \<subseteq> (\<lambda>sec. (sh_address sec, obj_header.truncate sec)) ` set ss \<and>
      fst ` set (fold add ss []) = sh_address ` set ss" for ss
    by (induction ss rule: rev_induct) (auto simp: add_def)
  from this [of "of_sections obj"]
  show "(k, s) \<in> set (load_sections obj) \<Longrightarrow>
      \<exists>sec\<in>set (of_sections obj). k = sh_address sec \<and> s = obj_header.truncate sec"
    and "fst ` set (load_sections obj) = sh_address ` set (of_sections obj)"
    unfolding load_sections_def add_def by auto
qed

lemma floor_entry_None: "floor_entry addr m = None \<Longrightarrow> (k, s) \<in> set m \<Longrightarrow> addr < k"
  by (induction m) (auto split: option.splits if_splits)

lemma floor_entry_Some:
  "floor_entry addr m = Some (k, s) \<Longrightarrow>
    (k, s) \<in> set m \<and> k \<le> addr \<and> (\<forall>k'\<in>fst ` set m. k' \<le> addr \<longrightarrow> k' \<le> k)"
proof (induction m arbitrary: k s)
  case (Cons x m)
  obtain k0 s0 where x: "x = (k0, s0)" by (cases x)
  show ?case
  proof (cases "floor_entry addr m")
    case None
    have "\<not> k' \<le> addr" if "k' \<in> fst ` set m" for k'
      using that floor_entry_None [OF None] by (auto simp: not_le)
    with None Cons.prems show ?thesis by (auto simp: x split: if_splits)
  next
    case (Some e)
    obtain k1 s1 where e: "e = (k1, s1)" by (cases e)
    have i: "(k1, s1) \<in> set m" "k1 \<le> addr" "\<forall>k'\<in>fst ` set m. k' \<le> addr \<longrightarrow> k' \<le> k1"
      using Cons.IH [of k1 s1] Some by (simp_all add: e)
    show ?thesis
    proof (cases "k0 \<le> addr \<and> k1 < k0")
      case True
      then have "k = k0" "s = s0" using Cons.prems Some by (simp_all add: x e)
      with True i(3) show ?thesis by (auto simp: x)
    next
      case False
      then have "k = k1" "s = s1" using Cons.prems Some by (auto simp: x e)
      with False i show ?thesis by (auto simp: x not_less)
    qed
  qed
qed simp

text \<open>
  A translated DWARF address names the section that contains it: the result has that section's
  index and the offset of the address in it, the section is the last one that starts at or below
  the address, and the address is in its bounds. Without such a section translation is an error,
  not a wrong address.
\<close>

theorem translateAddr_section:
  assumes "translateAddr (load_sections obj) addr = Ok out"
  shows "\<exists>sec\<in>set (of_sections obj).
    sh_address sec \<le> addr \<and> unat addr < unat (sh_address sec) + unat (sh_size sec) \<and>
    (\<forall>other\<in>set (of_sections obj). sh_address other \<le> addr \<longrightarrow> sh_address other \<le> sh_address sec) \<and>
    explode out = \<lparr>section_offset = ucast (addr - sh_address sec),
      section_idx_plus_one = ucast (sh_index sec) + 1, ex_zero = 0\<rparr>"
proof -
  from assms obtain k h e where f: "floor_entry addr (load_sections obj) = Some (k, h)"
    and b: "addr - sh_address h < sh_size h" and e: "set_section_idx (sh_index h) exploded_zero = Ok e"
    and out: "out = implode (e\<lparr>section_offset := ucast (addr - sh_address h)\<rparr>)"
    by (auto simp: translateAddr_def Let_def ok_iff split: option.splits)
  note fl = floor_entry_Some [OF f]
  from fl obtain sec where sec: "sec \<in> set (of_sections obj)" "k = sh_address sec"
      "h = obj_header.truncate sec"
    using load_sections_mem(1) [of k h obj] by blast
  then have h: "sh_address h = sh_address sec" "sh_size h = sh_size sec" "sh_index h = sh_index sec"
    by (simp_all add: obj_header.truncate_def)
  have le: "sh_address sec \<le> addr" using fl sec(2) by simp
  then have "unat (addr - sh_address sec) = unat addr - unat (sh_address sec)"
    by (simp add: unat_sub)
  then have "unat addr < unat (sh_address sec) + unat (sh_size sec)"
    using b h by (simp add: word_less_nat_alt)
  moreover have "\<forall>other\<in>set (of_sections obj). sh_address other \<le> addr \<longrightarrow>
      sh_address other \<le> sh_address sec"
    using fl sec(2) load_sections_mem(2) [of obj] by auto
  moreover have "explode out = \<lparr>section_offset = ucast (addr - sh_address sec),
      section_idx_plus_one = ucast (sh_index sec) + 1, ex_zero = 0\<rparr>"
    using set_section_idx_ok(1) [OF e] by (simp add: out h exploded_zero_def)
  ultimately show ?thesis using sec(1) le by blast
qed

section \<open>The invariant of a static object\<close>

text \<open>
  Cached contents are the section's contents, cached relocations only lead to addresses that have
  a name, and an external symbol's address has that symbol's name.
\<close>

definition extern_addr :: "static_object \<Rightarrow> u32 \<Rightarrow> u64" where
  "extern_addr so i = implode \<lparr>section_offset = i,
     section_idx_plus_one = ucast (of_nat (extern_symbols_section so) :: u64) + 1, ex_zero = 0\<rparr>"

definition names_ok :: "static_object \<Rightarrow> bool" where
  "names_ok so \<longleftrightarrow> of_bytesInAddress (so_obj so) = 8 \<and>
     (\<forall>nm i. map_of (extern_symbol_indices so) nm = Some i \<longrightarrow>
        map_of (symbol_names so) (extern_addr so i) = Some nm)"

definition map_named :: "static_object \<Rightarrow> reloc_map \<Rightarrow> bool" where
  "map_named so m \<longleftrightarrow> (\<forall>(k, a)\<in>set m. a \<noteq> 0 \<and> map_of (symbol_names so) a \<noteq> None)"

definition section_ok :: "static_object \<Rightarrow> static_section \<Rightarrow> bool" where
  "section_ok so s \<longleftrightarrow>
     (\<forall>bs. lazy_contents s = Some bs \<longrightarrow> (\<exists>sec. ss_section s = Some sec \<and> sh_contents sec = Ok bs)) \<and>
     (\<forall>m. lazy_relocations s = Some m \<longrightarrow> map_named so m)"

definition so_inv :: "static_object \<Rightarrow> bool" where
  "so_inv so \<longleftrightarrow> names_ok so \<and> (\<forall>s. Some s \<in> set (so_sections so) \<longrightarrow> section_ok so s)"

text \<open>Loading relocations adds names and changes nothing else.\<close>

definition names_grow :: "static_object \<Rightarrow> static_object \<Rightarrow> bool" where
  "names_grow so so' \<longleftrightarrow> so_obj so' = so_obj so \<and> so_sections so' = so_sections so \<and>
     extern_symbols_section so' = extern_symbols_section so \<and>
     (\<forall>a nm. map_of (symbol_names so) a = Some nm \<longrightarrow> map_of (symbol_names so') a = Some nm)"

lemma names_grow_refl [simp]: "names_grow so so"
  by (simp add: names_grow_def)

lemma names_grow_trans: "names_grow a b \<Longrightarrow> names_grow b c \<Longrightarrow> names_grow a c"
  by (simp add: names_grow_def)

lemma map_named_grow: "map_named so m \<Longrightarrow> names_grow so so' \<Longrightarrow> map_named so' m"
  unfolding map_named_def names_grow_def by blast

lemma section_ok_grow: "section_ok so s \<Longrightarrow> names_grow so so' \<Longrightarrow> section_ok so' s"
  by (auto simp: section_ok_def intro: map_named_grow)

lemma names_grow_add:
  assumes "a \<notin> fst ` set (symbol_names so)"
  shows "names_grow so (so\<lparr>extern_symbol_indices := ex, symbol_names := (a, nm) # symbol_names so\<rparr>)"
    and "names_grow so (so\<lparr>symbol_names := (a, nm) # symbol_names so\<rparr>)"
  using assms by (auto simp: names_grow_def dest: map_of_SomeD intro: rev_image_eqI)

lemma extern_address_ok:
  assumes ok: "names_ok so"
    and e: "e = \<lparr>section_offset = 0,
      section_idx_plus_one = ucast (of_nat (extern_symbols_section so) :: u64) + 1, ex_zero = 0\<rparr>"
    and r: "extern_address nm e so = Ok (e', so')"
  shows "names_ok so'" and "names_grow so so'" and "map_of (symbol_names so') (implode e') = Some nm"
    and "section_idx_plus_one e' = section_idx_plus_one e" and "\<exists>i. implode e' = extern_addr so i"
    and "\<exists>i. map_of (extern_symbol_indices so') nm = Some i \<and> implode e' = extern_addr so i"
proof -
  have a: "implode (e\<lparr>section_offset := i\<rparr>) = extern_addr so i" for i
    by (simp add: e extern_addr_def)
  have "names_ok so' \<and> names_grow so so' \<and> map_of (symbol_names so') (implode e') = Some nm \<and>
      section_idx_plus_one e' = section_idx_plus_one e \<and>
      (\<exists>i. map_of (extern_symbol_indices so') nm = Some i \<and> implode e' = extern_addr so i)"
  proof (cases "map_of (extern_symbol_indices so) nm")
    case (Some i)
    then show ?thesis using r ok by (auto simp: extern_address_def names_ok_def a)
  next
    case None
    define i :: u32 where "i = of_nat (length (extern_symbol_indices so))"
    have fresh: "extern_addr so i \<notin> fst ` set (symbol_names so)"
      and e': "e' = e\<lparr>section_offset := i\<rparr>"
      and so': "so' = so\<lparr>extern_symbol_indices := (nm, i) # extern_symbol_indices so,
        symbol_names := (extern_addr so i, nm) # symbol_names so\<rparr>"
      using r None by (auto simp: extern_address_def Let_def ok_iff a i_def)
    have g: "names_grow so so'" unfolding so' using fresh by (rule names_grow_add(1))
    have x: "extern_addr so' j = extern_addr so j" for j by (simp add: extern_addr_def so')
    have "map_of (symbol_names so') (extern_addr so' j) = Some m"
      if "map_of (extern_symbol_indices so') m = Some j" for m j
    proof (cases "m = nm")
      case True
      with that have "j = i" by (simp add: so')
      then show ?thesis by (simp add: x True) (simp add: so')
    next
      case False
      with that have "map_of (extern_symbol_indices so) m = Some j" by (simp add: so')
      then show ?thesis using ok g by (simp add: x names_ok_def names_grow_def)
    qed
    moreover have "of_bytesInAddress (so_obj so') = 8" using ok by (simp add: names_ok_def so')
    ultimately have "names_ok so'" by (simp add: names_ok_def)
    with g show ?thesis by (simp add: e' a) (simp add: so')
  qed
  then show "names_ok so'" "names_grow so so'" "map_of (symbol_names so') (implode e') = Some nm"
    "section_idx_plus_one e' = section_idx_plus_one e" "\<exists>i. implode e' = extern_addr so i"
    "\<exists>i. map_of (extern_symbol_indices so') nm = Some i \<and> implode e' = extern_addr so i" by auto
qed

lemma defined_address_ok:
  assumes ok: "names_ok so" and r: "defined_address symb sec addr addend e so = Ok (e', so')"
  shows "names_ok so'" and "names_grow so so'" and "map_of (symbol_names so') (implode e') \<noteq> None"
    and "section_idx_plus_one e' = section_idx_plus_one e"
proof -
  define f where "f = e\<lparr>section_offset := ucast (addr - sh_address sec + (case addend of None \<Rightarrow> 0 | Some a \<Rightarrow> a))\<rparr>"
  have c: "e' = f \<and> (so' = so \<and> implode f \<in> fst ` set (symbol_names so) \<or>
      (\<exists>nm. so' = so\<lparr>symbol_names := (implode f, nm) # symbol_names so\<rparr> \<and>
        implode f \<notin> fst ` set (symbol_names so)))"
    using r by (auto simp: defined_address_def Let_def ok_iff f_def split: if_splits)
  have n: "names_ok (so\<lparr>symbol_names := (implode f, nm) # symbol_names so\<rparr>)"
    if "implode f \<notin> fst ` set (symbol_names so)" for nm
  proof -
    note g = names_grow_add(2) [OF that, of nm]
    show ?thesis using ok g by (simp add: names_ok_def names_grow_def extern_addr_def)
  qed
  show "names_ok so'" using c n ok by auto
  show "names_grow so so'" using c names_grow_add(2) by auto
  show "map_of (symbol_names so') (implode e') \<noteq> None"
    using c by (auto simp: map_of_eq_None_iff)
  show "section_idx_plus_one e' = section_idx_plus_one e" using c by (simp add: f_def)
qed

lemma add_relocation_ok:
  assumes ok: "names_ok so" and m: "map_named so m" and r: "add_relocation rel (m, so) = Ok (m', so')"
  shows "names_ok so' \<and> map_named so' m' \<and> names_grow so so'"
proof (cases "rel_symbol rel")
  case None
  then show ?thesis using r ok m by (simp add: add_relocation_def ok_iff)
next
  case (Some symb)
  then obtain addr sect where s: "sym_address symb = Ok addr" "sym_section symb = Ok sect"
    using r by (auto simp: add_relocation_def ok_iff)
  show ?thesis
  proof (cases sect)
    case None
    with r s Some obtain nm e e' where
      1: "set_section_idx (of_nat (extern_symbols_section so)) exploded_zero = Ok e"
      and 2: "extern_address nm e so = Ok (e', so')" and m': "m' = (rel_offset rel, implode e') # m"
      by (auto simp: add_relocation_def ok_iff)
    have e: "e = \<lparr>section_offset = 0,
      section_idx_plus_one = ucast (of_nat (extern_symbols_section so) :: u64) + 1, ex_zero = 0\<rparr>"
      using set_section_idx_ok(1) [OF 1] by (simp add: exploded_zero_def)
    note x = extern_address_ok [OF ok e 2]
    have "implode e' \<noteq> 0" using x(4) set_section_idx_ok(2) [OF 1] by (intro implode_nonzero) simp
    with x(1-3) map_named_grow [OF m x(2)] show ?thesis by (simp add: m' map_named_def)
  next
    case (Some sec)
    with r s \<open>rel_symbol rel = Some symb\<close> obtain e e' where
      1: "set_section_idx (sh_index sec) exploded_zero = Ok e"
      and 2: "defined_address symb sec addr (rel_addend rel) e so = Ok (e', so')"
      and m': "m' = (rel_offset rel, implode e') # m"
      by (auto simp: add_relocation_def ok_iff)
    note x = defined_address_ok [OF ok 2]
    have "implode e' \<noteq> 0" using x(4) set_section_idx_ok(2) [OF 1] by (intro implode_nonzero) simp
    with x(1-3) map_named_grow [OF m x(2)] show ?thesis by (simp add: m' map_named_def)
  qed
qed

definition reloc_inv :: "static_object \<Rightarrow> reloc_map \<times> static_object \<Rightarrow> bool" where
  "reloc_inv so st \<longleftrightarrow> names_ok (snd st) \<and> map_named (snd st) (fst st) \<and> names_grow so (snd st)"

lemma reloc_inv_step:
  assumes "reloc_inv so st" and "add_relocation rel st = Ok st'"
  shows "reloc_inv so st'"
  using assms add_relocation_ok [of "snd st" "fst st" rel "fst st'" "snd st'"]
    names_grow_trans [of so "snd st" "snd st'"]
  by (simp add: reloc_inv_def)

lemma reloc_inv_section:
  assumes "reloc_inv so st" and "add_relocation_section idx sec st = Ok st'"
  shows "reloc_inv so st'"
proof -
  from assms(2) consider "st' = st" | "for_each add_relocation (sh_relocs sec) st = Ok st'"
    by (auto simp: add_relocation_section_def ok_iff split: option.splits if_splits)
  then show ?thesis
  proof cases
    case 2
    then show ?thesis using assms(1)
      by (rule for_each_inv [where P = "reloc_inv so"]) (rule reloc_inv_step)
  qed (use assms(1) in simp)
qed

lemma relocation_sections_ok:
  assumes "names_ok so" and "for_each (add_relocation_section idx) secs ([], so) = Ok (m', so')"
  shows "names_ok so' \<and> map_named so' m' \<and> names_grow so so'"
proof -
  have "reloc_inv so ([], so)" using assms(1) by (simp add: reloc_inv_def map_named_def)
  with assms(2) have "reloc_inv so (m', so')"
    by (rule for_each_inv [where P = "reloc_inv so"]) (rule reloc_inv_section)
  then show ?thesis by (simp add: reloc_inv_def)
qed

lemma relocations_ok:
  assumes inv: "names_ok so" and s: "section_ok so s" and r: "relocations s so = Ok (m, s', so')"
  shows "names_ok so'" and "names_grow so so'" and "map_named so' m" and "section_ok so' s'"
    and "ss_section s' = ss_section s"
proof -
  have "names_ok so' \<and> names_grow so so' \<and> map_named so' m \<and> section_ok so' s' \<and>
      ss_section s' = ss_section s"
  proof (cases "lazy_relocations s")
    case (Some m1)
    then show ?thesis using r inv s by (auto simp: relocations_def section_ok_def)
  next
    case None
    with r obtain sec where sec: "ss_section s = Some sec"
      and f: "for_each (add_relocation_section (sh_index sec)) (of_sections (so_obj so)) ([], so) = Ok (m, so')"
      and s': "s' = s\<lparr>lazy_relocations := Some m\<rparr>"
      by (auto simp: relocations_def ok_iff split: option.splits)
    note n = relocation_sections_ok [OF inv f]
    have "section_ok so' s'" using s n by (simp add: section_ok_def s')
    with n show ?thesis by (simp add: s')
  qed
  then show "names_ok so'" "names_grow so so'" "map_named so' m" "section_ok so' s'"
    "ss_section s' = ss_section s" by simp_all
qed

lemma upd_section_inv:
  assumes "names_ok so'" and "\<forall>s. Some s \<in> set (so_sections so) \<longrightarrow> section_ok so s"
    and "names_grow so so'" and "section_ok so' s"
  shows "so_inv (upd_section i s so')"
proof -
  let ?u = "upd_section i s so'"
  have n: "names_ok ?u" "names_grow so' (?u\<lparr>so_sections := so_sections so'\<rparr>)"
    using assms(1) by (auto simp: names_ok_def upd_section_def extern_addr_def names_grow_def)
  have k: "section_ok ?u t = section_ok so' t" for t
    by (simp add: section_ok_def map_named_def upd_section_def)
  have "section_ok so' t" if "Some t \<in> set (so_sections ?u)" for t
  proof -
    from that have "t = s \<or> Some t \<in> set (so_sections so')"
      using set_update_subset_insert [of "so_sections so'" i "Some s"] by (auto simp: upd_section_def)
    then show ?thesis
      using assms(2-4) section_ok_grow [OF _ assms(3), of t] by (auto simp: names_grow_def)
  qed
  with n(1) k show ?thesis by (simp add: so_inv_def)
qed

lemma contents_ok:
  assumes "section_ok so s" and "contents s = Ok (bs, s')"
  shows "section_ok so s'" and "\<exists>sec. ss_section s = Some sec \<and> sh_contents sec = Ok bs"
    and "ss_section s' = ss_section s"
  using assms by (auto simp: contents_def section_ok_def ok_iff split: option.splits)

lemma copyData_cases:
  assumes "so_copyData n a so = Ok (bs, so')"
  obtains "n = 0" "bs = []" "so' = so"
  | idx s body s' where "section_idx (explode a) = Ok idx" "idx < length (so_sections so)"
    "so_sections so ! idx = Some s" "contents s = Ok (body, s')" "so' = upd_section idx s' so"
    "unat (section_offset (explode a)) + n \<le> length body"
    "bs = take n (drop (unat (section_offset (explode a))) body)"
proof (cases "n = 0")
  case True
  then show thesis using assms that(1) by (simp add: so_copyData_def)
next
  case False
  then obtain idx where 1: "section_idx (explode a) = Ok idx" "idx < length (so_sections so)"
    and 2: "(case so_sections so ! idx of
           None \<Rightarrow> Err (new_error (''section '' @ show_dec idx @ '' is undefined''))
         | Some s \<Rightarrow>
             try_r (contents s) (\<lambda>(section_body, s).
               ensure (unat (section_offset (explode a)) \<le> length section_body)
                    ''Section offset is out of bounds for section''
                  (ensure (n \<le> length (drop (unat (section_offset (explode a))) section_body))
                        (''Can only copy '' @ show_dec (length (drop (unat (section_offset (explode a))) section_body)) @ '' bytes. '' @
                         show_dec n @ '' bytes desired.'')
                      (Ok (take n (drop (unat (section_offset (explode a))) section_body), upd_section idx s so))))) = Ok (bs, so')"
    using assms unfolding so_copyData_def Let_def by (auto simp only: if_False ok_iff)
  from 2 obtain s body s' where 3: "so_sections so ! idx = Some s" "contents s = Ok (body, s')"
    "so' = upd_section idx s' so" "unat (section_offset (explode a)) \<le> length body"
    "n \<le> length (drop (unat (section_offset (explode a))) body)"
    "bs = take n (drop (unat (section_offset (explode a))) body)"
    by (auto simp: ok_iff split: option.splits)
  show thesis by (rule that(2) [OF 1 3(1-3) _ 3(6)]) (use 3(4,5) in simp)
qed

lemma copyData_inv:
  assumes inv: "so_inv so" and r: "so_copyData n a so = Ok (bs, so')"
  shows "so_inv so'" and "length bs = n"
proof -
  from r have "so_inv so' \<and> length bs = n"
  proof (cases rule: copyData_cases)
    case 1
    then show ?thesis using inv by simp
  next
    case (2 idx s body s')
    have s: "Some s \<in> set (so_sections so)" using 2(2,3) nth_mem by metis
    then have "section_ok so s'" using contents_ok(1) 2(4) inv by (auto simp: so_inv_def)
    then have "so_inv so'" unfolding 2(5) using inv by (intro upd_section_inv) (auto simp: so_inv_def)
    with 2(6,7) show ?thesis by simp
  qed
  then show "so_inv so'" "length bs = n" by simp_all
qed

lemma resolve_all:
  "for_each (\<lambda>i out. try_r (resolve_at sec nm m (base + of_nat (i * 8))) (\<lambda>a. Ok (out @ [a]))) is out = Ok out' \<Longrightarrow>
    \<exists>ps. out' = out @ ps \<and> list_all2 (\<lambda>i p. resolve_at sec nm m (base + of_nat (i * 8)) = Ok p) is ps"
proof (induction "is" arbitrary: out)
  case (Cons i "is")
  from Cons.prems obtain a where a: "resolve_at sec nm m (base + of_nat (i * 8)) = Ok a"
    and rest: "for_each (\<lambda>i out. try_r (resolve_at sec nm m (base + of_nat (i * 8))) (\<lambda>a. Ok (out @ [a])))
      is (out @ [a]) = Ok out'" by (auto simp: ok_iff)
  from Cons.IH [OF rest] obtain ps where "out' = (out @ [a]) @ ps"
    and "list_all2 (\<lambda>i p. resolve_at sec nm m (base + of_nat (i * 8)) = Ok p) is ps" by blast
  with a show ?case by (intro exI [of _ "a # ps"]) simp
qed simp

lemma resolvePointers_cases:
  assumes "so_resolvePointers n a so = Ok (ps, so')"
  obtains "n = 0" "ps = []" "so' = so" "of_bytesInAddress (so_obj so) = 8"
  | idx s sec m s' so1 where "section_idx (explode a) = Ok idx" "idx < length (so_sections so)"
    "so_sections so ! idx = Some s" "ss_section s = Some sec" "relocations s so = Ok (m, s', so1)"
    "so' = upd_section idx s' so1"
    "list_all2 (\<lambda>i p. resolve_at sec (ss_name s') m
       (sh_address sec + ucast (section_offset (explode a)) + of_nat (i * 8)) = Ok p) [0..<n] ps"
proof (cases "n = 0")
  case True
  with assms have "ps = []" "so' = so" "of_bytesInAddress (so_obj so) = 8"
    by (auto simp: so_resolvePointers_def ok_iff)
  with True show thesis by (rule that(1))
next
  case False
  from assms False obtain idx where i: "section_idx (explode a) = Ok idx"
      "idx < length (so_sections so)"
    and c: "(case so_sections so ! idx of
           None \<Rightarrow> Abort
         | Some s \<Rightarrow>
             case ss_section s of
               None \<Rightarrow> Abort
             | Some sec \<Rightarrow>
                 let off = (ucast (section_offset (explode a)) :: u64);
                     room = (sh_size sec - off) div 8
                 in ensure (off \<le> sh_size sec) ''Section offset is out of bounds for section''
                   (ensure (n \<le> unat room)
                     (''Can only copy '' @ show_dec (unat room) @ '' addresses. '' @ show_dec n @
                      '' addresses desired.'')
                     (try_r (relocations s so) (\<lambda>(m, s, so).
                        let so = upd_section idx s so;
                            base_address = sh_address sec + ucast (section_offset (explode a))
                        in try_r (for_each (\<lambda>i out. try_r (resolve_at sec (ss_name s) m
                               (base_address + of_nat (i * 8))) (\<lambda>a. Ok (out @ [a]))) [0..<n] [])
                             (\<lambda>out. Ok (out, so)))))) = Ok (ps, so')"
    unfolding so_resolvePointers_def Let_def by (auto simp only: if_False ok_iff)
  from c obtain s sec where s: "so_sections so ! idx = Some s" "ss_section s = Some sec"
    by (auto split: option.splits)
  from c obtain m s' so1 where 1: "relocations s so = Ok (m, s', so1)" "so' = upd_section idx s' so1"
    and 2: "for_each (\<lambda>i out. try_r (resolve_at sec (ss_name s') m
        (sh_address sec + ucast (section_offset (explode a)) + of_nat (i * 8))) (\<lambda>a. Ok (out @ [a])))
      [0..<n] [] = Ok ps"
    by (auto simp: s ok_iff Let_def)
  note 1 = i s 1
  from resolve_all [OF 2] show thesis by (intro that(2) [OF 1]) auto
qed

lemma resolved_named:
  assumes "map_named so m" and "resolve_at sec nm m a = Ok p"
  shows "p = 0 \<or> map_of (symbol_names so) p \<noteq> None"
proof (cases "map_of m a")
  case None
  then show ?thesis using assms(2) by (simp add: resolve_at_def ok_iff)
next
  case (Some q)
  then have "(a, q) \<in> set m" by (rule map_of_SomeD)
  with Some assms show ?thesis by (auto simp: resolve_at_def map_named_def)
qed

lemma resolvePointers_ok:
  assumes inv: "so_inv so" and r: "so_resolvePointers n a so = Ok (ps, so')"
  shows "so_inv so'" and "length ps = n"
    and "\<forall>p\<in>set ps. p = 0 \<or> map_of (symbol_names so') p \<noteq> None"
proof -
  from r have "so_inv so' \<and> length ps = n \<and>
      (\<forall>p\<in>set ps. p = 0 \<or> map_of (symbol_names so') p \<noteq> None)"
  proof (cases rule: resolvePointers_cases)
    case 1
    then show ?thesis using inv by simp
  next
    case (2 idx s sec m s' so1)
    have s: "Some s \<in> set (so_sections so)" using 2(2,3) nth_mem by metis
    have nk: "names_ok so" "section_ok so s" using inv s by (simp_all add: so_inv_def)
    note x = relocations_ok [OF nk 2(5)]
    have "so_inv so'"
      unfolding 2(6) using inv by (intro upd_section_inv [OF x(1) _ x(2) x(4)]) (simp add: so_inv_def)
    moreover have "length ps = n" using list_all2_lengthD [OF 2(7)] by simp
    moreover have "p = 0 \<or> map_of (symbol_names so') p \<noteq> None" if "p \<in> set ps" for p
    proof -
      from 2(7) that obtain i where "resolve_at sec (ss_name s') m
          (sh_address sec + ucast (section_offset (explode a)) + of_nat (i * 8)) = Ok p"
        by (auto simp: list_all2_conv_all_nth in_set_conv_nth)
      from resolved_named [OF x(3) this] show ?thesis by (simp add: 2(6) upd_section_def)
    qed
    ultimately show ?thesis by blast
  qed
  then show "so_inv so'" "length ps = n" "\<forall>p\<in>set ps. p = 0 \<or> map_of (symbol_names so') p \<noteq> None"
    by simp_all
qed

interpretation static: object_contract static_api so_inv
proof
  fix w n a bs w'
  assume inv: "so_inv w" and "copyData static_api n a w = Ok (bs, w')"
  then show "length bs = n" "so_inv w'" using copyData_inv by (auto simp: static_api_def)
next
  fix w n a ps w'
  assume inv: "so_inv w" and "resolvePointers static_api n a w = Ok (ps, w')"
  then show "length ps = n" "so_inv w'" using resolvePointers_ok(1,2) by (auto simp: static_api_def)
next
  fix w a s w'
  assume "so_inv w" and "symbolName static_api a w = Ok (s, w')"
  then show "so_inv w'" by (auto simp: static_api_def so_symbolName_def split: option.splits)
next
  fix w a
  assume "so_inv w"
  then show "copyData static_api 0 a w = Ok ([], w)" "resolvePointers static_api 0 a w = Ok ([], w)"
    by (simp_all add: static_api_def so_copyData_def so_resolvePointers_def so_inv_def names_ok_def)
qed


text \<open>
  C28. External symbols are interned: two relocations against external symbols get the same made-up
  address exactly when the symbols have the same name, and each address has its symbol's name.
\<close>

theorem extern_addresses:
  assumes "so_inv so"
    and "set_section_idx (of_nat (extern_symbols_section so)) exploded_zero = Ok e"
    and "extern_address n1 e so = Ok (e1, so1)" and "extern_address n2 e so1 = Ok (e2, so2)"
  shows "(implode e1 = implode e2) = (n1 = n2) \<and>
    so_symbolName (implode e1) so2 = Ok (n1, so2) \<and> so_symbolName (implode e2) so2 = Ok (n2, so2)"
proof -
  have ok: "names_ok so" using assms(1) by (simp add: so_inv_def)
  have e: "e = \<lparr>section_offset = 0,
      section_idx_plus_one = ucast (of_nat (extern_symbols_section so) :: u64) + 1, ex_zero = 0\<rparr>"
    using set_section_idx_ok(1) [OF assms(2)] by (simp add: exploded_zero_def)
  note x = extern_address_ok [OF ok e assms(3)]
  have ext: "extern_symbols_section so1 = extern_symbols_section so" using x(2) by (simp add: names_grow_def)
  have e': "e = \<lparr>section_offset = 0,
      section_idx_plus_one = ucast (of_nat (extern_symbols_section so1) :: u64) + 1, ex_zero = 0\<rparr>"
    by (simp add: e ext)
  note y = extern_address_ok [OF x(1) e' assms(4)]
  have m1: "map_of (symbol_names so2) (implode e1) = Some n1" using x(3) y(2) by (simp add: names_grow_def)
  have "e1 = e2" if "n1 = n2"
    using that assms(3,4) by (auto simp: extern_address_def Let_def ok_iff split: option.splits)
  with m1 y(3) show ?thesis by (auto simp: so_symbolName_def)
qed

text \<open>
  Copying from a section whose contents LLVM can provide succeeds for every range inside it and
  returns exactly the section's bytes from the offset in the address, from the file or from the
  cache.
\<close>

theorem copyData_bytes:
  assumes "so_inv so" and "i < length (so_sections so)" and "i < 65535"
    and "so_sections so ! i = Some s" and "ss_section s = Some sec" and "sh_contents sec = Ok body"
    and "length body = unat (sh_size sec)" and "unat off + n \<le> length body"
  shows "\<exists>so'. so_copyData n
      (implode \<lparr>section_offset = off, section_idx_plus_one = of_nat (i + 1), ex_zero = 0\<rparr>) so =
      Ok (take n (drop (unat off) body), so') \<and> so_inv so'"
proof -
  let ?e = "\<lparr>section_offset = off, section_idx_plus_one = of_nat (i + 1), ex_zero = 0\<rparr>"
  have u: "unat (of_nat (i + 1) :: u16) = i + 1" using assms(3) by (intro unat_of_nat_small) simp
  have idx: "section_idx ?e = Ok i"
  proof -
    have "unat (of_nat (i + 1) - 1 :: u16) = i" using u by (subst unat_minus_one) auto
    then show ?thesis using u by (simp add: section_idx_def word_le_nat_alt)
  qed
  have room: "unat off \<le> length body" "n \<le> length body - unat off" using assms(8) by linarith+
  have ne: "implode ?e \<noteq> 0" using u by (intro implode_nonzero) auto
  have s: "Some s \<in> set (so_sections so)" using assms(2,4) nth_mem by metis
  then have "section_ok so s" using assms(1) by (simp add: so_inv_def)
  then obtain s' where c: "contents s = Ok (body, s')"
    using assms(5-7) by (cases "lazy_contents s") (auto simp: contents_def section_ok_def)
  have "so_copyData n (implode ?e) so = Ok (take n (drop (unat off) body), if n = 0 then so else upd_section i s' so)"
    using assms(2,4) ne idx c room by (simp add: so_copyData_def Let_def)
  then show ?thesis using copyData_inv(1) [OF assms(1)] by blast
qed

text \<open>Every section of the file is in the table under its index.\<close>

definition table_of :: "section_ref list \<Rightarrow> static_section option list \<Rightarrow> bool" where
  "table_of seen secs \<longleftrightarrow>
     (\<forall>sec\<in>set seen. unat (sh_index sec) < length secs \<and>
        (\<exists>nm. sh_name sec = Ok nm \<and> secs ! unat (sh_index sec) = Some (new_section nm (Some sec)))) \<and>
     (\<forall>s. Some s \<in> set secs \<longrightarrow> (\<exists>sec\<in>set seen. \<exists>nm. s = new_section nm (Some sec)))"

lemma init_section_table:
  assumes t: "table_of seen secs" and r: "init_section sec secs = Ok secs'"
  shows "table_of (seen @ [sec]) secs'"
proof -
  let ?i = "unat (sh_index sec)"
  define g where "g = (if length secs \<le> ?i + 1 then grow_sections (?i + 1) secs else secs)"
  from r obtain nm where nm: "sh_name sec = Ok nm" and none: "g ! ?i = None"
    and s': "secs' = g[?i := Some (new_section nm (Some sec))]"
    unfolding init_section_def Let_def g_def [symmetric] by (auto simp: ok_iff)
  have len: "length secs \<le> length g" "?i < length g" by (simp_all add: g_def grow_sections_def)
  have old: "g ! k = secs ! k" if "k < length secs" for k
    using that by (simp add: g_def grow_sections_def nth_append)
  have gs: "Some s \<in> set g \<Longrightarrow> Some s \<in> set secs" for s
    by (auto simp: g_def grow_sections_def split: if_splits)
  have "unat (sh_index d) < length secs' \<and>
      (\<exists>nm. sh_name d = Ok nm \<and> secs' ! unat (sh_index d) = Some (new_section nm (Some d)))"
    if d: "d \<in> set seen" for d
  proof -
    from t d obtain m where m: "unat (sh_index d) < length secs" "sh_name d = Ok m"
      "secs ! unat (sh_index d) = Some (new_section m (Some d))" by (auto simp: table_of_def)
    then have "?i \<noteq> unat (sh_index d)" using none old [of "unat (sh_index d)"] by auto
    with m old [of "unat (sh_index d)"] len show ?thesis by (simp add: s')
  qed
  moreover have "\<exists>sec'\<in>set (seen @ [sec]). \<exists>nm. s = new_section nm (Some sec')" if "Some s \<in> set secs'" for s
  proof -
    from that have "s = new_section nm (Some sec) \<or> Some s \<in> set secs"
      using set_update_subset_insert [of g ?i] gs by (auto simp: s')
    then show ?thesis using t by (auto simp: table_of_def)
  qed
  ultimately show ?thesis using nm len by (auto simp: table_of_def s')
qed

lemma init_sections_table:
  "table_of seen secs \<Longrightarrow> for_each init_section ss secs = Ok secs' \<Longrightarrow> table_of (seen @ ss) secs'"
proof (induction ss arbitrary: seen secs)
  case (Cons sec ss)
  from Cons.prems(2) obtain secs1 where 1: "init_section sec secs = Ok secs1"
    and 2: "for_each init_section ss secs1 = Ok secs'" by (auto simp: ok_iff)
  from Cons.IH [OF init_section_table [OF Cons.prems(1) 1] 2] show ?case by simp
qed simp

text \<open>
  Opening an object file indexes it: every section of the file is in the table at its own index,
  under its name, the made-up section for external symbols is the last one and no section of the
  file has its index, nothing is cached, and the invariant of the object's later operations holds.
\<close>

theorem StaticObject_init_table:
  assumes "StaticObject_init obj = Ok so" and "of_bytesInAddress obj = 8"
  shows "so_inv so \<and> extern_symbols_section so + 1 = length (so_sections so) \<and>
    (\<forall>sec\<in>set (of_sections obj). unat (sh_index sec) < extern_symbols_section so \<and>
      (\<exists>nm. sh_name sec = Ok nm \<and>
        so_sections so ! unat (sh_index sec) = Some (new_section nm (Some sec))))"
proof -
  from assms(1) obtain secs where f: "for_each init_section (of_sections obj) [] = Ok secs"
    and so: "so = \<lparr>so_obj = obj,
           so_sections = secs @ [Some (new_section ''extern symbols section (bracelet)'' None)],
           extern_symbols_section = length secs, extern_symbol_indices = [], symbol_names = []\<rparr>"
    by (auto simp: StaticObject_init_def ok_iff)
  have "table_of [] []" by (simp add: table_of_def)
  from init_sections_table [OF this f] have t: "table_of (of_sections obj) secs" by simp
  have lazy: "section_ok so (new_section nm r)" for nm r
    by (simp add: section_ok_def new_section_def)
  then have "section_ok so s" if "Some s \<in> set (so_sections so)" for s
    using that t by (auto simp: so table_of_def)
  then have "so_inv so" using assms(2) by (simp add: so_inv_def names_ok_def) (simp add: so)
  with t show ?thesis by (auto simp: so table_of_def nth_append)
qed

subsection \<open>An example\<close>

text \<open>A text section and a data section with one relocated pointer to an external symbol and one
  to the start of the text.\<close>

definition ex_text :: section_ref where
  "ex_text = \<lparr>sh_index = 1, sh_name = Ok ''.text'', sh_address = 0x1000, sh_size = 4,
     sh_contents = Ok [1, 2, 3, 4], sh_isBSS = False, sh_relocated = Ok None, sh_relocs = []\<rparr>"

definition ex_data :: section_ref where
  "ex_data = \<lparr>sh_index = 2, sh_name = Ok ''GR_graph_edges'', sh_address = 0x2000, sh_size = 16,
     sh_contents = Ok (replicate 16 0), sh_isBSS = False, sh_relocated = Ok None, sh_relocs = []\<rparr>"

definition ex_rela :: section_ref where
  "ex_rela = \<lparr>sh_index = 3, sh_name = Ok ''.rela'', sh_address = 0, sh_size = 0,
     sh_contents = Ok [], sh_isBSS = False, sh_relocated = Ok (Some (obj_header.truncate ex_data)),
     sh_relocs =
       [\<lparr>rel_offset = 0x2000, rel_symbol = Some \<lparr>sym_name = Ok ''puts'', sym_address = Ok 0,
          sym_section = Ok None\<rparr>, rel_addend = None\<rparr>,
        \<lparr>rel_offset = 0x2008, rel_symbol = Some \<lparr>sym_name = Ok ''main'', sym_address = Ok 0x1000,
          sym_section = Ok (Some (obj_header.truncate ex_text))\<rparr>, rel_addend = Some 2\<rparr>]\<rparr>"

definition ex_obj :: obj_file where
  "ex_obj = \<lparr>of_sections = [ex_text, ex_data, ex_rela], of_apple = False, of_bytesInAddress = 8\<rparr>"

definition ex_so :: static_object where
  "ex_so = \<lparr>so_obj = ex_obj,
     so_sections = [None, Some (new_section ''.text'' (Some ex_text)),
       Some (new_section ''GR_graph_edges'' (Some ex_data)), Some (new_section ''.rela'' (Some ex_rela)),
       Some (new_section ''extern symbols section (bracelet)'' None)],
     extern_symbols_section = 4, extern_symbol_indices = [], symbol_names = []\<rparr>"

lemma list_two_three:
  "replicate 2 x = [x, x]" "(a # b # c # xs)[2 := x] = a # b # x # xs"
  "(a # b # c # d # xs)[3 := x] = a # b # c # x # xs"
  by (simp_all add: numeral_2_eq_2 numeral_3_eq_3)

lemma ex_so_init: "StaticObject_init ex_obj = Ok ex_so"
proof -
  let ?t = "Some (new_section ''.text'' (Some ex_text))"
  let ?d = "Some (new_section ''GR_graph_edges'' (Some ex_data))"
  have "init_section ex_text [] = Ok [None, ?t]"
    by (simp add: init_section_def grow_sections_def list_two_three Let_def)
      (simp add: ex_text_def list_two_three)
  moreover have "init_section ex_data [None, ?t] = Ok [None, ?t, ?d]"
    by (simp add: init_section_def grow_sections_def Let_def) (simp add: ex_data_def list_two_three)
  moreover have "init_section ex_rela [None, ?t, ?d] =
      Ok [None, ?t, ?d, Some (new_section ''.rela'' (Some ex_rela))]"
    by (simp add: init_section_def grow_sections_def Let_def) (simp add: ex_rela_def list_two_three)
  ultimately have "for_each init_section [ex_text, ex_data, ex_rela] [] =
      Ok [None, ?t, ?d, Some (new_section ''.rela'' (Some ex_rela))]" by simp
  then show ?thesis by (simp add: StaticObject_init_def ex_obj_def ex_so_def)
qed

theorem StaticObject_init_table_witness:
  "so_inv ex_so \<and> extern_symbols_section ex_so + 1 = length (so_sections ex_so) \<and>
   so_sections ex_so ! 1 = Some (new_section ''.text'' (Some ex_text))"
proof -
  have t: "so_inv ex_so \<and> extern_symbols_section ex_so + 1 = length (so_sections ex_so) \<and>
    (\<forall>sec\<in>set (of_sections ex_obj). unat (sh_index sec) < extern_symbols_section ex_so \<and>
      (\<exists>nm. sh_name sec = Ok nm \<and>
        so_sections ex_so ! unat (sh_index sec) = Some (new_section nm (Some sec))))"
    by (rule StaticObject_init_table [OF ex_so_init]) (simp add: ex_obj_def)
  have m: "ex_text \<in> set (of_sections ex_obj)" by (simp add: ex_obj_def)
  have "sh_name ex_text = Ok ''.text''" "unat (sh_index ex_text) = 1" by (simp_all add: ex_text_def)
  with t m show ?thesis by (metis result.inject(1))
qed

lemma ex_so_inv: "so_inv ex_so"
  by (auto simp: so_inv_def names_ok_def section_ok_def ex_so_def ex_obj_def new_section_def)

theorem copyData_bytes_witness:
  "\<exists>so'. so_copyData 2
      (implode \<lparr>section_offset = 1, section_idx_plus_one = of_nat (1 + 1), ex_zero = 0\<rparr>) ex_so =
      Ok (take 2 (drop (unat (1 :: u32)) [1, 2, 3, 4]), so') \<and> so_inv so'"
  by (rule copyData_bytes [OF ex_so_inv, where s = "new_section ''.text'' (Some ex_text)" and sec = ex_text])
    (simp_all add: ex_so_def new_section_def ex_text_def)

theorem translateAddr_section_witness:
  "\<exists>sec\<in>set (of_sections ex_obj).
    sh_address sec \<le> 0x1002 \<and> unat (0x1002 :: u64) < unat (sh_address sec) + unat (sh_size sec) \<and>
    (\<forall>other\<in>set (of_sections ex_obj). sh_address other \<le> 0x1002 \<longrightarrow> sh_address other \<le> sh_address sec) \<and>
    explode (implode \<lparr>section_offset = 2, section_idx_plus_one = 2, ex_zero = 0\<rparr>) =
      \<lparr>section_offset = ucast (0x1002 - sh_address sec),
      section_idx_plus_one = ucast (sh_index sec) + 1, ex_zero = 0\<rparr>"
proof (rule translateAddr_section)
  show "translateAddr (load_sections ex_obj) 0x1002 =
      Ok (implode \<lparr>section_offset = 2, section_idx_plus_one = 2, ex_zero = 0\<rparr>)"
    by (simp add: translateAddr_def load_sections_def ex_obj_def ex_text_def ex_data_def ex_rela_def
        section_idx_of_set(1) exploded_zero_def Let_def obj_header.truncate_def)
qed


lemma ex_set_idx: "set_section_idx 4 exploded_zero =
    Ok \<lparr>section_offset = 0, section_idx_plus_one = 5, ex_zero = 0\<rparr>"
  by (simp add: section_idx_of_set(1) exploded_zero_def)

theorem extern_addresses_witness:
  "\<exists>e1 so1 e2 so2. extern_address ''puts'' \<lparr>section_offset = 0, section_idx_plus_one = 5, ex_zero = 0\<rparr> ex_so
      = Ok (e1, so1) \<and>
    extern_address ''gets'' \<lparr>section_offset = 0, section_idx_plus_one = 5, ex_zero = 0\<rparr> so1 = Ok (e2, so2) \<and>
    implode e1 \<noteq> implode e2"
proof -
  let ?e = "\<lparr>section_offset = 0, section_idx_plus_one = 5, ex_zero = 0\<rparr>"
  have 1: "extern_address ''puts'' ?e ex_so = Ok (?e, ex_so\<lparr>extern_symbol_indices := [(''puts'', 0)],
      symbol_names := [(implode ?e, ''puts'')]\<rparr>)"
    by (simp add: extern_address_def ex_so_def Let_def)
  have 2: "extern_address ''gets'' ?e (ex_so\<lparr>extern_symbol_indices := [(''puts'', 0)],
      symbol_names := [(implode ?e, ''puts'')]\<rparr>) = Ok (?e\<lparr>section_offset := 1\<rparr>,
      ex_so\<lparr>extern_symbol_indices := [(''gets'', 1), (''puts'', 0)],
      symbol_names := [(implode (?e\<lparr>section_offset := 1\<rparr>), ''gets''), (implode ?e, ''puts'')]\<rparr>)"
    by (simp add: extern_address_def implode_inject ex_so_def Let_def)
  have s: "set_section_idx (of_nat (extern_symbols_section ex_so)) exploded_zero = Ok ?e"
    using ex_set_idx by (simp add: ex_so_def)
  show ?thesis using extern_addresses [OF ex_so_inv s 1 2] 1 2 by blast
qed


end
