(* ===== verification/Coredump.thy ===== *)
theory Coredump
  imports Object_Parsing
begin

text \<open>
  \<open>src/ObjectParsing/CoredumpObject.cpp\<close>: a core dump opened in LLDB as an implementation of the
  \<open>Object\<close> interface, with the checks that opening makes. LLDB's answers are data of the model.
\<close>

section \<open>What LLDB tells\<close>

text \<open>
  The answers of an \<open>lldb::SBTarget\<close>, as data: modules with their section trees, compile units and
  files, and the memory of the core dump. A function is an answer that depends on an address.
\<close>

datatype sb_section =
  SBSection (sb_name: string) (sb_load_address: u64) (sb_size: u64) (sb_subsections: "sb_section list")

record sb_line_entry =
  le_file :: string
  le_line :: u32
  le_column :: u32
  le_start :: u64
  le_end :: u64

record sb_module =
  mod_sections :: "sb_section list"
  mod_file_backed :: bool
  mod_path :: string
  mod_directory :: string
  mod_resolve_file :: "u64 \<Rightarrow> u64 option"   \<comment> \<open>\<open>ResolveFileAddress\<close>, then the load address\<close>
  mod_compile_units :: "sb_line_entry list list"

record sb_symbol =
  mangled_name :: "string option"
  plain_name :: "string option"

record sb_target =
  tg_triple :: string
  tg_modules :: "sb_module list"
  tg_valid :: "u64 \<Rightarrow> bool"                   \<comment> \<open>\<open>ResolveLoadAddress(..).IsValid()\<close>\<close>
  tg_symbol :: "u64 \<Rightarrow> sb_symbol option"
  tg_show_address :: "u64 \<Rightarrow> string"
  tg_read :: "nat \<Rightarrow> u64 \<Rightarrow> bytes result"     \<comment> \<open>\<open>ReadMemory\<close>: what it read, or its error\<close>

section \<open>Sections\<close>

text \<open>\<open>walkSections\<close> visits a section before its subsections.\<close>

fun walkSection :: "(sb_section \<Rightarrow> 'w \<Rightarrow> 'w result) \<Rightarrow> sb_section \<Rightarrow> 'w \<Rightarrow> 'w result"
and walkSubSections :: "(sb_section \<Rightarrow> 'w \<Rightarrow> 'w result) \<Rightarrow> sb_section list \<Rightarrow> 'w \<Rightarrow> 'w result" where
  "walkSection cb (SBSection nm a n subs) w =
     try_r (cb (SBSection nm a n subs) w) (walkSubSections cb subs)"
| "walkSubSections cb [] w = Ok w"
| "walkSubSections cb (s # ss) w = try_r (walkSection cb s w) (walkSubSections cb ss)"

definition walkModule :: "(sb_section \<Rightarrow> 'w \<Rightarrow> 'w result) \<Rightarrow> sb_module \<Rightarrow> 'w \<Rightarrow> 'w result" where
  "walkModule cb m = walkSubSections cb (mod_sections m)"

definition walkTarget :: "(sb_section \<Rightarrow> 'w \<Rightarrow> 'w result) \<Rightarrow> sb_target \<Rightarrow> 'w \<Rightarrow> 'w result" where
  "walkTarget cb t = for_each (walkModule cb) (tg_modules t)"

text \<open>The name behind the \<open>PT_LOAD[##]\<close> prefix: what follows the first \<open>]\<close>.\<close>

definition strip_segment :: "string \<Rightarrow> string" where
  "strip_segment nm =
     (case dropWhile (\<lambda>c. c \<noteq> CHR '']'') nm of [] \<Rightarrow> nm | _ # rest \<Rightarrow> rest)"

definition core_section :: "sb_section \<Rightarrow> obj_section" where
  "core_section s = \<lparr>sec_name = strip_segment (sb_name s), sec_start = sb_load_address s,
     sec_size = sb_size s\<rparr>"

definition core_visitSections ::
  "sb_target \<Rightarrow> (obj_section \<Rightarrow> 'w \<Rightarrow> 'w result) \<Rightarrow> 'w \<Rightarrow> 'w result" where
  "core_visitSections t callback = walkTarget (\<lambda>s. callback (core_section s)) t"

section \<open>The object\<close>

record coredump =
  core_target :: sb_target
  core_names :: "(u64 \<times> string) list"

definition infix_of :: "string \<Rightarrow> string \<Rightarrow> bool" where
  "infix_of p s \<longleftrightarrow> (\<exists>i\<in>{0..<length s + 1}. take (length p) (drop i s) = p)"

definition core_isApple :: "coredump \<Rightarrow> bool" where
  "core_isApple c \<longleftrightarrow>
     infix_of ''apple'' (tg_triple (core_target c)) \<or> infix_of ''darwin'' (tg_triple (core_target c))"

definition core_symbolName :: "u64 \<Rightarrow> coredump \<Rightarrow> (string \<times> coredump) result" where
  "core_symbolName addr c =
     (case map_of (core_names c) addr of
        Some nm \<Rightarrow> Ok (nm, c)
      | None \<Rightarrow>
          ensure (tg_valid (core_target c) addr) (''Invalid load address '' @ show_hex (unat addr))
           (let nm = (case tg_symbol (core_target c) addr of
                None \<Rightarrow> None
              | Some s \<Rightarrow> (case mangled_name s of Some m \<Rightarrow> Some m | None \<Rightarrow> plain_name s));
                nm = (case nm of None \<Rightarrow> ''<unknown>'' | Some m \<Rightarrow> m)
            in Ok (nm, c\<lparr>core_names := (addr, nm) # core_names c\<rparr>)))"

definition core_copyData :: "nat \<Rightarrow> u64 \<Rightarrow> coredump \<Rightarrow> (bytes \<times> coredump) result" where
  "core_copyData n addr c =
     (if n = 0 then Ok ([], c)
      else ensure (tg_valid (core_target c) addr) (''Invalid load address '' @ show_hex (unat addr))
        (try_ctx (''Reading '' @ show_dec n @ '' bytes from address '' @ tg_show_address (core_target c) addr)
          (tg_read (core_target c) n addr) (\<lambda>bs.
            ensure (length bs = n)
              (''Only read '' @ show_dec (length bs) @ '' bytes from address '' @
               tg_show_address (core_target c) addr @ '' ('' @ show_dec n @ '' bytes wanted)'')
              (Ok (bs, c)))))"

text \<open>The pointers are the words that the bytes of the core dump hold.\<close>

fun read_words64 :: "nat \<Rightarrow> bytes \<Rightarrow> u64 list" where
  "read_words64 0 bs = []"
| "read_words64 (Suc n) bs = read64 (take 8 bs) # read_words64 n (drop 8 bs)"

definition core_resolvePointers :: "nat \<Rightarrow> u64 \<Rightarrow> coredump \<Rightarrow> (u64 list \<times> coredump) result" where
  "core_resolvePointers n addr c =
     try_r (core_copyData (8 * n) addr c) (\<lambda>(bs, c). Ok (read_words64 n bs, c))"

definition core_sections_of :: "coredump \<Rightarrow> obj_section list result" where
  "core_sections_of c = core_visitSections (core_target c) (\<lambda>s out. Ok (out @ [s])) []"

definition core_api :: "coredump object_api" where
  "core_api = \<lparr>isApple = core_isApple, object_sections = core_sections_of, symbolName = core_symbolName,
     copyData = core_copyData, resolvePointers = core_resolvePointers\<rparr>"

section \<open>Source locations and DWARF\<close>

record source_location =
  loc_file :: string
  loc_line :: u32
  loc_col :: u32

type_synonym source_location_map = "(source_location \<times> (u64 \<times> u64) list) list"

definition add_location ::
  "sb_line_entry \<Rightarrow> source_location_map \<Rightarrow> source_location_map" where
  "add_location e slm =
     (let k = \<lparr>loc_file = le_file e, loc_line = le_line e, loc_col = le_column e\<rparr>; r = (le_start e, le_end e)
      in case map_of slm k of
           None \<Rightarrow> slm @ [(k, [r])]
         | Some rs \<Rightarrow> map (\<lambda>(k', rs). if k' = k then (k', rs @ [r]) else (k', rs)) slm)"

definition sourceLocationMap :: "coredump \<Rightarrow> source_location_map" where
  "sourceLocationMap c =
     fold (\<lambda>m. fold (fold add_location) (mod_compile_units m)) (tg_modules (core_target c)) []"

definition translateAddress :: "sb_module \<Rightarrow> u64 \<Rightarrow> u64 result" where
  "translateAddress m secaddr =
     (case mod_resolve_file m secaddr of
        None \<Rightarrow> Err (new_error (''Translated dwarf address '' @ show_hex (unat secaddr) @ '' should be valid''))
      | Some a \<Rightarrow> Ok a)"

text \<open>\<open>GetPath\<close> fills a buffer of 260 characters.\<close>

definition core_dwarf_contexts ::
  "(string \<Rightarrow> dw_unit list result) \<Rightarrow> coredump \<Rightarrow> dw_context result list" where
  "core_dwarf_contexts open_dwarf c =
     map (\<lambda>m. try_r (open_dwarf (take 259 (mod_path m))) (\<lambda>units. Ok (units, translateAddress m)))
       (filter mod_file_backed (tg_modules (core_target c)))"

section \<open>Opening a core dump\<close>

text \<open>
  Paths as lists of their components, as the iterators of a normalised \<open>std::filesystem::path\<close>
  give them; \<open>normal\<close> is \<open>lexically_normal\<close>, \<open>absolute\<close> may fail. The target that LLDB creates is
  an argument for each of the two calls that can fail.
\<close>

fun is_prefix_path :: "string list \<Rightarrow> string list \<Rightarrow> bool" where
  "is_prefix_path [] ys = True"
| "is_prefix_path (x # xs) [] = False"
| "is_prefix_path (x # xs) (y # ys) = (x = y \<and> is_prefix_path xs ys)"

definition check_module ::
  "(string \<Rightarrow> string list) \<Rightarrow> string \<Rightarrow> (sb_module \<Rightarrow> string) \<Rightarrow> sb_module \<Rightarrow> unit \<Rightarrow> unit result" where
  "check_module normal sysroot_abs show_module m u =
     (if \<not> mod_file_backed m then Ok u
      else ensure (is_prefix_path (normal sysroot_abs) (normal (mod_directory m)))
        (''Module '' @ show_module m @ '' lives at '' @ mod_directory m @ '' outside the sysroot '' @ sysroot_abs)
        (Ok u))"

text \<open>\<open>std::quoted\<close> and the command for LLDB; the interpreter's error is \<open>Some\<close> message.\<close>

definition quoted :: "string \<Rightarrow> string" where
  "quoted s = CHR 0x22 # concat (map (\<lambda>c. if c = CHR 0x22 \<or> c = CHR 0x5C then [CHR 0x5C, c] else [c]) s) @ [CHR 0x22]"

definition object_map_command :: "string \<Rightarrow> string" where
  "object_map_command sysroot_abs =
     ''settings set target.object-map '' @ quoted ''/'' @ '' '' @ quoted sysroot_abs"

definition openCore ::
  "(string \<Rightarrow> unit result) \<Rightarrow> (string \<Rightarrow> string result) \<Rightarrow> (string \<Rightarrow> string option) \<Rightarrow>
   (string \<Rightarrow> sb_target result) \<Rightarrow> (string \<Rightarrow> string list) \<Rightarrow> (sb_module \<Rightarrow> string) \<Rightarrow>
   string \<Rightarrow> string \<Rightarrow> string \<Rightarrow> coredump result" where
  "openCore createTarget absolute handle_command load_core normal show_module exe sysroot core_file =
     try_ctx (''LLDB loading target: '' @ exe) (createTarget exe) (\<lambda>_.
     try_ctx (''Taking absolute path of '' @ sysroot) (absolute sysroot) (\<lambda>sysroot_abs.
     try_r (case handle_command (object_map_command sysroot_abs) of
              None \<Rightarrow> Ok ()
            | Some e \<Rightarrow> Err (new_error (''Configuring LLDB object map for sysroot '' @ sysroot_abs @
                '' failed: '' @ e))) (\<lambda>_.
     try_ctx (''Loading core file '' @ core_file @ '' for executable '' @ exe) (load_core core_file) (\<lambda>target.
     try_r (for_each (check_module normal sysroot_abs show_module) (tg_modules target) ()) (\<lambda>_.
       Ok \<lparr>core_target = target, core_names = []\<rparr>)))))"

section \<open>Properties\<close>

fun flatten_section :: "sb_section \<Rightarrow> sb_section list" where
  "flatten_section (SBSection nm a n subs) = SBSection nm a n subs # concat (map flatten_section subs)"

lemma walk_flatten:
  "walkSection cb s w = for_each cb (flatten_section s) w"
  "walkSubSections cb ss w = for_each cb (concat (map flatten_section ss)) w"
proof (induction cb s w and cb ss w rule: walkSection_walkSubSections.induct)
  case (1 cb nm a n subs w)
  then show ?case by (cases "cb (SBSection nm a n subs) w") simp_all
next
  case (3 cb s ss w)
  then show ?case by (cases "for_each cb (flatten_section s) w") (simp_all add: for_each_append)
qed simp

definition all_sections :: "sb_target \<Rightarrow> sb_section list" where
  "all_sections t = concat (map (\<lambda>m. concat (map flatten_section (mod_sections m))) (tg_modules t))"

lemma walkTarget_flatten: "walkTarget cb t w = for_each cb (all_sections t) w"
proof -
  have "for_each (walkModule cb) ms w =
      for_each cb (concat (map (\<lambda>m. concat (map flatten_section (mod_sections m))) ms)) w" for ms
  proof (induction ms arbitrary: w)
    case (Cons m ms)
    then show ?case
      by (cases "for_each cb (concat (map flatten_section (mod_sections m))) w")
        (simp_all add: for_each_append walkModule_def walk_flatten)
  qed simp
  then show ?thesis by (simp add: walkTarget_def all_sections_def)
qed

lemma for_each_map: "for_each (\<lambda>x. f (g x)) xs w = for_each f (map g xs) w"
proof (induction xs arbitrary: w)
  case (Cons x xs)
  then show ?case by (cases "f (g x) w") simp_all
qed simp

lemma core_visitSections_flat:
  "core_visitSections t callback w = for_each callback (map core_section (all_sections t)) w"
  unfolding core_visitSections_def walkTarget_flatten by (rule for_each_map)

text \<open>The interface's own \<open>visitSections\<close>, which goes through the list of sections, is this walk.\<close>

lemma core_sections_of_list: "core_sections_of c = Ok (map core_section (all_sections (core_target c)))"
proof -
  have "for_each (\<lambda>s out. Ok (out @ [s])) ss out = Ok (out @ ss)" for ss :: "obj_section list" and out
    by (induction ss arbitrary: out) simp_all
  then show ?thesis by (simp add: core_sections_of_def core_visitSections_flat)
qed

lemma core_visitSections_api:
  "visitSections core_api callback c = core_visitSections (core_target c) callback c"
  by (simp add: visitSections_def core_api_def core_sections_of_list core_visitSections_flat)

text \<open>
  The recursive walk over modules and nested sections runs the callback, with the segment prefix
  stripped from the names, over the sections in preorder and stops at its first failure: it is the
  plain loop over the flattened list.
\<close>

theorem core_visitSections_order:
  "core_visitSections t callback w = for_each callback (map core_section (all_sections t)) w"
  by (rule core_visitSections_flat)

lemma core_copyData_ok:
  assumes "core_copyData n a c = Ok (bs, c')"
  shows "length bs = n" and "c' = c"
  using assms by (auto simp: core_copyData_def ok_iff split: if_splits)

lemma length_read_words64 [simp]: "length (read_words64 n bs) = n"
  by (induction n arbitrary: bs) simp_all

lemma nth_read_words64: "i < n \<Longrightarrow> read_words64 n bs ! i = read64 (take 8 (drop (8 * i) bs))"
proof (induction n arbitrary: bs i)
  case (Suc n)
  show ?case
  proof (cases i)
    case (Suc j)
    with Suc.prems have "read_words64 n (drop 8 bs) ! j = read64 (take 8 (drop (8 * j) (drop 8 bs)))"
      by (intro Suc.IH) simp
    then show ?thesis by (simp add: Suc add.commute)
  qed simp
qed simp

interpretation core: object_contract core_api "\<lambda>_. True"
proof
  fix w n a bs w'
  assume "copyData core_api n a w = Ok (bs, w')"
  then show "length bs = n" by (simp add: core_api_def core_copyData_ok)
next
  fix w n a ps w'
  assume "resolvePointers core_api n a w = Ok (ps, w')"
  then show "length ps = n" by (auto simp: core_api_def core_resolvePointers_def ok_iff)
qed (simp_all add: core_api_def core_copyData_def core_resolvePointers_def)

text \<open>
  Pointers of a core dump are its memory: resolving \<open>n\<close> of them reads \<open>8 * n\<close> bytes, fails
  exactly as that read fails, and returns the little-endian words at the offsets \<open>8 * i\<close>.
\<close>

theorem core_resolvePointers_words:
  "core_resolvePointers n a c =
     try_r (core_copyData (8 * n) a c)
       (\<lambda>(bs, c'). Ok (map (\<lambda>i. read64 (take 8 (drop (8 * i) bs))) [0..<n], c'))"
proof -
  have "read_words64 n bs = map (\<lambda>i. read64 (take 8 (drop (8 * i) bs))) [0..<n]" for bs
    by (rule nth_equalityI) (simp_all add: nth_read_words64)
  then show ?thesis by (simp add: core_resolvePointers_def)
qed

text \<open>
  A name, once given, stays: asking again for the same address returns the same name and changes
  nothing, even when it was the placeholder for an unknown symbol.
\<close>

theorem core_symbolName_stable:
  assumes "core_symbolName a c = Ok (nm, c')"
  shows "core_symbolName a c' = Ok (nm, c') \<and> core_target c' = core_target c \<and>
    (\<forall>b m. map_of (core_names c) b = Some m \<longrightarrow> map_of (core_names c') b = Some m)"
  using assms by (auto simp: core_symbolName_def Let_def ok_iff split: option.splits)

lemma check_modules_ok:
  "for_each (check_module normal root sh) ms u = Ok u' \<longleftrightarrow>
    (\<forall>m\<in>set ms. mod_file_backed m \<longrightarrow> is_prefix_path (normal root) (normal (mod_directory m)))"
  by (induction ms arbitrary: u) (auto simp: check_module_def ok_iff)

text \<open>
  C25. A core dump is only opened when every file-backed module LLDB resolved lives inside the
  snapshot's root directory: a module picked up from the host is an error.
\<close>

theorem openCore_inside_sysroot:
  assumes "openCore createTarget absolute handle_command load_core normal show_module exe sysroot core_file = Ok c"
  shows "\<exists>root. absolute sysroot = Ok root \<and> load_core core_file = Ok (core_target c) \<and> core_names c = [] \<and>
    (\<forall>m\<in>set (tg_modules (core_target c)).
      mod_file_backed m \<longrightarrow> is_prefix_path (normal root) (normal (mod_directory m)))"
  using assms by (auto simp: openCore_def ok_iff check_modules_ok split: option.splits)

text \<open>The line entries of a location, in the order of the modules.\<close>

definition all_entries :: "coredump \<Rightarrow> sb_line_entry list" where
  "all_entries c = concat (map (\<lambda>m. concat (mod_compile_units m)) (tg_modules (core_target c)))"

definition entry_loc :: "sb_line_entry \<Rightarrow> source_location" where
  "entry_loc e = \<lparr>loc_file = le_file e, loc_line = le_line e, loc_col = le_column e\<rparr>"

definition lookup_loc :: "source_location_map \<Rightarrow> source_location \<Rightarrow> (u64 \<times> u64) list" where
  "lookup_loc slm k = (case map_of slm k of None \<Rightarrow> [] | Some rs \<Rightarrow> rs)"

lemma map_of_map_entry:
  "map_of (map (\<lambda>(k', rs). if k' = k then (k', f rs) else (k', rs)) m) k2 =
    (if k2 = k then map_option f (map_of m k2) else map_of m k2)"
  by (induction m) auto

lemma add_location_lookup:
  "lookup_loc (add_location e slm) k =
    lookup_loc slm k @ (if entry_loc e = k then [(le_start e, le_end e)] else [])"
  "distinct (map fst slm) \<Longrightarrow> distinct (map fst (add_location e slm))"
proof -
  have m: "map (fst \<circ> (\<lambda>(k', rs). if k' = x then (k', f rs) else (k', rs))) slm = map fst slm" for x f
    by (induction slm) auto
  show "lookup_loc (add_location e slm) k =
    lookup_loc slm k @ (if entry_loc e = k then [(le_start e, le_end e)] else [])"
    by (auto simp: lookup_loc_def add_location_def entry_loc_def Let_def map_of_append map_of_map_entry
        map_add_def split: option.splits)
  show "distinct (map fst slm) \<Longrightarrow> distinct (map fst (add_location e slm))"
    by (auto simp: add_location_def Let_def m map_of_eq_None_iff image_iff split: option.splits)
qed

lemma fold_locations:
  "lookup_loc (fold add_location es slm) k =
    lookup_loc slm k @ map (\<lambda>e. (le_start e, le_end e)) (filter (\<lambda>e. entry_loc e = k) es)"
  "distinct (map fst slm) \<Longrightarrow> distinct (map fst (fold add_location es slm))"
  by (induction es arbitrary: slm) (simp_all add: add_location_lookup)

lemma fold_concat: "fold (fold f) xss a = fold f (concat xss) a"
  by (induction xss arbitrary: a) simp_all

lemma sourceLocationMap_fold: "sourceLocationMap c = fold add_location (all_entries c) []"
proof -
  have "fold (\<lambda>m. fold (fold add_location) (mod_compile_units m)) ms a =
      fold add_location (concat (map (\<lambda>m. concat (mod_compile_units m)) ms)) a" for ms a
    by (induction ms arbitrary: a) (simp_all add: fold_concat)
  then show ?thesis by (simp add: sourceLocationMap_def all_entries_def)
qed

text \<open>
  The source location map has one entry per location, and the address ranges of a location are
  those of its line entries over all modules and compile units, in their order.
\<close>

theorem sourceLocationMap_ranges:
  "distinct (map fst (sourceLocationMap c)) \<and>
   lookup_loc (sourceLocationMap c) k =
     map (\<lambda>e. (le_start e, le_end e)) (filter (\<lambda>e. entry_loc e = k) (all_entries c))"
  by (simp add: sourceLocationMap_fold fold_locations) (simp add: lookup_loc_def)

subsection \<open>An example\<close>

definition ex_module :: "string \<Rightarrow> sb_module" where
  "ex_module dir = \<lparr>mod_sections = [SBSection ''PT_LOAD[0]'' 0x1000 0x100 [SBSection ''PT_LOAD[0].text'' 0x1000 0x80 []]],
     mod_file_backed = True, mod_path = ''/r/a.out'', mod_directory = dir, mod_resolve_file = Some,
     mod_compile_units = []\<rparr>"

definition ex_target :: sb_target where
  "ex_target = \<lparr>tg_triple = ''x86_64-pc-linux'', tg_modules = [ex_module ''/r''], tg_valid = (\<lambda>a. a < 0x2000),
     tg_symbol = (\<lambda>_. None), tg_show_address = (\<lambda>_. ''a.out[0]''), tg_read = (\<lambda>n a. Ok (replicate n 0))\<rparr>"

definition ex_core :: coredump where
  "ex_core = \<lparr>core_target = ex_target, core_names = []\<rparr>"

theorem openCore_inside_sysroot_witness:
  "\<exists>root. Ok ''/r'' = Ok root \<and> Ok ex_target = (Ok (core_target ex_core) :: sb_target result) \<and>
    core_names ex_core = [] \<and>
    (\<forall>m\<in>set (tg_modules (core_target ex_core)).
      mod_file_backed m \<longrightarrow> is_prefix_path [root] [mod_directory m])"
  by (rule openCore_inside_sysroot [where createTarget = "\<lambda>_. Ok ()" and absolute = "\<lambda>_. Ok ''/r''"
        and handle_command = "\<lambda>_. None" and load_core = "\<lambda>_. Ok ex_target" and normal = "\<lambda>d. [d]"
        and show_module = "\<lambda>_. []" and exe = "''e''" and sysroot = "''r''" and core_file = "''c''"])
    (simp add: openCore_def ex_target_def ex_module_def check_module_def ex_core_def)

theorem core_symbolName_stable_witness:
  "core_symbolName 0x1004 ex_core = Ok (''<unknown>'', ex_core\<lparr>core_names := [(0x1004, ''<unknown>'')]\<rparr>) \<and>
   core_symbolName 0x1004 (ex_core\<lparr>core_names := [(0x1004, ''<unknown>'')]\<rparr>) =
     Ok (''<unknown>'', ex_core\<lparr>core_names := [(0x1004, ''<unknown>'')]\<rparr>)"
proof -
  have "core_symbolName 0x1004 ex_core = Ok (''<unknown>'', ex_core\<lparr>core_names := [(0x1004, ''<unknown>'')]\<rparr>)"
    by (simp add: core_symbolName_def ex_core_def ex_target_def Let_def)
  with core_symbolName_stable [OF this] show ?thesis by blast
qed

end
