(* ===== verification/Example_Image.thy ===== *)
theory Example_Image
  imports Read_Log
begin

text \<open>
  The example module of \<open>Graph_Roundtrip\<close> as the clients of the reader see it: one function at 0x1000
  with one local and one edge. It is the concrete input of the examples in the theories of the
  analyses.
\<close>

lemma lift_ex_api: "lift_api ex_api = ex_api"
  by (simp add: lift_api_def ex_api_def fun_eq_iff)

lemma ex_read: "readEdges plain_codec ex_api cb w = for_each cb (module_infos plain_sort ex_linked) w"
  unfolding readEdges_layout [OF ex_image_ok plain_codec_ok]
  by (cases "for_each cb (module_infos plain_sort ex_linked) w")
    (simp_all add: visit_section_def ex_section_def ex_layout_def)

definition ex_info :: function_info where
  "ex_info = info_of plain_sort [0x1000] (take_locals 1 (debug_data_of ex_gw)) ex_written"

lemma ex_infos: "module_infos plain_sort ex_linked = [ex_info]"
  by (simp add: module_infos_def ex_linked_def ex_written_def ex_info_def ex_graph_def)

lemma ex_image_infos: "image_infos ''GR_graph_edges'' plain_sort ex_layout [ex_section] = [ex_info]"
  by (simp add: image_infos_def ex_section_def ex_layout_def ex_infos)

lemma ex_written_okay: "written_ok plain_sort 1 ex_written"
  using ex_edge_ok by (auto simp: written_ok_def ex_written_def no_nul_def nul_def sorted_raws_def plain_sort_def kind_edges_def)

lemma ex_info_function: "fi_function ex_info = Node 0x10010000"
  by (simp add: ex_info_def info_of_def function_node_def ex_written_def push_bit_eq_mult)

lemma ex_read_order: "read_order plain_sort [0x1000] ex_written k =
    (if k = AssignK then [Edge AssignK (Node 0x10010001) (Node 0x10010000) 0] else [])"
proof -
  have "read_order plain_sort [0x1000] ex_written k = map (reloc_edge [0x1000]) (kind_edges k ex_written)"
    using raw_of_decodes(2) [OF ex_written_okay, of "[0x1000]"]
    by (auto simp: read_order_def sorted_raws_def plain_sort_def ex_written_def kind_edges_def
        addresses_ok_def symbol_ok_def)
  then show ?thesis
    by (simp add: kind_edges_def ex_written_def ex_edge_def reloc_edge_def reloc_node_def symbol_of_def)
qed

lemma ex_visitEdges: "visitEdges ex_info k cb s =
    (if k = AssignK then try_r (cb (Edge AssignK (Node 0x10010001) (Node 0x10010000) 0) s) Ok else Ok s)"
proof -
  have "addresses_ok 1 [0x1000]" by (simp add: addresses_ok_def symbol_ok_def)
  note v = visitEdges_info [OF ex_written_okay this plain_sort_ok]
  show ?thesis
    by (cases "cb (Edge AssignK (Node 0x10010001) (Node 0x10010000) 0) s")
      (simp_all add: ex_info_def v ex_read_order)
qed

lemma ex_visit:
  "visitAllEdges ex_info cb s = try_r (cb (Edge AssignK (Node 0x10010001) (Node 0x10010000) 0) s) Ok"
  by (cases "cb (Edge AssignK (Node 0x10010001) (Node 0x10010000) 0) s")
    (simp_all add: visitAllEdges_def visit_tuple_def all_kinds_def ex_visitEdges)

end
