(* ===== verification/Node_States.thy ===== *)
theory Node_States
  imports Example_Image "HOL-Library.AList"
begin

text \<open>
  The first half of \<open>src/PointsTo/PointsTo.cpp\<close>: what the emitter of the C model knows about each
  symbol (\<open>NodeState\<close>, a lattice) and the pass over all edges that finds it out
  (\<open>EmitC::initial_pass\<close>, \<open>setNargs\<close>). The object and the emitter's fields are the state. The
  hash maps are association lists; the name a symbol is looked up by is a value here, not a view.
  The log line of \<open>SymbolRendering\<close> is left out, and a failed \<open>symbolName\<close> leaves the object as it
  was, as both implementations do.
\<close>

section \<open>Node states\<close>

datatype node_state = NodeStateUndefined | NodeStateGlobalData | NodeStateFunction (nargs: u16)

fun show_node_state :: "node_state \<Rightarrow> string" where
  "show_node_state NodeStateUndefined = ''NodeStateUndefined''"
| "show_node_state NodeStateGlobalData = ''NodeStateGlobalData''"
| "show_node_state (NodeStateFunction n) = ''NodeStateFunction('' @ show_dec (unat n) @ '')''"

record emit_state =
  node_states :: "(node \<times> node_state) list"
  declared_functions :: "node list"
  node_checked_for_override :: "node list"
  override_nargs :: "(string \<times> u16) list"
  override_nodes :: "(node \<times> string) list"
  override_nodes_by_name :: "(string \<times> node) list"

text \<open>
  A rendered node is a C identifier and, as a comment, the name of its symbol. The identifier alone
  determines what the compiler sees.
\<close>

datatype operand = Operand (ident: string) (comment: string)

definition print_operand :: "operand \<Rightarrow> string" where
  "print_operand x = ident x @ '' /* '' @ comment x @ '' */''"

definition symbol_ident :: "u64 \<Rightarrow> string" where
  "symbol_ident a = ''NODE_'' @ show_hex16 a"

definition ident_of :: "node \<Rightarrow> string" where
  "ident_of n =
     (case local_idx_of n of
        Some i \<Rightarrow> ''local_'' @ show_dec (unat i) @ ''_'' @ symbol_ident (symbol_of n)
      | None \<Rightarrow> symbol_ident (symbol_of n))"

text \<open>\<open>SymbolRendering\<close>: a symbol without a name is rendered all the same.\<close>

definition renderSymbol :: "'w object_api \<Rightarrow> u64 \<Rightarrow> 'w \<Rightarrow> (operand \<times> 'w) result" where
  "renderSymbol api a w =
     (case symbolName api a w of
        Ok (nm, w') \<Rightarrow> Ok (Operand (symbol_ident a) nm, w')
      | Err e \<Rightarrow> Ok (Operand (symbol_ident a) ''<unknown>'', w)
      | Abort \<Rightarrow> Abort)"

definition put_state :: "node \<Rightarrow> node_state \<Rightarrow> emit_state \<Rightarrow> emit_state" where
  "put_state n st e = e\<lparr>node_states := AList.update n st (node_states e)\<rparr>"

definition setNargs ::
  "'w object_api \<Rightarrow> node \<Rightarrow> node_state \<Rightarrow> 'w \<times> emit_state \<Rightarrow> ('w \<times> emit_state) result" where
  "setNargs api n st s =
     (let (w, e) = s
      in try_r (node_local_idx n) (\<lambda>l.
         assert_r (l = None)
         (case map_of (node_states e) n of
            None \<Rightarrow> Ok (w, put_state n st e)
          | Some cur \<Rightarrow>
              if cur = NodeStateUndefined then Ok (w, put_state n st e)
              else if st = NodeStateUndefined then Ok (w, e)
              else if cur = st then Ok (w, e)
              else try_r (renderSymbol api (symbol_of n) w) (\<lambda>(x, w).
                     Err (new_error (''nargs mismatch for node '' @ print_operand x @ ''. Current: '' @
                       show_node_state cur @ ''; New: '' @ show_node_state st))))))"

section \<open>The first pass\<close>

text \<open>
  What happens at the end of an edge that lies in another symbol: it becomes known, and on first
  sight its name, up to a version suffix, is looked up among the overrides.
\<close>

definition check_override ::
  "'w object_api \<Rightarrow> node \<Rightarrow> u64 \<Rightarrow> 'w \<times> emit_state \<Rightarrow> ('w \<times> emit_state) result" where
  "check_override api out symb s =
     (let (w, e) = s
      in if out \<in> set (node_checked_for_override e) then Ok (w, e)
         else let e = e\<lparr>node_checked_for_override := out # node_checked_for_override e\<rparr>
           in try_r (symbolName api symb w) (\<lambda>(full_name, w).
              let nm = takeWhile (\<lambda>c. c \<noteq> CHR ''@'') full_name
              in case map_of (override_nargs e) nm of
                   None \<Rightarrow> Ok (w, e)
                 | Some n \<Rightarrow>
                     setNargs api out (NodeStateFunction n)
                       (w, e\<lparr>override_nodes := AList.update out nm (override_nodes e)\<rparr>)))"

definition visit_out ::
  "'w object_api \<Rightarrow> u64 \<Rightarrow> node \<Rightarrow> 'w \<times> emit_state \<Rightarrow> ('w \<times> emit_state) result" where
  "visit_out api this out s =
     try_r (node_symbol_of out) (\<lambda>symb.
       if symb \<noteq> this then
         try_r (node_local_idx out) (\<lambda>l.
         assert_r (l = None)
         (try_r (setNargs api out NodeStateUndefined s) (check_override api out symb)))
       else Ok s)"

text \<open>
  The callback on one edge. The argument count of the function goes along as an \<open>unsigned\<close>;
  \<open>NodeStateFunction\<close> keeps the low 16 bits of a count.
\<close>

definition visit_kind ::
  "'w object_api \<Rightarrow> edge \<Rightarrow> ('w \<times> emit_state) \<times> u32 \<Rightarrow> (('w \<times> emit_state) \<times> u32) result" where
  "visit_kind api ed s =
     (let (we, n) = s
      in case kind ed of
        CallK \<Rightarrow>
          try_r (node_local_idx (from_node ed)) (\<lambda>l.
            if l = None
            then try_r (setNargs api (from_node ed) (NodeStateFunction (ucast (edge_idx ed))) we)
                   (\<lambda>we. Ok (we, n))
            else Ok (we, n))
      | StoreK \<Rightarrow>
          try_r (node_local_idx (to_node ed)) (\<lambda>l.
            if l = None
            then try_r (setNargs api (to_node ed) NodeStateGlobalData we) (\<lambda>we. Ok (we, n))
            else Ok (we, n))
      | ArgumentDefinitionK \<Rightarrow> Ok (we, max n (edge_idx ed + 1))
      | _ \<Rightarrow> Ok (we, n))"

definition visit_edge ::
  "'w object_api \<Rightarrow> function_info \<Rightarrow> edge \<Rightarrow> ('w \<times> emit_state) \<times> u32 \<Rightarrow> (('w \<times> emit_state) \<times> u32) result"
  where
  "visit_edge api fi ed s =
     try_r (visit_kind api ed s) (\<lambda>(we, n).
     try_r (node_symbol_of (fi_function fi)) (\<lambda>this.
     try_r (for_each (visit_out api this) [to_node ed, from_node ed] we) (\<lambda>we. Ok (we, n))))"

definition visit_function ::
  "'w object_api \<Rightarrow> function_info \<Rightarrow> 'w \<times> emit_state \<Rightarrow> ('w \<times> emit_state) result" where
  "visit_function api fi s =
     try_r (visitAllEdges fi (visit_edge api fi) (s, 0)) (\<lambda>(s, current_function_nargs).
       setNargs api (fi_function fi) (NodeStateFunction (ucast current_function_nargs)) s)"

definition initial_pass ::
  "codec \<Rightarrow> 'w object_api \<Rightarrow> 'w \<times> emit_state \<Rightarrow> ('w \<times> emit_state) result" where
  "initial_pass c api s = readEdges c (lift_api api) (visit_function api) s"

section \<open>The lattice of states\<close>

definition state_of :: "emit_state \<Rightarrow> node \<Rightarrow> node_state" where
  "state_of e n = (case map_of (node_states e) n of None \<Rightarrow> NodeStateUndefined | Some st \<Rightarrow> st)"

instantiation node_state :: order
begin
definition less_eq_node_state :: "node_state \<Rightarrow> node_state \<Rightarrow> bool" where
  "less_eq_node_state a b \<longleftrightarrow> a = NodeStateUndefined \<or> a = b"
definition less_node_state :: "node_state \<Rightarrow> node_state \<Rightarrow> bool" where
  "less_node_state a b \<longleftrightarrow> a = NodeStateUndefined \<and> a \<noteq> b"
instance
  by standard (auto simp: less_eq_node_state_def less_node_state_def)
end

text \<open>More is known in the second state; what the overrides said stays.\<close>

definition learns :: "emit_state \<Rightarrow> emit_state \<Rightarrow> bool" where
  "learns e e' \<longleftrightarrow>
     (\<forall>n. state_of e n \<le> state_of e' n) \<and> fst ` set (node_states e) \<subseteq> fst ` set (node_states e') \<and>
     override_nargs e' = override_nargs e \<and>
     (distinct (map fst (node_states e)) \<longrightarrow> distinct (map fst (node_states e')))"

lemma learns_refl [simp]: "learns e e"
  by (simp add: learns_def)

lemma learns_trans: "learns e1 e2 \<Longrightarrow> learns e2 e3 \<Longrightarrow> learns e1 e3"
  unfolding learns_def by (metis order_trans)

lemma state_le_function: "NodeStateFunction n \<le> st \<longleftrightarrow> st = NodeStateFunction n"
  and state_le_global: "NodeStateGlobalData \<le> st \<longleftrightarrow> st = NodeStateGlobalData"
  and state_bot [simp]: "NodeStateUndefined \<le> st"
  by (auto simp: less_eq_node_state_def)

lemma state_of_put [simp]: "state_of (put_state n st e) m = (if m = n then st else state_of e m)"
  by (simp add: state_of_def put_state_def update_conv')

lemma learns_put: "state_of e n \<le> st \<Longrightarrow> learns e (put_state n st e)"
  by (auto simp: learns_def put_state_def update_conv' dom_update distinct_update)
    (simp add: state_of_def update_conv')

text \<open>
  C21. \<open>setNargs\<close> is the least upper bound in the lattice that has
  \<open>NodeStateUndefined\<close> below all other states: it succeeds exactly when the old state of the symbol
  and the new one are comparable, the symbol then has the larger of the two, and neither another
  symbol nor the object changes.
\<close>

theorem setNargs_join:
  assumes "is_node n" and "local_idx_of n = None"
  shows "case setNargs api n st (w, e) of
      Ok (w', e') \<Rightarrow> w' = w \<and> (state_of e n \<le> st \<or> st \<le> state_of e n) \<and>
        state_of e' = (state_of e)(n := if state_of e n \<le> st then st else state_of e n)
    | _ \<Rightarrow> \<not> state_of e n \<le> st \<and> \<not> st \<le> state_of e n"
proof (cases "map_of (node_states e) n")
  case None
  then have "state_of e n = NodeStateUndefined" by (simp add: state_of_def)
  with None assms show ?thesis by (auto simp: setNargs_def node_local_idx_def)
next
  case (Some cur)
  then have "state_of e n = cur" by (simp add: state_of_def)
  with Some assms show ?thesis
    by (cases "renderSymbol api (symbol_of n) w")
      (auto simp: setNargs_def node_local_idx_def less_eq_node_state_def)
qed

lemma setNargs_ok:
  assumes "setNargs api n st (w, e) = Ok (w', e')"
  shows "is_node n \<and> local_idx_of n = None \<and> w' = w \<and> learns e e' \<and> st \<le> state_of e' n \<and>
    n \<in> fst ` set (node_states e')"
proof -
  from assms have l: "is_node n" "local_idx_of n = None"
    by (auto simp: setNargs_def node_local_idx_def ok_iff)
  show ?thesis
  proof (cases "map_of (node_states e) n")
    case None
    then have "state_of e n = NodeStateUndefined" by (simp add: state_of_def)
    with None assms l show ?thesis
      by (auto simp: setNargs_def node_local_idx_def learns_put) (simp add: put_state_def dom_update)
  next
    case (Some cur)
    then have "state_of e n = cur" "n \<in> fst ` set (node_states e)"
      by (auto simp: state_of_def dest: map_of_SomeD intro: image_eqI [rotated])
    with Some assms l show ?thesis
      by (auto simp: setNargs_def node_local_idx_def learns_put ok_iff split: if_splits)
        (auto simp: put_state_def dom_update)
  qed
qed

lemma learns_frame:
  "node_states e' = node_states e \<Longrightarrow> override_nargs e' = override_nargs e \<Longrightarrow> learns e e'"
  by (simp add: learns_def state_of_def)

lemma check_override_ok:
  assumes "check_override api out symb (w, e) = Ok (w', e')"
  shows "learns e e'"
proof (cases "out \<in> set (node_checked_for_override e)")
  case False
  with assms obtain nm w1 where n: "e' = e\<lparr>node_checked_for_override := out # node_checked_for_override e\<rparr> \<or>
    (\<exists>n. setNargs api out (NodeStateFunction n) (w1, e\<lparr>node_checked_for_override :=
      out # node_checked_for_override e, override_nodes := AList.update out nm (override_nodes e)\<rparr>) = Ok (w', e'))"
    by (fastforce simp: check_override_def Let_def ok_iff split: option.splits)
  from n show ?thesis
  proof (elim disjE exE)
    fix n
    assume "setNargs api out (NodeStateFunction n) (w1, e\<lparr>node_checked_for_override :=
      out # node_checked_for_override e, override_nodes := AList.update out nm (override_nodes e)\<rparr>) = Ok (w', e')"
    note setNargs_ok [OF this]
    moreover have "learns e (e\<lparr>node_checked_for_override := cs, override_nodes := os\<rparr>)" for cs os
      by (rule learns_frame) simp_all
    ultimately show ?thesis using learns_trans by blast
  qed (simp add: learns_frame)
qed (use assms in \<open>simp add: check_override_def\<close>)

lemma visit_out_ok:
  assumes "visit_out api this out (w, e) = Ok (w', e')"
  shows "learns e e' \<and>
    (symbol_of out \<noteq> this \<longrightarrow> local_idx_of out = None \<and> out \<in> fst ` set (node_states e'))"
proof (cases "symbol_of out = this")
  case True
  with assms show ?thesis by (auto simp: visit_out_def node_symbol_of_def ok_iff)
next
  case False
  with assms obtain w1 e1 where 1: "setNargs api out NodeStateUndefined (w, e) = Ok (w1, e1)"
    and 2: "check_override api out (symbol_of out) (w1, e1) = Ok (w', e')"
    by (auto simp: visit_out_def node_symbol_of_def ok_iff)
  from setNargs_ok [OF 1] check_override_ok [OF 2] have "learns e e'" "local_idx_of out = None" "out \<in> fst ` set (node_states e1)"
    "fst ` set (node_states e1) \<subseteq> fst ` set (node_states e')"
    by (auto intro: learns_trans simp: learns_def [of e1 e'])
  then show ?thesis by blast
qed

section \<open>What the pass finds out\<close>

definition args_of :: "edge list \<Rightarrow> u32" where
  "args_of es = fold (\<lambda>ed n. if kind ed = ArgumentDefinitionK then max n (edge_idx ed + 1) else n) es 0"

definition edge_fact :: "emit_state \<Rightarrow> edge \<Rightarrow> bool" where
  "edge_fact e ed \<longleftrightarrow>
     (kind ed = CallK \<and> local_idx_of (from_node ed) = None \<longrightarrow>
        state_of e (from_node ed) = NodeStateFunction (ucast (edge_idx ed))) \<and>
     (kind ed = StoreK \<and> local_idx_of (to_node ed) = None \<longrightarrow>
        state_of e (to_node ed) = NodeStateGlobalData)"

definition out_fact :: "emit_state \<Rightarrow> u64 \<Rightarrow> edge \<Rightarrow> bool" where
  "out_fact e this ed \<longleftrightarrow>
     (\<forall>out\<in>{to_node ed, from_node ed}. symbol_of out \<noteq> this \<longrightarrow>
        local_idx_of out = None \<and> out \<in> fst ` set (node_states e))"

definition function_fact :: "emit_state \<Rightarrow> function_info \<Rightarrow> bool" where
  "function_fact e fi \<longleftrightarrow>
     (\<exists>es. edges_of fi = Ok es \<and>
        state_of e (fi_function fi) = NodeStateFunction (ucast (args_of es)) \<and>
        (\<forall>ed\<in>set es. edge_fact e ed \<and> out_fact e (symbol_of (fi_function fi)) ed) \<and>
        fi_function fi \<in> fst ` set (node_states e))"

lemma out_fact_mono: "out_fact e this ed \<Longrightarrow> learns e e' \<Longrightarrow> out_fact e' this ed"
  using subsetD [of "fst ` set (node_states e)" "fst ` set (node_states e')"]
  by (simp add: out_fact_def learns_def)

lemma edge_fact_mono: "edge_fact e ed \<Longrightarrow> learns e e' \<Longrightarrow> edge_fact e' ed"
  unfolding edge_fact_def learns_def by (metis state_le_function state_le_global)

lemma function_fact_mono:
  assumes "function_fact e fi" and l: "learns e e'"
  shows "function_fact e' fi"
proof -
  from assms(1) obtain es where es: "edges_of fi = Ok es"
    "state_of e (fi_function fi) = NodeStateFunction (ucast (args_of es))"
    "\<forall>ed\<in>set es. edge_fact e ed \<and> out_fact e (symbol_of (fi_function fi)) ed"
    "fi_function fi \<in> fst ` set (node_states e)" unfolding function_fact_def by blast
  from l have "state_of e (fi_function fi) \<le> state_of e' (fi_function fi)"
    "fi_function fi \<in> fst ` set (node_states e')" using es(4) by (auto simp: learns_def)
  with es show ?thesis unfolding function_fact_def
    using edge_fact_mono [OF _ l] out_fact_mono [OF _ l] by (auto simp: state_le_function)
qed

lemma visit_kind_ok:
  assumes "visit_kind api ed ((w, e), n) = Ok ((w', e'), n')"
  shows "learns e e' \<and> edge_fact e' ed \<and>
    n' = (if kind ed = ArgumentDefinitionK then max n (edge_idx ed + 1) else n)"
proof (cases "kind ed")
  case CallK
  with assms show ?thesis
    by (auto simp: visit_kind_def node_local_idx_def ok_iff edge_fact_def state_le_function
        dest!: setNargs_ok split: if_splits)
next
  case StoreK
  with assms show ?thesis
    by (auto simp: visit_kind_def node_local_idx_def ok_iff edge_fact_def state_le_global
        dest!: setNargs_ok split: if_splits)
qed (use assms in \<open>auto simp: visit_kind_def edge_fact_def\<close>)

lemma visit_edge_ok:
  assumes "visit_edge api fi ed ((w, e), n) = Ok ((w', e'), n')"
  shows "learns e e' \<and> edge_fact e' ed \<and> out_fact e' (symbol_of (fi_function fi)) ed \<and>
    n' = (if kind ed = ArgumentDefinitionK then max n (edge_idx ed + 1) else n)"
proof -
  let ?me = "symbol_of (fi_function fi)"
  from assms obtain w1 e1 w2 e2 where 1: "visit_kind api ed ((w, e), n) = Ok ((w1, e1), n')"
    "visit_out api ?me (to_node ed) (w1, e1) = Ok (w2, e2)"
    "visit_out api ?me (from_node ed) (w2, e2) = Ok (w', e')"
    by (auto simp: visit_edge_def node_symbol_of_def ok_iff)
  note k = visit_kind_ok [OF 1(1)] and o = visit_out_ok [OF 1(2)] visit_out_ok [OF 1(3)]
  have "learns e1 e'" using o learns_trans by blast
  moreover have "out_fact e' ?me ed" using o by (auto simp: out_fact_def learns_def [of e2 e'])
  ultimately show ?thesis using k edge_fact_mono learns_trans by blast
qed

lemma visit_edges_ok:
  "for_each (visit_edge api fi) es ((w, e), n) = Ok ((w', e'), n') \<Longrightarrow>
    learns e e' \<and> (\<forall>ed\<in>set es. edge_fact e' ed \<and> out_fact e' (symbol_of (fi_function fi)) ed) \<and>
    n' = fold (\<lambda>ed n. if kind ed = ArgumentDefinitionK then max n (edge_idx ed + 1) else n) es n"
proof (induction es arbitrary: w e n)
  case (Cons ed es)
  from Cons.prems obtain w1 e1 n1 where 1: "visit_edge api fi ed ((w, e), n) = Ok ((w1, e1), n1)"
    "for_each (visit_edge api fi) es ((w1, e1), n1) = Ok ((w', e'), n')"
    by (auto simp: ok_iff)
  from visit_edge_ok [OF 1(1)] Cons.IH [OF 1(2)] show ?case
    using edge_fact_mono out_fact_mono learns_trans by auto
qed simp

lemma visit_function_ok:
  assumes "visit_function api fi (w, e) = Ok (w', e')"
  shows "learns e e' \<and> function_fact e' fi"
proof -
  from assms obtain w1 e1 n where v: "visitAllEdges fi (visit_edge api fi) ((w, e), 0) = Ok ((w1, e1), n)"
    and s: "setNargs api (fi_function fi) (NodeStateFunction (ucast n)) (w1, e1) = Ok (w', e')"
    by (auto simp: visit_function_def ok_iff)
  from visitAllEdges_log [OF v] obtain es where es: "edges_of fi = Ok es"
    "for_each (visit_edge api fi) es ((w, e), 0) = Ok ((w1, e1), n)" by blast
  from visit_edges_ok [OF es(2)] setNargs_ok [OF s] es(1) show ?thesis
    using learns_trans edge_fact_mono out_fact_mono by (auto simp: function_fact_def args_of_def state_le_function)
qed

lemma initial_run:
  assumes "read_run (lift_api api) (visit_function api) s fis s'"
  shows "learns (snd s) (snd s') \<and> (\<forall>fi\<in>set fis. function_fact (snd s') fi)"
  using assms
proof (induction rule: read_run.induct)
  case (callback fis s1 fi s2)
  obtain w1 e1 w2 e2 where "s1 = (w1, e1)" "s2 = (w2, e2)" by (cases s1, cases s2)
  with callback visit_function_ok [of api fi w1 e1 w2 e2] show ?case
    using learns_trans function_fact_mono by auto
qed (auto simp: ok_iff)

text \<open>
  C20. When the first pass succeeds, all that it read fits together. The functions it saw are those
  the reader called it back on, and on an object whose graph sections hold the output of finished
  writer runs they are all the functions of all the graphs. Each of them is a function with one
  argument more than its highest argument index, each
  symbol that is called directly is a function with as many arguments as the call passes (so call
  and definition agree), each symbol that is stored to is global data, and what was known before
  still holds. The counts are compared modulo \<open>2 ^ 16\<close>, as the code does.
\<close>

theorem initial_pass_consistent:
  assumes "initial_pass c api (w, e) = Ok (w', e')"
  shows "learns e e' \<and>
    (\<exists>fis. functions_read c (lift_api api) (visit_function api) (w, e) = Ok fis \<and>
      (\<forall>canon srt ss layout name. image_ok canon srt c api ss layout name \<and> codec_ok c \<longrightarrow>
        fis = image_infos name srt layout ss) \<and>
      (\<forall>fi\<in>set fis. \<exists>es. edges_of fi = Ok es \<and>
        state_of e' (fi_function fi) = NodeStateFunction (ucast (args_of es)) \<and>
        (\<forall>ed\<in>set es.
          (kind ed = CallK \<and> local_idx_of (from_node ed) = None \<longrightarrow>
            state_of e' (from_node ed) = NodeStateFunction (ucast (edge_idx ed))) \<and>
          (kind ed = StoreK \<and> local_idx_of (to_node ed) = None \<longrightarrow>
            state_of e' (to_node ed) = NodeStateGlobalData))))"
proof -
  from readEdges_logged [OF assms [unfolded initial_pass_def]] obtain fis
    where f: "functions_read c (lift_api api) (visit_function api) (w, e) = Ok fis"
      and r: "read_run (lift_api api) (visit_function api) (w, e) fis (w', e')" .
  from initial_run [OF r] have l: "learns e e'" and facts: "\<forall>fi\<in>set fis. function_fact e' fi" by simp_all
  show ?thesis
  proof (intro conjI exI [of _ fis])
    show "\<forall>canon srt ss layout name. image_ok canon srt c api ss layout name \<and> codec_ok c \<longrightarrow>
        fis = image_infos name srt layout ss"
      using functions_read_image [OF f image_ok_lift] by blast
  qed (use l f facts [unfolded function_fact_def edge_fact_def] in \<open>simp_all, fast\<close>)
qed

subsection \<open>An example\<close>

definition ex_emit :: emit_state where
  "ex_emit = \<lparr>node_states = [], declared_functions = [], node_checked_for_override = [],
     override_nargs = [(''malloc'', 1)], override_nodes = [], override_nodes_by_name = []\<rparr>"

definition ex_emit1 :: emit_state where
  "ex_emit1 = ex_emit\<lparr>node_states := [(Node 0x10010000, NodeStateFunction 0)]\<rparr>"

theorem setNargs_join_witness:
  "\<not> has_value (setNargs ex_api (Node 0x10010000) (NodeStateFunction 2) ((), ex_emit1)) \<and>
   (case setNargs ex_api (Node 0x10010000) NodeStateUndefined ((), ex_emit1) of
      Ok (w', e') \<Rightarrow> state_of e' = (state_of ex_emit1)(Node 0x10010000 := NodeStateFunction 0)
    | _ \<Rightarrow> False)"
proof -
  have n: "is_node (Node 0x10010000)" "local_idx_of (Node 0x10010000) = None"
    by (simp_all add: is_node_def local_idx_of_def)
  have s: "state_of ex_emit1 (Node 0x10010000) = NodeStateFunction 0"
    by (simp add: state_of_def ex_emit1_def)
  have "\<not> NodeStateFunction 0 \<le> NodeStateUndefined" "\<not> NodeStateFunction 0 \<le> NodeStateFunction 2"
    "\<not> NodeStateFunction 2 \<le> NodeStateFunction 0" by (simp_all add: less_eq_node_state_def)
  then show ?thesis
    using setNargs_join [OF n, where api = ex_api and st = NodeStateUndefined and w = "()" and e = ex_emit1]
      setNargs_join [OF n, where api = ex_api and st = "NodeStateFunction 2" and w = "()" and e = ex_emit1]
    by (auto simp: s has_value_def split: result.splits)
qed

lemma ex_pass: "initial_pass plain_codec ex_api ((), ex_emit\<lparr>override_nargs := ov\<rparr>) =
    Ok ((), ex_emit1\<lparr>override_nargs := ov\<rparr>)"
proof -
  have n: "is_node (Node 0x10010000)" "local_idx_of (Node 0x10010000) = None"
      "is_node (Node 0x10010001)" "symbol_of (Node 0x10010001) = 0x1000" "symbol_of (Node 0x10010000) = 0x1000"
    by (simp_all add: is_node_def local_idx_of_def symbol_of_def)
  show ?thesis
    by (simp add: initial_pass_def lift_ex_api ex_read ex_infos visit_function_def ex_visit visit_edge_def
        visit_kind_def node_symbol_of_def n ex_info_function visit_out_def setNargs_def
        node_local_idx_def ex_emit_def ex_emit1_def put_state_def)
qed

theorem initial_pass_consistent_witness:
  "functions_read plain_codec (lift_api ex_api) (visit_function ex_api) ((), ex_emit) = Ok [ex_info] \<and>
    (\<exists>es. edges_of ex_info = Ok es \<and>
      state_of ex_emit1 (fi_function ex_info) = NodeStateFunction (ucast (args_of es)))"
proof -
  have "ex_emit\<lparr>override_nargs := override_nargs ex_emit\<rparr> = ex_emit"
    "ex_emit1\<lparr>override_nargs := override_nargs ex_emit\<rparr> = ex_emit1" by (simp_all add: ex_emit1_def)
  with ex_pass [of "override_nargs ex_emit"] have
    "initial_pass plain_codec ex_api ((), ex_emit) = Ok ((), ex_emit1)" by simp
  from initial_pass_consistent [OF this] ex_image_ok plain_codec_ok ex_image_infos obtain fis where
    "functions_read plain_codec (lift_api ex_api) (visit_function ex_api) ((), ex_emit) = Ok fis"
    "fis = [ex_info]"
    "\<forall>fi\<in>set fis. \<exists>es. edges_of fi = Ok es \<and>
      state_of ex_emit1 (fi_function fi) = NodeStateFunction (ucast (args_of es))" by metis
  then show ?thesis by simp
qed

end
