(* ===== verification/Override_Lang.thy ===== *)
theory Override_Lang
  imports Result_Type Numerals
begin

text \<open>
  The fragment of C that the overrides of library functions are written in (\<open>prelude.txt\<close> of the
  points-to analysis and \<open>prelude.h\<close> of the scripts): its syntax, its text, and what a call of an
  override does. Every value is a machine word, since all types are \<open>void *\<close>.
\<close>

section \<open>Syntax\<close>

datatype c_expr =
  EVar string
| ENull
| EChoice                          \<comment> \<open>\<open>__nondeterministic_choice()\<close>\<close>
| ELit nat
| ESizeof string
| ECast string c_expr
| ELoad c_expr                     \<comment> \<open>\<open>*((T*)e)\<close>\<close>
| ECall string "c_expr list"       \<comment> \<open>a function of the C library\<close>
| ECallPtr c_expr "c_expr list"    \<comment> \<open>a call through a pointer cast to a function of that many \<open>T\<close>\<close>

datatype c_stmt =
  SDiscard string                  \<comment> \<open>\<open>(void)x;\<close>\<close>
| SReturn c_expr
| SDo c_expr
| SDecl string string c_expr       \<comment> \<open>type, name, value\<close>
| SStatic string                   \<comment> \<open>\<open>static T x;\<close>\<close>
| SAssign string c_expr
| SStore c_expr c_expr             \<comment> \<open>\<open>*((T*)x) = y;\<close>\<close>
| SField string string c_expr      \<comment> \<open>\<open>x->f = e;\<close>\<close>
| SCopyField string string string c_expr \<comment> \<open>\<open>x->f = *(type)e;\<close>\<close>
| SNondet c_stmt                   \<comment> \<open>\<open>NONDET s\<close>: \<open>if (__nondeterministic_choice()) s\<close>\<close>
| SWhile "c_stmt list"             \<comment> \<open>\<open>while (__nondeterministic_choice()) { .. }\<close>\<close>

text \<open>An override: always inlined or not, its name, its parameters and its body.\<close>

datatype override =
  Override (ov_inline: bool) (ov_name: string) (ov_params: "string list") (ov_body: "c_stmt list")

subsection \<open>Text\<close>

definition join :: "string \<Rightarrow> string list \<Rightarrow> string" where
  "join sep xs = (case xs of [] \<Rightarrow> '''' | x # xs \<Rightarrow> x @ concat (map (\<lambda>y. sep @ y) xs))"

fun show_expr :: "c_expr \<Rightarrow> string" where
  "show_expr (EVar x) = x"
| "show_expr ENull = ''NULL''"
| "show_expr EChoice = ''__nondeterministic_choice()''"
| "show_expr (ELit n) = show_dec n"
| "show_expr (ESizeof t) = ''sizeof('' @ t @ '')''"
| "show_expr (ECast t e) = ''('' @ t @ '')'' @ show_expr e"
| "show_expr (ELoad e) = ''*((T*)'' @ show_expr e @ '')''"
| "show_expr (ECall f es) = f @ ''('' @ join '', '' (map show_expr es) @ '')''"
| "show_expr (ECallPtr f es) =
     ''((T ('' @ ''*)('' @ join '', '' (map (\<lambda>_. ''T'') es) @ ''))'' @ show_expr f @ '')('' @
     join '', '' (map show_expr es) @ '')''"

fun show_stmt :: "c_stmt \<Rightarrow> string" where
  "show_stmt (SDiscard x) = ''(void)'' @ x @ ''; ''"
| "show_stmt (SReturn e) = ''return '' @ show_expr e @ ''; ''"
| "show_stmt (SDo e) = show_expr e @ ''; ''"
| "show_stmt (SDecl t x e) = t @ '' '' @ x @ '' = '' @ show_expr e @ ''; ''"
| "show_stmt (SStatic x) = ''static T '' @ x @ ''; ''"
| "show_stmt (SAssign x e) = x @ '' = '' @ show_expr e @ ''; ''"
| "show_stmt (SStore x e) = ''*((T*)'' @ show_expr x @ '') = '' @ show_expr e @ ''; ''"
| "show_stmt (SField x f e) = x @ ''->'' @ f @ '' = '' @ show_expr e @ ''; ''"
| "show_stmt (SCopyField x f t e) = x @ ''->'' @ f @ '' = *('' @ t @ '')'' @ show_expr e @ ''; ''"
| "show_stmt (SNondet s) = ''NONDET '' @ show_stmt s"
| "show_stmt (SWhile ss) =
     ''while (__nondeterministic_choice()) { '' @ concat (map show_stmt ss) @ ''} ''"

definition show_block :: "c_stmt list \<Rightarrow> string" where
  "show_block ss = '' { '' @ concat (map show_stmt ss) @ ''}''"

section \<open>Meaning\<close>

text \<open>
  What a call does to the memory depends on the C library and on the functions the program passes
  in. \<open>__nondeterministic_choice\<close> takes the next number of a list, and zeros after its end.
  A static variable is assigned before it is read in the code below and is kept as a local.
\<close>

record 'm c_world =
  lib_call :: "string \<Rightarrow> u64 list \<Rightarrow> 'm \<Rightarrow> u64 \<times> 'm"
  ptr_call :: "u64 \<Rightarrow> u64 list \<Rightarrow> 'm \<Rightarrow> u64 \<times> 'm"
  load_word :: "u64 \<Rightarrow> 'm \<Rightarrow> u64"
  store_word :: "u64 \<Rightarrow> u64 \<Rightarrow> 'm \<Rightarrow> 'm"
  size_of :: "string \<Rightarrow> u64"
  set_field :: "string \<Rightarrow> u64 \<Rightarrow> u64 \<Rightarrow> 'm \<Rightarrow> 'm"
  copy_field :: "string \<Rightarrow> u64 \<Rightarrow> u64 \<Rightarrow> 'm \<Rightarrow> 'm"

type_synonym c_vars = "string \<Rightarrow> u64"

definition next_choice :: "u64 list \<Rightarrow> u64 \<times> u64 list" where
  "next_choice cs = (case cs of [] \<Rightarrow> (0, []) | c # cs \<Rightarrow> (c, cs))"

fun eval :: "'m c_world \<Rightarrow> c_vars \<Rightarrow> c_expr \<Rightarrow> u64 list \<times> 'm \<Rightarrow> u64 \<times> u64 list \<times> 'm"
  and evals :: "'m c_world \<Rightarrow> c_vars \<Rightarrow> c_expr list \<Rightarrow> u64 list \<times> 'm \<Rightarrow> u64 list \<times> u64 list \<times> 'm" where
  "eval W v (EVar x) s = (v x, s)"
| "eval W v ENull s = (0, s)"
| "eval W v EChoice s = (let (cs, m) = s; (c, cs) = next_choice cs in (c, cs, m))"
| "eval W v (ELit n) s = (of_nat n, s)"
| "eval W v (ESizeof t) s = (size_of W t, s)"
| "eval W v (ECast t e) s = eval W v e s"
| "eval W v (ELoad e) s = (let (a, cs, m) = eval W v e s in (load_word W a m, cs, m))"
| "eval W v (ECall f es) s =
     (let (as, cs, m) = evals W v es s; (r, m) = lib_call W f as m in (r, cs, m))"
| "eval W v (ECallPtr f es) s =
     (let (p, s) = eval W v f s; (as, cs, m) = evals W v es s; (r, m) = ptr_call W p as m
      in (r, cs, m))"
| "evals W v [] s = ([], s)"
| "evals W v (e # es) s = (let (a, s) = eval W v e s; (as, s) = evals W v es s in (a # as, s))"

datatype 'm outcome = Fell c_vars "u64 list" 'm | Returned u64 "u64 list" 'm

text \<open>
  The loop of \<open>SWhile\<close>. Each round takes one choice at least, so the choices left when it starts
  bound the rounds: after them every answer is zero.
\<close>

fun choice_loop ::
  "nat \<Rightarrow> (c_vars \<Rightarrow> u64 list \<Rightarrow> 'm \<Rightarrow> 'm outcome) \<Rightarrow> c_vars \<Rightarrow> u64 list \<Rightarrow> 'm \<Rightarrow> 'm outcome" where
  "choice_loop 0 body v cs m = Fell v cs m"
| "choice_loop (Suc n) body v cs m =
     (let (c, cs) = next_choice cs
      in if c = 0 then Fell v cs m
         else case body v cs m of
           Fell v cs m \<Rightarrow> choice_loop n body v cs m
         | Returned r cs m \<Rightarrow> Returned r cs m)"

fun exec :: "'m c_world \<Rightarrow> c_stmt \<Rightarrow> c_vars \<Rightarrow> u64 list \<Rightarrow> 'm \<Rightarrow> 'm outcome"
  and execs :: "'m c_world \<Rightarrow> c_stmt list \<Rightarrow> c_vars \<Rightarrow> u64 list \<Rightarrow> 'm \<Rightarrow> 'm outcome" where
  "exec W (SDiscard x) = Fell"
| "exec W (SReturn e) = (\<lambda>v cs m. let (r, cs, m) = eval W v e (cs, m) in Returned r cs m)"
| "exec W (SDo e) = (\<lambda>v cs m. let (r, cs, m) = eval W v e (cs, m) in Fell v cs m)"
| "exec W (SDecl t x e) = (\<lambda>v cs m. let (r, cs, m) = eval W v e (cs, m) in Fell (v(x := r)) cs m)"
| "exec W (SStatic x) = Fell"
| "exec W (SAssign x e) = (\<lambda>v cs m. let (r, cs, m) = eval W v e (cs, m) in Fell (v(x := r)) cs m)"
| "exec W (SStore a e) = (\<lambda>v cs m.
     let (p, s) = eval W v a (cs, m); (r, cs, m) = eval W v e s in Fell v cs (store_word W p r m))"
| "exec W (SField x f e) = (\<lambda>v cs m.
     let (r, cs, m) = eval W v e (cs, m) in Fell v cs (set_field W f (v x) r m))"
| "exec W (SCopyField x f t e) = (\<lambda>v cs m.
     let (r, cs, m) = eval W v e (cs, m) in Fell v cs (copy_field W f (v x) r m))"
| "exec W (SNondet s) = (\<lambda>v cs m.
     let (c, cs) = next_choice cs in if c = 0 then Fell v cs m else exec W s v cs m)"
| "exec W (SWhile ss) = (\<lambda>v cs m. choice_loop (length cs) (execs W ss) v cs m)"
| "execs W [] = Fell"
| "execs W (s # ss) = (\<lambda>v cs m.
     case exec W s v cs m of
       Fell v cs m \<Rightarrow> execs W ss v cs m
     | Returned r cs m \<Rightarrow> Returned r cs m)"

text \<open>A call of an override; \<open>None\<close> when control reaches the end without a \<open>return\<close>.\<close>

definition vars_of_args :: "string list \<Rightarrow> u64 list \<Rightarrow> c_vars" where
  "vars_of_args ps as x = (case map_of (zip ps as) x of Some a \<Rightarrow> a | None \<Rightarrow> 0)"

definition run_override ::
  "'m c_world \<Rightarrow> override \<Rightarrow> u64 list \<Rightarrow> u64 list \<Rightarrow> 'm \<Rightarrow> (u64 \<times> u64 list \<times> 'm) option" where
  "run_override W f as cs m =
     (case execs W (ov_body f) (vars_of_args (ov_params f) as) cs m of
        Returned r cs m \<Rightarrow> Some (r, cs, m)
      | Fell _ _ _ \<Rightarrow> None)"

subsection \<open>The loop\<close>

text \<open>No statement gives choices back.\<close>

fun choices_left :: "'m outcome \<Rightarrow> u64 list" where
  "choices_left (Fell v cs m) = cs"
| "choices_left (Returned r cs m) = cs"

lemma next_choice_length: "next_choice cs = (c, cs') \<Longrightarrow> length cs' \<le> length cs"
  by (cases cs) (auto simp: next_choice_def)

lemma eval_length:
  "eval W v e s = (r, cs', m') \<Longrightarrow> length cs' \<le> length (fst s)"
  "evals W v es s = (rs, cs', m') \<Longrightarrow> length cs' \<le> length (fst s)"
proof (induction W v e s and W v es s arbitrary: r cs' m' and rs cs' m' rule: eval_evals.induct)
  case (3 W v s)
  then show ?case
    by (cases "next_choice (fst s)") (auto simp: split_def Let_def dest: next_choice_length)
next
  case (9 W v f es s)
  then show ?case
    by (fastforce simp: split: prod.splits dest: order_trans)
next
  case (11 W v e es s)
  then show ?case by (fastforce split: prod.splits)
qed (auto split: prod.splits)

lemma choice_loop_length:
  assumes "\<And>v cs m. length (choices_left (body v cs m)) \<le> length cs"
  shows "length (choices_left (choice_loop n body v cs m)) \<le> length cs"
proof (induction n arbitrary: v cs m)
  case (Suc n)
  obtain c cs1 where c: "next_choice cs = (c, cs1)" by fastforce
  show ?case
  proof (cases "body v cs1 m")
    case (Fell v2 cs2 m2)
    then have "length cs2 \<le> length cs1" using assms [of v cs1 m] by simp
    then show ?thesis using Suc [of v2 cs2 m2] next_choice_length [OF c] Fell c by simp
  next
    case (Returned r cs2 m2)
    then have "length cs2 \<le> length cs1" using assms [of v cs1 m] by simp
    then show ?thesis using next_choice_length [OF c] Returned c by simp
  qed
qed simp

lemma exec_length:
  "length (choices_left (exec W s v cs m)) \<le> length cs"
  "length (choices_left (execs W ss v cs m)) \<le> length cs"
proof (induction W s and W ss arbitrary: v cs m and v cs m rule: exec_execs.induct)
  case (10 W s)
  obtain c cs1 where c: "next_choice cs = (c, cs1)" by fastforce
  have "length (choices_left (exec W s v cs1 m)) \<le> length cs1" if "c \<noteq> 0"
    by (rule "10.IH" [OF refl c [symmetric] that])
  with next_choice_length [OF c] show ?case by (auto simp: c intro: order_trans)
next
  case (11 W ss)
  then show ?case by (simp add: choice_loop_length)
next
  case (13 W s ss)
  have 1: "length (choices_left (exec W s v cs m)) \<le> length cs" by (rule "13.IH")
  show ?case
  proof (cases "exec W s v cs m")
    case (Fell v2 cs2 m2)
    from "13.IH"(2) [OF this, of v2 cs2 m2] 1 Fell show ?thesis by simp
  qed (use 1 in simp)
qed (auto dest!: eval_length split: prod.splits)

text \<open>More rounds than choices change nothing, so the loop is the loop of C.\<close>

lemma choice_loop_enough:
  assumes "\<And>v cs m. length (choices_left (body v cs m)) \<le> length cs" and "length cs \<le> n"
  shows "choice_loop n body v cs m = choice_loop (length cs) body v cs m"
  using assms(2)
proof (induction n arbitrary: v cs m rule: less_induct)
  case (less n)
  show ?case
  proof (cases cs)
    case Nil
    then show ?thesis by (cases n) (simp_all add: next_choice_def)
  next
    case (Cons c cs1)
    then obtain k where n: "n = Suc k" "length cs1 \<le> k" using less.prems by (cases n) simp_all
    have "choice_loop k body v2 cs2 m2 = choice_loop (length cs1) body v2 cs2 m2"
      if "body v cs1 m = Fell v2 cs2 m2" for v2 cs2 m2
    proof -
      have l: "length cs2 \<le> length cs1" using assms(1) [of v cs1 m] that by simp
      have "choice_loop j body v2 cs2 m2 = choice_loop (length cs2) body v2 cs2 m2"
        if "length cs2 \<le> j" "j \<le> k" for j
        using less.IH [of j cs2 v2 m2] that n by simp
      with l n show ?thesis by (metis order_refl order_trans)
    qed
    then show ?thesis
      by (auto simp: Cons n next_choice_def split: outcome.split)
  qed
qed

lemma exec_while:
  "exec W (SWhile ss) v cs m =
     (case cs of [] \<Rightarrow> Fell v [] m
      | c # cs \<Rightarrow> if c = 0 then Fell v cs m
        else case execs W ss v cs m of
          Fell v cs m \<Rightarrow> exec W (SWhile ss) v cs m
        | Returned r cs m \<Rightarrow> Returned r cs m)"
proof (cases cs)
  case (Cons c cs1)
  have "length cs2 \<le> length cs1" if "execs W ss v cs1 m = Fell v2 cs2 m2" for v2 cs2 m2
    using exec_length(2) [of W ss v cs1 m] that by simp
  then show ?thesis
    by (simp add: Cons next_choice_def split: outcome.split)
      (metis choice_loop_enough exec_length(2))
qed simp

section \<open>Overrides up to the names of parameters\<close>

text \<open>
  The canonical form of an override: parameters named by their position, without casts, discarded
  parameters and declarations, which do nothing. Overrides with the same canonical form behave
  alike.
\<close>

definition slot :: "string list \<Rightarrow> string \<Rightarrow> string" where
  "slot ps x =
     (case map_of (zip ps [0..<length ps]) x of Some i \<Rightarrow> CHR ''$'' # show_dec i | None \<Rightarrow> x)"

fun ren_expr :: "(string \<Rightarrow> string) \<Rightarrow> c_expr \<Rightarrow> c_expr" where
  "ren_expr r (EVar x) = EVar (r x)"
| "ren_expr r (ECast t e) = ren_expr r e"
| "ren_expr r (ELoad e) = ELoad (ren_expr r e)"
| "ren_expr r (ECall f es) = ECall f (map (ren_expr r) es)"
| "ren_expr r (ECallPtr e es) = ECallPtr (ren_expr r e) (map (ren_expr r) es)"
| "ren_expr r e = e"

fun ren_stmt :: "(string \<Rightarrow> string) \<Rightarrow> c_stmt \<Rightarrow> c_stmt" where
  "ren_stmt r (SDiscard x) = SDiscard (r x)"
| "ren_stmt r (SReturn e) = SReturn (ren_expr r e)"
| "ren_stmt r (SDo e) = SDo (ren_expr r e)"
| "ren_stmt r (SDecl t x e) = SDecl t (r x) (ren_expr r e)"
| "ren_stmt r (SStatic x) = SStatic (r x)"
| "ren_stmt r (SAssign x e) = SAssign (r x) (ren_expr r e)"
| "ren_stmt r (SStore a e) = SStore (ren_expr r a) (ren_expr r e)"
| "ren_stmt r (SField x f e) = SField (r x) f (ren_expr r e)"
| "ren_stmt r (SCopyField x f t e) = SCopyField (r x) f t (ren_expr r e)"
| "ren_stmt r (SNondet s) = SNondet (ren_stmt r s)"
| "ren_stmt r (SWhile ss) = SWhile (map (ren_stmt r) ss)"

fun skips :: "c_stmt \<Rightarrow> bool" where
  "skips (SDiscard x) \<longleftrightarrow> True"
| "skips (SStatic x) \<longleftrightarrow> True"
| "skips s \<longleftrightarrow> False"

definition canon :: "override \<Rightarrow> override" where
  "canon f =
     Override False '''' (map (slot (ov_params f)) (ov_params f))
       (map (ren_stmt (slot (ov_params f))) (filter (\<lambda>s. \<not> skips s) (ov_body f)))"

text \<open>No name of the code begins with a dollar sign.\<close>

definition plain :: "string \<Rightarrow> bool" where
  "plain x \<longleftrightarrow> (case x of [] \<Rightarrow> True | c # _ \<Rightarrow> c \<noteq> CHR ''$'')"

fun plain_expr :: "c_expr \<Rightarrow> bool" where
  "plain_expr (EVar x) \<longleftrightarrow> plain x"
| "plain_expr (ECast t e) \<longleftrightarrow> plain_expr e"
| "plain_expr (ELoad e) \<longleftrightarrow> plain_expr e"
| "plain_expr (ECall f es) \<longleftrightarrow> list_all plain_expr es"
| "plain_expr (ECallPtr e es) \<longleftrightarrow> plain_expr e \<and> list_all plain_expr es"
| "plain_expr e \<longleftrightarrow> True"

fun plain_stmt :: "c_stmt \<Rightarrow> bool" where
  "plain_stmt (SDiscard x) \<longleftrightarrow> True"
| "plain_stmt (SReturn e) \<longleftrightarrow> plain_expr e"
| "plain_stmt (SDo e) \<longleftrightarrow> plain_expr e"
| "plain_stmt (SDecl t x e) \<longleftrightarrow> plain x \<and> plain_expr e"
| "plain_stmt (SStatic x) \<longleftrightarrow> True"
| "plain_stmt (SAssign x e) \<longleftrightarrow> plain x \<and> plain_expr e"
| "plain_stmt (SStore a e) \<longleftrightarrow> plain_expr a \<and> plain_expr e"
| "plain_stmt (SField x f e) \<longleftrightarrow> plain x \<and> plain_expr e"
| "plain_stmt (SCopyField x f t e) \<longleftrightarrow> plain x \<and> plain_expr e"
| "plain_stmt (SNondet s) \<longleftrightarrow> plain_stmt s"
| "plain_stmt (SWhile ss) \<longleftrightarrow> list_all plain_stmt ss"

definition plain_override :: "override \<Rightarrow> bool" where
  "plain_override f \<longleftrightarrow> list_all plain (ov_params f) \<and> list_all plain_stmt (ov_body f)"

definition agree :: "(string \<Rightarrow> string) \<Rightarrow> c_vars \<Rightarrow> c_vars \<Rightarrow> bool" where
  "agree r v v' \<longleftrightarrow> (\<forall>x. plain x \<longrightarrow> v' (r x) = v x)"

fun outcome_rel :: "(string \<Rightarrow> string) \<Rightarrow> 'm outcome \<Rightarrow> 'm outcome \<Rightarrow> bool" where
  "outcome_rel r (Fell v cs m) (Fell v' cs' m') \<longleftrightarrow> agree r v v' \<and> cs' = cs \<and> m' = m"
| "outcome_rel r (Returned x cs m) (Returned x' cs' m') \<longleftrightarrow> x' = x \<and> cs' = cs \<and> m' = m"
| "outcome_rel r _ _ \<longleftrightarrow> False"

lemma eval_ren:
  "plain_expr e \<Longrightarrow> agree r v v' \<Longrightarrow> eval W v' (ren_expr r e) s = eval W v e s"
  "list_all plain_expr es \<Longrightarrow> agree r v v' \<Longrightarrow> evals W v' (map (ren_expr r) es) s = evals W v es s"
  by (induction W v e s and W v es s rule: eval_evals.induct)
    (auto simp: agree_def Let_def split: prod.splits)

lemma agree_update:
  assumes "agree r v v'" and "inj_on r {x. plain x}" and "plain x"
  shows "agree r (v(x := a)) (v'(r x := a))"
  using assms by (auto simp: agree_def dest: inj_onD)

lemma choice_loop_ren:
  assumes "\<And>v v' cs m. agree r v v' \<Longrightarrow> outcome_rel r (body v cs m) (body' v' cs m)"
    and "agree r v v'"
  shows "outcome_rel r (choice_loop n body v cs m) (choice_loop n body' v' cs m)"
  using assms(2)
proof (induction n arbitrary: v v' cs m)
  case (Suc n)
  obtain c cs1 where c: "next_choice cs = (c, cs1)" by fastforce
  from assms(1) [OF Suc.prems, of cs1 m] show ?case
    using Suc by (cases "body v cs1 m"; cases "body' v' cs1 m") (simp_all add: c)
qed simp

lemma exec_ren:
  "plain_stmt s \<Longrightarrow> inj_on r {x. plain x} \<Longrightarrow> agree r v v' \<Longrightarrow>
     outcome_rel r (exec W s v cs m) (exec W (ren_stmt r s) v' cs m)"
  "list_all plain_stmt ss \<Longrightarrow> inj_on r {x. plain x} \<Longrightarrow> agree r v v' \<Longrightarrow>
     outcome_rel r (execs W ss v cs m) (execs W (map (ren_stmt r) ss) v' cs m)"
proof (induction W s and W ss arbitrary: v v' cs m and v v' cs m rule: exec_execs.induct)
  case (8 W x f e)
  then have "eval W v' (ren_expr r e) (cs, m) = eval W v e (cs, m)" "v' (r x) = v x"
    by (simp_all add: eval_ren agree_def)
  with 8 show ?case by (simp split: prod.split)
next
  case (9 W x f t e)
  then have "eval W v' (ren_expr r e) (cs, m) = eval W v e (cs, m)" "v' (r x) = v x"
    by (simp_all add: eval_ren agree_def)
  with 9 show ?case by (simp split: prod.split)
next
  case (10 W s)
  obtain c cs1 where c: "next_choice cs = (c, cs1)" by fastforce
  have "outcome_rel r (exec W s v cs1 m) (exec W (ren_stmt r s) v' cs1 m)" if "c \<noteq> 0"
    by (rule "10.IH" [OF refl c [symmetric] that]) (use "10.prems" in simp_all)
  with 10 show ?case by (simp add: c)
next
  case (11 W ss)
  then show ?case by (auto intro!: choice_loop_ren)
next
  case (13 W s ss)
  have 1: "outcome_rel r (exec W s v cs m) (exec W (ren_stmt r s) v' cs m)"
    by (rule "13.IH") (use "13.prems" in simp_all)
  show ?case
  proof (cases "exec W s v cs m")
    case (Fell v2 cs2 m2)
    with 1 obtain v3 where v3: "exec W (ren_stmt r s) v' cs m = Fell v3 cs2 m2" "agree r v2 v3"
      by (cases "exec W (ren_stmt r s) v' cs m") auto
    from "13.IH"(2) [OF Fell _ _ v3(2)] v3(1) Fell "13.prems" show ?thesis by simp
  next
    case (Returned x cs2 m2)
    with 1 show ?thesis by (cases "exec W (ren_stmt r s) v' cs m") auto
  qed
qed (auto simp: eval_ren agree_update split: prod.splits)

lemma execs_skips: "execs W (filter (\<lambda>s. \<not> skips s) ss) = execs W ss"
proof (induction ss)
  case (Cons s ss)
  show ?case
  proof (cases "skips s")
    case True
    then show ?thesis using Cons by (cases s) simp_all
  next
    case False
    then show ?thesis using Cons by (simp del: exec.simps cong: outcome.case_cong)
  qed
qed simp

lemma map_of_zip_inj:
  assumes "inj_on r (insert x (set ps))"
  shows "map_of (zip (map r ps) as) (r x) = map_of (zip ps as) x"
  using assms
proof (induction ps as rule: list_induct2')
  case (4 p ps a as)
  then have "inj_on r (insert x (set ps))" "r x = r p \<longleftrightarrow> x = p" by (auto simp: inj_on_def)
  with 4 show ?case by simp
qed simp_all

lemma slot_inj: "inj_on (slot ps) {x. plain x}"
proof (rule inj_onI)
  fix x y
  assume xy: "x \<in> {x. plain x}" "y \<in> {x. plain x}" "slot ps x = slot ps y"
  have "x = y" if "map_of (zip ps [0..<length ps]) x = Some i" "map_of (zip ps [0..<length ps]) y = Some i" for i
    using that by (auto dest!: map_of_SomeD simp: in_set_zip)
  with xy show "x = y"
    by (auto simp: slot_def plain_def dest: show_dec_inject split: option.splits)
qed

lemma agree_args:
  assumes "list_all plain ps"
  shows "agree (slot ps) (vars_of_args ps as) (vars_of_args (map (slot ps) ps) as)"
proof -
  have "inj_on (slot ps) (insert x (set ps))" if "plain x" for x
    by (rule inj_on_subset [OF slot_inj]) (use that assms in \<open>auto simp: list_all_iff\<close>)
  then show ?thesis by (simp add: agree_def vars_of_args_def map_of_zip_inj)
qed

text \<open>The canonical form does what the override does.\<close>

lemma run_canon:
  assumes "plain_override f"
  shows "run_override W (canon f) as cs m = run_override W f as cs m"
proof -
  let ?r = "slot (ov_params f)" and ?ss = "filter (\<lambda>s. \<not> skips s) (ov_body f)"
  have "list_all plain_stmt ?ss" using assms by (auto simp: plain_override_def list_all_iff)
  then have "outcome_rel ?r (execs W ?ss (vars_of_args (ov_params f) as) cs m)
      (execs W (map (ren_stmt ?r) ?ss) (vars_of_args (map ?r (ov_params f)) as) cs m)"
    using assms by (intro exec_ren slot_inj agree_args) (simp_all add: plain_override_def)
  then show ?thesis
    by (cases "execs W ?ss (vars_of_args (ov_params f) as) cs m";
      cases "execs W (map (ren_stmt ?r) ?ss) (vars_of_args (map ?r (ov_params f)) as) cs m")
      (simp_all add: run_override_def canon_def execs_skips)
qed

lemma same_canon:
  assumes "canon f = canon g" and "plain_override f" and "plain_override g"
  shows "run_override W f = run_override W g" and "length (ov_params f) = length (ov_params g)"
proof -
  show "run_override W f = run_override W g"
    by (intro ext) (metis assms run_canon)
  show "length (ov_params f) = length (ov_params g)"
    using arg_cong [OF assms(1), of "\<lambda>f. length (ov_params f)"] by (simp add: canon_def)
qed

end
