(* ===== verification/Override_Prelude.thy ===== *)
theory Override_Prelude
  imports Override_Lang "HOL-Library.AList"
begin

text \<open>
  The prelude of the emitted C model: the template \<open>src/PointsTo/templates/prelude.txt\<close>, which
  \<open>populate_prelude\<close> of \<open>PointsTo.cpp\<close> and the conservative files include, and which also fills the
  table of overrides. Comments are left out and each definition is on one line.
\<close>

section \<open>The statements of the template\<close>

datatype prelude_item =
  PText "string list"
| POverride override                  \<comment> \<open>\<open>def_override\<close>, \<open>def_override_inline\<close> and the body\<close>
| PEmpty "(string \<times> nat) list"        \<comment> \<open>\<open>def_override_empty\<close>\<close>
| PConservative "(string \<times> nat) list" \<comment> \<open>\<open>def_override_conservative\<close>\<close>

type_synonym prelude_state = "(string \<times> u16) list \<times> string"

definition arg_names :: "string list" where
  "arg_names = map (\<lambda>i. ''arg'' @ show_dec i) [0..<64]"

definition override_head :: "string \<Rightarrow> string \<Rightarrow> string list \<Rightarrow> string" where
  "override_head knd nm args =
     ''T '' @ knd @ ''('' @ nm @ '')('' @
     (if args = [] then ''void'' else join '', '' (map (\<lambda>a. ''T '' @ a) args)) @ '')''"

definition def_override_generic :: "string \<Rightarrow> string \<Rightarrow> string list \<Rightarrow> prelude_state \<Rightarrow> prelude_state" where
  "def_override_generic knd nm args s =
     (let (override_nargs, out) = s
      in (AList.update nm (of_nat (length args)) override_nargs, out @ override_head knd nm args))"

definition def_override_block ::
  "string \<Rightarrow> string \<Rightarrow> string list \<Rightarrow> c_stmt list \<Rightarrow> prelude_state \<Rightarrow> prelude_state" where
  "def_override_block knd nm args body s =
     (let (override_nargs, out) = def_override_generic knd nm args s
      in (override_nargs, out @ show_block body @ [newline]))"

definition override_kind :: "override \<Rightarrow> string" where
  "override_kind f = (if ov_inline f then ''DEF_OVERRIDE_INLINE'' else ''DEF_OVERRIDE'')"

definition def_override :: "override \<Rightarrow> prelude_state \<Rightarrow> prelude_state" where
  "def_override f = def_override_block (override_kind f) (ov_name f) (ov_params f) (ov_body f)"

definition empty_body :: "string list \<Rightarrow> c_stmt list" where
  "empty_body args = map SDiscard args @ [SReturn ENull]"

definition def_override_empty :: "(string \<times> nat) list \<Rightarrow> prelude_state \<Rightarrow> prelude_state result" where
  "def_override_empty =
     for_each (\<lambda>(nm, n) s.
       assert_r (n \<le> length arg_names)
         (let args = take n arg_names
          in Ok (def_override_block ''DEF_OVERRIDE'' nm args (empty_body args) s)))"

definition mix_arg :: "string \<Rightarrow> c_stmt list" where
  "mix_arg a =
     [SNondet (SAssign ''tmp'' (EVar a)),
      SNondet (SStore (EVar ''tmp'') (EVar ''tmp'')),
      SNondet (SAssign ''tmp'' (ELoad (EVar ''tmp'')))]"

definition conservative_body :: "string list \<Rightarrow> c_stmt list" where
  "conservative_body args =
     [SDecl ''T'' ''tmp'' (ECall ''malloc'' [EChoice]), SWhile (concat (map mix_arg args)),
      SReturn (EVar ''tmp'')]"

definition def_override_conservative_single :: "string \<Rightarrow> nat \<Rightarrow> prelude_state \<Rightarrow> prelude_state result" where
  "def_override_conservative_single nm n s =
     assert_r (n \<le> length arg_names)
       (let args = take n arg_names
        in Ok (def_override_block ''DEF_OVERRIDE'' nm args (conservative_body args) s))"

definition def_override_conservative :: "(string \<times> nat) list \<Rightarrow> prelude_state \<Rightarrow> prelude_state result" where
  "def_override_conservative = for_each (\<lambda>(nm, n). def_override_conservative_single nm n)"

fun emit_item :: "prelude_item \<Rightarrow> prelude_state \<Rightarrow> prelude_state result" where
  "emit_item (PText ls) s = (let (ov, out) = s in Ok (ov, out @ concat (map (\<lambda>l. l @ [newline]) ls)))"
| "emit_item (POverride f) s = Ok (def_override f s)"
| "emit_item (PEmpty fs) s = def_override_empty fs s"
| "emit_item (PConservative fs) s = def_override_conservative fs s"

section \<open>The template\<close>

definition prelude_header :: "string list" where
  "prelude_header = [
   ''#pragma once'',
   ''#define _GNU_SOURCE'',
   ''#define _FILE_OFFSET_BITS 64'',
   ''#include <malloc.h>'',
   ''#include <stddef.h>'',
   ''#include <stdio.h>'',
   ''#include <stdlib.h>'',
   ''#include <string.h>'',
   ''#include <sys/mman.h>'',
   ''extern unsigned long __nondeterministic_choice(void);'',
   ''#define NONDET if (__nondeterministic_choice())'',
   ''#define NONDET_SELECT(x, y) (__nondeterministic_choice() ? (x) : (y))'',
   ''typedef void *T;'',
   ''#define WEAK __attribute__((weak))'',
   ''#define NO_INLINE __attribute__((noinline))'',
   ''#define ALWAYS_INLINE __attribute__((always_inline))'',
   ''#define OVERRIDE(x) bracelet_override_##x'',
   ''#define DEF_OVERRIDE(x) WEAK NO_INLINE OVERRIDE(x)'',
   ''#define DEF_OVERRIDE_INLINE(x) WEAK ALWAYS_INLINE OVERRIDE(x)'']"

definition prelude_allocators :: "prelude_item list" where
  "prelude_allocators = [
   POverride (Override True ''malloc'' [''size''] [SDiscard ''size'',
     SReturn (ECall ''malloc'' [EChoice])]),
   POverride (Override True ''__libc_malloc'' [''size''] [SDiscard ''size'',
     SReturn (ECall ''malloc'' [EChoice])]),
   POverride (Override True ''realloc'' [''old'', ''size''] [SDiscard ''size'',
     SReturn (ECall ''realloc'' [EVar ''old'', EChoice])]),
   POverride (Override True ''__libc_realloc'' [''old'', ''size''] [SDiscard ''size'',
     SReturn (ECall ''realloc'' [EVar ''old'', EChoice])]),
   POverride (Override True ''reallocarray'' [''old'', ''count'', ''size''] [SDiscard ''count'',
     SDiscard ''size'', SReturn (ECall ''reallocarray'' [EVar ''old'', EChoice, EChoice])]),
   POverride (Override True ''__libc_reallocarray'' [''old'', ''count'', ''size''] [SDiscard ''count'',
     SDiscard ''size'', SReturn (ECall ''reallocarray'' [EVar ''old'', EChoice, EChoice])]),
   POverride (Override True ''calloc'' [''x'', ''y''] [SDiscard ''x'', SDiscard ''y'',
     SReturn (ECall ''calloc'' [EChoice, EChoice])]),
   POverride (Override True ''__libc_calloc'' [''x'', ''y''] [SDiscard ''x'', SDiscard ''y'',
     SReturn (ECall ''calloc'' [EChoice, EChoice])]),
   POverride (Override True ''memalign'' [''alignment'', ''size''] [SDiscard ''alignment'',
     SDiscard ''size'', SReturn (ECall ''memalign'' [EChoice, EChoice])]),
   POverride (Override True ''aligned_alloc'' [''alignment'', ''size''] [SDiscard ''alignment'',
     SDiscard ''size'', SReturn (ECall ''memalign'' [EChoice, EChoice])]),
   POverride (Override True ''__libc_memalign'' [''alignment'', ''size''] [SDiscard ''alignment'',
     SDiscard ''size'', SReturn (ECall ''memalign'' [EChoice, EChoice])]),
   POverride (Override True ''posix_memalign'' [''memptr'', ''alignment'',
     ''size''] [SDiscard ''alignment'', SDiscard ''size'',
     SDo (ECall ''posix_memalign'' [ECast ''void **'' (EVar ''memptr''), EChoice, EChoice]),
     SReturn ENull])]"

definition prelude_empties :: "prelude_item list" where
  "prelude_empties = [
   PEmpty [(''free'', 1), (''strlen'', 1), (''__strlen_evex'', 1), (''strcmp'', 2), (''strncmp'', 3),
     (''bind'', 3), (''accept'', 3), (''accept4'', 4), (''listen'', 2), (''perror'', 1),
     (''localeconv'', 0), (''pthread_mutex_init'', 2), (''pthread_mutex_lock'', 1),
     (''pthread_mutex_unlock'', 1), (''pthread_mutex_destroy'', 1), (''abort'', 0), (''atan2'', 2),
     (''atan2f'', 2), (''atan2l'', 2), (''exp'', 1), (''expf'', 1), (''expl'', 1), (''modff'', 2),
     (''modfl'', 2), (''eventfd'', 2), (''bcmp'', 3), (''clock_gettime'', 2), (''close'', 1),
     (''exit'', 1), (''munmap'', 2), (''rand'', 0), (''rand_r'', 1), (''srand'', 1), (''clearerror'', 1), (''feof'', 1), (''ferror'', 1), (''fileno'', 1), (''_ZdlPvm'', 2), (''iconv_open'', 2),
     (''iconv'', 5), (''iconv_close'', 1), (''isspace'', 1), (''tolower'', 1), (''toupper'', 1),
     (''strtod'', 2), (''strtol'', 3), (''strtoll'', 3), (''__isoc23_strtol'', 3), (''strtoull'', 3),
     (''__isoc23_strtoul'', 3)],
   PConservative [(''_ZSt29_Rb_tree_insert_and_rebalancebPSt18_Rb_tree_node_baseS0_RS_'', 4),
     (''_ZSt18_Rb_tree_decrementPSt18_Rb_tree_node_base'', 1),
     (''_ZSt18_Rb_tree_incrementPSt18_Rb_tree_node_base'', 1)]]"

definition prelude_memory :: "prelude_item list" where
  "prelude_memory = [
   POverride (Override True ''memcpy'' [''x'', ''y'', ''sz''] [SDiscard ''sz'',
     SReturn (ECall ''memcpy'' [EVar ''x'', EVar ''y'', EChoice])]),
   POverride (Override True ''memset'' [''x'', ''c'', ''sz''] [SDiscard ''c'', SDiscard ''sz'',
     SReturn (ECall ''memset'' [EVar ''x'', EChoice, EChoice])]),
   POverride (Override False ''memchr'' [''str'', ''c'', ''n''] [SDiscard ''c'', SDiscard ''n'',
     SReturn (EVar ''str'')]),
   POverride (Override False ''memrchr'' [''str'', ''c'', ''n''] [SDiscard ''c'', SDiscard ''n'',
     SReturn (EVar ''str'')]),
   POverride (Override True ''__memmove_chk_avx512_unaligned_erms'' [''dst'', ''src'', ''len'',
     ''dstlen''] [SDiscard ''len'', SDiscard ''dstlen'', SReturn (ECall ''memcpy'' [EVar ''dst'',
     EVar ''src'', EChoice])])]"

definition prelude_file_type :: "string list" where
  "prelude_file_type = [
   ''typedef struct BraceletFile {'',
   ''  T cookie;'',
   ''  cookie_io_functions_t funcs;'',
   ''} BraceletFile;'']"

definition prelude_rest :: "prelude_item list" where
  "prelude_rest = [
   POverride (Override True ''fopen'' [''name'', ''mode''] [SDiscard ''name'', SDiscard ''mode'',
     SReturn (ECall ''calloc'' [ELit 1, ESizeof ''BraceletFile''])]),
   POverride (Override True ''fdopen'' [''fd'', ''mode''] [SDiscard ''fd'', SDiscard ''mode'',
     SReturn (ECall ''calloc'' [ELit 1, ESizeof ''BraceletFile''])]),
   POverride (Override True ''fopencookie'' [''cookie'', ''mode'',
     ''funcs''] [SDecl ''BraceletFile *'' ''out'' (ECast ''BraceletFile *'' (ECall ''calloc'' [ELit 1,
     ESizeof ''BraceletFile''])), SDiscard ''mode'', SField ''out'' ''cookie'' (EVar ''cookie''),
     SCopyField ''out'' ''funcs'' ''cookie_io_functions_t *'' (EVar ''funcs''),
     SReturn (ECast ''void *'' (EVar ''out''))]),
   POverride (Override True ''pthread_create'' [''thread_out'', ''attr'', ''start_routine'',
     ''arg''] [SDiscard ''thread_out'', SDiscard ''attr'',
     SDo (ECallPtr (EVar ''start_routine'') [EVar ''arg'']), SReturn ENull]),
   POverride (Override True ''_ZNSt6thread15_M_start_threadESt10unique_ptrINS_6_StateESt14default_deleteIS1_EEPFvvE'' [''this'',
     ''thread_state'', ''start_routine''] [SDiscard ''this'', SDiscard ''thread_state'',
     SDo (ECallPtr (EVar ''start_routine'') []), SReturn ENull]),
   POverride (Override True ''_Znwm'' [''sz''] [SDiscard ''sz'', SReturn (ECall ''malloc'' [EChoice])]),
   POverride (Override False ''strstr'' [''haystack'', ''needle''] [SDiscard ''needle'',
     SReturn (EVar ''haystack'')]),
   POverride (Override True ''mmap'' [''addr'', ''len'', ''prot'', ''flags'', ''fd'',
     ''off''] [SDiscard ''len'', SDiscard ''prot'', SDiscard ''flags'', SDiscard ''fd'',
     SDiscard ''off'', SReturn (ECall ''mmap'' [EVar ''addr'', EChoice, EChoice, EChoice, EChoice,
     EChoice])]),
   POverride (Override True ''shmat'' [''shmid'', ''shmaddr'', ''shmflg''] [SDiscard ''shmid'',
     SDiscard ''shmflg'', SDecl ''T'' ''ptr'' ENull,
     SNondet (SAssign ''ptr'' (ECall ''malloc'' [EChoice])),
     SNondet (SAssign ''ptr'' (EVar ''shmaddr'')), SReturn (EVar ''ptr'')]),
   POverride (Override True ''__mmap'' [''addr'', ''len'', ''prot'', ''flags'', ''fd'',
     ''off''] [SDiscard ''len'', SDiscard ''prot'', SDiscard ''flags'', SDiscard ''fd'',
     SDiscard ''off'', SReturn (ECall ''mmap'' [EVar ''addr'', EChoice, EChoice, EChoice, EChoice,
     EChoice])]),
   POverride (Override False ''memmem'' [''haystack'', ''x'', ''y'', ''z''] [SDiscard ''x'',
     SDiscard ''y'', SDiscard ''z'', SReturn (EVar ''haystack'')]),
   POverride (Override False ''qsort'' [''base'', ''nmemb'', ''size'', ''cmp''] [SDiscard ''nmemb'',
     SDiscard ''size'', SDo (ECallPtr (EVar ''cmp'') [EVar ''base'', EVar ''base'']), SReturn ENull]),
   POverride (Override False ''qsort_r'' [''base'', ''nmemb'', ''size'', ''cmp'',
     ''ctx''] [SDiscard ''nmemb'', SDiscard ''size'', SDo (ECallPtr (EVar ''cmp'') [EVar ''base'',
     EVar ''base'', EVar ''ctx'']), SReturn ENull]),
   POverride (Override False ''_ZStlsISt11char_traitsIcEERSt13basic_ostreamIcT_ES5_PKc'' [''ostream'',
     ''str''] [SDiscard ''str'', SReturn (EVar ''ostream'')]),
   POverride (Override False ''_ZNSolsEi'' [''ostream'', ''n''] [SDiscard ''n'',
     SReturn (EVar ''ostream'')])]"

definition prelude_template :: "prelude_item list" where
  "prelude_template =
     PText prelude_header # prelude_allocators @ prelude_empties @ prelude_memory @
     PText prelude_file_type # prelude_rest"

definition populate_prelude :: "(string \<times> u16) list \<Rightarrow> prelude_state result" where
  "populate_prelude override_nargs = for_each emit_item prelude_template (override_nargs, [])"

section \<open>What the template defines\<close>

fun item_overrides :: "prelude_item \<Rightarrow> override list" where
  "item_overrides (PText ls) = []"
| "item_overrides (POverride f) = [f]"
| "item_overrides (PEmpty fs) =
     map (\<lambda>(nm, n). Override False nm (take n arg_names) (empty_body (take n arg_names))) fs"
| "item_overrides (PConservative fs) =
     map (\<lambda>(nm, n). Override False nm (take n arg_names) (conservative_body (take n arg_names))) fs"

fun item_fits :: "prelude_item \<Rightarrow> bool" where
  "item_fits (PEmpty fs) \<longleftrightarrow> list_all (\<lambda>(nm, n). n \<le> length arg_names) fs"
| "item_fits (PConservative fs) \<longleftrightarrow> list_all (\<lambda>(nm, n). n \<le> length arg_names) fs"
| "item_fits _ \<longleftrightarrow> True"

definition prelude_overrides :: "override list" where
  "prelude_overrides = concat (map item_overrides prelude_template)"

definition override_text :: "override \<Rightarrow> string" where
  "override_text f = override_head (override_kind f) (ov_name f) (ov_params f) @ show_block (ov_body f) @ [newline]"

fun item_text :: "prelude_item \<Rightarrow> string" where
  "item_text (PText ls) = concat (map (\<lambda>l. l @ [newline]) ls)"
| "item_text item = concat (map override_text (item_overrides item))"

definition add_nargs :: "override \<Rightarrow> (string \<times> u16) list \<Rightarrow> (string \<times> u16) list" where
  "add_nargs f = AList.update (ov_name f) (of_nat (length (ov_params f)))"

lemma def_override_eq: "def_override f (ov, out) = (add_nargs f ov, out @ override_text f)"
  by (simp add: def_override_def def_override_block_def def_override_generic_def add_nargs_def override_text_def)

lemma for_each_overrides:
  assumes "\<And>nm n s. (nm, n) \<in> set fs \<Longrightarrow> step (nm, n) s = Ok (def_override (mk nm n) s)"
  shows "for_each step fs (ov, out) =
    Ok (fold add_nargs (map (\<lambda>(nm, n). mk nm n) fs) ov,
        out @ concat (map override_text (map (\<lambda>(nm, n). mk nm n) fs)))"
  using assms
proof (induction fs arbitrary: ov out)
  case (Cons p fs)
  obtain nm n where p: "p = (nm, n)" by fastforce
  show ?case using Cons.prems [of nm n] Cons.IH [OF Cons.prems] p by (simp add: def_override_eq)
qed simp

lemma emit_item_ok:
  assumes "item_fits item"
  shows "emit_item item (ov, out) = Ok (fold add_nargs (item_overrides item) ov, out @ item_text item)"
proof (cases item)
  case (PEmpty fs)
  show ?thesis
    using assms unfolding PEmpty emit_item.simps def_override_empty_def item_overrides.simps item_text.simps
    by (intro for_each_overrides)
      (auto simp: list_all_iff def_override_def override_kind_def Let_def)
next
  case (PConservative fs)
  show ?thesis
    using assms unfolding PConservative emit_item.simps def_override_conservative_def
      item_overrides.simps item_text.simps
    by (intro for_each_overrides)
      (auto simp: list_all_iff def_override_def override_kind_def Let_def def_override_conservative_single_def)
qed (simp_all add: def_override_eq)

lemma emit_items_ok:
  assumes "list_all item_fits items"
  shows "for_each emit_item items (ov, out) =
    Ok (fold add_nargs (concat (map item_overrides items)) ov, out @ concat (map item_text items))"
  using assms by (induction items arbitrary: ov out) (simp_all add: emit_item_ok)

lemmas prelude_defs =
  prelude_template_def prelude_allocators_def prelude_empties_def prelude_memory_def prelude_rest_def

lemma length_arg_names [simp]: "length arg_names = 64"
  by (simp add: arg_names_def)

lemma template_fits: "list_all item_fits prelude_template"
  by (simp add: prelude_defs)

lemma populate_prelude_ok:
  "populate_prelude ov = Ok (fold add_nargs prelude_overrides ov, concat (map item_text prelude_template))"
  unfolding populate_prelude_def prelude_overrides_def by (simp add: emit_items_ok [OF template_fits])

lemma prelude_names_distinct: "distinct (map ov_name prelude_overrides)"
  by (simp add: prelude_overrides_def prelude_defs)

lemma map_of_add_nargs:
  "map_of (fold add_nargs fs ov) nm =
     (case find (\<lambda>f. ov_name f = nm) (rev fs) of
        Some f \<Rightarrow> Some (of_nat (length (ov_params f))) | None \<Rightarrow> map_of ov nm)"
proof (induction fs arbitrary: ov)
  case (Cons f fs)
  have "find P (xs @ [f]) = (case find P xs of Some y \<Rightarrow> Some y | None \<Rightarrow> if P f then Some f else None)"
    for P and xs :: "override list" by (induction xs) simp_all
  with Cons show ?case by (simp add: add_nargs_def update_conv' split: option.split)
qed simp

lemma find_distinct:
  assumes "distinct (map key xs)" and "x \<in> set xs"
  shows "find (\<lambda>y. key y = key x) xs = Some x"
  using assms by (induction xs) (auto simp: image_iff)

text \<open>The table of overrides after the prelude has been written.\<close>

lemma override_table:
  assumes "populate_prelude old = Ok (ov, text)"
  shows "f \<in> set prelude_overrides \<Longrightarrow> map_of ov (ov_name f) = Some (of_nat (length (ov_params f)))"
    and "nm \<notin> ov_name ` set prelude_overrides \<Longrightarrow> map_of ov nm = map_of old nm"
proof -
  have ov: "ov = fold add_nargs prelude_overrides old" using assms by (simp add: populate_prelude_ok)
  have d: "distinct (map ov_name (rev prelude_overrides))"
    using prelude_names_distinct by (simp flip: rev_map)
  show "map_of ov (ov_name f) = Some (of_nat (length (ov_params f)))" if "f \<in> set prelude_overrides"
    using find_distinct [OF d, of f] that by (simp add: ov map_of_add_nargs)
  show "map_of ov nm = map_of old nm" if "nm \<notin> ov_name ` set prelude_overrides"
  proof -
    have "find (\<lambda>f. ov_name f = nm) (rev prelude_overrides) = None"
      using that by (force simp: find_None_iff)
    then show ?thesis by (simp add: ov map_of_add_nargs)
  qed
qed

text \<open>The conservative files write the same prelude again, which leaves the table as it is.\<close>

lemma populate_again:
  assumes "populate_prelude old = Ok (ov, text)"
  shows "\<exists>ov'. populate_prelude ov = Ok (ov', text) \<and> map_of ov' = map_of ov"
proof -
  obtain ov' text' where a: "populate_prelude ov = Ok (ov', text')" by (simp add: populate_prelude_ok)
  have "map_of ov' nm = map_of ov nm" for nm
    using override_table(1) [OF a] override_table(1) [OF assms] override_table(2) [OF a, of nm] by force
  with a assms show ?thesis by (auto simp: populate_prelude_ok)
qed

lemma ends_in_return:
  assumes "ss = ts @ [SReturn e]"
  shows "\<exists>r cs' m'. execs W ss v cs m = Returned r cs' m'"
  unfolding assms
proof (induction ts arbitrary: v cs m)
  case (Cons t ts)
  then show ?case by (cases "exec W t v cs m") simp_all
qed (simp split: prod.split)

fun returns :: "override \<Rightarrow> bool" where
  "returns f \<longleftrightarrow> (case rev (ov_body f) of SReturn e # _ \<Rightarrow> True | _ \<Rightarrow> False)"

lemma returns_run:
  assumes "returns f"
  shows "run_override W f as cs m \<noteq> None"
proof -
  from assms obtain e ts where "rev (ov_body f) = SReturn e # ts"
    by (auto split: list.splits c_stmt.splits)
  then have "ov_body f = rev ts @ [SReturn e]" by (metis rev.simps(2) rev_rev_ident)
  from ends_in_return [OF this, of W "vars_of_args (ov_params f) as" cs m] show ?thesis
    by (auto simp: run_override_def)
qed

lemma all_return: "list_all returns prelude_overrides"
  by (simp add: prelude_overrides_def prelude_defs empty_body_def conservative_body_def)

lemma all_few: "list_all (\<lambda>f. length (ov_params f) \<le> 64) prelude_overrides"
  by (simp add: prelude_overrides_def prelude_defs)

text \<open>A text occurs in another.\<close>

definition occurs :: "string \<Rightarrow> string \<Rightarrow> bool" where
  "occurs x s \<longleftrightarrow> (\<exists>pre post. s = pre @ x @ post)"

lemma item_occurs:
  assumes "f \<in> set (item_overrides item)"
  shows "occurs (override_text f) (item_text item)"
proof -
  obtain fs hs where "item_overrides item = fs @ f # hs" using assms by (meson split_list)
  moreover have "item_text item = concat (map override_text (item_overrides item))"
    using assms by (cases item) simp_all
  ultimately show ?thesis by (auto simp: occurs_def)
qed

lemma override_in_text:
  assumes "f \<in> set prelude_overrides"
  shows "occurs (override_text f) (concat (map item_text prelude_template))"
proof -
  obtain item where i: "item \<in> set prelude_template" "f \<in> set (item_overrides item)"
    using assms by (auto simp: prelude_overrides_def)
  then obtain xs ys where t: "prelude_template = xs @ item # ys" by (meson split_list)
  have "occurs (item_text item) (concat (map item_text prelude_template))"
    unfolding t occurs_def by auto
  with item_occurs [OF i(2)] show ?thesis by (metis occurs_def append.assoc)
qed

text \<open>
  C34. Writing the prelude succeeds, and for every function it overrides: its definition stands in
  the text, the table has the number of parameters of that definition, without wrap-around in 16
  bits, and a call of the override returns, whatever the arguments, the memory and the
  nondeterministic choices, which are 0 from some point on.
\<close>

theorem prelude_table:
  assumes "f \<in> set prelude_overrides"
  shows "\<exists>ov text n. populate_prelude old = Ok (ov, text) \<and> occurs (override_text f) text \<and>
    map_of ov (ov_name f) = Some n \<and> unat n = length (ov_params f) \<and>
    (\<exists>r. run_override W f as cs m = Some r)"
proof -
  obtain ov where p: "populate_prelude old = Ok (ov, concat (map item_text prelude_template))"
    by (simp add: populate_prelude_ok)
  have "length (ov_params f) \<le> 64" "returns f"
    using all_few all_return assms by (simp_all add: list_all_iff)
  then show ?thesis
    using p override_in_text [OF assms] override_table(1) [OF p assms] returns_run [of f W as cs m]
    by (auto simp: unat_of_nat_small)
qed

text \<open>A memory of words in which \<open>malloc\<close> always returns the same block.\<close>

definition ex_world :: "(u64 \<Rightarrow> u64) c_world" where
  "ex_world = \<lparr>lib_call = (\<lambda>f as m. (0x1000, m)), ptr_call = (\<lambda>f as m. (0, m)),
     load_word = (\<lambda>a m. m a), store_word = (\<lambda>a x m. m(a := x)), size_of = (\<lambda>_. 8),
     set_field = (\<lambda>f a x m. m(a := x)), copy_field = (\<lambda>f a b m. m)\<rparr>"

definition ex_override :: override where
  "ex_override =
     Override False ''_ZSt18_Rb_tree_decrementPSt18_Rb_tree_node_base'' (take 1 arg_names)
       (conservative_body (take 1 arg_names))"

lemma ex_override_in: "ex_override \<in> set prelude_overrides"
  by (simp add: prelude_overrides_def prelude_defs ex_override_def)

theorem prelude_table_witness:
  "\<exists>ov text n. populate_prelude [] = Ok (ov, text) \<and> occurs (override_text ex_override) text \<and>
    map_of ov (ov_name ex_override) = Some n \<and> unat n = length (ov_params ex_override) \<and>
    (\<exists>r. run_override ex_world ex_override [8] [3, 1] (\<lambda>_. 0) = Some r)"
  by (rule prelude_table [OF ex_override_in])

end
