(* ===== verification/Emit_C.thy ===== *)
theory Emit_C
  imports Node_States Override_Prelude
begin

text \<open>
  The second half of \<open>EmitC\<close> in \<open>src/PointsTo/PointsTo.cpp\<close>, with the templates \<open>c.txt\<close>,
  \<open>define_globals.txt\<close> and \<open>conservative.txt\<close> it includes: the C program whose points-to solution is
  that of the graph. The file system is a list of files next to the object and the emitter's fields.
  The iteration order of a hash map is the order of insertion here; no result below depends on it
  but for the order of declarations.
\<close>

section \<open>Identifiers\<close>

text \<open>\<open>NodeRendering\<close> asserts that a local is the function's own.\<close>

definition show_node_in :: "'w object_api \<Rightarrow> function_info \<Rightarrow> node \<Rightarrow> 'w \<Rightarrow> (operand \<times> 'w) result" where
  "show_node_in api fi n w =
     try_r (node_local_idx n) (\<lambda>l.
       case l of
         None \<Rightarrow> renderSymbol api (symbol_of n) w
       | Some i \<Rightarrow>
           assert_r (symbol_of n = symbol_of (fi_function fi))
             (try_r (renderSymbol api (symbol_of n) w) (\<lambda>(x, w).
                Ok (Operand (''local_'' @ show_dec (unat i) @ ''_'' @ ident x) (comment x), w))))"

section \<open>The text of the model\<close>

text \<open>
  A file is a list of items: text that the code writes as it is, and the statements of the templates
  (\<open>NONDET\<close> guards a statement with a nondeterministic choice). White space is left out.
\<close>

datatype callee = Direct operand | Indirect operand nat

datatype c_item =
  Text string
| Prototype operand nat            \<comment> \<open>\<open>T f(T arg0, ..)\<close>\<close>
| Extern operand                   \<comment> \<open>\<open>extern T x;\<close>\<close>
| GlobalVar operand                \<comment> \<open>\<open>T x;\<close>\<close>
| GlobalMalloc operand             \<comment> \<open>\<open>x = malloc(..);\<close> in \<open>bracelet_init_globals\<close>\<close>
| LocalDecl "string option" operand \<comment> \<open>the debug name and \<open>T x = NULL;\<close>\<close>
| FunctionHead operand nat         \<comment> \<open>\<open>T f(..) {\<close>\<close>
| AllocaMalloc operand             \<comment> \<open>\<open>x = malloc(..);\<close>\<close>
| CallArgDecl nat nat              \<comment> \<open>\<open>T call_arg_c_i = NULL;\<close>\<close>
| NdAssign operand operand         \<comment> \<open>\<open>NONDET x = y;\<close>\<close>
| NdLoad operand operand           \<comment> \<open>\<open>NONDET x = *((T*)y);\<close>\<close>
| NdStore operand operand          \<comment> \<open>\<open>NONDET *((T*)x) = y;\<close>\<close>
| NdCall operand callee "(nat \<times> nat) list" \<comment> \<open>\<open>NONDET x = f(call_arg_c_0, ..);\<close>\<close>
| NdReturn operand                 \<comment> \<open>\<open>NONDET return x;\<close>\<close>
| NdArgDef operand nat             \<comment> \<open>\<open>NONDET x = arg_n;\<close>\<close>
| NdArgSupply nat nat operand      \<comment> \<open>\<open>NONDET call_arg_c_n = x;\<close>\<close>
| ConservativeArg string           \<comment> \<open>\<open>NONDET tmp = a; NONDET *((T*)tmp) = tmp; NONDET tmp = *((T*)tmp);\<close>\<close>
| MissingLine u64 string           \<comment> \<open>\<open>0x%016x\t%s\<close>\<close>

type_synonym c_file = "c_item list"

text \<open>\<open>writePrototype\<close>, as text; the items \<open>Prototype\<close> and \<open>FunctionHead\<close> stand for it.\<close>

definition prototype_text :: "operand \<Rightarrow> nat \<Rightarrow> string" where
  "prototype_text f n =
     ''T '' @ print_operand f @ ''('' @
     (if n = 0 then ''void''
      else ''T arg0'' @ concat (map (\<lambda>i. '', T arg'' @ show_dec i) [1..<n])) @ '')''"

definition writePrototype ::
  "'w object_api \<Rightarrow> (operand \<Rightarrow> nat \<Rightarrow> c_item) \<Rightarrow> u64 \<Rightarrow> nat \<Rightarrow> 'w \<times> c_file \<Rightarrow> ('w \<times> c_file) result" where
  "writePrototype api item symb n s =
     (let (w, out) = s in try_r (renderSymbol api symb w) (\<lambda>(f, w). Ok (w, out @ [item f n])))"

section \<open>One function\<close>

definition emit1 ::
  "'w object_api \<Rightarrow> function_info \<Rightarrow> (operand \<Rightarrow> c_item) \<Rightarrow> node \<Rightarrow> 'w \<times> c_file \<Rightarrow> ('w \<times> c_file) result" where
  "emit1 api fi item n s =
     (let (w, out) = s in try_r (show_node_in api fi n w) (\<lambda>(x, w). Ok (w, out @ [item x])))"

definition emit2 ::
  "'w object_api \<Rightarrow> function_info \<Rightarrow> (operand \<Rightarrow> operand \<Rightarrow> c_item) \<Rightarrow> node \<Rightarrow> node \<Rightarrow> 'w \<times> c_file \<Rightarrow>
   ('w \<times> c_file) result" where
  "emit2 api fi item n m s =
     (let (w, out) = s
      in try_r (show_node_in api fi n w) (\<lambda>(x, w).
         try_r (show_node_in api fi m w) (\<lambda>(y, w). Ok (w, out @ [item x y]))))"

text \<open>\<open>*callsite.local_idx()\<close>, under the assertions that the callsite is a local of the function.\<close>

definition callsite_idx :: "function_info \<Rightarrow> node \<Rightarrow> nat result" where
  "callsite_idx fi n =
     assert_r (symbol_of n = symbol_of (fi_function fi))
       (try_r (node_local_idx n) (\<lambda>l. case l of None \<Rightarrow> Abort | Some i \<Rightarrow> Ok (unat i)))"

definition emit_externs ::
  "'w object_api \<Rightarrow> function_info \<Rightarrow> emit_state \<Rightarrow> 'w \<times> c_file \<Rightarrow> ('w \<times> c_file) result" where
  "emit_externs api fi e =
     for_each (\<lambda>(n, st).
       case st of
         NodeStateFunction k \<Rightarrow> writePrototype api Prototype (symbol_of n) (unat k)
       | _ \<Rightarrow> emit1 api fi Extern n) (node_states e)"

definition emit_local ::
  "'w object_api \<Rightarrow> function_info \<Rightarrow> (function_info \<Rightarrow> nat \<Rightarrow> operand \<Rightarrow> c_item) \<Rightarrow> nat \<Rightarrow> 'w \<times> c_file \<Rightarrow>
   ('w \<times> c_file) result" where
  "emit_local api fi item i s =
     try_r (node_local (symbol_of (fi_function fi)) (of_nat i)) (\<lambda>n. emit1 api fi (item fi i) n s)"

definition local_comment :: "function_info \<Rightarrow> nat \<Rightarrow> string option" where
  "local_comment fi i =
     (if has_locals (fi_debug_data fi)
      then (case local_name (fi_debug_data fi) i of Ok nm \<Rightarrow> Some nm | _ \<Rightarrow> None)
      else None)"

definition emit_call_args :: "function_info \<Rightarrow> edge \<Rightarrow> 'w \<times> c_file \<Rightarrow> ('w \<times> c_file) result" where
  "emit_call_args fi ed =
     for_each (\<lambda>i (w, out).
       try_r (callsite_idx fi (to_node ed)) (\<lambda>c. Ok (w, out @ [CallArgDecl c i])))
     [0..<unat (edge_idx ed)]"

definition emit_call ::
  "'w object_api \<Rightarrow> function_info \<Rightarrow> edge \<Rightarrow> 'w \<times> c_file \<Rightarrow> ('w \<times> c_file) result" where
  "emit_call api fi ed s =
     (let (w, out) = s; n = unat (edge_idx ed)
      in try_r (show_node_in api fi (to_node ed) w) (\<lambda>(x, w).
         try_r (node_local_idx (from_node ed)) (\<lambda>l.
         try_r (show_node_in api fi (from_node ed) w) (\<lambda>(f, w).
         try_r (if n = 0 then Ok [] else try_r (callsite_idx fi (to_node ed)) (\<lambda>c. Ok (map (Pair c) [0..<n])))
           (\<lambda>args.
              Ok (w, out @ [NdCall x (if l \<noteq> None then Indirect f n else Direct f) args]))))))"

definition emit_arg_supply ::
  "'w object_api \<Rightarrow> function_info \<Rightarrow> edge \<Rightarrow> 'w \<times> c_file \<Rightarrow> ('w \<times> c_file) result" where
  "emit_arg_supply api fi ed s =
     try_r (callsite_idx fi (to_node ed)) (\<lambda>c.
       emit1 api fi (NdArgSupply c (unat (edge_idx ed))) (from_node ed) s)"

text \<open>
  The pages that \<open>dlsym\<close> filled: a list linked through the first word of each page, followed by a
  count and 2046 pointers. A cyclic list would be walked forever; the walk here gives up with
  \<open>Abort\<close> after \<open>fuel\<close> pages.
\<close>

definition page_pointers :: nat where "page_pointers = 2046"

fun dlsym_pages ::
  "nat \<Rightarrow> 'w object_api \<Rightarrow> (u64 \<Rightarrow> 'w \<times> 's \<Rightarrow> ('w \<times> 's) result) \<Rightarrow> u64 \<Rightarrow> 'w \<times> 's \<Rightarrow> ('w \<times> 's) result" where
  "dlsym_pages 0 api visit page s = Abort"
| "dlsym_pages (Suc fuel) api visit page s =
     (if page = 0 then Ok s
      else let (w, x) = s
        in try_ctx ''dlsym page count'' (copyData api 8 (page + 8) w) (\<lambda>(count, w).
           try_ctx ''dlsym page body pointers'' (resolvePointers api page_pointers (page + 16) w)
             (\<lambda>(pointers, w).
           try_r (for_each visit
               (filter (\<lambda>p. p \<noteq> 0) (take (min (unat (read64 count)) page_pointers) pointers)) (w, x))
             (\<lambda>(w, x).
           try_ctx ''dlsym page next pointer'' (resolvePointers api 1 page w) (\<lambda>(next_page, w).
             dlsym_pages fuel api visit (hd next_page) (w, x))))))"

definition emit_dlsym ::
  "nat \<Rightarrow> 'w object_api \<Rightarrow> function_info \<Rightarrow> edge \<Rightarrow> 'w \<times> c_file \<Rightarrow> ('w \<times> c_file) result" where
  "emit_dlsym fuel api fi ed s =
     try_r (node_local_idx (from_node ed)) (\<lambda>l.
     ensure (l = None) ''page pointer should be a symbol''
     (let (w, out) = s
      in try_ctx ''dlsym page initial pointer'' (resolvePointers api 1 (symbol_of (from_node ed)) w)
        (\<lambda>(page, w).
           dlsym_pages fuel api
             (\<lambda>p s. try_r (node_symbol p) (\<lambda>v. emit2 api fi NdAssign (to_node ed) v s))
             (hd page) (w, out))))"

text \<open>The file of one function: the template \<open>c.txt\<close>.\<close>

definition emit_function ::
  "nat \<Rightarrow> 'w object_api \<Rightarrow> emit_state \<Rightarrow> nat \<Rightarrow> function_info \<Rightarrow> 'w \<Rightarrow> ('w \<times> c_file) result" where
  "emit_function fuel api e this_function_nargs fi w =
     try_r (emit_externs api fi e (w, [Text ''#include prelude.h''])) (\<lambda>s.
     try_r (for_each (emit_local api fi (\<lambda>fi i. LocalDecl (local_comment fi i)))
              [0..<unat (fi_num_locals fi)] s) (\<lambda>s.
     try_r (writePrototype api FunctionHead (symbol_of (fi_function fi)) this_function_nargs s) (\<lambda>s.
     try_r (for_each (emit_local api fi (\<lambda>_ _. AllocaMalloc)) [0..<unat (fi_num_allocas fi)] s) (\<lambda>s.
     try_r (visitEdges fi CallK (emit_call_args fi) s) (\<lambda>s.
     try_r (visitEdges fi AssignK (\<lambda>ed. emit2 api fi NdAssign (to_node ed) (from_node ed)) s) (\<lambda>s.
     try_r (visitEdges fi LoadK (\<lambda>ed. emit2 api fi NdLoad (to_node ed) (from_node ed)) s) (\<lambda>s.
     try_r (visitEdges fi StoreK (\<lambda>ed. emit2 api fi NdStore (to_node ed) (from_node ed)) s) (\<lambda>s.
     try_r (visitEdges fi CallK (emit_call api fi) s) (\<lambda>s.
     try_r (visitEdges fi ReturnK (\<lambda>ed. emit1 api fi NdReturn (from_node ed)) s) (\<lambda>s.
     try_r (visitEdges fi ArgumentDefinitionK
              (\<lambda>ed. emit1 api fi (\<lambda>x. NdArgDef x (unat (edge_idx ed))) (to_node ed)) s) (\<lambda>s.
     try_r (visitEdges fi ArgumentSupplyK (emit_arg_supply api fi) s) (\<lambda>s.
     try_r (visitEdges fi DlsymPagePointerK (emit_dlsym fuel api fi) s) (\<lambda>(w, out).
       Ok (w, out @ [Text ''return NULL;'']))))))))))))))"

section \<open>Files\<close>

text \<open>
  The file system: what opening and writing a file answer is given by the environment, the files
  written are the state.
\<close>

record emit_env =
  open_error :: "string \<Rightarrow> string option"
  write_good :: "string \<Rightarrow> bool"
  page_fuel :: nat

text \<open>\<open>write_makefile\<close>: the template \<open>svf.Makefile\<close>.\<close>

definition makefile_lines :: "string list" where
  "makefile_lines =
     [''linked.bc: $(patsubst %.cpp,%.bc,$(wildcard *.cpp)) $(patsubst %.c,%.bc,$(wildcard *.c))'',
      tab # ''rm -f $@'',
      tab # ''$(SVF_LLVM_LINK) -o $@ $^'',
      [],
      ''%.bc: %.c'',
      tab # ''$(SVF_CLANG) -O2 -c -emit-llvm -o $@ $<'',
      [],
      ''%.bc: %.cpp'',
      tab # ''$(SVF_CLANGXX) -O2 -c -emit-llvm -o $@ $<'']"

definition makefile_text :: string where
  "makefile_text = join [newline] makefile_lines"

type_synonym files = "(string \<times> c_file) list"

definition open_file :: "emit_env \<Rightarrow> string \<Rightarrow> 'a result \<Rightarrow> 'a result" where
  "open_file env path k =
     (case open_error env path of
        Some e \<Rightarrow> Err (new_error (''Cannot open '' @ path @ '': '' @ e))
      | None \<Rightarrow> k)"

definition write_file :: "emit_env \<Rightarrow> string \<Rightarrow> string \<Rightarrow> c_file \<Rightarrow> files \<Rightarrow> files result" where
  "write_file env path msg content fs =
     ensure (write_good env path) msg (Ok (AList.update path content fs))"

definition path_in :: "string \<Rightarrow> string \<Rightarrow> string" where
  "path_in dst nm = dst @ ''/'' @ nm"

definition function_path :: "string \<Rightarrow> u64 \<Rightarrow> string" where
  "function_path dst a = path_in dst (show_hex16 a @ ''.c'')"

definition is_function_state :: "node_state \<Rightarrow> bool" where
  "is_function_state st = (case st of NodeStateFunction _ \<Rightarrow> True | _ \<Rightarrow> False)"

definition not_functions :: "emit_state \<Rightarrow> node list" where
  "not_functions e = map fst (filter (\<lambda>(n, st). \<not> is_function_state st) (node_states e))"

definition emit_symbol ::
  "'w object_api \<Rightarrow> (operand \<Rightarrow> c_item) \<Rightarrow> node \<Rightarrow> 'w \<times> c_file \<Rightarrow> ('w \<times> c_file) result" where
  "emit_symbol api item n s =
     (let (w, out) = s
      in try_r (renderSymbol api (symbol_of n) w) (\<lambda>(x, w). Ok (w, out @ [item x])))"

text \<open>The template \<open>define_globals.txt\<close>.\<close>

definition define_globals :: "'w object_api \<Rightarrow> emit_state \<Rightarrow> 'w \<Rightarrow> ('w \<times> c_file) result" where
  "define_globals api e w =
     try_r (for_each (emit_symbol api GlobalVar) (not_functions e) (w, [Text ''#include prelude.h'']))
       (\<lambda>(w, out).
     for_each (emit_symbol api GlobalMalloc) (not_functions e)
       (w, out @ [Text ''void bracelet_init_globals(void)'']))"

text \<open>The callback of \<open>writeFunctions\<close>; \<open>node_states.at\<close> throws when there is no entry.\<close>

definition function_nargs :: "emit_state \<Rightarrow> node \<Rightarrow> nat result" where
  "function_nargs e n =
     (case map_of (node_states e) n of Some (NodeStateFunction k) \<Rightarrow> Ok (unat k) | _ \<Rightarrow> Abort)"

definition write_function ::
  "'w object_api \<Rightarrow> emit_env \<Rightarrow> string \<Rightarrow> function_info \<Rightarrow> 'w \<times> emit_state \<times> files \<Rightarrow>
   ('w \<times> emit_state \<times> files) result" where
  "write_function api env dst fi s =
     (let (w, e, fs) = s
      in try_r (node_symbol_of (fi_function fi)) (\<lambda>a.
         let out_c = function_path dst a
         in try_r (function_nargs e (fi_function fi)) (\<lambda>n.
            let e = e\<lparr>declared_functions := filter (\<lambda>f. f \<noteq> fi_function fi) (declared_functions e)\<rparr>
            in open_file env out_c
              (try_r (emit_function (page_fuel env) api e n fi w) (\<lambda>(w, out).
               try_r (write_file env out_c ''Failed to write c file'' out fs) (\<lambda>fs. Ok (w, e, fs)))))))"

definition missing_line :: "'w object_api \<Rightarrow> node \<Rightarrow> 'w \<times> c_file \<Rightarrow> ('w \<times> c_file) result" where
  "missing_line api n s =
     (let (w, out) = s
      in try_r (node_symbol_of n) (\<lambda>a.
         case symbolName api a w of
           Ok (nm, w) \<Rightarrow> Ok (w, out @ [MissingLine a nm])
         | Err e \<Rightarrow> Ok (w, out @ [MissingLine a ''<unknown>''])
         | Abort \<Rightarrow> Abort))"

text \<open>
  A function without a graph, under conservative defaults: everything its arguments reach is mixed.
  The templates name at most 64 arguments. The prelude is written into the file again; that the
  table of overrides is filled again leaves it as it is (\<open>populate_again\<close>).
\<close>

definition write_conservative ::
  "'w object_api \<Rightarrow> emit_env \<Rightarrow> string \<Rightarrow> emit_state \<Rightarrow> node \<Rightarrow> 'w \<times> files \<Rightarrow> ('w \<times> files) result" where
  "write_conservative api env dst e n s =
     (let (w, fs) = s
      in try_r (node_symbol_of n) (\<lambda>a.
         let out_c = function_path dst a
         in try_r (function_nargs e n) (\<lambda>k.
            open_file env out_c
              (try_r (populate_prelude (override_nargs e)) (\<lambda>(_, prelude).
               assert_r (k \<le> length arg_names)
                (try_r (writePrototype api FunctionHead a k (w, [Text prelude])) (\<lambda>(w, out).
                   Ok (w, AList.update out_c
                     (out @ [Text ''T tmp = malloc(__nondeterministic_choice());''] @
                      map ConservativeArg (take k arg_names) @ [Text ''return tmp;'']) fs))))))))"

text \<open>
  \<open>writeFunctions\<close>. When the reading fails, the code still writes the files that follow before it
  returns the error; the files of a failed run are not modelled.
\<close>

definition writeFunctions ::
  "codec \<Rightarrow> 'w object_api \<Rightarrow> emit_env \<Rightarrow> string \<Rightarrow> bool \<Rightarrow> 'w \<times> emit_state \<times> files \<Rightarrow>
   ('w \<times> emit_state \<times> files) result" where
  "writeFunctions c api env dst conservative_mode s =
     (let (w, e, fs) = s
      in open_file env (path_in dst ''globals.c'')
        (try_r (define_globals api e w) (\<lambda>(w, out).
         try_r (write_file env (path_in dst ''globals.c'') ''Failed to write c file'' out fs) (\<lambda>fs.
         try_r (readEdges c (lift_api api) (write_function api env dst) (w, e, fs)) (\<lambda>(w, e, fs).
         open_file env (path_in dst ''missing.txt'')
           (try_r (for_each (missing_line api) (declared_functions e) (w, [])) (\<lambda>(w, out).
            try_r (write_file env (path_in dst ''missing.txt'') ''Failed to write missing report'' out fs) (\<lambda>fs.
              if conservative_mode
              then try_r (for_each (write_conservative api env dst e) (declared_functions e) (w, fs))
                     (\<lambda>(w, fs). Ok (w, e, fs))
              else Ok (w, e, fs)))))))))"

section \<open>The whole model\<close>

definition EmitC_init :: emit_state where
  "EmitC_init = \<lparr>node_states = [], declared_functions = [], node_checked_for_override = [],
     override_nargs = [], override_nodes = [], override_nodes_by_name = []\<rparr>"

text \<open>The functions that still need a body: not those that an override stands in for.\<close>

definition declare_functions :: "emit_state \<Rightarrow> emit_state" where
  "declare_functions e =
     e\<lparr>declared_functions :=
         filter (\<lambda>n. n \<notin> fst ` set (override_nodes e))
           (map fst (filter (\<lambda>(n, st). is_function_state st) (node_states e)))\<rparr>"

definition prelude_decl ::
  "'w object_api \<Rightarrow> node \<times> node_state \<Rightarrow> 'w \<times> c_file \<Rightarrow> ('w \<times> c_file) result" where
  "prelude_decl api nst s =
     (let (n, st) = nst; (w, out) = s
      in try_r (if st = NodeStateUndefined then try_r (symbolName api (symbol_of n) w) (\<lambda>(_, w). Ok w)
                else Ok w) (\<lambda>w.
         case st of
           NodeStateFunction k \<Rightarrow> writePrototype api Prototype (symbol_of n) (unat k) (w, out)
         | _ \<Rightarrow> emit_symbol api Extern n (w, out)))"

definition define_line :: "operand \<Rightarrow> string \<Rightarrow> c_item" where
  "define_line x nm = Text (''#define '' @ print_operand x @ '' OVERRIDE('' @ nm @ '')'')"

definition override_define ::
  "'w object_api \<Rightarrow> node \<times> string \<Rightarrow> 'w \<times> c_file \<times> emit_state \<Rightarrow> ('w \<times> c_file \<times> emit_state) result" where
  "override_define api nnm s =
     (let (n, nm) = nnm; (w, out, e) = s;
          e = e\<lparr>override_nodes_by_name := AList.update nm n (override_nodes_by_name e)\<rparr>
      in try_r (renderSymbol api (symbol_of n) w) (\<lambda>(x, w).
           Ok (w, out @ [define_line x nm], e)))"

definition global_init :: "'w object_api \<Rightarrow> node \<Rightarrow> 'w \<times> c_file \<Rightarrow> ('w \<times> c_file) result" where
  "global_init api n s =
     (let (w, out) = s
      in try_r (renderSymbol api (symbol_of n) w) (\<lambda>(_, w).
         try_r (renderSymbol api (symbol_of n) w) (\<lambda>(_, w).
         try_r (renderSymbol api (symbol_of n) w) (\<lambda>(x, w).
           Ok (w, out @ [GlobalVar x, GlobalMalloc x])))))"

definition emitC ::
  "codec \<Rightarrow> 'w object_api \<Rightarrow> emit_env \<Rightarrow> string \<Rightarrow> bool \<Rightarrow> 'w \<times> emit_state \<times> files \<Rightarrow>
   ('w \<times> emit_state \<times> files) result" where
  "emitC c api env dst conservative_mode s =
     (let (w, e, fs) = s; prelude_h = path_in dst ''prelude.h''; globals = path_in dst ''globals.c'';
          makefile = path_in dst ''Makefile''
      in open_file env prelude_h
        (try_r (populate_prelude (override_nargs e)) (\<lambda>(ov, prelude).
         let e = e\<lparr>override_nargs := ov\<rparr> in
         try_ctx ''initial edge pass'' (initial_pass c api (w, e)) (\<lambda>(w, e).
         let e = declare_functions e in
         try_r (for_each (prelude_decl api) (node_states e) (w, [Text prelude])) (\<lambda>(w, out).
         try_r (for_each (override_define api) (override_nodes e) (w, out, e)) (\<lambda>(w, out, e).
         try_r (write_file env prelude_h ''Cannot write prelude.h'' out fs) (\<lambda>fs.
         open_file env makefile
           (try_r (write_file env makefile ''Cannot write Makefile'' [Text makefile_text] fs) (\<lambda>fs.
            open_file env globals
              (try_r (for_each (global_init api) (not_functions e) (w, [Text ''#include prelude.h'']))
                (\<lambda>(w, out).
               try_r (write_file env globals ''Cannot write globals'' out fs) (\<lambda>fs.
                 writeFunctions c api env dst conservative_mode (w, e, fs)))))))))))))"

end
