(* ===== verification/Processes.thy ===== *)
theory Processes
  imports Result_Type
begin

text \<open>
  \<open>src/Subprocess\<close> and \<open>src/tempfile\<close>: running a program and waiting for it, and the temporary
  directory that is removed when its owner goes away. The buffers for the child's last words on
  standard error are left out.
\<close>

section \<open>Child processes\<close>

text \<open>
  What the kernel answers: why \<open>fork\<close>, \<open>chdir\<close> or \<open>execvp\<close> fail, what a started program does to the
  state \<open>'f\<close> (the files) and the status it ends with, and how often \<open>waitpid\<close> is interrupted before
  it answers.
\<close>

record 'f process_env =
  fork_error :: "string option"
  chdir_error :: "string \<Rightarrow> string option"
  exec_error :: "string list \<Rightarrow> string option"
  program :: "string list \<Rightarrow> string option \<Rightarrow> 'f \<Rightarrow> int \<times> 'f"
  interruptions :: nat
  wait_error :: "string option"

text \<open>The wait status of a process that ends with \<open>_exit(code)\<close>.\<close>

definition exit_status :: "nat \<Rightarrow> int" where
  "exit_status code = int (code mod 256) * 256"

text \<open>The child: it never returns from \<open>call\<close>.\<close>

definition run_child ::
  "'f process_env \<Rightarrow> string list \<Rightarrow> string option \<Rightarrow> 'f \<Rightarrow> int \<times> 'f" where
  "run_child env argv cwd f =
     (case Option.bind cwd (chdir_error env) of
        Some e \<Rightarrow> (exit_status 1, f)
      | None \<Rightarrow> (case exec_error env argv of Some e \<Rightarrow> (exit_status 1, f) | None \<Rightarrow> program env argv cwd f))"

text \<open>The parent's loop: an interrupted \<open>waitpid\<close> is repeated.\<close>

fun wait_loop :: "nat \<Rightarrow> string option \<Rightarrow> int \<Rightarrow> int result" where
  "wait_loop (Suc n) failure status = wait_loop n failure status"
| "wait_loop 0 failure status =
     (case failure of
        Some e \<Rightarrow> Err (new_error (''waitpid() failed: '' @ e))
      | None \<Rightarrow> Ok status)"

definition subprocess_call ::
  "'f process_env \<Rightarrow> string \<Rightarrow> string list \<Rightarrow> string option \<Rightarrow> 'f \<Rightarrow> (int \<times> 'f) result" where
  "subprocess_call env cmd args cwd f =
     (case fork_error env of
        Some e \<Rightarrow> Err (new_error (''Failed to fork: '' @ e))
      | None \<Rightarrow>
          (let (status, f) = run_child env (cmd # args) cwd f
           in try_r (wait_loop (interruptions env) (wait_error env) status) (\<lambda>rc. Ok (rc, f))))"

section \<open>Temporary directories\<close>

text \<open>
  A \<open>TemporaryDirectory\<close> owns its path; \<open>mkdtemp\<close> fills in the template, and the destructor removes
  all files below the path. A file is named by its path.
\<close>

record temp_env =
  temp_directory_path :: "string result"
  mkdtemp :: "string \<Rightarrow> string + string"     \<comment> \<open>\<open>errno\<close> as text, or the path made\<close>

datatype temporary_directory = TemporaryDirectory (m_path: "string option")

definition TemporaryDirectory_create :: "temp_env \<Rightarrow> string option \<Rightarrow> temporary_directory result" where
  "TemporaryDirectory_create env tmpdir =
     try_r (case tmpdir of
              Some d \<Rightarrow> Ok d
            | None \<Rightarrow> try_ctx ''can't find temporary directory storage'' (temp_directory_path env) Ok)
       (\<lambda>tmp. let template = tmp @ ''/tmpdir-XXXXXX''
         in case mkdtemp env template of
              Inl e \<Rightarrow> Err (new_error (''Cannot make temporary directory '' @ template @ '': '' @ e))
            | Inr p \<Rightarrow> Ok (TemporaryDirectory (Some p)))"

definition td_path :: "temporary_directory \<Rightarrow> string result" where
  "td_path td = (case m_path td of Some p \<Rightarrow> Ok p | None \<Rightarrow> Abort)"

definition below :: "string \<Rightarrow> string \<Rightarrow> bool" where
  "below dir path \<longleftrightarrow> path = dir \<or> take (length dir + 1) path = dir @ ''/''"

definition TemporaryDirectory_destroy ::
  "temporary_directory \<Rightarrow> (string \<times> 'c) list \<Rightarrow> temporary_directory \<times> (string \<times> 'c) list" where
  "TemporaryDirectory_destroy td fs =
     (case m_path td of
        None \<Rightarrow> (td, fs)
      | Some p \<Rightarrow> (TemporaryDirectory None, filter (\<lambda>(path, _). \<not> below p path) fs))"

section \<open>Properties\<close>

lemma wait_loop_eq: "wait_loop n failure status =
    (case failure of Some e \<Rightarrow> Err (new_error (''waitpid() failed: '' @ e)) | None \<Rightarrow> Ok status)"
  by (induction n) simp_all

text \<open>
  A call answers 0 only when the program was really started, in the directory asked for,
  and ended with status 0: a failed \<open>chdir\<close> or \<open>execvp\<close> in the child never looks like success to the
  parent, however often its wait was interrupted.
\<close>

theorem subprocess_call_zero:
  "subprocess_call env cmd args cwd f = Ok (0, f') \<longleftrightarrow>
     fork_error env = None \<and> Option.bind cwd (chdir_error env) = None \<and> exec_error env (cmd # args) = None \<and>
     wait_error env = None \<and> program env (cmd # args) cwd f = (0, f')"
  by (auto simp: subprocess_call_def run_child_def exit_status_def wait_loop_eq ok_iff
      split: option.splits prod.splits)

text \<open>
  A temporary directory leaves nothing behind: after its destructor ran, the files below the
  path it was created with are gone, all others are as they were, and running it again does nothing.
\<close>

theorem temporary_directory_cleaned:
  assumes "TemporaryDirectory_create env tmpdir = Ok td"
  shows "\<exists>p. td_path td = Ok p \<and> (case TemporaryDirectory_destroy td fs of (td', fs') \<Rightarrow>
    fs' = filter (\<lambda>(path, _). \<not> below p path) fs \<and> TemporaryDirectory_destroy td' fs' = (td', fs'))"
proof -
  from assms obtain t e where "(case mkdtemp env t of Inl x \<Rightarrow> Err (new_error (e x))
      | Inr p \<Rightarrow> Ok (TemporaryDirectory (Some p))) = Ok td"
    by (auto simp: TemporaryDirectory_create_def try_r_ok Let_def)
  then obtain p where "td = TemporaryDirectory (Some p)" by (cases "mkdtemp env t") auto
  then show ?thesis by (simp add: TemporaryDirectory_destroy_def td_path_def)
qed

definition ex_temp_env :: temp_env where
  "ex_temp_env = \<lparr>temp_directory_path = Ok ''/tmp'', mkdtemp = (\<lambda>t. Inr (take 12 t @ ''abcdef''))\<rparr>"

theorem temporary_directory_cleaned_witness:
  "TemporaryDirectory_create ex_temp_env None = Ok (TemporaryDirectory (Some ''/tmp/tmpdir-abcdef'')) \<and>
   snd (TemporaryDirectory_destroy (TemporaryDirectory (Some ''/tmp/tmpdir-abcdef''))
     [(''/tmp/tmpdir-abcdef/x.c'', 1 :: nat), (''/tmp/x.c'', 2)]) = [(''/tmp/x.c'', 2)]"
proof -
  have c: "TemporaryDirectory_create ex_temp_env None = Ok (TemporaryDirectory (Some ''/tmp/tmpdir-abcdef''))"
    by (simp add: TemporaryDirectory_create_def ex_temp_env_def)
  from temporary_directory_cleaned [OF c, of "[(''/tmp/tmpdir-abcdef/x.c'', 1 :: nat), (''/tmp/x.c'', 2)]"] c
  show ?thesis by (simp add: td_path_def below_def split: prod.splits)
qed

end
