(* ===== verification/Points_To.thy ===== *)
theory Points_To
  imports Emit_C Processes Coredump Static_Object
begin

text \<open>
  The rest of \<open>src/PointsTo\<close>: \<open>Svf\<close>, which builds the emitted C model and solves it in a child
  process (in a container, if SVF is not installed), the parser of its answer, the check of that answer
  against recorded traces (\<open>computePointsTo\<close>, \<open>checkPointsToAgainstTrace\<close>), and the command
  (\<open>main.cpp\<close>). The files are a state that the programs change; what LLDB knows about a traced value
  and the loader of a trace site, which is generated, are parameters.
\<close>

section \<open>Running SVF\<close>

record SVFInstall =
  SVF_DIR :: string
  SVF_CLANG :: "string option"
  SVF_LLVM :: "string option"

record svf =
  docker :: "string option"
  SVF_PATH :: string
  SVF_CLANG_PATH :: string
  SVF_LLVM_PATH :: string

text \<open>What the analysis asks of the machine it runs on.\<close>

record host =
  host_emit :: emit_env
  host_process :: "files process_env"
  host_temp :: temp_env
  is_directory :: "string \<Rightarrow> bool"
  hardware_concurrency :: nat

definition SVF_IMAGE :: string where
  "SVF_IMAGE = ''gitlab.ebossproject.com:5005/galois/svf/svf:galois-3.1''"

definition Svf_new :: "SVFInstall \<Rightarrow> svf" where
  "Svf_new inst =
     \<lparr>docker = None, SVF_PATH = SVF_DIR inst,
      SVF_CLANG_PATH =
        (case SVF_CLANG inst of Some p \<Rightarrow> p | None \<Rightarrow> path_in (SVF_DIR inst) ''llvm-16.0.0.obj''),
      SVF_LLVM_PATH =
        (case SVF_LLVM inst of Some p \<Rightarrow> p | None \<Rightarrow> path_in (SVF_DIR inst) ''llvm-16.0.0.obj'')\<rparr>"

text \<open>The first container runtime that answers to \<open>--version\<close>.\<close>

fun find_container :: "files process_env \<Rightarrow> string list \<Rightarrow> files \<Rightarrow> string option \<times> files" where
  "find_container env [] fs = (None, fs)"
| "find_container env (alt # alts) fs =
     (case subprocess_call env alt [''--version''] None fs of
        Ok (rc, fs') \<Rightarrow> if rc = 0 then (Some alt, fs') else find_container env alts fs'
      | _ \<Rightarrow> find_container env alts fs)"

definition Svf_init :: "host \<Rightarrow> svf \<Rightarrow> files \<Rightarrow> (svf \<times> files) result" where
  "Svf_init host svf fs =
     (if is_directory host (SVF_PATH svf) then Ok (svf, fs)
      else case find_container (host_process host) [''podman'', ''docker''] fs of
        (None, _) \<Rightarrow> Err (new_error ''SVF isn't installed, so you need docker or podman'')
      | (Some d, fs) \<Rightarrow>
          try_r (subprocess_call (host_process host) d [''run'', ''--rm'', SVF_IMAGE, ''true''] None fs)
            (\<lambda>(rc, fs). ensure (rc = 0) ''Pulling SVF docker image failed'' (Ok (svf\<lparr>docker := Some d\<rparr>, fs))))"

definition Svf_create :: "host \<Rightarrow> SVFInstall \<Rightarrow> files \<Rightarrow> (svf \<times> files) result" where
  "Svf_create host inst fs = Svf_init host (Svf_new inst) fs"

definition is_absolute :: "string \<Rightarrow> bool" where
  "is_absolute p \<longleftrightarrow> take 1 p = ''/''"

definition svf_call :: "host \<Rightarrow> svf \<Rightarrow> string \<Rightarrow> string \<Rightarrow> string list \<Rightarrow> files \<Rightarrow> (int \<times> files) result" where
  "svf_call host svf work_dir cmd args fs =
     (case docker svf of
        None \<Rightarrow> subprocess_call (host_process host) cmd args (Some work_dir) fs
      | Some d \<Rightarrow>
          assert_r (is_absolute work_dir)
            (subprocess_call (host_process host) d
               ([''run'', ''--rm'', ''--workdir'', work_dir, ''-v'', work_dir @ '':'' @ work_dir, SVF_IMAGE, cmd] @ args)
               None fs))"

definition svf_make :: "host \<Rightarrow> svf \<Rightarrow> string \<Rightarrow> files \<Rightarrow> files result" where
  "svf_make host svf work_dir fs =
     try_r (svf_call host svf work_dir ''env''
        [''SVF_CLANG='' @ path_in (SVF_CLANG_PATH svf) ''bin/clang'',
         ''SVF_CLANGXX='' @ path_in (SVF_CLANG_PATH svf) ''bin/clang++'',
         ''SVF_LLVM_LINK='' @ path_in (SVF_LLVM_PATH svf) ''bin/llvm-link'',
         ''make'', ''linked.bc'', ''-j'' @ show_dec (hardware_concurrency host)] fs)
       (\<lambda>(rc, fs). ensure (rc = 0) ''make failed'' (Ok fs))"

definition svf_command :: "svf \<Rightarrow> bool \<Rightarrow> string" where
  "svf_command svf save_pts =
     ''pushd '' @ SVF_PATH svf @ ''; source setup.sh >&2; popd; set -euxo pipefail; bracelet '' @
     ''-ander -ind-call-limit=4294967295 '' @
     ''-extapi='' @ path_in (path_in (SVF_PATH svf) ''lib'') ''extapi.bc'' @ '' '' @
     (if save_pts then ''-bracelet-pointsto=pts.csv'' else '''') @ '' -bracelet-callgraph=cg.csv linked.bc''"

definition svf_points_to :: "host \<Rightarrow> svf \<Rightarrow> string \<Rightarrow> bool \<Rightarrow> files \<Rightarrow> files result" where
  "svf_points_to host svf work_dir save_pts fs =
     try_r (svf_call host svf work_dir ''bash'' [''-c'', svf_command svf save_pts] fs)
       (\<lambda>(rc, fs). ensure (rc = 0) ''svf failed'' (Ok fs))"

section \<open>The analysis\<close>

text \<open>
  What \<open>runPointsTo\<close> and \<open>computePointsTo\<close> share: emit the C model into the directory, build it, solve
  it. The progress messages are left out.
\<close>

definition solve ::
  "codec \<Rightarrow> 'w object_api \<Rightarrow> host \<Rightarrow> bool \<Rightarrow> bool \<Rightarrow> SVFInstall \<Rightarrow> string \<Rightarrow> 'w \<times> files \<Rightarrow> ('w \<times> files) result" where
  "solve c api host conservative_mode save_pts inst tmp s =
     (let (w, fs) = s
      in try_ctx ''emitting C code'' (emitC c api (host_emit host) tmp conservative_mode (w, EmitC_init, fs))
        (\<lambda>(w, e, fs).
         try_r (Svf_create host inst fs) (\<lambda>(svf, fs).
         try_ctx ''building c code'' (svf_make host svf tmp fs) (\<lambda>fs.
         try_ctx ''running points to'' (svf_points_to host svf tmp save_pts fs) (\<lambda>fs. Ok (w, fs))))))"

text \<open>The directory given by the user, or a temporary one that is removed at the end.\<close>

definition in_directory ::
  "host \<Rightarrow> string option \<Rightarrow> (string \<Rightarrow> 'w \<times> files \<Rightarrow> ('a \<times> 'w \<times> files) result) \<Rightarrow> 'w \<times> files \<Rightarrow> ('a \<times> 'w \<times> files) result"
  where
  "in_directory host tmp_input body s =
     (case tmp_input of
        Some tmp \<Rightarrow> body tmp s
      | None \<Rightarrow>
          try_r (TemporaryDirectory_create (host_temp host) None) (\<lambda>tmp_dir.
          try_r (td_path tmp_dir) (\<lambda>tmp.
          try_r (body tmp s) (\<lambda>(r, w, fs). Ok (r, w, snd (TemporaryDirectory_destroy tmp_dir fs))))))"

definition runPointsTo ::
  "codec \<Rightarrow> 'w object_api \<Rightarrow> host \<Rightarrow> bool \<Rightarrow> bool \<Rightarrow> SVFInstall \<Rightarrow> string option \<Rightarrow> 'w \<times> files \<Rightarrow>
   (unit \<times> 'w \<times> files) result" where
  "runPointsTo c api host conservative_mode save_pts inst tmp_input =
     in_directory host tmp_input (\<lambda>tmp s.
       try_r (solve c api host conservative_mode save_pts inst tmp s) (\<lambda>s. Ok ((), s)))"

section \<open>Reading the solution\<close>

fun split_tab :: "string \<Rightarrow> string list" where
  "split_tab [] = [[]]"
| "split_tab (c # cs) =
     (if c = tab then [] # split_tab cs
      else case split_tab cs of [] \<Rightarrow> [[c]] | f # fs \<Rightarrow> (c # f) # fs)"

text \<open>The regular expression \<open>(0x[0-9a-fA-F]+)\t([0-9]+|-)\t(0x[0-9a-fA-F]+)\t([0-9]+|-)\<close>.\<close>

definition is_hex_field :: "string \<Rightarrow> bool" where
  "is_hex_field s \<longleftrightarrow> take 2 s = ''0x'' \<and> drop 2 s \<noteq> [] \<and> list_all (\<lambda>c. digit_of c \<noteq> None) (drop 2 s)"

definition is_idx_field :: "string \<Rightarrow> bool" where
  "is_idx_field s \<longleftrightarrow>
     s = ''-'' \<or> s \<noteq> [] \<and> list_all (\<lambda>c. case digit_of c of Some d \<Rightarrow> d < 10 | None \<Rightarrow> False) s"

definition pts_entry :: "string \<Rightarrow> (string \<times> string \<times> string \<times> string) option" where
  "pts_entry line =
     (case split_tab line of
        [a, b, c, d] \<Rightarrow>
          if is_hex_field a \<and> is_idx_field b \<and> is_hex_field c \<and> is_idx_field d then Some (a, b, c, d) else None
      | _ \<Rightarrow> None)"

text \<open>\<open>std::stoull\<close> throws when the number does not fit, and nobody catches it.\<close>

definition stoull :: "nat \<Rightarrow> string \<Rightarrow> u64 result" where
  "stoull base s =
     (case value_of base s of
        Some n \<Rightarrow> if n < 2 ^ 64 then Ok (of_nat n) else Abort
      | None \<Rightarrow> Abort)"

definition pts_node :: "string \<Rightarrow> string \<Rightarrow> node result" where
  "pts_node addr idx =
     try_r (stoull 16 (drop 2 addr)) (\<lambda>a.
       if idx = ''-'' then node_symbol a else try_r (stoull 10 idx) (node_local a))"

type_synonym points_to_edges = "(node \<times> node) list"

definition parse_pts_line :: "string \<Rightarrow> points_to_edges \<Rightarrow> points_to_edges result" where
  "parse_pts_line line out =
     (case pts_entry line of
        None \<Rightarrow> Err (new_error (''failed to parse points-to results: '' @ line))
      | Some (a, b, c, d) \<Rightarrow>
          try_r (pts_node a b) (\<lambda>src. try_r (pts_node c d) (\<lambda>dst. Ok (List.insert (src, dst) out))))"

definition file_lines :: "c_file \<Rightarrow> string list" where
  "file_lines f = map (\<lambda>it. case it of Text l \<Rightarrow> l | _ \<Rightarrow> '''') f"

definition computePointsTo ::
  "codec \<Rightarrow> 'w object_api \<Rightarrow> host \<Rightarrow> bool \<Rightarrow> bool \<Rightarrow> SVFInstall \<Rightarrow> string option \<Rightarrow> 'w \<times> files \<Rightarrow>
   (points_to_edges \<times> 'w \<times> files) result" where
  "computePointsTo c api host conservative_mode save_pts inst tmp_input =
     in_directory host tmp_input (\<lambda>tmp s.
       try_r (solve c api host conservative_mode save_pts inst tmp s) (\<lambda>(w, fs).
         case map_of fs (path_in tmp ''pts.csv'') of
           None \<Rightarrow> Err (new_error ''Cannot open points-to results'')
         | Some pts_csv \<Rightarrow>
             try_r (for_each parse_pts_line (file_lines pts_csv) []) (\<lambda>out. Ok (out, w, fs))))"

section \<open>Checking the solution against traces\<close>

text \<open>
  What the core dump says about a traced value that is not a trace site: it lies in no module, in a
  module but in no symbol, or in the symbol with the given start (\<open>None\<close> if LLDB has none).
\<close>

datatype resolved = Unresolved | NoSymbol | InSymbol "u64 option"

record trace_file =
  tf_path :: string
  tf_open_error :: "string option"
  tf_edges :: "(u64 \<times> u64) list"
  tf_read_error :: "string option"

text \<open>
  The two functions generated from the runtime format: the size of a \<open>BraceletTraceSite\<close>, and its
  loader, which gives the function and the local.
\<close>

record 'w trace_world =
  site_size :: nat
  load_site :: "u64 \<Rightarrow> 'w \<Rightarrow> ((u64 \<times> u32) \<times> 'w) result"
  resolve_value :: "u64 \<Rightarrow> resolved"

fun load_sites ::
  "nat \<Rightarrow> 'w trace_world \<Rightarrow> u64 \<Rightarrow> u64 \<Rightarrow> (u64 \<times> node) list \<times> 'w \<Rightarrow> ((u64 \<times> node) list \<times> 'w) result" where
  "load_sites 0 tw limit addr s = Abort"
| "load_sites (Suc fuel) tw limit addr s =
     (if addr + of_nat (site_size tw) \<le> limit then
        let (sites, w) = s
        in try_ctx (''Loading BraceletTraceSite at '' @ show_hex16 addr) (load_site tw addr w) (\<lambda>((f, i), w).
           try_r (node_local f (ucast i)) (\<lambda>n.
             load_sites fuel tw limit (addr + of_nat (site_size tw)) (AList.update addr n sites, w)))
      else Ok s)"

text \<open>
  Enough steps for a section that does not reach the end of the address space, where the loop of the
  code wraps around.
\<close>

definition sites_of_section ::
  "'w trace_world \<Rightarrow> string \<Rightarrow> obj_section \<Rightarrow> (u64 \<times> node) list \<times> 'w \<Rightarrow> ((u64 \<times> node) list \<times> 'w) result" where
  "sites_of_section tw trace_site s st =
     (if sec_name s \<noteq> trace_site then Ok st
      else load_sites (Suc (unat (sec_size s))) tw (sec_start s + sec_size s) (sec_start s) st)"

definition debug_names_of ::
  "function_info \<Rightarrow> (node \<times> string) list \<Rightarrow> (node \<times> string) list result" where
  "debug_names_of fi names =
     (if \<not> has_locals (fi_debug_data fi) then Ok names
      else try_r (node_symbol_of (fi_function fi)) (\<lambda>a.
             for_each (\<lambda>i names.
               try_r (node_local a (of_nat i)) (\<lambda>n.
               try_r (local_name (fi_debug_data fi) i) (\<lambda>nm. Ok (AList.update n nm names))))
               [0..<unat (fi_num_locals fi)] names))"

definition debug_names :: "codec \<Rightarrow> 'w object_api \<Rightarrow> 'w \<Rightarrow> ((node \<times> string) list \<times> 'w) result" where
  "debug_names c api w =
     try_r (readEdges c (lift_api api) (\<lambda>fi (w, names). try_r (debug_names_of fi names) (\<lambda>names. Ok (w, names)))
              (w, []))
       (\<lambda>(w, names). Ok (names, w))"

text \<open>The printed form of a node: its symbol, and the debug name or number of a local.\<close>

definition print_node ::
  "'w object_api \<Rightarrow> (node \<times> string) list \<Rightarrow> node \<Rightarrow> 'w \<Rightarrow> (string \<times> 'w) result" where
  "print_node api names n w =
     try_r (node_symbol_of n) (\<lambda>a.
     try_r (symbolName api a w) (\<lambda>(nm, w).
     Ok (nm @ (case local_idx_of n of
                 None \<Rightarrow> ''''
               | Some i \<Rightarrow> '':'' @ (case map_of names n of
                   None \<Rightarrow> ''<'' @ show_dec (unat i) @ ''>'' | Some nm \<Rightarrow> nm)), w)))"

record 'w check_state =
  cs_world :: 'w
  missing_edges :: "(node \<times> node) list"
  trace_edge_count :: nat

definition note_edge :: "points_to_edges \<Rightarrow> node \<times> node \<Rightarrow> 'w check_state \<Rightarrow> 'w check_state" where
  "note_edge static_edges edge st =
     st\<lparr>trace_edge_count := trace_edge_count st + 1,
        missing_edges := (if edge \<in> set static_edges then missing_edges st
                          else List.insert edge (missing_edges st))\<rparr>"

text \<open>One recorded edge; the lowest bit of the site is bookkeeping of the hash table.\<close>

definition check_edge ::
  "codec \<Rightarrow> 'w object_api \<Rightarrow> 'w trace_world \<Rightarrow> (u64 \<times> node) list \<Rightarrow> points_to_edges \<Rightarrow> u64 \<times> u64 \<Rightarrow>
   'w check_state \<Rightarrow> 'w check_state result" where
  "check_edge c api tw trace_sites static_edges te st =
     (let trace_site_addr = push_bit 1 (drop_bit 1 (fst te)); v = snd te
      in if trace_site_addr = 0 then Ok st
         else case map_of trace_sites trace_site_addr of
           None \<Rightarrow> Err (new_error (''Cannot find trace site '' @ show_hex16 trace_site_addr))
         | Some site_node \<Rightarrow>
             (case map_of trace_sites v of
                Some value_node \<Rightarrow> Ok (note_edge static_edges (site_node, value_node) st)
              | None \<Rightarrow>
                  (case resolve_value tw v of
                     Unresolved \<Rightarrow> Ok st
                   | NoSymbol \<Rightarrow>
                       try_r (debug_names c api (cs_world st)) (\<lambda>(names, w).
                       try_r (print_node api names site_node w) (\<lambda>(_, w). Ok (st\<lparr>cs_world := w\<rparr>)))
                   | InSymbol start \<Rightarrow>
                       ensure (start \<noteq> None) (''Cannot get start address from address '' @ show_hex16 v)
                         (try_r (node_symbol (the start)) (\<lambda>value_node.
                            Ok (note_edge static_edges (site_node, value_node) st))))))"

definition check_file ::
  "codec \<Rightarrow> 'w object_api \<Rightarrow> 'w trace_world \<Rightarrow> (u64 \<times> node) list \<Rightarrow> points_to_edges \<Rightarrow> trace_file \<Rightarrow>
   'w check_state \<Rightarrow> 'w check_state result" where
  "check_file c api tw trace_sites static_edges f st =
     (case tf_open_error f of
        Some e \<Rightarrow> Err (new_error (''Cannot open '' @ tf_path f @ '': '' @ e))
      | None \<Rightarrow>
          try_r (for_each (check_edge c api tw trace_sites static_edges) (tf_edges f) st) (\<lambda>st.
            case tf_read_error f of
              Some e \<Rightarrow> Err (new_error (''Failed to read from '' @ tf_path f @ '': '' @ e))
            | None \<Rightarrow> Ok st))"

definition report_missing ::
  "codec \<Rightarrow> 'w object_api \<Rightarrow> (node \<times> node) list \<Rightarrow> 'w \<Rightarrow> 'w result" where
  "report_missing c api missing w =
     (if missing = [] then Ok w
      else try_r (debug_names c api w) (\<lambda>(names, w).
           for_each (\<lambda>(dst, src) w.
             try_r (print_node api names dst w) (\<lambda>(_, w).
             try_r (print_node api names src w) (\<lambda>(_, w). Ok w))) missing w))"

definition checkPointsToAgainstTrace ::
  "codec \<Rightarrow> 'w object_api \<Rightarrow> 'w trace_world \<Rightarrow> points_to_edges \<Rightarrow> trace_file list result \<Rightarrow> string \<Rightarrow> 'w \<Rightarrow> 'w result" where
  "checkPointsToAgainstTrace c api tw static_edges listing traces_dir w =
     (let section_names = SectionNames (isApple api w)
      in try_ctx ''Parsing tracesites''
        (try_r (object_sections api w) (\<lambda>ss.
           for_each (sites_of_section tw (trace_site_section section_names)) ss ([], w))) (\<lambda>(trace_sites, w).
         try_ctx (''Reading directory '' @ traces_dir) listing (\<lambda>fs.
         try_r (for_each (check_file c api tw trace_sites static_edges) fs
                  \<lparr>cs_world = w, missing_edges = [], trace_edge_count = 0\<rparr>) (\<lambda>st.
         try_r (report_missing c api (missing_edges st) (cs_world st)) (\<lambda>w.
         ensure (missing_edges st = [])
           (''Missing '' @ show_dec (length (missing_edges st)) @ ''/'' @ show_dec (trace_edge_count st) @ '' edges'')
           (Ok w))))))"

section \<open>The command\<close>

text \<open>The options of \<open>main.cpp\<close>; a string option that was not given is empty.\<close>

record options =
  opt_executable :: string
  opt_sysroot :: string
  opt_core :: string
  opt_trace_dir :: string
  opt_tmp :: string
  opt_svf :: SVFInstall
  opt_conservative :: bool
  opt_save_pts :: bool

definition analyse ::
  "codec \<Rightarrow> 'w object_api \<Rightarrow> host \<Rightarrow> options \<Rightarrow> (points_to_edges \<Rightarrow> 'w \<Rightarrow> 'w result) \<Rightarrow> 'w \<times> files \<Rightarrow>
   (int \<times> files) result" where
  "analyse c api host opts check s =
     (let tmp = (if opt_tmp opts = '''' then None else Some (opt_tmp opts))
      in if opt_trace_dir opts \<noteq> '''' then
           try_r (computePointsTo c api host (opt_conservative opts)
                    (if opt_tmp opts = '''' then opt_save_pts opts else True) (opt_svf opts) tmp s)
             (\<lambda>(points_to, w, fs). try_r (check points_to w) (\<lambda>_. Ok (0, fs)))
         else
           try_r (runPointsTo c api host (opt_conservative opts) (opt_save_pts opts) (opt_svf opts) tmp s)
             (\<lambda>(_, _, fs). Ok (0, fs)))"

definition mainResult ::
  "codec \<Rightarrow> host \<Rightarrow> (string \<Rightarrow> string \<Rightarrow> string \<Rightarrow> coredump result) \<Rightarrow> (string \<Rightarrow> static_object result) \<Rightarrow>
   coredump trace_world \<Rightarrow> trace_file list result \<Rightarrow> options \<Rightarrow> files \<Rightarrow> (int \<times> files) result" where
  "mainResult c host open_core open_object tw listing opts fs =
     (if opt_core opts \<noteq> '''' then
        if opt_sysroot opts = '''' then Ok (1, fs)
        else try_ctx (''Opening coredump '' @ opt_core opts @ '' for executable '' @ opt_executable opts @
                      '' with sysroot '' @ opt_sysroot opts)
               (open_core (opt_executable opts) (opt_sysroot opts) (opt_core opts)) (\<lambda>core.
             analyse c core_api host opts
               (\<lambda>es. checkPointsToAgainstTrace c core_api tw es listing (opt_trace_dir opts)) (core, fs))
      else
        try_ctx (''Opening object '' @ opt_executable opts) (open_object (opt_executable opts)) (\<lambda>obj.
          if opt_trace_dir opts \<noteq> '''' then Ok (1, fs)
          else analyse c static_api host opts (\<lambda>_ w. Ok w) (obj, fs)))"

text \<open>The exit code: an error is printed; \<open>None\<close> when the process aborts.\<close>

definition exit_code :: "(int \<times> files) result \<Rightarrow> int option" where
  "exit_code r = (case r of Ok (n, _) \<Rightarrow> Some n | Err _ \<Rightarrow> Some 1 | Abort \<Rightarrow> None)"

end
