(* ===== verification/Dlsym_Walk.thy ===== *)
theory Dlsym_Walk
  imports Emit_C
begin

text \<open>
  The walk over the pages that \<open>dlsym\<close> filled, as the clients that print what it finds see it: the
  pointers that the object's memory holds, page after page.
\<close>

text \<open>
  The pointers of a list of pages: of every page as many as its count says, but at most those it has
  room for, null pointers included. Other reads may come between those of the walk, so each happens
  in a state of its own.
\<close>

inductive pages_read :: "'w object_api \<Rightarrow> u64 \<Rightarrow> u64 list \<Rightarrow> bool" for api where
  pages_end: "pages_read api 0 []"
| pages_more: "page \<noteq> 0 \<Longrightarrow> copyData api 8 (page + 8) w1 = Ok (cnt, w2) \<Longrightarrow>
    resolvePointers api page_pointers (page + 16) w3 = Ok (pointers, w4) \<Longrightarrow>
    resolvePointers api 1 page w5 = Ok (next_page, w6) \<Longrightarrow> pages_read api (hd next_page) ps \<Longrightarrow>
    pages_read api page (take (min (unat (read64 cnt)) page_pointers) pointers @ ps)"

inductive_cases pages_read_zero: "pages_read api 0 ps"
inductive_cases pages_read_page: "pages_read api page ps"

text \<open>The pointers found from the page pointer that an edge names.\<close>

definition pointers_read :: "'w object_api \<Rightarrow> edge \<Rightarrow> u64 list \<Rightarrow> bool" where
  "pointers_read api ed ps \<longleftrightarrow>
     (\<exists>w w' page. resolvePointers api 1 (symbol_of (from_node ed)) w = Ok (page, w') \<and>
        pages_read api (hd page) ps)"

definition pointer_node :: "u64 \<Rightarrow> node" where
  "pointer_node p = Node (push_bit 16 (p + 1))"

lemma node_symbol_pointer: "node_symbol p = Ok n \<Longrightarrow> n = pointer_node p"
  by (auto simp: node_symbol_def Let_def ok_iff pointer_node_def)

text \<open>They are determined when an address always reads the same.\<close>

definition stable_reads :: "'w object_api \<Rightarrow> bool" where
  "stable_reads api \<longleftrightarrow>
     (\<forall>n a v v' w w' x y. copyData api n a v = Ok (x, v') \<and> copyData api n a w = Ok (y, w') \<longrightarrow> x = y) \<and>
     (\<forall>n a v v' w w' x y. resolvePointers api n a v = Ok (x, v') \<and> resolvePointers api n a w = Ok (y, w') \<longrightarrow>
        x = y)"

lemma pages_read_unique:
  assumes "pages_read api page xs" and "stable_reads api" and "pages_read api page ys"
  shows "ys = xs"
  using assms(1,3)
proof (induction arbitrary: ys)
  case pages_end
  then show ?case by (auto elim: pages_read_zero)
next
  case (pages_more page w1 cnt w2 w3 pointers w4 w5 next_page w6 ps)
  from pages_more.prems obtain v1 cnt' v2 v3 pointers' v4 v5 next' v6 ps' where
    r: "copyData api 8 (page + 8) v1 = Ok (cnt', v2)"
    "resolvePointers api page_pointers (page + 16) v3 = Ok (pointers', v4)"
    "resolvePointers api 1 page v5 = Ok (next', v6)" "pages_read api (hd next') ps'"
    "ys = take (min (unat (read64 cnt')) page_pointers) pointers' @ ps'"
    using pages_more.hyps(1) by (auto elim: pages_read_page)
  have "cnt' = cnt" "pointers' = pointers" "next' = next_page"
    using assms(2) pages_more.hyps(2-4) r(1-3) unfolding stable_reads_def by blast+
  with r(4,5) pages_more.IH show ?case by simp
qed

lemma pointers_read_unique:
  assumes "stable_reads api" and "pointers_read api ed xs" and "pointers_read api ed ys"
  shows "ys = xs"
proof -
  from assms(2,3) obtain w w' p v v' q where
    r: "resolvePointers api 1 (symbol_of (from_node ed)) w = Ok (p, w')"
    "resolvePointers api 1 (symbol_of (from_node ed)) v = Ok (q, v')"
    and ps: "pages_read api (hd p) xs" "pages_read api (hd q) ys" unfolding pointers_read_def by blast
  from assms(1) r have "q = p" unfolding stable_reads_def by blast
  with pages_read_unique [OF ps(1) assms(1)] ps(2) show ?thesis by simp
qed

end
