(* ===== verification/Override_Nodes.thy ===== *)
theory Override_Nodes
  imports Node_States
begin

text \<open>
  The invariant of the first pass on the symbols it redirects to overrides: each of them is a
  function with the number of arguments that its override has.
\<close>

definition overridden_ok :: "emit_state \<Rightarrow> bool" where
  "overridden_ok e \<longleftrightarrow>
     distinct (map fst (override_nodes e)) \<and>
     (\<forall>n nm. map_of (override_nodes e) n = Some nm \<longrightarrow>
        (\<exists>k. map_of (override_nargs e) nm = Some k \<and> state_of e n = NodeStateFunction k))"

text \<open>Learning more keeps it, as long as no symbol is redirected.\<close>

lemma overridden_mono:
  assumes "overridden_ok e" and l: "learns e e'" and "override_nodes e' = override_nodes e"
  shows "overridden_ok e'"
proof -
  have "state_of e' n = NodeStateFunction k" if "state_of e n = NodeStateFunction k" for n k
    using l that unfolding learns_def by (metis state_le_function)
  moreover have "override_nargs e' = override_nargs e" using l by (simp add: learns_def)
  ultimately show ?thesis using assms(1,3) by (auto simp: overridden_ok_def) metis
qed

lemma setNargs_frame:
  assumes "setNargs api n st (w, e) = Ok (w', e')"
  shows "override_nodes e' = override_nodes e"
  using assms
  by (auto simp: setNargs_def put_state_def node_local_idx_def ok_iff split: option.splits if_splits)

lemma setNargs_overridden:
  assumes "setNargs api n st (w, e) = Ok (w', e')" and "overridden_ok e"
  shows "overridden_ok e'"
  using overridden_mono [OF assms(2) _ setNargs_frame [OF assms(1)]] setNargs_ok [OF assms(1)] by blast

lemma state_of_frame: "state_of (e\<lparr>node_checked_for_override := cs\<rparr>) n = state_of e n"
  by (simp add: state_of_def)

lemma check_override_overridden:
  assumes "check_override api out symb (w, e) = Ok (w', e')" and inv: "overridden_ok e"
  shows "overridden_ok e'"
proof (cases "out \<in> set (node_checked_for_override e)")
  case False
  let ?e = "e\<lparr>node_checked_for_override := out # node_checked_for_override e\<rparr>"
  have 1: "overridden_ok ?e" using inv by (simp add: overridden_ok_def state_of_def)
  from assms(1) False obtain nm w1 k where
    "e' = ?e \<or> map_of (override_nargs e) nm = Some k \<and> setNargs api out (NodeStateFunction k)
      (w1, ?e\<lparr>override_nodes := AList.update out nm (override_nodes e)\<rparr>) = Ok (w', e')"
    by (fastforce simp: check_override_def Let_def ok_iff split: option.splits)
  then show ?thesis
  proof (elim disjE conjE)
    assume k: "map_of (override_nargs e) nm = Some k"
      and s: "setNargs api out (NodeStateFunction k)
        (w1, ?e\<lparr>override_nodes := AList.update out nm (override_nodes e)\<rparr>) = Ok (w', e')"
    note o = setNargs_ok [OF s] setNargs_frame [OF s]
    let ?f = "?e\<lparr>override_nodes := AList.update out nm (override_nodes e)\<rparr>"
    have l: "learns ?e e'" using o(1) learns_trans [OF learns_frame [of ?f ?e]] by simp
    have st: "state_of e' out = NodeStateFunction k" using o(1) by (simp add: state_le_function)
    have na: "override_nargs e' = override_nargs e" using l by (simp add: learns_def)
    have "state_of e' n = NodeStateFunction j" if "state_of e n = NodeStateFunction j" for n j
      using l that unfolding learns_def by (metis state_le_function state_of_frame)
    note keep = this
    have nodes: "override_nodes e' = AList.update out nm (override_nodes e)" using o(2) by simp
    have "\<exists>j. map_of (override_nargs e') m = Some j \<and> state_of e' n = NodeStateFunction j"
      if m: "map_of (override_nodes e') n = Some m" for n m
    proof (cases "n = out")
      case True
      with m k st na show ?thesis by (simp add: nodes update_conv')
    next
      case False
      with m have "map_of (override_nodes e) n = Some m" by (simp add: nodes update_conv')
      with inv keep na show ?thesis unfolding overridden_ok_def by metis
    qed
    moreover have "distinct (map fst (override_nodes e'))"
      using inv by (simp add: nodes overridden_ok_def distinct_update)
    ultimately show ?thesis by (simp add: overridden_ok_def)
  qed (use 1 in simp)
qed (use assms in \<open>simp add: check_override_def\<close>)

lemma visit_out_overridden:
  assumes "visit_out api this out (w, e) = Ok (w', e')" and "overridden_ok e"
  shows "overridden_ok e'"
proof (cases "symbol_of out = this")
  case True
  with assms show ?thesis by (auto simp: visit_out_def node_symbol_of_def ok_iff)
next
  case False
  with assms(1) obtain w1 e1 where 1: "setNargs api out NodeStateUndefined (w, e) = Ok (w1, e1)"
    "check_override api out (symbol_of out) (w1, e1) = Ok (w', e')"
    by (auto simp: visit_out_def node_symbol_of_def ok_iff)
  show ?thesis using check_override_overridden [OF 1(2) setNargs_overridden [OF 1(1) assms(2)]] .
qed

lemma visit_edge_overridden:
  assumes "visit_edge api fi ed ((w, e), n) = Ok ((w', e'), n')" and "overridden_ok e"
  shows "overridden_ok e'"
proof -
  from assms obtain w1 e1 w2 e2 where 1: "visit_kind api ed ((w, e), n) = Ok ((w1, e1), n')"
    "visit_out api (symbol_of (fi_function fi)) (to_node ed) (w1, e1) = Ok (w2, e2)"
    "visit_out api (symbol_of (fi_function fi)) (from_node ed) (w2, e2) = Ok (w', e')"
    by (auto simp: visit_edge_def node_symbol_of_def ok_iff)
  have "overridden_ok e1"
    using 1(1) assms(2)
    by (auto simp: visit_kind_def ok_iff dest: setNargs_overridden split: edge_kind.splits if_splits)
  from visit_out_overridden [OF 1(3) visit_out_overridden [OF 1(2) this]] show ?thesis .
qed

lemma visit_function_overridden:
  assumes "visit_function api fi (w, e) = Ok (w', e')" and "overridden_ok e"
  shows "overridden_ok e'"
proof -
  from assms obtain w1 e1 n where v: "visitAllEdges fi (visit_edge api fi) ((w, e), 0) = Ok ((w1, e1), n)"
    and s: "setNargs api (fi_function fi) (NodeStateFunction (ucast n)) (w1, e1) = Ok (w', e')"
    by (auto simp: visit_function_def ok_iff)
  from visitAllEdges_log [OF v] obtain es where
    "for_each (visit_edge api fi) es ((w, e), 0) = Ok ((w1, e1), n)" by blast
  then have "overridden_ok (snd (fst ((w1, e1), n)))"
  proof (rule for_each_inv)
    show "overridden_ok (snd (fst t))" if "overridden_ok (snd (fst s))" "visit_edge api fi ed s = Ok t" for ed s t
      using that visit_edge_overridden by (cases s; cases t) fastforce
  qed (use assms(2) in simp)
  then show ?thesis using setNargs_overridden [OF s] by simp
qed

lemma initial_run_overridden:
  assumes "read_run (lift_api api) (visit_function api) s fis s'" and "overridden_ok (snd s)"
  shows "overridden_ok (snd s')"
  using assms
proof (induction rule: read_run.induct)
  case (callback fis s1 fi s2)
  then show ?case
    using visit_function_overridden [of api fi "fst s1" "snd s1" "fst s2" "snd s2"] by simp
qed (auto simp: ok_iff)

lemma initial_pass_overridden:
  assumes "initial_pass c api (w, e) = Ok (w', e')" and "overridden_ok e"
  shows "overridden_ok e'"
  using readEdges_run [OF assms(1) [unfolded initial_pass_def]] initial_run_overridden [of api "(w, e)" _ "(w', e')"]
    assms(2) by auto

end
