(* ===== verification/Emit_C_Spec.thy ===== *)
theory Emit_C_Spec
  imports Dlsym_Walk Override_Nodes
begin

text \<open>
  What the emitted C model contains: the body of a function's file edge by edge, the header, the
  distinctness of identifiers, the walk over the \<open>dlsym\<close> pages, and that no declared function stays
  without a body.
\<close>

section \<open>What a file holds\<close>

text \<open>
  The items of a file without the names in comments, and the item each edge calls for.
\<close>

definition bare :: "node \<Rightarrow> operand" where
  "bare n = Operand (ident_of n) ''''"

definition strip_op :: "operand \<Rightarrow> operand" where
  "strip_op x = Operand (ident x) ''''"

fun strip :: "c_item \<Rightarrow> c_item" where
  "strip (Prototype f n) = Prototype (strip_op f) n"
| "strip (Extern x) = Extern (strip_op x)"
| "strip (GlobalVar x) = GlobalVar (strip_op x)"
| "strip (GlobalMalloc x) = GlobalMalloc (strip_op x)"
| "strip (LocalDecl c x) = LocalDecl c (strip_op x)"
| "strip (FunctionHead f n) = FunctionHead (strip_op f) n"
| "strip (AllocaMalloc x) = AllocaMalloc (strip_op x)"
| "strip (NdAssign x y) = NdAssign (strip_op x) (strip_op y)"
| "strip (NdLoad x y) = NdLoad (strip_op x) (strip_op y)"
| "strip (NdStore x y) = NdStore (strip_op x) (strip_op y)"
| "strip (NdCall x (Direct f) args) = NdCall (strip_op x) (Direct (strip_op f)) args"
| "strip (NdCall x (Indirect f n) args) = NdCall (strip_op x) (Indirect (strip_op f) n) args"
| "strip (NdReturn x) = NdReturn (strip_op x)"
| "strip (NdArgDef x n) = NdArgDef (strip_op x) n"
| "strip (NdArgSupply c n x) = NdArgSupply c n (strip_op x)"
| "strip item = item"

definition site :: "node \<Rightarrow> nat" where
  "site n = (case local_idx_of n of Some i \<Rightarrow> unat i | None \<Rightarrow> 0)"

fun edge_items :: "edge \<Rightarrow> c_item list" where
  "edge_items (Edge AssignK t f i) = [NdAssign (bare t) (bare f)]"
| "edge_items (Edge LoadK t f i) = [NdLoad (bare t) (bare f)]"
| "edge_items (Edge StoreK t f i) = [NdStore (bare t) (bare f)]"
| "edge_items (Edge CallK t f i) =
     [NdCall (bare t) (if local_idx_of f \<noteq> None then Indirect (bare f) (unat i) else Direct (bare f))
        (map (Pair (site t)) [0..<unat i])]"
| "edge_items (Edge ReturnK t f i) = [NdReturn (bare f)]"
| "edge_items (Edge ArgumentDefinitionK t f i) = [NdArgDef (bare t) (unat i)]"
| "edge_items (Edge ArgumentSupplyK t f i) = [NdArgSupply (site t) (unat i) (bare f)]"
| "edge_items (Edge DlsymPagePointerK t f i) = []"

definition call_arg_items :: "edge \<Rightarrow> c_item list" where
  "call_arg_items ed = map (CallArgDecl (site (to_node ed))) [0..<unat (edge_idx ed)]"

definition state_item :: "(node \<Rightarrow> string) \<Rightarrow> node \<times> node_state \<Rightarrow> c_item" where
  "state_item extern nst =
     (case snd nst of
        NodeStateFunction k \<Rightarrow> Prototype (Operand (symbol_ident (symbol_of (fst nst))) '''') (unat k)
      | _ \<Rightarrow> Extern (Operand (extern (fst nst)) ''''))"

definition own_local :: "function_info \<Rightarrow> nat \<Rightarrow> node" where
  "own_local fi i = Node (push_bit 16 (symbol_of (fi_function fi) + 1) OR (of_nat i + 1))"

text \<open>An emitter that, whenever it succeeds, appends items with a given skeleton.\<close>

definition emits :: "('w \<times> c_file \<Rightarrow> ('w \<times> c_file) result) \<Rightarrow> c_item list \<Rightarrow> bool" where
  "emits f items \<longleftrightarrow>
     (\<forall>w out w' out'. f (w, out) = Ok (w', out') \<longrightarrow> (\<exists>its. out' = out @ its \<and> map strip its = items))"

lemma emitsD: "emits f items \<Longrightarrow> f (w, out) = Ok (w', out') \<Longrightarrow> \<exists>its. out' = out @ its \<and> map strip its = items"
  unfolding emits_def by blast

lemma emits_step: "emits f items \<Longrightarrow> f s = Ok s' \<Longrightarrow> map strip (snd s') = map strip (snd s) @ items"
  using emitsD [of f items "fst s" "snd s" "fst s'" "snd s'"] by auto

lemma emits_for_each:
  assumes "\<And>x. x \<in> set xs \<Longrightarrow> emits (f x) (g x)"
  shows "emits (for_each f xs) (concat (map g xs))"
  unfolding emits_def
proof (intro allI impI)
  fix w out w' out'
  assume "for_each f xs (w, out) = Ok (w', out')"
  then show "\<exists>its. out' = out @ its \<and> map strip its = concat (map g xs)"
    using assms
  proof (induction xs arbitrary: w out)
    case (Cons x xs)
    from Cons.prems(1) obtain w1 out1 where 1: "f x (w, out) = Ok (w1, out1)"
      "for_each f xs (w1, out1) = Ok (w', out')" by (auto simp: ok_iff)
    have "emits (f x) (g x)" using Cons.prems(2) by simp
    from emitsD [OF this 1(1)] obtain its1 where "out1 = out @ its1" "map strip its1 = g x" by blast
    moreover from Cons.IH [OF 1(2)] Cons.prems(2) obtain its2
      where "out' = out1 @ its2" "map strip its2 = concat (map g xs)" by auto
    ultimately show ?case by (intro exI [of _ "its1 @ its2"]) simp
  qed simp
qed

lemma emits_edges:
  assumes "visitEdges fi k cb s = Ok s'" and "\<And>ed. kind ed = k \<Longrightarrow> emits (cb ed) (g ed)"
  shows "\<exists>es its. visitEdges fi k (\<lambda>e es. Ok (es @ [e])) [] = Ok es \<and> (\<forall>e\<in>set es. kind e = k) \<and>
    snd s' = snd s @ its \<and> map strip its = concat (map g es)"
proof -
  from visitEdges_log [OF assms(1)] obtain es where
    es: "\<forall>xs. visitEdges fi k (\<lambda>e es. Ok (es @ [e])) xs = Ok (xs @ es)" "for_each cb es s = Ok s'"
    "\<forall>e\<in>set es. kind e = k" by blast
  have "emits (for_each cb es) (concat (map g es))"
    using es(3) assms(2) by (intro emits_for_each) blast
  with es emitsD [OF this, of "fst s" "snd s" "fst s'" "snd s'"] show ?thesis by auto
qed

lemma renderSymbol_ok: "renderSymbol api a w = Ok (x, w') \<Longrightarrow> strip_op x = Operand (symbol_ident a) ''''"
  by (auto simp: renderSymbol_def strip_op_def split: result.splits)

lemma show_node_ok:
  assumes "show_node_in api fi n w = Ok (x, w')"
  shows "strip_op x = bare n \<and> is_node n \<and> (local_idx_of n \<noteq> None \<longrightarrow> symbol_of n = symbol_of (fi_function fi))"
proof (cases "local_idx_of n")
  case None
  with assms renderSymbol_ok [of api "symbol_of n"] show ?thesis
    by (auto simp: show_node_in_def node_local_idx_def ok_iff bare_def ident_of_def)
next
  case (Some i)
  with assms obtain y where "renderSymbol api (symbol_of n) w = Ok (y, w')" "is_node n"
    "x = Operand (''local_'' @ show_dec (unat i) @ ''_'' @ ident y) (comment y)"
    "symbol_of n = symbol_of (fi_function fi)"
    by (auto simp: show_node_in_def node_local_idx_def ok_iff)
  with Some renderSymbol_ok [OF this(1)] show ?thesis
    by (simp add: bare_def ident_of_def strip_op_def)
qed

lemma callsite_idx_ok: "callsite_idx fi n = Ok c \<Longrightarrow> c = site n"
  by (auto simp: callsite_idx_def ok_iff node_local_idx_def site_def split: option.splits)

lemma emits_emit1:
  assumes "\<And>x. strip (item x) = item' (strip_op x)"
  shows "emits (emit1 api fi item n) [item' (bare n)]"
  using assms by (auto simp: emits_def emit1_def ok_iff dest!: show_node_ok)

lemma emits_emit2:
  assumes "\<And>x y. strip (item x y) = item (strip_op x) (strip_op y)"
  shows "emits (emit2 api fi item n m) [item (bare n) (bare m)]"
  using assms by (auto simp: emits_def emit2_def ok_iff dest!: show_node_ok)

lemma emits_prototype:
  assumes "\<And>x. strip (item x k) = item (strip_op x) k"
  shows "emits (writePrototype api item a k) [item (Operand (symbol_ident a) '''') k]"
  using assms by (auto simp: emits_def writePrototype_def ok_iff dest!: renderSymbol_ok)

lemma emits_symbol:
  assumes "\<And>x. strip (item x) = item (strip_op x)"
  shows "emits (emit_symbol api item n) [item (Operand (symbol_ident (symbol_of n)) '''')]"
  using assms by (auto simp: emits_def emit_symbol_def ok_iff dest!: renderSymbol_ok)

lemma emits_edge:
  "kind ed = AssignK \<Longrightarrow> emits (emit2 api fi NdAssign (to_node ed) (from_node ed)) (edge_items ed)"
  "kind ed = LoadK \<Longrightarrow> emits (emit2 api fi NdLoad (to_node ed) (from_node ed)) (edge_items ed)"
  "kind ed = StoreK \<Longrightarrow> emits (emit2 api fi NdStore (to_node ed) (from_node ed)) (edge_items ed)"
  "kind ed = ReturnK \<Longrightarrow> emits (emit1 api fi NdReturn (from_node ed)) (edge_items ed)"
  "kind ed = ArgumentDefinitionK \<Longrightarrow>
     emits (emit1 api fi (\<lambda>x. NdArgDef x (unat (edge_idx ed))) (to_node ed)) (edge_items ed)"
proof -
  show "kind ed = AssignK \<Longrightarrow> emits (emit2 api fi NdAssign (to_node ed) (from_node ed)) (edge_items ed)"
    using emits_emit2 [where item = NdAssign] by (cases ed) simp
  show "kind ed = LoadK \<Longrightarrow> emits (emit2 api fi NdLoad (to_node ed) (from_node ed)) (edge_items ed)"
    using emits_emit2 [where item = NdLoad] by (cases ed) simp
  show "kind ed = StoreK \<Longrightarrow> emits (emit2 api fi NdStore (to_node ed) (from_node ed)) (edge_items ed)"
    using emits_emit2 [where item = NdStore] by (cases ed) simp
  show "kind ed = ReturnK \<Longrightarrow> emits (emit1 api fi NdReturn (from_node ed)) (edge_items ed)"
    using emits_emit1 [where item = NdReturn and item' = NdReturn] by (cases ed) simp
  show "kind ed = ArgumentDefinitionK \<Longrightarrow>
      emits (emit1 api fi (\<lambda>x. NdArgDef x (unat (edge_idx ed))) (to_node ed)) (edge_items ed)"
    using emits_emit1 [where item = "\<lambda>x. NdArgDef x (unat (edge_idx ed))"
        and item' = "\<lambda>x. NdArgDef x (unat (edge_idx ed))"]
    by (cases ed) simp
qed

lemma emits_call: "kind ed = CallK \<Longrightarrow> emits (emit_call api fi ed) (edge_items ed)"
  by (cases ed)
    (auto simp: emits_def emit_call_def Let_def ok_iff node_local_idx_def
      dest!: show_node_ok callsite_idx_ok split: if_splits)

lemma emits_arg_supply: "kind ed = ArgumentSupplyK \<Longrightarrow> emits (emit_arg_supply api fi ed) (edge_items ed)"
  by (cases ed)
    (auto simp: emits_def emit_arg_supply_def emit1_def ok_iff dest!: show_node_ok callsite_idx_ok)

lemma emits_call_args: "emits (emit_call_args fi ed) (call_arg_items ed)"
proof -
  have "emits (\<lambda>(w, out). try_r (callsite_idx fi (to_node ed)) (\<lambda>c. Ok (w, out @ [CallArgDecl c i])))
      [CallArgDecl (site (to_node ed)) i]" for i
    by (auto simp: emits_def ok_iff dest!: callsite_idx_ok)
  from emits_for_each [of "[0..<unat (edge_idx ed)]", OF this] show ?thesis
    by (simp add: emit_call_args_def call_arg_items_def)
qed

lemma emits_externs: "emits (emit_externs api fi e) (map (state_item ident_of) (node_states e))"
proof -
  have "emits (case nst of (n, st) \<Rightarrow> case st of
         NodeStateFunction k \<Rightarrow> writePrototype api Prototype (symbol_of n) (unat k)
       | _ \<Rightarrow> emit1 api fi Extern n) [state_item ident_of nst]" for nst :: "node \<times> node_state"
    using emits_emit1 [where item = Extern and item' = Extern and n = "fst nst"]
      emits_prototype [where item = Prototype]
    by (cases nst) (auto simp: state_item_def bare_def split: node_state.split)
  from emits_for_each [of "node_states e", OF this] show ?thesis
    by (simp add: emit_externs_def)
qed

lemma emits_local:
  assumes "\<And>i x. strip (item fi i x) = item' i (strip_op x)"
  shows "emits (emit_local api fi item i) [item' i (bare (own_local fi i))]"
  using emitsD [OF emits_emit1 [where item = "item fi i" and item' = "item' i"], OF assms]
  by (auto simp: emits_def emit_local_def ok_iff node_local_def Let_def own_local_def)

lemma emits_locals:
  assumes "\<And>i x. strip (item fi i x) = item' i (strip_op x)"
  shows "emits (for_each (emit_local api fi item) is) (map (\<lambda>i. item' i (bare (own_local fi i))) is)"
  using emits_for_each [of "is", OF emits_local [where item = item, OF assms]] by simp

text \<open>
  The pointers of the \<open>dlsym\<close> pages that are not null: each is assigned to the output node.
\<close>

definition dlsym_items :: "edge \<Rightarrow> u64 list \<Rightarrow> c_item list" where
  "dlsym_items ed ps =
     map (\<lambda>p. NdAssign (bare (to_node ed)) (bare (pointer_node p))) (filter (\<lambda>p. p \<noteq> 0) ps)"

lemma dlsym_pages_emits:
  assumes "\<And>p. emits (f p) (g p)"
  shows "dlsym_pages fuel api f page (w, out) = Ok (w', out') \<Longrightarrow>
    \<exists>ps its. pages_read api page ps \<and> out' = out @ its \<and>
      map strip its = concat (map g (filter (\<lambda>p. p \<noteq> 0) ps))"
proof (induction fuel arbitrary: page w out)
  case (Suc fuel)
  show ?case
  proof (cases "page = 0")
    case True
    with Suc.prems show ?thesis by (intro exI [of _ "[]"]) (simp add: pages_end)
  next
    case False
    with Suc.prems obtain cnt w1 pointers w2 w3 out3 nxt w4 where
      r: "copyData api 8 (page + 8) w = Ok (cnt, w1)"
      "resolvePointers api page_pointers (page + 16) w1 = Ok (pointers, w2)"
      "resolvePointers api 1 page w3 = Ok (nxt, w4)"
      and v: "for_each f (filter (\<lambda>p. p \<noteq> 0) (take (min (unat (read64 cnt)) page_pointers) pointers)) (w2, out) =
        Ok (w3, out3)"
      and rest: "dlsym_pages fuel api f (hd nxt) (w4, out3) = Ok (w', out')"
      by (auto simp: ok_iff)
    from emitsD [OF emits_for_each v, OF assms] obtain its1 where i1: "out3 = out @ its1"
      "map strip its1 = concat (map g (filter (\<lambda>p. p \<noteq> 0) (take (min (unat (read64 cnt)) page_pointers) pointers)))"
      by blast
    from Suc.IH [OF rest] obtain ps its2 where i2: "pages_read api (hd nxt) ps" "out' = out3 @ its2"
      "map strip its2 = concat (map g (filter (\<lambda>p. p \<noteq> 0) ps))" by blast
    from pages_more [OF False r i2(1)] i1 i2 show ?thesis
      by (intro exI [of _ "take (min (unat (read64 cnt)) page_pointers) pointers @ ps"] exI [of _ "its1 @ its2"]) simp
  qed
qed simp

lemma emit_dlsym_ok:
  assumes "emit_dlsym fuel api fi ed (w, out) = Ok (w', out')"
  shows "\<exists>ps its. pointers_read api ed ps \<and> out' = out @ its \<and> map strip its = dlsym_items ed ps"
proof -
  let ?f = "\<lambda>p s. try_r (node_symbol p) (\<lambda>v. emit2 api fi NdAssign (to_node ed) v s)"
  have f: "emits (?f p) [NdAssign (bare (to_node ed)) (bare (pointer_node p))]" for p
    unfolding emits_def
    by (auto simp: ok_iff dest!: node_symbol_pointer emitsD [OF emits_emit2 [where item = NdAssign, OF strip.simps(8)]])
  from assms obtain page w1 where r: "resolvePointers api 1 (symbol_of (from_node ed)) w = Ok (page, w1)"
    and p: "dlsym_pages fuel api ?f (hd page) (w1, out) = Ok (w', out')"
    by (auto simp: emit_dlsym_def ok_iff)
  have c: "concat (map (\<lambda>p. [NdAssign (bare (to_node ed)) (bare (pointer_node p))]) (filter (\<lambda>p. p \<noteq> 0) ps)) =
      dlsym_items ed ps" for ps by (induction ps) (simp_all add: dlsym_items_def)
  from dlsym_pages_emits [OF f p] r show ?thesis unfolding pointers_read_def c by blast
qed

lemma emits_dlsym_edges:
  assumes "visitEdges fi k (emit_dlsym fuel api fi) s = Ok s'"
  shows "\<exists>es pss its. visitEdges fi k (\<lambda>e es. Ok (es @ [e])) [] = Ok es \<and> snd s' = snd s @ its \<and>
    list_all2 (pointers_read api) es pss \<and> map strip its = concat (map2 dlsym_items es pss)"
proof -
  from visitEdges_log [OF assms(1)] obtain es where
    es: "\<forall>xs. visitEdges fi k (\<lambda>e es. Ok (es @ [e])) xs = Ok (xs @ es)"
    "for_each (emit_dlsym fuel api fi) es s = Ok s'" by blast
  have "for_each (emit_dlsym fuel api fi) es (w, out) = Ok (w', out') \<Longrightarrow> \<exists>pss its. out' = out @ its \<and>
    list_all2 (pointers_read api) es pss \<and> map strip its = concat (map2 dlsym_items es pss)"
    for w out w' out'
  proof (induction es arbitrary: w out)
    case (Cons ed es)
    from Cons.prems obtain w1 out1 where 1: "emit_dlsym fuel api fi ed (w, out) = Ok (w1, out1)"
      "for_each (emit_dlsym fuel api fi) es (w1, out1) = Ok (w', out')" by (auto simp: ok_iff)
    from emit_dlsym_ok [OF 1(1)] obtain ps its1 where i: "pointers_read api ed ps" "out1 = out @ its1"
      "map strip its1 = dlsym_items ed ps" by blast
    from Cons.IH [OF 1(2)] obtain pss its2 where "out' = out1 @ its2" "list_all2 (pointers_read api) es pss"
      "map strip its2 = concat (map2 dlsym_items es pss)" by blast
    with i show ?case by (intro exI [of _ "ps # pss"] exI [of _ "its1 @ its2"]) simp
  qed (auto intro: exI [of _ "[]"])
  from this [of "fst s" "snd s" "fst s'" "snd s'"] es show ?thesis by auto
qed

lemma emit_function_head:
  assumes 1: "emit_externs api fi e (w, [Text ''#include prelude.h'']) = Ok s1"
    and 2: "for_each (emit_local api fi (\<lambda>fi i. LocalDecl (local_comment fi i)))
              [0..<unat (fi_num_locals fi)] s1 = Ok s2"
    and 3: "writePrototype api FunctionHead fn k s2 = Ok s3"
    and 4: "for_each (emit_local api fi (\<lambda>_ _. AllocaMalloc)) [0..<unat (fi_num_allocas fi)] s3 = Ok s4"
  shows "map strip (snd s4) =
    Text ''#include prelude.h'' # map (state_item ident_of) (node_states e) @
    map (\<lambda>i. LocalDecl (local_comment fi i) (bare (own_local fi i))) [0..<unat (fi_num_locals fi)] @
    [FunctionHead (Operand (symbol_ident fn) '''') k] @
    map (\<lambda>i. AllocaMalloc (bare (own_local fi i))) [0..<unat (fi_num_allocas fi)]"
  using emits_step [OF emits_externs 1]
    emits_step [OF emits_locals [where item' = "\<lambda>i. LocalDecl (local_comment fi i)"] 2]
    emits_step [OF emits_prototype [where item = FunctionHead] 3]
    emits_step [OF emits_locals [where item' = "\<lambda>_. AllocaMalloc"] 4]
  by simp

text \<open>
  C18. The file of a function: after the declarations of all known symbols and of
  the function's locals and argument slots, one nondeterministically guarded statement for every
  edge, kind by kind (an assignment, load, store, call with as many slots
  as it has arguments, return, parameter or argument copy between the identifiers of its nodes);
  then, for every \<open>DlsymPagePointer\<close> edge, one assignment to its output node from each pointer that
  is not null in the pages its page pointer leads to, in their order; and nothing else. All calls come
  before all argument supplies: the filling of an argument slot is emitted after the call that
  passes the slot, which \<open>src/doc/src/points-to.md\<close> has the other way round.
\<close>

theorem emit_function_body:
  assumes "emit_function fuel api e k fi w = Ok (w', out)"
  shows "\<exists>ess pss. (\<forall>kd. visitEdges fi kd (\<lambda>ed es. Ok (es @ [ed])) [] = Ok (ess kd)) \<and>
    list_all2 (pointers_read api) (ess DlsymPagePointerK) pss \<and>
    map strip out =
      Text ''#include prelude.h'' # map (state_item ident_of) (node_states e) @
      map (\<lambda>i. LocalDecl (local_comment fi i) (bare (own_local fi i))) [0..<unat (fi_num_locals fi)] @
      [FunctionHead (Operand (symbol_ident (symbol_of (fi_function fi))) '''') k] @
      map (\<lambda>i. AllocaMalloc (bare (own_local fi i))) [0..<unat (fi_num_allocas fi)] @
      concat (map call_arg_items (ess CallK)) @
      concat (map edge_items (ess AssignK @ ess LoadK @ ess StoreK @ ess CallK @ ess ReturnK @
        ess ArgumentDefinitionK @ ess ArgumentSupplyK)) @
      concat (map2 dlsym_items (ess DlsymPagePointerK) pss) @ [Text ''return NULL;'']"
proof -
  let ?snoc = "\<lambda>ed es. Ok (es @ [ed])" and ?fn = "symbol_of (fi_function fi)"
  let ?head = "writePrototype api FunctionHead ?fn k"
  from assms obtain s1 s2 s3 s4 s5 s6 s7 s8 s9 s10 s11 s12 s13 where
    1: "emit_externs api fi e (w, [Text ''#include prelude.h'']) = Ok s1"
    and 2: "for_each (emit_local api fi (\<lambda>fi i. LocalDecl (local_comment fi i)))
              [0..<unat (fi_num_locals fi)] s1 = Ok s2"
    and 3: "?head s2 = Ok s3"
    and 4: "for_each (emit_local api fi (\<lambda>_ _. AllocaMalloc)) [0..<unat (fi_num_allocas fi)] s3 = Ok s4"
    and 5: "visitEdges fi CallK (emit_call_args fi) s4 = Ok s5"
    and 6: "visitEdges fi AssignK (\<lambda>ed. emit2 api fi NdAssign (to_node ed) (from_node ed)) s5 = Ok s6"
    and 7: "visitEdges fi LoadK (\<lambda>ed. emit2 api fi NdLoad (to_node ed) (from_node ed)) s6 = Ok s7"
    and 8: "visitEdges fi StoreK (\<lambda>ed. emit2 api fi NdStore (to_node ed) (from_node ed)) s7 = Ok s8"
    and 9: "visitEdges fi CallK (emit_call api fi) s8 = Ok s9"
    and 10: "visitEdges fi ReturnK (\<lambda>ed. emit1 api fi NdReturn (from_node ed)) s9 = Ok s10"
    and 11: "visitEdges fi ArgumentDefinitionK
              (\<lambda>ed. emit1 api fi (\<lambda>x. NdArgDef x (unat (edge_idx ed))) (to_node ed)) s10 = Ok s11"
    and 12: "visitEdges fi ArgumentSupplyK (emit_arg_supply api fi) s11 = Ok s12"
    and 13: "visitEdges fi DlsymPagePointerK (emit_dlsym fuel api fi) s12 = Ok s13"
    and out: "out = snd s13 @ [Text ''return NULL;'']"
    unfolding emit_function_def by (auto simp only: try_r_ok prod.case_eq_if result.inject prod.inject)
  note hd = emit_function_head [OF 1 2 3 4]
  note b = emits_edges [OF 5 emits_call_args] emits_edges [OF 6 emits_edge(1)]
    emits_edges [OF 7 emits_edge(2)] emits_edges [OF 8 emits_edge(3)] emits_edges [OF 9 emits_call]
    emits_edges [OF 10 emits_edge(4)] emits_edges [OF 11 emits_edge(5)] emits_edges [OF 12 emits_arg_supply]
  define ess where "ess kd = (case visitEdges fi kd ?snoc [] of Ok es \<Rightarrow> es | _ \<Rightarrow> [])" for kd
  have e: "visitEdges fi kd ?snoc [] = Ok es \<Longrightarrow> es = ess kd" for kd es by (simp add: ess_def)
  from emits_dlsym_edges [OF 13] obtain es pss its where d: "visitEdges fi DlsymPagePointerK ?snoc [] = Ok es"
    "snd s13 = snd s12 @ its" "list_all2 (pointers_read api) es pss"
    "map strip its = concat (map2 dlsym_items es pss)" by blast
  have all: "visitEdges fi kd ?snoc [] = Ok (ess kd)" for kd
    using b d(1) by (cases kd) (auto simp: ess_def)
  have "map strip (snd s12) = map strip (snd s4) @ concat (map call_arg_items (ess CallK)) @
      concat (map edge_items (ess AssignK @ ess LoadK @ ess StoreK @ ess CallK @ ess ReturnK @
        ess ArgumentDefinitionK @ ess ArgumentSupplyK))"
    using b by (auto simp: all)
  with d(2-4) hd show ?thesis unfolding out e [OF d(1)]
    by (intro exI [of _ ess] exI [of _ pss]) (simp add: all)
qed

section \<open>Distinct nodes have distinct identifiers\<close>

lemma node_fields_eq:
  assumes "is_node n" "is_node m" "symbol_of n = symbol_of m" "local_idx_of n = local_idx_of m"
  shows "n = m"
proof -
  have "raw n AND 0xffff = raw m AND 0xffff"
    using assms(4) local_idx_of_None local_idx_of_Some by (cases "local_idx_of m") metis+
  moreover have "drop_bit 16 (raw n) = drop_bit 16 (raw m)"
    using assms(3) by (simp add: symbol_of_def)
  ultimately have "push_bit 16 (drop_bit 16 (raw n)) + take_bit 16 (raw n) =
      push_bit 16 (drop_bit 16 (raw m)) + take_bit 16 (raw m)"
    by (simp add: take_bit_eq_mask mask_eq_exp_minus_1)
  then have "raw n = raw m" by (simp only: bits_ident)
  then show ?thesis by (simp add: node.expand)
qed

lemma length_symbol_ident: "length (symbol_ident a) = 23"
  by (simp add: symbol_ident_def length_show_hex16)

text \<open>
  Two nodes never share an identifier, however similar their addresses and
  indices are, so the C program has one variable per node.
\<close>

theorem ident_of_inject:
  assumes "is_node n" and "is_node m"
  shows "ident_of n = ident_of m \<longleftrightarrow> n = m"
proof
  assume eq: "ident_of n = ident_of m"
  have inj: "symbol_ident a = symbol_ident b \<Longrightarrow> a = b" for a b
    by (simp add: symbol_ident_def show_hex16_inject)
  have "symbol_of n = symbol_of m \<and> local_idx_of n = local_idx_of m"
  proof (cases "local_idx_of n"; cases "local_idx_of m")
    fix i j assume l: "local_idx_of n = Some i" "local_idx_of m = Some j"
    then have "(show_dec (unat i) @ ''_'') @ symbol_ident (symbol_of n) =
        (show_dec (unat j) @ ''_'') @ symbol_ident (symbol_of m)" using eq by (simp add: ident_of_def)
    then have "show_dec (unat i) = show_dec (unat j)" "symbol_ident (symbol_of n) = symbol_ident (symbol_of m)"
      by (subst (asm) append_eq_append_conv, simp add: length_symbol_ident, simp)+
    with l inj show ?thesis by (auto dest!: show_dec_inject intro: unat_inject)
  qed (use eq inj in \<open>auto simp: ident_of_def symbol_ident_def\<close>)
  with assms show "n = m" by (blast intro: node_fields_eq)
qed simp

section \<open>The pages of \<open>dlsym\<close>\<close>

text \<open>A well-formed list of pages in a memory that reads do not change, and its pointers in order.\<close>

inductive page_list :: "'w object_api \<Rightarrow> 'w \<Rightarrow> u64 \<Rightarrow> nat \<Rightarrow> u64 list \<Rightarrow> bool" for api w where
  page_nil: "page_list api w 0 0 []"
| page_cons: "page \<noteq> 0 \<Longrightarrow> copyData api 8 (page + 8) w = Ok (cnt, w) \<Longrightarrow>
    resolvePointers api page_pointers (page + 16) w = Ok (pointers, w) \<Longrightarrow>
    resolvePointers api 1 page w = Ok ([next_page], w) \<Longrightarrow> page_list api w next_page n ps \<Longrightarrow>
    page_list api w page (Suc n)
      (filter (\<lambda>p. p \<noteq> 0) (take (min (unat (read64 cnt)) page_pointers) pointers) @ ps)"

inductive_cases page_list_zero: "page_list api w 0 n ps"

text \<open>
  The walk over a list of \<open>n\<close> pages ends, given more than \<open>n\<close> steps, and visits
  the pointers that are not null, of every page as many as its count says but at most those it has
  room for, in order.
\<close>

lemma dlsym_pages_list:
  assumes "page_list api w page n ps" and "n < fuel"
    and "\<And>p s. \<exists>s'. visit p (w, s) = Ok (w, s')"
  shows "dlsym_pages fuel api visit page (w, s) = for_each visit ps (w, s)"
  using assms(1,2)
proof (induction arbitrary: fuel s)
  case page_nil
  then show ?case by (cases fuel) simp_all
next
  case (page_cons page cnt pointers next_page n ps)
  let ?ps = "filter (\<lambda>p. p \<noteq> 0) (take (min (unat (read64 cnt)) page_pointers) pointers)"
  obtain k where k: "fuel = Suc k" "n < k" using page_cons.prems by (cases fuel) auto
  have "\<exists>s'. for_each visit ps (w, s) = Ok (w, s')" for ps s
  proof (induction ps arbitrary: s)
    case (Cons p ps)
    obtain s1 where "visit p (w, s) = Ok (w, s1)" using assms(3) by blast
    with Cons show ?case by simp
  qed simp
  then obtain s1 where "for_each visit ?ps (w, s) = Ok (w, s1)" by blast
  with page_cons.hyps page_cons.IH [OF k(2)] k(1) show ?case
    by (simp add: for_each_append)
qed

section \<open>Headers, and functions without a graph\<close>

lemma emits_prelude_decls:
  "emits (for_each (prelude_decl api) sts) (map (state_item (\<lambda>n. symbol_ident (symbol_of n))) sts)"
proof -
  have "emits (prelude_decl api nst) [state_item (\<lambda>n. symbol_ident (symbol_of n)) nst]" for nst
  proof (cases nst)
    case (Pair n st)
    show ?thesis
      using emitsD [OF emits_symbol [where item = Extern]] emitsD [OF emits_prototype [where item = Prototype]]
      by (cases st) (fastforce simp: Pair emits_def prelude_decl_def state_item_def ok_iff)+
  qed
  from emits_for_each [of sts, OF this] show ?thesis by simp
qed

lemma open_file_ok [ok_iff]: "open_file env p k = Ok y \<longleftrightarrow> open_error env p = None \<and> k = Ok y"
  by (simp add: open_file_def split: option.splits)

lemma write_file_ok [ok_iff]:
  "write_file env p msg out fs = Ok fs' \<longleftrightarrow> write_good env p \<and> fs' = AList.update p out fs"
  by (auto simp: write_file_def ok_iff)

definition file_names :: "files \<Rightarrow> string set" where
  "file_names fs = fst ` set fs"

lemma file_names_update [simp]: "file_names (AList.update p out fs) = insert p (file_names fs)"
  by (simp add: file_names_def dom_update)

text \<open>Only files of functions change.\<close>

definition kept :: "string \<Rightarrow> files \<Rightarrow> files \<Rightarrow> bool" where
  "kept dst fs fs' \<longleftrightarrow>
     file_names fs \<subseteq> file_names fs' \<and> (\<forall>p. (\<forall>a. function_path dst a \<noteq> p) \<longrightarrow> map_of fs' p = map_of fs p)"

lemma kept_trans: "kept dst fs1 fs2 \<Longrightarrow> kept dst fs2 fs3 \<Longrightarrow> kept dst fs1 fs3"
  by (auto simp: kept_def)

lemma kept_refl [simp]: "kept dst fs fs"
  by (simp add: kept_def)

lemma kept_update: "kept dst fs (AList.update (function_path dst a) out fs)"
  by (auto simp: kept_def update_conv')

lemma write_function_ok:
  assumes "write_function api env dst fi (w, e, fs) = Ok (w', e', fs')"
  shows "declared_functions e' = filter (\<lambda>f. f \<noteq> fi_function fi) (declared_functions e) \<and>
    node_states e' = node_states e \<and> kept dst fs fs' \<and>
    function_path dst (symbol_of (fi_function fi)) \<in> file_names fs'"
proof -
  from assms obtain out where
    "e' = e\<lparr>declared_functions := filter (\<lambda>f. f \<noteq> fi_function fi) (declared_functions e)\<rparr>"
    "fs' = AList.update (function_path dst (symbol_of (fi_function fi))) out fs"
    by (auto simp: write_function_def node_symbol_of_def ok_iff Let_def)
  then show ?thesis by (simp add: kept_update)
qed

lemma write_functions_run:
  assumes "read_run (lift_api api) (write_function api env dst) s fis s'"
  shows "declared_functions (fst (snd s')) =
      filter (\<lambda>n. n \<notin> fi_function ` set fis) (declared_functions (fst (snd s))) \<and>
    node_states (fst (snd s')) = node_states (fst (snd s)) \<and> kept dst (snd (snd s)) (snd (snd s')) \<and>
    (\<forall>fi\<in>set fis. function_path dst (symbol_of (fi_function fi)) \<in> file_names (snd (snd s')))"
  using assms
proof (induction rule: read_run.induct)
  case (callback fis s1 fi s2)
  obtain w1 e1 fs1 w2 e2 fs2 where s: "s1 = (w1, e1, fs1)" "s2 = (w2, e2, fs2)"
    by (cases s1, cases s2)
  note w = write_function_ok [OF callback.hyps(2) [unfolded s]]
  have "filter (\<lambda>f. f \<noteq> fi_function fi) (filter (\<lambda>n. n \<notin> fi_function ` set fis) xs) =
      filter (\<lambda>n. n \<notin> fi_function ` set (fis @ [fi])) xs" for xs
    by (simp add: filter_filter conj_commute)
  with callback.IH w show ?case using kept_trans by (auto simp: s kept_def [of dst fs1 fs2])
qed (auto simp: ok_iff)

lemma missing_line_ok:
  "missing_line api n (w, out) = Ok (w', out') \<Longrightarrow> \<exists>nm. out' = out @ [MissingLine (symbol_of n) nm]"
  by (auto simp: missing_line_def node_symbol_of_def ok_iff split: result.splits)

lemma missing_lines:
  "for_each (missing_line api) ns (w, out) = Ok (w', out') \<Longrightarrow>
    \<exists>its. out' = out @ its \<and> list_all2 (\<lambda>n it. \<exists>nm. it = MissingLine (symbol_of n) nm) ns its"
proof (induction ns arbitrary: w out)
  case (Cons n ns)
  from Cons.prems obtain w1 out1 where 1: "missing_line api n (w, out) = Ok (w1, out1)"
    "for_each (missing_line api) ns (w1, out1) = Ok (w', out')" by (auto simp: ok_iff)
  from missing_line_ok [OF 1(1)] Cons.IH [OF 1(2)] obtain nm its
    where "out' = out @ MissingLine (symbol_of n) nm # its"
    "list_all2 (\<lambda>n it. \<exists>nm. it = MissingLine (symbol_of n) nm) ns its" by auto
  then show ?case by (intro exI [of _ "MissingLine (symbol_of n) nm # its"]) simp
qed simp

lemma path_differs: "function_path dst a \<noteq> path_in dst ''missing.txt''"
  by (simp add: function_path_def path_in_def show_hex16_def)

lemma write_conservative_ok:
  assumes "write_conservative api env dst e n (w, fs) = Ok (w', fs')"
  shows "\<exists>out. fs' = AList.update (function_path dst (symbol_of n)) out fs"
  using assms by (auto simp: write_conservative_def node_symbol_of_def ok_iff Let_def)

lemma write_conservatives:
  "for_each (write_conservative api env dst e) ns (w, fs) = Ok (w', fs') \<Longrightarrow>
    (\<forall>n\<in>set ns. function_path dst (symbol_of n) \<in> file_names fs') \<and> kept dst fs fs'"
proof (induction ns arbitrary: w fs)
  case (Cons n ns)
  let ?p = "function_path dst (symbol_of n)"
  from Cons.prems obtain w1 fs1 where 1: "write_conservative api env dst e n (w, fs) = Ok (w1, fs1)"
    "for_each (write_conservative api env dst e) ns (w1, fs1) = Ok (w', fs')" by (auto simp: ok_iff)
  from write_conservative_ok [OF 1(1)] obtain out where u: "fs1 = AList.update ?p out fs" by blast
  then have "kept dst fs fs1" "?p \<in> file_names fs1" by (simp_all add: kept_update)
  with Cons.IH [OF 1(2)] show ?case using kept_trans by (auto simp: kept_def [of dst fs1 fs'])
qed simp

lemma writeFunctions_steps:
  assumes "writeFunctions c api env dst conservative_mode (w, e, fs) = Ok (w', e', fs')"
  shows "\<exists>w1 out1 w2 fs2 w3 out fs3.
    readEdges c (lift_api api) (write_function api env dst)
      (w1, e, AList.update (path_in dst ''globals.c'') out1 fs) = Ok (w2, e', fs2) \<and>
    for_each (missing_line api) (declared_functions e') (w2, []) = Ok (w3, out) \<and>
    fs3 = AList.update (path_in dst ''missing.txt'') out fs2 \<and>
    (if conservative_mode
     then for_each (write_conservative api env dst e') (declared_functions e') (w3, fs3) = Ok (w', fs')
     else fs' = fs3)"
  using assms by (cases conservative_mode; simp add: writeFunctions_def ok_iff; blast)

text \<open>The report and the files of the functions survive the conservative files.\<close>

lemma conservative_files:
  assumes "if conservative_mode then for_each (write_conservative api env dst e') ns (w3, fs3) = Ok (w', fs')
      else fs' = fs3"
    and "fs3 = AList.update (path_in dst ''missing.txt'') out fs2"
  shows "map_of fs' (path_in dst ''missing.txt'') = Some out \<and> file_names fs2 \<subseteq> file_names fs' \<and>
    (conservative_mode \<longrightarrow> (\<forall>n\<in>set ns. function_path dst (symbol_of n) \<in> file_names fs'))"
proof -
  have f: "map_of fs3 (path_in dst ''missing.txt'') = Some out" "file_names fs2 \<subseteq> file_names fs3"
    by (simp_all add: assms(2) update_conv' subset_insertI)
  show ?thesis
  proof (cases conservative_mode)
    case True
    with assms(1) have "for_each (write_conservative api env dst e') ns (w3, fs3) = Ok (w', fs')" by simp
    note wc = write_conservatives [OF this]
    then have "map_of fs' (path_in dst ''missing.txt'') = map_of fs3 (path_in dst ''missing.txt'')"
        "file_names fs3 \<subseteq> file_names fs'"
      using path_differs by (simp_all add: kept_def)
    with f wc show ?thesis by auto
  qed (use assms(1) f in simp)
qed

text \<open>
  C22. The functions for which a file is written are those the reader calls back on, and on an object
  whose graph sections hold the output of finished writer runs they are all the functions of all the
  graphs. Each of them gets its own file; the report \<open>missing.txt\<close> has one line for each declared
  function that no graph defined, and no other; and in conservative mode each of those declared
  functions has a file too: nothing declared stays without a body.
\<close>

theorem writeFunctions_complete:
  assumes "writeFunctions c api env dst conservative_mode (w, e, fs) = Ok (w', e', fs')"
  shows "\<exists>fis. (\<exists>w1 fs1. functions_read c (lift_api api) (write_function api env dst) (w1, e, fs1) = Ok fis) \<and>
    (\<forall>canon srt ss layout name. image_ok canon srt c api ss layout name \<and> codec_ok c \<longrightarrow>
      fis = image_infos name srt layout ss) \<and>
    declared_functions e' = filter (\<lambda>n. n \<notin> fi_function ` set fis) (declared_functions e) \<and>
    (\<exists>out. map_of fs' (path_in dst ''missing.txt'') = Some out \<and>
      list_all2 (\<lambda>n it. \<exists>nm. it = MissingLine (symbol_of n) nm) (declared_functions e') out) \<and>
    (\<forall>fi\<in>set fis. function_path dst (symbol_of (fi_function fi)) \<in> file_names fs') \<and>
    (conservative_mode \<longrightarrow>
      (\<forall>n\<in>set (declared_functions e). function_path dst (symbol_of n) \<in> file_names fs'))"
proof -
  let ?missing = "path_in dst ''missing.txt''"
  from writeFunctions_steps [OF assms] obtain w1 out1 w2 fs2 w3 out fs3 where
    r: "readEdges c (lift_api api) (write_function api env dst)
      (w1, e, AList.update (path_in dst ''globals.c'') out1 fs) = Ok (w2, e', fs2)"
    and m: "for_each (missing_line api) (declared_functions e') (w2, []) = Ok (w3, out)"
    and u: "fs3 = AList.update ?missing out fs2"
    and c: "(if conservative_mode
      then for_each (write_conservative api env dst e') (declared_functions e') (w3, fs3) = Ok (w', fs')
      else fs' = fs3)"
    by blast
  from readEdges_logged [OF r] obtain fis
    where f: "functions_read c (lift_api api) (write_function api env dst)
      (w1, e, AList.update (path_in dst ''globals.c'') out1 fs) = Ok fis"
    and run: "read_run (lift_api api) (write_function api env dst)
      (w1, e, AList.update (path_in dst ''globals.c'') out1 fs) fis (w2, e', fs2)" .
  note d = write_functions_run [OF run, simplified] and i = functions_read_image [OF f image_ok_lift]
  from missing_lines [OF m]
  have l: "list_all2 (\<lambda>n it. \<exists>nm. it = MissingLine (symbol_of n) nm) (declared_functions e') out" by simp
  note k = conservative_files [OF c u]
  have "function_path dst (symbol_of n) \<in> file_names fs'"
    if "conservative_mode" "n \<in> set (declared_functions e)" for n
    using that d k by (cases "n \<in> fi_function ` set fis") auto
  with f i d k l show ?thesis by (intro exI [of _ fis] conjI) blast+
qed

lemma writeFunctions_prelude:
  assumes "writeFunctions c api env dst conservative_mode (w, e, fs) = Ok (w', e', fs')"
  shows "map_of fs' (path_in dst ''prelude.h'') = map_of fs (path_in dst ''prelude.h'')"
proof -
  from writeFunctions_steps [OF assms] obtain out1 w1 w2 fs2 out w3 fs3 where
    r: "readEdges c (lift_api api) (write_function api env dst)
      (w1, e, AList.update (path_in dst ''globals.c'') out1 fs) = Ok (w2, e', fs2)"
    and u: "fs3 = AList.update (path_in dst ''missing.txt'') out fs2"
    and c: "(if conservative_mode
      then for_each (write_conservative api env dst e') (declared_functions e') (w3, fs3) = Ok (w', fs')
      else fs' = fs3)"
    by blast
  from readEdges_run [OF r] obtain fis where run: "read_run (lift_api api) (write_function api env dst)
      (w1, e, AList.update (path_in dst ''globals.c'') out1 fs) fis (w2, e', fs2)" by blast
  have "kept dst fs3 fs'"
    using c write_conservatives by (cases conservative_mode) fastforce+
  moreover have "kept dst (AList.update (path_in dst ''globals.c'') out1 fs) fs2"
    using write_functions_run [OF run] by simp
  moreover have "function_path dst a \<noteq> path_in dst ''prelude.h''" for a
    by (simp add: function_path_def path_in_def show_hex16_def)
  ultimately show ?thesis by (simp add: kept_def u update_conv' path_in_def)
qed

lemma override_define_ok:
  assumes "override_define api (n, nm) (w, out, e) = Ok (w', out', e')"
  shows "node_states e' = node_states e \<and>
    (\<exists>c. out' = out @ [define_line (Operand (symbol_ident (symbol_of n)) c) nm])"
proof -
  from assms obtain x where r: "renderSymbol api (symbol_of n) w = Ok (x, w')"
    and o: "out' = out @ [define_line x nm]" "node_states e' = node_states e"
    by (auto simp: override_define_def ok_iff Let_def)
  have "x = Operand (symbol_ident (symbol_of n)) (comment x)"
    using renderSymbol_ok [OF r] by (cases x) (simp add: strip_op_def)
  with o show ?thesis by metis
qed

lemma override_defines:
  "for_each (override_define api) ovs (w, out, e) = Ok (w', out', e') \<Longrightarrow>
    node_states e' = node_states e \<and> (\<exists>its. out' = out @ its \<and>
      list_all2 (\<lambda>(n, nm) it. \<exists>c. it = define_line (Operand (symbol_ident (symbol_of n)) c) nm) ovs its)"
proof (induction ovs arbitrary: w out e)
  case (Cons ov ovs)
  obtain n nm where ov: "ov = (n, nm)" by (cases ov)
  from Cons.prems obtain w1 out1 e1 where 1: "override_define api (n, nm) (w, out, e) = Ok (w1, out1, e1)"
    and l: "for_each (override_define api) ovs (w1, out1, e1) = Ok (w', out', e')"
    by (auto simp: ov ok_iff)
  from override_define_ok [OF 1] Cons.IH [OF l] obtain c its where
    "node_states e' = node_states e" "out' = out @ define_line (Operand (symbol_ident (symbol_of n)) c) nm # its"
    "list_all2 (\<lambda>(n, nm) it. \<exists>c. it = define_line (Operand (symbol_ident (symbol_of n)) c) nm) ovs its"
    by auto
  then show ?case
    by (intro conjI exI [of _ "define_line (Operand (symbol_ident (symbol_of n)) c) nm # its"])
      (auto simp: ov)
qed simp

text \<open>What the first pass redirects has the arguments of the override in the prelude.\<close>

lemma pass_overrides:
  assumes "populate_prelude [] = Ok (ov, text)"
    and i: "initial_pass c api (w, EmitC_init\<lparr>override_nargs := ov\<rparr>) = Ok (w1, e1)"
    and n: "(n, nm) \<in> set (override_nodes e1)"
  shows "\<exists>f\<in>set prelude_overrides. ov_name f = nm \<and>
    state_of e1 n = NodeStateFunction (of_nat (length (ov_params f)))"
proof -
  have "overridden_ok (EmitC_init\<lparr>override_nargs := ov\<rparr>)" by (simp add: overridden_ok_def EmitC_init_def)
  note inv = initial_pass_overridden [OF i this]
  with n have "map_of (override_nodes e1) n = Some nm" by (simp add: overridden_ok_def)
  with inv obtain k where k: "map_of (override_nargs e1) nm = Some k" "state_of e1 n = NodeStateFunction k"
    unfolding overridden_ok_def by blast
  obtain fis where r: "read_run (lift_api api) (visit_function api) (w, EmitC_init\<lparr>override_nargs := ov\<rparr>) fis (w1, e1)"
    using readEdges_run [OF i [unfolded initial_pass_def]] by blast
  have "override_nargs e1 = ov" using initial_run [OF r] by (simp add: learns_def)
  with k(1) have ov: "map_of ov nm = Some k" by simp
  then have "nm \<in> ov_name ` set prelude_overrides"
    using override_table(2) [OF assms(1), of nm] by force
  then obtain f where f: "f \<in> set prelude_overrides" "ov_name f = nm" by blast
  with override_table(1) [OF assms(1) f(1)] ov k(2) show ?thesis by auto
qed

text \<open>
  C37. The header declares every symbol the first pass came across, once and by what it
  is (a function with its arguments or a variable), whatever the files of the functions need, and
  then redirects the overridden symbols, each to a function that the header defines with as many
  arguments as the symbol is declared with.
\<close>

theorem emitC_prelude:
  assumes "emitC c api env dst conservative_mode (w, EmitC_init, fs) = Ok (w', e', fs')"
  shows "\<exists>ov text w1 e1 decls defs. populate_prelude [] = Ok (ov, text) \<and>
    initial_pass c api (w, EmitC_init\<lparr>override_nargs := ov\<rparr>) = Ok (w1, e1) \<and>
    map_of fs' (path_in dst ''prelude.h'') = Some (decls @ defs) \<and>
    map strip decls = Text text # map (state_item (\<lambda>n. symbol_ident (symbol_of n))) (node_states e1) \<and>
    list_all2 (\<lambda>(n, nm) it. \<exists>c. it = define_line (Operand (symbol_ident (symbol_of n)) c) nm)
      (override_nodes e1) defs \<and>
    (\<forall>(n, nm)\<in>set (override_nodes e1). \<exists>f\<in>set prelude_overrides. ov_name f = nm \<and>
      state_of e1 n = NodeStateFunction (of_nat (length (ov_params f))))"
proof -
  let ?h = "path_in dst ''prelude.h''"
  have none: "override_nargs EmitC_init = []" by (simp add: EmitC_init_def)
  from assms obtain ov prel w1 e1 w2 out w3 out3 e3 w4 outg where
    q: "populate_prelude [] = Ok (ov, prel)"
    and i: "initial_pass c api (w, EmitC_init\<lparr>override_nargs := ov\<rparr>) = Ok (w1, e1)"
    and p: "for_each (prelude_decl api) (node_states e1) (w1, [Text prel]) = Ok (w2, out)"
    and o: "for_each (override_define api) (override_nodes e1) (w2, out, declare_functions e1) = Ok (w3, out3, e3)"
    and f: "writeFunctions c api env dst conservative_mode (w4, e3,
      AList.update (path_in dst ''globals.c'') outg
        (AList.update (path_in dst ''Makefile'') [Text makefile_text] (AList.update ?h out3 fs))) =
      Ok (w', e', fs')"
    by (auto simp: emitC_def Let_def ok_iff declare_functions_def none)
  from emitsD [OF emits_prelude_decls p]
  have d: "map strip out = Text prel # map (state_item (\<lambda>n. symbol_ident (symbol_of n))) (node_states e1)"
    by auto
  from override_defines [OF o] obtain defs where
    "out3 = out @ defs" "list_all2 (\<lambda>(n, nm) it. \<exists>c. it =
      define_line (Operand (symbol_ident (symbol_of n)) c) nm)
      (override_nodes e1) defs" by blast
  moreover have "map_of fs' ?h = Some out3"
    using writeFunctions_prelude [OF f] by (simp add: update_conv' path_in_def)
  ultimately show ?thesis using q i d pass_overrides [OF q i]
    by (intro exI [of _ ov] exI [of _ prel] exI [of _ w1] exI [of _ e1] exI [of _ out] exI [of _ defs]) auto
qed

subsection \<open>An example\<close>

definition ex_emit_env :: emit_env where
  "ex_emit_env = \<lparr>open_error = (\<lambda>_. None), write_good = (\<lambda>_. True), page_fuel = 10\<rparr>"

definition ex_table :: "(string \<times> u16) list" where
  "ex_table = fold add_nargs prelude_overrides []"

definition ex_emit2 :: emit_state where
  "ex_emit2 = declare_functions (ex_emit1\<lparr>override_nargs := ex_table\<rparr>)"

lemma ex_nodes:
  "is_node (Node 0x10010001)" "local_idx_of (Node 0x10010001) = Some 0" "symbol_of (Node 0x10010001) = 0x1000"
  "is_node (Node 0x10010000)" "local_idx_of (Node 0x10010000) = None" "symbol_of (Node 0x10010000) = 0x1000"
  by (simp_all add: is_node_def local_idx_of_def symbol_of_def)

lemma ex_render: "renderSymbol ex_api a w = Ok (Operand (symbol_ident a) ''main'', w)"
  by (simp add: renderSymbol_def ex_api_def)

lemma ex_show:
  "\<exists>x. show_node_in ex_api ex_info (Node 0x10010001) w = Ok (x, w)"
  "\<exists>x. show_node_in ex_api ex_info (Node 0x10010000) w = Ok (x, w)"
  by (simp_all add: show_node_in_def node_local_idx_def ex_nodes ex_render ex_info_function)

lemma ex_local_node: "node_local 0x1000 0 = Ok (Node 0x10010001)"
  by (simp add: node_local_def Let_def push_bit_eq_mult)

lemma ex_info_sizes: "fi_num_locals ex_info = 1" "fi_num_allocas ex_info = 1"
  by (simp_all add: ex_info_def info_of_def ex_written_def)

lemma ex_emit_function:
  "\<exists>out. emit_function 10 ex_api (ex_emit2\<lparr>declared_functions := ds\<rparr>) 0 ex_info w = Ok (w, out)"
proof -
  obtain x y where s: "show_node_in ex_api ex_info (Node 0x10010001) w = Ok (x, w)"
    "show_node_in ex_api ex_info (Node 0x10010000) w = Ok (y, w)" using ex_show by metis
  have "node_states (ex_emit2\<lparr>declared_functions := ds\<rparr>) = [(Node 0x10010000, NodeStateFunction 0)]"
    by (simp add: ex_emit2_def declare_functions_def ex_emit1_def)
  with s show ?thesis
    by (simp add: emit_function_def emit_externs_def writePrototype_def ex_nodes ex_render ex_info_sizes
        emit_local_def emit1_def emit2_def ex_info_function ex_local_node ex_visitEdges)
qed

text \<open>
  A function with a \<open>DlsymPagePointer\<close> edge from its symbol to its local, and an object whose page
  pointer leads to one page with the pointers 5, 0 and 7.
\<close>

definition ex_dlsym_info :: function_info where
  "ex_dlsym_info = ex_info\<lparr>fi_edge_data := (\<lambda>k. if k = DlsymPagePointerK then [0, 2] else [])\<rparr>"

definition ex_dlsym_api :: "unit object_api" where
  "ex_dlsym_api = \<lparr>isApple = (\<lambda>_. False), object_sections = (\<lambda>_. Ok []), symbolName = (\<lambda>_ w. Ok (''f'', w)),
     copyData = (\<lambda>n a w. Ok (le64 3, w)),
     resolvePointers = (\<lambda>n a w. Ok (if a = 0x1000 then [0x20] else if n = 1 then [0] else [5, 0, 7], w))\<rparr>"

lemma ex_dlsym_visit: "visitEdges ex_dlsym_info k cb s =
    (if k = DlsymPagePointerK then try_r (cb (Edge DlsymPagePointerK (Node 0x10010001) (Node 0x10010000) 0) s) Ok else Ok s)"
proof -
  have a: "fi_symbol_addresses ex_info = [0x1000]" by (simp add: ex_info_def info_of_def)
  have z: "zigzag_decode (2 :: u32) = 1" "zigzag_decode (0 :: u32) = 0" by (simp_all add: zigzag_decode_def)
  show ?thesis
    by (cases "cb (Edge DlsymPagePointerK (Node 0x10010001) (Node 0x10010000) 0) s")
      (simp_all add: visitEdges_def ex_dlsym_info_def node_symbol_of_def ex_info_function ex_nodes a z decode_node_def
        symbol_address_def node_symbol_def node_local_def Let_def mk_edge_def push_bit_eq_mult)
qed

lemma ex_dlsym_pages: "pages_read ex_dlsym_api 0x20 [5, 0, 7]"
proof -
  have r: "read64 (le64 3) = 3" using read64_le64 [of 3 "[]"] by simp
  have "pages_read ex_dlsym_api (hd [0]) []" by (simp add: pages_end)
  from pages_more [of "0x20" ex_dlsym_api "()" "le64 3" "()" "()" "[5, 0, 7]" "()" "()" "[0]" "()", OF _ _ _ _ this]
  show ?thesis by (simp add: ex_dlsym_api_def page_pointers_def r)
qed

lemma ex_dlsym_pointers:
  assumes "pointers_read ex_dlsym_api (Edge DlsymPagePointerK (Node 0x10010001) (Node 0x10010000) 0) ps"
  shows "ps = [5, 0, 7]"
proof -
  have "stable_reads ex_dlsym_api" by (simp add: stable_reads_def ex_dlsym_api_def)
  moreover have "pointers_read ex_dlsym_api (Edge DlsymPagePointerK (Node 0x10010001) (Node 0x10010000) 0) [5, 0, 7]"
    using ex_dlsym_pages by (simp add: pointers_read_def ex_nodes) (simp add: ex_dlsym_api_def)
  ultimately show ?thesis using assms by (metis pointers_read_unique)
qed

lemma ex_dlsym_emit:
  "\<exists>out. emit_function 2 ex_dlsym_api ex_emit2 0 ex_dlsym_info w = Ok (w, out)"
proof -
  have r: "renderSymbol ex_dlsym_api a w = Ok (Operand (symbol_ident a) ''f'', w)" for a w
    by (simp add: renderSymbol_def ex_dlsym_api_def)
  have f: "fi_function ex_dlsym_info = Node 0x10010000" "fi_num_locals ex_dlsym_info = 1" "fi_num_allocas ex_dlsym_info = 1"
    by (simp_all add: ex_dlsym_info_def ex_info_function ex_info_sizes)
  have n: "node_states ex_emit2 = [(Node 0x10010000, NodeStateFunction 0)]"
    by (simp add: ex_emit2_def declare_functions_def ex_emit1_def)
  obtain x where x: "\<And>w. show_node_in ex_dlsym_api ex_dlsym_info (Node 0x10010001) w = Ok (x, w)"
    by (simp add: show_node_in_def node_local_idx_def ex_nodes r f)
  have p: "node_symbol 5 = Ok (Node 0x60000)" "node_symbol 7 = Ok (Node 0x80000)"
    by (simp_all add: node_symbol_def Let_def push_bit_eq_mult)
  have "is_node (Node 0x60000)" "is_node (Node 0x80000)" "local_idx_of (Node 0x60000) = None"
    "local_idx_of (Node 0x80000) = None" by (simp_all add: is_node_def local_idx_of_def)
  then obtain y z where y: "\<And>w. show_node_in ex_dlsym_api ex_dlsym_info (Node 0x60000) w = Ok (y, w)"
    and z: "\<And>w. show_node_in ex_dlsym_api ex_dlsym_info (Node 0x80000) w = Ok (z, w)"
    by (simp add: show_node_in_def node_local_idx_def r)
  have c: "read64 (le64 3) = 3" using read64_le64 [of 3 "[]"] by simp
  have m: "copyData ex_dlsym_api 8 a w = Ok (le64 3, w)"
    "resolvePointers ex_dlsym_api (Suc 0) 0x1000 w = Ok ([0x20], w)" "resolvePointers ex_dlsym_api (Suc 0) 0x20 w = Ok ([0], w)"
    "resolvePointers ex_dlsym_api page_pointers 0x30 w = Ok ([5, 0, 7], w)" for a w
    by (simp_all add: ex_dlsym_api_def page_pointers_def)
  have t: "take (min (unat (read64 (le64 3))) page_pointers) [5, 0, 7] = [5, 0, 7 :: u64]"
    by (simp add: c page_pointers_def)
  have two: "(2 :: nat) = Suc (Suc 0)" by simp
  have d: "\<exists>out'. emit_dlsym 2 ex_dlsym_api ex_dlsym_info (Edge DlsymPagePointerK (Node 0x10010001) (Node 0x10010000) 0)
      (w, out) = Ok (w, out')" for w out
    unfolding emit_dlsym_def two
    by (simp add: node_local_idx_def ex_nodes m t p emit2_def x y z del: take.simps)
  then obtain D where "\<And>w out. emit_dlsym 2 ex_dlsym_api ex_dlsym_info
      (Edge DlsymPagePointerK (Node 0x10010001) (Node 0x10010000) 0) (w, out) = Ok (w, D w out)" by metis
  then show ?thesis
    by (simp add: emit_function_def emit_externs_def n writePrototype_def r f emit_local_def ex_nodes ex_local_node
        emit1_def x ex_dlsym_visit)
qed

theorem emit_function_body_witness:
  "\<exists>out. emit_function 2 ex_dlsym_api ex_emit2 0 ex_dlsym_info () = Ok ((), out) \<and>
    filter (\<lambda>it. \<exists>x y. it = NdAssign x y) (map strip out) =
      [NdAssign (bare (Node 0x10010001)) (bare (pointer_node 5)),
       NdAssign (bare (Node 0x10010001)) (bare (pointer_node 7))]"
proof -
  let ?e = "Edge DlsymPagePointerK (Node 0x10010001) (Node 0x10010000) 0"
  obtain out where o: "emit_function 2 ex_dlsym_api ex_emit2 0 ex_dlsym_info () = Ok ((), out)"
    using ex_dlsym_emit by blast
  from emit_function_body [OF o] obtain ess pss where
    v: "\<forall>kd. visitEdges ex_dlsym_info kd (\<lambda>ed es. Ok (es @ [ed])) [] = Ok (ess kd)"
    and ps: "list_all2 (pointers_read ex_dlsym_api) (ess DlsymPagePointerK) pss"
    and items: "map strip out =
      Text ''#include prelude.h'' # map (state_item ident_of) (node_states ex_emit2) @
      map (\<lambda>i. LocalDecl (local_comment ex_dlsym_info i) (bare (own_local ex_dlsym_info i)))
        [0..<unat (fi_num_locals ex_dlsym_info)] @
      [FunctionHead (Operand (symbol_ident (symbol_of (fi_function ex_dlsym_info))) '''') 0] @
      map (\<lambda>i. AllocaMalloc (bare (own_local ex_dlsym_info i))) [0..<unat (fi_num_allocas ex_dlsym_info)] @
      concat (map call_arg_items (ess CallK)) @
      concat (map edge_items (ess AssignK @ ess LoadK @ ess StoreK @ ess CallK @ ess ReturnK @
        ess ArgumentDefinitionK @ ess ArgumentSupplyK)) @
      concat (map2 dlsym_items (ess DlsymPagePointerK) pss) @ [Text ''return NULL;'']"
    by (elim exE conjE) (rule that; assumption)
  have e: "ess k = (if k = DlsymPagePointerK then [?e] else [])" for k
    using v [rule_format, of k] by (simp add: ex_dlsym_visit split: if_splits)
  have "pss = [[5, 0, 7]]" using ps ex_dlsym_pointers by (auto simp: e list_all2_Cons1)
  moreover have "node_states ex_emit2 = [(Node 0x10010000, NodeStateFunction 0)]"
    by (simp add: ex_emit2_def declare_functions_def ex_emit1_def)
  moreover have "fi_num_locals ex_dlsym_info = 1" "fi_num_allocas ex_dlsym_info = 1"
    by (simp_all add: ex_dlsym_info_def ex_info_sizes)
  ultimately have "filter (\<lambda>it. \<exists>x y. it = NdAssign x y) (map strip out) =
      [NdAssign (bare (Node 0x10010001)) (bare (pointer_node 5)),
       NdAssign (bare (Node 0x10010001)) (bare (pointer_node 7))]"
    unfolding items by (simp add: e dlsym_items_def state_item_def)
  with o show ?thesis by blast
qed

theorem ident_of_inject_witness: "ident_of (Node 0x10010001) \<noteq> ident_of (Node 0x10010000)"
  using ident_of_inject [OF ex_nodes(1) ex_nodes(4)] by simp

definition page_api :: "unit object_api" where
  "page_api = \<lparr>isApple = (\<lambda>_. False), object_sections = (\<lambda>_. Ok []), symbolName = (\<lambda>_ w. Ok (''f'', w)),
     copyData = (\<lambda>n a w. Ok (le64 3, w)),
     resolvePointers = (\<lambda>n a w. Ok (if n = 1 then [0] else [5, 0, 7], w))\<rparr>"

lemma ex_page_list: "page_list page_api () 0x10 1 [5, 7]"
proof -
  have n: "page_list page_api () 0 0 []" by (rule page_nil)
  have "read64 (le64 3) = 3" using read64_le64 [of 3 "[]"] by simp
  then show ?thesis
    using page_cons [of "0x10" page_api "()" "le64 3" "[5, 0, 7]" 0 0 "[]", OF _ _ _ _ n]
    by (simp add: page_api_def page_pointers_def)
qed

lemma ex_writeFunctions:
  "\<exists>fs'. writeFunctions plain_codec ex_api ex_emit_env ''d'' conservative ((), ex_emit2, fs) =
    Ok ((), ex_emit2\<lparr>declared_functions := []\<rparr>, fs')"
proof -
  have n: "not_functions ex_emit2 = []" "declared_functions ex_emit2 = [Node 0x10010000]"
    "function_nargs ex_emit2 (Node 0x10010000) = Ok 0"
    by (simp_all add: not_functions_def ex_emit2_def declare_functions_def ex_emit1_def is_function_state_def
        function_nargs_def ex_emit_def)
  obtain out where "emit_function 10 ex_api (ex_emit2\<lparr>declared_functions := []\<rparr>) 0 ex_info () = Ok ((), out)"
    using ex_emit_function [of "[]" "()"] by blast
  then show ?thesis
    by (simp add: writeFunctions_def open_file_def write_file_def ex_emit_env_def define_globals_def n
        lift_ex_api ex_read ex_infos write_function_def node_symbol_of_def ex_info_function ex_nodes)
qed

theorem writeFunctions_complete_witness:
  "\<exists>fs'. writeFunctions plain_codec ex_api ex_emit_env ''d'' False ((), ex_emit2, []) =
     Ok ((), ex_emit2\<lparr>declared_functions := []\<rparr>, fs') \<and>
   (\<exists>fs1. functions_read plain_codec (lift_api ex_api) (write_function ex_api ex_emit_env ''d'')
     ((), ex_emit2, fs1) = Ok [ex_info]) \<and>
   function_path ''d'' 0x1000 \<in> file_names fs' \<and> map_of fs' ''d/missing.txt'' = Some []"
proof -
  obtain fs' where f: "writeFunctions plain_codec ex_api ex_emit_env ''d'' False ((), ex_emit2, []) =
     Ok ((), ex_emit2\<lparr>declared_functions := []\<rparr>, fs')" using ex_writeFunctions by blast
  show ?thesis
    using writeFunctions_complete [OF f]
  proof (elim exE conjE)
    fix fis w1 fs1 out
    assume r: "functions_read plain_codec (lift_api ex_api) (write_function ex_api ex_emit_env ''d'')
        (w1 :: unit, ex_emit2, fs1) = Ok fis"
      and i: "\<forall>canon srt ss layout name. image_ok canon srt plain_codec (ex_api :: unit object_api) ss layout name \<and>
        codec_ok plain_codec \<longrightarrow> fis = image_infos name srt layout ss"
      and m: "map_of fs' (path_in ''d'' ''missing.txt'') = Some out"
        "list_all2 (\<lambda>n it. \<exists>nm. it = MissingLine (symbol_of n) nm)
          (declared_functions (ex_emit2\<lparr>declared_functions := []\<rparr>)) out"
      and p: "\<forall>fi\<in>set fis. function_path ''d'' (symbol_of (fi_function fi)) \<in> file_names fs'"
    have "fis = [ex_info]" using i ex_image_ok plain_codec_ok ex_image_infos by metis
    with r m p f show ?thesis by (auto simp: ex_info_function ex_nodes path_in_def)
  qed
qed

theorem emitC_prelude_witness:
  "\<exists>e' fs' decls defs. emitC plain_codec ex_api ex_emit_env ''d'' True ((), EmitC_init, []) = Ok ((), e', fs') \<and>
     map_of fs' ''d/prelude.h'' = Some (decls @ defs) \<and>
     tl (map strip decls) = [Prototype (Operand (symbol_ident 0x1000) '''') 0]"
proof -
  have e: "EmitC_init\<lparr>override_nargs := ex_table\<rparr> = ex_emit\<lparr>override_nargs := ex_table\<rparr>"
    by (simp add: EmitC_init_def ex_emit_def)
  have t: "\<exists>text. populate_prelude [] = Ok (ex_table, text)" by (simp add: populate_prelude_ok ex_table_def)
  then obtain prel where prel: "populate_prelude [] = Ok (ex_table, prel)" by blast
  have none: "override_nargs EmitC_init = []" by (simp add: EmitC_init_def)
  have s: "node_states ex_emit2 = [(Node 0x10010000, NodeStateFunction 0)]" "override_nodes ex_emit2 = []"
    "not_functions ex_emit2 = []"
    by (simp_all add: ex_emit2_def declare_functions_def ex_emit1_def ex_emit_def not_functions_def
        is_function_state_def)
  have "\<exists>fs'. emitC plain_codec ex_api ex_emit_env ''d'' True ((), EmitC_init, []) =
      Ok ((), ex_emit2\<lparr>declared_functions := []\<rparr>, fs')"
    using ex_writeFunctions
    by (simp add: emitC_def ex_emit_env_def open_file_def none prel e ex_pass Let_def s write_file_def
        prelude_decl_def writePrototype_def ex_render flip: ex_emit2_def)
  then obtain fs' where f: "emitC plain_codec ex_api ex_emit_env ''d'' True ((), EmitC_init, []) =
      Ok ((), ex_emit2\<lparr>declared_functions := []\<rparr>, fs')" by blast
  from emitC_prelude [OF f] f show ?thesis
    by (auto simp: prel e ex_pass ex_emit1_def state_item_def ex_nodes path_in_def)
qed

end
