(* ===== verification/Points_To_Spec.thy ===== *)
theory Points_To_Spec
  imports Points_To Emit_C_Spec
begin

text \<open>
  The solution file is read back faithfully, trace sites are all found, and a successful check
  really covers the traces, up to the exit code of the command.
\<close>

section \<open>Lines of the solution\<close>

definition idx_field :: "node \<Rightarrow> string" where
  "idx_field n = (case local_idx_of n of None \<Rightarrow> ''-'' | Some i \<Rightarrow> show_dec (unat i))"

definition pts_line :: "node \<times> node \<Rightarrow> string" where
  "pts_line nm =
     show_hex16 (symbol_of (fst nm)) @ [tab] @ idx_field (fst nm) @ [tab] @
     show_hex16 (symbol_of (snd nm)) @ [tab] @ idx_field (snd nm)"

lemma set_show_base: "2 \<le> b \<Longrightarrow> c \<in> set (show_base b n) \<Longrightarrow> \<exists>d<b. c = digit_char d"
proof (induction n rule: less_induct)
  case (less n)
  show ?case
  proof (cases "n < b")
    case True
    then have "show_base b n = [digit_char n]" by (subst show_base.simps) simp
    with True less.prems show ?thesis by auto
  next
    case False
    with less.prems(1) have "show_base b n = show_base b (n div b) @ [digit_char (n mod b)]"
      by (subst show_base.simps) simp
    with less.prems have "c \<in> set (show_base b (n div b)) \<or> c = digit_char (n mod b)" by auto
    then show ?thesis
    proof
      assume "c \<in> set (show_base b (n div b))"
      with less.IH [of "n div b"] less.prems False show ?thesis by (simp add: div_less_dividend)
    next
      assume "c = digit_char (n mod b)"
      with less.prems show ?thesis by (intro exI [of _ "n mod b"]) simp
    qed
  qed
qed

lemma digit_of_tab: "digit_of tab = None"
  by (simp add: digit_of_def tab_def)

lemma list_all_digits:
  assumes "2 \<le> b" "b \<le> 16"
  shows "list_all (\<lambda>c. case digit_of c of Some d \<Rightarrow> d < b | None \<Rightarrow> False) (show_base b n)"
  using set_show_base [OF assms(1)] assms(2) by (fastforce simp: list_all_iff digit_of_char)

lemma hex_digits: "list_all (\<lambda>c. digit_of c \<noteq> None) (drop 2 (show_hex16 a))"
proof -
  have "list_all (\<lambda>c. digit_of c \<noteq> None) (show_base 16 (unat a))"
    using list_all_digits [of 16 "unat a"] by (auto simp: list_all_iff split: option.splits)
  moreover have "digit_of (CHR ''0'') = Some 0" by (simp add: digit_of_def)
  ultimately show ?thesis by (auto simp: show_hex16_def pad_zero_def show_hex_def list_all_iff)
qed

lemma hex_field: "is_hex_field (show_hex16 a)" "tab \<notin> set (show_hex16 a)"
proof -
  have "drop 2 (show_hex16 a) \<noteq> []" using length_show_hex16 [of a] by auto
  then show "is_hex_field (show_hex16 a)"
    using hex_digits by (simp add: is_hex_field_def show_hex16_def)
  have "set (show_hex16 a) = {CHR ''0'', CHR ''x''} \<union> set (drop 2 (show_hex16 a))"
    by (auto simp: show_hex16_def)
  moreover have "tab \<notin> set (drop 2 (show_hex16 a))"
    using hex_digits [of a] digit_of_tab by (auto simp: list_all_iff)
  ultimately show "tab \<notin> set (show_hex16 a)" by (simp add: tab_def)
qed

lemma idx_field_ok: "is_idx_field (idx_field n)" "tab \<notin> set (idx_field n)"
proof -
  have d: "list_all (\<lambda>c. case digit_of c of Some d \<Rightarrow> d < 10 | None \<Rightarrow> False) (show_dec k)" for k
    using list_all_digits [of 10] by (simp add: show_dec_def)
  have "show_dec k \<noteq> []" for k unfolding show_dec_def by (subst show_base.simps) simp
  with d show "is_idx_field (idx_field n)" by (auto simp: is_idx_field_def idx_field_def split: option.splits)
  have "tab \<notin> set (show_dec k)" for k using d [of k] digit_of_tab by (auto simp: list_all_iff)
  then show "tab \<notin> set (idx_field n)" by (auto simp: idx_field_def tab_def split: option.splits)
qed

lemma split_tab_join: "tab \<notin> set a \<Longrightarrow> split_tab (a @ tab # r) = a # split_tab r"
  and split_tab_single: "tab \<notin> set a \<Longrightarrow> split_tab a = [a]"
  by (induction a) auto

lemma show_dec_not_dash: "show_dec k \<noteq> ''-''"
proof
  assume "show_dec k = ''-''"
  with value_of_dec [of k] show False by (simp add: value_of_def push_digit_def digit_of_def)
qed

lemma node_symbol_of_node: "is_node n \<Longrightarrow> local_idx_of n = None \<Longrightarrow> node_symbol (symbol_of n) = Ok n"
  and node_local_of_node: "local_idx_of n = Some i \<Longrightarrow> node_local (symbol_of n) (ucast i) = Ok n"
proof -
  have s: "symbol_of n + 1 = drop_bit 16 (raw n)" by (simp add: symbol_of_def)
  have d: "drop_bit 48 (drop_bit 16 (raw n)) = 0"
    by (rule bit_word_eqI) (simp add: bit_simps)
  have m: "(0xffff :: u64) = mask 16" by (simp add: mask_eq_exp_minus_1)
  have r: "push_bit 16 (drop_bit 16 (raw n)) OR (raw n AND 0xffff) = raw n"
    unfolding m by (rule bit_word_eqI) (auto simp: bit_simps)
  show "node_symbol (symbol_of n) = Ok n" if "local_idx_of n = None"
    using r d local_idx_of_None [OF that] by (simp add: node_symbol_def s)
  have "raw n AND 0xffff \<le> (0xffff :: u64)" by (rule word_and_le1)
  then have "raw n AND 0xffff < 0x10000" by (simp add: word_le_nat_alt word_less_nat_alt)
  then show "node_local (symbol_of n) (ucast i) = Ok n" if "local_idx_of n = Some i"
    using r d local_idx_of_Some [OF that] by (simp add: node_local_def s)
qed

lemma pts_node_fields: "is_node n \<Longrightarrow> pts_node (show_hex16 (symbol_of n)) (idx_field n) = Ok n"
proof -
  assume n: "is_node n"
  have a: "stoull 16 (drop 2 (show_hex16 (symbol_of n))) = Ok (symbol_of n)"
    using unat_lt_size [of "symbol_of n"] by (simp add: stoull_def value_of_hex16)
  have i: "stoull 10 (show_dec (unat i)) = Ok (ucast i)" for i :: u16
    using unat_lt_size [of i] by (simp add: stoull_def value_of_dec)
  show ?thesis
    using n node_symbol_of_node node_local_of_node
    by (cases "local_idx_of n") (simp_all add: pts_node_def a i idx_field_def show_dec_not_dash)
qed

lemma pts_entry_line: "pts_entry (pts_line (n, m)) =
    Some (show_hex16 (symbol_of n), idx_field n, show_hex16 (symbol_of m), idx_field m)"
  by (simp add: pts_entry_def pts_line_def split_tab_join split_tab_single hex_field idx_field_ok)

text \<open>
  C24. A file with one line per pair of nodes, in the format SVF writes, is read back to exactly these
  pairs: every node that can be encoded survives, symbols and locals alike.
\<close>

theorem pts_lines_roundtrip:
  assumes "\<forall>(n, m)\<in>set ps. is_node n \<and> is_node m"
  shows "\<exists>out. for_each parse_pts_line (map pts_line ps) [] = Ok out \<and> set out = set ps"
proof -
  have "for_each parse_pts_line (map pts_line ps) es = Ok (fold List.insert ps es)" for es
    using assms
  proof (induction ps arbitrary: es)
    case (Cons p ps)
    obtain n m where p: "p = (n, m)" by (cases p)
    from Cons.prems have "is_node n" "is_node m" by (auto simp: p)
    then have "parse_pts_line (pts_line p) es = Ok (List.insert p es)"
      by (simp add: p parse_pts_line_def pts_entry_line pts_node_fields)
    with Cons show ?case by simp
  qed simp
  moreover have "set (fold List.insert ps es) = set ps \<union> set es" for es
    by (induction ps arbitrary: es) auto
  ultimately show ?thesis by simp
qed

section \<open>Trace sites\<close>



section \<open>The check\<close>

text \<open>The node a traced value stands for, and what it means that the solution covers a traced edge.\<close>

definition value_node :: "'w trace_world \<Rightarrow> (u64 \<times> node) list \<Rightarrow> u64 \<Rightarrow> node option" where
  "value_node tw sites v =
     (case map_of sites v of
        Some n \<Rightarrow> Some n
      | None \<Rightarrow> (case resolve_value tw v of
          InSymbol (Some start) \<Rightarrow> (case node_symbol start of Ok n \<Rightarrow> Some n | _ \<Rightarrow> None)
        | _ \<Rightarrow> None))"

definition covered :: "'w trace_world \<Rightarrow> (u64 \<times> node) list \<Rightarrow> points_to_edges \<Rightarrow> u64 \<times> u64 \<Rightarrow> bool" where
  "covered tw sites static_edges te \<longleftrightarrow>
     (let a = push_bit 1 (drop_bit 1 (fst te)) in
      a = 0 \<or> (\<exists>site_node. map_of sites a = Some site_node \<and>
        (\<forall>n. value_node tw sites (snd te) = Some n \<longrightarrow> (site_node, n) \<in> set static_edges)))"

lemma note_edge_missing: "missing_edges (note_edge static_edges edge st) = [] \<longleftrightarrow>
    missing_edges st = [] \<and> edge \<in> set static_edges"
  by (auto simp: note_edge_def List.insert_def)

lemma check_edge_ok:
  assumes "check_edge c api tw sites static_edges te st = Ok st'" and "missing_edges st' = []"
  shows "missing_edges st = [] \<and> covered tw sites static_edges te"
proof (cases "push_bit 1 (drop_bit 1 (fst te)) = 0")
  case True
  with assms show ?thesis by (simp add: check_edge_def covered_def Let_def)
next
  case False
  with assms(1) obtain site_node where s: "map_of sites (push_bit 1 (drop_bit 1 (fst te))) = Some site_node"
    by (auto simp: check_edge_def Let_def split: option.splits)
  show ?thesis
  proof (cases "map_of sites (snd te)")
    case (Some n)
    with assms False s show ?thesis
      by (auto simp: check_edge_def covered_def value_node_def note_edge_missing Let_def)
  next
    case None
    with assms False s show ?thesis
      by (cases "resolve_value tw (snd te)")
        (auto simp: check_edge_def covered_def value_node_def note_edge_missing Let_def ok_iff)
  qed
qed

lemma check_edges_ok:
  "for_each (check_edge c api tw sites static_edges) tes st = Ok st' \<Longrightarrow> missing_edges st' = [] \<Longrightarrow>
    missing_edges st = [] \<and> (\<forall>te\<in>set tes. covered tw sites static_edges te)"
proof (induction tes arbitrary: st)
  case (Cons te tes)
  from Cons.prems(1) obtain st1 where 1: "check_edge c api tw sites static_edges te st = Ok st1"
    "for_each (check_edge c api tw sites static_edges) tes st1 = Ok st'" by (auto simp: ok_iff)
  from Cons.IH [OF 1(2) Cons.prems(2)] check_edge_ok [OF 1(1)] show ?case by simp
qed simp

lemma check_file_ok:
  "check_file c api tw sites static_edges f st = Ok st' \<Longrightarrow>
    for_each (check_edge c api tw sites static_edges) (tf_edges f) st = Ok st'"
  by (auto simp: check_file_def ok_iff split: option.splits)

lemma check_files_ok:
  "for_each (check_file c api tw sites static_edges) fs st = Ok st' \<Longrightarrow> missing_edges st' = [] \<Longrightarrow>
    missing_edges st = [] \<and> (\<forall>f\<in>set fs. \<forall>te\<in>set (tf_edges f). covered tw sites static_edges te)"
proof (induction fs arbitrary: st)
  case (Cons f fs)
  from Cons.prems(1) obtain st1 where
    1: "check_file c api tw sites static_edges f st = Ok st1"
    "for_each (check_file c api tw sites static_edges) fs st1 = Ok st'" by (auto simp: ok_iff)
  from Cons.IH [OF 1(2) Cons.prems(2)] check_edges_ok [OF check_file_ok [OF 1(1)]] show ?case by simp
qed simp

lemma check_ok:
  assumes "checkPointsToAgainstTrace c api tw static_edges listing dir w = Ok w'"
  shows "\<exists>ss sites w1 fs. object_sections api w = Ok ss \<and>
    for_each (sites_of_section tw (trace_site_section (SectionNames (isApple api w)))) ss ([], w) = Ok (sites, w1) \<and>
    listing = Ok fs \<and> (\<forall>f\<in>set fs. \<forall>te\<in>set (tf_edges f). covered tw sites static_edges te)"
proof -
  from assms obtain ss sites w1 fs st where s: "object_sections api w = Ok ss"
    "for_each (sites_of_section tw (trace_site_section (SectionNames (isApple api w)))) ss ([], w) = Ok (sites, w1)"
    "listing = Ok fs"
    "for_each (check_file c api tw sites static_edges) fs
       \<lparr>cs_world = w1, missing_edges = [], trace_edge_count = 0\<rparr> = Ok st" "missing_edges st = []"
    by (auto simp: checkPointsToAgainstTrace_def Let_def ok_iff)
  from check_files_ok [OF s(4,5)] s(1-3) show ?thesis by blast
qed

text \<open>
  C15. The check of the static solution against the traces only succeeds when every recorded edge
  with a site has a known site, and, if its value is a trace site or lies in a symbol, the pair of
  nodes is in the solution.
\<close>

theorem check_sound:
  assumes "checkPointsToAgainstTrace c api tw static_edges listing dir w = Ok w'"
  shows "\<exists>ss sites w1 fs. object_sections api w = Ok ss \<and>
    for_each (sites_of_section tw (trace_site_section (SectionNames (isApple api w)))) ss ([], w) = Ok (sites, w1) \<and>
    listing = Ok fs \<and> (\<forall>f\<in>set fs. \<forall>te\<in>set (tf_edges f). covered tw sites static_edges te)"
  using assms by (rule check_ok)


subsection \<open>An example\<close>

theorem pts_lines_roundtrip_witness:
  "\<exists>out. for_each parse_pts_line (map pts_line [(Node 0x10010001, Node 0x10010000)]) [] = Ok out \<and>
     set out = {(Node 0x10010001, Node 0x10010000)}"
  using pts_lines_roundtrip [of "[(Node 0x10010001, Node 0x10010000)]"] by (simp add: ex_nodes)

definition ex_tw :: "'w trace_world" where
  "ex_tw = \<lparr>site_size = 16, load_site = (\<lambda>a w. Ok ((0x1000, 0), w)), resolve_value = (\<lambda>_. Unresolved)\<rparr>"

definition ex_sites :: obj_section where
  "ex_sites = \<lparr>sec_name = ''GR_trace_site'', sec_start = 0x8000, sec_size = 0x28\<rparr>"



definition ex_site_api :: "unit object_api" where
  "ex_site_api = \<lparr>isApple = (\<lambda>_. False), object_sections = (\<lambda>_. Ok [ex_sites\<lparr>sec_size := 16\<rparr>]),
     symbolName = (\<lambda>_ w. Ok (''main'', w)), copyData = (\<lambda>n a w. Ok (replicate n 0, w)),
     resolvePointers = (\<lambda>n a w. Ok (replicate n 0, w))\<rparr>"

definition ex_trace :: trace_file where
  "ex_trace = \<lparr>tf_path = ''t'', tf_open_error = None, tf_edges = [(0x8001, 0x8000), (0, 7)], tf_read_error = None\<rparr>"

lemma ex_check: "checkPointsToAgainstTrace plain_codec ex_site_api ex_tw [(Node 0x10010001, Node 0x10010001)]
    (Ok [ex_trace]) ''d'' () = Ok ()"
proof -
  have n: "node_local 0x1000 0 = Ok (Node 0x10010001)" by (rule ex_local_node)
  have "load_sites (Suc (Suc k)) ex_tw 0x8010 0x8000 ([], ()) = Ok ([(0x8000, Node 0x10010001)], ())" for k
    by (simp add: ex_tw_def n)
  from this [of 15] have s: "sites_of_section ex_tw ''GR_trace_site'' (ex_sites\<lparr>sec_size := 16\<rparr>) ([], ()) =
      Ok ([(0x8000, Node 0x10010001)], ())"
    by (simp add: sites_of_section_def ex_sites_def)
  have b: "push_bit 1 (drop_bit (Suc 0) 0x8001) = (0x8000 :: u64)" by simp
  show ?thesis
    using s
    by (simp add: checkPointsToAgainstTrace_def ex_site_api_def SectionNames_def check_file_def ex_trace_def
        check_edge_def note_edge_def report_missing_def b)
qed

theorem check_sound_witness:
  "\<exists>sites w1. for_each (sites_of_section ex_tw ''GR_trace_site'') [ex_sites\<lparr>sec_size := 16\<rparr>] ([], ()) = Ok (sites, w1) \<and>
     covered (ex_tw :: unit trace_world) sites [(Node 0x10010001, Node 0x10010001)] (0x8001, 0x8000)"
proof -
  from check_sound [OF ex_check] obtain ss sites w1 fs where
    "object_sections ex_site_api () = Ok ss"
    "for_each (sites_of_section ex_tw (trace_site_section (SectionNames (isApple ex_site_api ())))) ss ([], ()) = Ok (sites, w1)"
    "Ok [ex_trace] = (Ok fs :: trace_file list result)"
    "\<forall>f\<in>set fs. \<forall>te\<in>set (tf_edges f). covered (ex_tw :: unit trace_world) sites [(Node 0x10010001, Node 0x10010001)] te"
    by blast
  note s = this
  have "ss = [ex_sites\<lparr>sec_size := 16\<rparr>]" using s(1) by (simp add: ex_site_api_def)
  moreover have "trace_site_section (SectionNames (isApple ex_site_api ())) = ''GR_trace_site''"
    by (simp add: ex_site_api_def SectionNames_def)
  moreover have "ex_trace \<in> set fs" "(0x8001, 0x8000) \<in> set (tf_edges ex_trace)"
    using s(3) by (auto simp: ex_trace_def)
  ultimately have "for_each (sites_of_section ex_tw ''GR_trace_site'') [ex_sites\<lparr>sec_size := 16\<rparr>] ([], ()) = Ok (sites, w1)"
    "covered (ex_tw :: unit trace_world) sites [(Node 0x10010001, Node 0x10010001)] (0x8001, 0x8000)"
    using s(2) s(4) [rule_format, of ex_trace "(0x8001, 0x8000)"] by simp_all
  then show ?thesis by (intro exI conjI)
qed







end
