(* ===== verification/Dlsym_Pages.thy ===== *)
theory Dlsym_Pages
  imports Emit_C_Spec "HOL-Library.Multiset"
begin

text \<open>
  \<open>src/BraceletReachability/dlsym_runtime.c\<close>, the function that instrumented code calls after
  \<open>dlsym\<close>: it records the symbol in a lock-free list of pages, which the points-to analysis later reads
  out of the core dump. Every atomic operation is one step of the model, and the threads interleave in
  any order. The C code asks for acquire, release and relaxed orderings; the model is sequentially
  consistent.
\<close>

section \<open>Memory\<close>

record dlsym_page =
  dp_next :: u64
  dp_count :: u64
  pointers :: "u64 list"

text \<open>\<open>*Dst\<close>, and the pages that \<open>mmap\<close> has handed out.\<close>

record dlsym_memory =
  dst :: u64
  dlsym_heap :: "u64 \<rightharpoonup> dlsym_page"

definition new_page :: "u64 \<Rightarrow> dlsym_page" where
  "new_page page = \<lparr>dp_next = page, dp_count = 0, pointers = replicate page_pointers 0\<rparr>"

section \<open>The insertion\<close>

text \<open>
  Where a call of \<open>braceletReachabilityDlsymPageInsert\<close> stands: before the first load, at the head of the
  loop, after it got a slot, before it allocates a page, before the compare and exchange, and after its
  return, with the slot it used.
\<close>

datatype insert_pc =
  Called (pc_symbol: u64)
| Looping (pc_symbol: u64) u64
| Claimed (pc_symbol: u64) u64 u64
| Full (pc_symbol: u64) u64
| Allocated (pc_symbol: u64) u64 u64
| Returned (pc_symbol: u64) u64 u64

fun returned :: "insert_pc \<Rightarrow> bool" where
  "returned (Returned x p i) \<longleftrightarrow> True"
| "returned _ \<longleftrightarrow> False"

text \<open>One step; the argument is the answer of \<open>mmap\<close>, should the step ask for a page.\<close>

fun insert_step :: "u64 option \<Rightarrow> insert_pc \<Rightarrow> dlsym_memory \<Rightarrow> (insert_pc \<times> dlsym_memory) result" where
  "insert_step mm (Called x) m = Ok (Looping x (dst m), m)"
| "insert_step mm (Looping x page) m =
     (if page \<noteq> 0 then
        case dlsym_heap m page of
          None \<Rightarrow> Abort
        | Some pg \<Rightarrow>
            let idx = dp_count pg;
                m' = m\<lparr>dlsym_heap := (dlsym_heap m)(page \<mapsto> pg\<lparr>dp_count := idx + 1\<rparr>)\<rparr>
            in if unat idx < page_pointers then Ok (Claimed x page idx, m') else Ok (Full x page, m')
      else Ok (Full x page, m))"
| "insert_step mm (Claimed x page idx) m =
     (case dlsym_heap m page of
        None \<Rightarrow> Abort
      | Some pg \<Rightarrow>
          Ok (Returned x page idx,
            m\<lparr>dlsym_heap := (dlsym_heap m)(page \<mapsto> pg\<lparr>pointers := (pointers pg)[unat idx := x]\<rparr>)\<rparr>))"
| "insert_step mm (Full x page) m =
     (case mm of
        None \<Rightarrow> Abort
      | Some a \<Rightarrow> Ok (Allocated x page a, m\<lparr>dlsym_heap := (dlsym_heap m)(a \<mapsto> new_page page)\<rparr>))"
| "insert_step mm (Allocated x page a) m =
     (if dst m = page then Ok (Looping x a, m\<lparr>dst := a\<rparr>)
      else Ok (Looping x (dst m), m\<lparr>dlsym_heap := (dlsym_heap m)(a := None)\<rparr>))"
| "insert_step mm (Returned x page idx) m = Ok (Returned x page idx, m)"

text \<open>One call on its own, for a number of steps.\<close>

fun alone :: "nat \<Rightarrow> u64 option \<Rightarrow> insert_pc \<Rightarrow> dlsym_memory \<Rightarrow> (insert_pc \<times> dlsym_memory) result" where
  "alone 0 mm pc m = Ok (pc, m)"
| "alone (Suc k) mm pc m = try_r (insert_step mm pc m) (\<lambda>(pc, m). alone k mm pc m)"

section \<open>Interleavings\<close>

record dlsym_process =
  dl_memory :: dlsym_memory
  dl_calls :: "insert_pc list"

text \<open>\<open>mmap\<close> answers with an address that is not in use, or fails.\<close>

definition mmap_ok :: "dlsym_memory \<Rightarrow> u64 option \<Rightarrow> bool" where
  "mmap_ok m mm \<longleftrightarrow> (case mm of None \<Rightarrow> True | Some a \<Rightarrow> a \<noteq> 0 \<and> dlsym_heap m a = None)"

inductive dlsym_step :: "dlsym_process \<Rightarrow> dlsym_process \<Rightarrow> bool" where
  dlsym_step: "i < length (dl_calls s) \<Longrightarrow> \<not> returned (dl_calls s ! i) \<Longrightarrow> mmap_ok (dl_memory s) mm \<Longrightarrow>
    insert_step mm (dl_calls s ! i) (dl_memory s) = Ok (pc, m) \<Longrightarrow>
    dlsym_step s (s\<lparr>dl_memory := m, dl_calls := (dl_calls s)[i := pc]\<rparr>)"

inductive_cases dlsym_stepE: "dlsym_step s s'"

definition dlsym_start :: "u64 list \<Rightarrow> dlsym_process" where
  "dlsym_start xs = \<lparr>dl_memory = \<lparr>dst = 0, dlsym_heap = (\<lambda>_. None)\<rparr>, dl_calls = map Called xs\<rparr>"

text \<open>The states after \<open>n\<close> steps.\<close>

inductive dlsym_run :: "u64 list \<Rightarrow> nat \<Rightarrow> dlsym_process \<Rightarrow> bool" for xs where
  run_start: "dlsym_run xs 0 (dlsym_start xs)"
| run_step: "dlsym_run xs n s \<Longrightarrow> dlsym_step s s' \<Longrightarrow> dlsym_run xs (Suc n) s'"

section \<open>The invariant\<close>

fun chain :: "dlsym_memory \<Rightarrow> u64 \<Rightarrow> u64 list \<Rightarrow> bool" where
  "chain m p [] \<longleftrightarrow> p = 0"
| "chain m p (q # qs) \<longleftrightarrow> p = q \<and> q \<noteq> 0 \<and> (\<exists>pg. dlsym_heap m q = Some pg \<and> chain m (dp_next pg) qs)"

definition slots_of :: "dlsym_memory \<Rightarrow> u64 \<Rightarrow> u64 list" where
  "slots_of m p = (case dlsym_heap m p of None \<Rightarrow> [] | Some pg \<Rightarrow> pointers pg)"

definition symbols_in :: "dlsym_memory \<Rightarrow> u64 list \<Rightarrow> u64 multiset" where
  "symbols_in m ps = mset (filter (\<lambda>x. x \<noteq> 0) (concat (map (slots_of m) ps)))"

text \<open>A page in the list: no slot is used beyond the count, and the count is that of the increments.\<close>

definition page_ok :: "nat \<Rightarrow> dlsym_memory \<Rightarrow> u64 \<Rightarrow> bool" where
  "page_ok n m p \<longleftrightarrow>
     (\<exists>pg. dlsym_heap m p = Some pg \<and> length (pointers pg) = page_pointers \<and> unat (dp_count pg) \<le> n \<and>
       (\<forall>i<page_pointers. unat (dp_count pg) \<le> i \<longrightarrow> pointers pg ! i = 0))"

fun pc_ok :: "dlsym_memory \<Rightarrow> u64 list \<Rightarrow> insert_pc \<Rightarrow> bool" where
  "pc_ok m ps (Looping x p) \<longleftrightarrow> p = 0 \<or> p \<in> set ps"
| "pc_ok m ps (Full x p) \<longleftrightarrow> p = 0 \<or> p \<in> set ps"
| "pc_ok m ps (Claimed x p i) \<longleftrightarrow> p \<in> set ps \<and> unat i < page_pointers \<and>
     (\<exists>pg. dlsym_heap m p = Some pg \<and> unat i < unat (dp_count pg) \<and> pointers pg ! unat i = 0)"
| "pc_ok m ps (Allocated x p a) \<longleftrightarrow> (p = 0 \<or> p \<in> set ps) \<and> a \<noteq> 0 \<and> a \<notin> set ps \<and> dlsym_heap m a = Some (new_page p)"
| "pc_ok m ps _ \<longleftrightarrow> True"

text \<open>What a call owns: the slot it claimed, or the page it allocated.\<close>

fun owns :: "insert_pc \<Rightarrow> (u64 \<times> u64 option) option" where
  "owns (Claimed x p i) = Some (p, Some i)"
| "owns (Allocated x p a) = Some (a, None)"
| "owns _ = None"

definition recorded :: "insert_pc list \<Rightarrow> u64 multiset" where
  "recorded cs = mset (filter (\<lambda>x. x \<noteq> 0) (map pc_symbol (filter returned cs)))"

definition dlsym_inv :: "nat \<Rightarrow> dlsym_process \<Rightarrow> u64 list \<Rightarrow> bool" where
  "dlsym_inv n s ps \<longleftrightarrow>
     chain (dl_memory s) (dst (dl_memory s)) ps \<and> distinct ps \<and> length ps \<le> n \<and>
     (\<forall>p\<in>set ps. page_ok n (dl_memory s) p) \<and>
     (\<forall>i<length (dl_calls s). pc_ok (dl_memory s) ps (dl_calls s ! i)) \<and>
     (\<forall>i<length (dl_calls s). \<forall>j<length (dl_calls s).
        i \<noteq> j \<longrightarrow> owns (dl_calls s ! i) \<noteq> None \<longrightarrow> owns (dl_calls s ! i) \<noteq> owns (dl_calls s ! j)) \<and>
     symbols_in (dl_memory s) ps = recorded (dl_calls s)"

subsection \<open>Memory changes\<close>

lemma chain_cong:
  "(\<And>p. p \<in> set ps \<Longrightarrow> map_option dp_next (dlsym_heap m' p) = map_option dp_next (dlsym_heap m p)) \<Longrightarrow>
   chain m' p ps = chain m p ps"
proof (induction ps arbitrary: p)
  case (Cons q ps)
  then have "map_option dp_next (dlsym_heap m' q) = map_option dp_next (dlsym_heap m q)"
    and "\<And>p. chain m' p ps = chain m p ps" by simp_all
  then show ?case by (cases "dlsym_heap m q"; cases "dlsym_heap m' q") auto
qed simp

lemma chain_keep:
  "chain m p ps \<Longrightarrow> (\<And>q. q \<in> set ps \<Longrightarrow> map_option dp_next (dlsym_heap m' q) = map_option dp_next (dlsym_heap m q)) \<Longrightarrow>
   chain m' p ps"
  by (simp cong: chain_cong)

lemma chain_zero: "chain m p ps \<Longrightarrow> p = 0 \<longleftrightarrow> ps = []"
  by (cases ps) auto

lemma chain_nonzero: "chain m p ps \<Longrightarrow> 0 \<notin> set ps"
  by (induction ps arbitrary: p) auto

lemma chain_head: "chain m p ps \<Longrightarrow> p = 0 \<or> p \<in> set ps"
  by (cases ps) auto

lemma symbols_in_cong:
  "(\<And>p. p \<in> set ps \<Longrightarrow> slots_of m' p = slots_of m p) \<Longrightarrow> symbols_in m' ps = symbols_in m ps"
  unfolding symbols_in_def by (simp cong: map_cong)

lemma filter_update:
  "i < length xs \<Longrightarrow> xs ! i = 0 \<Longrightarrow>
   mset (filter (\<lambda>x. x \<noteq> 0) (xs[i := x])) = mset (filter (\<lambda>x. x \<noteq> 0) xs) + (if x \<noteq> 0 then {#x#} else {#})"
  for xs :: "u64 list"
  by (simp add: mset_update)

lemma symbols_in_Cons: "symbols_in m (p # ps) = mset (filter (\<lambda>x. x \<noteq> 0) (slots_of m p)) + symbols_in m ps"
  and symbols_in_append: "symbols_in m (ps @ qs) = symbols_in m ps + symbols_in m qs"
  by (simp_all add: symbols_in_def)

lemma symbols_in_update:
  assumes "p \<in> set ps" and "distinct ps" and "\<And>q. q \<in> set ps \<Longrightarrow> q \<noteq> p \<Longrightarrow> slots_of m' q = slots_of m q"
    and "slots_of m' p = (slots_of m p)[i := x]" and "i < length (slots_of m p)" and "slots_of m p ! i = 0"
  shows "symbols_in m' ps = symbols_in m ps + (if x \<noteq> 0 then {#x#} else {#})"
proof -
  obtain us vs where ps: "ps = us @ p # vs" using assms(1) by (meson split_list)
  with assms(2,3) have "symbols_in m' us = symbols_in m us" "symbols_in m' vs = symbols_in m vs"
    by (auto intro!: symbols_in_cong)
  then show ?thesis
    using filter_update [OF assms(5,6), of x] by (simp add: symbols_in_Cons symbols_in_append ps assms(4))
qed

lemma recorded_update:
  "i < length cs \<Longrightarrow> \<not> returned (cs ! i) \<Longrightarrow>
   recorded (cs[i := pc]) = recorded cs + (if returned pc \<and> pc_symbol pc \<noteq> 0 then {#pc_symbol pc#} else {#})"
proof -
  assume i: "i < length cs" "\<not> returned (cs ! i)"
  then have "cs = take i cs @ cs ! i # drop (Suc i) cs" by (simp add: id_take_nth_drop)
  then have "recorded cs = recorded (take i cs) + recorded (drop (Suc i) cs)"
    using i(2) by (metis (no_types, lifting) filter.simps(2) filter_append map_append mset_append recorded_def)
  then show ?thesis using i(1) by (auto simp: upd_conv_take_nth_drop recorded_def)
qed

subsection \<open>Every step keeps it\<close>

lemma dlsym_inv_step:
  assumes inv: "dlsym_inv n s ps" and i: "i < length (dl_calls s)" and r: "\<not> returned (dl_calls s ! i)"
    and "chain m' (dst m') ps'" and "distinct ps'" and "length ps' \<le> Suc n"
    and "\<And>p. p \<in> set ps' \<Longrightarrow> page_ok (Suc n) m' p" and "pc_ok m' ps' pc'"
    and others: "\<And>j. j < length (dl_calls s) \<Longrightarrow> j \<noteq> i \<Longrightarrow> pc_ok (dl_memory s) ps (dl_calls s ! j) \<Longrightarrow>
      owns (dl_calls s ! i) \<noteq> None \<Longrightarrow> owns (dl_calls s ! i) \<noteq> owns (dl_calls s ! j) \<Longrightarrow>
      pc_ok m' ps' (dl_calls s ! j)"
    and others': "\<And>j. j < length (dl_calls s) \<Longrightarrow> j \<noteq> i \<Longrightarrow> pc_ok (dl_memory s) ps (dl_calls s ! j) \<Longrightarrow>
      owns (dl_calls s ! i) = None \<Longrightarrow> pc_ok m' ps' (dl_calls s ! j)"
    and own: "\<And>j. j < length (dl_calls s) \<Longrightarrow> j \<noteq> i \<Longrightarrow> pc_ok (dl_memory s) ps (dl_calls s ! j) \<Longrightarrow>
      owns pc' \<noteq> None \<Longrightarrow> owns pc' \<noteq> owns (dl_calls s ! j)"
    and sym: "symbols_in m' ps' = symbols_in (dl_memory s) ps +
      (if returned pc' \<and> pc_symbol pc' \<noteq> 0 then {#pc_symbol pc'#} else {#})"
  shows "dlsym_inv (Suc n) (s\<lparr>dl_memory := m', dl_calls := (dl_calls s)[i := pc']\<rparr>) ps'"
proof -
  have p: "\<And>j. j < length (dl_calls s) \<Longrightarrow> pc_ok (dl_memory s) ps (dl_calls s ! j)"
    and o: "\<And>j k. j < length (dl_calls s) \<Longrightarrow> k < length (dl_calls s) \<Longrightarrow> j \<noteq> k \<Longrightarrow>
      owns (dl_calls s ! j) \<noteq> None \<Longrightarrow> owns (dl_calls s ! j) \<noteq> owns (dl_calls s ! k)"
    and e: "symbols_in (dl_memory s) ps = recorded (dl_calls s)"
    using inv by (simp_all add: dlsym_inv_def)
  have "pc_ok m' ps' ((dl_calls s)[i := pc'] ! j)" if "j < length (dl_calls s)" for j
    using that assms(8) others [OF that] others' [OF that] p [OF that] o [OF i that]
    by (cases "j = i"; cases "owns (dl_calls s ! i) = None") (auto simp: i)
  moreover have "owns ((dl_calls s)[i := pc'] ! j) \<noteq> owns ((dl_calls s)[i := pc'] ! k)"
    if "j < length (dl_calls s)" "k < length (dl_calls s)" "j \<noteq> k" "owns ((dl_calls s)[i := pc'] ! j) \<noteq> None" for j k
  proof -
    have own': "owns pc' \<noteq> None \<longrightarrow> owns pc' \<noteq> owns (dl_calls s ! l)" if "l < length (dl_calls s)" "l \<noteq> i" for l
      using own [OF that p [OF that(1)]] by blast
    show ?thesis
    proof (cases "j = i")
      case True
      with that own' [of k] i show ?thesis by simp
    next
      case j: False
      show ?thesis
      proof (cases "k = i")
        case True
        with that own' [of j] j i show ?thesis by (cases "owns pc'") auto
      next
        case False
        with that j o [of j k] show ?thesis by simp
      qed
    qed
  qed
  ultimately show ?thesis
    using assms(4-7) sym e by (simp add: dlsym_inv_def recorded_update [OF i r])
qed

lemma page_ok_mono: "page_ok n m p \<Longrightarrow> page_ok (Suc n) m p"
  by (auto simp: page_ok_def)

lemma page_ok_cong: "dlsym_heap m' p = dlsym_heap m p \<Longrightarrow> page_ok n m' p = page_ok n m p"
  by (simp add: page_ok_def)

lemma pc_ok_new_page:
  "pc_ok m ps pc \<Longrightarrow> dlsym_heap m a = None \<Longrightarrow> pc_ok (m\<lparr>dlsym_heap := (dlsym_heap m)(a \<mapsto> pg)\<rparr>) ps pc"
  by (cases pc) auto

lemma pc_ok_free_page:
  "pc_ok m ps pc \<Longrightarrow> a \<notin> set ps \<Longrightarrow> owns pc \<noteq> Some (a, None) \<Longrightarrow>
   pc_ok (m\<lparr>dlsym_heap := (dlsym_heap m)(a := None)\<rparr>) ps pc"
  by (cases pc) auto

lemma pc_ok_publish: "pc_ok m ps pc \<Longrightarrow> owns pc \<noteq> Some (a, None) \<Longrightarrow> pc_ok (m\<lparr>dst := a\<rparr>) (a # ps) pc"
  by (cases pc) auto

lemma unat_suc: "unat c \<le> n \<Longrightarrow> Suc n < 2 ^ 64 \<Longrightarrow> unat (c + 1) = Suc (unat c)" for c :: u64
  by (subst unat_add_lem [THEN iffD1]) simp_all

lemma pc_ok_count:
  "pc_ok m ps pc \<Longrightarrow> p \<in> set ps \<Longrightarrow> dlsym_heap m p = Some pg \<Longrightarrow> unat (dp_count pg + 1) = Suc (unat (dp_count pg)) \<Longrightarrow>
   pc_ok (m\<lparr>dlsym_heap := (dlsym_heap m)(p \<mapsto> pg\<lparr>dp_count := dp_count pg + 1\<rparr>)\<rparr>) ps pc"
  by (cases pc) auto

lemma unat_neq: "k \<noteq> i \<Longrightarrow> unat k \<noteq> unat i" for k i :: u64
  by (simp add: word_unat_eq_iff)

lemma pc_ok_slot:
  "pc_ok m ps pc \<Longrightarrow> p \<in> set ps \<Longrightarrow> dlsym_heap m p = Some pg \<Longrightarrow> owns pc \<noteq> Some (p, Some i) \<Longrightarrow>
   pc_ok (m\<lparr>dlsym_heap := (dlsym_heap m)(p \<mapsto> pg\<lparr>pointers := (pointers pg)[unat i := x]\<rparr>)\<rparr>) ps pc"
  by (cases pc) (auto simp: nth_list_update dest: unat_neq)

text \<open>One call is about to make a step under the invariant.\<close>

definition steps_to ::
  "nat \<Rightarrow> dlsym_process \<Rightarrow> u64 list \<Rightarrow> nat \<Rightarrow> u64 option \<Rightarrow> insert_pc \<Rightarrow> dlsym_memory \<Rightarrow> bool" where
  "steps_to n s ps i mm pc' m' \<longleftrightarrow> dlsym_inv n s ps \<and> i < length (dl_calls s) \<and>
     \<not> returned (dl_calls s ! i) \<and> mmap_ok (dl_memory s) mm \<and> Suc n < 2 ^ 64 \<and>
     insert_step mm (dl_calls s ! i) (dl_memory s) = Ok (pc', m')"

abbreviation after_step :: "dlsym_process \<Rightarrow> nat \<Rightarrow> insert_pc \<Rightarrow> dlsym_memory \<Rightarrow> dlsym_process" where
  "after_step s i pc' m' \<equiv> s\<lparr>dl_memory := m', dl_calls := (dl_calls s)[i := pc']\<rparr>"

lemma steps_to_parts:
  assumes "steps_to n s ps i mm pc' m'"
  shows "dlsym_inv n s ps" "i < length (dl_calls s)" "\<not> returned (dl_calls s ! i)"
  using assms by (simp_all add: steps_to_def)

lemma steps_to_facts:
  assumes "steps_to n s ps i mm pc' m'"
  shows "insert_step mm (dl_calls s ! i) (dl_memory s) = Ok (pc', m')" "mmap_ok (dl_memory s) mm"
    "Suc n < 2 ^ 64" "chain (dl_memory s) (dst (dl_memory s)) ps" "distinct ps" "length ps \<le> n"
    "length ps \<le> Suc n" "\<And>p. p \<in> set ps \<Longrightarrow> page_ok n (dl_memory s) p"
    "\<And>p. p \<in> set ps \<Longrightarrow> page_ok (Suc n) (dl_memory s) p" "pc_ok (dl_memory s) ps (dl_calls s ! i)"
  using assms page_ok_mono by (auto simp: steps_to_def dlsym_inv_def)

lemma step_called:
  assumes st: "steps_to n s ps i mm pc' m'" and Called: "dl_calls s ! i = Called y"
  shows "dlsym_inv (Suc n) (after_step s i pc' m') ps"
proof -
  note step = dlsym_inv_step [OF steps_to_parts [OF st]]
  note steps = steps_to_facts [OF st]
  have e: "pc' = Looping y (dst (dl_memory s))" "m' = dl_memory s" using steps(1) Called by auto
  show ?thesis by (rule step) (use steps chain_head [OF steps(4)] in \<open>auto simp: e Called\<close>)
qed

lemma step_looping_end:
  assumes st: "steps_to n s ps i mm pc' m'" and Looping: "dl_calls s ! i = Looping y 0"
  shows "dlsym_inv (Suc n) (after_step s i pc' m') ps"
proof -
  note step = dlsym_inv_step [OF steps_to_parts [OF st]]
  note steps = steps_to_facts [OF st]
  have e: "pc' = Full y 0" "m' = dl_memory s" using steps(1) Looping by auto
  show ?thesis by (rule step) (use steps in \<open>auto simp: e Looping\<close>)
qed

lemma step_looping:
  assumes st: "steps_to n s ps i mm pc' m'" and Looping: "dl_calls s ! i = Looping y p" and False: "p \<noteq> 0"
  shows "dlsym_inv (Suc n) (after_step s i pc' m') ps"
proof -
  let ?m = "dl_memory s"
  note step = dlsym_inv_step [OF steps_to_parts [OF st]]
  note steps = steps_to_facts [OF st]
  have ps: "p \<in> set ps" using steps(10) Looping False by simp
  then obtain g where g: "dlsym_heap ?m p = Some g" "length (pointers g) = page_pointers" "unat (dp_count g) \<le> n"
    and z: "\<And>i. i < page_pointers \<Longrightarrow> unat (dp_count g) \<le> i \<Longrightarrow> pointers g ! i = 0"
    using steps(8) [OF ps] by (auto simp: page_ok_def)
  have c: "unat (dp_count g + 1) = Suc (unat (dp_count g))" using g(3) steps(3) by (rule unat_suc)
  have m': "m' = ?m\<lparr>dlsym_heap := (dlsym_heap ?m)(p \<mapsto> g\<lparr>dp_count := dp_count g + 1\<rparr>)\<rparr>"
    and e: "pc' = (if unat (dp_count g) < page_pointers then Claimed y p (dp_count g) else Full y p)"
    using steps(1) False g(1) by (auto simp: Looping Let_def split: if_splits)
  show ?thesis
  proof (rule step)
    have "chain m' (dst ?m) ps" using steps(4) by (rule chain_keep) (use g in \<open>auto simp: m'\<close>)
    then show "chain m' (dst m') ps" by (simp add: m')
    show "page_ok (Suc n) m' q" if "q \<in> set ps" for q
      using steps(9) [OF that] g z c by (cases "q = p") (auto simp: page_ok_def m')
    show "pc_ok m' ps pc'" using ps g z c by (auto simp: e m')
    show "symbols_in m' ps = symbols_in ?m ps + (if returned pc' \<and> pc_symbol pc' \<noteq> 0 then {#pc_symbol pc'#} else {#})"
      using g(1) by (simp add: e) (rule symbols_in_cong, simp add: slots_of_def m')
    show "owns pc' \<noteq> owns (dl_calls s ! j)" if "pc_ok ?m ps (dl_calls s ! j)" "owns pc' \<noteq> None" for j
      using that g(1) by (cases "dl_calls s ! j") (auto simp: e split: if_splits)
  qed (use steps(5,7) Looping pc_ok_count [OF _ ps g(1) c] in \<open>auto simp: m'\<close>)
qed

lemma step_claimed:
  assumes st: "steps_to n s ps i mm pc' m'" and Claimed: "dl_calls s ! i = Claimed y p k"
  shows "dlsym_inv (Suc n) (after_step s i pc' m') ps"
proof -
  let ?m = "dl_memory s"
  note step = dlsym_inv_step [OF steps_to_parts [OF st]]
  note steps = steps_to_facts [OF st]
  obtain g where ps: "p \<in> set ps" and k: "unat k < page_pointers" "unat k < unat (dp_count g)"
    and g: "dlsym_heap ?m p = Some g" "pointers g ! unat k = 0" using steps(10) Claimed by auto
  have len: "length (pointers g) = page_pointers" using steps(8) [OF ps] g(1) by (simp add: page_ok_def)
  have m': "m' = ?m\<lparr>dlsym_heap := (dlsym_heap ?m)(p \<mapsto> g\<lparr>pointers := (pointers g)[unat k := y]\<rparr>)\<rparr>"
    and e: "pc' = Returned y p k"
    using steps(1) g(1) by (auto simp: Claimed)
  show ?thesis
  proof (rule step)
    have "chain m' (dst ?m) ps" using steps(4) by (rule chain_keep) (use g in \<open>auto simp: m'\<close>)
    then show "chain m' (dst m') ps" by (simp add: m')
    show "page_ok (Suc n) m' q" if "q \<in> set ps" for q
      using steps(9) [OF that] g k by (cases "q = p") (auto simp: page_ok_def m' nth_list_update)
    show "symbols_in m' ps = symbols_in ?m ps + (if returned pc' \<and> pc_symbol pc' \<noteq> 0 then {#pc_symbol pc'#} else {#})"
      using symbols_in_update [OF ps steps(5), of m' ?m "unat k" y] g k len by (simp add: e slots_of_def m')
    show "pc_ok m' ps (dl_calls s ! j)"
      if "pc_ok ?m ps (dl_calls s ! j)" "owns (dl_calls s ! i) \<noteq> owns (dl_calls s ! j)" for j
      using that pc_ok_slot [OF _ ps g(1)] by (auto simp: m' Claimed)
  qed (use steps(5,7) Claimed in \<open>auto simp: e\<close>)
qed

lemma step_full:
  assumes st: "steps_to n s ps i mm pc' m'" and Full: "dl_calls s ! i = Full y p"
  shows "dlsym_inv (Suc n) (after_step s i pc' m') ps"
proof -
  let ?m = "dl_memory s"
  note step = dlsym_inv_step [OF steps_to_parts [OF st]]
  note steps = steps_to_facts [OF st]
  obtain a where a: "mm = Some a" and m': "m' = ?m\<lparr>dlsym_heap := (dlsym_heap ?m)(a \<mapsto> new_page p)\<rparr>"
    and e: "pc' = Allocated y p a"
    using steps(1) Full by (auto split: option.splits)
  have f: "a \<noteq> 0" "dlsym_heap ?m a = None" using steps(2) a by (simp_all add: mmap_ok_def)
  have ne: "q \<noteq> a" if "q \<in> set ps" for q using steps(8) [OF that] f(2) by (auto simp: page_ok_def)
  show ?thesis
  proof (rule step)
    have "chain m' (dst ?m) ps" using steps(4) by (rule chain_keep) (use ne in \<open>auto simp: m'\<close>)
    then show "chain m' (dst m') ps" by (simp add: m')
    show "page_ok (Suc n) m' q" if "q \<in> set ps" for q
      using steps(9) [OF that] ne [OF that] by (simp add: page_ok_def m')
    show "symbols_in m' ps = symbols_in ?m ps + (if returned pc' \<and> pc_symbol pc' \<noteq> 0 then {#pc_symbol pc'#} else {#})"
      using ne by (simp add: e) (rule symbols_in_cong, simp add: slots_of_def m')
    show "owns pc' \<noteq> owns (dl_calls s ! j)" if "pc_ok ?m ps (dl_calls s ! j)" for j
      using that f(2) by (cases "dl_calls s ! j") (auto simp: e)
    show "pc_ok m' ps pc'" using steps(10) ne f by (auto simp: e m' Full)
  qed (use steps(5,7) Full pc_ok_new_page [OF _ f(2)] in \<open>auto simp: m'\<close>)
qed

lemma step_published:
  assumes st: "steps_to n s ps i mm pc' m'" and Allocated: "dl_calls s ! i = Allocated y p a"
    and True: "dst (dl_memory s) = p"
  shows "dlsym_inv (Suc n) (after_step s i pc' m') (a # ps)"
proof -
  let ?m = "dl_memory s"
  note step = dlsym_inv_step [OF steps_to_parts [OF st]]
  note steps = steps_to_facts [OF st]
  have a: "a \<noteq> 0" "a \<notin> set ps" "dlsym_heap ?m a = Some (new_page p)" using steps(10) Allocated by auto
  have m': "m' = ?m\<lparr>dst := a\<rparr>" and e: "pc' = Looping y a" using steps(1) True by (auto simp: Allocated)
  show ?thesis
  proof (rule step)
    have "chain m' (dst ?m) ps" using steps(4) by (rule chain_keep) (simp add: m')
    then show "chain m' (dst m') (a # ps)" using a True by (simp add: m' new_page_def)
    show "page_ok (Suc n) m' q" if "q \<in> set (a # ps)" for q
      using that steps(9) a(3) by (cases "q = a") (auto simp: page_ok_def m' new_page_def)
    show "symbols_in m' (a # ps) = symbols_in ?m ps + (if returned pc' \<and> pc_symbol pc' \<noteq> 0 then {#pc_symbol pc'#} else {#})"
      using a(3) symbols_in_cong [of ps m' ?m] by (simp add: e symbols_in_Cons slots_of_def m' new_page_def)
    show "pc_ok m' (a # ps) (dl_calls s ! j)"
      if "pc_ok ?m ps (dl_calls s ! j)" "owns (dl_calls s ! i) \<noteq> owns (dl_calls s ! j)" for j
      using that pc_ok_publish by (auto simp: m' Allocated)
  qed (use steps(5,6) a Allocated in \<open>auto simp: e\<close>)
qed

lemma step_lost_race:
  assumes st: "steps_to n s ps i mm pc' m'" and Allocated: "dl_calls s ! i = Allocated y p a"
    and False: "dst (dl_memory s) \<noteq> p"
  shows "dlsym_inv (Suc n) (after_step s i pc' m') ps"
proof -
  let ?m = "dl_memory s"
  note step = dlsym_inv_step [OF steps_to_parts [OF st]]
  note steps = steps_to_facts [OF st]
  have a: "a \<noteq> 0" "a \<notin> set ps" "dlsym_heap ?m a = Some (new_page p)" using steps(10) Allocated by auto
  have m': "m' = ?m\<lparr>dlsym_heap := (dlsym_heap ?m)(a := None)\<rparr>" and e: "pc' = Looping y (dst ?m)"
    using steps(1) False by (auto simp: Allocated)
  have ne: "q \<noteq> a" if "q \<in> set ps" for q using that a(2) by auto
  show ?thesis
  proof (rule step)
    have "chain m' (dst ?m) ps" using steps(4) by (rule chain_keep) (use ne in \<open>auto simp: m'\<close>)
    then show "chain m' (dst m') ps" by (simp add: m')
    show "page_ok (Suc n) m' q" if "q \<in> set ps" for q
      using steps(9) [OF that] ne [OF that] by (simp add: page_ok_def m')
    show "symbols_in m' ps = symbols_in ?m ps + (if returned pc' \<and> pc_symbol pc' \<noteq> 0 then {#pc_symbol pc'#} else {#})"
      using ne by (simp add: e) (rule symbols_in_cong, simp add: slots_of_def m')
    show "pc_ok m' ps (dl_calls s ! j)"
      if "pc_ok ?m ps (dl_calls s ! j)" "owns (dl_calls s ! i) \<noteq> owns (dl_calls s ! j)" for j
      using that pc_ok_free_page [OF _ a(2)] by (auto simp: m' Allocated)
  qed (use steps(5,7) chain_head [OF steps(4)] Allocated in \<open>auto simp: e\<close>)
qed

lemma dlsym_inv_ok:
  assumes inv: "dlsym_inv n s ps" and n: "Suc n < 2 ^ 64" and st: "dlsym_step s s'"
  shows "\<exists>ps'. dlsym_inv (Suc n) s' ps'"
proof -
  from st obtain i mm pc' m' where "i < length (dl_calls s)" and r: "\<not> returned (dl_calls s ! i)"
    and "mmap_ok (dl_memory s) mm" "insert_step mm (dl_calls s ! i) (dl_memory s) = Ok (pc', m')"
    and s': "s' = after_step s i pc' m'"
    by (auto elim: dlsym_stepE)
  with inv n have st: "steps_to n s ps i mm pc' m'" by (simp add: steps_to_def)
  show ?thesis
    unfolding s'
  proof (cases "dl_calls s ! i")
    case (Looping y p)
    then show "\<exists>ps'. dlsym_inv (Suc n) (after_step s i pc' m') ps'"
      using step_looping_end [OF st] step_looping [OF st] by (cases "p = 0") blast+
  next
    case (Allocated y p a)
    then show "\<exists>ps'. dlsym_inv (Suc n) (after_step s i pc' m') ps'"
      using step_published [OF st] step_lost_race [OF st] by blast
  next
    case (Returned y p k)
    then show "\<exists>ps'. dlsym_inv (Suc n) (after_step s i pc' m') ps'" using r by simp
  qed (use step_called [OF st] step_claimed [OF st] step_full [OF st] in blast)+
qed

lemma dlsym_run_inv: "dlsym_run xs n s \<Longrightarrow> n < 2 ^ 64 \<Longrightarrow> \<exists>ps. dlsym_inv n s ps"
proof (induction rule: dlsym_run.induct)
  case run_start
  have r: "recorded (map Called xs) = {#}" by (induction xs) (simp_all add: recorded_def)
  have "dlsym_inv 0 (dlsym_start xs) []"
    by (simp add: dlsym_inv_def dlsym_start_def r symbols_in_def)
  then show ?case ..
next
  case (run_step n s s')
  then show ?case using dlsym_inv_ok by fastforce
qed

section \<open>Reading the pages back\<close>

text \<open>
  The core dump shows the pages as they were: what the analysis reads at the addresses of a page is
  its next pointer, its count and its slots.
\<close>

definition shows_memory :: "'w object_api \<Rightarrow> 'w \<Rightarrow> dlsym_memory \<Rightarrow> bool" where
  "shows_memory api w m \<longleftrightarrow>
     (\<forall>p pg. dlsym_heap m p = Some pg \<longrightarrow>
       copyData api 8 (p + 8) w = Ok (le64 (dp_count pg), w) \<and>
       resolvePointers api page_pointers (p + 16) w = Ok (pointers pg, w) \<and>
       resolvePointers api 1 p w = Ok ([dp_next pg], w))"

lemma filter_zero_tail:
  "(\<And>i. i < length xs \<Longrightarrow> k \<le> i \<Longrightarrow> xs ! i = 0) \<Longrightarrow>
   filter (\<lambda>x. x \<noteq> 0) (take (min k (length xs)) xs) = filter (\<lambda>x. x \<noteq> 0) xs" for xs :: "u64 list"
proof -
  assume z: "\<And>i. i < length xs \<Longrightarrow> k \<le> i \<Longrightarrow> xs ! i = 0"
  have "x = 0" if "x \<in> set (drop (min k (length xs)) xs)" for x
    using that z by (auto simp: in_set_conv_nth min_def split: if_splits)
  then have "filter (\<lambda>x. x \<noteq> 0) (drop (min k (length xs)) xs) = []"
    by (auto simp: filter_empty_conv)
  then show ?thesis by (metis append_Nil2 append_take_drop_id filter_append)
qed

lemma chain_page_list:
  assumes "chain m p ps" and "shows_memory api w m" and "\<And>q. q \<in> set ps \<Longrightarrow> page_ok n m q"
  shows "\<exists>ys. page_list api w p (length ps) ys \<and> mset ys = symbols_in m ps"
  using assms(1,3)
proof (induction ps arbitrary: p)
  case Nil
  have "page_list api w 0 0 []" by (rule page_nil)
  with Nil show ?case by (auto simp: symbols_in_def)
next
  case (Cons q ps)
  then obtain pg where q: "p = q" "q \<noteq> 0" "dlsym_heap m q = Some pg" "chain m (dp_next pg) ps" by auto
  with Cons.IH [OF q(4)] Cons.prems(2)
  obtain ys where ys: "page_list api w (dp_next pg) (length ps) ys" "mset ys = symbols_in m ps" by auto
  have ok: "length (pointers pg) = page_pointers"
    "\<And>i. i < page_pointers \<Longrightarrow> unat (dp_count pg) \<le> i \<Longrightarrow> pointers pg ! i = 0"
    using Cons.prems(2) [of q] q(3) by (auto simp: page_ok_def)
  have f: "filter (\<lambda>x. x \<noteq> 0) (take (min (unat (dp_count pg)) page_pointers) (pointers pg)) =
      filter (\<lambda>x. x \<noteq> 0) (pointers pg)"
    using filter_zero_tail [of "pointers pg" "unat (dp_count pg)"] ok by simp
  have "read64 (le64 (dp_count pg)) = dp_count pg" using read64_le64 [of "dp_count pg" "[]"] by simp
  with assms(2) q(3) f have "page_list api w q (Suc (length ps)) (filter (\<lambda>x. x \<noteq> 0) (pointers pg) @ ys)"
    using page_cons [OF q(2) _ _ _ ys(1), of "le64 (dp_count pg)" "pointers pg"]
    by (simp add: shows_memory_def)
  moreover have "mset (filter (\<lambda>x. x \<noteq> 0) (pointers pg) @ ys) = symbols_in m (q # ps)"
    using ys(2) q(3) by (simp add: symbols_in_Cons slots_of_def)
  ultimately show ?case using q(1) by auto
qed

text \<open>
  C14. However the calls interleave, nothing that \<open>dlsym\<close> returned is lost and nothing is
  made up: when the analysis walks the pages it finds in the core dump, it visits the symbols of exactly
  the calls that have returned, each as often as it was inserted, null symbols apart. The walk ends: the
  list has at most as many pages as steps were taken.
\<close>

theorem dlsym_recorded:
  assumes "dlsym_run xs n s" and "n < 2 ^ 64" and "shows_memory api w (dl_memory s)"
  shows "\<exists>ys. mset ys = recorded (dl_calls s) \<and>
    (\<forall>fuel (visit :: u64 \<Rightarrow> 'w \<times> 's \<Rightarrow> ('w \<times> 's) result) x. n < fuel \<and> (\<forall>p x. \<exists>x'. visit p (w, x) = Ok (w, x')) \<longrightarrow>
      dlsym_pages fuel api visit (dst (dl_memory s)) (w, x) = for_each visit ys (w, x))"
proof -
  obtain ps where inv: "dlsym_inv n s ps" using dlsym_run_inv [OF assms(1,2)] ..
  then obtain ys where ys: "page_list api w (dst (dl_memory s)) (length ps) ys"
    and m: "mset ys = symbols_in (dl_memory s) ps"
    using chain_page_list [OF _ assms(3), of "dst (dl_memory s)" ps n] by (auto simp: dlsym_inv_def)
  have r: "dlsym_pages fuel api visit (dst (dl_memory s)) (w, x) = for_each visit ys (w, x)"
    if "n < fuel" "\<forall>p x. \<exists>x'. visit p (w, x) = Ok (w, x')" for fuel visit x
  proof (rule dlsym_pages_list [OF ys])
    show "length ps < fuel" using that(1) inv by (simp add: dlsym_inv_def)
  qed (use that(2) in blast)
  show ?thesis
  proof (intro exI conjI allI impI)
    show "mset ys = recorded (dl_calls s)" using m inv by (simp add: dlsym_inv_def)
    fix fuel x and visit :: "u64 \<Rightarrow> 'w \<times> 's \<Rightarrow> ('w \<times> 's) result"
    assume "n < fuel \<and> (\<forall>p x. \<exists>x'. visit p (w, x) = Ok (w, x'))"
    then show "dlsym_pages fuel api visit (dst (dl_memory s)) (w, x) = for_each visit ys (w, x)"
      by (elim conjE) (rule r)
  qed
qed

section \<open>No call waits for another\<close>

definition finishes :: "nat \<Rightarrow> u64 \<Rightarrow> insert_pc \<Rightarrow> dlsym_memory \<Rightarrow> bool" where
  "finishes k a pc m \<longleftrightarrow> (\<exists>p i m'. alone k (Some a) pc m = Ok (Returned (pc_symbol pc) p i, m'))"

lemma finishes_returned: "finishes k a (Returned x p i) m"
  by (induction k) (auto simp: finishes_def)

lemma finishes_Suc:
  "finishes (Suc k) a (Called x) m = finishes k a (Looping x (dst m)) m"
  "finishes (Suc k) a (Looping x 0) m = finishes k a (Full x 0) m"
  "p \<noteq> 0 \<Longrightarrow> dlsym_heap m p = Some pg \<Longrightarrow> finishes (Suc k) a (Looping x p) m =
    finishes k a (if unat (dp_count pg) < page_pointers then Claimed x p (dp_count pg) else Full x p)
      (m\<lparr>dlsym_heap := (dlsym_heap m)(p \<mapsto> pg\<lparr>dp_count := dp_count pg + 1\<rparr>)\<rparr>)"
  "finishes (Suc k) a (Full x p) m =
    finishes k a (Allocated x p a) (m\<lparr>dlsym_heap := (dlsym_heap m)(a \<mapsto> new_page p)\<rparr>)"
  "finishes (Suc k) a (Allocated x p b) m =
    (if dst m = p then finishes k a (Looping x b) (m\<lparr>dst := b\<rparr>)
     else finishes k a (Looping x (dst m)) (m\<lparr>dlsym_heap := (dlsym_heap m)(b := None)\<rparr>))"
  by (simp_all add: finishes_def Let_def)

lemma finishes_claimed: "dlsym_heap m p = Some pg \<Longrightarrow> finishes (Suc k) a (Claimed x p i) m"
  using finishes_returned [of k a x p i] by (simp add: finishes_def)

lemma finishes_slot:
  "p \<noteq> 0 \<Longrightarrow> dlsym_heap m p = Some pg \<Longrightarrow> unat (dp_count pg) < page_pointers \<Longrightarrow>
   finishes (Suc (Suc k)) a (Looping x p) m"
  by (simp add: finishes_Suc finishes_claimed)

lemma finishes_published:
  "b \<noteq> 0 \<Longrightarrow> dst m = p \<Longrightarrow> dlsym_heap m b = Some (new_page p) \<Longrightarrow>
   finishes (Suc (Suc (Suc k))) a (Allocated x p b) m"
  using finishes_slot [of b "m\<lparr>dst := b\<rparr>" "new_page p"]
  by (simp add: finishes_Suc(5) new_page_def page_pointers_def)

lemma finishes_full:
  "a \<noteq> 0 \<Longrightarrow> dst m = p \<Longrightarrow> finishes (Suc (Suc (Suc (Suc k)))) a (Full x p) m"
  by (simp add: finishes_Suc(4) finishes_published)

text \<open>At the head of the loop with the current page.\<close>

lemma finishes_current:
  assumes "a \<noteq> 0" and "chain m (dst m) ps"
  shows "finishes (Suc (Suc (Suc (Suc (Suc k))))) a (Looping x (dst m)) m"
proof (cases ps)
  case Nil
  then have "dst m = 0" using assms(2) by simp
  then show ?thesis using assms(1) by (simp add: finishes_Suc(2) finishes_full)
next
  case (Cons q qs)
  then obtain pg where q: "dst m \<noteq> 0" "dlsym_heap m (dst m) = Some pg" using assms(2) by auto
  show ?thesis
  proof (cases "unat (dp_count pg) < page_pointers")
    case True
    with q show ?thesis by (intro finishes_slot) simp_all
  next
    case False
    with q assms(1) show ?thesis by (simp add: finishes_Suc(3) finishes_full)
  qed
qed

lemma finishes_allocated:
  assumes "a \<noteq> 0" and "chain m (dst m) ps" and "b \<noteq> 0" and "b \<notin> set ps" and "dlsym_heap m b = Some (new_page p)"
  shows "finishes (Suc (Suc (Suc (Suc (Suc (Suc k)))))) a (Allocated x p b) m"
proof (cases "dst m = p")
  case True
  with assms show ?thesis by (intro finishes_published) simp_all
next
  case False
  let ?m = "m\<lparr>dlsym_heap := (dlsym_heap m)(b := None)\<rparr>"
  have "chain ?m (dst ?m) ps" using assms(2) by simp (rule chain_keep, assumption, use assms(4) in auto)
  from finishes_current [OF assms(1) this] False show ?thesis by (simp add: finishes_Suc(5))
qed

lemma finishes_any_full:
  assumes "a \<noteq> 0" and "dlsym_heap m a = None" and "chain m (dst m) ps" and "a \<notin> set ps"
  shows "finishes (Suc (Suc (Suc (Suc (Suc (Suc (Suc k))))))) a (Full x p) m"
proof -
  let ?m = "m\<lparr>dlsym_heap := (dlsym_heap m)(a \<mapsto> new_page p)\<rparr>"
  have "chain ?m (dst ?m) ps" using assms(3) by simp (rule chain_keep, assumption, use assms(4) in auto)
  from finishes_allocated [OF assms(1) this assms(1,4)] show ?thesis by (simp add: finishes_Suc(4))
qed

lemma finishes_looping:
  assumes "a \<noteq> 0" and "dlsym_heap m a = None" and "chain m (dst m) ps" and "a \<notin> set ps"
    and "p \<noteq> 0 \<Longrightarrow> p \<in> set ps \<and> dlsym_heap m p \<noteq> None"
  shows "finishes (Suc (Suc (Suc (Suc (Suc (Suc (Suc (Suc k)))))))) a (Looping x p) m"
proof (cases "p = 0")
  case True
  then show ?thesis using finishes_any_full [OF assms(1-4)] by (simp add: finishes_Suc(2))
next
  case False
  then obtain g where g: "dlsym_heap m p = Some g" "p \<in> set ps" using assms(5) by blast
  show ?thesis
  proof (cases "unat (dp_count g) < page_pointers")
    case True
    with False g(1) show ?thesis by (rule finishes_slot)
  next
    case full: False
    let ?m = "m\<lparr>dlsym_heap := (dlsym_heap m)(p \<mapsto> g\<lparr>dp_count := dp_count g + 1\<rparr>)\<rparr>"
    have "chain ?m (dst ?m) ps" using assms(3) by simp (rule chain_keep, assumption, use g in auto)
    moreover have "dlsym_heap ?m a = None" using assms(2) g by auto
    ultimately show ?thesis
      using finishes_any_full [OF assms(1) _ _ assms(4), of ?m] full False g by (simp add: finishes_Suc(3))
  qed
qed

text \<open>
  C32. The insertion is obstruction-free: whatever state the other calls are in, a call that runs on its own
  from there returns after at most eight steps, given memory for a page, and keeps its symbol.
\<close>

theorem dlsym_alone:
  assumes "dlsym_run xs n s" and "n < 2 ^ 64" and "i < length (dl_calls s)"
    and "a \<noteq> 0" and "dlsym_heap (dl_memory s) a = None"
  shows "\<exists>p k m'. alone 8 (Some a) (dl_calls s ! i) (dl_memory s) = Ok (Returned (pc_symbol (dl_calls s ! i)) p k, m')"
proof -
  let ?m = "dl_memory s"
  obtain ps where inv: "dlsym_inv n s ps" using dlsym_run_inv [OF assms(1,2)] ..
  then have ch: "chain ?m (dst ?m) ps" and pc: "pc_ok ?m ps (dl_calls s ! i)"
    and pg: "\<And>p. p \<in> set ps \<Longrightarrow> page_ok n ?m p"
    using assms(3) by (simp_all add: dlsym_inv_def)
  have a: "a \<notin> set ps" using pg [of a] assms(5) by (auto simp: page_ok_def)
  note full = finishes_any_full [OF assms(4,5) ch a]
  have eight: "8 = Suc (Suc (Suc (Suc (Suc (Suc (Suc (Suc 0)))))))" by simp
  have "finishes 8 a (dl_calls s ! i) ?m"
  proof (cases "dl_calls s ! i")
    case (Called x)
    show ?thesis unfolding Called eight
      by (simp add: finishes_Suc(1) finishes_current [OF assms(4) ch])
  next
    case (Looping x p)
    with pc have "p \<noteq> 0 \<Longrightarrow> p \<in> set ps \<and> dlsym_heap ?m p \<noteq> None" using pg by (auto simp: page_ok_def)
    then show ?thesis unfolding Looping eight by (rule finishes_looping [OF assms(4,5) ch a])
  next
    case (Claimed x p k)
    with pc obtain g where "dlsym_heap ?m p = Some g" by auto
    then show ?thesis unfolding eight Claimed by (rule finishes_claimed)
  next
    case (Full x p)
    show ?thesis unfolding Full eight by (rule full)
  next
    case (Allocated x p b)
    with pc ch assms(4) show ?thesis unfolding eight by (auto intro!: finishes_allocated)
  next
    case (Returned x p k)
    show ?thesis unfolding Returned by (rule finishes_returned)
  qed
  then show ?thesis by (simp add: finishes_def)
qed


section \<open>An example\<close>

text \<open>Two calls; the second finds the page the first one published before it has used its slot.\<close>

definition ex_m1 :: dlsym_memory where
  "ex_m1 = \<lparr>dst = 0x4000, dlsym_heap = [0x4000 \<mapsto> \<lparr>dp_next = 0, dp_count = 1, pointers = replicate page_pointers 0\<rparr>]\<rparr>"

definition ex_dl :: dlsym_process where
  "ex_dl = \<lparr>dl_memory = ex_m1, dl_calls = [Claimed 5 0x4000 0, Called 7]\<rparr>"

lemma ex_dl_run: "dlsym_run [5, 7] 5 ex_dl"
proof -
  let ?s = "\<lambda>d h pc. \<lparr>dl_memory = \<lparr>dst = d, dlsym_heap = h\<rparr>, dl_calls = [pc, Called 7]\<rparr>"
  let ?p = "\<lparr>dp_next = 0, dp_count = 0, pointers = replicate page_pointers 0\<rparr>"
  have step: "dlsym_step (?s d h pc) (?s d' h' pc')"
    if "\<not> returned pc" "mmap_ok \<lparr>dst = d, dlsym_heap = h\<rparr> mm"
      "insert_step mm pc \<lparr>dst = d, dlsym_heap = h\<rparr> = Ok (pc', \<lparr>dst = d', dlsym_heap = h'\<rparr>)" for d h pc d' h' pc' mm
    using dlsym_step [of 0 "?s d h pc" mm pc' "\<lparr>dst = d', dlsym_heap = h'\<rparr>"] that by simp
  have "dlsym_run [5, 7] 0 (?s 0 Map.empty (Called 5))"
    using run_start [of "[5, 7]"] by (simp add: dlsym_start_def)
  then have "dlsym_run [5, 7] (Suc 0) (?s 0 Map.empty (Looping 5 0))"
    by (rule run_step) (rule step [where mm = None], simp_all add: mmap_ok_def)
  then have "dlsym_run [5, 7] (Suc (Suc 0)) (?s 0 Map.empty (Full 5 0))"
    by (rule run_step) (rule step [where mm = None], simp_all add: mmap_ok_def)
  then have "dlsym_run [5, 7] (Suc (Suc (Suc 0))) (?s 0 [0x4000 \<mapsto> ?p] (Allocated 5 0 0x4000))"
    by (rule run_step) (rule step [where mm = "Some 0x4000"], simp_all add: mmap_ok_def new_page_def)
  then have "dlsym_run [5, 7] (Suc (Suc (Suc (Suc 0)))) (?s 0x4000 [0x4000 \<mapsto> ?p] (Looping 5 0x4000))"
    by (rule run_step) (rule step [where mm = None], simp_all add: mmap_ok_def)
  then have "dlsym_run [5, 7] (Suc (Suc (Suc (Suc (Suc 0)))))
      (?s 0x4000 [0x4000 \<mapsto> ?p\<lparr>dp_count := 1\<rparr>] (Claimed 5 0x4000 0))"
    by (rule run_step) (rule step [where mm = None], simp_all add: mmap_ok_def page_pointers_def)
  then show ?thesis by (simp add: ex_dl_def ex_m1_def eval_nat_numeral)
qed

lemma ex_dl_returned: "dlsym_run [5, 7] 6 (ex_dl\<lparr>dl_memory := \<lparr>dst = 0x4000,
    dlsym_heap = [0x4000 \<mapsto> \<lparr>dp_next = 0, dp_count = 1, pointers = 5 # replicate 2045 0\<rparr>]\<rparr>,
    dl_calls := [Returned 5 0x4000 0, Called 7]\<rparr>)"
proof -
  have "(replicate page_pointers 0)[0 := 5 :: u64] = 5 # replicate 2045 0"
    by (simp add: page_pointers_def numeral_eq_Suc del: replicate.simps(2)) (simp add: numeral_eq_Suc)
  then have "insert_step None (dl_calls ex_dl ! 0) (dl_memory ex_dl) = Ok (Returned 5 0x4000 0, \<lparr>dst = 0x4000,
    dlsym_heap = [0x4000 \<mapsto> \<lparr>dp_next = 0, dp_count = 1, pointers = 5 # replicate 2045 0\<rparr>]\<rparr>)"
    by (simp add: ex_dl_def ex_m1_def)
  then have "dlsym_step ex_dl (ex_dl\<lparr>dl_memory := \<lparr>dst = 0x4000,
    dlsym_heap = [0x4000 \<mapsto> \<lparr>dp_next = 0, dp_count = 1, pointers = 5 # replicate 2045 0\<rparr>]\<rparr>,
    dl_calls := (dl_calls ex_dl)[0 := Returned 5 0x4000 0]\<rparr>)"
    by (intro dlsym_step [where mm = None and i = 0]) (simp_all add: ex_dl_def mmap_ok_def)
  from run_step [OF ex_dl_run this] show ?thesis by (simp add: ex_dl_def)
qed

definition ex_dl_api :: "unit object_api" where
  "ex_dl_api = page_api\<lparr>copyData := (\<lambda>n a w. Ok (le64 1, w)),
     resolvePointers := (\<lambda>n a w. Ok (if n = 1 then [0] else 5 # replicate 2045 0, w))\<rparr>"

theorem dlsym_recorded_witness:
  "dlsym_pages 7 ex_dl_api (\<lambda>p (w, s). Ok (w, s @ [p])) 0x4000 ((), []) = Ok ((), [5])"
proof -
  have "shows_memory ex_dl_api () \<lparr>dst = 0x4000,
    dlsym_heap = [0x4000 \<mapsto> \<lparr>dp_next = 0, dp_count = 1, pointers = 5 # replicate 2045 0\<rparr>]\<rparr>"
    by (simp add: shows_memory_def ex_dl_api_def page_pointers_def)
  with dlsym_recorded [OF ex_dl_returned, of ex_dl_api "()"]
  obtain ys where ys: "mset ys = {#5 :: u64#}"
    and r: "\<forall>fuel visit x. 6 < fuel \<and> (\<forall>p x. \<exists>x'. visit p ((), x) = Ok ((), x')) \<longrightarrow>
      dlsym_pages fuel ex_dl_api visit 0x4000 ((), x :: u64 list) = for_each visit ys ((), x)"
    by (auto simp: recorded_def)
  from ys have "ys = [5]" by (cases ys) auto
  with r [rule_format, of 7 "\<lambda>p (w, s). Ok (w, s @ [p])" "[]"] show ?thesis by simp
qed

theorem dlsym_alone_witness:
  "\<exists>p k m'. alone 8 (Some 0x8000) (Called 7) ex_m1 = Ok (Returned 7 p k, m')"
  using dlsym_alone [OF ex_dl_run, of 1 "0x8000"] by (simp add: ex_dl_def ex_m1_def)

end
