(* ===== verification/Trace_Simplify.thy ===== *)
theory Trace_Simplify
  imports Edge_Hash_Set_Inv
begin

text \<open>
  \<open>src/RuntimeFormat/bracelet-trace-simplify.cpp\<close>: the tool that merges trace files, the tables that
  \<open>EdgeHashSet\<close> left behind, into one file of distinct edges. A file is its bytes; the order in which
  the hash set is walked is a parameter, as are the answers of the operating system. A failed call
  aborts the process.
\<close>

section \<open>The program\<close>

record simplify_env =
  open_ok :: "string \<Rightarrow> bool"
  mmap_works :: "string \<Rightarrow> bool"
  fopen_ok :: "string \<Rightarrow> bool"
  fwrite_ok :: bool
  iterate :: "trace_edge list \<Rightarrow> trace_edge list"

definition edge_of_bytes :: "bytes \<Rightarrow> trace_edge" where
  "edge_of_bytes bs = \<lparr>trace_site = read64 bs, te_value = read64 (drop 8 bs)\<rparr>"

text \<open>The loop over one mapped file; a rest of less than sixteen bytes is not an edge.\<close>

function collect_edges :: "bytes \<Rightarrow> nat \<Rightarrow> trace_edge list \<Rightarrow> trace_edge list" where
  "collect_edges body i trace_edges =
     (if i + 16 \<le> length body then
        let e = edge_of_bytes (take 16 (drop i body))
        in collect_edges body (i + 16) (if trace_site e \<noteq> 0 then List.insert e trace_edges else trace_edges)
      else trace_edges)"
  by pat_completeness auto
termination
  by (relation "measure (\<lambda>(body, i, es). length body - i)") auto

declare collect_edges.simps [simp del]

text \<open>Mapping an empty file fails: \<open>mmap\<close> rejects the length 0.\<close>

definition read_input ::
  "simplify_env \<Rightarrow> (string \<rightharpoonup> bytes) \<Rightarrow> string \<Rightarrow> trace_edge list \<Rightarrow> trace_edge list result" where
  "read_input env fs input trace_edges =
     (case fs input of
        None \<Rightarrow> Abort
      | Some body \<Rightarrow>
          assert_r (open_ok env input)
          (assert_r (body \<noteq> [] \<and> mmap_works env input)
            (Ok (collect_edges body 0 trace_edges))))"

definition simplify ::
  "simplify_env \<Rightarrow> string \<Rightarrow> string list \<Rightarrow> (string \<rightharpoonup> bytes) \<Rightarrow> (string \<rightharpoonup> bytes) result" where
  "simplify env output inputs fs =
     try_r (for_each (read_input env fs) inputs []) (\<lambda>trace_edges.
     assert_r (fopen_ok env output)
     (assert_r (fwrite_ok env)
       (Ok (fs(output \<mapsto> concat (map edge_bytes (iterate env trace_edges)))))))"

section \<open>What it computes\<close>

text \<open>The edges of a file, as the loop sees them.\<close>

function file_edges :: "bytes \<Rightarrow> trace_edge list" where
  "file_edges body =
     (if 16 \<le> length body then edge_of_bytes (take 16 body) # file_edges (drop 16 body) else [])"
  by pat_completeness auto
termination
  by (relation "measure length") auto

declare file_edges.simps [simp del]

lemma edge_of_bytes_bytes: "edge_of_bytes (edge_bytes e) = e"
  using read64_le64 [of "te_value e" "[]"] by (simp add: edge_of_bytes_def edge_bytes_def)

lemma length_edge_bytes [simp]: "length (edge_bytes e) = 16"
  by (simp add: edge_bytes_def)

lemma file_edges_table [simp]: "file_edges (concat (map edge_bytes es)) = es"
proof (induction es)
  case (Cons e es)
  have "file_edges (edge_bytes e @ concat (map edge_bytes es)) =
      edge_of_bytes (edge_bytes e) # file_edges (concat (map edge_bytes es))"
    by (subst file_edges.simps) simp
  with Cons show ?case by (simp add: edge_of_bytes_bytes)
qed (simp add: file_edges.simps)

lemma collect_edges_eq:
  "i \<le> length body \<Longrightarrow> set (collect_edges body i es) = set es \<union> {e \<in> set (file_edges (drop i body)). edge_present e} \<and>
   (distinct es \<longrightarrow> distinct (collect_edges body i es))"
proof (induction body i es rule: collect_edges.induct)
  case (1 body i es)
  let ?e = "edge_of_bytes (take 16 (drop i body))"
  let ?es = "if trace_site ?e \<noteq> 0 then List.insert ?e es else es"
  show ?case
  proof (cases "i + 16 \<le> length body")
    case True
    then have "collect_edges body i es = collect_edges body (i + 16) ?es"
      by (subst collect_edges.simps) (simp add: Let_def)
    moreover have "file_edges (drop i body) = ?e # file_edges (drop (i + 16) body)"
      using True by (subst file_edges.simps) (simp add: add.commute)
    ultimately show ?thesis using "1.IH" [OF True refl] True
      by (auto simp: edge_present_def split: if_splits)
  next
    case False
    then have "collect_edges body i es = es" "file_edges (drop i body) = []"
      by (subst collect_edges.simps file_edges.simps, simp)+
    then show ?thesis by simp
  qed
qed

lemma read_input_ok:
  "read_input env fs input es = Ok es' \<Longrightarrow> \<exists>body. fs input = Some body \<and> body \<noteq> [] \<and>
    set es' = set es \<union> {e \<in> set (file_edges body). edge_present e} \<and> (distinct es \<longrightarrow> distinct es')"
  using collect_edges_eq [of 0] by (auto simp: read_input_def ok_iff split: option.splits)

lemma read_inputs_ok:
  "for_each (read_input env fs) inputs es = Ok es' \<Longrightarrow> (\<forall>p\<in>set inputs. \<exists>body. fs p = Some body \<and> body \<noteq> []) \<and>
    set es' = set es \<union> {e. edge_present e \<and> (\<exists>p\<in>set inputs. e \<in> set (file_edges (the (fs p))))} \<and>
    (distinct es \<longrightarrow> distinct es')"
proof (induction inputs arbitrary: es)
  case (Cons p inputs)
  from Cons.prems obtain es1 where 1: "read_input env fs p es = Ok es1"
    and 2: "for_each (read_input env fs) inputs es1 = Ok es'"
    by (auto simp: try_r_ok)
  from read_input_ok [OF 1] obtain body where "fs p = Some body" "body \<noteq> []"
    "set es1 = set es \<union> {e \<in> set (file_edges body). edge_present e}" "distinct es \<longrightarrow> distinct es1" by blast
  with Cons.IH [OF 2] show ?case by auto
qed simp

text \<open>
  C31. The output holds each edge of the inputs exactly once and nothing else: empty slots of the
  tables are dropped, and no other file changes. It only succeeds when every input exists and is not empty.
\<close>

theorem simplify_edges:
  assumes "simplify env output inputs fs = Ok fs'" and "\<And>xs. mset (iterate env xs) = mset xs"
  shows "\<exists>es. fs' = fs(output \<mapsto> concat (map edge_bytes es)) \<and> distinct es \<and> file_edges (the (fs' output)) = es \<and>
    set es = {e. edge_present e \<and> (\<exists>p\<in>set inputs. e \<in> set (file_edges (the (fs p))))} \<and>
    (\<forall>p\<in>set inputs. \<exists>body. fs p = Some body \<and> body \<noteq> [])"
proof -
  from assms(1) obtain es where es: "for_each (read_input env fs) inputs [] = Ok es"
    and fs': "fs' = fs(output \<mapsto> concat (map edge_bytes (iterate env es)))"
    by (auto simp: simplify_def ok_iff)
  note ok = read_inputs_ok [OF es]
  have "set (iterate env es) = set es" using assms(2) [of es] by (rule mset_eq_setD)
  moreover have "distinct (iterate env es)"
    using ok mset_eq_imp_distinct_iff [OF assms(2) [of es]] by simp
  ultimately show ?thesis using ok by (intro exI [of _ "iterate env es"]) (simp add: fs')
qed

text \<open>
  C30. The tables of several processes, written by \<open>EdgeHashSet\<close>, are merged into the union of
  the edges that were traced: the keys in the output are those of all edges added to any of them.
\<close>

theorem simplify_tables:
  assumes "simplify env output inputs fs = Ok fs'" and "\<And>xs. mset (iterate env xs) = mset xs"
    and "\<And>p. p \<in> set inputs \<Longrightarrow> fs p = Some (concat (map edge_bytes (slots (table p))))"
    and "\<And>p. p \<in> set inputs \<Longrightarrow> EdgeHashSet_init truncate_ok base k = Ok (start p) \<and>
      for_each (\<lambda>e s. try_r (add_edge fnv truncate_ok e s) (\<lambda>(_, s). Ok s)) (traced p) (start p) = Ok (table p) \<and>
      (\<forall>e\<in>set (traced p). edge_ok_key e)"
    and "k < 31" and "off_t_limit truncate_ok"
  shows "edge_key ` set (file_edges (the (fs' output))) = (\<Union>p\<in>set inputs. edge_key ` set (traced p))"
proof -
  have k: "edge_key ` {e \<in> set (slots (table p)). edge_present e} = edge_key ` set (traced p)" if "p \<in> set inputs" for p
  proof -
    from assms(4) [OF that] have i: "EdgeHashSet_init truncate_ok base k = Ok (start p)"
      and f: "for_each (\<lambda>e s. try_r (add_edge fnv truncate_ok e s) (\<lambda>(_, s). Ok s)) (traced p) (start p) = Ok (table p)"
      and e: "\<forall>e\<in>set (traced p). edge_ok_key e" by blast+
    have "mset (map edge_key (filter edge_present (slots (table p)))) = mset_set (edge_key ` set (traced p))"
      using table_contents [OF i assms(5,6) e f] by blast
    then have "set (map edge_key (filter edge_present (slots (table p)))) = edge_key ` set (traced p)"
      by (metis finite_imageI finite_set finite_set_mset_mset_set set_mset_mset)
    then show ?thesis by auto
  qed
  from assms(1) obtain es where es: "for_each (read_input env fs) inputs [] = Ok es"
    and fs': "fs' = fs(output \<mapsto> concat (map edge_bytes (iterate env es)))"
    by (auto simp: simplify_def ok_iff)
  have "set (iterate env es) = set es" using assms(2) [of es] by (rule mset_eq_setD)
  also have "\<dots> = (\<Union>p\<in>set inputs. {e \<in> set (slots (table p)). edge_present e})"
    using read_inputs_ok [OF es] assms(3) by auto
  finally have "edge_key ` set (iterate env es) = (\<Union>p\<in>set inputs. edge_key ` {e \<in> set (slots (table p)). edge_present e})"
    by (simp add: image_UN)
  with k show ?thesis by (simp add: fs')
qed


section \<open>An example\<close>

text \<open>Two tables with the same two edges, in different order; and an edge recorded under both epochs.\<close>

definition ex_simplify :: simplify_env where
  "ex_simplify = \<lparr>open_ok = (\<lambda>_. True), mmap_works = (\<lambda>_. True), fopen_ok = (\<lambda>_. True), fwrite_ok = True, iterate = id\<rparr>"

definition ex_tables :: "string \<rightharpoonup> bytes" where
  "ex_tables = [''a'' \<mapsto> concat (map edge_bytes (slots ex_hs3)), ''b'' \<mapsto> concat (map edge_bytes (slots ex_hs3))]"

lemma ex_slots_nonempty: "concat (map edge_bytes (slots ex_hs3)) \<noteq> []"
  by (simp add: slots_def ex_hs3_def edge_bytes_def) (metis length_0_conv length_le64 zero_neq_numeral)

lemma ex_simplify_ok: "\<exists>fs'. simplify ex_simplify ''out'' [''a'', ''b''] ex_tables = Ok fs'"
  using ex_slots_nonempty by (simp add: simplify_def ex_simplify_def read_input_def ex_tables_def)

lemma ex_iterate: "mset (iterate ex_simplify xs) = mset xs"
  by (simp add: ex_simplify_def)

theorem simplify_edges_witness:
  "\<exists>es fs'. simplify ex_simplify ''out'' [''a'', ''b''] ex_tables = Ok fs' \<and>
    fs' = ex_tables(''out'' \<mapsto> concat (map edge_bytes es)) \<and> distinct es"
  using ex_simplify_ok simplify_edges [OF _ ex_iterate] by blast

theorem simplify_tables_witness:
  "\<exists>fs'. simplify ex_simplify ''out'' [''a'', ''b''] ex_tables = Ok fs' \<and>
    edge_key ` set (file_edges (the (fs' ''out''))) = {(1, 5), (1, 6)}"
proof -
  obtain fs' where fs': "simplify ex_simplify ''out'' [''a'', ''b''] ex_tables = Ok fs'" using ex_simplify_ok ..
  have r: "for_each (\<lambda>e s. try_r (add_edge (\<lambda>_. 0) (\<lambda>n. n \<le> 64) e s) (\<lambda>(_, s). Ok s))
      [ex_te 5, ex_te 6, ex_te 5] ex_hs0 = Ok ex_hs3"
    by (simp add: ex_add1 ex_add2 ex_add3)
  have "edge_key ` set (file_edges (the (fs' ''out''))) =
      (\<Union>p\<in>set [''a'', ''b'']. edge_key ` set [ex_te 5, ex_te 6, ex_te 5])"
    by (rule simplify_tables [OF fs' ex_iterate _ _ _ ex_limit, where table = "\<lambda>_. ex_hs3" and start = "\<lambda>_. ex_hs0"
          and fnv = "\<lambda>_. 0" and base = "Some ''/tmp''" and k = 1])
      (use r ex_init ex_te_ok in \<open>auto simp: ex_tables_def\<close>)
  with fs' show ?thesis by (auto simp: edge_key_def ex_te_def)
qed

text \<open>The tool compares whole words, so an edge that two tables hold under different epochs stays twice.\<close>

lemma simplify_keeps_epochs:
  "collect_edges (edge_bytes (edge_set_epoch (ex_te 5) False) @ edge_bytes (edge_set_epoch (ex_te 5) True)) 0 [] =
     [edge_set_epoch (ex_te 5) True, edge_set_epoch (ex_te 5) False]"
  by (simp add: collect_edges.simps [of _ 0] collect_edges.simps [of _ 16] collect_edges.simps [of _ 32] edge_of_bytes_bytes)
    (simp add: edge_set_epoch_def ex_te_def)

end
