(* ===== verification/Bracelet_Edges.thy ===== *)
theory Bracelet_Edges imports Points_To begin

text \<open>
  \<open>src/bracelet-edges\<close>: the command that writes the graph out as tables of facts, a directory per
  function and a file per relation. An \<open>EdgeOutputVisitor\<close> is the settings of the run, \<open>visitor\<close>, and
  the state that changes, \<open>facts_output\<close>; next to it goes the state of the object. A stream is the path it was
  opened with and what was written to it, which is in the file once the stream is closed. The files of a
  failed run are not modelled. \<open>DefinedFunctions\<close> and \<open>ForeignFunctions\<close>, which are only cleared, are
  left out.
\<close>

section \<open>Tables and files\<close>

datatype facts_table =
  DebugTable | SbomTable | IsSymbol | IsAlloca | ValueName | Starred | EnclosingFunctionForLocal | NodeInstructions
| OutputTable edge_kind

fun table_name :: "facts_table \<Rightarrow> string" where
  "table_name DebugTable = ''DebugTable''"
| "table_name SbomTable = ''SbomTable''"
| "table_name IsSymbol = ''IsSymbol''"
| "table_name IsAlloca = ''IsAlloca''"
| "table_name ValueName = ''ValueName''"
| "table_name Starred = ''Starred''"
| "table_name EnclosingFunctionForLocal = ''EnclosingFunctionForLocal''"
| "table_name NodeInstructions = ''NodeInstructions''"
| "table_name (OutputTable k) = (if k = DlsymPagePointerK then ''Dlsym'' else kind_name k)"

record facts_env =
  create_directories :: "string \<Rightarrow> unit result"
  facts_open_error :: "string \<Rightarrow> string option"
  facts_good :: "string \<Rightarrow> bool"
  path_exists :: "string \<Rightarrow> bool"       \<comment> \<open>before the run\<close>
  dlsym_fuel :: nat
  SimpleAtoi :: "string \<Rightarrow> u32 option"

record PrintingOptions =
  PrettyEdges :: bool
  PrintCallArgumentCount :: bool

record 'w visitor =
  ev_api :: "'w object_api"
  ev_env :: facts_env
  ev_prefix :: string
  ev_slm :: "source_location_map option"
  ev_options :: PrintingOptions

record facts_output =
  SeenNodes :: "node list"
  streams :: "facts_table \<Rightarrow> (string \<times> string) option"
  out_function :: node
  function_name :: string
  out_num_allocas :: u32
  out_debug_data :: "graph_debug_data option"
  out_files :: "(string \<times> string) list"
  made_directories :: "string list"

definition output_start :: facts_output where
  "output_start = \<lparr>SeenNodes = [], streams = (\<lambda>_. None), out_function = null_node, function_name = '''',
     out_num_allocas = 0, out_debug_data = None, out_files = [], made_directories = []\<rparr>"

definition PathOfSymbol :: "string \<Rightarrow> u64 \<Rightarrow> string" where
  "PathOfSymbol prefix symb = path_in prefix (show_hex16 symb)"

text \<open>Opening a file makes its directory and empties the file.\<close>

definition open_facts_for_symbol ::
  "facts_env \<Rightarrow> string \<Rightarrow> u64 \<Rightarrow> string \<Rightarrow> string \<Rightarrow> facts_output \<Rightarrow> (string \<times> facts_output) result" where
  "open_facts_for_symbol env prefix symb nm suffix out =
     (let dir = PathOfSymbol prefix symb; path = path_in dir (nm @ suffix)
      in try_ctx (''Can't create directory '' @ dir) (create_directories env dir) (\<lambda>_.
         case facts_open_error env path of
           Some e \<Rightarrow> Err (new_error (''Cannot open '' @ path @ '': '' @ e))
         | None \<Rightarrow> Ok (path, out\<lparr>made_directories := List.insert dir (made_directories out),
                               out_files := AList.update path '''' (out_files out)\<rparr>)))"

definition open_facts ::
  "'w visitor \<Rightarrow> facts_table \<Rightarrow> 'w \<times> facts_output \<Rightarrow> ('w \<times> facts_output) result" where
  "open_facts v t s =
     (let (w, out) = s
      in assert_r (streams out t = None)
        (try_r (node_symbol_of (out_function out)) (\<lambda>a.
         try_r (open_facts_for_symbol (ev_env v) (ev_prefix v) a (table_name t) ''.facts'' out) (\<lambda>(path, out).
           Ok (w, out\<lparr>streams := (streams out)(t := Some (path, ''''))\<rparr>)))))"

definition close_facts :: "'w visitor \<Rightarrow> facts_table \<Rightarrow> 'w \<times> facts_output \<Rightarrow> ('w \<times> facts_output) result" where
  "close_facts v t s =
     (let (w, out) = s
      in case streams out t of
           None \<Rightarrow> Abort
         | Some (path, content) \<Rightarrow>
             ensure (facts_good (ev_env v) path) ''I/O error has occurred writing facts''
               (Ok (w, out\<lparr>streams := (streams out)(t := None), out_files := AList.update path content (out_files out)\<rparr>)))"

text \<open>\<open>Out << str\<close>\<close>

definition put :: "facts_table \<Rightarrow> string \<Rightarrow> 'w \<times> facts_output \<Rightarrow> ('w \<times> facts_output) result" where
  "put t str s =
     (let (w, out) = s
      in Ok (w, out\<lparr>streams := (streams out)(t := map_option (\<lambda>(path, content). (path, content @ str)) (streams out t))\<rparr>))"

text \<open>One statement after the other.\<close>

definition steps :: "('s \<Rightarrow> 's result) list \<Rightarrow> 's \<Rightarrow> 's result" where
  "steps fs = for_each (\<lambda>f. f) fs"

section \<open>Printing nodes\<close>

definition show_hex4 :: "nat \<Rightarrow> string" where
  "show_hex4 n = ''0x'' @ pad_zero 4 (show_hex n)"

definition pure_text :: "node \<Rightarrow> string" where
  "pure_text n =
     show_hex16 (symbol_of n) @ (case local_idx_of n of None \<Rightarrow> '''' | Some i \<Rightarrow> '':'' @ show_hex4 (unat i))"

definition printNodePure :: "facts_table \<Rightarrow> node \<Rightarrow> 'w \<times> facts_output \<Rightarrow> ('w \<times> facts_output) result" where
  "printNodePure t n s = assert_r (is_node n) (put t (pure_text n) s)"

text \<open>The name of the node's symbol, and of the local.\<close>

definition debug_text :: "'w visitor \<Rightarrow> node \<Rightarrow> 'w \<times> facts_output \<Rightarrow> (string \<times> 'w) result" where
  "debug_text v n s =
     (let (w, out) = s
      in try_r (node_symbol_of n) (\<lambda>a.
         try_r (symbolName (ev_api v) a w) (\<lambda>(nm, w).
         let nm = (if nm = '''' then ''<UnknownSymbol>'' else nm)
         in case local_idx_of n of
              None \<Rightarrow> Ok (nm, w)
            | Some i \<Rightarrow>
                (case out_debug_data out of
                   None \<Rightarrow> Abort
                 | Some d \<Rightarrow>
                     if has_locals d then
                       try_r (node_symbol_of (out_function out)) (\<lambda>f.
                       assert_r (a = f)
                       (try_r (local_name d (unat i)) (\<lambda>loc. Ok (nm @ '' -> '' @ loc, w))))
                     else Ok (nm @ '' -> <DebugDataMissing>'', w)))))"

definition printDebugNode :: "'w visitor \<Rightarrow> facts_table \<Rightarrow> node \<Rightarrow> 'w \<times> facts_output \<Rightarrow> ('w \<times> facts_output) result" where
  "printDebugNode v t n s = try_r (debug_text v n s) (\<lambda>(str, w). put t str (w, snd s))"

definition printNode :: "'w visitor \<Rightarrow> facts_table \<Rightarrow> node \<Rightarrow> 'w \<times> facts_output \<Rightarrow> ('w \<times> facts_output) result" where
  "printNode v t n = (if PrettyEdges (ev_options v) then printDebugNode v t n else printNodePure t n)"

definition StarCount :: nat where "StarCount = 3"

definition printStarredNode ::
  "'w visitor \<Rightarrow> facts_table \<Rightarrow> nat \<Rightarrow> node \<Rightarrow> 'w \<times> facts_output \<Rightarrow> ('w \<times> facts_output) result" where
  "printStarredNode v t k n = steps [put t (replicate k (CHR ''*'')), printNode v t n]"

definition printFinalStarredNode ::
  "'w visitor \<Rightarrow> facts_table \<Rightarrow> node \<Rightarrow> 'w \<times> facts_output \<Rightarrow> ('w \<times> facts_output) result" where
  "printFinalStarredNode v t n = steps [put t ''$'', printStarredNode v t StarCount n]"

section \<open>Addresses of a local\<close>

text \<open>\<open>find\<close> from a position, and \<open>rfind\<close> of a character up to one; \<open>npos\<close> is \<open>None\<close>.\<close>

definition str_find :: "string \<Rightarrow> string \<Rightarrow> nat \<Rightarrow> nat option" where
  "str_find s pat pos = (if pos \<le> length s then map_option ((+) pos) (find_from pat (drop pos s)) else None)"

definition str_rfind :: "string \<Rightarrow> char \<Rightarrow> nat \<Rightarrow> nat option" where
  "str_rfind s c pos =
     (case filter (\<lambda>i. s ! i = c) [0..<min (pos + 1) (length s)] of [] \<Rightarrow> None | is \<Rightarrow> Some (last is))"

definition substr :: "string \<Rightarrow> nat \<Rightarrow> nat \<Rightarrow> string" where
  "substr s pos n = take n (drop pos s)"

text \<open>
  The source location in the debug name of a local, \<open>.. dir/file:line:col| ..\<close>: the first part of
  \<open>emitAddresses\<close>. Many names have none; line 0 counts as none.
\<close>

definition location_of_name :: "(string \<Rightarrow> u32 option) \<Rightarrow> string \<Rightarrow> source_location option result" where
  "location_of_name atoi Name =
     (case str_find Name ''|'' 0 of
        None \<Rightarrow> Ok None
      | Some Pipe \<Rightarrow>
      (let Name = (case str_find Name ''@['' 0 of None \<Rightarrow> Name | Some InlineLoc \<Rightarrow> substr Name 0 InlineLoc)
       in case str_find Name '':'' 0 of
        None \<Rightarrow> Ok None
      | Some LineNoStart \<Rightarrow>
      (let Space = (case str_rfind Name (CHR '' '') LineNoStart of None \<Rightarrow> 0 | Some k \<Rightarrow> k);
           Slash = (case str_rfind Name (CHR ''/'') LineNoStart of None \<Rightarrow> 0 | Some k \<Rightarrow> k);
           FileNameStart = max Space Slash;
           skip = (if Space = 0 \<and> Slash = 0 then 0 else 1)
       in assert_r (FileNameStart < LineNoStart)
        (let FileName = substr Name (FileNameStart + skip) (LineNoStart - FileNameStart - skip)
         in case str_find Name '':'' (LineNoStart + 1) of
        None \<Rightarrow> Ok None
      | Some ColumnNoStart \<Rightarrow>
      (let LineNoStr = substr Name (LineNoStart + 1) (ColumnNoStart - LineNoStart - 1)
       in if find_from ''0'' LineNoStr = Some 0 then Ok None
          else case (str_find Name ''|'' ColumnNoStart, str_find Name '' '' ColumnNoStart) of
        (None, None) \<Rightarrow> Ok None
      | (p, q) \<Rightarrow>
      (let EndOfColumnNo = (case p of None \<Rightarrow> the q | Some i \<Rightarrow> (case q of None \<Rightarrow> i | Some j \<Rightarrow> min i j));
           ColumnNoStr = substr Name (ColumnNoStart + 1) (EndOfColumnNo - ColumnNoStart - 1)
       in case atoi LineNoStr of
        None \<Rightarrow> Err (new_error (''Invalid line number: '' @ LineNoStr))
      | Some LineNo \<Rightarrow>
      (case atoi ColumnNoStr of
        None \<Rightarrow> Err (new_error (''Invalid column number: '' @ ColumnNoStr))
      | Some ColumnNo \<Rightarrow> Ok (Some \<lparr>loc_file = FileName, loc_line = LineNo, loc_col = ColumnNo\<rparr>))))))))"

text \<open>
  One line for every address of the ranges, both ends included. The loop of the code never ends when
  a range ends at the highest address; that is \<open>Abort\<close> here.
\<close>

definition put_addresses ::
  "'w visitor \<Rightarrow> node \<Rightarrow> u64 \<times> u64 \<Rightarrow> 'w \<times> facts_output \<Rightarrow> ('w \<times> facts_output) result" where
  "put_addresses v n rng =
     (let (start, end) = rng
      in if end = - 1 then (\<lambda>s. Abort)
         else for_each (\<lambda>a. steps [put NodeInstructions (show_hex16 (of_nat a) @ [tab]), printNode v NodeInstructions n,
                                  put NodeInstructions [newline]]) [unat start..<Suc (unat end)])"

definition emitAddresses :: "'w visitor \<Rightarrow> node \<Rightarrow> 'w \<times> facts_output \<Rightarrow> ('w \<times> facts_output) result" where
  "emitAddresses v n s =
     (case (local_idx_of n, out_debug_data (snd s), ev_slm v) of
        (Some i, Some d, slm) \<Rightarrow>
          if \<not> has_locals d \<or> slm = None then Ok s
          else try_r (local_name d (unat i)) (\<lambda>Name.
               try_r (location_of_name (SimpleAtoi (ev_env v)) Name) (\<lambda>pos.
               case Option.bind pos (map_of (the slm)) of
                 None \<Rightarrow> Ok s
               | Some ranges \<Rightarrow> for_each (put_addresses v n) ranges s))
      | _ \<Rightarrow> Abort)"

section \<open>What a node is\<close>

text \<open>The rows of a node in the tables that hold a fact per node, after it was seen for the first time.\<close>

definition local_rows :: "'w visitor \<Rightarrow> node \<Rightarrow> 'w \<times> facts_output \<Rightarrow> ('w \<times> facts_output) result" where
  "local_rows v n s =
     (case local_idx_of n of
        Some i \<Rightarrow>
          steps ((if unat i < unat (out_num_allocas (snd s)) then [printNode v IsAlloca n, put IsAlloca [newline]] else []) @
            [printNode v EnclosingFunctionForLocal (out_function (snd s)), put EnclosingFunctionForLocal [tab],
             printNode v EnclosingFunctionForLocal n, put EnclosingFunctionForLocal [newline]]) s
      | None \<Rightarrow> steps [printNode v IsSymbol n, put IsSymbol [newline]] s)"

definition debug_rows :: "'w visitor \<Rightarrow> node \<Rightarrow> 'w \<times> facts_output \<Rightarrow> ('w \<times> facts_output) result" where
  "debug_rows v n s =
     (let (w, out) = s
      in case symbolName (ev_api v) (symbol_of n) w of
           Abort \<Rightarrow> Abort
         | Err e \<Rightarrow> Ok s
         | Ok (nm, w) \<Rightarrow>
             steps ([printNode v DebugTable n, put DebugTable [tab], printDebugNode v DebugTable n, put DebugTable [newline]] @
               (if PrettyEdges (ev_options v)
                then [printNodePure DebugTable n, put DebugTable [tab], printDebugNode v DebugTable n, put DebugTable [newline]]
                else [])) (w, out))"

definition star_rows :: "'w visitor \<Rightarrow> node \<Rightarrow> 'w \<times> facts_output \<Rightarrow> ('w \<times> facts_output) result" where
  "star_rows v n =
     steps (concat (map (\<lambda>i.
         [printStarredNode v Starred (i + 1) n, put Starred [tab], printStarredNode v Starred i n, put Starred [newline],
          printNode v ValueName n, put ValueName [tab], printStarredNode v ValueName i n, put ValueName [newline]])
         [0..<StarCount]) @
       [printFinalStarredNode v Starred n, put Starred [tab], printStarredNode v Starred StarCount n, put Starred [newline],
        printFinalStarredNode v Starred n, put Starred [tab], printFinalStarredNode v Starred n, put Starred [newline],
        printNode v ValueName n, put ValueName [tab], printFinalStarredNode v ValueName n, put ValueName [newline]])"

definition node_rows :: "'w visitor \<Rightarrow> node \<Rightarrow> 'w \<times> facts_output \<Rightarrow> ('w \<times> facts_output) result" where
  "node_rows v n =
     steps [local_rows v n, debug_rows v n, star_rows v n,
       if ev_slm v \<noteq> None \<and> local_idx_of n \<noteq> None then emitAddresses v n else Ok]"

text \<open>
  The recursion on the symbol of a node ends with the symbol itself, which is seen by then.
\<close>

lemma symbol_node_low: "node_symbol a = Ok n \<Longrightarrow> raw n AND 0xffff = 0"
proof -
  assume "node_symbol a = Ok n"
  then have "n = Node (push_bit 16 (a + 1))" by (auto simp: node_symbol_def Let_def ok_iff)
  moreover have "push_bit 16 x AND 0xffff = 0" for x :: u64
  proof -
    have m: "(0xffff :: u64) = mask 16" by (simp add: mask_eq_exp_minus_1)
    show ?thesis unfolding m by (rule bit_word_eqI) (auto simp: bit_simps)
  qed
  ultimately show ?thesis by simp
qed

lemma symbol_node_self:
  assumes "raw n AND 0xffff = 0" and "node_symbol (symbol_of n) = Ok m"
  shows "m = n"
proof -
  have "push_bit 16 (drop_bit 16 (raw n)) = raw n"
  proof -
    have m: "(0xffff :: u64) = mask 16" by (simp add: mask_eq_exp_minus_1)
    have low: "\<not> bit (raw n) i" if "i < 16" for i
    proof
      assume "bit (raw n) i"
      then have "bit (raw n AND mask 16) i" using that by (simp add: bit_simps)
      with assms(1) m show False by simp
    qed
    show ?thesis
    proof (rule bit_word_eqI)
      show "bit (push_bit 16 (drop_bit 16 (raw n))) k = bit (raw n) k" if "k < LENGTH(64)" for k
        using low [of k] that by (cases "k < 16") (auto simp: bit_simps)
    qed
  qed
  moreover have "m = Node (push_bit 16 (drop_bit 16 (raw n)))"
    using assms(2) by (auto simp: node_symbol_def symbol_of_def Let_def ok_iff)
  ultimately show ?thesis by (simp add: node.expand)
qed

function emitNodeInfo :: "'w visitor \<Rightarrow> node \<Rightarrow> 'w \<times> facts_output \<Rightarrow> ('w \<times> facts_output) result" where
  "emitNodeInfo v n (w, out) =
     (if n \<in> set (SeenNodes out) then Ok (w, out)
      else try_r (node_symbol_of n) (\<lambda>a.
           try_r (node_symbol a) (\<lambda>symb.
           try_r (emitNodeInfo v symb (w, out\<lparr>SeenNodes := n # SeenNodes out\<rparr>)) (node_rows v n))))"
  by pat_completeness auto
termination
proof (relation "measure (\<lambda>(v, n, w, out). if n \<in> set (SeenNodes out) then 0 else if raw n AND 0xffff = 0 then 1 else 2)")
  fix n w out a symb
  assume n: "n \<notin> set (SeenNodes out)" and a: "node_symbol_of n = Ok a" and symb: "node_symbol a = Ok symb"
  have "raw symb AND 0xffff = 0" using symb by (rule symbol_node_low)
  moreover have "symb = n" if "raw n AND 0xffff = 0"
    using symbol_node_self [OF that] a symb by (auto simp: node_symbol_of_def ok_iff)
  ultimately show "((v, symb, w, out\<lparr>SeenNodes := n # SeenNodes out\<rparr>), (v, n, w, out)) \<in>
    measure (\<lambda>(v, n, w, out). if n \<in> set (SeenNodes out) then 0 else if raw n AND 0xffff = 0 then 1 else 2)" for v :: "'w visitor"
    using n by auto
qed simp

declare emitNodeInfo.simps [simp del]

section \<open>Edges\<close>

definition printSingletonEdge ::
  "'w visitor \<Rightarrow> edge_kind \<Rightarrow> node \<Rightarrow> node \<Rightarrow> 'w \<times> facts_output \<Rightarrow> ('w \<times> facts_output) result" where
  "printSingletonEdge v k To From =
     steps [printNode v (OutputTable k) To, put (OutputTable k) [tab], printNode v (OutputTable k) From,
       put (OutputTable k) [newline], emitNodeInfo v To, emitNodeInfo v From]"

definition printIndexedEdge ::
  "'w visitor \<Rightarrow> edge_kind \<Rightarrow> node \<Rightarrow> node \<Rightarrow> u32 \<Rightarrow> 'w \<times> facts_output \<Rightarrow> ('w \<times> facts_output) result" where
  "printIndexedEdge v k To From Idx =
     steps [printNode v (OutputTable k) To, put (OutputTable k) [tab], printNode v (OutputTable k) From,
       put (OutputTable k) [tab], put (OutputTable k) (show_dec (unat Idx)), put (OutputTable k) [newline],
       emitNodeInfo v To, emitNodeInfo v From]"

text \<open>
  The pages of \<open>dlsym\<close>; unlike the emitter of the C model, this visits the null pointers of a page, too.
\<close>

fun dlsym_assigns ::
  "nat \<Rightarrow> 'w visitor \<Rightarrow> node \<Rightarrow> u64 \<Rightarrow> 'w \<times> facts_output \<Rightarrow> ('w \<times> facts_output) result" where
  "dlsym_assigns 0 v dlsym_output page s = Abort"
| "dlsym_assigns (Suc fuel) v dlsym_output page s =
     (if page = 0 then Ok s
      else let (w, out) = s; api = ev_api v
        in try_ctx ''dlsym page count'' (copyData api 8 (page + 8) w) (\<lambda>(count, w).
           try_ctx ''dlsym page body pointers'' (resolvePointers api page_pointers (page + 16) w) (\<lambda>(pointers, w).
           try_r (for_each (\<lambda>p s. try_ctx ''Dlsym artifical assign edge''
                    (try_r (node_symbol p) (\<lambda>n. try_r (mk_edge AssignK dlsym_output n 0) (\<lambda>e.
                       printSingletonEdge v AssignK (to_node e) (from_node e) s))) Ok)
                   (take (min (unat (read64 count)) page_pointers) pointers) (w, out)) (\<lambda>(w, out).
           try_ctx ''dlsym page next pointer'' (resolvePointers api 1 page w) (\<lambda>(next_page, w).
             dlsym_assigns fuel v dlsym_output (hd next_page) (w, out))))))"

definition visit_edge_inner :: "'w visitor \<Rightarrow> edge \<Rightarrow> 'w \<times> facts_output \<Rightarrow> ('w \<times> facts_output) result" where
  "visit_edge_inner v E s =
     (case kind E of
        DlsymPagePointerK \<Rightarrow>
          try_r (node_local_idx (from_node E)) (\<lambda>l.
          ensure (l = None) ''page pointer should be a symbol''
            (let (w, out) = s
             in try_ctx ''dlsym page initial pointer'' (resolvePointers (ev_api v) 1 (symbol_of (from_node E)) w)
               (\<lambda>(page, w).
               try_r (dlsym_assigns (dlsym_fuel (ev_env v)) v (to_node E) (hd page) (w, out))
                 (printSingletonEdge v DlsymPagePointerK (to_node E) (from_node E)))))
      | CallK \<Rightarrow>
          (if PrintCallArgumentCount (ev_options v)
           then printIndexedEdge v CallK (to_node E) (from_node E) (edge_idx E) s
           else printSingletonEdge v CallK (to_node E) (from_node E) s)
      | k \<Rightarrow>
          (if num_components k = 3 then printIndexedEdge v k (to_node E) (from_node E) (edge_idx E) s
           else printSingletonEdge v k (to_node E) (from_node E) s))"

definition output_edge :: "'w visitor \<Rightarrow> edge \<Rightarrow> 'w \<times> facts_output \<Rightarrow> ('w \<times> facts_output) result" where
  "output_edge v E s =
     (let out = snd s
      in try_ctx (''Processing function '' @ show_hex16 (symbol_of (out_function out)) @ '': '' @ function_name out)
           (visit_edge_inner v E s) Ok)"

section \<open>Functions\<close>

definition all_tables :: "facts_table list" where
  "all_tables = [DebugTable, SbomTable, IsSymbol, IsAlloca, ValueName, Starred, EnclosingFunctionForLocal,
     NodeInstructions] @ map OutputTable all_kinds"

definition printSbomInfo ::
  "'w visitor \<Rightarrow> sbom_information \<Rightarrow> node \<Rightarrow> 'w \<times> facts_output \<Rightarrow> ('w \<times> facts_output) result" where
  "printSbomInfo v Sbominfo forNode =
     steps [printNode v SbomTable forNode, put SbomTable (tab # ComponentName Sbominfo),
       put SbomTable (tab # Version Sbominfo @ [newline])]"

text \<open>A file that is opened, written and closed at once.\<close>

definition write_facts_file ::
  "'w visitor \<Rightarrow> u64 \<Rightarrow> string \<Rightarrow> string \<Rightarrow> string \<Rightarrow> facts_output \<Rightarrow> (string \<times> facts_output) result" where
  "write_facts_file v symb nm suffix content out =
     try_r (open_facts_for_symbol (ev_env v) (ev_prefix v) symb nm suffix out) (\<lambda>(path, out).
       Ok (path, out\<lparr>out_files := AList.update path content (out_files out)\<rparr>))"

definition enter_function ::
  "'w visitor \<Rightarrow> node \<Rightarrow> u32 \<Rightarrow> graph_debug_data \<Rightarrow> sbom_information option \<Rightarrow> 'w \<times> facts_output \<Rightarrow>
   ('w \<times> facts_output) result" where
  "enter_function v function num_allocas debug_data sbominfo s =
     (let (w, out) = s;
          out = out\<lparr>out_function := function, out_num_allocas := num_allocas, out_debug_data := Some debug_data\<rparr>
      in try_r (node_symbol_of function) (\<lambda>a.
         try_r (symbolName (ev_api v) a w) (\<lambda>(nm, w).
         try_r (for_each (open_facts v) all_tables (w, out\<lparr>function_name := nm, SeenNodes := []\<rparr>)) (\<lambda>(w, out).
         try_r (write_facts_file v a ''function-name.txt'' '''' nm out) (\<lambda>(path, out).
         ensure (facts_good (ev_env v) path) ''I/O error has occurred writing facts''
           (case sbominfo of None \<Rightarrow> Ok (w, out) | Some i \<Rightarrow> printSbomInfo v i function (w, out)))))))"

definition exit_function :: "'w visitor \<Rightarrow> 'w \<times> facts_output \<Rightarrow> ('w \<times> facts_output) result" where
  "exit_function v = for_each (close_facts v) all_tables"

definition output_function :: "'w visitor \<Rightarrow> function_info \<Rightarrow> 'w \<times> facts_output \<Rightarrow> ('w \<times> facts_output) result" where
  "output_function v fi s =
     try_r (enter_function v (fi_function fi) (fi_num_allocas fi) (fi_debug_data fi) (fi_sbom_info fi) s) (\<lambda>s.
     try_r (visitAllEdges fi (output_edge v) s) (exit_function v))"

section \<open>The command\<close>

text \<open>What lies beside the functions: the raw trace sites, and what DWARF says of callsites and inlining.\<close>

definition directory_exists :: "'w visitor \<Rightarrow> u64 \<Rightarrow> facts_output \<Rightarrow> bool" where
  "directory_exists v symb out \<longleftrightarrow>
     (let dir = PathOfSymbol (ev_prefix v) symb in path_exists (ev_env v) dir \<or> dir \<in> set (made_directories out))"

definition dump_trace_sites ::
  "'w visitor \<Rightarrow> string \<Rightarrow> obj_section \<Rightarrow> 'w \<times> facts_output \<Rightarrow> ('w \<times> facts_output) result" where
  "dump_trace_sites v trace_site section s =
     (if sec_name section \<noteq> trace_site then Ok s
      else let (w, out) = s;
               path = path_in (path_in (ev_prefix v) ''trace_sites'') (show_hex16 (sec_start section) @ ''.bin'')
        in ensure (facts_open_error (ev_env v) path = None) ''couldn't open destination for trace site''
          (try_r (copyData (ev_api v) (unat (sec_size section)) (sec_start section) w) (\<lambda>(trace_site, w).
           ensure (facts_good (ev_env v) path) ''failed to write trace sites''
             (Ok (w, out\<lparr>out_files := AList.update path (map char_of_byte trace_site) (out_files out)\<rparr>)))))"

text \<open>
  The text of a file that is written outside of any function, built row by row; \<open>printNode\<close> goes by
  what the last function left in the visitor.
\<close>

definition node_text :: "'w visitor \<Rightarrow> node \<Rightarrow> 'w \<times> facts_output \<Rightarrow> (string \<times> 'w) result" where
  "node_text v n s =
     (if PrettyEdges (ev_options v) then debug_text v n s else assert_r (is_node n) (Ok (pure_text n, fst s)))"

definition file_rows ::
  "'w visitor \<Rightarrow> (string \<Rightarrow> 'e \<Rightarrow> string) \<Rightarrow> ('e \<Rightarrow> node) \<Rightarrow> facts_output \<Rightarrow> 'e list \<Rightarrow> string \<times> 'w \<Rightarrow>
   (string \<times> 'w) result" where
  "file_rows v row node_in out =
     for_each (\<lambda>e (content, w). try_r (node_text v (node_in e) (w, out)) (\<lambda>(str, w). Ok (content @ row str e, w)))"

text \<open>The groups of equal keys of a multimap, one file each.\<close>

definition group_step ::
  "'w visitor \<Rightarrow> string \<Rightarrow> (string \<Rightarrow> 'e \<Rightarrow> string) \<Rightarrow> ('e \<Rightarrow> node) \<Rightarrow> (u64 \<times> 'e) list \<Rightarrow> u64 \<Rightarrow>
   'w \<times> facts_output \<Rightarrow> ('w \<times> facts_output) result" where
  "group_step v nm row node_in entries key = (\<lambda>(w, out).
     if directory_exists v key out then
       try_r (open_facts_for_symbol (ev_env v) (ev_prefix v) key nm ''.facts'' out) (\<lambda>(path, out).
       try_r (file_rows v row node_in out (map snd (filter (\<lambda>e. fst e = key) entries)) ('''', w)) (\<lambda>(content, w).
         Ok (w, out\<lparr>out_files := AList.update path content (out_files out)\<rparr>)))
     else Ok (w, out))"

definition write_groups ::
  "'w visitor \<Rightarrow> string \<Rightarrow> (string \<Rightarrow> 'e \<Rightarrow> string) \<Rightarrow> ('e \<Rightarrow> node) \<Rightarrow> (u64 \<times> 'e) list \<Rightarrow>
   'w \<times> facts_output \<Rightarrow> ('w \<times> facts_output) result" where
  "write_groups v nm row node_in entries =
     for_each (group_step v nm row node_in entries) (sort (remdups (map fst entries)))"

definition callsite_row :: "string \<Rightarrow> callsite_edge \<Rightarrow> string" where
  "callsite_row str e = show_hex16 (callsiteAddr e) @ [tab] @ str @ [newline]"

definition inline_row :: "string \<Rightarrow> inline_edge \<Rightarrow> string" where
  "inline_row str e = str @ [tab] @ inlinedName e @ [newline]"

text \<open>
  What an object answers beyond the methods of \<open>object_api\<close>: its source locations and its DWARF
  contexts.
\<close>

record 'w debug_api =
  da_slm :: "'w \<Rightarrow> source_location_map option result"
  SupportsFastAddrNodeMap :: bool
  da_contexts :: "'w \<Rightarrow> dw_context result list"
  da_getAsInteger :: integer_reader

definition write_edges ::
  "codec \<Rightarrow> 'w object_api \<Rightarrow> 'w debug_api \<Rightarrow> facts_env \<Rightarrow> PrintingOptions \<Rightarrow> 'w \<Rightarrow> ('w \<times> facts_output) result" where
  "write_edges c api da env PO w =
     try_r (da_slm da w) (\<lambda>slm.
       let v = \<lparr>ev_api = api, ev_env = env, ev_prefix = ''.'', ev_slm = slm, ev_options = PO\<rparr>;
           trace_sites = path_in ''.'' ''trace_sites''
       in try_r (readEdges c (lift_api api) (output_function v) (w, output_start)) (\<lambda>(w, out).
          let section_names = SectionNames (isApple api w)
          in try_ctx (''mkdir -p '' @ trace_sites) (create_directories env trace_sites) (\<lambda>_.
             try_ctx ''Dumping trace sites''
               (visitSections (lift_api api) (dump_trace_sites v (trace_site_section section_names)) (w, out)) (\<lambda>(w, out).
             try_r (if SupportsFastAddrNodeMap da
                    then visitCUAddressMaps (da_getAsInteger da) (da_contexts da w)
                           (write_groups v ''FastNodeInstructions'' callsite_row nodeID) (w, out)
                    else Ok (w, out)) (\<lambda>(w, out).
             visitCUInlineEdges (da_contexts da w) (write_groups v ''InlineFunctions'' inline_row inlinerID) (w, out))))))"

record edges_options =
  eo_executable :: string
  eo_sysroot :: string
  eo_core :: string
  eo_printing :: PrintingOptions

definition core_debug_api :: "(string \<Rightarrow> dw_unit list result) \<Rightarrow> integer_reader \<Rightarrow> coredump debug_api" where
  "core_debug_api open_dwarf getAsInteger =
     \<lparr>da_slm = (\<lambda>c. Ok (Some (sourceLocationMap c))), SupportsFastAddrNodeMap = True,
      da_contexts = core_dwarf_contexts open_dwarf, da_getAsInteger = getAsInteger\<rparr>"

text \<open>A static object has the DWARF data of its own file, which is the argument \<open>dwarf\<close>.\<close>

definition so_dwarf_contexts :: "(obj_file \<Rightarrow> dw_unit list) \<Rightarrow> static_object \<Rightarrow> dw_context result list" where
  "so_dwarf_contexts dwarf so = [Ok (dwarf (so_obj so), translateAddr (load_sections (so_obj so)))]"

definition static_debug_api :: "(obj_file \<Rightarrow> dw_unit list) \<Rightarrow> integer_reader \<Rightarrow> static_object debug_api" where
  "static_debug_api dwarf getAsInteger =
     \<lparr>da_slm = (\<lambda>_. Ok None), SupportsFastAddrNodeMap = True, da_contexts = so_dwarf_contexts dwarf,
      da_getAsInteger = getAsInteger\<rparr>"

definition edges_main ::
  "codec \<Rightarrow> facts_env \<Rightarrow> coredump debug_api \<Rightarrow> static_object debug_api \<Rightarrow>
   (string \<Rightarrow> string \<Rightarrow> string \<Rightarrow> coredump result) \<Rightarrow> (string \<Rightarrow> static_object result) \<Rightarrow> edges_options \<Rightarrow>
   (int \<times> (string \<times> string) list) result" where
  "edges_main c env core_debug static_debug open_core open_object opts =
     (if eo_core opts \<noteq> '''' then
        if eo_sysroot opts = '''' then Ok (1, [])
        else try_ctx (''Opening coredump '' @ eo_core opts @ '' for executable '' @ eo_executable opts @
                      '' with sysroot '' @ eo_sysroot opts)
               (open_core (eo_executable opts) (eo_sysroot opts) (eo_core opts)) (\<lambda>core.
             try_r (write_edges c core_api core_debug env (eo_printing opts) core)
               (\<lambda>(w, out). Ok (0, out_files out)))
      else
        try_ctx (''Opening object '' @ eo_executable opts) (open_object (eo_executable opts)) (\<lambda>obj.
          try_r (write_edges c static_api static_debug env (eo_printing opts) obj) (\<lambda>(w, out). Ok (0, out_files out))))"

definition edges_exit_code :: "(int \<times> 'a) result \<Rightarrow> int option" where
  "edges_exit_code r = (case r of Ok (n, _) \<Rightarrow> Some n | Err _ \<Rightarrow> Some 1 | Abort \<Rightarrow> None)"

end
