(* ===== verification/Bracelet_Edges_Spec.thy ===== *)
theory Bracelet_Edges_Spec imports Bracelet_Edges Dlsym_Walk Example_Image begin

text \<open>
  What the tables of \<open>Bracelet_Edges\<close> hold. The printing of a function is followed table by table: an
  operation adds a known text to a table, or nothing, and the node tables get one row for every node
  that is seen for the first time.
\<close>

section \<open>What an operation adds to a table\<close>

definition append_to :: "string \<Rightarrow> (string \<times> string) option \<Rightarrow> (string \<times> string) option" where
  "append_to str = map_option (\<lambda>(path, content). (path, content @ str))"

lemma append_to_nil [simp]: "append_to [] x = x"
  and append_to_append: "append_to b (append_to a x) = append_to (a @ b) x"
  by (cases x; simp add: append_to_def case_prod_beta)+

lemma append_to_some [simp]: "append_to a (Some (p, c)) = Some (p, c @ a)"
  by (simp add: append_to_def)

definition settings :: "facts_output \<Rightarrow> facts_output" where
  "settings out = out\<lparr>streams := (\<lambda>_. None)\<rparr>"

definition adds :: "('w \<times> facts_output \<Rightarrow> ('w \<times> facts_output) result) \<Rightarrow> facts_table \<Rightarrow> string \<Rightarrow> bool" where
  "adds f t str \<longleftrightarrow> (\<forall>w out w' out'. f (w, out) = Ok (w', out') \<longrightarrow>
     streams out' t = append_to str (streams out t) \<and> settings out' = settings out)"

lemma addsD:
  "adds f t str \<Longrightarrow> f (w, out) = Ok (w', out') \<Longrightarrow>
   streams out' t = append_to str (streams out t) \<and> settings out' = settings out"
  by (simp add: adds_def)

lemma settings_fields:
  "settings out' = settings out \<Longrightarrow> SeenNodes out' = SeenNodes out \<and> out_num_allocas out' = out_num_allocas out \<and>
   out_function out' = out_function out \<and> out_files out' = out_files out"
  by (cases out; cases out') (simp add: settings_def)

lemma adds_put: "adds (put t' x) t (if t = t' then x else '''')"
  by (auto simp: adds_def put_def settings_def append_to_def case_prod_beta option.map_id)

lemma adds_assert: "adds f t a \<Longrightarrow> adds (\<lambda>s. assert_r c (f s)) t a"
  by (auto simp: adds_def ok_iff)

lemma adds_Ok: "adds Ok t ''''"
  by (simp add: adds_def)

lemma adds_steps_Nil: "adds (steps []) t ''''"
  by (simp add: adds_def steps_def)

lemma adds_steps_Cons: "adds f t a \<Longrightarrow> adds (steps fs) t b \<Longrightarrow> adds (steps (f # fs)) t (a @ b)"
  by (fastforce simp: adds_def steps_def ok_iff append_to_append)

lemma adds_steps_nothing: "(\<And>f. f \<in> set fs \<Longrightarrow> adds f t '''') \<Longrightarrow> adds (steps fs) t ''''"
proof (induction fs)
  case (Cons f fs)
  then show ?case using adds_steps_Cons [of f t "''''" fs "''''"] by simp
qed (rule adds_steps_Nil)

lemma adds_steps_append: "adds (steps fs) t a \<Longrightarrow> adds (steps gs) t b \<Longrightarrow> adds (steps (fs @ gs)) t (a @ b)"
  by (fastforce simp: adds_def steps_def ok_iff for_each_append append_to_append)

lemma adds_for_each_nothing: "(\<And>x. x \<in> set xs \<Longrightarrow> adds (f x) t '''') \<Longrightarrow> adds (for_each f xs) t ''''"
proof (induction xs)
  case (Cons x xs)
  then have "adds (f x) t ''''" "adds (for_each f xs) t ''''" by simp_all
  then show ?case by (fastforce simp: adds_def ok_iff)
qed (simp add: adds_def)

lemma adds_printNodePure: "adds (printNodePure t' n) t (if t = t' then pure_text n else '''')"
  using adds_assert [OF adds_put [of t' "pure_text n" t], of "is_node n"]
  by (simp add: adds_def printNodePure_def)

lemma adds_printNode:
  "\<not> PrettyEdges (ev_options v) \<Longrightarrow> adds (printNode v t' n) t (if t = t' then pure_text n else '''')"
  by (simp add: printNode_def adds_printNodePure)

lemma adds_printDebugNode: "t \<noteq> t' \<Longrightarrow> adds (printDebugNode v t' n) t ''''"
  by (auto simp: adds_def printDebugNode_def put_def settings_def ok_iff)

lemma adds_printNode_other: "t \<noteq> t' \<Longrightarrow> adds (printNode v t' n) t ''''"
  using adds_printNodePure [of t' n t] adds_printDebugNode [of t t' v n] by (auto simp: printNode_def)

lemma adds_put_other: "t \<noteq> t' \<Longrightarrow> adds (put t' x) t ''''"
  using adds_put [of t' x t] by simp

lemma adds_starred: "t \<noteq> t' \<Longrightarrow> adds (printStarredNode v t' k n) t ''''"
  and adds_final: "t \<noteq> t' \<Longrightarrow> adds (printFinalStarredNode v t' n) t ''''"
  by (auto simp: printStarredNode_def printFinalStarredNode_def
      intro!: adds_steps_nothing adds_put_other adds_printNode_other)

lemmas adds_other = adds_put_other adds_printNode_other adds_printDebugNode adds_starred adds_final

section \<open>The rows of a node\<close>

lemma adds_star_rows: "t \<noteq> Starred \<Longrightarrow> t \<noteq> ValueName \<Longrightarrow> adds (star_rows v n) t ''''"
  unfolding star_rows_def by (rule adds_steps_nothing) (auto intro: adds_other)

lemma adds_debug_rows: "t \<noteq> DebugTable \<Longrightarrow> adds (debug_rows v n) t ''''"
proof -
  assume t: "t \<noteq> DebugTable"
  have "adds (printNodePure DebugTable n) t ''''" using adds_printNodePure [of DebugTable n t] t by simp
  then have "adds (steps ([printNode v DebugTable n, put DebugTable [tab], printDebugNode v DebugTable n, put DebugTable [newline]] @
      (if PrettyEdges (ev_options v)
       then [printNodePure DebugTable n, put DebugTable [tab], printDebugNode v DebugTable n, put DebugTable [newline]]
       else []))) t ''''"
    using t by (intro adds_steps_nothing) (auto intro: adds_other)
  then show ?thesis by (auto simp: adds_def debug_rows_def split: result.splits)
qed

lemma adds_addresses: "t \<noteq> NodeInstructions \<Longrightarrow> adds (emitAddresses v n) t ''''"
proof -
  assume t: "t \<noteq> NodeInstructions"
  have "adds (put_addresses v n r) t ''''" for r
  proof (cases r)
    case (Pair b e)
    have "adds (for_each (\<lambda>a. steps [put NodeInstructions (show_hex16 (of_nat a) @ [tab]), printNode v NodeInstructions n,
        put NodeInstructions [newline]]) [unat b..<Suc (unat e)]) t ''''"
      using t by (intro adds_for_each_nothing adds_steps_nothing) (auto intro: adds_other)
    then show ?thesis by (simp add: Pair put_addresses_def) (simp add: adds_def)
  qed
  then have "adds (for_each (put_addresses v n) rs) t ''''" for rs by (rule adds_for_each_nothing)
  then show ?thesis
    by (auto simp: adds_def emitAddresses_def ok_iff split: option.splits if_splits)
qed

text \<open>The tables with a row per node of some kind, and these rows.\<close>

fun node_table :: "facts_table \<Rightarrow> u32 \<Rightarrow> node \<Rightarrow> bool" where
  "node_table IsSymbol k n \<longleftrightarrow> local_idx_of n = None"
| "node_table IsAlloca k n \<longleftrightarrow> (case local_idx_of n of None \<Rightarrow> False | Some i \<Rightarrow> unat i < unat k)"
| "node_table EnclosingFunctionForLocal k n \<longleftrightarrow> local_idx_of n \<noteq> None"
| "node_table _ k n \<longleftrightarrow> False"

definition node_row :: "facts_table \<Rightarrow> node \<Rightarrow> node \<Rightarrow> string" where
  "node_row t f n = (if t = EnclosingFunctionForLocal then pure_text f @ [tab] else '''') @ pure_text n @ [newline]"

definition plain_table :: "facts_table \<Rightarrow> bool" where
  "plain_table t \<longleftrightarrow> t \<notin> {DebugTable, ValueName, Starred, NodeInstructions}"

lemma adds_more_put:
  "adds (steps fs) t (if t = t' then str else '''') \<Longrightarrow>
   adds (steps (put t' x # fs)) t (if t = t' then x @ str else '''')"
  using adds_steps_Cons [OF adds_put [where t' = t' and x = x and t = t]] by (auto split: if_splits)

lemma adds_more_node:
  "\<not> PrettyEdges (ev_options v) \<Longrightarrow> adds (steps fs) t (if t = t' then str else '''') \<Longrightarrow>
   adds (steps (printNode v t' n # fs)) t (if t = t' then pure_text n @ str else '''')"
  using adds_steps_Cons [OF adds_printNode [where v = v and t' = t' and n = n and t = t]] by (auto split: if_splits)

lemma adds_last_put: "adds (steps [put t' x]) t (if t = t' then x else '''')"
  using adds_steps_Cons [OF adds_put [where t' = t' and x = x and t = t] adds_steps_Nil] by simp

lemma adds_local_rows:
  assumes "\<not> PrettyEdges (ev_options v)" and "plain_table t"
    and "local_rows v n (w, out) = Ok (w', out')"
  shows "streams out' t =
      append_to (if node_table t (out_num_allocas out) n then node_row t (out_function out) n else '''') (streams out t) \<and>
    settings out' = settings out"
proof -
  have two: "adds (steps [printNode v t' n, put t' [newline]]) t (if t = t' then pure_text n @ [newline] else '''')" for t'
    using assms(1) by (intro adds_more_node adds_last_put)
  show ?thesis
  proof (cases "local_idx_of n")
    case None
    with addsD [OF two, of IsSymbol w out w' out'] assms(2,3) show ?thesis
      by (cases t) (auto simp: local_rows_def node_row_def)
  next
    case (Some i)
    let ?a = "unat i < unat (out_num_allocas out)"
    have "adds (steps (if ?a then [printNode v IsAlloca n, put IsAlloca [newline]] else [])) t
        (if ?a \<and> t = IsAlloca then pure_text n @ [newline] else '''')"
      using two [of IsAlloca] by (simp add: adds_steps_Nil split: if_splits)
    moreover have "adds (steps [printNode v EnclosingFunctionForLocal (out_function out), put EnclosingFunctionForLocal [tab],
        printNode v EnclosingFunctionForLocal n, put EnclosingFunctionForLocal [newline]]) t
        (if t = EnclosingFunctionForLocal then pure_text (out_function out) @ [tab] @ pure_text n @ [newline] else '''')"
      using assms(1) by (intro adds_more_node adds_more_put adds_last_put)
    ultimately have "adds (steps ((if ?a then [printNode v IsAlloca n, put IsAlloca [newline]] else []) @
        [printNode v EnclosingFunctionForLocal (out_function out), put EnclosingFunctionForLocal [tab],
         printNode v EnclosingFunctionForLocal n, put EnclosingFunctionForLocal [newline]])) t
        ((if ?a \<and> t = IsAlloca then pure_text n @ [newline] else '''') @
         (if t = EnclosingFunctionForLocal then pure_text (out_function out) @ [tab] @ pure_text n @ [newline] else ''''))"
      by (rule adds_steps_append)
    moreover have "(if ?a \<and> t = IsAlloca then pure_text n @ [newline] else '''') @
         (if t = EnclosingFunctionForLocal then pure_text (out_function out) @ [tab] @ pure_text n @ [newline] else '''') =
        (if node_table t (out_num_allocas out) n then node_row t (out_function out) n else '''')"
      using assms(2) Some by (cases t) (auto simp: node_row_def plain_table_def)
    ultimately show ?thesis using assms(3) Some by (auto simp: local_rows_def dest: addsD)
  qed
qed

lemma adds_node_rows:
  assumes p: "\<not> PrettyEdges (ev_options v)" and t: "plain_table t"
    and r: "node_rows v n (w, out) = Ok (w', out')"
  shows "streams out' t =
      append_to (if node_table t (out_num_allocas out) n then node_row t (out_function out) n else '''') (streams out t) \<and>
    settings out' = settings out"
proof -
  let ?g = "if ev_slm v \<noteq> None \<and> local_idx_of n \<noteq> None then emitAddresses v n else Ok"
  from r obtain w1 o1 where 1: "local_rows v n (w, out) = Ok (w1, o1)"
    and 2: "steps [debug_rows v n, star_rows v n, ?g] (w1, o1) = Ok (w', out')"
    by (auto simp: node_rows_def steps_def ok_iff)
  have "adds ?g t ''''" using adds_addresses [of t v n] t by (simp add: plain_table_def adds_Ok)
  then have "adds (steps [debug_rows v n, star_rows v n, ?g]) t ''''"
    using t by (intro adds_steps_nothing) (auto simp: plain_table_def intro: adds_debug_rows adds_star_rows)
  from addsD [OF this 2] adds_local_rows [OF p t 1] show ?thesis by simp
qed

section \<open>Every node once\<close>

text \<open>What a step of the visitor does to one table: it adds rows for the nodes that are new, each once.\<close>

definition symbol_node :: "node \<Rightarrow> node" where
  "symbol_node n = Node (push_bit 16 (drop_bit 16 (raw n)))"

definition describes :: "facts_table \<Rightarrow> string \<Rightarrow> node set \<Rightarrow> facts_output \<Rightarrow> facts_output \<Rightarrow> bool" where
  "describes t str ns out out' \<longleftrightarrow>
     (\<exists>ms. streams out' t = append_to (str @ concat (map (node_row t (out_function out)) ms)) (streams out t) \<and> distinct ms \<and>
       set ms = {m \<in> ns - set (SeenNodes out). node_table t (out_num_allocas out) m}) \<and>
     set (SeenNodes out') = set (SeenNodes out) \<union> ns \<and>
     (settings out')\<lparr>SeenNodes := []\<rparr> = (settings out)\<lparr>SeenNodes := []\<rparr>"

lemma describes_fields:
  "describes t str ns out out' \<Longrightarrow> out_num_allocas out' = out_num_allocas out \<and> out_function out' = out_function out \<and>
   out_files out' = out_files out \<and> set (SeenNodes out') = set (SeenNodes out) \<union> ns"
  by (cases out; cases out') (auto simp: describes_def settings_def)

lemma describes_trans:
  assumes a: "describes t s1 ns1 out1 out2" and b: "describes t s2 ns2 out2 out3" and "ns1 = {} \<or> s2 = '''' \<or> (\<exists>k. t = OutputTable k)"
  shows "describes t (s1 @ s2) (ns1 \<union> ns2) out1 out3"
proof -
  note f = describes_fields [OF a]
  from a obtain ms1 where 1: "streams out2 t = append_to (s1 @ concat (map (node_row t (out_function out1)) ms1)) (streams out1 t)"
    "distinct ms1" "set ms1 = {m \<in> ns1 - set (SeenNodes out1). node_table t (out_num_allocas out1) m}"
    and s1: "(settings out2)\<lparr>SeenNodes := []\<rparr> = (settings out1)\<lparr>SeenNodes := []\<rparr>" by (auto simp: describes_def)
  from b obtain ms2 where 2: "streams out3 t = append_to (s2 @ concat (map (node_row t (out_function out1)) ms2)) (streams out2 t)"
    "distinct ms2" "set ms2 = {m \<in> ns2 - set (SeenNodes out2). node_table t (out_num_allocas out1) m}"
    and s2: "(settings out3)\<lparr>SeenNodes := []\<rparr> = (settings out2)\<lparr>SeenNodes := []\<rparr>"
    using f by (auto simp: describes_def)
  have "ms1 = [] \<or> s2 = ''''" using assms(3) 1(3) by auto
  then have "s1 @ concat (map (node_row t (out_function out1)) ms1) @ s2 @ concat (map (node_row t (out_function out1)) ms2) =
      (s1 @ s2) @ concat (map (node_row t (out_function out1)) (ms1 @ ms2))" by auto
  note eq = this
  have "streams out3 t = append_to ((s1 @ s2) @ concat (map (node_row t (out_function out1)) (ms1 @ ms2))) (streams out1 t)"
    unfolding eq [symmetric] 2(1) 1(1) append_to_append by simp
  moreover have "distinct (ms1 @ ms2)" "set (ms1 @ ms2) =
      {m \<in> (ns1 \<union> ns2) - set (SeenNodes out1). node_table t (out_num_allocas out1) m}"
    using 1 2 f by auto
  moreover have "set (SeenNodes out3) = set (SeenNodes out1) \<union> (ns1 \<union> ns2)"
    using describes_fields [OF b] f by auto
  ultimately show ?thesis unfolding describes_def using s1 s2
    by (intro conjI exI [of _ "ms1 @ ms2"]) (assumption | simp)+
qed

lemma describes_adds:
  "adds f t str \<Longrightarrow> f (w, out) = Ok (w', out') \<Longrightarrow> describes t str {} out out'"
  using settings_fields [of out' out] by (auto simp: describes_def dest: addsD intro!: exI [of _ "[]"])

lemma node_symbol_self: "node_symbol_of n = Ok a \<Longrightarrow> node_symbol a = Ok m \<Longrightarrow> m = symbol_node n"
  by (auto simp: node_symbol_of_def node_symbol_def symbol_of_def symbol_node_def Let_def ok_iff)

lemma symbol_node_idem [simp]: "symbol_node (symbol_node n) = symbol_node n"
proof -
  have "push_bit 16 (drop_bit 16 (push_bit 16 (drop_bit 16 x))) = push_bit 16 (drop_bit 16 x)" for x :: u64
    by (rule bit_word_eqI) (auto simp: bit_simps)
  then show ?thesis by (simp add: symbol_node_def)
qed

text \<open>A visit of a node describes it and its symbol; only nodes whose symbol is among them are seen before.\<close>

definition symbols_seen :: "facts_output \<Rightarrow> bool" where
  "symbols_seen out \<longleftrightarrow> symbol_node ` set (SeenNodes out) \<subseteq> set (SeenNodes out)"

lemma emitNodeInfo_describes:
  assumes "\<not> PrettyEdges (ev_options v)" and "plain_table t"
    and "emitNodeInfo v n (w, out) = Ok (w', out')" and "n \<in> set (SeenNodes out) \<longrightarrow> symbol_node n \<in> set (SeenNodes out)"
  shows "describes t '''' {n, symbol_node n} out out'"
  using assms(1,3,4)
proof (induction v n "(w, out)" arbitrary: w out w' out' rule: emitNodeInfo.induct)
  case (1 v n w out)
  show ?case
  proof (cases "n \<in> set (SeenNodes out)")
    case True
    with 1(3,4) show ?thesis
      by (auto simp: emitNodeInfo.simps [where v = v and n = n] describes_def intro!: exI [of _ "[]"])
  next
    case False
    let ?o = "out\<lparr>SeenNodes := n # SeenNodes out\<rparr>"
    from 1(3) False obtain a m w1 o1 where a: "node_symbol_of n = Ok a" and m: "node_symbol a = Ok m"
      and r: "emitNodeInfo v m (w, ?o) = Ok (w1, o1)" and n: "node_rows v n (w1, o1) = Ok (w', out')"
      by (auto simp: emitNodeInfo.simps [where v = v and n = n] ok_iff)
    have ms: "m = symbol_node n" using node_symbol_self [OF a m] .
    have "describes t '''' {m, symbol_node m} ?o o1"
      using 1(1) [OF False a m 1(2) r] by (simp add: ms)
    then have d: "describes t '''' {m} ?o o1" by (simp add: ms)
    then have seen: "set (SeenNodes o1) = insert m (insert n (set (SeenNodes out)))"
      and f: "out_num_allocas o1 = out_num_allocas out" "out_function o1 = out_function out"
      using describes_fields [OF d] by auto
    have s1: "(settings o1)\<lparr>SeenNodes := []\<rparr> = (settings out)\<lparr>SeenNodes := []\<rparr>"
      using d by (simp add: describes_def settings_def)
    from d obtain xs where "streams o1 t = append_to ('''' @ concat (map (node_row t (out_function ?o)) xs)) (streams ?o t) \<and>
        distinct xs \<and> set xs = {x \<in> {m} - set (SeenNodes ?o). node_table t (out_num_allocas ?o) x}"
      unfolding describes_def by (elim conjE exE) blast
    then have xs: "streams o1 t = append_to (concat (map (node_row t (out_function out)) xs)) (streams out t)"
        "distinct xs" "set xs = {x \<in> {m} - insert n (set (SeenNodes out)). node_table t (out_num_allocas out) x}"
      by simp_all
    note rows = adds_node_rows [OF 1(2) assms(2) n]
    let ?xs = "xs @ (if node_table t (out_num_allocas out) n then [n] else [])"
    have "streams out' t = append_to (concat (map (node_row t (out_function out)) ?xs)) (streams out t)"
      using rows xs(1) f by (simp add: append_to_append)
    moreover have "distinct ?xs" using xs by auto
    moreover have "set ?xs = {x \<in> {n, m} - set (SeenNodes out). node_table t (out_num_allocas out) x}"
      using xs(3) False by auto
    moreover have "set (SeenNodes out') = set (SeenNodes out) \<union> {n, m}"
      using settings_fields [of out' o1] rows seen by auto
    moreover have "(settings out')\<lparr>SeenNodes := []\<rparr> = (settings out)\<lparr>SeenNodes := []\<rparr>" using rows s1 by simp
    ultimately show ?thesis unfolding describes_def ms append_Nil by blast
  qed
qed

section \<open>Edges\<close>

definition edge_row :: "'w visitor \<Rightarrow> edge \<Rightarrow> string" where
  "edge_row v e =
     pure_text (to_node e) @ [tab] @ pure_text (from_node e) @
     (if indexed (kind e) \<and> (kind e = CallK \<longrightarrow> PrintCallArgumentCount (ev_options v))
      then tab # show_dec (unat (edge_idx e)) else '''') @ [newline]"

definition ends :: "edge \<Rightarrow> node set" where
  "ends e = {to_node e, symbol_node (to_node e), from_node e, symbol_node (from_node e)}"

lemma emit_both:
  assumes p: "\<not> PrettyEdges (ev_options v)" and t: "plain_table t" and f: "adds f t str"
    and r: "steps [f, emitNodeInfo v n, emitNodeInfo v m] (w, out) = Ok (w', out')" and s: "symbols_seen out"
  shows "describes t str {n, symbol_node n, m, symbol_node m} out out' \<and> symbols_seen out'"
proof -
  from r obtain w1 o1 w2 o2 where 1: "f (w, out) = Ok (w1, o1)" and 2: "emitNodeInfo v n (w1, o1) = Ok (w2, o2)"
    and 3: "emitNodeInfo v m (w2, o2) = Ok (w', out')"
    by (auto simp: steps_def ok_iff)
  have d1: "describes t str {} out o1" by (rule describes_adds [OF f 1])
  have s1: "symbols_seen o1" using s describes_fields [OF d1] by (simp add: symbols_seen_def)
  have d2: "describes t '''' {n, symbol_node n} o1 o2"
    using s1 by (intro emitNodeInfo_describes [OF p t 2]) (auto simp: symbols_seen_def)
  have s2: "symbols_seen o2" using s1 describes_fields [OF d2] by (auto simp: symbols_seen_def)
  have d3: "describes t '''' {m, symbol_node m} o2 out'"
    using s2 by (intro emitNodeInfo_describes [OF p t 3]) (auto simp: symbols_seen_def)
  have "describes t (str @ '''' @ '''') ({} \<union> ({n, symbol_node n} \<union> {m, symbol_node m})) out out'"
    using describes_trans [OF d1 describes_trans [OF d2 d3]] by simp
  then have "describes t str {n, symbol_node n, m, symbol_node m} out out'" by (simp add: insert_commute)
  moreover have "symbols_seen out'" using s2 describes_fields [OF d3] by (auto simp: symbols_seen_def)
  ultimately show ?thesis by blast
qed

lemma steps_split: "steps (fs @ gs) = steps (steps fs # gs)"
  by (simp add: steps_def fun_eq_iff for_each_append)

text \<open>
  The edges a run of the printer has written: their rows, table by table, and each node at their ends
  described once.
\<close>

definition edges_written :: "'w visitor \<Rightarrow> edge list \<Rightarrow> facts_output \<Rightarrow> facts_output \<Rightarrow> bool" where
  "edges_written v es out out' \<longleftrightarrow> symbols_seen out' \<and>
     (\<forall>t. plain_table t \<longrightarrow> describes t (concat (map (edge_row v) (filter (\<lambda>e. OutputTable (kind e) = t) es)))
       (\<Union> (ends ` set es)) out out')"

lemma edges_written_none: "symbols_seen out \<Longrightarrow> edges_written v [] out out"
  by (auto simp: edges_written_def describes_def intro!: exI [of _ "[]"])

lemma edges_written_append:
  assumes "edges_written v es out o1" and "edges_written v es' o1 out'"
  shows "edges_written v (es @ es') out out'"
  unfolding edges_written_def
proof (intro conjI allI impI)
  show "symbols_seen out'" using assms(2) by (simp add: edges_written_def)
  fix t assume t: "plain_table t"
  let ?s = "\<lambda>es. concat (map (edge_row v) (filter (\<lambda>e. OutputTable (kind e) = t) es))"
  have d: "describes t (?s es) (\<Union> (ends ` set es)) out o1" "describes t (?s es') (\<Union> (ends ` set es')) o1 out'"
    using assms t by (simp_all add: edges_written_def)
  have "?s es' = '''' \<or> (\<exists>k. t = OutputTable k)" by (cases t) (auto simp: filter_empty_conv)
  with describes_trans [OF d] show "describes t (?s (es @ es')) (\<Union> (ends ` set (es @ es'))) out out'"
    by (auto simp: Un_commute)
qed

lemma edges_written_one:
  assumes "\<And>t. plain_table t \<Longrightarrow>
    describes t (if t = OutputTable (kind e) then edge_row v e else '''') (ends e) out out' \<and> symbols_seen out'"
  shows "edges_written v [e] out out'"
proof -
  have "plain_table (OutputTable (kind e))" by (simp add: plain_table_def)
  with assms have s: "symbols_seen out'" by blast
  have r: "concat (map (edge_row v) (filter (\<lambda>e. OutputTable (kind e) = t) [e])) =
      (if t = OutputTable (kind e) then edge_row v e else '''')" for t by auto
  show ?thesis unfolding edges_written_def r using assms s by simp
qed

text \<open>Every table's share of one row: the two nodes, the text between and after them.\<close>

lemma adds_row:
  assumes p: "\<not> PrettyEdges (ev_options v)" and "adds (steps fs) t (if t = OutputTable k then str else '''')"
  shows "adds (steps ([printNode v (OutputTable k) n, put (OutputTable k) [tab], printNode v (OutputTable k) m] @ fs)) t
      (if t = OutputTable k then pure_text n @ [tab] @ pure_text m @ str else '''')"
  using adds_more_node [OF p adds_more_put [OF adds_more_node [OF p assms(2)]]] by simp

lemma singleton_written:
  assumes p: "\<not> PrettyEdges (ev_options v)" and s: "symbols_seen out"
    and k: "\<not> (indexed (kind e) \<and> (kind e = CallK \<longrightarrow> PrintCallArgumentCount (ev_options v)))"
    and r: "printSingletonEdge v (kind e) (to_node e) (from_node e) (w, out) = Ok (w', out')"
  shows "edges_written v [e] out out'"
proof (rule edges_written_one)
  fix t assume t: "plain_table t"
  let ?t = "OutputTable (kind e)"
  have one: "adds (steps [put ?t [newline]]) t (if t = ?t then [newline] else '''')"
    by (rule adds_last_put)
  have "steps [steps ([printNode v ?t (to_node e), put ?t [tab], printNode v ?t (from_node e)] @
      [put ?t [newline]]), emitNodeInfo v (to_node e), emitNodeInfo v (from_node e)] (w, out) = Ok (w', out')"
    using r by (simp add: printSingletonEdge_def flip: steps_split)
  from emit_both [OF p t adds_row [OF p one] this s] k
  show "describes t (if t = ?t then edge_row v e else '''') (ends e) out out' \<and> symbols_seen out'"
    by (auto simp: edge_row_def ends_def)
qed

lemma indexed_written:
  assumes p: "\<not> PrettyEdges (ev_options v)" and s: "symbols_seen out"
    and k: "indexed (kind e) \<and> (kind e = CallK \<longrightarrow> PrintCallArgumentCount (ev_options v))"
    and r: "printIndexedEdge v (kind e) (to_node e) (from_node e) (edge_idx e) (w, out) = Ok (w', out')"
  shows "edges_written v [e] out out'"
proof (rule edges_written_one)
  fix t assume t: "plain_table t"
  let ?t = "OutputTable (kind e)"
  have three: "adds (steps [put ?t [tab], put ?t (show_dec (unat (edge_idx e))), put ?t [newline]]) t
      (if t = ?t then [tab] @ show_dec (unat (edge_idx e)) @ [newline] else '''')"
    by (intro adds_more_put adds_last_put)
  have "steps [steps ([printNode v ?t (to_node e), put ?t [tab], printNode v ?t (from_node e)] @
      [put ?t [tab], put ?t (show_dec (unat (edge_idx e))), put ?t [newline]]), emitNodeInfo v (to_node e),
      emitNodeInfo v (from_node e)] (w, out) = Ok (w', out')"
    using r by (simp add: printIndexedEdge_def flip: steps_split)
  from emit_both [OF p t adds_row [OF p three] this s] k
  show "describes t (if t = ?t then edge_row v e else '''') (ends e) out out' \<and> symbols_seen out'"
    by (auto simp: edge_row_def ends_def)
qed

text \<open>
  The edges printed for one edge of the graph: the edge itself, and for a \<open>DlsymPagePointer\<close> edge, before
  it, an \<open>Assign\<close> edge from each pointer on its pages.
\<close>

definition pointer_edges :: "edge \<Rightarrow> u64 list \<Rightarrow> edge list" where
  "pointer_edges e ps = map (\<lambda>p. Edge AssignK (to_node e) (pointer_node p) 0) ps"

definition edge_pointers :: "'w object_api \<Rightarrow> edge \<Rightarrow> u64 list \<Rightarrow> bool" where
  "edge_pointers api e ps \<longleftrightarrow> (if kind e = DlsymPagePointerK then pointers_read api e ps else ps = [])"

definition printed_edges :: "edge \<Rightarrow> u64 list \<Rightarrow> edge list" where
  "printed_edges e ps = pointer_edges e ps @ [e]"

definition assign_pointer :: "'w visitor \<Rightarrow> node \<Rightarrow> u64 \<Rightarrow> 'w \<times> facts_output \<Rightarrow> ('w \<times> facts_output) result" where
  "assign_pointer v n p s = try_ctx ''Dlsym artifical assign edge''
     (try_r (node_symbol p) (\<lambda>m. try_r (mk_edge AssignK n m 0) (\<lambda>e.
        printSingletonEdge v AssignK (to_node e) (from_node e) s))) Ok"

lemma assign_pointer_ok:
  "assign_pointer v n p s = Ok s' \<longleftrightarrow>
    (\<exists>m. node_symbol p = Ok m \<and> is_node n \<and> is_node m \<and> printSingletonEdge v AssignK n m s = Ok s')"
  by (cases s') (auto simp: assign_pointer_def ok_iff mk_edge_def)

lemma assign_pointers_written:
  assumes p: "\<not> PrettyEdges (ev_options v)"
  shows "for_each (assign_pointer v (to_node ed)) ps (w, out) = Ok (w', out') \<Longrightarrow> symbols_seen out \<Longrightarrow>
    edges_written v (pointer_edges ed ps) out out'"
proof (induction ps arbitrary: w out)
  case Nil
  then show ?case by (simp add: pointer_edges_def edges_written_none)
next
  case (Cons q ps)
  let ?e = "Edge AssignK (to_node ed) (pointer_node q) 0"
  from Cons.prems(1) obtain w1 o1 m where "node_symbol q = Ok m"
    "printSingletonEdge v AssignK (to_node ed) m (w, out) = Ok (w1, o1)"
    "for_each (assign_pointer v (to_node ed)) ps (w1, o1) = Ok (w', out')" by (auto simp: ok_iff assign_pointer_ok)
  with node_symbol_pointer have 1: "printSingletonEdge v (kind ?e) (to_node ?e) (from_node ?e) (w, out) = Ok (w1, o1)"
    and 2: "for_each (assign_pointer v (to_node ed)) ps (w1, o1) = Ok (w', out')" by auto
  have w1: "edges_written v [?e] out o1" using singleton_written [OF p Cons.prems(2) _ 1] by simp
  then have "symbols_seen o1" by (simp add: edges_written_def)
  from edges_written_append [OF w1 Cons.IH [OF 2 this]] show ?case by (simp add: pointer_edges_def)
qed

lemma dlsym_assigns_step:
  "dlsym_assigns (Suc fuel) v n page (w, out) =
     (if page = 0 then Ok (w, out)
      else try_ctx ''dlsym page count'' (copyData (ev_api v) 8 (page + 8) w) (\<lambda>(count, w).
           try_ctx ''dlsym page body pointers'' (resolvePointers (ev_api v) page_pointers (page + 16) w) (\<lambda>(pointers, w).
           try_r (for_each (assign_pointer v n) (take (min (unat (read64 count)) page_pointers) pointers) (w, out)) (\<lambda>(w, out).
           try_ctx ''dlsym page next pointer'' (resolvePointers (ev_api v) 1 page w) (\<lambda>(next_page, w).
             dlsym_assigns fuel v n (hd next_page) (w, out))))))"
  by (simp add: assign_pointer_def [abs_def] Let_def)

lemma dlsym_assigns_written:
  assumes p: "\<not> PrettyEdges (ev_options v)"
  shows "dlsym_assigns fuel v (to_node ed) page (w, out) = Ok (w', out') \<Longrightarrow> symbols_seen out \<Longrightarrow>
    \<exists>ps. pages_read (ev_api v) page ps \<and> edges_written v (pointer_edges ed ps) out out'"
proof (induction fuel arbitrary: page w out)
  case (Suc fuel)
  show ?case
  proof (cases "page = 0")
    case True
    with Suc.prems show ?thesis
      by (intro exI [of _ "[]"]) (simp add: pages_end pointer_edges_def edges_written_none)
  next
    case False
    with Suc.prems(1) obtain cnt w1 pointers w2 w3 out3 nxt w4 where
      r: "copyData (ev_api v) 8 (page + 8) w = Ok (cnt, w1)"
      "resolvePointers (ev_api v) page_pointers (page + 16) w1 = Ok (pointers, w2)"
      "resolvePointers (ev_api v) 1 page w3 = Ok (nxt, w4)"
      and f: "for_each (assign_pointer v (to_node ed)) (take (min (unat (read64 cnt)) page_pointers) pointers) (w2, out) =
        Ok (w3, out3)"
      and rest: "dlsym_assigns fuel v (to_node ed) (hd nxt) (w4, out3) = Ok (w', out')"
      unfolding dlsym_assigns_step by (auto simp: ok_iff)
    note 1 = assign_pointers_written [OF p f Suc.prems(2)]
    then have "symbols_seen out3" by (simp add: edges_written_def)
    from Suc.IH [OF rest this] obtain ps where 2: "pages_read (ev_api v) (hd nxt) ps"
      "edges_written v (pointer_edges ed ps) out3 out'" by blast
    from pages_more [OF False r 2(1)] edges_written_append [OF 1 2(2)] show ?thesis
      by (intro exI [of _ "take (min (unat (read64 cnt)) page_pointers) pointers @ ps"]) (simp add: pointer_edges_def)
  qed
qed simp

lemma output_edge_written:
  assumes p: "\<not> PrettyEdges (ev_options v)"
    and r: "output_edge v e (w, out) = Ok (w', out')" and s: "symbols_seen out"
  shows "\<exists>ps. edge_pointers (ev_api v) e ps \<and> edges_written v (printed_edges e ps) out out'"
proof -
  have v: "visit_edge_inner v e (w, out) = Ok (w', out')" using r by (auto simp: output_edge_def Let_def ok_iff)
  show ?thesis
  proof (cases "kind e = DlsymPagePointerK")
    case True
    with v obtain page w1 w2 o2 where
      1: "resolvePointers (ev_api v) 1 (symbol_of (from_node e)) w = Ok (page, w1)"
      and 2: "dlsym_assigns (dlsym_fuel (ev_env v)) v (to_node e) (hd page) (w1, out) = Ok (w2, o2)"
      and 3: "printSingletonEdge v (kind e) (to_node e) (from_node e) (w2, o2) = Ok (w', out')"
      by (auto simp: visit_edge_inner_def ok_iff)
    from dlsym_assigns_written [OF p 2 s] obtain ps where ps: "pages_read (ev_api v) (hd page) ps"
      "edges_written v (pointer_edges e ps) out o2" by blast
    then have "symbols_seen o2" by (simp add: edges_written_def)
    from edges_written_append [OF ps(2) singleton_written [OF p this _ 3]] 1 ps(1) True show ?thesis
      by (auto simp: edge_pointers_def pointers_read_def printed_edges_def)
  next
    case k: False
    have "edges_written v [e] out out'"
    proof (cases "indexed (kind e) \<and> (kind e = CallK \<longrightarrow> PrintCallArgumentCount (ev_options v))")
      case True
      then have "printIndexedEdge v (kind e) (to_node e) (from_node e) (edge_idx e) (w, out) = Ok (w', out')"
        using v k by (cases "kind e") (auto simp: visit_edge_inner_def num_components_def)
      from indexed_written [OF p s True this] show ?thesis .
    next
      case False
      then have "printSingletonEdge v (kind e) (to_node e) (from_node e) (w, out) = Ok (w', out')"
        using v k by (cases "kind e") (auto simp: visit_edge_inner_def num_components_def)
      from singleton_written [OF p s False this] show ?thesis .
    qed
    with k show ?thesis
      by (intro exI [of _ "[]"]) (simp add: edge_pointers_def printed_edges_def pointer_edges_def)
  qed
qed

lemma output_edges_written:
  assumes p: "\<not> PrettyEdges (ev_options v)"
  shows "for_each (output_edge v) es (w, out) = Ok (w', out') \<Longrightarrow> symbols_seen out \<Longrightarrow>
    \<exists>pss. list_all2 (edge_pointers (ev_api v)) es pss \<and> edges_written v (concat (map2 printed_edges es pss)) out out'"
proof (induction es arbitrary: w out)
  case Nil
  then show ?case by (intro exI [of _ "[]"]) (simp add: edges_written_none)
next
  case (Cons e es)
  from Cons.prems(1) obtain w1 o1 where 1: "output_edge v e (w, out) = Ok (w1, o1)"
    and 2: "for_each (output_edge v) es (w1, o1) = Ok (w', out')" by (auto simp: ok_iff)
  from output_edge_written [OF p 1 Cons.prems(2)] obtain ps where ps: "edge_pointers (ev_api v) e ps"
    "edges_written v (printed_edges e ps) out o1" by blast
  then have "symbols_seen o1" by (simp add: edges_written_def)
  from Cons.IH [OF 2 this] obtain pss where "list_all2 (edge_pointers (ev_api v)) es pss"
    "edges_written v (concat (map2 printed_edges es pss)) o1 out'" by blast
  with ps edges_written_append [OF ps(2)] show ?case by (intro exI [of _ "ps # pss"]) simp
qed

section \<open>Streams stay open\<close>

definition extends :: "('w \<times> facts_output \<Rightarrow> ('w \<times> facts_output) result) \<Rightarrow> bool" where
  "extends f \<longleftrightarrow> (\<forall>w out w' out' t. f (w, out) = Ok (w', out') \<longrightarrow>
     map_option fst (streams out' t) = map_option fst (streams out t))"

lemma extendsD:
  "extends f \<Longrightarrow> f (w, out) = Ok (w', out') \<Longrightarrow> map_option fst (streams out' t) = map_option fst (streams out t)"
  by (auto simp: extends_def)

lemma extends_for_each: "(\<And>x. x \<in> set xs \<Longrightarrow> extends (f x)) \<Longrightarrow> extends (for_each f xs)"
proof (induction xs)
  case (Cons x xs)
  then have "extends (f x)" "extends (for_each f xs)" by simp_all
  then show ?case by (fastforce simp: extends_def ok_iff)
qed (simp add: extends_def)

lemma extends_steps: "(\<And>f. f \<in> set fs \<Longrightarrow> extends f) \<Longrightarrow> extends (steps fs)"
  unfolding steps_def by (rule extends_for_each) auto

lemma extends_put: "extends (put t x)"
  by (auto simp: extends_def put_def option.map_comp comp_def case_prod_beta)

lemma extends_printNode: "extends (printNode v t n)"
  using extends_put by (fastforce simp: extends_def printNode_def printDebugNode_def printNodePure_def ok_iff)

lemma extends_printDebugNode: "extends (printDebugNode v t n)" and extends_pure: "extends (printNodePure t n)"
  using extends_put by (fastforce simp: extends_def printDebugNode_def printNodePure_def ok_iff)+

lemma extends_starred: "extends (printStarredNode v t k n)" and extends_final: "extends (printFinalStarredNode v t n)"
  by (auto simp: printStarredNode_def printFinalStarredNode_def intro!: extends_steps extends_put extends_printNode)

lemmas extends_rules = extends_for_each extends_steps extends_put extends_printNode extends_printDebugNode extends_pure
  extends_starred extends_final

lemma extends_local_rows: "extends (local_rows v n)"
proof (cases "local_idx_of n")
  case None
  have "extends (steps [printNode v IsSymbol n, put IsSymbol [newline]])"
    by (rule extends_steps) (auto intro: extends_rules)
  with None show ?thesis by (simp add: local_rows_def extends_def)
next
  case (Some i)
  have "extends (steps ((if unat i < unat k then [printNode v IsAlloca n, put IsAlloca [newline]] else []) @
      [printNode v EnclosingFunctionForLocal f, put EnclosingFunctionForLocal [tab],
       printNode v EnclosingFunctionForLocal n, put EnclosingFunctionForLocal [newline]]))" for k :: u32 and f
    by (rule extends_steps) (auto intro: extends_rules split: if_splits)
  from extendsD [OF this] Some show ?thesis unfolding extends_def by (auto simp: local_rows_def)
qed

lemma extends_debug_rows: "extends (debug_rows v n)"
proof -
  have e: "extends (steps ([printNode v DebugTable n, put DebugTable [tab], printDebugNode v DebugTable n, put DebugTable [newline]] @
      (if PrettyEdges (ev_options v)
       then [printNodePure DebugTable n, put DebugTable [tab], printDebugNode v DebugTable n, put DebugTable [newline]]
       else [])))"
    by (rule extends_steps) (auto intro: extends_rules split: if_splits)
  show ?thesis
    using e unfolding extends_def [of "debug_rows v n"]
    by (cases "PrettyEdges (ev_options v)") (auto simp: debug_rows_def split: result.splits dest: extendsD)
qed

lemma extends_star_rows: "extends (star_rows v n)"
  unfolding star_rows_def by (rule extends_steps) (auto intro: extends_rules)

lemma extends_addresses: "extends (emitAddresses v n)"
proof -
  have "extends (put_addresses v n (b, e))" for b e
  proof (cases "e = - 1")
    case True
    then show ?thesis by (simp add: put_addresses_def extends_def)
  next
    case False
    have "extends (for_each (\<lambda>a. steps [put NodeInstructions (show_hex16 (of_nat a) @ [tab]), printNode v NodeInstructions n,
        put NodeInstructions [newline]]) [unat b..<Suc (unat e)])"
      by (intro extends_for_each extends_steps) (auto intro: extends_rules)
    with False show ?thesis by (simp add: put_addresses_def)
  qed
  then have "extends (put_addresses v n r)" for r by (cases r) simp
  then have a: "extends (for_each (put_addresses v n) rs)" for rs by (rule extends_for_each)
  show ?thesis
    unfolding extends_def by (auto simp: emitAddresses_def ok_iff split: option.splits if_splits dest: extendsD [OF a])
qed

lemma extends_node_rows: "extends (node_rows v n)"
  unfolding node_rows_def
  by (rule extends_steps) (auto intro: extends_local_rows extends_debug_rows extends_star_rows extends_addresses
      simp: extends_def [of Ok])

lemma emitNodeInfo_streams:
  "emitNodeInfo v n (w, out) = Ok (w', out') \<Longrightarrow> map_option fst (streams out' t) = map_option fst (streams out t)"
proof (induction v n "(w, out)" arbitrary: w out w' out' rule: emitNodeInfo.induct)
  case (1 v n w out)
  show ?case
  proof (cases "n \<in> set (SeenNodes out)")
    case True
    with 1(2) show ?thesis by (simp add: emitNodeInfo.simps [where v = v and n = n])
  next
    case False
    with 1(2) obtain a m w1 o1 where a: "node_symbol_of n = Ok a" and m: "node_symbol a = Ok m"
      and r: "emitNodeInfo v m (w, out\<lparr>SeenNodes := n # SeenNodes out\<rparr>) = Ok (w1, o1)"
      and n: "node_rows v n (w1, o1) = Ok (w', out')"
      by (auto simp: emitNodeInfo.simps [where v = v and n = n] ok_iff)
    from 1(1) [OF False a m r] extendsD [OF extends_node_rows n] show ?thesis by simp
  qed
qed

lemma extends_emitNodeInfo: "extends (emitNodeInfo v n)"
  by (simp add: extends_def emitNodeInfo_streams)

lemma extends_edge: "extends (printSingletonEdge v k n m)" "extends (printIndexedEdge v k n m i)"
  unfolding printSingletonEdge_def printIndexedEdge_def
  by (rule extends_steps; auto intro: extends_rules extends_emitNodeInfo)+

lemma extends_assign_pointer: "extends (assign_pointer v n p)"
  by (auto simp: extends_def assign_pointer_ok dest: extendsD [OF extends_edge(1)])

lemma extends_dlsym_assigns:
  "dlsym_assigns fuel v n page (w, out) = Ok (w', out') \<Longrightarrow>
    map_option fst (streams out' t) = map_option fst (streams out t)"
proof (induction fuel arbitrary: page w out)
  case (Suc fuel)
  have e: "extends (for_each (assign_pointer v n) ps)" for ps by (intro extends_for_each extends_assign_pointer)
  show ?case
    using Suc.prems Suc.IH unfolding dlsym_assigns_step
    by (auto simp: ok_iff split: if_splits dest!: extendsD [OF e, where t = t])
qed simp

lemma extends_output_edge: "extends (output_edge v e)"
  unfolding extends_def
proof (intro allI impI)
  fix w out w' out' t
  assume "output_edge v e (w, out) = Ok (w', out')"
  then have v: "visit_edge_inner v e (w, out) = Ok (w', out')" by (auto simp: output_edge_def Let_def ok_iff)
  then show "map_option fst (streams out' t) = map_option fst (streams out t)"
    by (cases "kind e") (auto simp: visit_edge_inner_def num_components_def ok_iff Let_def split: if_splits
        dest!: extendsD [OF extends_edge(1), where t = t] extendsD [OF extends_edge(2), where t = t]
          extends_dlsym_assigns [where t = t])
qed

section \<open>Opening and closing the tables\<close>

definition table_path :: "'w visitor \<Rightarrow> node \<Rightarrow> facts_table \<Rightarrow> string" where
  "table_path v f t = path_in (PathOfSymbol (ev_prefix v) (symbol_of f)) (table_name t @ ''.facts'')"

lemma all_tables_set: "set all_tables = UNIV" "distinct all_tables"
proof -
  have "t \<in> set all_tables" for t using set_all_kinds by (cases t) (auto simp: all_tables_def)
  then show "set all_tables = UNIV" by blast
  show "distinct all_tables" using distinct_all_kinds by (auto simp: all_tables_def distinct_map inj_on_def)
qed

lemma table_name_inject: "table_name t = table_name u \<longleftrightarrow> t = u"
proof -
  have "distinct (map table_name all_tables)" by (simp add: all_tables_def all_kinds_def)
  then have "inj table_name" by (simp add: distinct_map all_tables_set)
  then show ?thesis by (rule inj_eq)
qed

lemma table_path_inject: "table_path v f t = table_path v f u \<longleftrightarrow> t = u"
  by (simp add: table_path_def path_in_def table_name_inject)

definition same_function :: "facts_output \<Rightarrow> facts_output \<Rightarrow> bool" where
  "same_function out out' \<longleftrightarrow> SeenNodes out' = SeenNodes out \<and> out_function out' = out_function out \<and>
     out_num_allocas out' = out_num_allocas out \<and> out_debug_data out' = out_debug_data out"

lemma open_facts_ok:
  "open_facts v t (w, out) = Ok (w', out') \<Longrightarrow>
   streams out' = (streams out)(t := Some (table_path v (out_function out) t, '''')) \<and> same_function out out'"
  by (auto simp: open_facts_def open_facts_for_symbol_def node_symbol_of_def table_path_def same_function_def ok_iff Let_def
      split: option.splits)

lemma open_all:
  "for_each (open_facts v) ts (w, out) = Ok (w', out') \<Longrightarrow>
   (\<forall>t. streams out' t = (if t \<in> set ts then Some (table_path v (out_function out) t, '''') else streams out t)) \<and>
   same_function out out'"
proof (induction ts arbitrary: w out)
  case (Cons t ts)
  then obtain w1 o1 where 1: "open_facts v t (w, out) = Ok (w1, o1)"
    and 2: "for_each (open_facts v) ts (w1, o1) = Ok (w', out')" by (auto simp: ok_iff)
  from Cons.IH [OF 2] open_facts_ok [OF 1] show ?case by (auto simp: same_function_def)
qed (simp add: same_function_def)

lemma close_facts_ok:
  "close_facts v t (w, out) = Ok (w', out') \<Longrightarrow> \<exists>p c. streams out t = Some (p, c) \<and>
   streams out' = (streams out)(t := None) \<and> out_files out' = AList.update p c (out_files out)"
  by (auto simp: close_facts_def ok_iff split: option.splits prod.splits)

lemma close_all:
  assumes "for_each (close_facts v) ts (w, out) = Ok (w', out')" and "distinct ts"
    and "\<And>t. t \<in> set ts \<Longrightarrow> \<exists>c. streams out t = Some (table_path v f t, c)"
  shows "(\<forall>t\<in>set ts. map_of (out_files out') (table_path v f t) = map_option snd (streams out t)) \<and>
    (\<forall>q. (\<forall>t\<in>set ts. table_path v f t \<noteq> q) \<longrightarrow> map_of (out_files out') q = map_of (out_files out) q)"
  using assms
proof (induction ts arbitrary: w out)
  case (Cons t ts)
  then obtain w1 o1 where 1: "close_facts v t (w, out) = Ok (w1, o1)"
    and 2: "for_each (close_facts v) ts (w1, o1) = Ok (w', out')" by (auto simp: ok_iff)
  obtain c where c: "streams out t = Some (table_path v f t, c)" using Cons.prems(3) by auto
  have s: "streams o1 = (streams out)(t := None)" and fs: "out_files o1 = AList.update (table_path v f t) c (out_files out)"
    using close_facts_ok [OF 1] c by auto
  have "\<exists>c. streams o1 u = Some (table_path v f u, c)" if "u \<in> set ts" for u
    using Cons.prems(2,3) that by (auto simp: s)
  note IH = Cons.IH [OF 2 _ this]
  have ne: "t \<notin> set ts" using Cons.prems(2) by simp
  then have t: "map_of (out_files out') (table_path v f t) = Some c"
    using IH [THEN conjunct2, rule_format, of "table_path v f t"] Cons.prems(2)
    by (auto simp: fs table_path_inject update_conv')
  have u: "map_of (out_files out') (table_path v f u) = map_option snd (streams out u)" if "u \<in> set ts" for u
    using IH Cons.prems(2) that ne by (auto simp: s)
  have q: "map_of (out_files out') q = map_of (out_files out) q" if "\<forall>u\<in>set (t # ts). table_path v f u \<noteq> q" for q
    using IH Cons.prems(2) that by (auto simp: fs update_conv')
  show ?case using t u q c by auto
qed simp

lemma write_facts_file_ok:
  "write_facts_file v a nm suffix content out = Ok (p, out') \<Longrightarrow> streams out' = streams out \<and> same_function out out'"
  by (auto simp: write_facts_file_def open_facts_for_symbol_def same_function_def ok_iff Let_def split: option.splits)

lemma enter_function_ok:
  assumes "enter_function v f n d si (w, out) = Ok (w', out')"
  shows "is_node f \<and> SeenNodes out' = [] \<and> out_function out' = f \<and> out_num_allocas out' = n \<and>
    (\<forall>t. \<exists>c. streams out' t = Some (table_path v f t, c) \<and> (t \<noteq> SbomTable \<longrightarrow> c = ''''))"
proof -
  let ?o = "out\<lparr>out_function := f, out_num_allocas := n, out_debug_data := Some d\<rparr>"
  from assms obtain nm w0 w1 o1 p o2 where f: "is_node f"
    and 1: "for_each (open_facts v) all_tables (w0, ?o\<lparr>function_name := nm, SeenNodes := []\<rparr>) = Ok (w1, o1)"
    and 2: "write_facts_file v (symbol_of f) ''function-name.txt'' '''' nm o1 = Ok (p, o2)"
    and 3: "(case si of None \<Rightarrow> Ok (w1, o2) | Some i \<Rightarrow> printSbomInfo v i f (w1, o2)) = Ok (w', out')"
    by (auto simp: enter_function_def node_symbol_of_def ok_iff Let_def)
  from open_all [OF 1] write_facts_file_ok [OF 2] all_tables_set
  have o2: "SeenNodes o2 = []" "out_function o2 = f" "out_num_allocas o2 = n"
    "\<And>t. streams o2 t = Some (table_path v f t, '''')"
    by (auto simp: same_function_def)
  show ?thesis
  proof (cases si)
    case None
    with 3 f o2 show ?thesis by auto
  next
    case (Some i)
    with 3 have r: "printSbomInfo v i f (w1, o2) = Ok (w', out')" by simp
    have a: "adds (printSbomInfo v i f) t ''''" if "t \<noteq> SbomTable" for t
      unfolding printSbomInfo_def using that by (intro adds_steps_nothing) (auto intro: adds_other)
    have same: "settings out' = settings o2" using addsD [OF a [of IsSymbol] r] by simp
    have "\<exists>c. streams out' t = Some (table_path v f t, c) \<and> (t \<noteq> SbomTable \<longrightarrow> c = '''')" for t
    proof (cases "t = SbomTable")
      case False
      with addsD [OF a r] o2 show ?thesis by simp
    next
      case True
      have "extends (printSbomInfo v i f)"
        unfolding printSbomInfo_def by (auto intro!: extends_rules)
      from extendsD [OF this r, of t] o2(4) [of t] True show ?thesis by (cases "streams out' t") auto
    qed
    with f o2 settings_fields [OF same] show ?thesis by auto
  qed
qed

section \<open>The tables of a function\<close>

lemma edges_printed:
  assumes 1: "enter_function v f n dbg sbom (w, out) = Ok (w1, o1)"
    and es: "for_each (output_edge v) es (w1, o1) = Ok (w2, o2)"
    and p: "\<not> PrettyEdges (ev_options v)"
  shows "\<exists>c. streams o2 t = Some (table_path v f t, c)"
    and "\<exists>pss. list_all2 (edge_pointers (ev_api v)) es pss \<and>
      (\<forall>t. plain_table t \<and> t \<noteq> SbomTable \<longrightarrow>
        (\<exists>ns. distinct ns \<and> set ns = {m \<in> \<Union> (ends ` set (concat (map2 printed_edges es pss))). node_table t n m} \<and>
          streams o2 t = Some (table_path v f t,
            concat (map (edge_row v) (filter (\<lambda>e. OutputTable (kind e) = t) (concat (map2 printed_edges es pss)))) @
            concat (map (node_row t f) ns))))"
proof -
  note e = enter_function_ok [OF 1]
  have seen: "symbols_seen o1" using e by (simp add: symbols_seen_def)
  have ext: "extends (for_each (output_edge v) es)" by (intro extends_for_each extends_output_edge)
  obtain c where "streams o1 t = Some (table_path v f t, c)" using e by blast
  with extendsD [OF ext es, of t] show "\<exists>c. streams o2 t = Some (table_path v f t, c)" by (cases "streams o2 t") auto
  from output_edges_written [OF p es seen] obtain pss where ps: "list_all2 (edge_pointers (ev_api v)) es pss"
    and wr: "edges_written v (concat (map2 printed_edges es pss)) o1 o2" by blast
  let ?es = "concat (map2 printed_edges es pss)"
  have "\<exists>ns. distinct ns \<and> set ns = {m \<in> \<Union> (ends ` set ?es). node_table t n m} \<and>
      streams o2 t = Some (table_path v f t,
        concat (map (edge_row v) (filter (\<lambda>e. OutputTable (kind e) = t) ?es)) @ concat (map (node_row t f) ns))"
    if t: "plain_table t" "t \<noteq> SbomTable" for t
  proof -
    have "describes t (concat (map (edge_row v) (filter (\<lambda>e. OutputTable (kind e) = t) ?es))) (\<Union> (ends ` set ?es)) o1 o2"
      using wr t by (simp add: edges_written_def)
    then obtain ns where
      "streams o2 t = append_to (concat (map (edge_row v) (filter (\<lambda>e. OutputTable (kind e) = t) ?es)) @
        concat (map (node_row t (out_function o1)) ns)) (streams o1 t)" "distinct ns"
      "set ns = {n \<in> \<Union> (ends ` set ?es) - set (SeenNodes o1). node_table t (out_num_allocas o1) n}"
      unfolding describes_def by (elim conjE exE) blast
    moreover have "streams o1 t = Some (table_path v f t, '''')" using e t(2) by auto
    ultimately show ?thesis using e by (intro exI [of _ ns]) simp
  qed
  with ps show "\<exists>pss. list_all2 (edge_pointers (ev_api v)) es pss \<and>
      (\<forall>t. plain_table t \<and> t \<noteq> SbomTable \<longrightarrow>
        (\<exists>ns. distinct ns \<and> set ns = {m \<in> \<Union> (ends ` set (concat (map2 printed_edges es pss))). node_table t n m} \<and>
          streams o2 t = Some (table_path v f t,
            concat (map (edge_row v) (filter (\<lambda>e. OutputTable (kind e) = t) (concat (map2 printed_edges es pss)))) @
            concat (map (node_row t f) ns))))" by (intro exI [of _ pss]) simp
qed

text \<open>
  C19. The facts of a function, printed by address. The edges printed are those of the graph, in its order,
  and before each \<open>DlsymPagePointer\<close> edge one \<open>Assign\<close> edge to its output node from every pointer on the
  pages its page pointer leads to (null pointers included). The file of an edge kind has one row for each
  edge of that kind among them and no other; of the node tables, the three of symbols, of locals with
  their function and of allocas describe each node at the ends of those edges, and the symbol it belongs
  to, exactly once.
\<close>

theorem function_tables:
  assumes "output_function v fi (w, out) = Ok (w', out')" and "\<not> PrettyEdges (ev_options v)"
    and "edges_of fi = Ok es"
  shows "\<exists>pss. list_all2 (edge_pointers (ev_api v)) es pss \<and>
    (\<forall>k. map_of (out_files out') (table_path v (fi_function fi) (OutputTable k)) =
      Some (concat (map (edge_row v) (filter (\<lambda>e. kind e = k) (concat (map2 printed_edges es pss)))))) \<and>
    (\<forall>t\<in>{IsSymbol, IsAlloca, EnclosingFunctionForLocal}. \<exists>ns. distinct ns \<and>
      set ns = {n \<in> \<Union> (ends ` set (concat (map2 printed_edges es pss))). node_table t (fi_num_allocas fi) n} \<and>
      map_of (out_files out') (table_path v (fi_function fi) t) =
        Some (concat (map (node_row t (fi_function fi)) ns)))"
proof -
  let ?f = "fi_function fi"
  from assms(1) obtain w1 o1 w2 o2 where
    1: "enter_function v ?f (fi_num_allocas fi) (fi_debug_data fi) (fi_sbom_info fi) (w, out) = Ok (w1, o1)"
    and 2: "visitAllEdges fi (output_edge v) (w1, o1) = Ok (w2, o2)"
    and 3: "for_each (close_facts v) all_tables (w2, o2) = Ok (w', out')"
    by (auto simp: output_function_def exit_function_def ok_iff)
  have es: "for_each (output_edge v) es (w1, o1) = Ok (w2, o2)"
    using visitAllEdges_log [OF 2] assms(3) by auto
  from edges_printed(2) [OF 1 es assms(2)] obtain pss where ps: "list_all2 (edge_pointers (ev_api v)) es pss"
    and d: "\<And>t. plain_table t \<Longrightarrow> t \<noteq> SbomTable \<Longrightarrow>
      \<exists>ns. distinct ns \<and> set ns = {m \<in> \<Union> (ends ` set (concat (map2 printed_edges es pss))). node_table t (fi_num_allocas fi) m} \<and>
        streams o2 t = Some (table_path v ?f t,
          concat (map (edge_row v) (filter (\<lambda>e. OutputTable (kind e) = t) (concat (map2 printed_edges es pss)))) @
          concat (map (node_row t ?f) ns))" by blast
  let ?es = "concat (map2 printed_edges es pss)"
  from close_all [OF 3 all_tables_set(2) edges_printed(1) [OF 1 es assms(2)]]
  have files: "map_of (out_files out') (table_path v ?f t) = map_option snd (streams o2 t)" for t
    using all_tables_set by simp
  have "map_of (out_files out') (table_path v ?f (OutputTable k)) =
      Some (concat (map (edge_row v) (filter (\<lambda>e. kind e = k) ?es)))" for k
  proof -
    obtain ns where ns: "set ns = {n \<in> \<Union> (ends ` set ?es). node_table (OutputTable k) (fi_num_allocas fi) n}"
      "streams o2 (OutputTable k) = Some (table_path v ?f (OutputTable k),
        concat (map (edge_row v) (filter (\<lambda>e. OutputTable (kind e) = OutputTable k) ?es)) @
        concat (map (node_row (OutputTable k) ?f) ns))"
      using d [of "OutputTable k"] by (auto simp: plain_table_def)
    then have "ns = []" by simp
    with ns(2) show ?thesis by (simp add: files)
  qed
  moreover have "\<exists>ns. distinct ns \<and> set ns = {n \<in> \<Union> (ends ` set ?es). node_table t (fi_num_allocas fi) n} \<and>
      map_of (out_files out') (table_path v ?f t) = Some (concat (map (node_row t ?f) ns))"
    if "t \<in> {IsSymbol, IsAlloca, EnclosingFunctionForLocal}" for t
  proof -
    have "plain_table t" "t \<noteq> SbomTable" "filter (\<lambda>e. OutputTable (kind e) = t) ?es = []"
      using that by (auto simp: plain_table_def filter_empty_conv)
    with d [of t] show ?thesis by (auto simp: files)
  qed
  ultimately show ?thesis using ps by (intro exI [of _ pss] conjI allI ballI) blast+
qed

section \<open>The callsites and the inlined functions\<close>

lemma file_rows_ok:
  "\<not> PrettyEdges (ev_options v) \<Longrightarrow> file_rows v row node_in out es (content, w) = Ok (content', w') \<Longrightarrow>
   content' = content @ concat (map (\<lambda>e. row (pure_text (node_in e)) e) es)"
proof (induction es arbitrary: content w)
  case (Cons e es)
  from Cons.prems obtain w1 where "file_rows v row node_in out es (content @ row (pure_text (node_in e)) e, w1) = Ok (content', w')"
    by (auto simp: file_rows_def node_text_def ok_iff)
  from Cons.IH [OF Cons.prems(1) this] show ?case by simp
qed (simp add: file_rows_def)

definition group_path :: "'w visitor \<Rightarrow> string \<Rightarrow> u64 \<Rightarrow> string" where
  "group_path v nm key = path_in (PathOfSymbol (ev_prefix v) key) (nm @ ''.facts'')"

lemma group_path_inject: "group_path v nm k = group_path v nm l \<longleftrightarrow> k = l"
  using show_hex16_inject [of k l] by (auto simp: group_path_def PathOfSymbol_def path_in_def)

lemma group_step_ok:
  assumes "group_step v nm row node_in entries key (w, out) = Ok (w', out')" and "\<not> PrettyEdges (ev_options v)"
  shows "(\<forall>k. directory_exists v k out' = directory_exists v k out) \<and>
    map_of (out_files out') =
      (if directory_exists v key out then (map_of (out_files out))(group_path v nm key \<mapsto>
         concat (map (\<lambda>e. row (pure_text (node_in e)) e) (map snd (filter (\<lambda>e. fst e = key) entries))))
       else map_of (out_files out))"
proof (cases "directory_exists v key out")
  case True
  with assms(1) obtain path o1 content where
    1: "open_facts_for_symbol (ev_env v) (ev_prefix v) key nm ''.facts'' out = Ok (path, o1)"
    and 2: "file_rows v row node_in o1 (map snd (filter (\<lambda>e. fst e = key) entries)) ('''', w) = Ok (content, w')"
    and o: "out' = o1\<lparr>out_files := AList.update path content (out_files o1)\<rparr>"
    by (auto simp: group_step_def ok_iff)
  from 1 have p: "path = group_path v nm key" and o1: "out_files o1 = AList.update path '''' (out_files out)"
    and d: "directory_exists v k o1 = directory_exists v k out" for k
    using True by (auto simp: open_facts_for_symbol_def group_path_def directory_exists_def Let_def ok_iff PathOfSymbol_def
        split: option.splits)
  have "directory_exists v k out' = directory_exists v k out" for k
    using d [of k] by (simp add: o directory_exists_def)
  then show ?thesis using file_rows_ok [OF assms(2) 2] True p by (simp add: o o1 update_conv' fun_eq_iff)
qed (use assms in \<open>simp add: group_step_def\<close>)

lemma groups_ok:
  assumes "for_each (group_step v nm row node_in entries) keys (w, out) = Ok (w', out')" and "\<not> PrettyEdges (ev_options v)"
  shows "(\<forall>k. directory_exists v k out' = directory_exists v k out) \<and>
    (\<forall>key. map_of (out_files out') (group_path v nm key) =
      (if key \<in> set keys \<and> directory_exists v key out
       then Some (concat (map (\<lambda>e. row (pure_text (node_in e)) e) (map snd (filter (\<lambda>e. fst e = key) entries))))
       else map_of (out_files out) (group_path v nm key)))"
  using assms(1)
proof (induction keys arbitrary: w out)
  case (Cons k keys)
  from Cons.prems obtain w1 o1 where 1: "group_step v nm row node_in entries k (w, out) = Ok (w1, o1)"
    and 2: "for_each (group_step v nm row node_in entries) keys (w1, o1) = Ok (w', out')" by (auto simp: ok_iff)
  from group_step_ok [OF 1 assms(2)] Cons.IH [OF 2] show ?case
    by (auto simp: group_path_inject)
qed simp

text \<open>
  The callsites of a compile unit (and in the same way its inlined functions) end up with the
  function they belong to: for each function whose directory exists, the file of the relation holds one
  row for every entry with its address, in order; functions without a directory get no file.
\<close>

theorem write_groups_files:
  assumes "write_groups v nm row node_in entries (w, out) = Ok (w', out')" and "\<not> PrettyEdges (ev_options v)"
  shows "map_of (out_files out') (path_in (PathOfSymbol (ev_prefix v) key) (nm @ ''.facts'')) =
    (if key \<in> fst ` set entries \<and> directory_exists v key out
     then Some (concat (map (\<lambda>(k, e). row (pure_text (node_in e)) e) (filter (\<lambda>(k, e). k = key) entries)))
     else map_of (out_files out) (path_in (PathOfSymbol (ev_prefix v) key) (nm @ ''.facts'')))"
proof -
  have "write_groups v nm row node_in entries = for_each (group_step v nm row node_in entries) (sort (remdups (map fst entries)))"
    by (simp add: write_groups_def)
  with assms(1) have "for_each (group_step v nm row node_in entries) (sort (remdups (map fst entries))) (w, out) = Ok (w', out')"
    by simp
  from groups_ok [OF this assms(2)] show ?thesis
    by (simp add: group_path_def comp_def case_prod_beta')
qed

text \<open>
  With \<open>--pretty-edges\<close> the names come from the function that was visited last: without any, or when its
  names are missing, a local of another function cannot be printed.
\<close>

lemma pretty_local_aborts:
  assumes "local_idx_of n = Some i" and "is_node n" and "PrettyEdges (ev_options v)"
    and "symbolName (ev_api v) (symbol_of n) w = Ok (nm, w')"
  shows "node_text v n (w, output_start) = Abort"
  using assms by (simp add: node_text_def debug_text_def node_symbol_of_def output_start_def)

section \<open>An example\<close>

definition ex_facts_env :: facts_env where
  "ex_facts_env = \<lparr>create_directories = (\<lambda>_. Ok ()), facts_open_error = (\<lambda>_. None), facts_good = (\<lambda>_. True),
     path_exists = (\<lambda>_. False), dlsym_fuel = 1, SimpleAtoi = (\<lambda>_. None)\<rparr>"

definition ex_visitor :: "unit visitor" where
  "ex_visitor = \<lparr>ev_api = ex_api, ev_env = ex_facts_env, ev_prefix = ''.'', ev_slm = None,
     ev_options = \<lparr>PrettyEdges = False, PrintCallArgumentCount = False\<rparr>\<rparr>"

lemma ex_open: "streams out t = None \<Longrightarrow> out_function out = Node 0x10010000 \<Longrightarrow>
    \<exists>out'. open_facts ex_visitor t (w, out) = Ok (w, out')"
  by (simp add: open_facts_def open_facts_for_symbol_def node_symbol_of_def is_node_def ex_visitor_def ex_facts_env_def Let_def)

lemma ex_open_all:
  "distinct ts \<Longrightarrow> \<forall>t\<in>set ts. streams out t = None \<Longrightarrow> out_function out = Node 0x10010000 \<Longrightarrow>
    \<exists>out'. for_each (open_facts ex_visitor) ts (w, out) = Ok (w, out')"
proof (induction ts arbitrary: out)
  case (Cons t ts)
  then obtain o1 where 1: "open_facts ex_visitor t (w, out) = Ok (w, o1)" using ex_open [of out t] by auto
  from open_facts_ok [OF 1] Cons.prems have "\<forall>t\<in>set ts. streams o1 t = None" "out_function o1 = Node 0x10010000"
    by (auto simp: same_function_def)
  with Cons.IH Cons.prems(1) 1 show ?case by fastforce
qed simp

lemma ex_close_all:
  "distinct ts \<Longrightarrow> \<forall>t\<in>set ts. streams out t \<noteq> None \<Longrightarrow> \<exists>out'. for_each (close_facts ex_visitor) ts (w, out) = Ok (w, out')"
proof (induction ts arbitrary: out)
  case (Cons t ts)
  then obtain o1 where 1: "close_facts ex_visitor t (w, out) = Ok (w, o1)"
    by (cases "streams out t") (auto simp: close_facts_def ex_visitor_def ex_facts_env_def)
  from close_facts_ok [OF 1] Cons.prems have "\<forall>t\<in>set ts. streams o1 t \<noteq> None" by auto
  with Cons.IH Cons.prems(1) 1 show ?case by fastforce
qed simp

text \<open>The example function, its local and its edge.\<close>

abbreviation ex_f :: node where "ex_f \<equiv> Node 0x10010000"
abbreviation ex_l :: node where "ex_l \<equiv> Node 0x10010001"

definition in_example :: "facts_output \<Rightarrow> bool" where
  "in_example out \<longleftrightarrow> out_function out = ex_f \<and> out_debug_data out = Some (fi_debug_data ex_info)"

definition runs :: "(unit \<times> facts_output \<Rightarrow> (unit \<times> facts_output) result) \<Rightarrow> bool" where
  "runs f \<longleftrightarrow> (\<forall>w out. in_example out \<longrightarrow> (\<exists>w' out'. f (w, out) = Ok (w', out') \<and> in_example out'))"

lemma runs_steps: "(\<And>f. f \<in> set fs \<Longrightarrow> runs f) \<Longrightarrow> runs (steps fs)"
proof (induction fs)
  case (Cons f fs)
  then have "runs f" "runs (steps fs)" by simp_all
  then show ?case by (fastforce simp: runs_def steps_def)
qed (simp add: runs_def steps_def)

lemma runs_put: "runs (put t x)"
  by (simp add: runs_def put_def in_example_def)

lemma ex_node_facts:
  "is_node ex_f" "local_idx_of ex_f = None" "symbol_of ex_f = 0x1000"
  "is_node ex_l" "local_idx_of ex_l = Some 0" "symbol_of ex_l = 0x1000"
  by (simp_all add: is_node_def local_idx_of_def symbol_of_def)

lemma ex_name: "symbolName ex_api a w = Ok (''main'', w)"
  by (simp add: ex_api_def)

lemma ex_local_name: "has_locals (fi_debug_data ex_info) \<and> local_name (fi_debug_data ex_info) 0 = Ok ''x''"
  by (simp add: ex_info_def info_of_def ex_gw_def ex_gw2_def ex_gw1_def debug_data_of_def GraphWriter_init_def has_locals_def
      take_locals_def local_name_def gdd_string_def ex_written_def nul_def strings_def c_string_def)

lemma runs_print:
  assumes "n = ex_f \<or> n = ex_l"
  shows "runs (printNodePure t n)" "runs (printNode ex_visitor t n)" "runs (printDebugNode ex_visitor t n)"
proof -
  show p: "runs (printNodePure t n)"
    using assms by (auto simp: runs_def printNodePure_def ex_node_facts put_def in_example_def)
  then show "runs (printNode ex_visitor t n)" by (simp add: printNode_def ex_visitor_def)
  show "runs (printDebugNode ex_visitor t n)"
    using assms ex_local_name
    by (auto simp: runs_def printDebugNode_def debug_text_def node_symbol_of_def ex_node_facts ex_name ex_visitor_def put_def
        in_example_def)
qed

lemma runs_star_rows: "n = ex_f \<or> n = ex_l \<Longrightarrow> runs (star_rows ex_visitor n)"
proof -
  assume n: "n = ex_f \<or> n = ex_l"
  have s: "runs (printStarredNode ex_visitor t k n)" for t k
    unfolding printStarredNode_def by (intro runs_steps) (auto intro: runs_put runs_print [OF n])
  have f: "runs (printFinalStarredNode ex_visitor t n)" for t
    unfolding printFinalStarredNode_def by (intro runs_steps) (auto intro: runs_put s)
  show ?thesis
    unfolding star_rows_def by (intro runs_steps) (auto intro: runs_put runs_print [OF n] s f)
qed

lemma runs_node_rows:
  assumes n: "n = ex_f \<or> n = ex_l"
  shows "runs (node_rows ex_visitor n)"
proof -
  have l: "runs (local_rows ex_visitor n)" unfolding runs_def
  proof (intro allI impI)
    fix w out
    assume out: "in_example out"
    let ?fs = "case local_idx_of n of Some i \<Rightarrow> (if unat i < unat (out_num_allocas out)
        then [printNode ex_visitor IsAlloca n, put IsAlloca [newline]] else []) @
        [printNode ex_visitor EnclosingFunctionForLocal (out_function out), put EnclosingFunctionForLocal [tab],
         printNode ex_visitor EnclosingFunctionForLocal n, put EnclosingFunctionForLocal [newline]]
      | None \<Rightarrow> [printNode ex_visitor IsSymbol n, put IsSymbol [newline]]"
    have "runs (steps ?fs)"
      using n out by (intro runs_steps) (auto simp: in_example_def ex_node_facts split: if_splits intro: runs_put runs_print)
    moreover have "local_rows ex_visitor n (w, out) = steps ?fs (w, out)"
      by (simp add: local_rows_def split: option.split)
    ultimately show "\<exists>w' out'. local_rows ex_visitor n (w, out) = Ok (w', out') \<and> in_example out'"
      using out by (simp add: runs_def)
  qed
  have "runs (steps [printNode ex_visitor DebugTable n, put DebugTable [tab], printDebugNode ex_visitor DebugTable n,
      put DebugTable [newline]])"
    using n by (intro runs_steps) (auto intro: runs_put runs_print)
  then have d: "runs (debug_rows ex_visitor n)" by (simp add: runs_def debug_rows_def ex_visitor_def ex_name)
  have "runs Ok" by (simp add: runs_def)
  then show ?thesis
    unfolding node_rows_def using l d runs_star_rows [OF n]
    by (intro runs_steps) (auto simp: ex_visitor_def)
qed

lemma runs_emit:
  assumes n: "n = ex_f \<or> n = ex_l"
  shows "runs (emitNodeInfo ex_visitor n)"
proof -
  have s: "node_symbol_of n = Ok 0x1000" "node_symbol 0x1000 = Ok ex_f"
    using n by (auto simp: node_symbol_of_def ex_node_facts node_symbol_def push_bit_eq_mult)
  note e = emitNodeInfo.simps [where v = ex_visitor]
  have f: "\<exists>w' out'. emitNodeInfo ex_visitor ex_f (w, out) = Ok (w', out') \<and> in_example out'" if "in_example out" for w out
  proof (cases "ex_f \<in> set (SeenNodes out)")
    case False
    let ?out = "out\<lparr>SeenNodes := ex_f # SeenNodes out\<rparr>"
    have "emitNodeInfo ex_visitor ex_f (w, out) = node_rows ex_visitor ex_f (w, ?out)"
      using False by (simp add: e [of ex_f "()" out] e [of ex_f "()" ?out] node_symbol_of_def ex_node_facts s(2))
    moreover have "in_example ?out" using that by (simp add: in_example_def)
    ultimately show ?thesis using runs_node_rows [of ex_f] unfolding runs_def by metis
  qed (use that in \<open>simp add: e\<close>)
  show ?thesis unfolding runs_def
  proof (intro allI impI)
    fix w out
    assume out: "in_example out"
    show "\<exists>w' out'. emitNodeInfo ex_visitor n (w, out) = Ok (w', out') \<and> in_example out'"
    proof (cases "n \<in> set (SeenNodes out)")
      case False
      let ?out = "out\<lparr>SeenNodes := n # SeenNodes out\<rparr>"
      have "in_example ?out" using out by (simp add: in_example_def)
      from f [OF this] obtain w1 o1 where 1: "emitNodeInfo ex_visitor ex_f (w, ?out) = Ok (w1, o1)" "in_example o1" by blast
      have "emitNodeInfo ex_visitor n (w, out) = node_rows ex_visitor n (w1, o1)"
        using False s 1(1) by (simp add: e [of n "()" out])
      then show ?thesis using runs_node_rows [OF n] 1(2) unfolding runs_def by metis
    qed (use out in \<open>simp add: e\<close>)
  qed
qed

lemma ex_edges_of: "edges_of ex_info = Ok [Edge AssignK ex_l ex_f 0]"
  by (simp add: edges_of_def ex_visit)

lemma runs_edge: "runs (output_edge ex_visitor (Edge AssignK ex_l ex_f 0))"
proof -
  have r: "runs (printSingletonEdge ex_visitor AssignK ex_l ex_f)"
    unfolding printSingletonEdge_def by (intro runs_steps) (auto intro: runs_put runs_print runs_emit)
  show ?thesis unfolding runs_def
  proof (intro allI impI)
    fix w out
    assume "in_example out"
    with r obtain w' out' where "printSingletonEdge ex_visitor AssignK ex_l ex_f (w, out) = Ok (w', out')" "in_example out'"
      unfolding runs_def by metis
    then show "\<exists>w' out'. output_edge ex_visitor (Edge AssignK ex_l ex_f 0) (w, out) = Ok (w', out') \<and> in_example out'"
      by (simp add: output_edge_def visit_edge_inner_def num_components_def)
  qed
qed

lemma ex_enter:
  "\<exists>out'. enter_function ex_visitor (fi_function ex_info) (fi_num_allocas ex_info) (fi_debug_data ex_info)
     (fi_sbom_info ex_info) (w, output_start) = Ok (w, out') \<and> in_example out'"
proof -
  let ?o = "output_start\<lparr>out_function := ex_f, out_num_allocas := fi_num_allocas ex_info,
    out_debug_data := Some (fi_debug_data ex_info), function_name := ''main'', SeenNodes := []\<rparr>"
  obtain o1 where 1: "for_each (open_facts ex_visitor) all_tables (w, ?o) = Ok (w, o1)"
    using ex_open_all [of all_tables ?o w] all_tables_set by (auto simp: output_start_def)
  from open_all [OF 1] have o1: "out_function o1 = ex_f" "out_debug_data o1 = Some (fi_debug_data ex_info)"
    by (auto simp: same_function_def)
  obtain p o2 where 2: "write_facts_file ex_visitor 0x1000 ''function-name.txt'' '''' ''main'' o1 = Ok (p, o2)"
    by (simp add: write_facts_file_def open_facts_for_symbol_def ex_visitor_def ex_facts_env_def Let_def)
  have "in_example o2" using o1 write_facts_file_ok [OF 2] by (auto simp: in_example_def same_function_def)
  moreover have "fi_sbom_info ex_info = None"
    by (simp add: ex_info_def info_of_def ex_written_def sbom_of_strings_def)
  ultimately show ?thesis using 1 2
    by (simp add: enter_function_def ex_info_function node_symbol_of_def ex_node_facts ex_name ex_visitor_def ex_facts_env_def)
qed

lemma ex_output:
  "\<exists>w' out'. output_function ex_visitor ex_info ((), output_start) = Ok (w', out')"
proof -
  obtain o1 where 1: "enter_function ex_visitor (fi_function ex_info) (fi_num_allocas ex_info) (fi_debug_data ex_info)
      (fi_sbom_info ex_info) ((), output_start) = Ok ((), o1)" "in_example o1" using ex_enter by blast
  with runs_edge obtain o2 where 2: "output_edge ex_visitor (Edge AssignK ex_l ex_f 0) ((), o1) = Ok ((), o2)"
    unfolding runs_def by (metis (full_types) unit.exhaust)
  have "streams o2 t \<noteq> None" for t
  proof -
    have "streams o1 t \<noteq> None" using enter_function_ok [OF 1(1)] by (metis option.distinct(1))
    moreover have "map_option fst (streams o2 t) = map_option fst (streams o1 t)"
      using extendsD [OF extends_output_edge 2] by simp
    ultimately show ?thesis by (metis option.map_disc_iff)
  qed
  then obtain o3 where "for_each (close_facts ex_visitor) all_tables ((), o2) = Ok ((), o3)"
    using ex_close_all [of all_tables o2] all_tables_set(2) by auto
  then show ?thesis using 1 2 by (simp add: output_function_def ex_visit exit_function_def)
qed

theorem function_tables_witness:
  "\<exists>w' out'. output_function ex_visitor ex_info ((), output_start) = Ok (w', out') \<and>
     map_of (out_files out') (table_path ex_visitor (fi_function ex_info) (OutputTable AssignK)) =
       Some (edge_row ex_visitor (Edge AssignK ex_l ex_f 0))"
proof -
  let ?e = "Edge AssignK ex_l ex_f 0"
  obtain w' out' where o: "output_function ex_visitor ex_info ((), output_start) = Ok (w', out')" using ex_output by blast
  have p: "\<not> PrettyEdges (ev_options ex_visitor)" by (simp add: ex_visitor_def)
  from function_tables [OF o p ex_edges_of] obtain pss where
    ps: "list_all2 (edge_pointers (ev_api ex_visitor)) [?e] pss"
    and r: "\<forall>k. map_of (out_files out') (table_path ex_visitor (fi_function ex_info) (OutputTable k)) =
      Some (concat (map (edge_row ex_visitor) (filter (\<lambda>e. kind e = k) (concat (map2 printed_edges [?e] pss)))))"
    by blast
  have "pss = [[]]" using ps by (auto simp: list_all2_Cons1 edge_pointers_def)
  with r have "map_of (out_files out') (table_path ex_visitor (fi_function ex_info) (OutputTable AssignK)) =
      Some (edge_row ex_visitor ?e)" by (simp add: printed_edges_def pointer_edges_def)
  with o show ?thesis by blast
qed

theorem write_groups_files_witness:
  "\<exists>w' out'. write_groups (ex_visitor\<lparr>ev_env := ex_facts_env\<lparr>path_exists := (\<lambda>_. True)\<rparr>\<rparr>) ''FastNodeInstructions''
       callsite_row nodeID [(0x1000, \<lparr>callsiteAddr = 0x1004, nodeID = ex_l\<rparr>)] ((), output_start) = Ok (w', out') \<and>
     map_of (out_files out') (path_in (PathOfSymbol ''.'' 0x1000) (''FastNodeInstructions'' @ ''.facts'')) =
       Some (callsite_row (pure_text ex_l) \<lparr>callsiteAddr = 0x1004, nodeID = ex_l\<rparr>)"
proof -
  let ?v = "ex_visitor\<lparr>ev_env := ex_facts_env\<lparr>path_exists := (\<lambda>_. True)\<rparr>\<rparr>"
  let ?es = "[(0x1000, \<lparr>callsiteAddr = 0x1004, nodeID = ex_l\<rparr>)] :: (u64 \<times> callsite_edge) list"
  obtain w' out' where o: "write_groups ?v ''FastNodeInstructions'' callsite_row nodeID ?es ((), output_start) = Ok (w', out')"
    by (simp add: write_groups_def group_step_def directory_exists_def open_facts_for_symbol_def file_rows_def node_text_def
        ex_visitor_def ex_facts_env_def ex_node_facts Let_def)
  from write_groups_files [OF o, where key = "0x1000"] o show ?thesis
    by (auto simp: ex_visitor_def directory_exists_def Let_def)
qed

end
