(* ===== verification/Override_Agree.thy ===== *)
theory Override_Agree
  imports Override_Prelude
begin

text \<open>
  The hand-written header \<open>bracelet_scripts/points_to/templates/prelude.h\<close> of the scripts, and its
  agreement with the prelude of the command.
\<close>

section \<open>The header of the scripts\<close>

definition prelude_h_header :: "string list" where
  "prelude_h_header = [
   ''#define _GNU_SOURCE'',
   ''#define _FILE_OFFSET_BITS 64'',
   ''#include <stddef.h>'',
   ''#include <stdio.h>'',
   ''#include <stdlib.h>'',
   ''#include <string.h>'',
   ''#include <sys/mman.h>'',
   ''extern unsigned long __nondeterministic_choice(void);'',
   ''#define NONDET if (__nondeterministic_choice())'',
   ''#define NONDET_SELECT(x, y) (__nondeterministic_choice() ? (x) : (y))'',
   ''typedef void *T;'',
   ''#define WEAK __attribute__((weak))'',
   ''#define NO_INLINE __attribute__((noinline))'',
   ''#define ALWAYS_INLINE __attribute__((always_inline))'',
   ''#define OVERRIDE(x) bracelet_override_##x'',
   ''#define DEF_OVERRIDE(x) WEAK NO_INLINE OVERRIDE(x)'',
   ''#define DEF_OVERRIDE_INLINE(x) WEAK ALWAYS_INLINE OVERRIDE(x)'']"

definition prelude_h_first :: "override list" where
  "prelude_h_first = [
   Override True ''malloc'' [''size''] [SDiscard ''size'', SReturn (ECall ''malloc'' [EChoice])],
   Override True ''realloc'' [''old'', ''size''] [SDiscard ''size'',
     SReturn (ECall ''realloc'' [EVar ''old'', EChoice])],
   Override True ''reallocarray'' [''old'', ''count'', ''size''] [SDiscard ''count'',
     SDiscard ''size'', SReturn (ECall ''reallocarray'' [EVar ''old'', EChoice, EChoice])],
   Override True ''calloc'' [''x'', ''y''] [SDiscard ''x'', SDiscard ''y'',
     SReturn (ECall ''calloc'' [EChoice, EChoice])],
   Override True ''posix_memalign'' [''dst'', ''x'', ''y''] [SDiscard ''x'', SDiscard ''y'',
     SDo (ECall ''posix_memalign'' [ECast ''void **'' (EVar ''dst''), EChoice, EChoice]), SReturn ENull],
   Override False ''free'' [''x''] [SDiscard ''x'', SReturn ENull],
   Override False ''strlen'' [''x''] [SDiscard ''x'', SReturn ENull],
   Override False ''__strlen_evex'' [''x''] [SDiscard ''x'', SReturn ENull],
   Override False ''strcmp'' [''x'', ''y''] [SDiscard ''x'', SDiscard ''y'', SReturn ENull],
   Override False ''strncmp'' [''x'', ''y'', ''z''] [SDiscard ''x'', SDiscard ''y'', SDiscard ''z'',
     SReturn ENull],
   Override False ''bind'' [''x'', ''y'', ''z''] [SDiscard ''x'', SDiscard ''y'', SDiscard ''z'',
     SReturn ENull],
   Override False ''accept'' [''x'', ''y'', ''z''] [SDiscard ''x'', SDiscard ''y'', SDiscard ''z'',
     SReturn ENull],
   Override False ''accept4'' [''w'', ''x'', ''y'', ''z''] [SDiscard ''w'', SDiscard ''x'',
     SDiscard ''y'', SDiscard ''z'', SReturn ENull],
   Override False ''listen'' [''x'', ''y''] [SDiscard ''x'', SDiscard ''y'', SReturn ENull],
   Override False ''perror'' [''x''] [SDiscard ''x'', SReturn ENull],
   Override False ''localeconv'' [] [SStatic ''contents'',
     SAssign ''contents'' (ECall ''malloc'' [EChoice]), SReturn (EVar ''contents'')],
   Override False ''strstr'' [''haystack'', ''needle''] [SDiscard ''needle'',
     SReturn (EVar ''haystack'')],
   Override False ''pthread_mutex_init'' [''mutex'', ''mutexattr''] [SDiscard ''mutex'',
     SDiscard ''mutexattr'', SReturn ENull],
   Override False ''pthread_mutex_lock'' [''mutex''] [SDiscard ''mutex'', SReturn ENull],
   Override False ''pthread_mutex_trylock'' [''mutex''] [SDiscard ''mutex'', SReturn ENull],
   Override False ''pthread_mutex_unlock'' [''mutex''] [SDiscard ''mutex'', SReturn ENull],
   Override False ''pthread_mutex_destroy'' [''mutex''] [SDiscard ''mutex'', SReturn ENull],
   Override False ''abort'' [] [SReturn ENull]]"

definition prelude_h_second :: "override list" where
  "prelude_h_second = [
   Override False ''atan2'' [''x'', ''y''] [SDiscard ''x'', SDiscard ''y'', SReturn ENull],
   Override False ''atan2f'' [''x'', ''y''] [SDiscard ''x'', SDiscard ''y'', SReturn ENull],
   Override False ''atan2l'' [''x'', ''y''] [SDiscard ''x'', SDiscard ''y'', SReturn ENull],
   Override False ''exp'' [''x''] [SDiscard ''x'', SReturn ENull],
   Override False ''expf'' [''x''] [SDiscard ''x'', SReturn ENull],
   Override False ''expl'' [''x''] [SDiscard ''x'', SReturn ENull],
   Override False ''modf'' [''x'', ''y''] [SDiscard ''x'', SDiscard ''y'', SReturn ENull],
   Override False ''modff'' [''x'', ''y''] [SDiscard ''x'', SDiscard ''y'', SReturn ENull],
   Override False ''modfl'' [''x'', ''y''] [SDiscard ''x'', SDiscard ''y'', SReturn ENull],
   Override False ''eventfd'' [''x'', ''y''] [SDiscard ''x'', SDiscard ''y'', SReturn ENull],
   Override False ''bcmp'' [''x'', ''y'', ''z''] [SDiscard ''x'', SDiscard ''y'', SDiscard ''z'',
     SReturn ENull],
   Override False ''clock_gettime'' [''x'', ''y''] [SDiscard ''x'', SDiscard ''y'', SReturn ENull],
   Override False ''close'' [''x''] [SDiscard ''x'', SReturn ENull],
   Override False ''exit'' [''x''] [SDiscard ''x'', SReturn ENull],
   Override True ''mmap'' [''addr'', ''len'', ''prot'', ''flags'', ''fd'', ''off''] [SDiscard ''len'',
     SDiscard ''prot'', SDiscard ''flags'', SDiscard ''fd'', SDiscard ''off'',
     SReturn (ECall ''mmap'' [EVar ''addr'', EChoice, EChoice, EChoice, EChoice, EChoice])],
   Override False ''munmap'' [''x'', ''y''] [SDiscard ''x'', SDiscard ''y'', SReturn ENull],
   Override False ''memmem'' [''haystack'', ''x'', ''y'', ''z''] [SDiscard ''x'', SDiscard ''y'',
     SDiscard ''z'', SReturn (EVar ''haystack'')],
   Override False ''qsort'' [''base'', ''nmemb'', ''size'', ''cmp''] [SDiscard ''nmemb'',
     SDiscard ''size'', SDo (ECallPtr (EVar ''cmp'') [EVar ''base'', EVar ''base'']), SReturn ENull],
   Override False ''qsort_r'' [''base'', ''nmemb'', ''size'', ''cmp'', ''ctx''] [SDiscard ''nmemb'',
     SDiscard ''size'', SDo (ECallPtr (EVar ''cmp'') [EVar ''base'', EVar ''base'', EVar ''ctx'']),
     SReturn ENull],
   Override False ''rand'' [] [SReturn ENull],
   Override False ''rand_r'' [''x''] [SDiscard ''x'', SReturn ENull],
   Override False ''srand'' [''x''] [SDiscard ''x'', SReturn ENull],
   Override True ''memcpy'' [''x'', ''y'', ''sz''] [SDiscard ''sz'',
     SReturn (ECall ''memcpy'' [EVar ''x'', EVar ''y'', EChoice])],
   Override True ''memset'' [''x'', ''c'', ''sz''] [SDiscard ''c'', SDiscard ''sz'',
     SReturn (ECall ''memset'' [EVar ''x'', EChoice, EChoice])],
   Override False ''memchr'' [''str'', ''c'', ''n''] [SDiscard ''c'', SDiscard ''n'',
     SReturn (EVar ''str'')],
   Override False ''memrchr'' [''str'', ''c'', ''n''] [SDiscard ''c'', SDiscard ''n'',
     SReturn (EVar ''str'')]]"

definition prelude_h_third :: "override list" where
  "prelude_h_third = [
   Override True ''fopen'' [''name'', ''mode''] [SDiscard ''name'', SDiscard ''mode'',
     SReturn (ECall ''calloc'' [ELit 1, ESizeof ''BraceletFile''])],
   Override True ''fdopen'' [''fd'', ''mode''] [SDiscard ''fd'', SReturn (ECall ''calloc'' [ELit 1,
     ESizeof ''BraceletFile''])],
   Override True ''fopencookie'' [''cookie'', ''mode'',
     ''funcs''] [SDecl ''BraceletFile *'' ''out'' (ECast ''BraceletFile *'' (ECall ''calloc'' [ELit 1,
     ESizeof ''BraceletFile''])), SDiscard ''mode'', SField ''out'' ''cookie'' (EVar ''cookie''),
     SCopyField ''out'' ''funcs'' ''cookie_io_functions_t *'' (EVar ''funcs''),
     SReturn (ECast ''void *'' (EVar ''out''))],
   Override False ''clearerr'' [''x''] [SDiscard ''x'', SReturn ENull],
   Override False ''feof'' [''x''] [SDiscard ''x'', SReturn ENull],
   Override False ''ferror'' [''x''] [SDiscard ''x'', SReturn ENull],
   Override False ''fileno'' [''x''] [SDiscard ''x'', SReturn ENull],
   Override False ''pthread_create'' [''thread_out'', ''attr'', ''start_routine'',
     ''arg''] [SDiscard ''thread_out'', SDiscard ''attr'',
     SDo (ECallPtr (EVar ''start_routine'') [EVar ''arg'']), SReturn ENull],
   Override True ''_Znwm'' [''sz''] [SDiscard ''sz'', SReturn (ECall ''malloc'' [EChoice])]]"

definition prelude_h_overrides :: "override list" where
  "prelude_h_overrides = prelude_h_first @ prelude_h_second @ prelude_h_third"

definition prelude_h_text :: "prelude_state result" where
  "prelude_h_text =
     for_each emit_item
       (PText prelude_h_header # map POverride (prelude_h_first @ prelude_h_second) @
        PText prelude_file_type # map POverride prelude_h_third) ([], [])"

section \<open>The two preludes\<close>

lemma h_plain: "list_all plain_override prelude_h_overrides"
  by (simp add: prelude_h_overrides_def prelude_h_first_def prelude_h_second_def prelude_h_third_def
      plain_override_def plain_def)

lemma plain_args: "list_all plain (take n arg_names)"
  by (auto simp: arg_names_def plain_def list_all_iff dest!: in_set_takeD)

lemma plain_bodies:
  assumes "list_all plain args"
  shows "plain_override (Override b nm args (empty_body args))"
    and "plain_override (Override b nm args (conservative_body args))"
  using assms
  by (auto simp: plain_override_def empty_body_def conservative_body_def mix_arg_def list_all_iff plain_def)

lemma txt_plain: "list_all plain_override prelude_overrides"
  by (simp add: prelude_overrides_def prelude_defs plain_bodies [OF plain_args])
    (simp add: plain_override_def plain_def empty_body_def)

text \<open>The functions of the header that the template gives another meaning, or none.\<close>

definition apart :: "string list" where
  "apart = [''localeconv'', ''pthread_mutex_trylock'', ''modf'', ''clearerr'']"

definition template_has :: "override \<Rightarrow> bool" where
  "template_has f \<longleftrightarrow> (\<exists>g\<in>set prelude_overrides. ov_name g = ov_name f \<and> canon g = canon f)"

definition empties :: "(string \<times> nat) list" where
  "empties = (case prelude_empties of PEmpty fs # _ \<Rightarrow> fs | _ \<Rightarrow> [])"

definition memory_names :: "string list" where
  "memory_names = [''memcpy'', ''memset'', ''memchr'', ''memrchr'']"

definition rest_names :: "string list" where
  "rest_names = [''fopen'', ''fdopen'', ''fopencookie'', ''pthread_create'', ''_Znwm'', ''strstr'', ''mmap'',
     ''memmem'', ''qsort'', ''qsort_r'']"

fun has_alike :: "override \<Rightarrow> prelude_item list \<Rightarrow> bool" where
  "has_alike f (POverride g # items) =
     (if ov_name g = ov_name f then canon g = canon f else has_alike f items)"
| "has_alike f _ = False"

definition is_empty_override :: "override \<Rightarrow> bool" where
  "is_empty_override f \<longleftrightarrow> ov_body f = empty_body (ov_params f) \<and> distinct (ov_params f)"

definition in_template :: "override \<Rightarrow> bool" where
  "in_template f =
     (if ov_name f \<in> set apart then True
      else if is_empty_override f then map_of empties (ov_name f) = Some (length (ov_params f))
      else if ov_name f \<in> set memory_names then has_alike f prelude_memory
      else if ov_name f \<in> set rest_names then has_alike f prelude_rest
      else has_alike f prelude_allocators)"

lemma slots_distinct:
  assumes "distinct ps"
  shows "map (slot ps) ps = map (\<lambda>i. CHR ''$'' # show_dec i) [0..<length ps]"
proof (rule nth_equalityI)
  fix i
  assume i: "i < length (map (slot ps) ps)"
  then have "map_of (zip ps [0..<length ps]) (ps ! i) = Some i"
    using assms by (simp add: map_of_zip_nth)
  with i show "map (slot ps) ps ! i = map (\<lambda>i. CHR ''$'' # show_dec i) [0..<length ps] ! i"
    by (simp add: slot_def)
qed simp

lemma canon_empty:
  assumes "distinct ps"
  shows "canon (Override b nm ps (empty_body ps)) =
    Override False [] (map (\<lambda>i. CHR ''$'' # show_dec i) [0..<length ps]) [SReturn ENull]"
  using assms by (simp add: canon_def empty_body_def slots_distinct)

lemma distinct_arg_names: "distinct arg_names"
  by (auto simp: arg_names_def distinct_map inj_on_def dest: show_dec_inject)

lemma empties_in_template:
  assumes "is_empty_override f" and "map_of empties (ov_name f) = Some (length (ov_params f))"
  shows "template_has f"
proof -
  let ?n = "length (ov_params f)"
  let ?g = "Override False (ov_name f) (take ?n arg_names) (empty_body (take ?n arg_names))"
  have m: "(ov_name f, ?n) \<in> set empties" using assms(2) by (rule map_of_SomeD)
  have s: "PEmpty empties \<in> set prelude_template" by (simp add: empties_def prelude_empties_def prelude_template_def)
  have "?g \<in> set (item_overrides (PEmpty empties))" using m by (force simp: image_iff)
  then have g: "?g \<in> set prelude_overrides" using s unfolding prelude_overrides_def set_concat set_map by blast
  have "item_fits (PEmpty empties)" using template_fits s by (metis list_all_iff)
  then have "?n \<le> 64" using m by (auto simp: list_all_iff)
  moreover have "f = Override (ov_inline f) (ov_name f) (ov_params f) (empty_body (ov_params f))"
    using assms(1) by (cases f) (simp add: is_empty_override_def)
  ultimately have "canon ?g = canon f"
    using assms(1) distinct_arg_names by (metis (no_types, lifting) canon_empty distinct_take is_empty_override_def length_arg_names length_take min.absorb2)
  then show ?thesis unfolding template_has_def by (intro bexI [OF _ g] conjI) simp_all
qed

lemma alike_in_template:
  assumes "has_alike f items" and "set items \<subseteq> set prelude_template"
  shows "template_has f"
proof -
  have "\<exists>g. POverride g \<in> set items \<and> ov_name g = ov_name f \<and> canon g = canon f"
    using assms(1) by (induction f items rule: has_alike.induct) (auto split: if_splits)
  then obtain g where g: "POverride g \<in> set prelude_template" "ov_name g = ov_name f" "canon g = canon f"
    using assms(2) by blast
  then have "g \<in> set prelude_overrides" unfolding prelude_overrides_def set_concat set_map by force
  with g show ?thesis by (auto simp: template_has_def)
qed

lemmas in_template_simps =
  in_template_def apart_def is_empty_override_def empty_body_def empties_def prelude_empties_def
  memory_names_def rest_names_def canon_def slot_def

lemma first_in_template: "list_all in_template prelude_h_first"
  by (simp add: prelude_h_first_def in_template_simps prelude_allocators_def prelude_rest_def)

lemma second_in_template: "list_all in_template prelude_h_second"
  by (simp add: prelude_h_second_def in_template_simps prelude_memory_def prelude_rest_def)

lemma third_in_template: "list_all in_template prelude_h_third"
  by (simp add: prelude_h_third_def in_template_simps prelude_rest_def)

lemma h_in_template:
  assumes f: "f \<in> set prelude_h_overrides" and nm: "ov_name f \<notin> set apart"
  shows "template_has f"
proof -
  have "in_template f"
    using f first_in_template second_in_template third_in_template
    by (auto simp: prelude_h_overrides_def list_all_iff)
  with nm show ?thesis
    by (auto simp: in_template_def prelude_template_def intro: empties_in_template
        elim!: alike_in_template split: if_splits)
qed

text \<open>The names alone.\<close>

fun item_names :: "prelude_item \<Rightarrow> string list" where
  "item_names (PText ls) = []"
| "item_names (POverride f) = [ov_name f]"
| "item_names (PEmpty fs) = map fst fs"
| "item_names (PConservative fs) = map fst fs"

lemma names_of_items: "map ov_name (concat (map item_overrides items)) = concat (map item_names items)"
proof (induction items)
  case (Cons item items)
  then show ?case by (cases item) auto
qed simp

lemma prelude_names:
  "ov_name ` set prelude_overrides = set (concat (map item_names prelude_template))"
  using names_of_items [of prelude_template]
  by (simp only: prelude_overrides_def flip: set_map)

lemma apart_names:
  "''localeconv'' \<in> ov_name ` set prelude_overrides"
  "set (tl apart) \<inter> ov_name ` set prelude_overrides = {}"
  "set apart \<subseteq> ov_name ` set prelude_h_overrides"
proof -
  show "set (tl apart) \<inter> ov_name ` set prelude_overrides = {}"
    unfolding prelude_names by (simp add: apart_def prelude_defs)
  show "''localeconv'' \<in> ov_name ` set prelude_overrides"
    unfolding prelude_names by (simp add: prelude_defs)
  show "set apart \<subseteq> ov_name ` set prelude_h_overrides"
    by (simp add: apart_def prelude_h_overrides_def prelude_h_first_def prelude_h_second_def prelude_h_third_def)
qed

text \<open>
  C35. The prelude of the command and the header of the scripts agree: an override that both
  have, \<open>localeconv\<close> apart, takes the same number of arguments in both and does the same with the
  same arguments, memory and choices. The header overrides three functions that the command does
  not: \<open>pthread_mutex_trylock\<close>, \<open>modf\<close> and \<open>clearerr\<close> (the template says \<open>clearerror\<close>).
\<close>

theorem preludes_agree:
  assumes "f \<in> set prelude_h_overrides" and "g \<in> set prelude_overrides"
    and "ov_name f = ov_name g" and "ov_name f \<noteq> ''localeconv''"
  shows "length (ov_params f) = length (ov_params g) \<and> run_override W f as cs m = run_override W g as cs m \<and>
    ov_name ` set prelude_h_overrides - ov_name ` set prelude_overrides =
      {''pthread_mutex_trylock'', ''modf'', ''clearerr''}"
proof -
  have "ov_name f \<notin> set (tl apart)" using apart_names(2) assms(2,3) by auto
  then have "ov_name f \<notin> set apart" using assms(4) by (simp add: apart_def)
  from h_in_template [OF assms(1) this] obtain g' where
    g': "g' \<in> set prelude_overrides" "ov_name g' = ov_name g" "canon g' = canon f"
    using assms(3) by (auto simp: template_has_def)
  then have "g' = g" using prelude_names_distinct assms(2) by (auto simp: distinct_map dest: inj_onD)
  then have "run_override W f = run_override W g" "length (ov_params f) = length (ov_params g)"
    using same_canon [of f g] g'(3) h_plain txt_plain assms(1,2) by (simp_all add: list_all_iff)
  moreover have "ov_name ` set prelude_h_overrides - ov_name ` set prelude_overrides = set (tl apart)"
  proof (intro equalityI subsetI)
    fix nm
    assume nm: "nm \<in> ov_name ` set prelude_h_overrides - ov_name ` set prelude_overrides"
    then obtain f where f: "f \<in> set prelude_h_overrides" "nm = ov_name f" by blast
    have "\<not> template_has f" using nm f(2) unfolding template_has_def by (metis DiffD2 image_eqI)
    then have "nm \<in> set apart" using h_in_template f by blast
    with nm apart_names(1) show "nm \<in> set (tl apart)" by (auto simp: apart_def)
  next
    have "set (tl apart) \<subseteq> set apart" by (auto simp: apart_def)
    then show "nm \<in> ov_name ` set prelude_h_overrides - ov_name ` set prelude_overrides"
      if "nm \<in> set (tl apart)" for nm using that apart_names(2,3) by blast
  qed
  ultimately show ?thesis by (simp add: apart_def)
qed

theorem preludes_agree_witness:
  "length (ov_params (hd prelude_h_overrides)) = length (ov_params (prelude_overrides ! 0)) \<and>
    run_override ex_world (hd prelude_h_overrides) [8] [3] (\<lambda>_. 0) =
      run_override ex_world (prelude_overrides ! 0) [8] [3] (\<lambda>_. 0) \<and>
    ov_name ` set prelude_h_overrides - ov_name ` set prelude_overrides =
      {''pthread_mutex_trylock'', ''modf'', ''clearerr''}"
proof (rule preludes_agree)
  show "hd prelude_h_overrides \<in> set prelude_h_overrides"
    by (simp add: prelude_h_overrides_def prelude_h_first_def)
  show "prelude_overrides ! 0 \<in> set prelude_overrides"
    by (simp add: prelude_overrides_def prelude_template_def prelude_allocators_def)
qed (simp_all add: prelude_h_overrides_def prelude_h_first_def prelude_overrides_def
    prelude_template_def prelude_allocators_def)

end
