(* ===== verification/Override_Conservative.thy ===== *)
theory Override_Conservative
  imports Override_Prelude
begin

text \<open>
  What a conservative override can return: exactly the values reached by loads from its arguments
  and a fresh block.
\<close>

section \<open>Reachable values\<close>

inductive_set reach :: "'m c_world \<Rightarrow> 'm \<Rightarrow> u64 set \<Rightarrow> u64 set" for W m S where
  base: "a \<in> S \<Longrightarrow> a \<in> reach W m S"
| load: "a \<in> reach W m S \<Longrightarrow> load_word W a m \<in> reach W m S"

text \<open>Words of the memory are independent.\<close>

definition word_memory :: "'m c_world \<Rightarrow> bool" where
  "word_memory W \<longleftrightarrow>
     (\<forall>a b x m. load_word W b (store_word W a x m) = (if b = a then x else load_word W b m))"

section \<open>Nothing else is returned\<close>

text \<open>\<open>tmp\<close> stays reachable; a word is changed to its own address at most.\<close>

definition mixed :: "'m c_world \<Rightarrow> 'm \<Rightarrow> u64 set \<Rightarrow> string list \<Rightarrow> c_vars \<Rightarrow> 'm \<Rightarrow> bool" where
  "mixed W m0 S ps v m \<longleftrightarrow>
     v ''tmp'' \<in> reach W m0 S \<and> v ` set ps \<subseteq> S \<and>
     (\<forall>a. load_word W a m = load_word W a m0 \<or> load_word W a m = a)"

fun outcome_ok :: "(c_vars \<Rightarrow> 'm \<Rightarrow> bool) \<Rightarrow> 'm outcome \<Rightarrow> bool" where
  "outcome_ok P (Fell v cs m) \<longleftrightarrow> P v m"
| "outcome_ok P (Returned r cs m) \<longleftrightarrow> False"

lemma outcome_ok_append:
  assumes "outcome_ok P (execs W ss v cs m)" and "\<And>v cs m. P v m \<Longrightarrow> outcome_ok P (execs W ts v cs m)"
  shows "outcome_ok P (execs W (ss @ ts) v cs m)"
  using assms(1)
proof (induction ss arbitrary: v cs m)
  case Nil
  then show ?case using assms(2) by simp
next
  case (Cons s ss)
  then show ?case by (cases "exec W s v cs m") simp_all
qed

lemma mix_arg_ok:
  assumes "word_memory W" and "''tmp'' \<notin> set ps" and "a \<in> set ps" and "mixed W m0 S ps v m"
  shows "outcome_ok (mixed W m0 S ps) (execs W (mix_arg a) v cs m)"
proof -
  have w: "load_word W b (store_word W x y m) = (if b = x then y else load_word W b m)" for b x y m
    using assms(1) by (simp add: word_memory_def)
  have l: "load_word W x m \<in> reach W m0 S" if "mixed W m0 S ps v m" "x = v ''tmp''" for v x m
    using that by (auto simp: mixed_def intro: reach.load) (metis reach.load)
  have 1: "mixed W m0 S ps (v(''tmp'' := v a)) m" if "mixed W m0 S ps v m" for v m
    using that assms(2,3) by (auto simp: mixed_def image_subset_iff intro: reach.base)
  have 2: "mixed W m0 S ps v (store_word W (v ''tmp'') (v ''tmp'') m)" if "mixed W m0 S ps v m" for v m
    using that by (auto simp: mixed_def w)
  have 3: "mixed W m0 S ps (v(''tmp'' := load_word W (v ''tmp'') m)) m" if "mixed W m0 S ps v m" for v m
    using that l [OF that refl] assms(2) by (auto simp: mixed_def image_subset_iff)
  have s1: "outcome_ok (mixed W m0 S ps) (execs W [SNondet (SAssign ''tmp'' (EVar a))] v cs m)"
    if "mixed W m0 S ps v m" for v cs m using that 1 by (simp add: Let_def split_def)
  have s2: "outcome_ok (mixed W m0 S ps) (execs W [SNondet (SStore (EVar ''tmp'') (EVar ''tmp''))] v cs m)"
    if "mixed W m0 S ps v m" for v cs m using that 2 by (simp add: Let_def split_def)
  have s3: "outcome_ok (mixed W m0 S ps) (execs W [SNondet (SAssign ''tmp'' (ELoad (EVar ''tmp'')))] v cs m)"
    if "mixed W m0 S ps v m" for v cs m using that 3 by (simp add: Let_def split_def)
  have e: "mix_arg a = [SNondet (SAssign ''tmp'' (EVar a))] @ [SNondet (SStore (EVar ''tmp'') (EVar ''tmp''))] @
      [SNondet (SAssign ''tmp'' (ELoad (EVar ''tmp'')))]" by (simp add: mix_arg_def)
  show ?thesis unfolding e by (intro outcome_ok_append s1 s2 s3 assms(4))
qed

lemma mix_args_ok:
  assumes "word_memory W" and "''tmp'' \<notin> set ps" and "set qs \<subseteq> set ps" and "mixed W m0 S ps v m"
  shows "outcome_ok (mixed W m0 S ps) (execs W (concat (map mix_arg qs)) v cs m)"
  using assms(3,4)
proof (induction qs arbitrary: v cs m)
  case (Cons q qs)
  then show ?case
    by (simp del: execs.simps) (intro outcome_ok_append mix_arg_ok [OF assms(1,2)]; simp)
qed simp

lemma loop_ok:
  assumes "\<And>v cs m. P v m \<Longrightarrow> outcome_ok P (body v cs m)" and "P v m"
  shows "outcome_ok P (choice_loop n body v cs m)"
  using assms(2)
proof (induction n arbitrary: v cs m)
  case (Suc n)
  obtain c cs1 where c: "next_choice cs = (c, cs1)" by fastforce
  from assms(1) [OF Suc.prems, of cs1] Suc show ?case
    by (cases "body v cs1 m") (simp_all add: c)
qed simp

section \<open>Everything reachable is returned\<close>

lemma execs_append:
  "execs W (ss @ ts) v cs m =
     (case execs W ss v cs m of Fell v cs m \<Rightarrow> execs W ts v cs m | Returned r cs m \<Rightarrow> Returned r cs m)"
  by (induction ss arbitrary: v cs m) (simp_all split: outcome.split)

text \<open>A round in which nothing is chosen, one that takes an argument, and one that loads.\<close>

definition idle :: "string list \<Rightarrow> u64 list" where
  "idle qs = concat (map (\<lambda>_. [0, 0, 0]) qs)"

lemma run_idle: "execs W (concat (map mix_arg qs)) v (idle qs @ cs) m = Fell v cs m"
  by (induction qs) (simp_all add: execs_append mix_arg_def idle_def next_choice_def)

lemma run_take:
  assumes "ps = qs @ a # rs"
  shows "execs W (concat (map mix_arg ps)) v (idle qs @ 1 # 0 # 0 # idle rs @ cs) m = Fell (v(''tmp'' := v a)) cs m"
  using run_idle [of W qs v "1 # 0 # 0 # idle rs @ cs" m] run_idle [of W rs "v(''tmp'' := v a)" cs m]
  by (simp add: assms execs_append mix_arg_def next_choice_def)

lemma run_load:
  assumes "ps \<noteq> []"
  shows "execs W (concat (map mix_arg ps)) v (0 # 0 # 1 # idle (tl ps) @ cs) m =
    Fell (v(''tmp'' := load_word W (v ''tmp'') m)) cs m"
  using run_idle [of W "tl ps" "v(''tmp'' := load_word W (v ''tmp'') m)" cs m] assms
  by (cases ps) (simp_all add: execs_append mix_arg_def next_choice_def)

lemma reach_loop:
  assumes "r \<in> reach W m (insert (v ''tmp'') (v ` set ps))" and "ps \<noteq> []" and "''tmp'' \<notin> set ps"
  shows "\<exists>cs. \<forall>rest. exec W (SWhile (concat (map mix_arg ps))) v (cs @ rest) m =
    exec W (SWhile (concat (map mix_arg ps))) (v(''tmp'' := r)) rest m"
  using assms(1)
proof induction
  case (base a)
  show ?case
  proof (cases "a = v ''tmp''")
    case True
    then show ?thesis by (intro exI [of _ "[]"]) (simp add: fun_upd_idem)
  next
    case False
    with base obtain x where x: "x \<in> set ps" "a = v x" by blast
    then obtain qs rs where ps: "ps = qs @ x # rs" by (meson split_list)
    show ?thesis
      by (intro exI [of _ "1 # idle qs @ [1, 0, 0] @ idle rs"] allI, subst exec_while)
        (simp add: x(2) run_take [OF ps] del: exec.simps)
  qed
next
  case (load a)
  then obtain cs where cs: "exec W (SWhile (concat (map mix_arg ps))) v (cs @ rest) m =
    exec W (SWhile (concat (map mix_arg ps))) (v(''tmp'' := a)) rest m" for rest by blast
  have "exec W (SWhile (concat (map mix_arg ps))) (v(''tmp'' := a)) (1 # [0, 0, 1] @ idle (tl ps) @ rest) m =
    exec W (SWhile (concat (map mix_arg ps))) (v(''tmp'' := load_word W a m)) rest m" for rest
    by (subst exec_while) (simp add: run_load [OF assms(2)] del: exec.simps)
  with cs [of "1 # [0, 0, 1] @ idle (tl ps) @ rest" for rest] show ?case
    by (intro exI [of _ "cs @ 1 # [0, 0, 1] @ idle (tl ps)"] allI) (auto simp: fun_upd_def simp del: exec.simps)
qed

section \<open>The result\<close>

lemma args_image:
  assumes "length as = length ps" and "distinct ps"
  shows "vars_of_args ps as ` set ps = set as"
proof -
  have "map (vars_of_args ps as) ps = as"
    using assms by (intro nth_equalityI) (simp_all add: vars_of_args_def map_of_zip_nth)
  then show ?thesis by (metis set_map)
qed

lemma conservative_run:
  assumes "lib_call W ''malloc'' [c] m = (p, m1)"
  shows "run_override W (Override b nm ps (conservative_body ps)) as (c # cs) m =
    (case exec W (SWhile (concat (map mix_arg ps))) ((vars_of_args ps as)(''tmp'' := p)) cs m1 of
       Fell v cs m \<Rightarrow> Some (v ''tmp'', cs, m) | Returned r cs m \<Rightarrow> Some (r, cs, m))"
  using assms
  by (simp add: run_override_def conservative_body_def next_choice_def del: exec.simps(11) split: outcome.split)

text \<open>
  C36. A conservative override may return exactly the values that its arguments and a
  fresh block lead to through memory: for each of them there are choices under which it is the
  result, and no choices give anything else, although the code also writes to the memory on its way.
\<close>

theorem conservative_returns:
  assumes "word_memory W" and "length as = length ps" and "distinct ps" and "ps \<noteq> []"
    and "''tmp'' \<notin> set ps" and "lib_call W ''malloc'' [c] m = (p, m1)"
  shows "{r. \<exists>cs cs' m'. run_override W (Override b nm ps (conservative_body ps)) as (c # cs) m =
      Some (r, cs', m')} = reach W m1 (insert p (set as))"
proof -
  let ?v = "(vars_of_args ps as)(''tmp'' := p)" and ?w = "SWhile (concat (map mix_arg ps))"
  have "?v ` set ps = vars_of_args ps as ` set ps" using assms(5) by (intro image_cong) auto
  then have im: "?v ` set ps = set as" "?v ''tmp'' = p" using args_image [OF assms(2,3)] by simp_all
  note run = conservative_run [OF assms(6), of b nm ps as]
  show ?thesis
  proof (intro equalityI subsetI)
    fix r
    assume "r \<in> reach W m1 (insert p (set as))"
    with reach_loop [of r W m1 ?v ps] assms(4,5) im obtain cs where
      "exec W ?w ?v (cs @ []) m1 = exec W ?w (?v(''tmp'' := r)) [] m1" by metis
    then have e: "exec W ?w ?v cs m1 = Fell (?v(''tmp'' := r)) [] m1" by (simp add: exec_while del: exec.simps(11))
    show "r \<in> {r. \<exists>cs cs' m'. run_override W (Override b nm ps (conservative_body ps)) as (c # cs) m =
      Some (r, cs', m')}" by (rule CollectI, rule exI [of _ cs], simp add: run e del: exec.simps)
  next
    fix r
    assume "r \<in> {r. \<exists>cs cs' m'. run_override W (Override b nm ps (conservative_body ps)) as (c # cs) m =
      Some (r, cs', m')}"
    then obtain cs cs' m' where r: "run_override W (Override b nm ps (conservative_body ps)) as (c # cs) m =
      Some (r, cs', m')" by blast
    have "mixed W m1 (insert p (set as)) ps ?v m1" using im by (auto simp: mixed_def intro: reach.base)
    then have "outcome_ok (mixed W m1 (insert p (set as)) ps) (exec W ?w ?v cs m1)"
      by (auto intro!: loop_ok mix_args_ok [OF assms(1,5)])
    with r show "r \<in> reach W m1 (insert p (set as))"
      by (auto simp: run mixed_def simp del: exec.simps split: outcome.splits)
  qed
qed

theorem conservative_returns_witness:
  "{r. \<exists>cs cs' m'. run_override ex_world (Override False ''f'' [''arg0''] (conservative_body [''arg0'']))
      [8] (3 # cs) (\<lambda>a. a + 8) = Some (r, cs', m')} =
    reach ex_world (\<lambda>a. a + 8) (insert 0x1000 (set [8]))"
  by (rule conservative_returns) (simp_all add: ex_world_def word_memory_def)

end
