(* ===== verification/Heap_Runs.thy ===== *)
theory Heap_Runs
  imports Vhmalloc_Spec
begin

text \<open>
  The allocator as a state machine: any sequence of allocations, releases and taggings of one
  thread, next to the list of live blocks that its callers have. What the single operations do
  (\<open>Vhmalloc_Spec\<close>) adds up to an invariant of all reachable states.
\<close>

section \<open>Steps\<close>

text \<open>A block: its address, its size and its tag.\<close>

type_synonym block = "u64 \<times> nat \<times> u64"

fun in_block :: "block \<Rightarrow> u64 \<Rightarrow> bool" where
  "in_block (b, n, t) a \<longleftrightarrow> unat b \<le> unat a \<and> unat a < unat b + n"

definition mmap_fresh :: "u64 \<Rightarrow> u64 \<Rightarrow> vhm \<Rightarrow> bool" where
  "mmap_fresh base sz st \<longleftrightarrow>
     (\<forall>p. malloc_bin sz = Ok p \<longrightarrow>
        fresh_mapping base (slab_pages (2 ^ (p + 4)) (2 * overprovision) * 4096) st)"

inductive heap_step :: "vhm \<times> block list \<Rightarrow> vhm \<times> block list \<Rightarrow> bool" where
  step_malloc: "2 \<le> unat sz \<Longrightarrow> unat sz \<le> 2 ^ 29 \<Longrightarrow> mmap_fresh base sz st \<Longrightarrow>
    xxmalloc base rnd sys sz st = Ok (ptr, st') \<Longrightarrow>
    heap_step (st, bs) (st', (ptr, xxmalloc_usable_size st' ptr, - 1) # bs)"
| step_free: "blk \<in> set bs \<Longrightarrow> in_block blk p \<Longrightarrow> xxfree p st = Ok st' \<Longrightarrow>
    heap_step (st, bs) (st', remove1 blk bs)"
| step_foreign: "getSlab st p = None \<Longrightarrow> xxfree p st = Ok st' \<Longrightarrow> heap_step (st, bs) (st', bs)"
| step_tag: "(b, n, - 1) \<in> set bs \<Longrightarrow> in_block (b, n, - 1) p \<Longrightarrow> tag \<noteq> 0 \<Longrightarrow> setTag p tag st = Ok st' \<Longrightarrow>
    heap_step (st, bs) (st', (b, n, tag) # remove1 (b, n, - 1) bs)"

definition heap_start :: "vhm \<Rightarrow> bool" where
  "heap_start st \<longleftrightarrow> thread_state st = Uninit \<and> num_slabs st = 0 \<and> slabMap st = (\<lambda>_. None)"

section \<open>The invariant\<close>

definition apart_blocks :: "block list \<Rightarrow> bool" where
  "apart_blocks bs \<longleftrightarrow>
     distinct bs \<and> (\<forall>x\<in>set bs. \<forall>y\<in>set bs. \<forall>a. in_block x a \<and> in_block y a \<longrightarrow> x = y)"

fun block_ok :: "vhm \<Rightarrow> block \<Rightarrow> bool" where
  "block_ok st (b, n, t) \<longleftrightarrow> 0 < unat b \<and> 0 < n \<and> t \<noteq> 0 \<and>
     (\<forall>a. in_block (b, n, t) a \<longrightarrow> PointerInfo_of st a = Ok (t, unat a - unat b))"

definition heap_inv :: "vhm \<times> block list \<Rightarrow> bool" where
  "heap_inv = (\<lambda>(st, bs). vh_started st \<and> apart_blocks bs \<and> (\<forall>blk\<in>set bs. block_ok st blk) \<and>
     (\<forall>a. (\<forall>blk\<in>set bs. \<not> in_block blk a) \<longrightarrow> PointerInfo_of st a = Ok (0, 0)))"

lemma blocks_apart:
  "heap_inv (st, bs) \<Longrightarrow> x \<in> set bs \<Longrightarrow> y \<in> set bs \<Longrightarrow> in_block x a \<Longrightarrow> in_block y a \<Longrightarrow> x = y"
  unfolding heap_inv_def apart_blocks_def by blast

text \<open>An element in use, at each of its addresses.\<close>

lemma element_info:
  assumes inv: "vh_inv st" and s: "s < num_slabs st" "i < capacity (slabs st s)"
    and t: "ids (slabs st s) ! i = t" "t \<noteq> 0" and e: "in_elem st s i a"
  shows "PointerInfo_of st a =
      Ok (t, unat a - (unat (objects (slabs st s)) + i * element_size (pool_of st s)))"
    and "getSlab st a = Some s"
proof -
  have sok: "slab_ok st s" using inv s by (simp add: vh_inv_def)
  have ins: "in_slab st s a" by (rule in_elem_in_slab [OF e s(2)])
  with inv s show g: "getSlab st a = Some s" by (simp add: getSlab_iff)
  have pos: "0 < element_size (pool_of st s)" using element_size_pos [OF inv] sok by (simp add: slab_ok_def)
  have "getElementIndex st s a =
      Ok (i, unat a - (unat (objects (slabs st s)) + i * element_size (pool_of st s)))"
    using getElementIndex_in(1) [OF sok ins pos] in_elem_div [OF ins pos] e elem_offset [OF e] by simp
  with g t show "PointerInfo_of st a =
      Ok (t, unat a - (unat (objects (slabs st s)) + i * element_size (pool_of st s)))"
    by (simp add: PointerInfo_of_def getid_def Let_def)
qed

text \<open>A live block is an element, and its size the usable size of its pointers.\<close>

lemma no_slabs_info:
  assumes "heap_start st"
  shows "PointerInfo_of st a = Ok (0, 0)"
  using assms by (simp add: PointerInfo_of_def getSlab_def heap_start_def)

lemma live_inv:
  assumes "heap_inv (st, bs)" and "blk \<in> set bs"
  shows "vh_inv st" and "thread_state st = Ready"
proof -
  obtain b n t where k: "blk = (b, n, t)" by (cases blk)
  have "block_ok st (b, n, t)" "in_block (b, n, t) b"
    using assms k by (auto simp: heap_inv_def)
  then have "PointerInfo_of st b = Ok (t, 0)" "t \<noteq> 0" by auto
  then have "\<not> heap_start st" using no_slabs_info [of st b] by auto
  then show "vh_inv st" "thread_state st = Ready"
    using assms(1) by (auto simp: heap_inv_def vh_started_def heap_start_def)
qed

lemma word_above:
  assumes "unat b + k < 2 ^ 64"
  shows "unat (b + of_nat k :: u64) = unat b + k"
  using assms by (subst unat_plus_small) (simp_all add: unat_of_nat_small)

lemma block_usable:
  assumes h: "heap_inv (st, bs)" and k: "(b, n, t) \<in> set bs" and a: "in_block (b, n, t) a"
  shows "xxmalloc_usable_size st a = n"
proof -
  note inv = live_inv(1) [OF h k]
  have ok: "0 < n" "t \<noteq> 0" and info: "\<And>a. in_block (b, n, t) a \<Longrightarrow> PointerInfo_of st a = Ok (t, unat a - unat b)"
    using h k by (auto simp: heap_inv_def)
  obtain s i where e: "s < num_slabs st" "getSlab st a = Some s" "i < capacity (slabs st s)"
    "ids (slabs st s) ! i = t" "slab_ok st s"
    and st: "unat a - (unat a - unat b) = unat (objects (slabs st s)) + i * element_size (pool_of st s)"
    using tagged_elem [OF inv info [OF a] ok(2)] by metis
  let ?e = "element_size (pool_of st s)"
  have pos: "0 < ?e" using element_size_pos [OF inv] e(5) by (simp add: slab_ok_def)
  have start: "unat b = unat (objects (slabs st s)) + i * ?e" using st a by auto
  have "(i + 1) * ?e \<le> slab_bytes st s"
    unfolding slab_bytes_def using e(3) by (intro mult_right_mono) simp_all
  moreover have "unat (objects (slabs st s)) + slab_bytes st s \<le> 2 ^ 47" using e(5) by (simp add: slab_ok_def)
  ultimately have top: "unat b + ?e \<le> 2 ^ 47" unfolding start by simp
  have el: "in_elem st s i x \<longleftrightarrow> unat b \<le> unat x \<and> unat x < unat b + ?e" for x
    using in_elem_range [OF start] .
  have "?e = n"
  proof (rule ccontr)
    assume "?e \<noteq> n"
    then consider "n < ?e" | "?e < n" by linarith
    then show False
    proof cases
      case 1
      let ?x = "b + of_nat n"
      have x: "unat ?x = unat b + n" using top 1 by (intro word_above) simp
      have "PointerInfo_of st ?x = Ok (t, n)"
        using element_info(1) [OF inv e(1,3,4) ok(2), of ?x] el [of ?x] x 1 start by simp
      then have "\<exists>y\<in>set bs. in_block y ?x" using h ok(2) by (auto simp: heap_inv_def)
      then obtain b' n' t' where y: "(b', n', t') \<in> set bs" "in_block (b', n', t') ?x" by (metis prod_cases3)
      then have "PointerInfo_of st ?x = Ok (t', unat ?x - unat b')" using h by (auto simp: heap_inv_def)
      with \<open>PointerInfo_of st ?x = Ok (t, n)\<close> y(2) x have "unat b' = unat b" by auto
      with y ok(1) have "in_block (b', n', t') b" "in_block (b, n, t) b" by auto
      from blocks_apart [OF h y(1) k this] have "(b', n', t') = (b, n, t)" .
      with y(2) x show False by simp
    next
      case 2
      let ?x = "b + of_nat ?e"
      have x: "unat ?x = unat b + ?e" using top by (intro word_above) simp
      with 2 have "in_block (b, n, t) ?x" by simp
      from info [OF this] x have ix: "PointerInfo_of st ?x = Ok (t, ?e)" by simp
      obtain s' i' where e': "s' < num_slabs st" "getSlab st ?x = Some s'" "i' < capacity (slabs st s')"
        "getElementIndex st s' ?x = Ok (i', ?e)" "ids (slabs st s') ! i' = t" "slab_ok st s'"
        and st': "unat ?x - ?e = unat (objects (slabs st s')) + i' * element_size (pool_of st s')"
        using tagged_elem [OF inv ix ok(2)] by metis
      have pos': "0 < element_size (pool_of st s')"
        using element_size_pos [OF inv] e'(6) by (simp add: slab_ok_def)
      have "in_slab st s' ?x" using e'(1,2) inv by (simp add: getSlab_iff)
      from getElementIndex_in(1) [OF e'(6) this pos'] e'(4)
      have "?e = (unat ?x - unat (objects (slabs st s'))) mod element_size (pool_of st s')" by simp
      then have "?e < element_size (pool_of st s')" using pos' by (metis mod_less_divisor)
      moreover have "in_elem st s' i' b" using st' x pos' by (simp add: in_elem_range)
      then have "getSlab st b = Some s'" using element_info(2) [OF inv e'(1,3,5) ok(2)] by blast
      moreover have "getSlab st b = Some s"
        using element_info(2) [OF inv e(1,3,4) ok(2), of b] el [of b] pos by simp
      ultimately show False by simp
    qed
  qed
  then show ?thesis using e(2) by (simp add: xxmalloc_usable_size_def)
qed

section \<open>Every step keeps it\<close>

lemma malloc_step_inv:
  assumes h: "heap_inv (st, bs)" and sz: "2 \<le> unat sz" "unat sz \<le> 2 ^ 29" and f: "mmap_fresh base sz st"
    and m: "xxmalloc base rnd sys sz st = Ok (ptr, st')"
  shows "heap_inv (st', (ptr, xxmalloc_usable_size st' ptr, - 1) # bs)"
proof -
  let ?n = "xxmalloc_usable_size st' ptr"
  let ?new = "(ptr, ?n, - 1) :: block"
  have started: "vh_started st" using h by (simp add: heap_inv_def)
  obtain q st2 where x: "xxmalloc base rnd sys sz st = Ok (q, st2)" and ts: "thread_state st2 = Ready"
    and inv: "vh_inv st2" and us: "unat sz \<le> xxmalloc_usable_size st2 q" and q: "0 < unat q"
    and info: "\<And>a. PointerInfo_of st2 a =
      (if unat q \<le> unat a \<and> unat a < unat q + xxmalloc_usable_size st2 q
       then Ok (- 1, unat a - unat q) else PointerInfo_of st a)"
    and old: "\<And>a. unat q \<le> unat a \<Longrightarrow> unat a < unat q + xxmalloc_usable_size st2 q \<Longrightarrow>
      PointerInfo_of st a = Ok (0, 0)"
    by (rule xxmalloc_ok [OF started sz, of base rnd sys]) (use f in \<open>simp add: mmap_fresh_def\<close>, rule that)
  have eq: "q = ptr" "st2 = st'" using x m by simp_all
  have info': "PointerInfo_of st' a = (if in_block ?new a then Ok (- 1, unat a - unat ptr) else PointerInfo_of st a)"
    for a using info by (simp add: eq)
  have sep: "\<not> in_block ?new a" if "blk \<in> set bs" "in_block blk a" for blk a
  proof
    assume "in_block ?new a"
    then have "PointerInfo_of st a = Ok (0, 0)" using old [unfolded eq, of a] by simp
    moreover obtain b n t where "blk = (b, n, t)" by (cases blk)
    ultimately show False using h that by (auto simp: heap_inv_def)
  qed
  have "block_ok st' blk" if "blk \<in> set bs" for blk
    using h that sep [OF that] by (cases blk) (auto simp: heap_inv_def info' simp del: in_block.simps)
  moreover have "block_ok st' ?new" using q us sz(1) by (simp add: eq info')
  moreover have self: "in_block ?new ptr" using us sz(1) by (simp add: eq)
  moreover have "apart_blocks bs" using h by (simp add: heap_inv_def)
  moreover have "?new \<notin> set bs" using sep [of ?new ptr] self by blast
  ultimately show ?thesis
    using h sep ts inv unfolding eq
    by (auto simp: heap_inv_def apart_blocks_def vh_started_def info' simp del: in_block.simps block_ok.simps)
qed

text \<open>Changing one block: what \<open>xxfree\<close> and \<open>setTag\<close> do to the addresses of a live block.\<close>

lemma change_block:
  assumes h: "heap_inv (st, bs)" and k: "(b, n, t) \<in> set bs" and inv: "vh_inv st'"
    and ts: "thread_state st' = thread_state st"
    and info: "\<And>a. PointerInfo_of st' a = (if in_block (b, n, t) a then f a else PointerInfo_of st a)"
  shows "(\<And>a. f a = Ok (0, 0)) \<Longrightarrow> heap_inv (st', remove1 (b, n, t) bs)"
    and "t' \<noteq> 0 \<Longrightarrow> (\<And>a. f a = Ok (t', unat a - unat b)) \<Longrightarrow> heap_inv (st', (b, n, t') # remove1 (b, n, t) bs)"
proof -
  have d: "distinct bs" "apart_blocks (remove1 (b, n, t) bs)" "set (remove1 (b, n, t) bs) = set bs - {(b, n, t)}"
    using h by (auto simp: heap_inv_def apart_blocks_def)
  have started: "vh_started st'" using inv ts live_inv(2) [OF h k] by (simp add: vh_started_def)
  have other: "\<not> in_block (b, n, t) a" if "blk \<in> set bs" "blk \<noteq> (b, n, t)" "in_block blk a" for blk a
    using blocks_apart [OF h that(1) k that(3)] that(2) by blast
  have ok: "block_ok st' blk" if "blk \<in> set bs" "blk \<noteq> (b, n, t)" for blk
    using h that(1) other [OF that] by (cases blk) (auto simp: heap_inv_def info simp del: in_block.simps)
  have out: "PointerInfo_of st a = Ok (0, 0)" if "\<forall>blk\<in>set bs. \<not> in_block blk a" for a
    using h that by (auto simp: heap_inv_def)
  have rest: "PointerInfo_of st' a = Ok (0, 0)"
    if "\<not> in_block (b, n, t) a" "\<forall>blk\<in>set bs - {(b, n, t)}. \<not> in_block blk a" for a
    using that out [of a] by (cases "in_block (b, n, t) a") (auto simp: info simp del: in_block.simps)
  show "heap_inv (st', remove1 (b, n, t) bs)" if f: "\<And>a. f a = Ok (0, 0)"
  proof -
    have "PointerInfo_of st' a = Ok (0, 0)" if "\<forall>blk\<in>set bs - {(b, n, t)}. \<not> in_block blk a" for a
      using that rest [of a] by (cases "in_block (b, n, t) a") (simp_all add: info f del: in_block.simps)
    then show ?thesis using started d ok by (auto simp: heap_inv_def simp del: in_block.simps block_ok.simps)
  qed
  show "heap_inv (st', (b, n, t') # remove1 (b, n, t) bs)"
    if t': "t' \<noteq> 0" and f: "\<And>a. f a = Ok (t', unat a - unat b)"
  proof -
    have i: "in_block (b, n, t') a = in_block (b, n, t) a" for a by simp
    have new: "block_ok st' (b, n, t')"
      using h k t' by (auto simp: heap_inv_def info f simp del: in_block.simps) (auto simp: i)
    have "0 < n" using h k by (auto simp: heap_inv_def)
    then have "(b, n, t') \<notin> set bs - {(b, n, t)}" using other [of "(b, n, t')" b] by auto
    then have "apart_blocks ((b, n, t') # remove1 (b, n, t) bs)"
      using d other by (auto simp: apart_blocks_def i simp del: in_block.simps)
    then show ?thesis
      using started d(3) ok new rest by (auto simp: heap_inv_def i simp del: in_block.simps block_ok.simps)
  qed
qed

text \<open>Every pointer into a live block can be freed, and tagged when the block has no tag yet.\<close>

lemma free_ok:
  assumes h: "heap_inv (st, bs)" and k: "blk \<in> set bs" and p: "in_block blk p"
  shows "\<exists>st'. xxfree p st = Ok st' \<and> heap_inv (st', remove1 blk bs)"
proof -
  obtain b n t where blk: "blk = (b, n, t)" by (cases blk)
  note k = k [unfolded blk] and p = p [unfolded blk]
  note inv = live_inv(1) [OF h k]
  have "PointerInfo_of st p = Ok (t, unat p - unat b)" "t \<noteq> 0" using h k p by (auto simp: heap_inv_def)
  from xxfree_ok [OF inv this] obtain st' where f: "xxfree p st = Ok st'" "vh_inv st'"
    and info: "\<And>a. PointerInfo_of st' a =
      (if unat p - (unat p - unat b) \<le> unat a \<and>
          unat a < unat p - (unat p - unat b) + xxmalloc_usable_size st p
       then Ok (0, 0) else PointerInfo_of st a)"
    and ts: "thread_state st' = thread_state st" by blast
  have "unat p - (unat p - unat b) = unat b" using p by simp
  with info block_usable [OF h k p] have
    "PointerInfo_of st' a = (if in_block (b, n, t) a then Ok (0, 0) else PointerInfo_of st a)" for a by simp
  from change_block(1) [OF h k f(2) ts this] f(1) show ?thesis by (simp add: blk)
qed

lemma tag_ok:
  assumes h: "heap_inv (st, bs)" and k: "(b, n, - 1) \<in> set bs" and p: "in_block (b, n, - 1) p" and "tag \<noteq> 0"
  shows "\<exists>st'. setTag p tag st = Ok st' \<and> heap_inv (st', (b, n, tag) # remove1 (b, n, - 1) bs)"
proof -
  note inv = live_inv(1) [OF h k]
  have "PointerInfo_of st p = Ok (- 1, unat p - unat b)" using h k p by (auto simp: heap_inv_def)
  from setTag_ok [OF inv this assms(4)] obtain st' where f: "setTag p tag st = Ok st'" "vh_inv st'"
    and info: "\<And>a. PointerInfo_of st' a =
      (if unat p - (unat p - unat b) \<le> unat a \<and>
          unat a < unat p - (unat p - unat b) + xxmalloc_usable_size st p
       then Ok (tag, unat a - (unat p - (unat p - unat b))) else PointerInfo_of st a)"
    and ts: "thread_state st' = thread_state st" by blast
  have "unat p - (unat p - unat b) = unat b" using p by simp
  with info block_usable [OF h k p] have
    "PointerInfo_of st' a = (if in_block (b, n, - 1) a then Ok (tag, unat a - unat b) else PointerInfo_of st a)"
    for a by simp
  from change_block(2) [OF h k f(2) ts this assms(4)] f(1) show ?thesis by simp
qed

lemma heap_step_inv: "heap_step s s' \<Longrightarrow> heap_inv s \<Longrightarrow> heap_inv s'"
proof (induction rule: heap_step.induct)
  case (step_malloc sz base st rnd sys ptr st' bs)
  then show ?case by (intro malloc_step_inv)
next
  case (step_free blk bs p st st')
  with free_ok [OF step_free.prems step_free.hyps(1,2)] show ?case by auto
next
  case (step_foreign st p st' bs)
  then have "st' = st" by (simp add: xxfree_def split: if_splits)
  with step_foreign.prems show ?case by simp
next
  case (step_tag b n bs p tag st st')
  with tag_ok [OF step_tag.prems step_tag.hyps(1-3)] show ?case by auto
qed

lemma heap_start_inv: "heap_start st \<Longrightarrow> heap_inv (st, [])"
  using no_slabs_info [of st] by (simp add: heap_inv_def apart_blocks_def vh_started_def heap_start_def)

lemma heap_runs_inv: "heap_step\<^sup>*\<^sup>* s s' \<Longrightarrow> heap_inv s \<Longrightarrow> heap_inv s'"
  by (induction rule: rtranclp_induct) (auto intro: heap_step_inv)

text \<open>
  C8. In every state that a thread can bring the allocator into by allocating (sizes from 2 to
  \<open>2 ^ 29\<close>, \<open>mmap\<close> giving unused memory), freeing and tagging live blocks and passing foreign
  pointers to \<open>xxfree\<close>: live blocks do not overlap; each address of a live block, and no other,
  reports a tag, that of its block, with its offset in it; the usable size at each of them is the
  size of the block; and freeing the block through any of them succeeds, as does tagging one that
  has no tag.
\<close>

theorem heap_reachable:
  assumes "heap_start st0" and "heap_step\<^sup>*\<^sup>* (st0, []) (st, bs)"
  shows "apart_blocks bs \<and>
    (\<forall>a. PointerInfo_of st a = Ok (0, 0) \<longleftrightarrow> (\<forall>blk\<in>set bs. \<not> in_block blk a)) \<and>
    (\<forall>b n t a. (b, n, t) \<in> set bs \<and> in_block (b, n, t) a \<longrightarrow>
      0 < unat b \<and> PointerInfo_of st a = Ok (t, unat a - unat b) \<and> xxmalloc_usable_size st a = n \<and>
      (\<exists>st'. xxfree a st = Ok st') \<and> (t = - 1 \<longrightarrow> (\<forall>tag. tag \<noteq> 0 \<longrightarrow> (\<exists>st'. setTag a tag st = Ok st'))))"
proof -
  have h: "heap_inv (st, bs)" using heap_runs_inv [OF assms(2) heap_start_inv [OF assms(1)]] .
  have ok: "PointerInfo_of st a = Ok (t, unat a - unat b)" "0 < unat b" "t \<noteq> 0"
    if "(b, n, t) \<in> set bs" "in_block (b, n, t) a" for b n t a
    using h that by (auto simp: heap_inv_def)
  have "PointerInfo_of st a = Ok (0, 0) \<longleftrightarrow> (\<forall>blk\<in>set bs. \<not> in_block blk a)" for a
  proof
    assume z: "PointerInfo_of st a = Ok (0, 0)"
    show "\<forall>blk\<in>set bs. \<not> in_block blk a"
    proof
      fix blk
      assume "blk \<in> set bs"
      then show "\<not> in_block blk a" using ok(1,3) [of "fst blk" "fst (snd blk)" "snd (snd blk)" a] z by auto
    qed
  qed (use h in \<open>simp add: heap_inv_def\<close>)
  moreover have "apart_blocks bs" using h by (simp add: heap_inv_def)
  moreover have live: "0 < unat b \<and> PointerInfo_of st a = Ok (t, unat a - unat b) \<and> xxmalloc_usable_size st a = n \<and>
      (\<exists>st'. xxfree a st = Ok st') \<and> (t = - 1 \<longrightarrow> (\<forall>tag. tag \<noteq> 0 \<longrightarrow> (\<exists>st'. setTag a tag st = Ok st')))"
    if m: "(b, n, t) \<in> set bs" "in_block (b, n, t) a" for b n t a
  proof -
    have "\<exists>st'. setTag a tag st = Ok st'" if "t = - 1" "tag \<noteq> 0" for tag
      using tag_ok [OF h, of b n a tag] m that by blast
    then show ?thesis using ok(1,2) [OF m] block_usable [OF h m] free_ok [OF h m] by blast
  qed
  ultimately show ?thesis by (auto simp del: in_block.simps)
qed

text \<open>An allocation of 20 bytes, tagged.\<close>

lemma ex_heap_run: "\<exists>st b n. heap_step\<^sup>*\<^sup>* (ex_vh, []) (st, [(b, n, 7)]) \<and> 20 \<le> n"
proof -
  have s: "heap_start ex_vh" by (simp add: heap_start_def ex_vh_def)
  have f: "mmap_fresh 0x10000 20 ex_vh" using ex_fresh by (simp add: mmap_fresh_def)
  obtain b st1 where m: "xxmalloc 0x10000 5 0 20 ex_vh = Ok (b, st1)" "unat (20 :: u64) \<le> xxmalloc_usable_size st1 b"
    by (rule xxmalloc_ok [OF ex_vh_started, where sz = 20 and base = "0x10000" and rnd = 5 and sys = 0])
      (simp, simp, rule ex_fresh, blast+)
  let ?n = "xxmalloc_usable_size st1 b"
  have 1: "heap_step (ex_vh, []) (st1, [(b, ?n, - 1)])"
    by (rule step_malloc [OF _ _ f m(1)]) simp_all
  have i: "in_block (b, ?n, - 1) b" using m(2) by simp
  from tag_ok [OF heap_step_inv [OF 1 heap_start_inv [OF s]] _ i, of 7] obtain st2 where "setTag b 7 st1 = Ok st2" by auto
  then have "heap_step (st1, [(b, ?n, - 1)]) (st2, [(b, ?n, 7)])"
    using step_tag [of b ?n "[(b, ?n, - 1)]" b 7 st1 st2] i by simp
  note 2 = this
  have "heap_step\<^sup>*\<^sup>* (ex_vh, []) (st2, [(b, ?n, 7)])" by (rule converse_rtranclp_into_rtranclp [OF 1 r_into_rtranclp [of heap_step, OF 2]])
  moreover have "20 \<le> ?n" using m(2) by simp
  ultimately show ?thesis by blast
qed

theorem heap_reachable_witness:
  "\<exists>st b n. heap_step\<^sup>*\<^sup>* (ex_vh, []) (st, [(b, n, 7)]) \<and> 20 \<le> n \<and> apart_blocks [(b, n, 7)] \<and>
    PointerInfo_of st b = Ok (7, 0) \<and> xxmalloc_usable_size st b = n \<and> (\<exists>st'. xxfree b st = Ok st')"
proof -
  obtain st b n where r: "heap_step\<^sup>*\<^sup>* (ex_vh, []) (st, [(b, n, 7)])" and n: "20 \<le> n"
    using ex_heap_run by blast
  have "heap_start ex_vh" by (simp add: heap_start_def ex_vh_def)
  note h = heap_reachable [OF this r]
  have "(b, n, 7) \<in> set [(b, n, 7)] \<and> in_block (b, n, 7) b" using n by simp
  with h have "PointerInfo_of st b = Ok (7, unat b - unat b)" "xxmalloc_usable_size st b = n"
    "\<exists>st'. xxfree b st = Ok st'" "apart_blocks [(b, n, 7)]" by blast+
  with r n show ?thesis by (metis diff_self_eq_0)
qed

end
