(* ===== verification/Edge_Set_Bounds.thy ===== *)
theory Edge_Set_Bounds
  imports Edge_Hash_Set_Inv
begin

text \<open>
  The arithmetic of the edge table stays in range: its size in bytes fits a signed 64-bit number, its
  load stays at three quarters, and no probe leaves it.
\<close>

lemma and_mask_less:
  assumes "unat ec = 2 ^ k" and "k < 64"
  shows "unat (h AND (ec - 1 :: u64)) < unat ec"
proof -
  have "ec \<noteq> 0" using assms(1) by (metis power_not_zero unat_0 zero_neq_numeral)
  then have "unat (ec - 1) = unat ec - 1" by (metis unat_minus_one)
  moreover have "unat (h AND (ec - 1)) \<le> unat (ec - 1)"
    by (metis and.commute word_and_le2 word_le_nat_alt)
  ultimately show ?thesis using assms(1) by (simp add: le_less_trans)
qed

lemma probes_inside:
  "unat ec = 2 ^ k \<Longrightarrow> k < 64 \<Longrightarrow> \<forall>j\<in>set (probe_list ec n h). j < unat ec"
proof (induction ec n h rule: probe_list.induct)
  case (2 ec n h)
  note m = and_mask_less [OF "2.prems"]
  with 2 show ?case by (auto simp: Let_def)
qed simp

lemma length_probes: "length (probe_list ec n h) = n"
  by (induction ec n h rule: probe_list.induct) (simp_all add: Let_def)

lemma table_run_inv:
  assumes "EdgeHashSet_init truncate_ok base n = Ok hs0" and "n < 31" and "off_t_limit truncate_ok"
    and "\<forall>e\<in>set es. edge_ok_key e"
    and "for_each (\<lambda>e s. try_r (add_edge fnv truncate_ok e s) (\<lambda>(_, s). Ok s)) es hs0 = Ok hs"
  shows "hs_inv fnv hs"
proof -
  have "hs_inv fnv hs0 \<and> off_t_limit truncate_ok" using init_inv [OF assms(1,2)] assms(3) by simp
  with hash_set.add_all [OF assms(5) _ assms(4)] show ?thesis by simp
qed

text \<open>
  C6. However many edges have been added to a fresh table: the number of slots is a power of
  two below \<open>2 ^ 59\<close>, so its size in bytes is computed without wrap-around and fits the signed size
  of \<open>ftruncate\<close>; the threshold is three quarters of it, computed without wrap-around; at most that
  many slots are used; and an edge is looked for in at most 1024 slots, all of them inside the table.
\<close>

theorem edge_table_bounds:
  assumes "EdgeHashSet_init truncate_ok base n = Ok hs0" and "n < 31" and "off_t_limit truncate_ok"
    and "\<forall>e\<in>set es. edge_ok_key e"
    and "for_each (\<lambda>e s. try_r (add_edge fnv truncate_ok e s) (\<lambda>(_, s). Ok s)) es hs0 = Ok hs"
  shows "(\<exists>k<59. unat (edge_count hs) = 2 ^ k) \<and> length (slots hs) = unat (edge_count hs) \<and>
    unat (edge_size (edge_count hs)) = 16 * unat (edge_count hs) \<and> unat (edge_size (edge_count hs)) < 2 ^ 63 \<and>
    unat (resize_threshold hs) = 3 * unat (edge_count hs) div 4 \<and>
    card (edge_key ` set es) \<le> 3 * unat (edge_count hs) div 4 \<and>
    length (slots_of fnv (edge_count hs) e) = 1024 \<and>
    (\<forall>j\<in>set (slots_of fnv (edge_count hs) e). j < length (slots hs))"
proof -
  have inv: "hs_inv fnv hs" by (rule table_run_inv [OF assms])
  then obtain k where ec: "edge_count hs = push_bit k 1" and k: "k < 59"
    and th: "resize_threshold hs = (edge_count hs * 3) div 4"
    and le: "inserted_edges hs \<le> resize_threshold hs"
    and len: "length (slots hs) = unat (edge_count hs)"
    by (auto simp: hs_inv_def slots_def)
  have u: "unat (edge_count hs) = 2 ^ k" using k by (simp only: ec unat_pow2)
  have "(2::nat) ^ k \<le> 2 ^ 58" using k by (intro power_increasing) simp_all
  then have sz: "unat (edge_size (edge_count hs)) = 16 * unat (edge_count hs)" "16 * unat (edge_count hs) < 2 ^ 63"
    using u by (simp_all add: edge_size_def unat_word_ariths)
  have t: "unat (resize_threshold hs) = 3 * unat (edge_count hs) div 4"
    using unat_threshold [OF k] u unfolding th ec by simp
  have "unat (inserted_edges hs) = card (edge_key ` set es)" using table_contents [OF assms] by blast
  with le t have load: "card (edge_key ` set es) \<le> 3 * unat (edge_count hs) div 4"
    by (simp add: word_le_nat_alt)
  have "\<forall>j\<in>set (slots_of fnv (edge_count hs) e). j < length (slots hs)"
    using probes_inside [OF u] k by (simp add: len slots_of_def seq_list_def IndexSequence_def)
  moreover have "length (slots_of fnv (edge_count hs) e) = 1024"
    by (simp add: slots_of_def seq_list_def IndexSequence_def length_probes)
  ultimately show ?thesis using u k len sz t load by auto
qed

theorem edge_table_bounds_witness:
  "unat (edge_count ex_hs3) = 4 \<and> (\<exists>k<59. unat (edge_count ex_hs3) = 2 ^ k) \<and>
   unat (edge_size (edge_count ex_hs3)) = 64 \<and> card (edge_key ` set [ex_te 5, ex_te 6, ex_te 5]) \<le> 3"
proof -
  have "for_each (\<lambda>e s. try_r (add_edge (\<lambda>_. 0) (\<lambda>n. n \<le> 64) e s) (\<lambda>(_, s). Ok s))
      [ex_te 5, ex_te 6, ex_te 5] ex_hs0 = Ok ex_hs3"
    by (simp add: ex_add1 ex_add2 ex_add3)
  note b = edge_table_bounds [OF ex_init _ ex_limit _ this, of "ex_te 5"]
  have "unat (edge_count ex_hs3) = 4" by (simp add: ex_hs3_def ex_hs2_def)
  with b show ?thesis by (simp add: ex_te_ok)
qed

end
