(* ===== verification/Spec2Isabelle.thy ===== *)
theory Spec2Isabelle
  imports Pass_Spec Graph_Roundtrip Trace_Runtime Static_Object Object_Parsing Coredump Points_To_Spec Dlsym_Pages Trace_Simplify Bracelet_Edges_Spec
    Override_Agree Override_Conservative Heap_Runs Edge_Set_Bounds
begin

text \<open>
  Bracelet finds out which code of a program a given entry can reach, through function pointers too. A
  compiler pass leaves in every object file a graph of the pointer flow of its functions; the graphs are read
  back from a linked program or from a core dump of it, written out as tables of facts or as a C program
  that a points-to analysis solves, and the solution can be checked against traces that instrumented code
  recorded while it ran. These theories model the code that does this and prove what the parts promise
  to each other.

  \<^bold>\<open>Parts and theories.\<close> All paths are below \<open>src/\<close> of the repository.

  \<^item> \<open>Result\<close>: \<open>Result_Type\<close>. A result is a value, an error with its growing message, or
    \<open>Abort\<close>, which stands for a failed assertion, an abort or an undefined access. \<open>Bracelet_Prelude\<close>
    and \<open>Numerals\<close> hold the words, bytes, texts and numerals that all theories share.
  \<^item> \<open>BraceletReachability/BraceletReachability.cpp\<close>, \<open>AllocFunctions.h\<close>: \<open>Reachability_Pass\<close> is the pass, from
    a constant's node and the visit methods to the loop over the module. \<open>Reachability_Logic\<close> has the contract
    \<open>open_writer\<close> under which the pass uses the writers, and a logic of triples \<open>op\<close> and \<open>step\<close> whose
    assertions last; \<open>Reachability_Inv\<close> states what each kind of instruction stands for and proves it of the
    visit method; \<open>Reachability_Spec\<close> puts a function together, \<open>Reachability_Module\<close> a module, and \<open>Pass_Spec\<close>
    has the properties and an example that is evaluated to the bytes of the graph.
  \<^item> \<open>BraceletReachability/dlsym_runtime.c\<close>: \<open>Dlsym_Pages\<close>, the lock-free list of pages that records what \<open>dlsym\<close>
    returned, as a step relation over any number of threads.
  \<^item> \<open>Edges\<close>: \<open>Edge_Types\<close> (\<open>Edges.h\<close>), \<open>Edge_Encoding\<close> (\<open>Encoding.h\<close>), \<open>Graph_Writer\<close>, \<open>Graph_Reader\<close>. The tables of
    the writer follow the contract \<open>interning\<close>; \<open>Graph_Writer_Inv\<close> describes the runs of a writer and what the
    stream holds after one, \<open>Graph_Roundtrip\<close> that reading gives it back, \<open>Read_Run\<close> what clients
    of \<open>readEdges\<close> may assume, \<open>Example_Image\<close> the image used in their examples.
  \<^item> \<open>ObjectParsing\<close>: \<open>Object_Api\<close> is the virtual class \<open>Object\<close> with its contract \<open>object_contract\<close>, kept by
    \<open>Static_Object\<close> (\<open>StaticObject.cpp\<close>) and \<open>Coredump\<close> (\<open>CoredumpObject.cpp\<close>); \<open>Object_Parsing\<close> holds the DWARF queries.
  \<^item> \<open>Tracing/Runtime\<close>: \<open>Vhmalloc\<close>, with the lists of \<open>Linked_Lists\<close>, the invariant of \<open>Vhmalloc_Inv\<close> and the
    operations in \<open>Vhmalloc_Spec\<close>, which keep the contract \<open>tagged_heap\<close> of \<open>Tagged_Heap\<close>; \<open>Heap_Runs\<close>, the states
    that a client can bring the allocator into; \<open>Elf_Segments\<close>; \<open>Edge_Hash_Set\<close> and \<open>Edge_Hash_Set_Inv\<close>, which keep
    the contract \<open>edge_store\<close> of \<open>Edge_Store\<close>, and the bounds of the table in \<open>Edge_Set_Bounds\<close>;
    \<open>Trace_Runtime\<close>, the calls of instrumented code, which rest on these contracts.
  \<^item> \<open>RuntimeFormat/bracelet-trace-simplify.cpp\<close>: \<open>Trace_Simplify\<close>, which merges trace files.
  \<^item> \<open>PointsTo\<close>: \<open>Node_States\<close> (first pass over the graph), \<open>Emit_C\<close> (the files written), \<open>Emit_C_Spec\<close> with the
    invariant of \<open>Override_Nodes\<close>; \<open>Points_To\<close>
    (the solver in a child process, its answer, the check against traces, the command) and \<open>Points_To_Spec\<close>.
  \<^item> \<open>PointsTo/templates/prelude.txt\<close>, \<open>bracelet_scripts/points_to/templates/prelude.h\<close>: the functions that replace those of
    the C library in the C program. \<open>Override_Lang\<close> is the fragment of C they are written in, as syntax that is printed and as an
    interpreter whose memory, external functions and nondeterministic choices are arguments; \<open>Override_Prelude\<close> is the
    template with the table of overrides it fills, \<open>Override_Agree\<close> the header and its agreement with the template,
    \<open>Override_Conservative\<close> what the conservative overrides return.
  \<^item> \<open>bracelet-edges\<close>: \<open>Bracelet_Edges\<close> and \<open>Bracelet_Edges_Spec\<close>, the command that writes tables of facts.
  \<^item> \<open>Subprocess\<close>, \<open>tempfile\<close>: \<open>Processes\<close>.

  \<^bold>\<open>How code becomes definitions.\<close> A class is a record and a method a function on it that keeps the name of the
  source; calls that change state take and return it. Loops over lists are \<open>for_each\<close>. Machine integers are words,
  so that wrap-around is that of the code. Callbacks are functions on a state. What is not in the repository is an
  argument of the definitions that use it: LLVM's modules and answers, LLDB, streamvbyte and zstd (\<open>codec\<close>, with the
  round-trip laws in \<open>codec_ok\<close>), the sorting routine (\<open>sorter\<close>: some permutation), hash functions, \<open>mmap\<close>, \<open>dlsym\<close>,
  the kernel, the file system. Maps whose order the code does not fix are walked in an order that is an
  argument, or in that of insertion where the properties do not depend on it.

  \<^bold>\<open>What the lemmas show.\<close> The writer tables intern, and a finished run of a writer holds exactly what was
  written; reading a linked image reports those functions, locals and edges. The pass writes, for every function it
  does not skip, the edges its instructions stand for, all well typed, and its labels and its graphs are those that
  the readers of the linked program expect. The hash set implements a set through rehashing and the allocator a
  heap of tags in every state it can get into; on them rests that tracing records exactly the pairs it should. Segment rescans and
  page insertions are correct under every interleaving, and a page insertion that runs alone returns. The node states form a lattice
  of which the first pass computes the join, the emitted files hold exactly the statements of the edges, the overrides always return
  and stand for what their arguments reach,
  and a successful check means that all traced edges are in the solution, up to the exit code of the command.

  \<^bold>\<open>Bounds and fuel.\<close> The walk over \<open>dlsym\<close> pages (\<open>dlsym_pages\<close>, \<open>dlsym_assigns\<close>) does not end on a cyclic list of
  pages, so it takes fuel and is \<open>Abort\<close> without: a list of \<open>n\<close> pages needs more than \<open>n\<close> (proved in \<open>Emit_C_Spec\<close>, and
  in \<open>Dlsym_Pages\<close> of every list that the runtime builds). A loop of an override that is guarded by a nondeterministic choice
  runs on a finite list of choices and takes as much fuel as there are choices, which is the loop of C (\<open>exec_while\<close>), after which
  every choice is 0. All other loops are structural or have a measure. Graphs are
  read back if a module has at most \<open>2 ^ 31\<close> symbols, since a node word has 31 bits for
  the symbol; the other bounds (32-bit lengths, \<open>2 ^ 16\<close> locals) are assertions of the code and
  therefore consequences.

  \<^bold>\<open>Concurrency.\<close> \<open>Elf_Segments\<close> and \<open>Dlsym_Pages\<close> make every atomic operation a step of an inductive relation, over
  a sequentially consistent memory. The allocator is modelled for one thread, without its locks.

  \<^bold>\<open>Not modelled.\<close> The Python scripts, the generator of the runtime format, examples and tests carry none of the logic above; the
  functions of \<open>bracelet_reachability/overrides.c\<close> have empty bodies or one assignment. The parsing of JSON and bitcode and
  linking are arguments. The contents of heap memory, the fallback heap and \<open>memalign\<close> of the allocator, argument
  parsing, progress messages and files left behind by failed runs are left out as well.
\<close>

end
